(* ===== verification/Tornet_Prelude.thy ===== *)
theory Tornet_Prelude
  imports Main "HOL-Library.Word"
begin

text \<open>
  Shared vocabulary of the tornet development: the fixed-width integer types, the ways a C++
  operation can end abnormally, a state-and-exception type for operations that mutate an object
  and may throw half way, little-endian byte images of integers (the sources copy the object
  representation of an integer with memcpy; the development fixes the byte order of the x86
  hosts the program is built for), and the generic interfaces (codec, ordered map) that several
  components provide.
\<close>

named_theorems cmd_simps \<open>unfolding of the state-and-exception combinators\<close>
named_theorems keeps_intros \<open>preservation rules of the state-and-exception combinators\<close>
named_theorems byte_simps \<open>lengths and decodings of byte images\<close>

section \<open>Machine integers\<close>

type_synonym byte = "8 word"
type_synonym u16 = "16 word"
type_synonym u32 = "32 word"
type_synonym u64 = "64 word"
type_synonym sha1 = "160 word"

lemma signed_of_mod:
  fixes s m :: int
  assumes "- m \<le> s" "s < m"
  shows "s = (if s mod (2 * m) < m then s mod (2 * m) else s mod (2 * m) - 2 * m)"
proof (cases "s < 0")
  case True
  have "(s + 2 * m) mod (2 * m) = s + 2 * m" using assms True by (intro mod_pos_pos_trivial) auto
  then show ?thesis using assms True by simp
next
  case False
  then have "s mod (2 * m) = s" using assms by (intro mod_pos_pos_trivial) auto
  then show ?thesis using assms by simp
qed

lemma sint_unat:
  "sint (w :: 'a::len word) =
     (if unat w < 2 ^ (LENGTH('a) - 1) then int (unat w) else int (unat w) - 2 ^ LENGTH('a))"
proof -
  have p: "2 * (2 :: int) ^ (LENGTH('a) - 1) = 2 ^ LENGTH('a)"
    by (simp flip: power_Suc)
  have u: "sint w mod 2 ^ LENGTH('a) = int (unat w)"
    using uint_sint [of w] by (simp add: take_bit_eq_mod)
  have "unat w < 2 ^ (LENGTH('a) - 1) \<longleftrightarrow> int (unat w) < 2 ^ (LENGTH('a) - 1)"
    by (metis of_nat_less_numeral_power_cancel_iff of_nat_numeral)
  then show ?thesis
    using signed_of_mod [OF sint_ge [of w] sint_lt [of w], unfolded p u] by simp
qed

section \<open>Abnormal endings\<close>

text \<open>
  \<open>Throw\<close> is a C++ exception (FC_THROW_MSG, TORNET_THROW); \<open>Assert_fail\<close> a failed assert or
  BOOST_ASSERT; \<open>Exit\<close> a call of exit; \<open>Undefined\<close> an access the language leaves undefined
  (a read past an array, an iterator past the end). \<open>Out_of_fuel\<close> is not an ending of the program: it
  marks a recursion the model gave too few rounds.
\<close>

datatype exn = Throw string | Assert_fail string | Exit int | Undefined string | Out_of_fuel

type_synonym 'a res = "exn + 'a"

text \<open>
  An operation on a state: it ends with a result or an exception, and in both cases with the
  state it has reached, so that an exception keeps the updates made before it.
\<close>

type_synonym ('s, 'a) cmd = "'s \<Rightarrow> 'a res \<times> 's"

definition ret :: "'a \<Rightarrow> ('s, 'a) cmd" where
  "ret a s = (Inr a, s)"

definition raise :: "exn \<Rightarrow> ('s, 'a) cmd" where
  "raise e s = (Inl e, s)"

definition bindc :: "('s, 'a) cmd \<Rightarrow> ('a \<Rightarrow> ('s, 'b) cmd) \<Rightarrow> ('s, 'b) cmd" where
  "bindc m k s = (case m s of (Inl e, s') \<Rightarrow> (Inl e, s') | (Inr a, s') \<Rightarrow> k a s')"

definition andthen :: "('s, 'a) cmd \<Rightarrow> ('s, 'b) cmd \<Rightarrow> ('s, 'b) cmd" where
  "andthen m k = bindc m (\<lambda>_. k)"

definition getc :: "('s, 's) cmd" where
  "getc s = (Inr s, s)"

definition modc :: "('s \<Rightarrow> 's) \<Rightarrow> ('s, unit) cmd" where
  "modc f s = (Inr (), f s)"

definition whenc :: "bool \<Rightarrow> ('s, unit) cmd \<Rightarrow> ('s, unit) cmd" where
  "whenc b m = (if b then m else ret ())"

definition catchc :: "('s, 'a) cmd \<Rightarrow> (exn \<Rightarrow> ('s, 'a) cmd) \<Rightarrow> ('s, 'a) cmd" where
  "catchc m h s = (case m s of (Inl (Throw t), s') \<Rightarrow> h (Throw t) s' | r \<Rightarrow> r)"

text \<open>Running the operations of a \<open>'s\<close> component that is a part of a bigger state.\<close>

definition liftc :: "('t \<Rightarrow> 's) \<Rightarrow> ('s \<Rightarrow> 't \<Rightarrow> 't) \<Rightarrow> ('s, 'a) cmd \<Rightarrow> ('t, 'a) cmd" where
  "liftc gt st m t = (case m (gt t) of (r, s') \<Rightarrow> (r, st s' t))"

lemma ret_simp [cmd_simps]: "ret a s = (Inr a, s)" by (simp add: ret_def)
lemma raise_simp [cmd_simps]: "raise e s = (Inl e, s)" by (simp add: raise_def)
lemma getc_simp [cmd_simps]: "getc s = (Inr s, s)" by (simp add: getc_def)
lemma modc_simp [cmd_simps]: "modc f s = (Inr (), f s)" by (simp add: modc_def)
lemma whenc_True [cmd_simps]: "whenc True m = m" by (simp add: whenc_def)
lemma whenc_False [cmd_simps]: "whenc False m = ret ()" by (simp add: whenc_def)
lemma bindc_Inr [cmd_simps]: "m s = (Inr a, s') \<Longrightarrow> bindc m k s = k a s'" by (simp add: bindc_def)
lemma bindc_Inl [cmd_simps]: "m s = (Inl e, s') \<Longrightarrow> bindc m k s = (Inl e, s')" by (simp add: bindc_def)
lemma andthen_Inr [cmd_simps]: "m s = (Inr a, s') \<Longrightarrow> andthen m k s = k s'"
  by (simp add: andthen_def bindc_def)
lemma andthen_Inl [cmd_simps]: "m s = (Inl e, s') \<Longrightarrow> andthen m k s = (Inl e, s')"
  by (simp add: andthen_def bindc_def)

lemma bindc_assoc: "bindc (bindc m k) l = bindc m (\<lambda>a. bindc (k a) l)"
  by (rule ext) (auto simp: bindc_def split: prod.splits sum.splits)

text \<open>\<open>keeps P m\<close>: the operation preserves \<open>P\<close>, whether it returns or throws.\<close>

definition keeps :: "('s \<Rightarrow> bool) \<Rightarrow> ('s, 'a) cmd \<Rightarrow> bool" where
  "keeps P m \<longleftrightarrow> (\<forall>s. P s \<longrightarrow> P (snd (m s)))"

lemma keepsI: "(\<And>s. P s \<Longrightarrow> P (snd (m s))) \<Longrightarrow> keeps P m" by (simp add: keeps_def)
lemma keepsD: "keeps P m \<Longrightarrow> P s \<Longrightarrow> P (snd (m s))" by (simp add: keeps_def)

lemma keeps_ret [keeps_intros]: "keeps P (ret a)" by (simp add: keeps_def ret_def)
lemma keeps_raise [keeps_intros]: "keeps P (raise e)" by (simp add: keeps_def raise_def)
lemma keeps_getc [keeps_intros]: "keeps P getc" by (simp add: keeps_def getc_def)

lemma keeps_modc [keeps_intros]: "(\<And>s. P s \<Longrightarrow> P (f s)) \<Longrightarrow> keeps P (modc f)"
  by (simp add: keeps_def modc_def)

lemma keeps_bindc [keeps_intros]:
  assumes "keeps P m" and "\<And>a. keeps P (k a)"
  shows "keeps P (bindc m k)"
proof (rule keepsI)
  fix s assume "P s"
  then have *: "P (snd (m s))" using assms(1) by (simp add: keeps_def)
  show "P (snd (bindc m k s))"
    using * assms(2) by (auto simp: bindc_def keeps_def split: prod.splits sum.splits)
qed

lemma keeps_andthen [keeps_intros]: "keeps P m \<Longrightarrow> keeps P k \<Longrightarrow> keeps P (andthen m k)"
  by (simp add: andthen_def keeps_bindc)

lemma keeps_whenc [keeps_intros]: "(b \<Longrightarrow> keeps P m) \<Longrightarrow> keeps P (whenc b m)"
  by (cases b) (simp_all add: whenc_def keeps_ret)

lemma keeps_if [keeps_intros]: "(b \<Longrightarrow> keeps P m) \<Longrightarrow> (\<not> b \<Longrightarrow> keeps P n) \<Longrightarrow> keeps P (if b then m else n)"
  by simp

lemma keeps_catchc [keeps_intros]:
  assumes "keeps P m" and "\<And>e. keeps P (h e)"
  shows "keeps P (catchc m h)"
proof (rule keepsI)
  fix s assume "P s"
  then have *: "P (snd (m s))" using assms(1) by (simp add: keeps_def)
  show "P (snd (catchc m h s))"
    using * assms(2) by (auto simp: catchc_def keeps_def split: prod.splits sum.splits exn.splits)
qed

section \<open>Little-endian byte images\<close>

primrec le_bytes :: "nat \<Rightarrow> 'a::len word \<Rightarrow> byte list" where
  "le_bytes 0 w = []"
| "le_bytes (Suc n) w = ucast w # le_bytes n (drop_bit 8 w)"

primrec of_le_bytes :: "byte list \<Rightarrow> 'a::len word" where
  "of_le_bytes [] = 0"
| "of_le_bytes (b # bs) = or (ucast b) (push_bit 8 (of_le_bytes bs))"

lemma length_le_bytes [simp, byte_simps]: "length (le_bytes n w) = n"
  by (induction n arbitrary: w) simp_all

lemma bit_of_le_bytes:
  "bit (of_le_bytes bs :: 'a::len word) k \<longleftrightarrow>
     k < LENGTH('a) \<and> k div 8 < length bs \<and> bit (bs ! (k div 8)) (k mod 8)"
proof (induction bs arbitrary: k)
  case Nil
  then show ?case by simp
next
  case (Cons b bs)
  show ?case
  proof (cases "k < 8")
    case True
    then show ?thesis by (auto simp: bit_simps)
  next
    case False
    then obtain j where k: "k = j + 8" by (metis add.commute le_Suc_ex not_less)
    have "\<not> bit b (j + 8)" using bit_imp_le_length [of b "j + 8"] by auto
    moreover have "(j + 8) div 8 = Suc (j div 8)" "(j + 8) mod 8 = j mod 8" by simp_all
    ultimately show ?thesis
      by (auto simp del: div_add_self2 simp add: k bit_simps Cons.IH)
  qed
qed


lemma nth_le_bytes: "i < n \<Longrightarrow> le_bytes n w ! i = ucast (drop_bit (8 * i) w)"
proof (induction n arbitrary: w i)
  case (Suc n)
  then show ?case by (cases i) (simp_all add: drop_bit_drop_bit add.commute)
qed simp

lemma of_le_bytes_le_bytes:
  fixes w :: "'a::len word"
  assumes "LENGTH('a) \<le> 8 * n"
  shows "of_le_bytes (le_bytes n w) = w"
proof (rule bit_word_eqI)
  fix k assume k: "k < LENGTH('a)"
  then have "k div 8 < n" using assms by (simp add: less_mult_imp_div_less mult.commute)
  moreover have "k mod 8 < 8" by simp
  moreover have "8 * (k div 8) + k mod 8 = k" by simp
  ultimately show "bit (of_le_bytes (le_bytes n w) :: 'a word) k = bit w k"
    using k by (simp add: bit_of_le_bytes nth_le_bytes bit_simps)
qed

lemma le_bytes_inj:
  fixes v w :: "'a::len word"
  assumes "LENGTH('a) \<le> 8 * n" "le_bytes n v = le_bytes n w"
  shows "v = w"
proof -
  have "v = of_le_bytes (le_bytes n v)" by (rule of_le_bytes_le_bytes [OF assms(1), symmetric])
  also have "\<dots> = w" unfolding assms(2) by (rule of_le_bytes_le_bytes [OF assms(1)])
  finally show ?thesis .
qed

lemma of_le_bytes_1 [byte_simps]: "of_le_bytes (le_bytes 1 (w :: byte)) = w"
  by (rule of_le_bytes_le_bytes) simp
lemma of_le_bytes_2 [byte_simps]: "of_le_bytes (le_bytes 2 (w :: u16)) = w"
  by (rule of_le_bytes_le_bytes) simp
lemma of_le_bytes_4 [byte_simps]: "of_le_bytes (le_bytes 4 (w :: u32)) = w"
  by (rule of_le_bytes_le_bytes) simp
lemma of_le_bytes_8 [byte_simps]: "of_le_bytes (le_bytes 8 (w :: u64)) = w"
  by (rule of_le_bytes_le_bytes) simp
lemma of_le_bytes_20 [byte_simps]: "of_le_bytes (le_bytes 20 (w :: sha1)) = w"
  by (rule of_le_bytes_le_bytes) simp

section \<open>Lists\<close>

text \<open>Overwriting \<open>length ys\<close> cells of a buffer from position \<open>p\<close> on, the effect of memcpy.\<close>

definition overwrite :: "nat \<Rightarrow> 'a list \<Rightarrow> 'a list \<Rightarrow> 'a list" where
  "overwrite p ys xs = take p xs @ ys @ drop (p + length ys) xs"

lemma length_overwrite [simp]:
  "p + length ys \<le> length xs \<Longrightarrow> length (overwrite p ys xs) = length xs"
  by (simp add: overwrite_def)

lemma overwrite_take: "p \<le> length xs \<Longrightarrow> take p (overwrite p ys xs) = take p xs"
  by (simp add: overwrite_def)

lemma overwrite_slice:
  "p \<le> length xs \<Longrightarrow> take (length ys) (drop p (overwrite p ys xs)) = ys"
  by (simp add: overwrite_def)

lemma overwrite_overwrite:
  assumes "p + length ys + length zs \<le> length xs"
  shows "overwrite (p + length ys) zs (overwrite p ys xs) = overwrite p (ys @ zs) xs"
proof -
  have "p \<le> length xs" using assms by simp
  then show ?thesis by (simp add: overwrite_def min_absorb2 ac_simps)
qed

lemma overwrite_Nil [simp]: "overwrite p [] xs = xs"
  by (simp add: overwrite_def)

lemma drop_overwrite_after:
  "p + length ys \<le> length xs \<Longrightarrow> drop (p + length ys) (overwrite p ys xs) = drop (p + length ys) xs"
  by (simp add: overwrite_def)

text \<open>\<open>std::list::resize\<close> / \<open>std::vector::resize\<close>: cut, or pad with a default element.\<close>

definition resize_list :: "nat \<Rightarrow> 'a \<Rightarrow> 'a list \<Rightarrow> 'a list" where
  "resize_list n d xs = take n xs @ replicate (n - length xs) d"

lemma length_resize_list [simp]: "length (resize_list n d xs) = n"
  by (simp add: resize_list_def)

lemma image_minus_atLeastAtMost:
  fixes a b d :: nat
  assumes "d \<le> a" "a \<le> b"
  shows "(\<lambda>k. k - d) ` {a..b} = {a - d..b - d}"
proof
  show "{a - d..b - d} \<subseteq> (\<lambda>k. k - d) ` {a..b}"
  proof
    fix j assume "j \<in> {a - d..b - d}"
    then show "j \<in> (\<lambda>k. k - d) ` {a..b}" using assms by (intro image_eqI [of _ _ "j + d"]) auto
  qed
qed auto

end
