(* ===== verification/Datastream.thy ===== *)
theory Datastream
  imports Tornet_Prelude
begin

text \<open>
  The in-memory byte stream of rpc/datastream.hpp: a cursor over a buffer with bounds-checked
  reads and writes, and the \<open>datastream<size_t>\<close> specialisation that only counts. The packet
  types of the other components are written as templates over such a stream; their models run
  over this one. The locale \<open>stream_codec\<close> is the contract of a pair of stream operators.
\<close>

section \<open>datastream over a buffer\<close>

text \<open>
  \<open>m_start\<close> is position 0, \<open>m_end\<close> the length of \<open>ds_mem\<close>, and \<open>m_pos\<close> the natural number
  \<open>ds_pos\<close>, which \<open>skip\<close> and \<open>seekp\<close> may move past the end.
\<close>

record datastream =
  ds_mem :: "byte list"
  ds_pos :: nat

definition ds_make :: "byte list \<Rightarrow> datastream" where
  "ds_make bs = \<lparr> ds_mem = bs, ds_pos = 0 \<rparr>"

definition ds_left :: "datastream \<Rightarrow> int" where
  "ds_left ds = int (length (ds_mem ds)) - int (ds_pos ds)"

text \<open>
  The guard compares the signed distance to the end with \<open>(int32_t)s\<close>: a size of 2^31 or more
  is negative there and passes it, and the memcpy that follows then leaves the buffer.
\<close>

definition ds_read :: "u32 \<Rightarrow> (datastream, byte list) cmd" where
  "ds_read s ds =
     (if ds_left ds \<ge> sint s then
        (if unat s \<le> length (ds_mem ds) - ds_pos ds \<and> ds_pos ds \<le> length (ds_mem ds)
         then (Inr (take (unat s) (drop (ds_pos ds) (ds_mem ds))), ds\<lparr> ds_pos := ds_pos ds + unat s \<rparr>)
         else (Inl (Undefined ''read past the buffer''), ds))
      else (Inl (Throw ''Attempt to read beyond end of buffer''), ds))"

definition ds_write :: "byte list \<Rightarrow> u32 \<Rightarrow> (datastream, unit) cmd" where
  "ds_write d s ds =
     (if ds_left ds \<ge> sint s then
        (if unat s \<le> length (ds_mem ds) - ds_pos ds \<and> ds_pos ds \<le> length (ds_mem ds) \<and> unat s \<le> length d
         then (Inr (), ds\<lparr> ds_mem := overwrite (ds_pos ds) (take (unat s) d) (ds_mem ds),
                           ds_pos := ds_pos ds + unat s \<rparr>)
         else (Inl (Undefined ''write past the buffer''), ds))
      else (Inl (Throw ''Attempt to write beyond end of buffer''), ds))"

definition ds_put :: "byte \<Rightarrow> (datastream, unit) cmd" where
  "ds_put c ds =
     (if ds_pos ds < length (ds_mem ds)
      then (Inr (), ds\<lparr> ds_mem := (ds_mem ds)[ds_pos ds := c], ds_pos := ds_pos ds + 1 \<rparr>)
      else (Inl (Throw ''Attempt to write byte beyond end of buffer''), ds))"

definition ds_get :: "(datastream, byte) cmd" where
  "ds_get ds =
     (if ds_pos ds < length (ds_mem ds)
      then (Inr (ds_mem ds ! ds_pos ds), ds\<lparr> ds_pos := ds_pos ds + 1 \<rparr>)
      else (Inl (Throw ''Attempt to read byte beyond end of buffer''), ds))"

definition ds_skip :: "u32 \<Rightarrow> datastream \<Rightarrow> datastream" where
  "ds_skip s ds = ds\<lparr> ds_pos := ds_pos ds + unat s \<rparr>"

definition ds_seekp :: "u32 \<Rightarrow> datastream \<Rightarrow> bool \<times> datastream" where
  "ds_seekp p ds = (unat p \<le> length (ds_mem ds), ds\<lparr> ds_pos := unat p \<rparr>)"

definition ds_valid :: "datastream \<Rightarrow> bool" where
  "ds_valid ds \<longleftrightarrow> ds_pos ds \<le> length (ds_mem ds)"

definition ds_tellp :: "datastream \<Rightarrow> u32" where
  "ds_tellp ds = of_nat (ds_pos ds)"

definition ds_remaining :: "datastream \<Rightarrow> u32" where
  "ds_remaining ds = of_int (ds_left ds)"

text \<open>\<open>operator<<\<close> and \<open>operator>>\<close> on a fundamental type of \<open>n\<close> bytes.\<close>

definition ds_write_int :: "nat \<Rightarrow> 'a::len word \<Rightarrow> (datastream, unit) cmd" where
  "ds_write_int n w = ds_write (le_bytes n w) (of_nat n)"

definition ds_read_int :: "nat \<Rightarrow> (datastream, 'a::len word) cmd" where
  "ds_read_int n = bindc (ds_read (of_nat n)) (\<lambda>bs. ret (of_le_bytes bs))"

section \<open>The counting stream\<close>

record sizestream =
  m_size :: u32

definition ss_make :: "u64 \<Rightarrow> sizestream" where
  "ss_make n = \<lparr> m_size = ucast n \<rparr>"

definition ss_write :: "u32 \<Rightarrow> sizestream \<Rightarrow> sizestream" where
  "ss_write s ss = ss\<lparr> m_size := m_size ss + s \<rparr>"

definition ss_put :: "sizestream \<Rightarrow> sizestream" where
  "ss_put ss = ss\<lparr> m_size := m_size ss + 1 \<rparr>"

definition ss_skip :: "u32 \<Rightarrow> sizestream \<Rightarrow> sizestream" where
  "ss_skip s ss = ss\<lparr> m_size := m_size ss + s \<rparr>"

definition ss_seekp :: "u32 \<Rightarrow> sizestream \<Rightarrow> sizestream" where
  "ss_seekp p ss = ss\<lparr> m_size := p \<rparr>"

section \<open>Behaviour of reads and writes\<close>

lemma small_size:
  assumes "unat (s :: u32) < 2 ^ 31"
  obtains n where "unat s = n" and "sint s = int n" and "n < 2 ^ 31"
proof
  show "unat s = unat s" ..
  show "sint s = int (unat s)"
    using assms unfolding sint_unat by simp
qed (rule assms)

text \<open>Sizes below 2^31 never leave the buffer: they succeed exactly when there is room.\<close>

lemma ds_read_small:
  assumes "unat s < 2 ^ 31"
  shows "ds_read s ds =
     (if ds_pos ds + unat s \<le> length (ds_mem ds)
      then (Inr (take (unat s) (drop (ds_pos ds) (ds_mem ds))), ds\<lparr> ds_pos := ds_pos ds + unat s \<rparr>)
      else (Inl (Throw ''Attempt to read beyond end of buffer''), ds))"
proof -
  obtain n where n: "unat s = n" "sint s = int n" using small_size [OF assms] by blast
  show ?thesis unfolding ds_read_def ds_left_def n by auto
qed

lemma ds_write_small:
  assumes "unat s < 2 ^ 31" "unat s = length d"
  shows "ds_write d s ds =
     (if ds_pos ds + length d \<le> length (ds_mem ds)
      then (Inr (), ds\<lparr> ds_mem := overwrite (ds_pos ds) d (ds_mem ds), ds_pos := ds_pos ds + length d \<rparr>)
      else (Inl (Throw ''Attempt to write beyond end of buffer''), ds))"
proof -
  obtain n where n: "unat s = n" "sint s = int n" using small_size [OF assms(1)] by blast
  then have "length d = n" using assms(2) by simp
  with n show ?thesis unfolding ds_write_def ds_left_def by auto
qed

lemma unat_of_nat_small: "n < 2 ^ 31 \<Longrightarrow> unat (of_nat n :: u32) = n"
  by (simp add: unat_of_nat take_bit_nat_eq_self)

lemma ds_write_exact:
  assumes "length d < 2 ^ 31" "n = length d"
  shows "ds_write d (of_nat n) ds =
     (if ds_pos ds + length d \<le> length (ds_mem ds)
      then (Inr (), ds\<lparr> ds_mem := overwrite (ds_pos ds) d (ds_mem ds), ds_pos := ds_pos ds + length d \<rparr>)
      else (Inl (Throw ''Attempt to write beyond end of buffer''), ds))"
  by (rule ds_write_small) (use assms in \<open>simp_all only: unat_of_nat_small\<close>)

lemma ds_read_exact:
  assumes "n < 2 ^ 31"
  shows "ds_read (of_nat n) ds =
     (if ds_pos ds + n \<le> length (ds_mem ds)
      then (Inr (take n (drop (ds_pos ds) (ds_mem ds))), ds\<lparr> ds_pos := ds_pos ds + n \<rparr>)
      else (Inl (Throw ''Attempt to read beyond end of buffer''), ds))"
  using ds_read_small [of "of_nat n" ds] assms by (simp only: unat_of_nat_small if_True)


section \<open>Fields of a packet\<close>

text \<open>
  A stream operator \<open>>>\<close> reads into an object that exists already, field by field; when it
  throws, the fields read so far stay changed. So a reader runs on the pair of the object and
  the stream.
\<close>

type_synonym 'a reader = "('a \<times> datastream, unit) cmd"
type_synonym writer = "(datastream, unit) cmd"

definition wr_field :: "nat \<Rightarrow> 'w::len word \<Rightarrow> writer" where
  "wr_field n w = ds_write (le_bytes n w) (of_nat n)"

definition rd_field :: "nat \<Rightarrow> ('w::len word \<Rightarrow> 'a \<Rightarrow> 'a) \<Rightarrow> 'a reader" where
  "rd_field n upd = (\<lambda>(x, ds).
     case ds_read (of_nat n) ds of
       (Inr bs, ds') \<Rightarrow> (Inr (), (upd (of_le_bytes bs) x, ds'))
     | (Inl e, ds') \<Rightarrow> (Inl e, (x, ds')))"

text \<open>\<open>writes m bs\<close>: where there is room, \<open>m\<close> appends \<open>bs\<close> at the cursor. \<open>reads m f bs\<close>: on
  input that starts with \<open>bs\<close>, \<open>m\<close> consumes \<open>bs\<close> and changes the object by \<open>f\<close>.\<close>

definition writes :: "writer \<Rightarrow> byte list \<Rightarrow> bool" where
  "writes m bs \<longleftrightarrow> (\<forall>ds. ds_pos ds + length bs \<le> length (ds_mem ds) \<longrightarrow>
     m ds = (Inr (), ds\<lparr> ds_mem := overwrite (ds_pos ds) bs (ds_mem ds), ds_pos := ds_pos ds + length bs \<rparr>))"

definition reads :: "'a reader \<Rightarrow> ('a \<Rightarrow> 'a) \<Rightarrow> byte list \<Rightarrow> bool" where
  "reads m f bs \<longleftrightarrow> (\<forall>ds r x. drop (ds_pos ds) (ds_mem ds) = bs @ r \<and> ds_pos ds \<le> length (ds_mem ds) \<longrightarrow>
     m (x, ds) = (Inr (), (f x, ds\<lparr> ds_pos := ds_pos ds + length bs \<rparr>)))"

text \<open>\<open>memsafe m\<close>: the operation never runs into undefined behaviour.\<close>

definition memsafe :: "('s, 'a) cmd \<Rightarrow> bool" where
  "memsafe m \<longleftrightarrow> (\<forall>s t. fst (m s) \<noteq> Inl (Undefined t))"

lemma writes_ret: "writes (ret ()) []"
  by (simp add: writes_def ret_def)

lemma writes_field: "n < 2 ^ 31 \<Longrightarrow> writes (wr_field n w) (le_bytes n w)"
  by (simp add: writes_def wr_field_def ds_write_exact)

lemma writes_andthen:
  assumes "writes a bs" "writes b cs"
  shows "writes (andthen a b) (bs @ cs)"
  unfolding writes_def
proof (intro allI impI)
  fix ds :: datastream
  assume room: "ds_pos ds + length (bs @ cs) \<le> length (ds_mem ds)"
  have a: "a ds = (Inr (), ds\<lparr> ds_mem := overwrite (ds_pos ds) bs (ds_mem ds), ds_pos := ds_pos ds + length bs \<rparr>)"
    using assms(1) room by (simp add: writes_def)
  show "andthen a b ds = (Inr (), ds\<lparr> ds_mem := overwrite (ds_pos ds) (bs @ cs) (ds_mem ds),
                                     ds_pos := ds_pos ds + length (bs @ cs) \<rparr>)"
    using assms(2) room andthen_Inr [of a, OF a, where k = b] unfolding writes_def
    by (simp add: overwrite_overwrite add.assoc)
qed

lemma reads_ret: "reads (ret ()) (\<lambda>x. x) []"
  by (simp add: reads_def ret_def)

lemma reads_field:
  assumes "n < 2 ^ 31" "LENGTH('w::len) \<le> 8 * n"
  shows "reads (rd_field n upd) (upd (w :: 'w word)) (le_bytes n w)"
  unfolding reads_def
proof (intro allI impI)
  fix ds :: datastream and r x
  assume d: "drop (ds_pos ds) (ds_mem ds) = le_bytes n w @ r \<and> ds_pos ds \<le> length (ds_mem ds)"
  then have "length (ds_mem ds) - ds_pos ds = n + length r"
    by (metis length_append length_drop length_le_bytes)
  then have room: "ds_pos ds + n \<le> length (ds_mem ds)" using conjunct2 [OF d] by linarith
  have "take n (drop (ds_pos ds) (ds_mem ds)) = le_bytes n w" using d by simp
  then show "rd_field n upd (x, ds) =
      (Inr (), (upd w x, ds\<lparr> ds_pos := ds_pos ds + length (le_bytes n w) \<rparr>))"
    using room by (simp add: rd_field_def ds_read_exact [OF assms(1)] of_le_bytes_le_bytes [OF assms(2)])
qed

lemma rd_field_ok:
  assumes "n < 2 ^ 31" "ds_pos ds + n \<le> length (ds_mem ds)"
  shows "rd_field n upd (x, ds) =
    (Inr (), (upd (of_le_bytes (take n (drop (ds_pos ds) (ds_mem ds)))) x, ds\<lparr> ds_pos := ds_pos ds + n \<rparr>))"
  using assms by (simp add: rd_field_def ds_read_exact)

lemma reads_andthen:
  assumes "reads a f bs" "reads b g cs"
  shows "reads (andthen a b) (\<lambda>x. g (f x)) (bs @ cs)"
  unfolding reads_def
proof (intro allI impI)
  fix ds :: datastream and r x
  assume d: "drop (ds_pos ds) (ds_mem ds) = (bs @ cs) @ r \<and> ds_pos ds \<le> length (ds_mem ds)"
  then have a: "a (x, ds) = (Inr (), (f x, ds\<lparr> ds_pos := ds_pos ds + length bs \<rparr>))"
    using assms(1) by (simp add: reads_def)
  have "drop (ds_pos ds + length bs) (ds_mem ds) = cs @ r"
    using d by (metis add.commute append.assoc append_eq_conv_conj drop_drop)
  moreover have "ds_pos ds + length bs \<le> length (ds_mem ds)"
    using d by (metis append.assoc diff_is_0_eq drop_eq_Nil2 le_add_diff_inverse length_append length_drop nat_add_left_cancel_le le_add1)
  ultimately show "andthen a b (x, ds) =
      (Inr (), (g (f x), ds\<lparr> ds_pos := ds_pos ds + length (bs @ cs) \<rparr>))"
    using assms(2) andthen_Inr [of a, OF a, where k = b] unfolding reads_def by (simp add: add.assoc)
qed

lemma memsafe_ret: "memsafe (ret x)" by (simp add: memsafe_def ret_def)
lemma memsafe_raise_Throw: "memsafe (raise (Throw t))" by (simp add: memsafe_def raise_def)
lemma memsafe_modc: "memsafe (modc f)" by (simp add: memsafe_def modc_def)
lemma memsafe_getc: "memsafe getc" by (simp add: memsafe_def getc_def)

lemma memsafe_bindc: "memsafe m \<Longrightarrow> (\<And>a. memsafe (k a)) \<Longrightarrow> memsafe (bindc m k)"
  by (auto simp: memsafe_def bindc_def split: prod.splits sum.splits) (metis fst_conv)

lemma memsafe_andthen: "memsafe m \<Longrightarrow> memsafe k \<Longrightarrow> memsafe (andthen m k)"
  by (simp add: andthen_def memsafe_bindc)

lemma memsafe_rd_field: "n < 2 ^ 31 \<Longrightarrow> memsafe (rd_field n upd)"
  by (auto simp: memsafe_def rd_field_def ds_read_exact split: prod.splits)

lemma memsafe_wr_field: "n < 2 ^ 31 \<Longrightarrow> memsafe (wr_field n w)"
  by (auto simp: memsafe_def wr_field_def ds_write_exact split: prod.splits)

section \<open>The contract of a pair of stream operators\<close>

text \<open>
  The way the components fill a packet: a fresh 2048-byte buffer, a stream over it, the
  \<open><<\<close> of the packet, and a resize to the position reached. The bytes of a fresh buffer are
  indeterminate in C++; \<open>mem\<close> stands for them.
\<close>

definition pack_packet :: "byte list \<Rightarrow> ('a \<Rightarrow> writer) \<Rightarrow> 'a \<Rightarrow> byte list res" where
  "pack_packet mem wr x =
     (case wr x (ds_make mem) of
        (Inr _, ds) \<Rightarrow> Inr (take (ds_pos ds) (ds_mem ds))
      | (Inl e, _) \<Rightarrow> Inl e)"

definition unpack_packet :: "'a reader \<Rightarrow> 'a \<Rightarrow> byte list \<Rightarrow> unit res \<times> 'a" where
  "unpack_packet rd x bs = (case rd (x, ds_make bs) of (r, (y, _)) \<Rightarrow> (r, y))"

locale stream_codec =
  fixes enc :: "'a \<Rightarrow> byte list"
    and wr :: "'a \<Rightarrow> writer"
    and rd :: "'a reader"
    and ok :: "'a \<Rightarrow> bool"
  assumes writes_enc: "writes (wr x) (enc x)"
    and reads_enc: "ok x \<Longrightarrow> reads rd (\<lambda>_. x) (enc x)"
begin

lemma pack_enc: "length (enc x) \<le> length mem \<Longrightarrow> pack_packet mem wr x = Inr (enc x)"
  using writes_enc [of x] by (simp add: pack_packet_def writes_def ds_make_def overwrite_def)

lemma unpack_enc: "ok x \<Longrightarrow> unpack_packet rd y (enc x @ r) = (Inr (), x)"
  using reads_enc [of x] by (simp add: unpack_packet_def reads_def ds_make_def)

lemma unpack_pack:
  "ok x \<Longrightarrow> length (enc x) \<le> length mem \<Longrightarrow>
   \<exists>bs. pack_packet mem wr x = Inr bs \<and> unpack_packet rd y bs = (Inr (), x)"
  using pack_enc [of x mem] unpack_enc [of x y "[]"] by simp

lemma enc_inject:
  assumes "ok x" "ok y" "enc x = enc y"
  shows "x = y"
  using unpack_enc [OF assms(1), of x "[]"] unpack_enc [OF assms(2), of x "[]"] assms(3) by simp

lemma enc_prefix_free:
  assumes "ok x" "ok y" "enc x @ r = enc y @ q"
  shows "x = y \<and> r = q"
  using unpack_enc [OF assms(1), of x r] unpack_enc [OF assms(2), of x q] assms(3) by simp

end

section \<open>Properties\<close>

text \<open>
  The stream stays inside its buffer for sizes below 2^31, and only for those. A read of such
  a size succeeds exactly when that many bytes are left and then returns them and moves the
  cursor past them; otherwise it throws and the stream is unchanged. For a size of 2^31 or
  more the guard compares with a negative number: on a stream of fewer than 2^31 bytes with its
  cursor inside, it lets the copy run past the end.
\<close>

theorem datastream_read_guard:
  assumes "ds_valid ds" "length (ds_mem ds) < 2 ^ 31"
  shows "if unat s < 2 ^ 31
    then ds_read s ds =
      (if ds_pos ds + unat s \<le> length (ds_mem ds)
       then (Inr (take (unat s) (drop (ds_pos ds) (ds_mem ds))), ds\<lparr> ds_pos := ds_pos ds + unat s \<rparr>)
       else (Inl (Throw ''Attempt to read beyond end of buffer''), ds))
    else ds_read s ds = (Inl (Undefined ''read past the buffer''), ds)"
proof (cases "unat s < 2 ^ 31")
  case True
  then show ?thesis by (simp add: ds_read_small)
next
  case False
  obtain n where n: "unat s = n" by blast
  have "n < 2 ^ 32" using unsigned_less [of s, where ?'a = nat] n by simp
  then have "sint s < 0" using False n by (simp only: sint_unat n) auto
  moreover have "0 \<le> ds_left ds" using assms(1) by (simp add: ds_left_def ds_valid_def)
  ultimately have "sint s \<le> ds_left ds" by linarith
  moreover have "\<not> n \<le> length (ds_mem ds) - ds_pos ds" using False n assms(2) by linarith
  ultimately show ?thesis using False n by (simp add: ds_read_def)
qed

theorem datastream_read_guard_witness:
  "fst (ds_read 2 (ds_make [1, 2, 3])) = Inr [1, 2] \<and>
   fst (ds_read 2147483648 (ds_make [1, 2, 3])) = Inl (Undefined ''read past the buffer'')"
  using datastream_read_guard [of "ds_make [1, 2, 3]" 2] datastream_read_guard [of "ds_make [1, 2, 3]" 2147483648]
  by (simp add: ds_valid_def ds_make_def)

end
