(* ===== verification/Sequence_Number.thy ===== *)
theory Sequence_Number
  imports Datastream
begin

text \<open>
  include/tornet/sequence_number.hpp: the circular sequence arithmetic of
  \<open>sequence::number\<close> and the unwrapping total order of \<open>sequence::ordering\<close>. A number is its
  raw unsigned value, a word of the template's width; UDT instantiates it at 16 bits.
\<close>

named_theorems seq_simps \<open>comparisons of sequence numbers in terms of circular offsets\<close>

section \<open>sequence::number\<close>

type_synonym seq_num = u16

definition seq_distance :: "'a::len word \<Rightarrow> 'a word \<Rightarrow> int" where
  "seq_distance cur sequence = sint (sequence - cur)"

text \<open>The binary minus of two numbers is the overload on \<open>U\<close>, that is \<open>distance\<close>.\<close>

definition seq_minus :: "'a::len word \<Rightarrow> 'a word \<Rightarrow> int" where
  "seq_minus cur sequence = seq_distance cur sequence"

definition seq_inc :: "'a::len word \<Rightarrow> 'a word" where
  "seq_inc cur = cur + 1"

definition seq_dec :: "'a::len word \<Rightarrow> 'a word" where
  "seq_dec cur = cur - 1"

definition seq_plus :: "'a::len word \<Rightarrow> int \<Rightarrow> 'a word" where
  "seq_plus cur v = cur + of_int v"

definition seq_minus_int :: "'a::len word \<Rightarrow> int \<Rightarrow> 'a word" where
  "seq_minus_int cur v = cur - of_int v"

definition seq_lt :: "'a::len word \<Rightarrow> 'a word \<Rightarrow> bool" where
  "seq_lt cur sequence \<longleftrightarrow> seq_distance cur sequence > 0"

definition seq_le :: "'a::len word \<Rightarrow> 'a word \<Rightarrow> bool" where
  "seq_le cur sequence \<longleftrightarrow> seq_distance cur sequence \<ge> 0"

definition seq_eq :: "'a::len word \<Rightarrow> 'a word \<Rightarrow> bool" where
  "seq_eq cur sequence \<longleftrightarrow> seq_distance cur sequence = 0"

definition seq_ge :: "'a::len word \<Rightarrow> 'a word \<Rightarrow> bool" where
  "seq_ge cur sequence \<longleftrightarrow> seq_distance cur sequence \<le> 0"

definition seq_gt :: "'a::len word \<Rightarrow> 'a word \<Rightarrow> bool" where
  "seq_gt cur sequence \<longleftrightarrow> seq_distance cur sequence < 0"

text \<open>The stream operators copy the raw value.\<close>

definition seq_write :: "seq_num \<Rightarrow> writer" where
  "seq_write n = wr_field 2 n"

definition seq_read :: "seq_num reader" where
  "seq_read = rd_field 2 (\<lambda>v _. v)"

section \<open>sequence::ordering\<close>

text \<open>
  The template argument \<open>L\<close> is long long; its signed overflow is undefined in C++ and out of
  reach (one step adds at most 2^17), so the base and the total order are integers.
\<close>

record ordering =
  ord_curr :: seq_num
  ord_base :: int

definition ord_L :: "ordering \<Rightarrow> int" where
  "ord_L o1 = ord_base o1 + int (unat (ord_curr o1))"

definition ord_order :: "ordering \<Rightarrow> seq_num \<Rightarrow> int" where
  "ord_order o1 sequence = ord_base o1 + int (unat (ord_curr o1)) + seq_distance (ord_curr o1) sequence"

definition ord_assign :: "seq_num \<Rightarrow> ordering \<Rightarrow> ordering" where
  "ord_assign seq o1 =
     (let curord = ord_L o1; seqord = ord_order o1 seq;
          o2 = (if seqord < curord \<or> seq < ord_curr o1
                then o1\<lparr> ord_base := ord_base o1 + 2 ^ 16 \<rparr> else o1)
      in o2\<lparr> ord_curr := seq \<rparr>)"

definition ord_preinc :: "ordering \<Rightarrow> ordering" where
  "ord_preinc o1 =
     (let o2 = o1\<lparr> ord_curr := ord_curr o1 + 1 \<rparr>
      in if ord_curr o2 = 0 then o2\<lparr> ord_base := ord_base o2 + 2 ^ 16 \<rparr> else o2)"

definition ord_postinc :: "ordering \<Rightarrow> ordering \<times> ordering" where
  "ord_postinc o1 = (o1, ord_preinc o1)"

definition ord_eq :: "ordering \<Rightarrow> ordering \<Rightarrow> bool" where
  "ord_eq o1 o2 \<longleftrightarrow> ord_L o1 = ord_L o2"

definition ord_lt :: "ordering \<Rightarrow> ordering \<Rightarrow> bool" where
  "ord_lt o1 o2 \<longleftrightarrow> ord_L o1 < ord_L o2"

definition ord_eq_seq :: "ordering \<Rightarrow> seq_num \<Rightarrow> bool" where
  "ord_eq_seq o1 seq \<longleftrightarrow> seq = ord_curr o1"

definition ord_lt_seq :: "ordering \<Rightarrow> seq_num \<Rightarrow> bool" where
  "ord_lt_seq o1 rhs \<longleftrightarrow> ord_L o1 < ord_order o1 rhs"

definition ord_le_seq :: "ordering \<Rightarrow> seq_num \<Rightarrow> bool" where
  "ord_le_seq o1 rhs \<longleftrightarrow> ord_L o1 \<le> ord_order o1 rhs"

definition ord_gt_seq :: "ordering \<Rightarrow> seq_num \<Rightarrow> bool" where
  "ord_gt_seq o1 rhs \<longleftrightarrow> ord_L o1 > ord_order o1 rhs"

definition ord_ge_seq :: "ordering \<Rightarrow> seq_num \<Rightarrow> bool" where
  "ord_ge_seq o1 rhs \<longleftrightarrow> ord_L o1 \<ge> ord_order o1 rhs"

definition ord_monotonic :: "ordering \<Rightarrow> seq_num \<Rightarrow> int" where
  "ord_monotonic o1 seq =
     (let curord = ord_L o1; seqord = ord_order o1 seq
      in if seqord < curord then seqord + 2 ^ 16 else seqord)"

definition ord_monotonicdistance :: "ordering \<Rightarrow> seq_num \<Rightarrow> int" where
  "ord_monotonicdistance o1 seq = ord_monotonic o1 seq - ord_L o1"

section \<open>Circular offsets\<close>

text \<open>\<open>off b x\<close> is how far \<open>x\<close> lies after \<open>b\<close> on the circle. Comparisons of two numbers are
  read off from their offsets to any common base.\<close>

definition off :: "u16 \<Rightarrow> u16 \<Rightarrow> nat" where
  "off b x = unat (x - b)"

lemma off_lt: "off b x < 65536"
  using unsigned_less [of "x - b", where ?'a = nat] by (simp add: off_def)

lemma off_self [simp]: "off b b = 0" by (simp add: off_def)

lemma off_eq_0 [simp]: "off b x = 0 \<longleftrightarrow> x = b"
  unfolding off_def unat_eq_zero by simp

lemma off_inject: "off b x = off b y \<longleftrightarrow> x = y"
  unfolding off_def word_unat_eq_iff [symmetric] by simp

lemma off_0: "off 0 x = unat x"
  by (simp add: off_def)

lemma plus_off: "b + of_nat (off b x) = x"
  by (simp add: off_def)

lemma off_plus: "n < 65536 \<Longrightarrow> off b (b + of_nat n) = n"
  by (simp add: off_def unat_of_nat take_bit_nat_eq_self)

lemma off_shift:
  "off x y = (if off b x \<le> off b y then off b y - off b x else off b y + 65536 - off b x)"
proof -
  have e: "y - x = (y - b) - (x - b)" by simp
  show ?thesis
  proof (cases "off b x \<le> off b y")
    case True
    then show ?thesis unfolding off_def e by (subst unat_sub) (simp_all add: word_le_nat_alt)
  next
    case False
    then have "x - b > y - b" by (simp add: off_def word_less_nat_alt)
    then show ?thesis using False unfolding off_def e by (subst unat_sub_if') (auto simp: word_less_nat_alt)
  qed
qed

lemma off_inc: "off b (x + 1) = (if off b x = 65535 then 0 else off b x + 1)"
proof -
  have "unat ((x - b) + 1) = (unat (x - b) + unat (1 :: u16)) mod 2 ^ LENGTH(16)"
    by (rule unat_word_ariths(1))
  moreover have "x + 1 - b = (x - b) + 1" by simp
  ultimately have "off b (x + 1) = (off b x + 1) mod 65536"
    unfolding off_def by (simp only:) simp
  then show ?thesis using off_lt [of b x] by (cases "off b x = 65535") auto
qed

lemma off_dec: "off b (x - 1) = (if x = b then 65535 else off b x - 1)"
proof -
  have "off b (x - 1 + 1) = (if off b (x - 1) = 65535 then 0 else off b (x - 1) + 1)"
    by (rule off_inc)
  then show ?thesis by (auto split: if_splits)
qed

lemma distance_off: "seq_distance x y = (if off x y < 32768 then int (off x y) else int (off x y) - 65536)"
  by (simp add: seq_distance_def off_def sint_unat)

lemma seq_lt_off [seq_simps]: "seq_lt x y \<longleftrightarrow> 0 < off x y \<and> off x y < 32768"
  using off_lt [of x y] unfolding seq_lt_def distance_off by auto

lemma seq_le_off [seq_simps]: "seq_le x y \<longleftrightarrow> off x y < 32768"
  using off_lt [of x y] unfolding seq_le_def distance_off by auto

lemma seq_eq_off [seq_simps]: "seq_eq (x :: seq_num) y \<longleftrightarrow> x = y"
  using off_lt [of x y] off_eq_0 [of x y] unfolding seq_eq_def distance_off by auto

lemma seq_ge_off [seq_simps]: "seq_ge x y \<longleftrightarrow> x = y \<or> 32768 \<le> off x y"
  using off_lt [of x y] off_eq_0 [of x y] unfolding seq_ge_def distance_off by auto

lemma seq_gt_off [seq_simps]: "seq_gt x y \<longleftrightarrow> 32768 \<le> off x y"
  using off_lt [of x y] unfolding seq_gt_def distance_off by auto

lemma seq_plus_of_nat [simp]: "seq_plus x (int n) = x + of_nat n" by (simp add: seq_plus_def)
lemma seq_plus_1 [simp]: "seq_plus x 1 = x + 1" by (simp add: seq_plus_def)
lemma seq_minus_int_1 [simp]: "seq_minus_int x 1 = x - 1" by (simp add: seq_minus_int_def)

text \<open>The specification of the numbers: the integers in a window of half the circle. Where two
  numbers stand for integers less than 2^15 apart, the circular operators are the integer
  operators.\<close>

lemma seq_window:
  fixes i j :: int
  assumes "\<bar>i - j\<bar> < 2 ^ 15"
  shows "seq_distance (of_int i) (of_int j :: seq_num) = j - i"
proof -
  have e: "(of_int j :: seq_num) - of_int i = of_int (j - i)" by simp
  have "sint (of_int (j - i) :: seq_num) = signed_take_bit 15 (j - i)" by (subst signed_of_int) simp
  then show ?thesis
    unfolding seq_distance_def e using assms by (simp add: signed_take_bit_int_eq_self)
qed

text \<open>
  C32: sequence numbers compare like the integers they stand for. For any two integers less
  than 2^15 apart, whatever the wraps in between, the five comparison operators of
  \<open>sequence::number\<close> on their 16-bit images are the integer comparisons, \<open>distance\<close> is the
  integer difference, and \<open>operator-\<close> between two numbers is the difference with its sign
  turned around.
\<close>

theorem seq_number_window:
  fixes i j :: int
  assumes "\<bar>i - j\<bar> < 2 ^ 15"
  defines "x \<equiv> (of_int i :: seq_num)" and "y \<equiv> (of_int j :: seq_num)"
  shows "seq_distance x y = j - i \<and> seq_minus x y = j - i \<and>
    (seq_lt x y \<longleftrightarrow> i < j) \<and> (seq_le x y \<longleftrightarrow> i \<le> j) \<and> (seq_eq x y \<longleftrightarrow> i = j) \<and>
    (seq_ge x y \<longleftrightarrow> i \<ge> j) \<and> (seq_gt x y \<longleftrightarrow> i > j)"
  using seq_window [OF assms(1)]
  by (auto simp: x_def y_def seq_minus_def seq_lt_def seq_le_def seq_eq_def seq_ge_def seq_gt_def)

theorem seq_number_window_witness:
  "seq_lt (of_int 65530 :: seq_num) (of_int 65540) \<and> \<not> seq_lt (of_int 65540 :: seq_num) (of_int 65530)"
  using seq_number_window [of 65530 65540] seq_number_window [of 65540 65530] by simp

section \<open>The total order\<close>

lemma ord_order_off: "ord_order o1 s = ord_L o1 + seq_distance (ord_curr o1) s"
  by (simp add: ord_order_def ord_L_def)

lemma unat_via_off:
  "int (unat y) = int (unat x) + int (off x y) \<and> x \<le> y \<or>
   int (unat y) = int (unat x) + int (off x y) - 65536 \<and> y < x"
  using off_shift [of x y 0] unsigned_less [of x, where ?'a = nat] unsigned_less [of y, where ?'a = nat]
  by (auto simp: off_def word_less_nat_alt word_le_nat_alt split: if_splits)

lemma ord_assign_advance:
  "ord_L (ord_assign s o1) - ord_L o1 =
     (if off (ord_curr o1) s = 0 then 0
      else if off (ord_curr o1) s < 32768 \<or> s < ord_curr o1 then int (off (ord_curr o1) s)
      else int (off (ord_curr o1) s) + 65536)"
  using unat_via_off [of s "ord_curr o1"] off_lt [of "ord_curr o1" s]
  unfolding ord_assign_def Let_def ord_order_off distance_off ord_L_def
  by (cases "s = ord_curr o1"; cases "off (ord_curr o1) s < 32768"; cases "s < ord_curr o1") auto

text \<open>
  The total order of \<open>sequence::ordering\<close> never goes backwards. Assigning a new sequence
  number makes it current and leaves the total order alone only when the number is the current
  one, otherwise strictly raises it, by less than 2^17; where the number is in order (at most
  2^15 - 1 ahead) the new total order is the one \<open>order\<close> predicted; \<open>operator++\<close> is the
  assignment of the successor and raises the total order by one; and \<open>monotonicdistance\<close> is the
  distance walked forwards on the circle.
\<close>

theorem ordering_advances:
  "ord_curr (ord_assign s o1) = s \<and>
   (if s = ord_curr o1 then ord_assign s o1 = o1
    else ord_L o1 < ord_L (ord_assign s o1) \<and> ord_L (ord_assign s o1) < ord_L o1 + 2 ^ 17) \<and>
   (seq_le (ord_curr o1) s \<longrightarrow> ord_L (ord_assign s o1) = ord_order o1 s) \<and>
   ord_preinc o1 = ord_assign (ord_curr o1 + 1) o1 \<and> ord_L (ord_preinc o1) = ord_L o1 + 1 \<and>
   ord_monotonicdistance o1 s = int (off (ord_curr o1) s)"
proof -
  let ?c = "ord_curr o1"
  have curr: "ord_curr (ord_assign s o1) = s" by (simp add: ord_assign_def Let_def)
  have adv: "if s = ?c then ord_assign s o1 = o1
    else ord_L o1 < ord_L (ord_assign s o1) \<and> ord_L (ord_assign s o1) < ord_L o1 + 2 ^ 17"
  proof (cases "s = ?c")
    case True
    then show ?thesis
      using off_self [of s] by (simp add: ord_assign_def Let_def ord_order_off distance_off)
  next
    case False
    then have "0 < off ?c s" using off_eq_0 [of ?c s] by (metis gr0I)
    then show ?thesis using ord_assign_advance [of s o1] off_lt [of ?c s] False
      by (simp split: if_splits)
  qed
  have ord: "seq_le ?c s \<longrightarrow> ord_L (ord_assign s o1) = ord_order o1 s"
    using ord_assign_advance [of s o1] by (simp add: seq_simps ord_order_off distance_off split: if_splits)
  have inc: "ord_preinc o1 = ord_assign (?c + 1) o1"
  proof -
    have "off ?c (?c + 1) = 1" using off_inc [of ?c ?c] by simp
    moreover have "?c + 1 < ?c \<longleftrightarrow> ?c + 1 = 0"
      using off_inc [of 0 ?c] off_eq_0 [of 0 "?c + 1"] unfolding word_less_nat_alt off_0 [symmetric]
      by (auto split: if_splits)
    ultimately show ?thesis
      by (simp add: ord_preinc_def ord_assign_def Let_def ord_order_off distance_off)
  qed
  have "ord_L (ord_preinc o1) = ord_L o1 + 1"
    using ord_assign_advance [of "?c + 1" o1] off_inc [of ?c ?c] by (simp add: inc)
  moreover have "ord_monotonicdistance o1 s = int (off ?c s)"
    using off_lt [of ?c s]
    by (simp add: ord_monotonicdistance_def ord_monotonic_def Let_def ord_order_off distance_off)
  ultimately show ?thesis using curr adv ord inc by blast
qed

theorem ordering_advances_witness:
  "ord_L (ord_assign 3 \<lparr> ord_curr = 65534, ord_base = 0 \<rparr>) = 65539"
  using ordering_advances [of 3 "\<lparr> ord_curr = 65534, ord_base = 0 \<rparr>"]
  by (simp add: seq_le_def seq_distance_def ord_order_def)

end
