(* ===== verification/Miss_List.thy ===== *)
theory Miss_List
  imports Sequence_Number
begin

text \<open>
  include/tornet/miss_list.hpp and src/miss_list.cpp: the list of missing ranges of sequence
  numbers that a UDT receiver reports and a UDT sender retransmits from. The theory has its
  operations, the wire format, and the interface \<open>loss_list\<close> under which the UDT channel uses
  it: inside a window of 2^15 numbers from a base, a miss list is a set of offsets.
\<close>

section \<open>Operations\<close>

type_synonym miss_list = "(seq_num \<times> seq_num) list"

definition ml_clear :: "miss_list \<Rightarrow> miss_list" where
  "ml_clear ml = []"

fun ml_add :: "seq_num \<Rightarrow> seq_num \<Rightarrow> miss_list \<Rightarrow> miss_list" where
  "ml_add s e [] = [(s, e)]"
| "ml_add s e ((f, l) # r) =
     (if seq_lt (seq_plus l 1) s then (f, l) # ml_add s e r
      else if seq_eq (seq_plus l 1) s then (f, e) # r
      else (case r of
              [] \<Rightarrow> [(f, l), (s, e)]
            | (f2, l2) # r2 \<Rightarrow>
                if seq_eq (seq_plus e 1) f2 then (f, l) # (e, l2) # r2
                else (f, l) # (s, e) # (f2, l2) # r2))"

fun ml_size_from :: "u32 \<Rightarrow> miss_list \<Rightarrow> u32" where
  "ml_size_from s [] = s"
| "ml_size_from s ((f, l) # r) = ml_size_from (s + of_int (seq_minus l f + 1)) r"

definition ml_size :: "miss_list \<Rightarrow> u32" where
  "ml_size ml = ml_size_from 0 ml"

fun ml_pop_front :: "miss_list \<Rightarrow> (seq_num \<times> miss_list) option" where
  "ml_pop_front [] = None"
| "ml_pop_front ((f, l) # r) = Some (f, if seq_eq f l then r else (seq_inc f, l) # r)"

fun ml_remove :: "seq_num \<Rightarrow> miss_list \<Rightarrow> miss_list" where
  "ml_remove x [] = []"
| "ml_remove x ((f, l) # r) =
     (if seq_le f x \<and> seq_le x l then
        (if seq_eq f x \<and> seq_eq l x then r
         else if seq_eq f x then (seq_inc f, l) # r
         else if seq_eq l x then (f, seq_dec l) # r
         else if seq_lt f x \<and> seq_lt x l then (f, seq_minus_int x 1) # (seq_plus x 1, l) # r
         else (f, l) # r)
      else if seq_gt f x then (f, l) # r
      else (f, l) # ml_remove x r)"

fun ml_contains :: "seq_num \<Rightarrow> miss_list \<Rightarrow> bool" where
  "ml_contains x [] = False"
| "ml_contains x ((f, l) # r) = (if seq_le f x \<and> seq_ge l x then True else ml_contains x r)"

text \<open>The wire format: a length byte, at most 128 by the circular minimum, and that many pairs.\<close>

definition ml_wire_len :: "miss_list \<Rightarrow> byte" where
  "ml_wire_len ml =
     (let a = (128 :: seq_num); b = of_nat (length ml) in ucast (if seq_lt b a then b else a))"

fun ml_write_pairs :: "nat \<Rightarrow> miss_list \<Rightarrow> writer" where
  "ml_write_pairs n [] = ret ()"
| "ml_write_pairs 0 (p # r) = ret ()"
| "ml_write_pairs (Suc n) ((f, l) # r) =
     andthen (wr_field 2 f) (andthen (wr_field 2 l) (ml_write_pairs n r))"

definition ml_write :: "miss_list \<Rightarrow> writer" where
  "ml_write ml =
     (let len = ml_wire_len ml in andthen (wr_field 1 len) (ml_write_pairs (unat len) ml))"

text \<open>
  Reading resizes the list to the length byte and fills its cells in order; \<open>ml_read_pairs n\<close>
  fills the last \<open>n\<close> cells, so a throw leaves the rest at what they were.
\<close>

fun ml_read_pairs :: "nat \<Rightarrow> miss_list reader" where
  "ml_read_pairs 0 = ret ()"
| "ml_read_pairs (Suc n) =
     andthen (rd_field 2 (\<lambda>v ml. ml[length ml - Suc n := (v, snd (ml ! (length ml - Suc n)))]))
    (andthen (rd_field 2 (\<lambda>v ml. ml[length ml - Suc n := (fst (ml ! (length ml - Suc n)), v)]))
             (ml_read_pairs n))"

definition ml_read :: "miss_list reader" where
  "ml_read = (\<lambda>(ml, ds).
     case ds_read 1 ds of
       (Inl e, ds') \<Rightarrow> (Inl e, (ml, ds'))
     | (Inr bs, ds') \<Rightarrow>
         (let len = unat (of_le_bytes bs :: byte)
          in ml_read_pairs len (resize_list len (0, 0) ml, ds')))"

section \<open>The set of offsets of a miss list\<close>

fun ml_inv_from :: "seq_num \<Rightarrow> nat \<Rightarrow> miss_list \<Rightarrow> bool" where
  "ml_inv_from w n [] = True"
| "ml_inv_from w n ((f, l) # r) =
     (n \<le> off w f \<and> off w f \<le> off w l \<and> off w l < 32768 \<and> ml_inv_from w (off w l + 2) r)"

definition ml_inv :: "seq_num \<Rightarrow> miss_list \<Rightarrow> bool" where
  "ml_inv w ml = ml_inv_from w 0 ml"

fun ml_offs :: "seq_num \<Rightarrow> miss_list \<Rightarrow> nat set" where
  "ml_offs w [] = {}"
| "ml_offs w ((f, l) # r) = {off w f..off w l} \<union> ml_offs w r"

lemma ml_inv_from_mono: "ml_inv_from w n ml \<Longrightarrow> m \<le> n \<Longrightarrow> ml_inv_from w m ml"
  by (cases ml) auto

lemma ml_inv_from_bounds: "ml_inv_from w n ml \<Longrightarrow> k \<in> ml_offs w ml \<Longrightarrow> n \<le> k \<and> k < 32768"
  by (induction w n ml rule: ml_inv_from.induct) fastforce+

lemma in_range_le:
  assumes "off w f \<le> off w l" "off w l < 32768"
  shows "seq_le f x \<and> seq_le x l \<longleftrightarrow> off w f \<le> off w x \<and> off w x \<le> off w l"
  using assms off_shift [of f x w] off_shift [of x l w] off_lt [of w x]
  unfolding seq_simps by (auto split: if_splits)

lemma in_range_ge:
  assumes "off w f \<le> off w l" "off w l < 32768"
  shows "seq_le f x \<and> seq_ge l x \<longleftrightarrow> off w f \<le> off w x \<and> off w x \<le> off w l"
  using assms off_lt [of w x]
  unfolding seq_simps off_shift [of f x w] off_shift [of l x w] off_inject [of w l x, symmetric]
  by (auto split: if_splits)

lemma before_window:
  assumes "off w f < 32768" "seq_gt f x" "off w f \<le> k" "k < 32768"
  shows "off w x \<noteq> k"
  using assms off_shift [of f x w] unfolding seq_simps by (auto split: if_splits)

lemma ml_contains_offs:
  "ml_inv_from w n ml \<Longrightarrow> ml_contains x ml \<longleftrightarrow> off w x \<in> ml_offs w ml"
proof (induction w n ml rule: ml_inv_from.induct)
  case (2 w n f l r)
  then have "seq_le f x \<and> seq_ge l x \<longleftrightarrow> off w f \<le> off w x \<and> off w x \<le> off w l"
    by (intro in_range_ge) auto
  with 2 show ?case by auto
qed simp

lemma ml_remove_hit:
  assumes inv: "ml_inv_from w n ((f, l) # r)" and hit: "off w f \<le> off w x" "off w x \<le> off w l"
  shows "ml_inv_from w n (ml_remove x ((f, l) # r)) \<and>
         ml_offs w (ml_remove x ((f, l) # r)) = ml_offs w ((f, l) # r) - {off w x}"
proof -
  let ?F = "off w f" and ?L = "off w l" and ?X = "off w x"
  have in_le: "seq_le f x \<and> seq_le x l" using inv hit in_range_le [of w f l x] by simp
  have r: "k \<in> ml_offs w r \<Longrightarrow> ?L + 2 \<le> k" for k
    using inv ml_inv_from_bounds [of w "?L + 2" r k] by simp
  have rX: "?X \<notin> ml_offs w r" using r [of ?X] hit by auto
  have eqf: "seq_eq f x \<longleftrightarrow> ?F = ?X" and eql: "seq_eq l x \<longleftrightarrow> ?L = ?X"
    unfolding seq_simps off_inject by blast+
  consider (both) "?F = ?X" "?L = ?X" | (first) "?F = ?X" "?X < ?L" | (last) "?F < ?X" "?L = ?X"
    | (mid) "?F < ?X" "?X < ?L" using hit by linarith
  then show ?thesis
  proof cases
    case both
    then show ?thesis using inv in_le eqf eql rX ml_inv_from_mono [of w "?L + 2" r n] by auto
  next
    case first
    then have "ml_remove x ((f, l) # r) = (f + 1, l) # r"
      using in_le eqf eql by (simp add: seq_inc_def)
    moreover have "off w (f + 1) = ?F + 1" using first inv off_inc [of w f] by auto
    ultimately show ?thesis using first inv rX by auto
  next
    case last
    then have "ml_remove x ((f, l) # r) = (f, l - 1) # r"
      using in_le eqf eql by (simp add: seq_dec_def)
    moreover have "off w (l - 1) = ?L - 1" using last off_dec [of w l] by auto
    moreover have "ml_inv_from w (?L - 1 + 2) r" using inv ml_inv_from_mono [of w "?L + 2" r "?L - 1 + 2"] by simp
    ultimately show ?thesis using last inv rX by auto
  next
    case mid
    have "seq_lt f x \<and> seq_lt x l"
      using mid inv unfolding seq_simps off_shift [of f x w] off_shift [of x l w] by auto
    then have rm: "ml_remove x ((f, l) # r) = (f, x - 1) # (x + 1, l) # r"
      using mid in_le eqf eql by simp
    have "off w (x - 1) = ?X - 1" using mid off_dec [of w x] by auto
    moreover have "off w (x + 1) = ?X + 1" using mid inv off_inc [of w x] by auto
    moreover have "{?F..?X - 1} \<union> {?X + 1..?L} = {?F..?L} - {?X}" using mid by auto
    moreover have "ml_offs w r - {?X} = ml_offs w r" using rX by blast
    ultimately have "ml_offs w (ml_remove x ((f, l) # r)) = ml_offs w ((f, l) # r) - {?X}"
      unfolding rm by (simp add: Un_Diff Un_assoc [symmetric])
    moreover have "ml_inv_from w n (ml_remove x ((f, l) # r))"
      unfolding rm using inv mid \<open>off w (x - 1) = ?X - 1\<close> \<open>off w (x + 1) = ?X + 1\<close> by auto
    ultimately show ?thesis by blast
  qed
qed

lemma ml_remove_offs:
  "ml_inv_from w n ml \<Longrightarrow>
   ml_inv_from w n (ml_remove x ml) \<and> ml_offs w (ml_remove x ml) = ml_offs w ml - {off w x}"
proof (induction w n ml rule: ml_inv_from.induct)
  case (2 w n f l r)
  let ?F = "off w f" and ?L = "off w l" and ?X = "off w x"
  show ?case
  proof (cases "?F \<le> ?X \<and> ?X \<le> ?L")
    case True
    then show ?thesis using ml_remove_hit [OF "2.prems", of x] by blast
  next
    case False
    then have miss: "\<not> (seq_le f x \<and> seq_le x l)" using "2.prems" in_range_le [of w f l x] by simp
    have bd: "k \<in> ml_offs w ((f, l) # r) \<Longrightarrow> ?F \<le> k \<and> k < 32768" for k
      using ml_inv_from_bounds [of w ?F "(f, l) # r" k] "2.prems" by simp
    show ?thesis
    proof (cases "seq_gt f x")
      case True
      then have "ml_remove x ((f, l) # r) = (f, l) # r" using miss by auto
      moreover have "?X \<notin> ml_offs w ((f, l) # r)"
        using before_window [of w f x ?X] True "2.prems" bd [of ?X] by auto
      ultimately show ?thesis using "2.prems" by auto
    next
      case nogt: False
      then have "ml_remove x ((f, l) # r) = (f, l) # ml_remove x r" using miss by auto
      moreover have "ml_inv_from w (?L + 2) (ml_remove x r) \<and> ml_offs w (ml_remove x r) = ml_offs w r - {?X}"
        using "2.IH" "2.prems" by simp
      moreover have "?X \<notin> {?F..?L}" using False by simp
      ultimately show ?thesis using "2.prems" by (simp add: Un_Diff)
    qed
  qed
qed simp

lemma ml_add_offs:
  assumes "ml_inv_from w n ml" "\<forall>k\<in>ml_offs w ml. k < off w s" "n \<le> off w s" "off w s \<le> off w e" "off w e < 32768"
  shows "ml_inv_from w n (ml_add s e ml) \<and> ml_offs w (ml_add s e ml) = ml_offs w ml \<union> {off w s..off w e}"
  using assms
proof (induction w n ml rule: ml_inv_from.induct)
  case (2 w n f l r)
  let ?F = "off w f" and ?L = "off w l" and ?S = "off w s"
  have L: "?L < ?S" and S: "?S < 32768" using "2.prems" by simp_all
  have inc: "off w (l + 1) = ?L + 1" using "2.prems" off_inc [of w l] by auto
  have lt: "seq_lt (l + 1) s \<longleftrightarrow> ?L + 1 < ?S"
    using L S unfolding seq_simps off_shift [of "l + 1" s w] inc by auto
  have eq: "seq_eq (l + 1) s \<longleftrightarrow> ?L + 1 = ?S"
    unfolding seq_simps off_inject [of w, symmetric] inc ..
  show ?case
  proof (cases "?L + 1 = ?S")
    case True
    have "r = []"
    proof (cases r)
      case (Cons p r')
      then obtain f2 l2 where p: "p = (f2, l2)" by (cases p)
      have "?L + 2 \<le> off w f2 \<and> off w f2 \<in> ml_offs w ((f, l) # r)"
        using "2.prems"(1) Cons p by simp
      then show ?thesis using "2.prems"(2) True by fastforce
    qed simp
    then have "ml_add s e ((f, l) # r) = [(f, e)]" using eq lt True by simp
    then show ?thesis using "2.prems" True \<open>r = []\<close> by auto
  next
    case False
    then have g: "?L + 1 < ?S" using L by simp
    have ih: "ml_inv_from w (?L + 2) (ml_add s e r) \<and> ml_offs w (ml_add s e r) = ml_offs w r \<union> {?S..off w e}"
      using "2.IH" "2.prems" g by simp
    have "ml_add s e ((f, l) # r) = (f, l) # ml_add s e r" using g lt by simp
    with ih show ?thesis using "2.prems" by auto
  qed
qed simp

lemma ml_pop_front_offs:
  assumes "ml_inv_from w n ml" "ml_pop_front ml = Some (x, ml')"
  shows "ml_inv_from w n ml' \<and> ml_offs w ml' = ml_offs w ml - {off w x} \<and>
         off w x \<in> ml_offs w ml \<and> (\<forall>k\<in>ml_offs w ml. off w x \<le> k)"
proof (cases ml)
  case (Cons p r)
  then obtain f l where p: "p = (f, l)" by (cases p)
  have "seq_le f f \<and> seq_le f l" using assms(1) in_range_le [of w f l f] by (simp add: Cons p)
  then have x: "x = f" and ml': "ml' = ml_remove f ml"
    using assms(2) by (auto simp: Cons p seq_eq_off)
  have i: "ml_inv_from w (off w f) ml" using assms(1) by (simp add: Cons p)
  then have "off w f \<in> ml_offs w ml" by (simp add: Cons p)
  moreover have "\<forall>k\<in>ml_offs w ml. off w f \<le> k" using ml_inv_from_bounds [OF i] by blast
  ultimately show ?thesis using ml_remove_offs [OF assms(1), of f] x ml' by blast
qed (use assms in simp)

lemma off_rebase: "d \<le> off w x \<Longrightarrow> off (w + of_nat d) x = off w x - d"
  using off_shift [of "w + of_nat d" x w] off_lt [of w x] by (simp add: off_plus)

lemma ml_rebase:
  "ml_inv_from w n ml \<Longrightarrow> d \<le> n \<Longrightarrow>
   ml_inv_from (w + of_nat d) (n - d) ml \<and> ml_offs (w + of_nat d) ml = (\<lambda>k. k - d) ` ml_offs w ml"
proof (induction w n ml rule: ml_inv_from.induct)
  case (2 w n f l r)
  have f: "off (w + of_nat d) f = off w f - d" using "2.prems" by (intro off_rebase) simp
  have l: "off (w + of_nat d) l = off w l - d" using "2.prems" by (intro off_rebase) simp
  have img: "{off w f - d..off w l - d} = (\<lambda>k. k - d) ` {off w f..off w l}"
    using "2.prems" by (simp add: image_minus_atLeastAtMost)
  have "off w l - d + 2 = off w l + 2 - d" using "2.prems" by (auto simp: Suc_diff_le)
  then show ?case using "2.IH" "2.prems" by (simp add: f l img image_Un) auto
qed simp

section \<open>The wire format\<close>

definition ml_enc_pairs :: "miss_list \<Rightarrow> byte list" where
  "ml_enc_pairs ml = concat (map (\<lambda>(f, l). le_bytes 2 f @ le_bytes 2 l) ml)"

definition ml_enc :: "miss_list \<Rightarrow> byte list" where
  "ml_enc ml = le_bytes 1 (ml_wire_len ml) @ ml_enc_pairs (take (unat (ml_wire_len ml)) ml)"

lemma ml_enc_pairs_Cons [simp]:
  "ml_enc_pairs [] = []"
  "ml_enc_pairs ((f, l) # r) = le_bytes 2 f @ le_bytes 2 l @ ml_enc_pairs r"
  by (simp_all add: ml_enc_pairs_def)

lemma length_ml_enc_pairs [simp]: "length (ml_enc_pairs ml) = 4 * length ml"
  by (induction ml) auto

lemma length_ml_enc: "length (ml_enc ml) \<le> 1021"
  using unsigned_less [of "ml_wire_len ml", where ?'a = nat] by (simp add: ml_enc_def)

lemma writes_ml_pairs: "writes (ml_write_pairs n ml) (ml_enc_pairs (take n ml))"
proof (induction n ml rule: ml_write_pairs.induct)
  case (3 n f l r)
  then show ?case
    by (simp add: writes_andthen writes_field)
qed (simp_all add: writes_ret)

lemma writes_ml_enc: "writes (ml_write ml) (ml_enc ml)"
  unfolding ml_write_def ml_enc_def Let_def
  by (intro writes_andthen writes_field writes_ml_pairs) simp

lemma ml_wire_len_small: "length ml \<le> 128 \<Longrightarrow> unat (ml_wire_len ml) = length ml"
proof -
  assume n: "length ml \<le> 128"
  then have o: "off 0 (of_nat (length ml)) = length ml" using off_plus [of "length ml" 0] by simp
  have "seq_lt (of_nat (length ml)) (128 :: seq_num) \<longleftrightarrow> length ml < 128"
    using n off_shift [of "of_nat (length ml)" 128 0] unfolding seq_simps o by (auto simp: off_0)
  then have "ml_wire_len ml = ucast (of_nat (length ml) :: seq_num)"
    using n by (cases "length ml = 128") (simp_all add: ml_wire_len_def Let_def)
  also have "\<dots> = of_nat (length ml)"
    using n by (simp add: unsigned_of_nat take_bit_nat_eq_self)
  finally show ?thesis using n by (simp add: unsigned_of_nat take_bit_nat_eq_self)
qed

lemma reads_field_at:
  assumes "n < 2 ^ 31" "LENGTH('w::len) \<le> 8 * n"
    and "drop (ds_pos ds) (ds_mem ds) = le_bytes n (w :: 'w word) @ r" "ds_pos ds \<le> length (ds_mem ds)"
  shows "rd_field n upd (x, ds) = (Inr (), (upd w x, ds\<lparr> ds_pos := ds_pos ds + n \<rparr>))"
    and "drop (ds_pos ds + n) (ds_mem ds) = r" and "ds_pos ds + n \<le> length (ds_mem ds)"
proof -
  show "rd_field n upd (x, ds) = (Inr (), (upd w x, ds\<lparr> ds_pos := ds_pos ds + n \<rparr>))"
    using reads_field [OF assms(1,2), of upd w] assms(3,4) by (simp add: reads_def)
  show "drop (ds_pos ds + n) (ds_mem ds) = r"
    using assms(3) by (metis add.commute append_eq_conv_conj drop_drop length_le_bytes)
  have "length (ds_mem ds) - ds_pos ds = n + length r"
    using assms(3) by (metis length_append length_drop length_le_bytes)
  then show "ds_pos ds + n \<le> length (ds_mem ds)" using assms(4) by linarith
qed

lemma ml_read_pairs_ok:
  assumes "length ys = n" "n \<le> length ml"
    and "drop (ds_pos ds) (ds_mem ds) = ml_enc_pairs ys @ r" "ds_pos ds \<le> length (ds_mem ds)"
  shows "ml_read_pairs n (ml, ds) =
    (Inr (), (take (length ml - n) ml @ ys, ds\<lparr> ds_pos := ds_pos ds + 4 * n \<rparr>))"
  using assms
proof (induction n arbitrary: ys ml ds)
  case (Suc n)
  then obtain f l ys' where ys: "ys = (f, l) # ys'" and len: "length ys' = n"
    by (cases ys) auto
  define i where "i = length ml - Suc n"
  have i: "i < length ml" using Suc.prems(2) by (simp add: i_def)
  define ds1 where "ds1 = ds\<lparr> ds_pos := ds_pos ds + 2 \<rparr>"
  define ds2 where "ds2 = ds\<lparr> ds_pos := ds_pos ds + 4 \<rparr>"
  have d0: "drop (ds_pos ds) (ds_mem ds) = le_bytes 2 f @ (le_bytes 2 l @ ml_enc_pairs ys' @ r)"
    using Suc.prems(3) ys by simp
  have sz: "(2 :: nat) < 2 ^ 31" "LENGTH(16) \<le> 8 * 2" by simp_all
  note r1 = reads_field_at [OF sz d0 Suc.prems(4)]
  have d1: "drop (ds_pos ds1) (ds_mem ds1) = le_bytes 2 l @ (ml_enc_pairs ys' @ r)"
    "ds_pos ds1 \<le> length (ds_mem ds1)"
    using r1(2,3) by (simp_all add: ds1_def)
  note r2 = reads_field_at [OF sz d1]
  have d2: "drop (ds_pos ds2) (ds_mem ds2) = ml_enc_pairs ys' @ r" "ds_pos ds2 \<le> length (ds_mem ds2)"
    using r2(2,3) by (simp_all add: ds1_def ds2_def eval_nat_numeral)
  let ?U1 = "\<lambda>v ml. ml[length ml - Suc n := (v, snd (ml ! (length ml - Suc n)))] :: miss_list"
  let ?U2 = "\<lambda>v ml. ml[length ml - Suc n := (fst (ml ! (length ml - Suc n)), v)] :: miss_list"
  have e1: "rd_field 2 ?U1 (ml, ds) = (Inr (), (ml[i := (f, snd (ml ! i))], ds1))"
    using r1(1) [of ?U1 ml] by (simp add: ds1_def i_def)
  have e2: "rd_field 2 ?U2 (ml[i := (f, snd (ml ! i))], ds1) = (Inr (), (ml[i := (f, l)], ds2))"
    using r2(1) [of ?U2 "ml[i := (f, snd (ml ! i))]"] i
    by (simp add: ds1_def ds2_def i_def [symmetric] eval_nat_numeral)
  have step: "ml_read_pairs (Suc n) (ml, ds) = ml_read_pairs n (ml[i := (f, l)], ds2)"
    by (simp only: ml_read_pairs.simps andthen_def bindc_def e1 e2 prod.case sum.case)
  have "ml_read_pairs n (ml[i := (f, l)], ds2) =
      (Inr (), (take (length ml - n) (ml[i := (f, l)]) @ ys', ds2\<lparr> ds_pos := ds_pos ds2 + 4 * n \<rparr>))"
    using Suc.IH [OF len _ d2, of "ml[i := (f, l)]"] Suc.prems(2) by simp
  moreover have "length ml - n = Suc i" using Suc.prems(2) by (simp add: i_def)
  moreover have "take (Suc i) (ml[i := (f, l)]) = take i ml @ [(f, l)]"
    using i by (simp add: take_Suc_conv_app_nth)
  ultimately show ?case using step by (simp add: ys i_def [symmetric] ds2_def)
qed (simp add: ret_def)

lemma reads_ml_enc:
  assumes "length ml \<le> 128"
  shows "reads ml_read (\<lambda>_. ml) (ml_enc ml)"
  unfolding reads_def
proof (intro allI impI)
  fix ds :: datastream and r x
  assume d: "drop (ds_pos ds) (ds_mem ds) = ml_enc ml @ r \<and> ds_pos ds \<le> length (ds_mem ds)"
  let ?n = "length ml" and ?ds1 = "ds\<lparr> ds_pos := ds_pos ds + 1 \<rparr>"
  have n: "unat (ml_wire_len ml) = ?n" using assms by (rule ml_wire_len_small)
  then have d0: "drop (ds_pos ds) (ds_mem ds) = le_bytes 1 (ml_wire_len ml) @ (ml_enc_pairs ml @ r)"
    "ds_pos ds \<le> length (ds_mem ds)"
    using d by (simp_all add: ml_enc_def)
  have sz: "(1 :: nat) < 2 ^ 31" "LENGTH(8) \<le> 8 * 1" by simp_all
  note r1 = reads_field_at [OF sz d0]
  have "ds_read 1 ds = (Inr (le_bytes 1 (ml_wire_len ml)), ?ds1)"
    using ds_read_exact [of 1 ds] r1(3) d0(1) by simp
  then have "ml_read (x, ds) = ml_read_pairs ?n (resize_list ?n (0, 0) x, ?ds1)"
    by (simp add: ml_read_def Let_def n of_le_bytes_le_bytes)
  also have "\<dots> = (Inr (), (ml, ds\<lparr> ds_pos := ds_pos ds + length (ml_enc ml) \<rparr>))"
    using ml_read_pairs_ok [of ml ?n "resize_list ?n (0, 0) x" ?ds1 r] r1(2,3)
    by (simp add: ml_enc_def n)
  finally show "ml_read (x, ds) = (Inr (), (ml, ds\<lparr> ds_pos := ds_pos ds + length (ml_enc ml) \<rparr>))" .
qed

interpretation mlc: stream_codec ml_enc ml_write ml_read "\<lambda>ml. length ml \<le> 128"
  by unfold_locales (simp_all add: writes_ml_enc reads_ml_enc)

interpretation seqc: stream_codec "le_bytes 2 :: seq_num \<Rightarrow> byte list" seq_write seq_read "\<lambda>_. True"
  by unfold_locales
    (simp_all add: seq_write_def seq_read_def writes_field reads_field [where upd = "\<lambda>v _. v"])

section \<open>The interface of the UDT channel\<close>

text \<open>
  What a user of a list of losses relies on, relative to the base \<open>w\<close> of its window: every
  operation acts on the set \<open>offs w m\<close> of missing offsets, and moving the base forward shifts it.
\<close>

locale loss_list =
  fixes empty :: "'m"
    and add :: "seq_num \<Rightarrow> seq_num \<Rightarrow> 'm \<Rightarrow> 'm"
    and remove :: "seq_num \<Rightarrow> 'm \<Rightarrow> 'm"
    and contains :: "seq_num \<Rightarrow> 'm \<Rightarrow> bool"
    and invar :: "seq_num \<Rightarrow> 'm \<Rightarrow> bool"
    and offs :: "seq_num \<Rightarrow> 'm \<Rightarrow> nat set"
  assumes empty: "invar w empty" "offs w empty = {}"
    and bounded: "invar w m \<Longrightarrow> k \<in> offs w m \<Longrightarrow> k < 32768"
    and contains: "invar w m \<Longrightarrow> contains x m \<longleftrightarrow> off w x \<in> offs w m"
    and remove: "invar w m \<Longrightarrow> invar w (remove x m)"
      "invar w m \<Longrightarrow> offs w (remove x m) = offs w m - {off w x}"
    and add: "invar w m \<Longrightarrow> (\<And>k. k \<in> offs w m \<Longrightarrow> k < off w s) \<Longrightarrow> off w s \<le> off w e \<Longrightarrow>
        off w e < 32768 \<Longrightarrow> invar w (add s e m)"
      "invar w m \<Longrightarrow> (\<And>k. k \<in> offs w m \<Longrightarrow> k < off w s) \<Longrightarrow> off w s \<le> off w e \<Longrightarrow>
        off w e < 32768 \<Longrightarrow> offs w (add s e m) = offs w m \<union> {off w s..off w e}"
    and rebase: "invar w m \<Longrightarrow> 0 \<notin> offs w m \<Longrightarrow> invar (w + 1) m"
      "invar w m \<Longrightarrow> 0 \<notin> offs w m \<Longrightarrow> offs (w + 1) m = (\<lambda>k. k - 1) ` offs w m"
begin

text \<open>The account of a receive window with base \<open>w\<close> and \<open>n\<close> numbers: each of them is either
  received (\<open>R\<close>) or missing, never both.\<close>

definition accounts :: "seq_num \<Rightarrow> nat set \<Rightarrow> nat \<Rightarrow> 'm \<Rightarrow> bool" where
  "accounts w R n m \<longleftrightarrow> invar w m \<and> n \<le> 32768 \<and> R \<inter> offs w m = {} \<and> R \<union> offs w m = {..<n}"

lemma accounts_empty: "accounts w {} 0 empty"
  by (simp add: accounts_def empty)

lemma accounts_next:
  assumes "accounts w R n m" "off w x = n" "n < 32768"
  shows "accounts w (insert n R) (Suc n) (remove x m)"
  using assms unfolding accounts_def by (auto simp: remove lessThan_Suc)

lemma accounts_gap:
  assumes "accounts w R n m" "n < off w x" "off w x < 32768"
  shows "accounts w (insert (off w x) R) (Suc (off w x)) (add (w + of_nat n) (x - 1) (remove x m))"
proof -
  have inv: "invar w m" and part: "R \<inter> offs w m = {}" "R \<union> offs w m = {..<n}" and n: "n \<le> 32768"
    using assms(1) by (auto simp: accounts_def)
  have s: "off w (w + of_nat n) = n" using assms n by (simp add: off_plus)
  have e: "off w (x - 1) = off w x - 1" using assms(2) off_dec [of w x] by auto
  have rm: "invar w (remove x m)" "offs w (remove x m) = offs w m"
    using inv part assms(2) by (auto simp: remove)
  have below: "k < off w (w + of_nat n)" if "k \<in> offs w (remove x m)" for k
    using that part rm s by auto
  have "invar w (add (w + of_nat n) (x - 1) (remove x m))"
    by (rule add(1)) (use rm below s e assms in auto)
  moreover have "offs w (add (w + of_nat n) (x - 1) (remove x m)) = offs w m \<union> {n..off w x - 1}"
    using add(2) [OF rm(1), of "w + of_nat n" "x - 1"] below s e assms rm by auto
  moreover have "R \<subseteq> {..<n}" using part by blast
  moreover have "{..<n} \<union> {n..off w x - 1} \<union> {off w x} = {..<Suc (off w x)}" using assms(2) by auto
  moreover have "(R \<union> offs w m) \<union> {n..off w x - 1} \<union> {off w x} = insert (off w x) R \<union> (offs w m \<union> {n..off w x - 1})"
    by blast
  moreover have "insert (off w x) R \<inter> (offs w m \<union> {n..off w x - 1}) = {}"
    using part \<open>R \<subseteq> {..<n}\<close> assms(2) by auto
  ultimately show ?thesis using part(2) assms(3) unfolding accounts_def by simp
qed

lemma accounts_fill:
  assumes "accounts w R n m" "off w x < n"
  shows "accounts w (insert (off w x) R) n (remove x m)"
  using assms unfolding accounts_def by (auto simp: remove)

lemma accounts_ignore:
  assumes "accounts w R n m" "off w x \<notin> offs w m"
  shows "accounts w R n (remove x m)"
  using assms unfolding accounts_def by (auto simp: remove)

lemma accounts_advance:
  assumes "accounts w R n m" "0 \<in> R"
  shows "accounts (w + 1) ((\<lambda>k. k - 1) ` (R - {0})) (n - 1) m"
proof -
  have inv: "invar w m" and z: "0 \<notin> offs w m" and n: "n \<le> 32768"
    and part: "R \<inter> offs w m = {}" "R \<union> offs w m = {..<n}"
    using assms by (auto simp: accounts_def)
  let ?d = "\<lambda>k :: nat. k - 1"
  have inj: "inj_on ?d ({..<n} - {0})" by (auto simp: inj_on_def)
  have "{..<n} - {0} = (R - {0}) \<union> offs w m" using part z by blast
  then have "?d ` ({..<n} - {0}) = ?d ` (R - {0}) \<union> ?d ` offs w m" by (simp add: image_Un)
  moreover have "?d ` ({..<n} - {0}) = {..<n - 1}"
    by (force simp: image_iff intro: bexI [of _ "Suc _"])
  moreover have "?d ` (R - {0}) \<inter> ?d ` offs w m = {}"
    using inj part z by (subst inj_on_image_Int [OF inj, symmetric]) auto
  ultimately show ?thesis
    using rebase [OF inv z] n unfolding accounts_def by simp
qed

end

lemma ml_rebase_one:
  assumes "ml_inv w m" "0 \<notin> ml_offs w m"
  shows "ml_inv (w + 1) m" "ml_offs (w + 1) m = (\<lambda>k. k - 1) ` ml_offs w m"
proof -
  have "ml_inv_from w 1 m"
    using assms unfolding ml_inv_def by (cases m) (auto simp: Suc_le_eq simp del: off_eq_0)
  then show "ml_inv (w + 1) m" "ml_offs (w + 1) m = (\<lambda>k. k - 1) ` ml_offs w m"
    using ml_rebase [of w 1 m 1] by (simp_all add: ml_inv_def)
qed

interpretation ll: loss_list "[]" ml_add ml_remove ml_contains ml_inv ml_offs
proof (unfold_locales, goal_cases)
  case (3 w m k)
  then show ?case using ml_inv_from_bounds by (auto simp: ml_inv_def)
next
  case (7 w m s e)
  then show ?case using ml_add_offs [of w 0 m s e] by (simp add: ml_inv_def)
next
  case (8 w m s e)
  then show ?case using ml_add_offs [of w 0 m s e] by (simp add: ml_inv_def)
qed (simp_all add: ml_inv_def ml_contains_offs ml_remove_offs ml_rebase_one [unfolded ml_inv_def])

section \<open>Draining\<close>

text \<open>The sender's loop \<open>while( pop_front(sq) )\<close>: the order in which it sees the numbers.\<close>

fun ml_total :: "miss_list \<Rightarrow> nat" where
  "ml_total [] = 0"
| "ml_total ((f, l) # r) = Suc (off f l) + ml_total r"

lemma ml_pop_front_total: "ml_pop_front ml = Some (x, ml') \<Longrightarrow> ml_total ml' < ml_total ml"
proof (induction ml rule: ml_pop_front.induct)
  case (2 f l r)
  show ?case
  proof (cases "f = l")
    case False
    have pos: "0 < off f l" using False by (metis gr0I off_eq_0)
    moreover have "off (f + 1) l = off f l - 1"
      using off_shift [of "f + 1" l f] off_inc [of f f] pos by simp
    ultimately show ?thesis using 2 False by (auto simp: seq_eq_off seq_inc_def)
  qed (use 2 in \<open>auto simp: seq_eq_off\<close>)
qed simp

function ml_drain :: "miss_list \<Rightarrow> seq_num list" where
  "ml_drain ml = (case ml_pop_front ml of None \<Rightarrow> [] | Some (x, ml') \<Rightarrow> x # ml_drain ml')"
  by auto
termination by (relation "measure ml_total") (auto simp: ml_pop_front_total)

declare ml_drain.simps [simp del]

lemma ml_drain_sorted:
  assumes "ml_inv w ml"
  shows "map (off w) (ml_drain ml) = sorted_list_of_set (ml_offs w ml)"
  using assms
proof (induction ml rule: ml_drain.induct)
  case (1 ml)
  have fin: "finite (ml_offs w m)" for m by (induction m rule: ml_total.induct) auto
  show ?case
  proof (cases "ml_pop_front ml")
    case None
    then have "ml = []" by (cases ml) auto
    then show ?thesis by (simp add: ml_drain.simps)
  next
    case (Some p)
    then obtain x ml' where pop: "ml_pop_front ml = Some (x, ml')" by (cases p) auto
    have m: "ml_inv w ml'" "ml_offs w ml' = ml_offs w ml - {off w x}"
      "off w x \<in> ml_offs w ml" "\<forall>k\<in>ml_offs w ml. off w x \<le> k"
      using ml_pop_front_offs [OF "1.prems" [unfolded ml_inv_def] pop] by (simp_all add: ml_inv_def)
    then have Min: "Min (ml_offs w ml) = off w x" using fin by (intro Min_eqI) auto
    have "sorted_list_of_set (ml_offs w ml) = off w x # sorted_list_of_set (ml_offs w ml')"
      using sorted_list_of_set_nonempty [OF fin, of ml] m Min by auto
    moreover have "map (off w) (ml_drain ml') = sorted_list_of_set (ml_offs w ml')"
      using "1.IH" [OF pop refl] m(1) by simp
    ultimately show ?thesis using pop by (subst ml_drain.simps) simp
  qed
qed

section \<open>Properties\<close>

text \<open>
  A miss list is an exact set of sequence numbers, across the wrap. On a list that is well
  formed in a window of 2^15 numbers, \<open>remove\<close> of any number of the whole 16-bit circle keeps
  the list well formed and takes away that number and no other; \<open>add\<close> of a range behind all
  its members adds exactly that range; and \<open>contains\<close> decides membership, also for numbers
  outside the window.
\<close>

theorem miss_list_set:
  assumes "ml_inv w ml"
  shows "ml_inv w (ml_remove x ml) \<and>
    (\<forall>y. ml_contains y (ml_remove x ml) \<longleftrightarrow> y \<noteq> x \<and> ml_contains y ml) \<and>
    ((\<forall>y. ml_contains y ml \<longrightarrow> off w y < off w s) \<and> off w s \<le> off w e \<and> off w e < 2 ^ 15 \<longrightarrow>
       ml_inv w (ml_add s e ml) \<and>
       (\<forall>y. ml_contains y (ml_add s e ml) \<longleftrightarrow>
             ml_contains y ml \<or> off w s \<le> off w y \<and> off w y \<le> off w e))"
proof (intro conjI allI impI)
  show "ml_inv w (ml_remove x ml)" by (rule ll.remove(1) [OF assms])
  show "ml_contains y (ml_remove x ml) \<longleftrightarrow> y \<noteq> x \<and> ml_contains y ml" for y
    by (auto simp: ll.contains [OF assms] ll.contains [OF ll.remove(1) [OF assms]] ll.remove(2) [OF assms] off_inject)
next
  assume h: "(\<forall>y. ml_contains y ml \<longrightarrow> off w y < off w s) \<and> off w s \<le> off w e \<and> off w e < 2 ^ 15"
  have below: "k < off w s" if "k \<in> ml_offs w ml" for k
    using h [THEN conjunct1, rule_format, of "w + of_nat k"] that ll.bounded [OF assms that]
    by (simp add: ll.contains [OF assms] off_plus)
  show i: "ml_inv w (ml_add s e ml)" using h below by (intro ll.add(1) [OF assms]) auto
  show "ml_contains y (ml_add s e ml) \<longleftrightarrow> ml_contains y ml \<or> off w s \<le> off w y \<and> off w y \<le> off w e" for y
    using h below ll.add(2) [OF assms, of s e] by (auto simp: ll.contains [OF i] ll.contains [OF assms])
qed

theorem miss_list_set_witness:
  "ml_contains 2 (ml_remove 1 [(65534, 65535), (1, 2)]) \<and>
   \<not> ml_contains 1 (ml_remove 1 [(65534, 65535), (1, 2)])"
proof -
  have i: "ml_inv 65530 [(65534, 65535), (1, 2)]" by (simp add: ml_inv_def off_def)
  have "ml_contains 2 [(65534, 65535), (1, 2)]" by code_simp
  then show ?thesis using miss_list_set [OF i, of 1] by simp
qed

text \<open>
  Retransmission sees every missing number once and in order. The loop that pops the front
  of a miss list until it is empty always ends, and on a well-formed list it yields exactly the
  listed numbers, in the order of the window, each once.
\<close>

theorem miss_list_drain:
  assumes "ml_inv w ml"
  shows "sorted_wrt (\<lambda>x y. off w x < off w y) (ml_drain ml) \<and>
         (\<forall>x. x \<in> set (ml_drain ml) \<longleftrightarrow> ml_contains x ml)"
proof
  have m: "map (off w) (ml_drain ml) = sorted_list_of_set (ml_offs w ml)" using assms by (rule ml_drain_sorted)
  then have "sorted_wrt (<) (map (off w) (ml_drain ml))" by simp
  then show "sorted_wrt (\<lambda>x y. off w x < off w y) (ml_drain ml)" by (simp add: sorted_wrt_map)
  have "finite (ml_offs w ml)" using ll.bounded [OF assms] by (meson finite_lessThan finite_subset lessThan_iff subsetI)
  then have "off w ` set (ml_drain ml) = ml_offs w ml" using arg_cong [OF m, of set] by simp
  then show "\<forall>x. x \<in> set (ml_drain ml) \<longleftrightarrow> ml_contains x ml"
    using ll.contains [OF assms] off_inject [of w] by (metis (no_types) image_iff)
qed

theorem miss_list_drain_witness: "set (ml_drain [(65535, 1), (4, 4)]) = {65535, 0, 1, 4}"
proof -
  have i: "ml_inv 65000 [(65535, 1), (4, 4)]" by (simp add: ml_inv_def off_def)
  have "sorted_wrt (\<lambda>x y. off 65000 x < off 65000 y) (ml_drain [(65535, 1), (4, 4)])"
    using miss_list_drain [OF i] by blast
  moreover have "ml_drain [(65535, 1), (4, 4)] = [65535, 0, 1, 4]" by code_simp
  ultimately show ?thesis by auto
qed

text \<open>
  A miss list survives the wire. Writing a list of at most 128 ranges into a packet buffer
  of 2048 bytes succeeds and reading the bytes back gives the same list, whatever list the
  reader held before; and the image of any list, however long, has at most 1021 bytes.
\<close>

theorem miss_list_roundtrip:
  assumes "length ml \<le> 128" "length mem = 2048"
  shows "\<exists>bs. pack_packet mem ml_write ml = Inr bs \<and> unpack_packet ml_read old bs = (Inr (), ml) \<and>
              length bs = 1 + 4 * length ml"
  using mlc.pack_enc [of ml mem] mlc.unpack_enc [of ml old "[]"] length_ml_enc [of ml] assms
  by (simp add: ml_enc_def ml_wire_len_small)

theorem miss_list_roundtrip_witness:
  "\<exists>bs. pack_packet (replicate 2048 0) ml_write [(65535, 1)] = Inr bs \<and>
        unpack_packet ml_read [(7, 7), (9, 9)] bs = (Inr (), [(65535, 1)]) \<and> length bs = 5"
  using miss_list_roundtrip [of "[(65535, 1)]" "replicate 2048 0" "[(7, 7), (9, 9)]"] by simp

text \<open>
  \<open>size\<close> does not count the missing numbers. It adds the signed distance from the end of
  a range back to its start, so a range of \<open>n\<close> numbers contributes \<open>2 - n\<close>: a list with one
  range of two numbers has size 0 although it contains both of them.
\<close>

theorem miss_list_size_reversed:
  "ml_size [(f, f + 1)] = 0 \<and> ml_contains f [(f, f + 1)] \<and> ml_contains (f + 1) [(f, f + 1)] \<and>
   ml_size [(f, f + 2)] = - 1"
proof -
  have s: "seq_minus (f + 1) f = - 1" "seq_minus (f + 2) f = - 2"
    by (simp_all add: seq_minus_def seq_distance_def)
  have o: "off f (f + 1) = 1" using off_plus [of 1 f] by simp
  moreover have "off (f + 1) f = 65535" using off_shift [of "f + 1" f f] o by simp
  ultimately show ?thesis using s by (simp add: ml_size_def seq_simps)
qed

end
