(* ===== verification/Buffer.thy ===== *)
theory Buffer
  imports Sequence_Number
begin

text \<open>
  include/tornet/buffer.hpp and src/buffer.cpp: a view (start pointer and length) of a shared
  array of 2048 bytes. Views of one array alias each other, and the UDT channel depends on it,
  so the arrays live in an explicit store. The last section shows what \<open>udt_channel::write\<close> and
  \<open>retransmit\<close> get from the aliasing: the bytes sent again are the bytes sent first.
\<close>

section \<open>The store and the views\<close>

type_synonym heap = "byte list list"

definition buffer_data_size :: nat where
  "buffer_data_size = 2048"

text \<open>\<open>buf_arr\<close> is the array that \<open>shared_data\<close> keeps alive, \<open>buf_in\<close> the array \<open>start\<close> points
  into, and \<open>buf_off\<close> the offset of \<open>start\<close> there. Constructors make the two arrays the same;
  assignment does not.\<close>

record buffer =
  buf_in :: nat
  buf_off :: int
  buf_len :: u32
  buf_arr :: nat

text \<open>\<open>make_shared<buffer_data>()\<close> value-initialises the array.\<close>

definition heap_alloc :: "(heap, nat) cmd" where
  "heap_alloc h = (Inr (length h), h @ [replicate buffer_data_size 0])"

definition buf_new :: "(heap, buffer) cmd" where
  "buf_new = bindc heap_alloc (\<lambda>a.
     ret \<lparr> buf_in = a, buf_off = 0, buf_len = of_nat buffer_data_size, buf_arr = a \<rparr>)"

definition heap_store :: "nat \<Rightarrow> int \<Rightarrow> byte list \<Rightarrow> (heap, unit) cmd" where
  "heap_store a p d h =
     (if a < length h \<and> 0 \<le> p \<and> nat p + length d \<le> length (h ! a)
      then (Inr (), h[a := overwrite (nat p) d (h ! a)])
      else (Inl (Undefined ''write outside a buffer array''), h))"

definition buf_from_string :: "byte list \<Rightarrow> (heap, buffer) cmd" where
  "buf_from_string d = bindc heap_alloc (\<lambda>a.
     if length d \<le> buffer_data_size then
       andthen (heap_store a 0 d)
         (ret \<lparr> buf_in = a, buf_off = 0, buf_len = of_nat (length d), buf_arr = a \<rparr>)
     else raise (Assert_fail ''d.size() <= sizeof(buffer_data)''))"

definition buf_from_data :: "byte list \<Rightarrow> u32 \<Rightarrow> (heap, buffer) cmd" where
  "buf_from_data d dl = bindc heap_alloc (\<lambda>a.
     if unat dl \<le> buffer_data_size then
       (if unat dl \<le> length d then
          andthen (heap_store a 0 (take (unat dl) d))
            (ret \<lparr> buf_in = a, buf_off = 0, buf_len = dl, buf_arr = a \<rparr>)
        else raise (Undefined ''read past the source''))
     else raise (Assert_fail ''dl <= sizeof(buffer_data)''))"

text \<open>The parameter of \<open>buffer(uint32_t len)\<close> hides the member: \<open>len = len\<close> assigns the parameter
  to itself and the member keeps the indeterminate value \<open>junk\<close>.\<close>

definition buf_from_len :: "u32 \<Rightarrow> u32 \<Rightarrow> (heap, buffer) cmd" where
  "buf_from_len junk len = bindc heap_alloc (\<lambda>a.
     if unat len \<le> buffer_data_size then
       ret \<lparr> buf_in = a, buf_off = 0, buf_len = junk, buf_arr = a \<rparr>
     else raise (Assert_fail ''len <= sizeof(buffer_data)''))"

definition buf_copy :: "buffer \<Rightarrow> buffer" where
  "buf_copy b = b"

definition buf_subbuf :: "buffer \<Rightarrow> int \<Rightarrow> u32 \<Rightarrow> buffer res" where
  "buf_subbuf b s l =
     (let b1 = buf_copy b;
          b2 = b1\<lparr> buf_off := buf_off b1 + s \<rparr>;
          b3 = (if l = - 1 then b2\<lparr> buf_len := buf_len b2 - of_int s \<rparr> else b2\<lparr> buf_len := l \<rparr>)
      in if buf_in b3 \<noteq> buf_arr b3 then Inl (Undefined ''comparison of pointers into two arrays'')
         else if \<not> 0 \<le> buf_off b3 then Inl (Assert_fail ''b.start >= c_array()'')
         else if \<not> buf_off b3 + int (unat (buf_len b3)) \<le> int buffer_data_size
         then Inl (Assert_fail ''b.start + b.len <= c_array() + size()'')
         else Inr b3)"

definition buf_move_start :: "int \<Rightarrow> (buffer, unit) cmd" where
  "buf_move_start sdif b =
     (let b1 = b\<lparr> buf_off := buf_off b + sdif \<rparr>;
          b2 = (if sdif > sint (buf_len b1) then b1\<lparr> buf_len := 0 \<rparr>
                else b1\<lparr> buf_len := buf_len b1 - of_int sdif \<rparr>)
      in if buf_in b2 \<noteq> buf_arr b2 then (Inl (Undefined ''comparison of pointers into two arrays''), b2)
         else if \<not> 0 \<le> buf_off b2 then (Inl (Assert_fail ''start >= c_array()''), b2)
         else if \<not> buf_off b2 \<le> int buffer_data_size
         then (Inl (Assert_fail ''start <= c_array() + size()''), b2)
         else (Inr (), b2))"

definition buf_resize :: "u32 \<Rightarrow> (buffer, unit) cmd" where
  "buf_resize s b = (if s \<le> buf_len b then (Inr (), b\<lparr> buf_len := s \<rparr>)
                     else (Inl (Throw ''Attempt to grow buffer!''), b))"

text \<open>Both assignments exchange or copy \<open>shared_data\<close> only.\<close>

definition buf_move_assign :: "buffer \<Rightarrow> buffer \<Rightarrow> buffer \<times> buffer" where
  "buf_move_assign b c = (b\<lparr> buf_arr := buf_arr c \<rparr>, c\<lparr> buf_arr := buf_arr b \<rparr>)"

definition buf_assign :: "buffer \<Rightarrow> buffer \<Rightarrow> buffer" where
  "buf_assign b c = b\<lparr> buf_arr := buf_arr c \<rparr>"

text \<open>\<open>data()\<close> with \<open>size()\<close>: the bytes a view shows, and \<open>operator[]\<close>.\<close>

definition buf_bytes :: "heap \<Rightarrow> buffer \<Rightarrow> byte list" where
  "buf_bytes h b = take (unat (buf_len b)) (drop (nat (buf_off b)) (h ! buf_in b))"

definition buf_index :: "heap \<Rightarrow> buffer \<Rightarrow> int \<Rightarrow> byte res" where
  "buf_index h b i =
     (let p = buf_off b + i in
      if buf_in b < length h \<and> 0 \<le> p \<and> nat p < length (h ! buf_in b) then Inr (h ! buf_in b ! nat p)
      else Inl (Undefined ''read outside a buffer array''))"

definition buf_store :: "buffer \<Rightarrow> int \<Rightarrow> byte list \<Rightarrow> (heap, unit) cmd" where
  "buf_store b i d = heap_store (buf_in b) (buf_off b + i) d"

section \<open>Well-formed views\<close>

definition heap_ok :: "heap \<Rightarrow> bool" where
  "heap_ok h \<longleftrightarrow> (\<forall>a < length h. length (h ! a) = buffer_data_size)"

definition buf_ok :: "heap \<Rightarrow> buffer \<Rightarrow> bool" where
  "buf_ok h b \<longleftrightarrow> heap_ok h \<and> buf_in b < length h \<and> buf_arr b = buf_in b \<and> 0 \<le> buf_off b \<and>
     buf_off b + int (unat (buf_len b)) \<le> int buffer_data_size"

lemma buf_ok_nat: "buf_ok h b \<Longrightarrow> nat (buf_off b) + unat (buf_len b) \<le> length (h ! buf_in b)"
proof -
  assume ok: "buf_ok h b"
  then have "length (h ! buf_in b) = buffer_data_size" by (simp add: buf_ok_def heap_ok_def)
  moreover have "buf_off b + int (unat (buf_len b)) \<le> int buffer_data_size" "0 \<le> buf_off b"
    using ok unfolding buf_ok_def by blast+
  ultimately show ?thesis by linarith
qed

lemma length_buf_bytes: "buf_ok h b \<Longrightarrow> length (buf_bytes h b) = unat (buf_len b)"
  using buf_ok_nat [of h b] by (simp add: buf_bytes_def)

lemma heap_ok_alloc: "heap_ok h \<Longrightarrow> heap_ok (h @ [replicate buffer_data_size 0])"
  by (auto simp: heap_ok_def nth_append)

lemma heap_ok_store: "heap_ok h \<Longrightarrow> heap_ok (snd (heap_store a p d h))"
  by (auto simp: heap_ok_def heap_store_def nth_list_update)

lemma heap_store_length: "length (snd (heap_store a p d h)) = length h"
  by (simp add: heap_store_def)

lemma buf_ok_store: "buf_ok h b \<Longrightarrow> buf_ok (snd (buf_store c i d h)) b"
  by (simp add: buf_ok_def buf_store_def heap_ok_store heap_store_length)

lemma buf_new_ok: "heap_ok h \<Longrightarrow> \<exists>b h'. buf_new h = (Inr b, h') \<and> buf_ok h' b \<and> unat (buf_len b) = 2048 \<and>
    buf_off b = 0 \<and> buf_in b = length h \<and> h' = h @ [replicate 2048 0]"
  by (simp add: buf_new_def heap_alloc_def bindc_def ret_def buf_ok_def heap_ok_alloc
      heap_ok_alloc [unfolded buffer_data_size_def] buffer_data_size_def)

lemma buf_subbuf_ok: "buf_ok h b \<Longrightarrow> buf_subbuf b s l = Inr c \<Longrightarrow> buf_ok h c"
  by (auto simp: buf_ok_def buf_subbuf_def buf_copy_def Let_def split: if_splits)

lemma unat_minus_of_int:
  fixes w :: u32
  assumes "0 \<le> int (unat w) - s" "int (unat w) - s < 2 ^ 32"
  shows "int (unat (w - of_int s)) = int (unat w) - s"
proof -
  have "w - of_int s = of_int (int (unat w) - s)" by simp
  then have "uint (w - of_int s) = take_bit 32 (int (unat w) - s)"
    by (simp only: uint_word_of_int_eq) simp
  then show ?thesis using assms by (simp add: take_bit_int_eq_self)
qed

lemma buf_subbuf_tail:
  assumes "buf_ok h b" "0 \<le> buf_off b + s" "s \<le> int (unat (buf_len b))"
  shows "buf_subbuf b s (- 1) = Inr (b\<lparr> buf_off := buf_off b + s, buf_len := buf_len b - of_int s \<rparr>)"
    and "int (unat (buf_len b - of_int s)) = int (unat (buf_len b)) - s"
proof -
  have "int (unat (buf_len b)) - s \<le> 2048" using assms by (simp add: buf_ok_def buffer_data_size_def)
  then show l: "int (unat (buf_len b - of_int s)) = int (unat (buf_len b)) - s"
    using assms(3) by (intro unat_minus_of_int) auto
  show "buf_subbuf b s (- 1) = Inr (b\<lparr> buf_off := buf_off b + s, buf_len := buf_len b - of_int s \<rparr>)"
    using assms l by (simp add: buf_subbuf_def buf_copy_def buf_ok_def)
qed

lemma buf_subbuf_tail_bytes:
  assumes "buf_ok h b" "0 \<le> s" "s \<le> int (unat (buf_len b))"
  shows "\<exists>c. buf_subbuf b s (- 1) = Inr c \<and> buf_ok h c \<and> buf_bytes h c = drop (nat s) (buf_bytes h b)"
proof -
  have off: "0 \<le> buf_off b" using assms(1) by (simp add: buf_ok_def)
  note t = buf_subbuf_tail [OF assms(1) _ assms(3)]
  let ?c = "b\<lparr> buf_off := buf_off b + s, buf_len := buf_len b - of_int s \<rparr>"
  have c: "buf_subbuf b s (- 1) = Inr ?c" using t(1) off assms(2) by simp
  have len: "unat (buf_len b - of_int s) = unat (buf_len b) - nat s" using t(2) off assms(2) by linarith
  have "buf_bytes h ?c = drop (nat s) (buf_bytes h b)"
    using off assms(2) by (simp add: buf_bytes_def len drop_take nat_add_distrib add.commute)
  then show ?thesis using c buf_subbuf_ok [OF assms(1) c] by blast
qed

lemma buf_subbuf_back:
  assumes "buf_ok h b" "0 \<le> s" "s \<le> int (unat (buf_len b))" "buf_subbuf b s (- 1) = Inr c"
  shows "buf_subbuf c (- s) (- 1) = Inr b"
proof -
  have off: "0 \<le> buf_off b" using assms(1) by (simp add: buf_ok_def)
  then have c: "c = b\<lparr> buf_off := buf_off b + s, buf_len := buf_len b - of_int s \<rparr>"
    using buf_subbuf_tail(1) [OF assms(1) _ assms(3)] assms(2,4) by simp
  have "- s \<le> int (unat (buf_len c))" using assms(2) by linarith
  moreover have "buf_ok h c" using buf_subbuf_ok [OF assms(1,4)] .
  ultimately have "buf_subbuf c (- s) (- 1) = Inr (c\<lparr> buf_off := buf_off c + - s, buf_len := buf_len c - of_int (- s) \<rparr>)"
    using off assms(2) c by (intro buf_subbuf_tail(1)) auto
  then show ?thesis by (simp add: c)
qed

lemma buf_resize_bytes:
  assumes "buf_ok h b" "s \<le> buf_len b"
  shows "\<exists>c. buf_resize s b = (Inr (), c) \<and> buf_ok h c \<and> buf_bytes h c = take (unat s) (buf_bytes h b)"
proof -
  have le: "unat s \<le> unat (buf_len b)" using assms(2) by (simp add: word_le_nat_alt)
  have "buf_off b + int (unat (buf_len b)) \<le> int buffer_data_size" using assms(1) unfolding buf_ok_def by blast
  then have "buf_off b + int (unat s) \<le> int buffer_data_size" using le by linarith
  then have "buf_ok h (b\<lparr> buf_len := s \<rparr>)"
    using assms(1) unfolding buf_ok_def by simp
  then show ?thesis
    using assms(2) le by (simp add: buf_resize_def buf_bytes_def min_def)
qed

lemma buf_move_start_bytes:
  assumes "buf_ok h b" "0 \<le> s" "s \<le> int (unat (buf_len b))"
  shows "\<exists>c. buf_move_start s b = (Inr (), c) \<and> buf_ok h c \<and> buf_bytes h c = drop (nat s) (buf_bytes h b) \<and>
             unat (buf_len c) = unat (buf_len b) - nat s"
proof -
  have off: "0 \<le> buf_off b" "buf_arr b = buf_in b" using assms(1) by (simp_all add: buf_ok_def)
  have le: "buf_off b + int (unat (buf_len b)) \<le> 2048" using assms(1) unfolding buf_ok_def buffer_data_size_def by simp
  then have "unat (buf_len b) \<le> 2048" using off by linarith
  then have "sint (buf_len b) = int (unat (buf_len b))" by (simp add: sint_unat)
  then have ns: "\<not> sint (buf_len b) < s" using assms(3) by simp
  obtain c where c: "buf_subbuf b s (- 1) = Inr c" "buf_ok h c" "buf_bytes h c = drop (nat s) (buf_bytes h b)"
    using buf_subbuf_tail_bytes [OF assms] by blast
  have ceq: "c = b\<lparr> buf_off := buf_off b + s, buf_len := buf_len b - of_int s \<rparr>"
    using buf_subbuf_tail(1) [OF assms(1) _ assms(3)] assms(2) c(1) off by simp
  have "buf_move_start s b = (Inr (), c)"
    using ns off assms le by (simp add: buf_move_start_def Let_def ceq buffer_data_size_def)
  moreover have "unat (buf_len c) = unat (buf_len b) - nat s"
    using length_buf_bytes [OF c(2)] length_buf_bytes [OF assms(1)] c(3) by simp
  ultimately show ?thesis using c by blast
qed

section \<open>The two views of a data packet\<close>

text \<open>
  The part of \<open>udt_channel::write\<close> that builds a packet: \<open>pbuf\<close> is the packet, and the view
  \<open>pbuf.subbuf(5)\<close> of its payload is what goes into the transmit window. The result is the
  pair of the two views.
\<close>

definition build_data_packet :: "seq_num \<Rightarrow> seq_num \<Rightarrow> byte list \<Rightarrow> (heap, buffer \<times> buffer) cmd" where
  "build_data_packet rx_win_start seq payload =
     bindc buf_new (\<lambda>pbuf.
     case buf_subbuf pbuf 5 (- 1) of Inl e \<Rightarrow> raise e | Inr dat0 \<Rightarrow>
     (case buf_resize (of_nat (length payload)) dat0 of (Inl e, _) \<Rightarrow> raise e | (Inr _, dat) \<Rightarrow>
      andthen (buf_store dat 0 payload)
     (andthen (buf_store pbuf 0 [0])
     (andthen (buf_store pbuf 1 (le_bytes 2 rx_win_start))
     (andthen (buf_store pbuf 3 (le_bytes 2 seq))
     (case buf_resize (of_nat (5 + length payload)) pbuf of
        (Inl e, _) \<Rightarrow> raise e
      | (Inr _, pbuf') \<Rightarrow> ret (pbuf', dat)))))))"

definition data_packet_bytes :: "seq_num \<Rightarrow> seq_num \<Rightarrow> byte list \<Rightarrow> byte list" where
  "data_packet_bytes rx_win_start seq payload = 0 # le_bytes 2 rx_win_start @ le_bytes 2 seq @ payload"

lemma length_data_packet_bytes [simp]: "length (data_packet_bytes rx sq payload) = 5 + length payload"
  by (simp add: data_packet_bytes_def)

lemma buf_store_last:
  assumes "buf_in b = length h" "0 \<le> buf_off b + i" "nat (buf_off b + i) + length d \<le> length xs"
  shows "buf_store b i d (h @ [xs]) = (Inr (), h @ [overwrite (nat (buf_off b + i)) d xs])"
  using assms by (simp add: buf_store_def heap_store_def)

lemma overwrite_header:
  assumes "length xs = 5" "length ys = 2" "length zs = 2"
  shows "overwrite 3 zs (overwrite 1 ys (overwrite 0 [z] (xs @ rest))) = z # ys @ zs @ rest"
proof -
  obtain a b c d e where xs: "xs = [a, b, c, d, e]"
    using assms(1) by (auto simp: length_Suc_conv eval_nat_numeral)
  show ?thesis using assms(2,3) by (simp add: xs overwrite_def eval_nat_numeral)
qed

lemma packet_image:
  assumes "5 \<le> length xs"
  shows "overwrite 3 (le_bytes 2 sq) (overwrite (Suc 0) (le_bytes 2 rx) (overwrite 0 [0] (overwrite 5 payload xs)))
    = data_packet_bytes rx sq payload @ drop (5 + length payload) xs"
  using overwrite_header [of "take 5 xs" "le_bytes 2 rx" "le_bytes 2 sq" 0 "payload @ drop (5 + length payload) xs"] assms
  unfolding overwrite_def [of 5] data_packet_bytes_def by simp

lemma build_data_packet_ok:
  assumes "heap_ok h" "length payload \<le> 1200"
  obtains pbuf dat h' where "build_data_packet rx sq payload h = (Inr (pbuf, dat), h')"
    and "buf_ok h' pbuf" and "buf_ok h' dat" and "buf_bytes h' pbuf = data_packet_bytes rx sq payload"
    and "buf_bytes h' dat = payload" and "buf_subbuf dat (- 5) (- 1) = Inr pbuf"
    and "\<And>b. buf_ok h b \<Longrightarrow> buf_ok h' b \<and> buf_bytes h' b = buf_bytes h b"
proof -
  let ?n = "length payload" and ?a = "length h"
  let ?pb = "\<lparr> buf_in = ?a, buf_off = 0, buf_len = of_nat (5 + ?n), buf_arr = ?a \<rparr>"
  let ?dt = "\<lparr> buf_in = ?a, buf_off = 5, buf_len = of_nat ?n, buf_arr = ?a \<rparr>"
  let ?xs = "data_packet_bytes rx sq payload @ drop (5 + ?n) (replicate 2048 0)"
  let ?h = "h @ [?xs]"
  have un: "unat (of_nat ?n :: u32) = ?n" "unat (of_nat (5 + ?n) :: u32) = 5 + ?n"
    using assms(2) by (simp_all only: unat_of_nat) (simp_all add: take_bit_nat_eq_self)
  have le: "(of_nat ?n :: u32) \<le> 2043" "(of_nat (5 + ?n) :: u32) \<le> 2048"
    using assms(2) by (simp_all only: word_le_nat_alt un) simp_all
  have new: "buf_new h = (Inr \<lparr> buf_in = ?a, buf_off = 0, buf_len = 2048, buf_arr = ?a \<rparr>, h @ [replicate 2048 0])"
    by (simp add: buf_new_def heap_alloc_def bindc_def ret_def buffer_data_size_def)
  have run: "build_data_packet rx sq payload h = (Inr (?pb, ?dt), ?h)"
    using assms(2) le
    by (simp add: build_data_packet_def bindc_def new buf_subbuf_def buf_copy_def Let_def
        buffer_data_size_def buf_resize_def andthen_def ret_def buf_store_last packet_image
        del: of_nat_add of_nat_Suc)
  have lx: "length ?xs = 2048" using assms(2) by (simp add: data_packet_bytes_def)
  have hk: "heap_ok ?h" using assms(1) lx by (auto simp: heap_ok_def nth_append buffer_data_size_def)
  have pbk: "buf_ok ?h ?pb" using hk assms(2) un by (simp add: buf_ok_def buffer_data_size_def del: of_nat_add)
  have dtk: "buf_ok ?h ?dt" using hk assms(2) un by (simp add: buf_ok_def buffer_data_size_def)
  have pbb: "buf_bytes ?h ?pb = data_packet_bytes rx sq payload"
    using un by (simp add: buf_bytes_def del: of_nat_add)
  have "drop 5 (data_packet_bytes rx sq payload) = payload"
    by (simp add: data_packet_bytes_def eval_nat_numeral)
  then have dtb: "buf_bytes ?h ?dt = payload"
    using un by (simp add: buf_bytes_def)
  have e: "(of_nat (5 + ?n) :: u32) - of_int 5 = of_nat ?n" by simp
  have l5: "(5 :: int) \<le> int (unat (buf_len ?pb))" using un by (simp del: of_nat_add)
  have "buf_subbuf ?pb 5 (- 1) = Inr ?dt"
    using buf_subbuf_tail(1) [OF pbk _ l5] e by simp
  then have bk: "buf_subbuf ?dt (- 5) (- 1) = Inr ?pb"
    by (intro buf_subbuf_back [OF pbk _ l5]) simp_all
  have frame: "buf_ok ?h b \<and> buf_bytes ?h b = buf_bytes h b" if "buf_ok h b" for b
    using that hk by (simp add: buf_ok_def buf_bytes_def nth_append)
  show thesis by (rule that [OF run pbk dtk pbb dtb bk frame])
qed

lemma buf_assign_stale:
  "buf_bytes h (buf_assign b c) = buf_bytes h b"
  "buf_ok h b \<Longrightarrow> buf_arr c \<noteq> buf_arr b \<Longrightarrow> \<not> buf_ok h (buf_assign b c)"
  by (simp_all add: buf_bytes_def buf_assign_def buf_ok_def)

section \<open>Properties\<close>

text \<open>
  Views stay inside their array. On a well-formed view \<open>b\<close>: every view \<open>subbuf\<close> returns is
  well formed; cutting \<open>s\<close> bytes from the front with \<open>subbuf(s)\<close> or \<open>move_start(s)\<close>, for
  \<open>0 \<le> s \<le> size()\<close>, trips no assertion and shows the bytes from \<open>s\<close> on; \<open>subbuf(-s)\<close> undoes
  \<open>subbuf(s)\<close>; \<open>resize\<close> cuts the view, keeps it well formed, and throws without changing it
  when asked to grow.
\<close>

theorem buffer_views:
  assumes "buf_ok h b"
  shows "(\<forall>s l c. buf_subbuf b s l = Inr c \<longrightarrow> buf_ok h c) \<and>
    (0 \<le> s \<and> s \<le> int (unat (buf_len b)) \<longrightarrow>
       (\<exists>c. buf_subbuf b s (- 1) = Inr c \<and> buf_bytes h c = drop (nat s) (buf_bytes h b) \<and>
            buf_subbuf c (- s) (- 1) = Inr b) \<and>
       (\<exists>c. buf_move_start s b = (Inr (), c) \<and> buf_ok h c \<and> buf_bytes h c = drop (nat s) (buf_bytes h b))) \<and>
    (case buf_resize n b of
       (Inr _, c) \<Rightarrow> n \<le> buf_len b \<and> buf_ok h c \<and> buf_bytes h c = take (unat n) (buf_bytes h b)
     | (Inl _, c) \<Rightarrow> buf_len b < n \<and> c = b)"
proof (intro conjI)
  show "\<forall>s l c. buf_subbuf b s l = Inr c \<longrightarrow> buf_ok h c" using buf_subbuf_ok [OF assms] by blast
  show "0 \<le> s \<and> s \<le> int (unat (buf_len b)) \<longrightarrow>
       (\<exists>c. buf_subbuf b s (- 1) = Inr c \<and> buf_bytes h c = drop (nat s) (buf_bytes h b) \<and>
            buf_subbuf c (- s) (- 1) = Inr b) \<and>
       (\<exists>c. buf_move_start s b = (Inr (), c) \<and> buf_ok h c \<and> buf_bytes h c = drop (nat s) (buf_bytes h b))"
    using buf_subbuf_tail_bytes [OF assms, of s] buf_subbuf_back [OF assms, of s]
      buf_move_start_bytes [OF assms, of s] by metis
  show "case buf_resize n b of
       (Inr _, c) \<Rightarrow> n \<le> buf_len b \<and> buf_ok h c \<and> buf_bytes h c = take (unat n) (buf_bytes h b)
     | (Inl _, c) \<Rightarrow> buf_len b < n \<and> c = b"
    using buf_resize_bytes [OF assms, of n]
    by (cases "n \<le> buf_len b") (auto simp: buf_resize_def not_le)
qed

theorem buffer_views_witness:
  "\<exists>c. buf_subbuf \<lparr> buf_in = 0, buf_off = 0, buf_len = 2048, buf_arr = 0 \<rparr> 5 (- 1) = Inr c \<and>
       buf_subbuf c (- 5) (- 1) = Inr \<lparr> buf_in = 0, buf_off = 0, buf_len = 2048, buf_arr = 0 \<rparr>"
proof -
  have "buf_ok [replicate 2048 0] \<lparr> buf_in = 0, buf_off = 0, buf_len = 2048, buf_arr = 0 \<rparr>"
    by (simp add: buf_ok_def heap_ok_def buffer_data_size_def)
  from buffer_views [OF this, of 5 0] show ?thesis by auto
qed

text \<open>
  A retransmitted data packet is the packet sent first. For a payload of at most 1200 bytes
  the code of \<open>udt_channel::write\<close> that fills a fresh buffer succeeds; the packet view shows the
  type byte, the receive-window start, the sequence number and the payload; the view kept in
  the transmit window shows the payload; taking \<open>subbuf(-5)\<close> of the kept view, as
  \<open>retransmit\<close> does, gives the packet view again; and every older view is left as it was.
\<close>

theorem retransmit_view_same:
  assumes "heap_ok h" "length payload \<le> 1200"
  shows "\<exists>pbuf dat h'. build_data_packet rx sq payload h = (Inr (pbuf, dat), h') \<and>
     buf_bytes h' pbuf = [0] @ le_bytes 2 rx @ le_bytes 2 sq @ payload \<and> buf_bytes h' dat = payload \<and>
     buf_subbuf dat (- 5) (- 1) = Inr pbuf \<and>
     (\<forall>b. buf_ok h b \<longrightarrow> buf_ok h' b \<and> buf_bytes h' b = buf_bytes h b)"
proof -
  obtain pbuf dat h' where "build_data_packet rx sq payload h = (Inr (pbuf, dat), h')"
    "buf_bytes h' pbuf = data_packet_bytes rx sq payload" "buf_bytes h' dat = payload"
    "buf_subbuf dat (- 5) (- 1) = Inr pbuf" "\<And>b. buf_ok h b \<Longrightarrow> buf_ok h' b \<and> buf_bytes h' b = buf_bytes h b"
    using build_data_packet_ok [OF assms, of rx sq] by metis
  then show ?thesis by (intro exI [of _ pbuf] exI [of _ dat] exI [of _ h']) (simp add: data_packet_bytes_def)
qed

theorem retransmit_view_same_witness:
  "\<exists>pbuf dat h'. build_data_packet 1 7 [65, 66] [] = (Inr (pbuf, dat), h') \<and>
     buf_bytes h' pbuf = [0, 1, 0, 7, 0, 65, 66] \<and> buf_subbuf dat (- 5) (- 1) = Inr pbuf"
proof -
  have e: "le_bytes 2 (1 :: seq_num) = [1, 0]" "le_bytes 2 (7 :: seq_num) = [7, 0]" by code_simp+
  have "heap_ok []" by (simp add: heap_ok_def)
  from retransmit_view_same [OF this, of "[65, 66]" 1 7] show ?thesis unfolding e by auto
qed

end
