(* ===== verification/Udt_Packets.thy ===== *)
theory Udt_Packets
  imports Miss_List Buffer
begin

text \<open>
  The packets of src/udt_channel.cpp and their stream operators: data, ack, nack, ack2 and
  close. The header of a data packet is written by memcpy in \<open>udt_channel::write\<close> (theory
  \<open>Buffer\<close>) and read field by field in \<open>handle_data\<close>.
\<close>

section \<open>Packet types\<close>

datatype packet_types = data | ack | nack | ack2 | close

definition packet_types_of :: "byte \<Rightarrow> packet_types option" where
  "packet_types_of b =
     (if b = 0 then Some data else if b = 1 then Some ack else if b = 2 then Some nack
      else if b = 3 then Some ack2 else if b = 4 then Some close else None)"

fun packet_types_code :: "packet_types \<Rightarrow> byte" where
  "packet_types_code data = 0"
| "packet_types_code ack = 1"
| "packet_types_code nack = 2"
| "packet_types_code ack2 = 3"
| "packet_types_code close = 4"

lemma packet_types_of_code [simp]: "packet_types_of (packet_types_code t) = Some t"
  by (cases t) (simp_all add: packet_types_of_def)

record data_packet =
  dp_flags :: byte
  dp_rx_win_start :: seq_num
  dp_seq :: seq_num
  dp_data :: "byte list"
  dp_last_sent_ack_seq :: seq_num

record ack_packet =
  ap_flags :: byte
  ap_rx_win_start :: seq_num
  ap_rx_win_size :: u16
  ap_rx_win_end :: seq_num
  ap_ack_seq :: seq_num
  ap_utc_time :: u64
  ap_missed_seq :: miss_list

record nack_packet =
  np_flags :: byte
  np_rx_win_start :: seq_num
  np_start_seq :: seq_num
  np_end_seq :: seq_num

text \<open>A default-constructed ack leaves \<open>rx_win_size\<close> and \<open>utc_time\<close> indeterminate (\<open>sz\<close>, \<open>ut\<close>).\<close>

definition ack_packet_init :: "u16 \<Rightarrow> u64 \<Rightarrow> ack_packet" where
  "ack_packet_init sz ut = \<lparr> ap_flags = packet_types_code ack, ap_rx_win_start = 0, ap_rx_win_size = sz,
     ap_rx_win_end = 0, ap_ack_seq = 0, ap_utc_time = ut, ap_missed_seq = [] \<rparr>"

section \<open>Stream operators\<close>

text \<open>The stream operators of a member object run on that member.\<close>

definition rd_member :: "('a \<Rightarrow> 'm) \<Rightarrow> ('m \<Rightarrow> 'a \<Rightarrow> 'a) \<Rightarrow> 'm reader \<Rightarrow> 'a reader" where
  "rd_member gt st rd = (\<lambda>(x, ds). case rd (gt x, ds) of (r, (m, ds')) \<Rightarrow> (r, (st m x, ds')))"

definition ack_write :: "ack_packet \<Rightarrow> writer" where
  "ack_write n =
     andthen (wr_field 1 (ap_flags n))
    (andthen (wr_field 2 (ap_rx_win_start n))
    (andthen (wr_field 2 (ap_rx_win_size n))
    (andthen (wr_field 2 (ap_rx_win_end n))
    (andthen (wr_field 2 (ap_ack_seq n))
    (andthen (wr_field 8 (ap_utc_time n))
             (ml_write (ap_missed_seq n)))))))"

definition ack_read :: "ack_packet reader" where
  "ack_read =
     andthen (rd_field 1 (\<lambda>v n. n\<lparr> ap_flags := v \<rparr>))
    (andthen (rd_field 2 (\<lambda>v n. n\<lparr> ap_rx_win_start := v \<rparr>))
    (andthen (rd_field 2 (\<lambda>v n. n\<lparr> ap_rx_win_size := v \<rparr>))
    (andthen (rd_field 2 (\<lambda>v n. n\<lparr> ap_rx_win_end := v \<rparr>))
    (andthen (rd_field 2 (\<lambda>v n. n\<lparr> ap_ack_seq := v \<rparr>))
    (andthen (rd_field 8 (\<lambda>v n. n\<lparr> ap_utc_time := v \<rparr>))
             (rd_member ap_missed_seq (\<lambda>m n. n\<lparr> ap_missed_seq := m \<rparr>) ml_read))))))"

definition nack_write :: "nack_packet \<Rightarrow> writer" where
  "nack_write n =
     andthen (wr_field 1 (np_flags n))
    (andthen (wr_field 2 (np_rx_win_start n))
    (andthen (wr_field 2 (np_start_seq n))
             (wr_field 2 (np_end_seq n))))"

definition nack_read :: "nack_packet reader" where
  "nack_read =
     andthen (rd_field 1 (\<lambda>v n. n\<lparr> np_flags := v \<rparr>))
    (andthen (rd_field 2 (\<lambda>v n. n\<lparr> np_rx_win_start := v \<rparr>))
    (andthen (rd_field 2 (\<lambda>v n. n\<lparr> np_start_seq := v \<rparr>))
             (rd_field 2 (\<lambda>v n. n\<lparr> np_end_seq := v \<rparr>))))"

text \<open>\<open>ds >> dp.flags >> dp.rx_win_start >> dp.seq\<close>\<close>

definition data_header_read :: "data_packet reader" where
  "data_header_read =
     andthen (rd_field 1 (\<lambda>v n. n\<lparr> dp_flags := v \<rparr>))
    (andthen (rd_field 2 (\<lambda>v n. n\<lparr> dp_rx_win_start := v \<rparr>))
             (rd_field 2 (\<lambda>v n. n\<lparr> dp_seq := v \<rparr>)))"

section \<open>The wire images\<close>

definition ack_enc :: "ack_packet \<Rightarrow> byte list" where
  "ack_enc n = le_bytes 1 (ap_flags n) @ le_bytes 2 (ap_rx_win_start n) @ le_bytes 2 (ap_rx_win_size n) @
     le_bytes 2 (ap_rx_win_end n) @ le_bytes 2 (ap_ack_seq n) @ le_bytes 8 (ap_utc_time n) @ ml_enc (ap_missed_seq n)"

definition nack_enc :: "nack_packet \<Rightarrow> byte list" where
  "nack_enc n = le_bytes 1 (np_flags n) @ le_bytes 2 (np_rx_win_start n) @ le_bytes 2 (np_start_seq n) @
     le_bytes 2 (np_end_seq n)"

lemma reads_member:
  assumes "reads rd (\<lambda>_. m) bs"
  shows "reads (rd_member gt st rd) (\<lambda>x. st m x) bs"
  using assms by (simp add: reads_def rd_member_def)

lemma reads_cong: "reads m f bs \<Longrightarrow> (\<And>x. f x = g x) \<Longrightarrow> reads m g bs"
  by (simp add: reads_def)

interpretation ackc: stream_codec ack_enc ack_write ack_read "\<lambda>n. length (ap_missed_seq n) \<le> 128"
proof
  show "writes (ack_write x) (ack_enc x)" for x
    unfolding ack_write_def ack_enc_def
    by (intro writes_andthen writes_field writes_ml_enc) simp_all
  show "reads ack_read (\<lambda>_. x) (ack_enc x)" if "length (ap_missed_seq x) \<le> 128" for x
    unfolding ack_read_def ack_enc_def
    by (rule reads_cong, (rule reads_andthen reads_field reads_member [OF reads_ml_enc [OF that]] | simp)+)
qed

interpretation nackc: stream_codec nack_enc nack_write nack_read "\<lambda>_. True"
proof
  show "writes (nack_write x) (nack_enc x)" for x
    unfolding nack_write_def nack_enc_def by (intro writes_andthen writes_field) simp_all
  show "reads nack_read (\<lambda>_. x) (nack_enc x)" for x
    unfolding nack_read_def nack_enc_def
    by (rule reads_cong, (rule reads_andthen reads_field | simp)+)
qed

lemma length_ack_enc: "length (ack_enc n) \<le> 2048"
  using length_ml_enc [of "ap_missed_seq n"] by (simp add: ack_enc_def)

lemma length_nack_enc: "length (nack_enc n) = 7"
  by (simp add: nack_enc_def)

end
