(* ===== verification/Udt_Channel.thy ===== *)
theory Udt_Channel
  imports Udt_Packets
begin

text \<open>
  src/udt_channel.cpp: the reliable, ordered byte stream over an unreliable channel. The state
  is the object \<open>udt_channel_private\<close>; every handler is an operation on it. What the handlers
  do to the world around them is recorded in the state: packets handed to the channel
  (\<open>outbox\<close>), the signals fired, the tasks posted and the times at which \<open>on_syn\<close> was scheduled.
  The current time is an argument. A blocked \<open>read\<close> or \<open>write\<close> is a value that says where it
  waits, so that handlers can run in between, as they do on the node thread.
\<close>

section \<open>State\<close>

datatype udt_task = Task_retransmit | Task_close

record udt =
  remote_rx_win :: u16
  tx_win_size :: u16
  tx_miss_list :: miss_list
  last_rx_ack :: ack_packet
  rx_ack_pack :: ack_packet
  tx_ack2_pack :: ack_packet
  rx_ack2_pack :: ack_packet
  start_up :: bool
  dec_on_nack :: bool
  started_retran :: bool
  retransmitting :: bool
  syn_timer_running :: bool
  next_tx_seq :: seq_num
  m_stop_syn_timer :: bool
  next_syn_time :: int
  last_rx_time :: int
  rx_win :: "data_packet list"
  tx_win :: "data_packet list"
  chan_my :: bool
  chan_closed :: bool
  outbox :: "byte list list"
  rx_win_avail :: nat
  tx_win_avail :: nat
  tasks :: "udt_task list"
  syn_schedule :: "int list"

text \<open>The constructor. Members it does not initialise keep what \<open>junk\<close> has in them.\<close>

definition udt_init :: "udt \<Rightarrow> u16 \<Rightarrow> udt" where
  "udt_init junk mwp = junk\<lparr>
     remote_rx_win := 1,
     tx_win_size := 1,
     tx_miss_list := [],
     last_rx_ack := (ack_packet_init (ap_rx_win_size (last_rx_ack junk)) (ap_utc_time (last_rx_ack junk)))
        \<lparr> ap_rx_win_start := 1, ap_rx_win_end := 0, ap_rx_win_size := 1 \<rparr>,
     rx_ack_pack := (ack_packet_init (ap_rx_win_size (rx_ack_pack junk)) (ap_utc_time (rx_ack_pack junk)))
        \<lparr> ap_flags := packet_types_code ack, ap_rx_win_start := 1, ap_rx_win_end := 0, ap_rx_win_size := mwp \<rparr>,
     tx_ack2_pack := (ack_packet_init (ap_rx_win_size (tx_ack2_pack junk)) (ap_utc_time (tx_ack2_pack junk)))
        \<lparr> ap_rx_win_start := 1 \<rparr>,
     rx_ack2_pack := ack_packet_init (ap_rx_win_size (rx_ack2_pack junk)) (ap_utc_time (rx_ack2_pack junk)),
     start_up := True, dec_on_nack := True, started_retran := False, retransmitting := False,
     syn_timer_running := False, next_tx_seq := 0,
     rx_win := [], tx_win := [], chan_my := True, chan_closed := False,
     outbox := [], rx_win_avail := 0, tx_win_avail := 0, tasks := [], syn_schedule := [] \<rparr>"

section \<open>Sending and closing\<close>

definition chan_bool :: "udt \<Rightarrow> bool" where
  "chan_bool s \<longleftrightarrow> chan_my s \<and> \<not> chan_closed s"

definition chan_close :: "udt \<Rightarrow> udt" where
  "chan_close s = (if chan_my s then s\<lparr> chan_closed := True, chan_my := False \<rparr> else s)"

definition udt_send :: "byte list \<Rightarrow> (udt, unit) cmd" where
  "udt_send b s = (if chan_my s then (Inr (), s\<lparr> outbox := outbox s @ [b] \<rparr>)
                   else (Inl (Throw ''Channel freed!''), s))"

definition fresh_mem :: "byte list" where
  "fresh_mem = replicate 2048 0"

definition send_packed :: "('a \<Rightarrow> writer) \<Rightarrow> 'a \<Rightarrow> (udt, unit) cmd" where
  "send_packed wr p = (case pack_packet fresh_mem wr p of Inl e \<Rightarrow> raise e | Inr b \<Rightarrow> udt_send b)"

definition udt_close :: "bool \<Rightarrow> (udt, unit) cmd" where
  "udt_close send_close =
     bindc getc (\<lambda>s.
     andthen
       (whenc (send_close \<and> chan_bool s)
          (case pack_packet fresh_mem ack_write (rx_ack_pack s) of
             Inl e \<Rightarrow> raise e
           | Inr b \<Rightarrow> (if length b < 1 then raise (Throw ''Attempt to grow buffer!'')
                       else udt_send ((take 1 b)[0 := packet_types_code close]))))
       (modc (\<lambda>s. let s1 = chan_close s in
          s1\<lparr> rx_win_avail := rx_win_avail s1 + 1, tx_win_avail := tx_win_avail s1 + 1,
              rx_win := [], tx_win := [],
              rx_ack_pack := (rx_ack_pack s1)\<lparr> ap_missed_seq := ml_clear (ap_missed_seq (rx_ack_pack s1)) \<rparr> \<rparr>)))"

definition can_send :: "udt \<Rightarrow> bool" where
  "can_send s = seq_lt (next_tx_seq s) (seq_plus (ap_rx_win_start (last_rx_ack s)) (int (unat (tx_win_size s))))"

definition stop_syn_timer :: "udt \<Rightarrow> udt" where
  "stop_syn_timer s = s\<lparr> m_stop_syn_timer := True \<rparr>"

definition start_syn_timer :: "int \<Rightarrow> udt \<Rightarrow> udt" where
  "start_syn_timer now s =
     (let s1 = s\<lparr> m_stop_syn_timer := False \<rparr> in
      if \<not> syn_timer_running s1
      then s1\<lparr> next_syn_time := now + 100000, syn_schedule := syn_schedule s1 @ [now + 100000],
               syn_timer_running := True \<rparr>
      else s1)"

definition send_nack :: "seq_num \<Rightarrow> seq_num \<Rightarrow> (udt, unit) cmd" where
  "send_nack st_seq end_seq =
     bindc getc (\<lambda>s. send_packed nack_write
       \<lparr> np_flags = packet_types_code nack, np_rx_win_start = ap_rx_win_start (rx_ack_pack s),
         np_start_seq = st_seq, np_end_seq = end_seq \<rparr>)"

definition send_ack :: "int \<Rightarrow> (udt, unit) cmd" where
  "send_ack now =
     andthen (modc (\<lambda>s. s\<lparr> rx_ack_pack := (rx_ack_pack s)
        \<lparr> ap_ack_seq := seq_inc (ap_ack_seq (rx_ack_pack s)), ap_utc_time := of_int now \<rparr> \<rparr>))
     (bindc getc (\<lambda>s. send_packed ack_write (rx_ack_pack s)))"

section \<open>Retransmission\<close>

text \<open>One popped number: the first packet of the transmit window with it is sent again unless it
  went out too recently; if there is none, the process exits.\<close>

fun retransmit_find :: "seq_num \<Rightarrow> data_packet list \<Rightarrow> nat option" where
  "retransmit_find sq [] = None"
| "retransmit_find sq (i # r) = (if dp_seq i = sq then Some 0 else map_option Suc (retransmit_find sq r))"

definition packet_view :: "data_packet \<Rightarrow> byte list" where
  "packet_view dp = data_packet_bytes (dp_rx_win_start dp) (dp_seq dp) (dp_data dp)"

definition retransmit_one :: "seq_num \<Rightarrow> (udt, unit) cmd" where
  "retransmit_one sq =
     bindc getc (\<lambda>s. case retransmit_find sq (tx_win s) of
       None \<Rightarrow> raise (Exit 1)
     | Some i \<Rightarrow>
         let dp = tx_win s ! i; aseq = ap_ack_seq (tx_ack2_pack s) in
         if seq_lt (seq_plus (dp_last_sent_ack_seq dp) 2) aseq then
           andthen (modc (\<lambda>s. s\<lparr> tx_win := (tx_win s)[i := dp\<lparr> dp_last_sent_ack_seq := seq_plus aseq 1 \<rparr>] \<rparr>))
                   (udt_send (packet_view dp))
         else ret ())"

lemma retransmit_one_miss_list:
  "retransmit_one sq s = (r, s') \<Longrightarrow> tx_miss_list s' = tx_miss_list s"
  by (auto simp: retransmit_one_def bindc_def getc_def andthen_def modc_def udt_send_def raise_def ret_def Let_def
      split: option.splits if_splits prod.splits sum.splits)

function retransmit_loop :: "(udt, unit) cmd" where
  "retransmit_loop s =
     (case ml_pop_front (tx_miss_list s) of
        None \<Rightarrow> (Inr (), s)
      | Some (sq, ml) \<Rightarrow>
          (case retransmit_one sq (s\<lparr> tx_miss_list := ml \<rparr>) of
             (Inl e, s') \<Rightarrow> (Inl e, s')
           | (Inr _, s') \<Rightarrow> retransmit_loop s'))"
  by auto

termination
proof (relation "measure (\<lambda>s. ml_total (tx_miss_list s))", goal_cases)
  case (2 s p sq ml r s' u)
  then have "tx_miss_list s' = ml"
    using retransmit_one_miss_list [of sq "s\<lparr>tx_miss_list := ml\<rparr>" r s'] by simp
  then show ?case using 2 ml_pop_front_total [of "tx_miss_list s" sq ml] by simp
qed simp

declare retransmit_loop.simps [simp del]

definition retransmit :: "bool \<Rightarrow> (udt, unit) cmd" where
  "retransmit do_it =
     (if \<not> do_it then
        bindc getc (\<lambda>s.
          if \<not> retransmitting s then
            (if \<not> started_retran s
             then modc (\<lambda>s. s\<lparr> started_retran := True, tasks := tasks s @ [Task_retransmit] \<rparr>)
             else ret ())
          else ret ())
      else
        andthen (modc (\<lambda>s. s\<lparr> retransmitting := True, started_retran := False \<rparr>))
       (andthen retransmit_loop
                (modc (\<lambda>s. s\<lparr> retransmitting := False \<rparr>))))"

section \<open>The handlers\<close>

fun advance_drop :: "seq_num \<Rightarrow> data_packet list \<times> miss_list \<Rightarrow> data_packet list \<times> miss_list" where
  "advance_drop rx ([], ml) = ([], ml)"
| "advance_drop rx (dp # r, ml) =
     (if seq_lt (dp_seq dp) rx then advance_drop rx (r, ml_remove (dp_seq dp) ml) else (dp # r, ml))"

definition advance_tx :: "seq_num \<Rightarrow> udt \<Rightarrow> udt" where
  "advance_tx rx_win_start s =
     (let s1 = s\<lparr> tx_ack2_pack := (tx_ack2_pack s)\<lparr> ap_rx_win_start := rx_win_start \<rparr> \<rparr>;
          (tw, ml) = advance_drop rx_win_start (tx_win s1, ap_missed_seq (tx_ack2_pack s1));
          s2 = s1\<lparr> tx_win := tw, tx_ack2_pack := (tx_ack2_pack s1)\<lparr> ap_missed_seq := ml \<rparr> \<rparr>
      in if can_send s2 then s2\<lparr> tx_win_avail := tx_win_avail s2 + 1 \<rparr> else s2)"

definition on_syn :: "int \<Rightarrow> (udt, unit) cmd" where
  "on_syn now =
     catchc
      (bindc getc (\<lambda>s.
        if now - last_rx_time s > 5000000 then
          andthen (udt_close False)
                  (modc (\<lambda>s. s\<lparr> syn_timer_running := False, m_stop_syn_timer := False \<rparr>))
        else
          andthen (send_ack now)
         (modc (\<lambda>s.
            if \<not> m_stop_syn_timer s
            then s\<lparr> next_syn_time := next_syn_time s + 100000,
                    syn_schedule := syn_schedule s @ [next_syn_time s + 100000] \<rparr>
            else s\<lparr> syn_timer_running := False, m_stop_syn_timer := False \<rparr>))))
      (\<lambda>_. ret ())"

definition handle_close :: "(udt, unit) cmd" where
  "handle_close = modc (\<lambda>s. s\<lparr> tasks := tasks s @ [Task_close] \<rparr>)"

text \<open>The sorted insertion into the receive window; None for a duplicate.\<close>

fun rx_insert :: "data_packet \<Rightarrow> data_packet list \<Rightarrow> data_packet list option" where
  "rx_insert dp [] = Some [dp]"
| "rx_insert dp (i # r) =
     (if seq_lt (dp_seq i) (dp_seq dp) then map_option (Cons i) (rx_insert dp r)
      else if seq_eq (dp_seq i) (dp_seq dp) then None
      else Some (dp # i # r))"

definition rx_signal :: "data_packet \<Rightarrow> udt \<Rightarrow> udt" where
  "rx_signal dp s =
     (if rx_win s \<noteq> [] \<and> seq_eq (dp_seq dp) (ap_rx_win_start (rx_ack_pack s))
      then s\<lparr> rx_win_avail := rx_win_avail s + 1 \<rparr> else s)"

text \<open>\<open>handle_data\<close> after the packet is parsed and the transmit window advanced.\<close>

definition receive_data :: "data_packet \<Rightarrow> (udt, unit) cmd" where
  "receive_data dp =
     andthen (modc (\<lambda>s. s\<lparr> rx_ack_pack := (rx_ack_pack s)
        \<lparr> ap_missed_seq := ml_remove (dp_seq dp) (ap_missed_seq (rx_ack_pack s)) \<rparr> \<rparr>))
    (bindc getc (\<lambda>s.
      let rp = rx_ack_pack s;
          limit = seq_plus (ap_rx_win_start rp) (int (unat (ap_rx_win_size rp)));
          nxt = seq_plus (ap_rx_win_end rp) 1
      in if seq_eq (dp_seq dp) nxt then
           (if seq_gt (dp_seq dp) limit then ret ()
            else modc (\<lambda>s. rx_signal dp (s\<lparr> rx_win := rx_win s @ [dp],
                   rx_ack_pack := (rx_ack_pack s)\<lparr> ap_rx_win_end := dp_seq dp \<rparr> \<rparr>)))
         else if seq_gt (dp_seq dp) nxt then
           (if seq_gt (dp_seq dp) limit then ret ()
            else
              andthen (modc (\<lambda>s. s\<lparr> rx_win := rx_win s @ [dp],
                  rx_ack_pack := (rx_ack_pack s)\<lparr> ap_rx_win_end := dp_seq dp,
                    ap_missed_seq := ml_add nxt (seq_minus_int (dp_seq dp) 1) (ap_missed_seq (rx_ack_pack s)) \<rparr> \<rparr>))
             (andthen (send_nack nxt (seq_minus_int (dp_seq dp) 1))
                      (modc (rx_signal dp))))
         else if seq_lt (dp_seq dp) (ap_rx_win_start rp) then ret ()
         else (case rx_insert dp (rx_win s) of
                 None \<Rightarrow> ret ()
               | Some w \<Rightarrow> modc (\<lambda>s. rx_signal dp (s\<lparr> rx_win := w,
                   rx_ack_pack := (rx_ack_pack s)
                     \<lparr> ap_missed_seq := ml_remove (dp_seq dp) (ap_missed_seq (rx_ack_pack s)) \<rparr> \<rparr>)))))"

text \<open>\<open>b.subbuf(5)\<close> of a packet shorter than five bytes makes the length wrap and trips the
  assertion in \<open>subbuf\<close>.\<close>

definition handle_data :: "int \<Rightarrow> byte list \<Rightarrow> (udt, unit) cmd" where
  "handle_data now b =
     andthen (modc (start_syn_timer now))
     (if length b < 5 then raise (Assert_fail ''b.start + b.len <= c_array() + size()'')
      else
        (case unpack_packet data_header_read
                \<lparr> dp_flags = packet_types_code data, dp_rx_win_start = 0, dp_seq = 0, dp_data = drop 5 b,
                  dp_last_sent_ack_seq = 0 \<rparr> b of
           (Inl e, _) \<Rightarrow> raise e
         | (Inr _, dp) \<Rightarrow>
             andthen (modc (advance_tx (dp_rx_win_start dp)))
                     (receive_data dp)))"

definition ack_window :: "bool \<Rightarrow> u16 \<Rightarrow> u16 \<Rightarrow> u16" where
  "ack_window startup remote tx =
     (if startup then min (of_nat (3 * unat tx div 2 + 1)) remote
      else if remote > tx then tx + 1 else tx)"

definition handle_ack :: "u16 \<Rightarrow> u64 \<Rightarrow> byte list \<Rightarrow> (udt, unit) cmd" where
  "handle_ack junk_sz junk_ut b =
     andthen (modc (\<lambda>s. s\<lparr> dec_on_nack := True \<rparr>))
     (case unpack_packet ack_read (ack_packet_init junk_sz junk_ut) b of
        (Inl e, _) \<Rightarrow> raise e
      | (Inr _, ap) \<Rightarrow>
          andthen (modc (\<lambda>s. s\<lparr> tx_miss_list := ap_missed_seq ap \<rparr>))
         (bindc getc (\<lambda>s0. let could_send = can_send s0 in
          andthen (whenc (ml_size (ap_missed_seq ap) \<noteq> 0) (retransmit False))
         (andthen (modc (\<lambda>s.
             let s1 = s\<lparr> remote_rx_win := ap_rx_win_size ap \<rparr>;
                 s2 = s1\<lparr> tx_win_size := ack_window (start_up s1) (remote_rx_win s1) (tx_win_size s1) \<rparr>;
                 s3 = (if seq_ge (ap_ack_seq ap) (ap_ack_seq (last_rx_ack s2)) then s2\<lparr> last_rx_ack := ap \<rparr> else s2);
                 s4 = advance_tx (ap_rx_win_start ap) s3
             in s4\<lparr> tx_ack2_pack := (tx_ack2_pack s4)\<lparr> ap_flags := packet_types_code ack2,
                  ap_rx_win_start := next_tx_seq s4, ap_utc_time := ap_utc_time ap, ap_ack_seq := ap_ack_seq ap \<rparr> \<rparr>))
         (bindc getc (\<lambda>s. whenc could_send (send_packed ack_write (tx_ack2_pack s))))))))"

definition nack_window :: "bool \<Rightarrow> u16 \<Rightarrow> u16" where
  "nack_window startup tx =
     (let t = (if startup then of_nat (3 * unat tx div 4) else of_nat (9 * unat tx div 10)) in
      if t = 0 then 1 else t)"

definition handle_nack :: "nack_packet \<Rightarrow> byte list \<Rightarrow> (udt, unit) cmd" where
  "handle_nack junk b =
     (case unpack_packet nack_read junk b of
        (Inl e, _) \<Rightarrow> raise e
      | (Inr _, np) \<Rightarrow>
          andthen (modc (\<lambda>s.
             let s1 = advance_tx (np_rx_win_start np) s;
                 s2 = (if dec_on_nack s1
                       then s1\<lparr> dec_on_nack := False, tx_win_size := nack_window (start_up s1) (tx_win_size s1),
                                start_up := False \<rparr>
                       else s1)
             in s2\<lparr> tx_miss_list := ml_add (np_start_seq np) (np_end_seq np) (tx_miss_list s2) \<rparr>))
          (retransmit False))"

definition handle_ack2 :: "byte list \<Rightarrow> (udt, unit) cmd" where
  "handle_ack2 b =
     bindc getc (\<lambda>s. case unpack_packet ack_read (rx_ack2_pack s) b of
       (Inl e, ap) \<Rightarrow> andthen (modc (\<lambda>s. s\<lparr> rx_ack2_pack := ap \<rparr>)) (raise e)
     | (Inr _, ap) \<Rightarrow> modc (\<lambda>s. stop_syn_timer (s\<lparr> rx_ack2_pack := ap \<rparr>)))"

text \<open>\<open>b[0]\<close> of an empty packet is whatever byte the array has there (\<open>junk0\<close>).\<close>

definition on_recv :: "byte \<Rightarrow> u16 \<Rightarrow> u64 \<Rightarrow> nack_packet \<Rightarrow> int \<Rightarrow> byte list \<Rightarrow> bool \<Rightarrow> (udt, unit) cmd" where
  "on_recv junk0 junk_sz junk_ut junk_np now b ec =
     (if ec then udt_close False
      else
        andthen (modc (\<lambda>s. s\<lparr> last_rx_time := now \<rparr>))
        (case packet_types_of (case b of [] \<Rightarrow> junk0 | c # _ \<Rightarrow> c) of
           Some data \<Rightarrow> handle_data now b
         | Some ack \<Rightarrow> handle_ack junk_sz junk_ut b
         | Some nack \<Rightarrow> handle_nack junk_np b
         | Some ack2 \<Rightarrow> handle_ack2 b
         | Some close \<Rightarrow> handle_close
         | None \<Rightarrow> ret ()))"

definition run_task :: "udt_task \<Rightarrow> (udt, unit) cmd" where
  "run_task t = (case t of Task_retransmit \<Rightarrow> retransmit True | Task_close \<Rightarrow> udt_close False)"

section \<open>Reading and writing\<close>

text \<open>\<open>read\<close> runs without yielding until it has its bytes or the next packet in order is
  missing, where it waits for \<open>rx_win_avail\<close> with the bytes copied so far.\<close>

datatype read_status = Read_done "byte list" | Read_wait "byte list" nat

definition rx_ready :: "udt \<Rightarrow> bool" where
  "rx_ready s \<longleftrightarrow> rx_win s \<noteq> [] \<and> dp_seq (hd (rx_win s)) = ap_rx_win_start (rx_ack_pack s)"

text \<open>One round of the copying loop, on the packet at the front.\<close>

definition read_chunk :: "nat \<Rightarrow> udt \<Rightarrow> byte list \<times> udt" where
  "read_chunk len s =
     (let dp = hd (rx_win s);
          clen = min len (length (dp_data dp));
          dat = drop clen (dp_data dp)
      in (take clen (dp_data dp),
          if dat = []
          then s\<lparr> rx_ack_pack := (rx_ack_pack s)\<lparr> ap_rx_win_start := seq_inc (ap_rx_win_start (rx_ack_pack s)) \<rparr>,
                  rx_win := tl (rx_win s) \<rparr>
          else s\<lparr> rx_win := dp\<lparr> dp_data := dat \<rparr> # tl (rx_win s) \<rparr>))"

function udt_read :: "byte list \<Rightarrow> nat \<Rightarrow> udt \<Rightarrow> read_status \<times> udt" where
  "udt_read got len s =
     (if len = 0 then (Read_done got, s)
      else if \<not> rx_ready s then (Read_wait got len, s)
      else (case read_chunk len s of (c, s') \<Rightarrow> udt_read (got @ c) (len - length c) s'))"
  by auto
termination
  by (relation "measure (\<lambda>(got, len, s). len + length (rx_win s))")
    (auto simp: rx_ready_def neq_Nil_conv read_chunk_def Let_def split: if_splits)

declare udt_read.simps [simp del]

text \<open>Waking up from the wait: the channel may be gone.\<close>

definition udt_read_wake :: "byte list \<Rightarrow> nat \<Rightarrow> (udt, read_status) cmd" where
  "udt_read_wake got len s =
     (if \<not> chan_bool s then (Inl (Throw ''Channel Closed''), s)
      else (case udt_read got len s of (r, s') \<Rightarrow> (Inr r, s')))"

text \<open>\<open>write\<close> builds a packet, waits until it can be sent, sends it and yields.\<close>

datatype write_status = Write_top "byte list" | Write_wait "byte list" data_packet | Write_done

definition write_build :: "byte list \<Rightarrow> udt \<Rightarrow> data_packet \<times> byte list \<times> udt" where
  "write_build dat s =
     (let s1 = s\<lparr> next_tx_seq := seq_inc (next_tx_seq s) \<rparr>;
          plen = min (length dat) 1200
      in (\<lparr> dp_flags = packet_types_code data, dp_rx_win_start = ap_rx_win_start (rx_ack_pack s1),
            dp_seq = next_tx_seq s1, dp_data = take plen dat,
            dp_last_sent_ack_seq = seq_minus_int (ap_ack_seq (tx_ack2_pack s1)) 5 \<rparr>,
          drop plen dat, s1))"

definition write_try :: "byte list \<Rightarrow> data_packet \<Rightarrow> (udt, write_status) cmd" where
  "write_try rest dp =
     bindc getc (\<lambda>s.
       if \<not> can_send s then ret (Write_wait rest dp)
       else
         andthen (modc (\<lambda>s. s\<lparr> tx_ack2_pack := (tx_ack2_pack s)
                     \<lparr> ap_missed_seq := ml_add (dp_seq dp) (dp_seq dp) (ap_missed_seq (tx_ack2_pack s)) \<rparr>,
                   tx_win := tx_win s @ [dp] \<rparr>))
        (andthen (udt_send (packet_view dp))
                 (ret (Write_top rest))))"

fun udt_write :: "write_status \<Rightarrow> (udt, write_status) cmd" where
  "udt_write Write_done s = (Inr Write_done, s)"
| "udt_write (Write_top []) s = (Inr Write_done, s)"
| "udt_write (Write_top (c # cs)) s =
     (case write_build (c # cs) s of (dp, rest, s1) \<Rightarrow> write_try rest dp s1)"
| "udt_write (Write_wait rest dp) s =
     (if \<not> chan_bool s then (Inl (Throw ''Channel Closed''), s) else write_try rest dp s)"

definition udt_channel_close :: "(udt, unit) cmd" where
  "udt_channel_close = udt_close True"

end
