(* ===== verification/Udt_Receiver.thy ===== *)
theory Udt_Receiver
  imports Udt_Channel
begin

text \<open>
  The receiving half of src/udt_channel.cpp. The receive window is a map from offsets (relative
  to \<open>rx_win_start\<close>) to payloads; \<open>handle_data\<close> is a guarded insertion into it, \<open>read\<close> takes
  from its front, and the miss list is at every moment the exact complement of the window.
\<close>

section \<open>The invariant of the receive window\<close>

type_synonym rx_part = "ack_packet \<times> data_packet list"

definition rx_part :: "udt \<Rightarrow> rx_part" where
  "rx_part s = (rx_ack_pack s, rx_win s)"

definition rx_offs :: "rx_part \<Rightarrow> nat list" where
  "rx_offs rw = map (\<lambda>dp. off (ap_rx_win_start (fst rw)) (dp_seq dp)) (snd rw)"

definition rx_len :: "rx_part \<Rightarrow> nat" where
  "rx_len rw = off (ap_rx_win_start (fst rw)) (ap_rx_win_end (fst rw) + 1)"

definition rx_size :: "rx_part \<Rightarrow> nat" where
  "rx_size rw = unat (ap_rx_win_size (fst rw))"

definition rx_inv :: "rx_part \<Rightarrow> bool" where
  "rx_inv rw \<longleftrightarrow> rx_size rw < 32767 \<and> rx_len rw \<le> rx_size rw + 1 \<and> sorted_wrt (<) (rx_offs rw) \<and>
     ll.accounts (ap_rx_win_start (fst rw)) (set (rx_offs rw)) (rx_len rw) (ap_missed_seq (fst rw))"

text \<open>The abstract window: which payload is held at which offset.\<close>

definition rx_map :: "rx_part \<Rightarrow> nat \<rightharpoonup> byte list" where
  "rx_map rw = map_of (zip (rx_offs rw) (map dp_data (snd rw)))"

text \<open>The specification of an arriving packet: it is taken in exactly when its offset is inside
  the window and not held yet.\<close>

definition spec_receive :: "nat \<Rightarrow> nat \<Rightarrow> byte list \<Rightarrow> (nat \<rightharpoonup> byte list) \<Rightarrow> nat \<rightharpoonup> byte list" where
  "spec_receive sz k d m = (if k \<le> sz \<and> m k = None then m(k \<mapsto> d) else m)"

section \<open>What the handlers do to the receive window\<close>

definition receive_part :: "data_packet \<Rightarrow> rx_part \<Rightarrow> rx_part" where
  "receive_part dp rw =
     (case rw of (rp0, w) \<Rightarrow>
      let rp = rp0\<lparr> ap_missed_seq := ml_remove (dp_seq dp) (ap_missed_seq rp0) \<rparr>;
          limit = seq_plus (ap_rx_win_start rp) (int (unat (ap_rx_win_size rp)));
          nxt = seq_plus (ap_rx_win_end rp) 1
      in if seq_eq (dp_seq dp) nxt then
           (if seq_gt (dp_seq dp) limit then (rp, w) else (rp\<lparr> ap_rx_win_end := dp_seq dp \<rparr>, w @ [dp]))
         else if seq_gt (dp_seq dp) nxt then
           (if seq_gt (dp_seq dp) limit then (rp, w)
            else (rp\<lparr> ap_rx_win_end := dp_seq dp,
                      ap_missed_seq := ml_add nxt (seq_minus_int (dp_seq dp) 1) (ap_missed_seq rp) \<rparr>, w @ [dp]))
         else if seq_lt (dp_seq dp) (ap_rx_win_start rp) then (rp, w)
         else (case rx_insert dp w of
                 None \<Rightarrow> (rp, w)
               | Some w' \<Rightarrow> (rp\<lparr> ap_missed_seq := ml_remove (dp_seq dp) (ap_missed_seq rp) \<rparr>, w')))"

lemma rx_part_send [simp]: "rx_part (snd (udt_send b s)) = rx_part s"
  by (simp add: udt_send_def rx_part_def)

lemma rx_part_send_packed [simp]: "rx_part (snd (send_packed wr p s)) = rx_part s"
  by (simp add: send_packed_def raise_def split: sum.split)

lemma rx_part_send_nack [simp]: "rx_part (snd (send_nack a b s)) = rx_part s"
  by (simp add: send_nack_def bindc_def getc_def)

lemma rx_part_signal [simp]: "rx_part (rx_signal dp s) = rx_part s"
  by (simp add: rx_signal_def rx_part_def)

lemma rx_part_advance_tx [simp]: "rx_part (advance_tx r s) = rx_part s"
  by (simp add: advance_tx_def rx_part_def Let_def split: prod.split)

lemma rx_part_start_syn_timer [simp]: "rx_part (start_syn_timer now s) = rx_part s"
  by (simp add: start_syn_timer_def rx_part_def Let_def)

lemma rx_part_receive_data: "rx_part (snd (receive_data dp s)) = receive_part dp (rx_part s)"
proof -
  have nk: "rx_part (snd (andthen (send_nack x y) (modc (rx_signal dp)) t)) = rx_part t" for x y t
  proof -
    obtain r t' where t': "send_nack x y t = (r, t')" by (cases "send_nack x y t")
    then have "rx_part t' = rx_part t" by (metis rx_part_send_nack snd_conv)
    then show ?thesis by (auto simp: andthen_def bindc_def modc_def t' split: sum.split)
  qed
  show ?thesis
    unfolding receive_data_def
    by (simp add: andthen_def [of "modc _"] bindc_def modc_simp getc_simp ret_simp Let_def receive_part_def nk
        rx_part_def [of s] split: option.split)
       (auto simp: rx_part_def rx_signal_def split: option.split)
qed

section \<open>Comparisons inside the window\<close>

lemma window_eq: "seq_eq x y \<longleftrightarrow> off b x = off b y"
  by (simp add: seq_eq_off off_inject)

lemma window_gt:
  assumes "off b y \<le> 32767"
  shows "seq_gt x y \<longleftrightarrow> off b y < off b x \<and> off b x \<le> off b y + 32768"
  using assms off_lt [of b x] unfolding seq_gt_off off_shift [of x y b] by auto

lemma before_base: "seq_lt x b \<longleftrightarrow> 32768 < off b x"
  using off_lt [of b x] off_shift [of x b b] unfolding seq_lt_off by (auto split: if_splits)

lemma window_lt:
  assumes "off b x < 32768" "off b y < 32768"
  shows "seq_lt x y \<longleftrightarrow> off b x < off b y"
  using assms unfolding seq_lt_off off_shift [of x y b] by auto

lemma rx_insert_None:
  assumes "\<forall>i\<in>set w. off b (dp_seq i) < 32768" "off b (dp_seq dp) < 32768"
    and "sorted_wrt (<) (map (\<lambda>i. off b (dp_seq i)) w)"
  shows "rx_insert dp w = None \<longleftrightarrow> off b (dp_seq dp) \<in> set (map (\<lambda>i. off b (dp_seq i)) w)"
  using assms
proof (induction w)
  case (Cons i w)
  then show ?case
    using window_lt [of b "dp_seq i" "dp_seq dp"] window_eq [of "dp_seq i" "dp_seq dp" b] by auto
qed simp

lemma rx_insert_Some:
  assumes "\<forall>i\<in>set w. off b (dp_seq i) < 32768" "off b (dp_seq dp) < 32768"
    and "sorted_wrt (<) (map (\<lambda>i. off b (dp_seq i)) w)" "rx_insert dp w = Some w'"
  shows "sorted_wrt (<) (map (\<lambda>i. off b (dp_seq i)) w') \<and> set w' = insert dp (set w) \<and>
    map_of (zip (map (\<lambda>i. off b (dp_seq i)) w') (map dp_data w')) =
      (map_of (zip (map (\<lambda>i. off b (dp_seq i)) w) (map dp_data w)))(off b (dp_seq dp) \<mapsto> dp_data dp)"
  using assms
proof (induction w arbitrary: w')
  case (Cons i w)
  note lt = window_lt [of b "dp_seq i" "dp_seq dp"] and eq = window_eq [of "dp_seq i" "dp_seq dp" b]
  show ?case
  proof (cases "seq_lt (dp_seq i) (dp_seq dp)")
    case True
    then obtain v where v: "rx_insert dp w = Some v" "w' = i # v" using Cons.prems(4) by auto
    have "sorted_wrt (<) (map (\<lambda>i. off b (dp_seq i)) v) \<and> set v = insert dp (set w) \<and>
      map_of (zip (map (\<lambda>i. off b (dp_seq i)) v) (map dp_data v)) =
      (map_of (zip (map (\<lambda>i. off b (dp_seq i)) w) (map dp_data w)))(off b (dp_seq dp) \<mapsto> dp_data dp)"
      by (rule Cons.IH [OF _ Cons.prems(2) _ v(1)]) (use Cons.prems in simp_all)
    moreover have "off b (dp_seq i) < off b (dp_seq dp)" using True lt Cons.prems by simp
    ultimately show ?thesis using Cons.prems v(2) by (auto simp: fun_upd_twist)
  next
    case False
    then have w': "w' = dp # i # w" and ne: "\<not> seq_eq (dp_seq i) (dp_seq dp)"
      using Cons.prems(4) by (auto split: if_splits)
    then have "off b (dp_seq dp) < off b (dp_seq i)" using False lt eq Cons.prems by auto
    then show ?thesis using Cons.prems w' by fastforce
  qed
qed auto

section \<open>Preservation and refinement\<close>

lemma accounts_bound: "ll.accounts b R n m \<Longrightarrow> k \<in> R \<Longrightarrow> k < n"
  by (auto simp: ll.accounts_def)

lemma accounts_missing: "ll.accounts b R n m \<Longrightarrow> k \<in> ml_offs b m \<Longrightarrow> k < n \<and> k \<notin> R"
  by (auto simp: ll.accounts_def)

lemma map_of_zip_append:
  "length xs = length ys \<Longrightarrow> k \<notin> set xs \<Longrightarrow>
   map_of (zip (xs @ [k]) (ys @ [d])) = (map_of (zip xs ys))(k \<mapsto> d)"
  by (induction xs ys rule: list_induct2) auto

lemma rx_map_None: "rx_map rw k = None \<longleftrightarrow> k \<notin> set (rx_offs rw)"
  by (simp add: rx_map_def rx_offs_def map_of_zip_is_None)

definition rx_edge :: "rx_part \<Rightarrow> seq_num \<Rightarrow> bool" where
  "rx_edge rw x \<longleftrightarrow> rx_len rw = rx_size rw + 1 \<and> off (ap_rx_win_start (fst rw)) x = rx_size rw + 32769"

text \<open>Each branch of \<open>handle_data\<close>, on the state after \<open>missed_seq.remove\<close>.\<close>

lemma rx_ignore:
  assumes "rx_inv (rp, w)" "off (ap_rx_win_start rp) x \<notin> ml_offs (ap_rx_win_start rp) (ap_missed_seq rp)"
  shows "rx_inv (rp\<lparr> ap_missed_seq := ml_remove x (ap_missed_seq rp) \<rparr>, w)"
  using assms ll.accounts_ignore
  by (simp add: rx_inv_def rx_size_def rx_len_def rx_offs_def)

lemma rx_map_missed [simp]: "rx_map (rp\<lparr> ap_missed_seq := ml \<rparr>, w) = rx_map (rp, w)"
  by (simp add: rx_map_def rx_offs_def)

lemma rx_map_win_end [simp]: "rx_map (rp\<lparr> ap_rx_win_end := e \<rparr>, w) = rx_map (rp, w)"
  by (simp add: rx_map_def rx_offs_def)

lemma rx_map_push:
  assumes "off (ap_rx_win_start rp) (dp_seq dp) \<notin> set (rx_offs (rp, w))"
  shows "rx_map (rp, w @ [dp]) = (rx_map (rp, w))(off (ap_rx_win_start rp) (dp_seq dp) \<mapsto> dp_data dp)"
  using map_of_zip_append [of "rx_offs (rp, w)" "map dp_data w"] assms
  by (simp add: rx_map_def rx_offs_def)

lemma rx_push_next:
  assumes inv: "rx_inv (rp, w)" and "off (ap_rx_win_start rp) (dp_seq dp) = rx_len (rp, w)"
    and "rx_len (rp, w) \<le> rx_size (rp, w)"
  shows "rx_inv (rp\<lparr> ap_missed_seq := ml_remove (dp_seq dp) (ap_missed_seq rp), ap_rx_win_end := dp_seq dp \<rparr>, w @ [dp])"
proof -
  let ?b = "ap_rx_win_start rp" and ?n = "rx_len (rp, w)"
  have acc: "ll.accounts ?b (set (rx_offs (rp, w))) ?n (ap_missed_seq rp)" and W: "rx_size (rp, w) < 32767"
    using inv by (simp_all add: rx_inv_def)
  have "off ?b (dp_seq dp + 1) = Suc ?n" using off_inc [of ?b "dp_seq dp"] assms(2,3) W by simp
  moreover have "ll.accounts ?b (insert ?n (set (rx_offs (rp, w)))) (Suc ?n) (ml_remove (dp_seq dp) (ap_missed_seq rp))"
    using assms(2,3) W by (intro ll.accounts_next [OF acc]) auto
  ultimately show ?thesis
    using inv assms(2,3) accounts_bound [OF acc]
    by (auto simp: rx_inv_def rx_size_def rx_offs_def rx_len_def sorted_wrt_append)
qed

lemma rx_push_gap:
  assumes inv: "rx_inv (rp, w)" and "rx_len (rp, w) < off (ap_rx_win_start rp) (dp_seq dp)"
    and "off (ap_rx_win_start rp) (dp_seq dp) \<le> rx_size (rp, w)"
  shows "rx_inv (rp\<lparr> ap_missed_seq := ml_add (ap_rx_win_end rp + 1) (dp_seq dp - 1) (ml_remove (dp_seq dp) (ap_missed_seq rp)),
                   ap_rx_win_end := dp_seq dp \<rparr>, w @ [dp])"
proof -
  let ?b = "ap_rx_win_start rp" and ?n = "rx_len (rp, w)" and ?k = "off (ap_rx_win_start rp) (dp_seq dp)"
  have acc: "ll.accounts ?b (set (rx_offs (rp, w))) ?n (ap_missed_seq rp)" and W: "rx_size (rp, w) < 32767"
    using inv by (simp_all add: rx_inv_def)
  have "off ?b (dp_seq dp + 1) = Suc ?k" using off_inc [of ?b "dp_seq dp"] assms(3) W by simp
  moreover have "?b + of_nat ?n = ap_rx_win_end rp + 1" by (simp add: rx_len_def plus_off)
  then have "ll.accounts ?b (insert ?k (set (rx_offs (rp, w)))) (Suc ?k)
      (ml_add (ap_rx_win_end rp + 1) (dp_seq dp - 1) (ml_remove (dp_seq dp) (ap_missed_seq rp)))"
    using ll.accounts_gap [OF acc assms(2)] assms(3) W by simp
  ultimately show ?thesis
    using inv assms(2,3) accounts_bound [OF acc]
    by (fastforce simp: rx_inv_def rx_size_def rx_offs_def rx_len_def sorted_wrt_append)
qed

lemma rx_fill:
  assumes inv: "rx_inv (rp, w)" and k: "off (ap_rx_win_start rp) (dp_seq dp) < rx_len (rp, w)"
    and ins: "rx_insert dp w = Some w'"
  defines "rp' \<equiv> rp\<lparr> ap_missed_seq := ml_remove (dp_seq dp) (ml_remove (dp_seq dp) (ap_missed_seq rp)) \<rparr>"
  shows "rx_inv (rp', w')"
    and "rx_map (rp', w') = (rx_map (rp, w))(off (ap_rx_win_start rp) (dp_seq dp) \<mapsto> dp_data dp)"
proof -
  let ?b = "ap_rx_win_start rp" and ?n = "rx_len (rp, w)" and ?k = "off (ap_rx_win_start rp) (dp_seq dp)"
  have acc: "ll.accounts ?b (set (rx_offs (rp, w))) ?n (ap_missed_seq rp)"
    and W: "rx_size (rp, w) < 32767" "?n \<le> rx_size (rp, w) + 1" and srt: "sorted_wrt (<) (rx_offs (rp, w))"
    using inv by (simp_all add: rx_inv_def)
  have "\<forall>i\<in>set w. off ?b (dp_seq i) < 32768"
    using accounts_bound [OF acc] W by (fastforce simp: rx_offs_def)
  then have i: "sorted_wrt (<) (map (\<lambda>i. off ?b (dp_seq i)) w') \<and> set w' = insert dp (set w) \<and>
    map_of (zip (map (\<lambda>i. off ?b (dp_seq i)) w') (map dp_data w')) =
      (map_of (zip (map (\<lambda>i. off ?b (dp_seq i)) w) (map dp_data w)))(?k \<mapsto> dp_data dp)"
    using k W srt by (intro rx_insert_Some [OF _ _ _ ins]) (auto simp: rx_offs_def)
  then show "rx_map (rp', w') = (rx_map (rp, w))(?k \<mapsto> dp_data dp)"
    by (simp add: rx_map_def rx_offs_def rp'_def)
  have "set (rx_offs (rp', w')) = insert ?k (set (rx_offs (rp, w)))" using i by (simp add: rx_offs_def rp'_def)
  moreover have "ll.accounts ?b (insert ?k (insert ?k (set (rx_offs (rp, w))))) ?n
      (ml_remove (dp_seq dp) (ml_remove (dp_seq dp) (ap_missed_seq rp)))"
    by (intro ll.accounts_fill acc k)
  ultimately show "rx_inv (rp', w')"
    using i inv by (simp add: rx_inv_def rx_size_def rx_len_def rp'_def) (simp add: rx_offs_def)
qed

lemma rx_compare:
  assumes inv: "rx_inv (rp, w)"
  defines "b \<equiv> ap_rx_win_start rp"
  shows "seq_eq x (ap_rx_win_end rp + 1) \<longleftrightarrow> off b x = rx_len (rp, w)"
    and "seq_gt x (ap_rx_win_end rp + 1) \<longleftrightarrow> rx_len (rp, w) < off b x \<and> off b x \<le> rx_len (rp, w) + 32768"
    and "seq_gt x (seq_plus b (int (unat (ap_rx_win_size rp)))) \<longleftrightarrow>
           rx_size (rp, w) < off b x \<and> off b x \<le> rx_size (rp, w) + 32768"
    and "seq_lt x b \<longleftrightarrow> 32768 < off b x"
proof -
  have W: "rx_size (rp, w) < 32767" and nW: "rx_len (rp, w) \<le> rx_size (rp, w) + 1"
    using inv by (simp_all add: rx_inv_def)
  have offW: "off b (seq_plus b (int (unat (ap_rx_win_size rp)))) = rx_size (rp, w)"
    by (simp add: seq_plus_def off_def rx_size_def)
  show "seq_eq x (ap_rx_win_end rp + 1) \<longleftrightarrow> off b x = rx_len (rp, w)"
    unfolding rx_len_def fst_conv b_def by (rule window_eq)
  show "seq_gt x (ap_rx_win_end rp + 1) \<longleftrightarrow> rx_len (rp, w) < off b x \<and> off b x \<le> rx_len (rp, w) + 32768"
    using window_gt [of b "ap_rx_win_end rp + 1" x] nW W unfolding rx_len_def fst_conv b_def by simp
  show "seq_gt x (seq_plus b (int (unat (ap_rx_win_size rp)))) \<longleftrightarrow>
           rx_size (rp, w) < off b x \<and> off b x \<le> rx_size (rp, w) + 32768"
    using window_gt [of b "seq_plus b (int (unat (ap_rx_win_size rp)))" x] W unfolding offW by simp
  show "seq_lt x b \<longleftrightarrow> 32768 < off b x" by (rule before_base)
qed

lemma receive_part_cases:
  assumes inv: "rx_inv (rp, w)" and edge: "\<not> rx_edge (rp, w) (dp_seq dp)"
  defines "k \<equiv> off (ap_rx_win_start rp) (dp_seq dp)" and "n \<equiv> rx_len (rp, w)"
    and "rp' \<equiv> rp\<lparr> ap_missed_seq := ml_remove (dp_seq dp) (ap_missed_seq rp) \<rparr>"
  shows "receive_part dp (rp, w) =
    (if rx_size (rp, w) < k then (rp', w)
     else if k = n then (rp'\<lparr> ap_rx_win_end := dp_seq dp \<rparr>, w @ [dp])
     else if n < k then (rp'\<lparr> ap_missed_seq := ml_add (ap_rx_win_end rp + 1) (dp_seq dp - 1) (ap_missed_seq rp'),
                               ap_rx_win_end := dp_seq dp \<rparr>, w @ [dp])
     else (case rx_insert dp w of
             None \<Rightarrow> (rp', w)
           | Some w' \<Rightarrow> (rp'\<lparr> ap_missed_seq := ml_remove (dp_seq dp) (ap_missed_seq rp') \<rparr>, w')))"
proof -
  have W: "rx_size (rp, w) < 32767" and nW: "n \<le> rx_size (rp, w) + 1" using inv by (simp_all add: rx_inv_def n_def)
  have e: "\<not> (n = rx_size (rp, w) + 1 \<and> k = rx_size (rp, w) + 32769)"
    using edge by (simp add: rx_edge_def k_def n_def)
  note cmp = rx_compare [OF inv, of "dp_seq dp", folded k_def n_def]
  show ?thesis
    using W nW e cmp by (auto simp: receive_part_def Let_def rp'_def split: option.split)
qed

lemma receive_part_spec:
  assumes inv: "rx_inv rw" and edge: "\<not> rx_edge rw (dp_seq dp)"
  defines "rw' \<equiv> receive_part dp rw" and "k \<equiv> off (ap_rx_win_start (fst rw)) (dp_seq dp)"
  shows "rx_inv rw' \<and> rx_map rw' = spec_receive (rx_size rw) k (dp_data dp) (rx_map rw) \<and>
    ap_rx_win_start (fst rw') = ap_rx_win_start (fst rw) \<and> ap_rx_win_size (fst rw') = ap_rx_win_size (fst rw)"
proof -
  obtain rp w where rw: "rw = (rp, w)" by (cases rw)
  let ?x = "dp_seq dp" and ?b = "ap_rx_win_start rp" and ?n = "rx_len (rp, w)" and ?W = "rx_size (rp, w)"
  have i: "rx_inv (rp, w)" and e: "\<not> rx_edge (rp, w) ?x" and k: "k = off ?b ?x"
    using inv edge by (simp_all add: rw k_def)
  have nW: "?n \<le> ?W + 1" and acc: "ll.accounts ?b (set (rx_offs (rp, w))) ?n (ap_missed_seq rp)"
    and W: "?W < 32767" and srt: "sorted_wrt (<) (rx_offs (rp, w))"
    using i by (simp_all add: rx_inv_def)
  have held: "k \<in> set (rx_offs (rp, w)) \<Longrightarrow> k < ?n" using accounts_bound [OF acc] .
  have none: "rx_map (rp, w) k = None \<longleftrightarrow> k \<notin> set (rx_offs (rp, w))" by (rule rx_map_None)
  note r = receive_part_cases [OF i e, folded k]
  have ign: "\<not> k < ?n \<or> k \<in> set (rx_offs (rp, w)) \<Longrightarrow> rx_inv (rp\<lparr> ap_missed_seq := ml_remove ?x (ap_missed_seq rp) \<rparr>, w)"
    using rx_ignore [OF i, of ?x] accounts_missing [OF acc, of k] by (auto simp: k)
  have push: "rx_map (rp, w @ [dp]) = (rx_map (rp, w))(k \<mapsto> dp_data dp)" if "\<not> k < ?n"
    using rx_map_push [of rp dp w] held that by (auto simp: k)
  consider (out) "?W < k" | (nxt) "k \<le> ?W" "k = ?n" | (gap) "k \<le> ?W" "?n < k" | (inside) "k \<le> ?W" "k < ?n"
    by linarith
  then show ?thesis
  proof cases
    case out
    then show ?thesis using ign nW by (auto simp: rw'_def rw r spec_receive_def)
  next
    case nxt
    then show ?thesis using rx_push_next [OF i, of dp] none held push
      by (auto simp: rw'_def rw r spec_receive_def k)
  next
    case gap
    then show ?thesis using rx_push_gap [OF i, of dp] none held push
      by (auto simp: rw'_def rw r spec_receive_def k)
  next
    case inside
    have "\<forall>j\<in>set w. off ?b (dp_seq j) < 32768"
      using accounts_bound [OF acc] W nW by (fastforce simp: rx_offs_def)
    then have "rx_insert dp w = None \<longleftrightarrow> k \<in> set (rx_offs (rp, w))"
      using rx_insert_None [of w ?b dp] inside W nW srt by (simp add: k rx_offs_def)
    then show ?thesis using inside rx_fill [OF i, of dp] none ign
      by (cases "rx_insert dp w") (auto simp: rw'_def rw r spec_receive_def k)
  qed
qed

section \<open>Parsing a data packet\<close>

definition parse_data :: "byte list \<Rightarrow> data_packet" where
  "parse_data b = \<lparr> dp_flags = of_le_bytes (take 1 b), dp_rx_win_start = of_le_bytes (take 2 (drop 1 b)),
     dp_seq = of_le_bytes (take 2 (drop 3 b)), dp_data = drop 5 b, dp_last_sent_ack_seq = 0 \<rparr>"

lemma unpack_data_header:
  assumes "5 \<le> length b"
  shows "unpack_packet data_header_read \<lparr> dp_flags = f, dp_rx_win_start = r, dp_seq = q, dp_data = drop 5 b,
           dp_last_sent_ack_seq = 0 \<rparr> b = (Inr (), parse_data b)"
  using assms
  by (simp add: unpack_packet_def data_header_read_def andthen_def bindc_def rd_field_ok ds_make_def parse_data_def
      del: One_nat_def)

lemma parse_data_packet_bytes:
  "parse_data (data_packet_bytes r q d) =
     \<lparr> dp_flags = 0, dp_rx_win_start = r, dp_seq = q, dp_data = d, dp_last_sent_ack_seq = 0 \<rparr>"
  using of_le_bytes_2 [of r] of_le_bytes_2 [of q]
  by (simp add: parse_data_def data_packet_bytes_def numeral_2_eq_2 numeral_3_eq_3 eval_nat_numeral)

lemma rx_part_handle_data:
  "rx_part (snd (handle_data now b s)) =
     (if length b < 5 then rx_part s else receive_part (parse_data b) (rx_part s))"
proof (cases "length b < 5")
  case True
  then show ?thesis by (simp add: handle_data_def andthen_def bindc_def modc_simp raise_simp)
next
  case False
  then show ?thesis
    by (simp add: handle_data_def andthen_def bindc_def modc_simp unpack_data_header packet_types_code.simps
        rx_part_receive_data)
qed

section \<open>Reading\<close>

text \<open>The bytes that are ready: the payloads of the packets that follow \<open>rx_win_start\<close> without a gap.\<close>

fun rx_contig :: "seq_num \<Rightarrow> data_packet list \<Rightarrow> byte list" where
  "rx_contig b [] = []"
| "rx_contig b (dp # r) = (if dp_seq dp = b then dp_data dp @ rx_contig (b + 1) r else [])"

definition rx_bytes :: "udt \<Rightarrow> byte list" where
  "rx_bytes s = rx_contig (ap_rx_win_start (rx_ack_pack s)) (rx_win s)"

lemma rx_bytes_not_ready: "\<not> rx_ready s \<Longrightarrow> rx_bytes s = []"
  by (cases "rx_win s") (auto simp: rx_bytes_def rx_ready_def)

lemma read_chunk_bytes:
  assumes "rx_ready s" "read_chunk len s = (c, s')"
  shows "rx_bytes s = c @ rx_bytes s'" and "length c \<le> len"
proof -
  obtain dp r where w: "rx_win s = dp # r" and q: "dp_seq dp = ap_rx_win_start (rx_ack_pack s)"
    using assms(1) by (auto simp: rx_ready_def neq_Nil_conv)
  show "rx_bytes s = c @ rx_bytes s'" "length c \<le> len"
    using assms(2) by (auto simp: read_chunk_def Let_def w rx_bytes_def q seq_inc_def split: if_splits)
qed

lemma udt_read_bytes:
  "fst (udt_read got len s) =
     (if len \<le> length (rx_bytes s) then Read_done (got @ take len (rx_bytes s))
      else Read_wait (got @ rx_bytes s) (len - length (rx_bytes s))) \<and>
   rx_bytes (snd (udt_read got len s)) = drop len (rx_bytes s)"
proof (induction got len s rule: udt_read.induct)
  case (1 got len s)
  show ?case
  proof (cases "len = 0 \<or> \<not> rx_ready s")
    case True
    then show ?thesis using rx_bytes_not_ready [of s] by (subst (1 2) udt_read.simps) auto
  next
    case False
    obtain c s' where c: "read_chunk len s = (c, s')" by (cases "read_chunk len s")
    have run: "udt_read got len s = udt_read (got @ c) (len - length c) s'"
      using False c by (subst udt_read.simps) simp
    have b: "rx_bytes s = c @ rx_bytes s'" "length c \<le> len" using read_chunk_bytes [OF _ c] False by simp_all
    show ?thesis
      unfolding run using "1.IH" [OF _ _ c [symmetric]] False b by auto
  qed
qed

lemma sorted_wrt_pred:
  fixes xs :: "nat list"
  assumes "sorted_wrt (<) xs" "\<forall>x\<in>set xs. 0 < x"
  shows "sorted_wrt (<) (map (\<lambda>k. k - 1) xs)"
  using assms by (induction xs) fastforce+

lemma rx_part_ready:
  assumes "rx_ready s"
  obtains dp r where "rx_part s = (rx_ack_pack s, dp # r)" and "dp_seq dp = ap_rx_win_start (rx_ack_pack s)"
    and "rx_win s = dp # r"
  using assms by (auto simp: rx_ready_def rx_part_def neq_Nil_conv)

lemma rx_pop:
  assumes inv: "rx_inv (rp, dp # r)" and q: "dp_seq dp = ap_rx_win_start rp"
  defines "rp' \<equiv> rp\<lparr> ap_rx_win_start := seq_inc (ap_rx_win_start rp) \<rparr>"
  shows "rx_inv (rp', r)" and "rx_map (rp', r) = (\<lambda>k. rx_map (rp, dp # r) (k + 1))"
proof -
  let ?b = "ap_rx_win_start rp" and ?n = "rx_len (rp, dp # r)"
  have acc: "ll.accounts ?b (set (rx_offs (rp, dp # r))) ?n (ap_missed_seq rp)"
    and srt: "sorted_wrt (<) (rx_offs (rp, dp # r))" and W: "rx_size (rp, dp # r) < 32767" "?n \<le> rx_size (rp, dp # r) + 1"
    using inv by (simp_all add: rx_inv_def)
  have z: "0 \<in> set (rx_offs (rp, dp # r))" by (simp add: rx_offs_def q)
  then have n0: "0 < ?n" using accounts_bound [OF acc] by blast
  have pos: "\<forall>i\<in>set r. 0 < off ?b (dp_seq i)" using srt by (simp add: rx_offs_def q)
  have o: "off (?b + 1) x = off ?b x - 1" if "0 < off ?b x" for x
    using off_rebase [of 1 ?b x] that by simp
  have offs: "rx_offs (rp', r) = map (\<lambda>k. k - 1) (tl (rx_offs (rp, dp # r)))"
    using pos o by (simp add: rx_offs_def rp'_def seq_inc_def)
  have len: "rx_len (rp', r) = ?n - 1"
    using o [of "ap_rx_win_end rp + 1"] n0 by (simp add: rx_len_def rp'_def seq_inc_def)
  have tl: "set (tl (rx_offs (rp, dp # r))) = set (rx_offs (rp, dp # r)) - {0}"
    using srt by (auto simp: rx_offs_def q)
  have "ll.accounts (?b + 1) (set (rx_offs (rp', r))) (?n - 1) (ap_missed_seq rp)"
    using ll.accounts_advance [OF acc z] by (simp add: offs tl)
  moreover have "sorted_wrt (<) (rx_offs (rp', r))"
    using srt pos unfolding offs by (intro sorted_wrt_pred) (auto simp: rx_offs_def q)
  ultimately show "rx_inv (rp', r)"
    using W len by (simp add: rx_inv_def rx_size_def rp'_def seq_inc_def)
  have gen: "\<forall>x\<in>set xs. 0 < x \<Longrightarrow> length xs = length ys \<Longrightarrow>
      map_of (zip (map (\<lambda>k. k - 1) xs) ys) k = map_of (zip xs ys) (k + 1)" for xs :: "nat list" and ys :: "byte list list" and k
    by (induction xs ys rule: list_induct2') auto
  show "rx_map (rp', r) = (\<lambda>k. rx_map (rp, dp # r) (k + 1))"
  proof
    fix k
    have "rx_map (rp', r) k = map_of (zip (map (\<lambda>k. k - 1) (tl (rx_offs (rp, dp # r)))) (map dp_data r)) k"
      by (simp only: rx_map_def offs snd_conv)
    also have "\<dots> = map_of (zip (tl (rx_offs (rp, dp # r))) (map dp_data r)) (k + 1)"
      using pos by (intro gen) (auto simp: rx_offs_def)
    also have "\<dots> = rx_map (rp, dp # r) (k + 1)" by (simp add: rx_map_def rx_offs_def q)
    finally show "rx_map (rp', r) k = rx_map (rp, dp # r) (k + 1)" .
  qed
qed

lemma rx_inv_trim: "rx_inv (rp, dp\<lparr> dp_data := d \<rparr> # r) \<longleftrightarrow> rx_inv (rp, dp # r)"
  by (simp add: rx_inv_def rx_size_def rx_len_def rx_offs_def)

section \<open>The stream a peer sent\<close>

text \<open>
  \<open>pl k\<close> is the payload of the peer's packet number \<open>k\<close> (from 1 on, before the numbers wrap).
  \<open>rx_good pl p c\<close> says that the window starts at packet \<open>p\<close>, of which \<open>c\<close> bytes are consumed, and
  holds nothing but the peer's payloads at their places; \<open>stream_upto pl p c\<close> is what the peer
  wrote up to there.
\<close>

definition stream_upto :: "(nat \<Rightarrow> byte list) \<Rightarrow> nat \<Rightarrow> nat \<Rightarrow> byte list" where
  "stream_upto pl p c = concat (map pl [1..<p]) @ take c (pl p)"

definition rx_good :: "(nat \<Rightarrow> byte list) \<Rightarrow> nat \<Rightarrow> nat \<Rightarrow> rx_part \<Rightarrow> bool" where
  "rx_good pl p c rw \<longleftrightarrow> 1 \<le> p \<and> rx_inv rw \<and> ap_rx_win_start (fst rw) = of_nat p \<and> c \<le> length (pl p) \<and>
     (0 < c \<longrightarrow> rx_map rw 0 \<noteq> None) \<and>
     (\<forall>k d. rx_map rw k = Some d \<longrightarrow> d = (if k = 0 then drop c (pl p) else pl (p + k)))"

lemma rx_good_read_chunk:
  assumes good: "rx_good pl p c (rx_part s)" and ready: "rx_ready s" and chunk: "read_chunk len s = (ch, s')"
  shows "\<exists>p' c'. rx_good pl p' c' (rx_part s') \<and> stream_upto pl p' c' = stream_upto pl p c @ ch \<and>
    p \<le> p' \<and> p' + length (rx_win s') = p + length (rx_win s)"
proof -
  obtain dp r where w: "rx_part s = (rx_ack_pack s, dp # r)" and q: "dp_seq dp = ap_rx_win_start (rx_ack_pack s)"
    and win: "rx_win s = dp # r"
    using rx_part_ready [OF ready] .
  have m0: "rx_map (rx_part s) 0 = Some (dp_data dp)" by (simp add: w rx_map_def rx_offs_def q)
  then have d: "dp_data dp = drop c (pl p)" using good unfolding rx_good_def by (metis (full_types))
  define clen where "clen = min len (length (dp_data dp))"
  have ch: "ch = take clen (dp_data dp)" using chunk by (auto simp: read_chunk_def Let_def win clen_def)
  show ?thesis
  proof (cases "drop clen (dp_data dp) = []")
    case True
    have inv: "rx_inv (rx_ack_pack s, dp # r)" using good by (simp add: rx_good_def w)
    let ?rp = "(rx_ack_pack s)\<lparr> ap_rx_win_start := seq_inc (ap_rx_win_start (rx_ack_pack s)) \<rparr>"
    have s': "rx_part s' = (?rp, r)" using chunk True by (auto simp: read_chunk_def Let_def win clen_def rx_part_def)
    have val: "d = pl (p + (k + 1))" if "rx_map (rx_ack_pack s, dp # r) (k + 1) = Some d" for k d
      using good that unfolding rx_good_def w by (metis Suc_eq_plus1 nat.distinct(1))
    have "rx_good pl (p + 1) 0 (rx_part s')"
      using rx_pop [OF inv q] good val val [where k = 0]
      by (auto simp: rx_good_def s' w seq_inc_def)
    moreover have "stream_upto pl (p + 1) 0 = stream_upto pl p c @ ch"
      using True good d by (simp add: stream_upto_def ch rx_good_def)
    moreover have "p \<le> p + 1" "p + 1 + length (rx_win s') = p + length (rx_win s)" using s' by (simp_all add: rx_part_def win)
    ultimately show ?thesis by blast
  next
    case False
    have s': "rx_part s' = (rx_ack_pack s, dp\<lparr> dp_data := drop clen (dp_data dp) \<rparr> # r)"
      using chunk False by (auto simp: read_chunk_def Let_def win clen_def rx_part_def)
    have m': "rx_map (rx_part s') = (rx_map (rx_part s))(0 \<mapsto> drop clen (dp_data dp))"
      by (simp add: s' w rx_map_def rx_offs_def q)
    have dd: "drop clen (dp_data dp) = drop (c + clen) (pl p)" by (simp add: d add.commute)
    have "rx_good pl p (c + clen) (rx_part s')"
      unfolding rx_good_def m' dd
    proof (intro conjI allI impI)
      show "c + clen \<le> length (pl p)" using good by (auto simp: rx_good_def clen_def d min_def)
      show "rx_inv (rx_part s')" using good rx_inv_trim [of "rx_ack_pack s" _ dp r] by (simp add: rx_good_def s' w)
      show "d = (if k = 0 then drop (c + clen) (pl p) else pl (p + k))"
        if "((rx_map (rx_part s))(0 \<mapsto> drop (c + clen) (pl p))) k = Some d" for k d
        using good that unfolding rx_good_def by (metis fun_upd_apply option.inject)
    qed (use good in \<open>simp_all add: rx_good_def s' w\<close>)
    moreover have "stream_upto pl p (c + clen) = stream_upto pl p c @ ch"
      by (simp add: stream_upto_def ch d take_add)
    moreover have "length (rx_win s') = length (rx_win s)" using s' by (simp add: rx_part_def win)
    ultimately show ?thesis by (metis order_refl)
  qed
qed

fun status_bytes :: "read_status \<Rightarrow> byte list" where
  "status_bytes (Read_done g) = g"
| "status_bytes (Read_wait g n) = g"

lemma rx_good_read:
  assumes "rx_good pl p c (rx_part s)" "udt_read got len s = (st, s')"
  shows "\<exists>p' c' new. rx_good pl p' c' (rx_part s') \<and> status_bytes st = got @ new \<and>
           stream_upto pl p' c' = stream_upto pl p c @ new \<and> p \<le> p' \<and> p' + length (rx_win s') = p + length (rx_win s)"
  using assms
proof (induction got len s arbitrary: p c rule: udt_read.induct)
  case (1 got len s)
  show ?case
  proof (cases "len = 0 \<or> \<not> rx_ready s")
    case True
    then have "s' = s \<and> status_bytes st = got"
      using "1.prems"(2) by (subst (asm) udt_read.simps) (auto split: if_splits)
    then show ?thesis using "1.prems"(1) by (metis append_Nil2 order_refl)
  next
    case False
    then have nz: "len \<noteq> 0" and rdy: "\<not> \<not> rx_ready s" by simp_all
    obtain ch s1 where c: "read_chunk len s = (ch, s1)" by (cases "read_chunk len s")
    then have run: "udt_read (got @ ch) (len - length ch) s1 = (st, s')"
      using "1.prems"(2) False by (subst (asm) udt_read.simps) simp
    obtain p1 c1 where g: "rx_good pl p1 c1 (rx_part s1)" "stream_upto pl p1 c1 = stream_upto pl p c @ ch"
      "p \<le> p1" "p1 + length (rx_win s1) = p + length (rx_win s)"
      using rx_good_read_chunk [OF "1.prems"(1) _ c] False by blast
    obtain p2 c2 new where "rx_good pl p2 c2 (rx_part s')" "status_bytes st = (got @ ch) @ new"
      "stream_upto pl p2 c2 = stream_upto pl p1 c1 @ new" "p1 \<le> p2" "p2 + length (rx_win s') = p1 + length (rx_win s1)"
      using "1.IH" [OF nz rdy c [symmetric] g(1) run] by blast
    then show ?thesis using g(2,3,4) by (intro exI [of _ p2] exI [of _ c2] exI [of _ "ch @ new"]) auto
  qed
qed

section \<open>Arrivals\<close>

lemma off_of_nat:
  assumes "p \<le> k" "k < p + 65536"
  shows "off (of_nat p) (of_nat k) = k - p"
proof -
  have "(of_nat k :: seq_num) = of_nat p + of_nat (k - p)" using assms(1) by (simp flip: of_nat_add)
  then show ?thesis using off_plus [of "k - p" "of_nat p"] assms by simp
qed

lemma off_of_nat_before:
  assumes "k < p" "p < k + 65536"
  shows "off (of_nat p) (of_nat k) = 65536 - (p - k)"
  using off_shift [of "of_nat p" "of_nat k" "of_nat k"] off_of_nat [of k p] assms by simp

text \<open>A packet of the peer is in time when it is less than half the circle ahead of the window
  and, if it is old, late by less than half the circle less the window.\<close>

definition in_time :: "nat \<Rightarrow> nat \<Rightarrow> nat \<Rightarrow> bool" where
  "in_time sz p k \<longleftrightarrow> 1 \<le> k \<and> k < p + 32768 \<and> p + sz < k + 32767"

lemma rx_good_receive:
  assumes good: "rx_good pl p c rw" and dp: "dp_seq dp = of_nat k" "dp_data dp = pl k"
    and time: "in_time (rx_size rw) p k"
  shows "rx_good pl p c (receive_part dp rw)"
proof -
  have inv: "rx_inv rw" and b: "ap_rx_win_start (fst rw) = of_nat p" using good by (simp_all add: rx_good_def)
  then have W: "rx_size rw < 32767" by (simp add: rx_inv_def)
  let ?o = "off (of_nat p) (of_nat k :: seq_num)"
  have o: "p \<le> k \<and> ?o = k - p \<and> ?o < 32768 \<or> k < p \<and> rx_size rw + 32769 < ?o"
    using off_of_nat [of p k] off_of_nat_before [of k p] time W unfolding in_time_def by (cases "p \<le> k") auto
  then have "\<not> rx_edge rw (dp_seq dp)" by (auto simp: rx_edge_def b dp)
  from receive_part_spec [OF inv this]
  have r: "rx_inv (receive_part dp rw)" "ap_rx_win_start (fst (receive_part dp rw)) = of_nat p"
    and m: "rx_map (receive_part dp rw) = spec_receive (rx_size rw) ?o (pl k) (rx_map rw)"
    by (simp_all add: b dp)
  show ?thesis
  proof (cases "?o \<le> rx_size rw \<and> rx_map rw ?o = None")
    case True
    then have "k = p + ?o" using o by auto
    moreover have "rx_map (receive_part dp rw) = (rx_map rw)(?o \<mapsto> pl k)" using m True by (simp add: spec_receive_def)
    moreover have "c = 0" if "?o = 0" using good True that unfolding rx_good_def by (metis not_gr_zero)
    ultimately show ?thesis using good r unfolding rx_good_def
      by (auto split: if_splits)
  next
    case False
    then have "rx_map (receive_part dp rw) = rx_map rw" using m by (auto simp: spec_receive_def)
    then show ?thesis using good r by (simp add: rx_good_def)
  qed
qed

lemma rx_size_receive: "rx_inv rw \<Longrightarrow> \<not> rx_edge rw (dp_seq dp) \<Longrightarrow> rx_size (receive_part dp rw) = rx_size rw"
  using receive_part_spec [of rw dp] by (simp add: rx_size_def)

section \<open>Handlers that leave the receive window alone\<close>

definition same_rx :: "udt \<Rightarrow> udt \<Rightarrow> bool" where
  "same_rx t s \<longleftrightarrow> chan_my s = chan_my t \<and> rx_win s = rx_win t \<and> ap_rx_win_start (rx_ack_pack s) = ap_rx_win_start (rx_ack_pack t) \<and>
     ap_rx_win_size (rx_ack_pack s) = ap_rx_win_size (rx_ack_pack t) \<and>
     ap_rx_win_end (rx_ack_pack s) = ap_rx_win_end (rx_ack_pack t) \<and>
     ap_missed_seq (rx_ack_pack s) = ap_missed_seq (rx_ack_pack t)"

lemma same_rx_refl [simp]: "same_rx t t" by (simp add: same_rx_def)

lemma rx_good_same:
  assumes "same_rx t s" "rx_good pl p c (rx_part t)"
  shows "rx_good pl p c (rx_part s)"
proof -
  have "rx_offs (rx_part s) = rx_offs (rx_part t)" "rx_len (rx_part s) = rx_len (rx_part t)"
    "rx_size (rx_part s) = rx_size (rx_part t)" "rx_map (rx_part s) = rx_map (rx_part t)"
    "ap_rx_win_start (fst (rx_part s)) = ap_rx_win_start (fst (rx_part t))"
    "ap_missed_seq (fst (rx_part s)) = ap_missed_seq (fst (rx_part t))"
    using assms(1) by (simp_all add: same_rx_def rx_part_def rx_offs_def rx_len_def rx_size_def rx_map_def)
  then show ?thesis using assms(2) by (auto simp: rx_good_def rx_inv_def)
qed

lemma keeps_rx_send [keeps_intros]: "keeps (same_rx t) (udt_send b)"
  by (rule keepsI) (simp add: udt_send_def same_rx_def)

lemma keeps_rx_send_packed [keeps_intros]: "keeps (same_rx t) (send_packed wr p)"
  by (simp add: send_packed_def keeps_intros split: sum.split)

lemma advance_tx_rx [simp]: "rx_win (advance_tx r s) = rx_win s" "rx_ack_pack (advance_tx r s) = rx_ack_pack s"
  "chan_my (advance_tx r s) = chan_my s"
  by (simp_all add: advance_tx_def Let_def split: prod.split)

lemma keeps_rx_send_ack [keeps_intros]: "keeps (same_rx t) (send_ack now)"
  unfolding send_ack_def by (intro keeps_intros) (simp add: same_rx_def)

lemma keeps_rx_retransmit_one [keeps_intros]: "keeps (same_rx t) (retransmit_one sq)"
  unfolding retransmit_one_def
  by (intro keeps_intros) (auto intro!: keeps_intros simp: Let_def same_rx_def split: option.split)

lemma keeps_rx_retransmit_loop [keeps_intros]: "keeps (same_rx t) retransmit_loop"
proof (rule keepsI)
  fix s assume "same_rx t s"
  then show "same_rx t (snd (retransmit_loop s))"
  proof (induction s rule: retransmit_loop.induct)
    case (1 s)
    show ?case
    proof (cases "ml_pop_front (tx_miss_list s)")
      case None
      then show ?thesis using "1.prems" by (simp add: retransmit_loop.simps)
    next
      case (Some x)
      then obtain sq ml where x: "ml_pop_front (tx_miss_list s) = Some (sq, ml)" by (cases x) auto
      obtain r s' where one: "retransmit_one sq (s\<lparr> tx_miss_list := ml \<rparr>) = (r, s')"
        by (cases "retransmit_one sq (s\<lparr> tx_miss_list := ml \<rparr>)")
      have "same_rx t s'"
        using keepsD [OF keeps_rx_retransmit_one, of t "s\<lparr> tx_miss_list := ml \<rparr>" sq] "1.prems" one
        by (simp add: same_rx_def)
      then show ?thesis using "1.IH" [OF x refl one [symmetric]] x one
        by (subst retransmit_loop.simps) (auto split: sum.split)
    qed
  qed
qed

lemma keeps_rx_retransmit [keeps_intros]: "keeps (same_rx t) (retransmit b)"
  unfolding retransmit_def by (intro keeps_intros) (auto simp: same_rx_def)

lemma keeps_rx_handle_ack: "keeps (same_rx t) (handle_ack a u b)"
  unfolding handle_ack_def Let_def
  by (auto intro!: keeps_intros simp: same_rx_def split: prod.split sum.split)

lemma keeps_rx_handle_nack: "keeps (same_rx t) (handle_nack j b)"
  unfolding handle_nack_def Let_def
  by (auto intro!: keeps_intros simp: same_rx_def split: prod.split sum.split)

lemma keeps_rx_handle_ack2: "keeps (same_rx t) (handle_ack2 b)"
  unfolding handle_ack2_def
  by (auto intro!: keeps_intros simp: same_rx_def stop_syn_timer_def split: prod.split sum.split)

lemma keeps_rx_write_try [keeps_intros]: "keeps (same_rx t) (write_try rest dp)"
  unfolding write_try_def by (intro keeps_intros) (simp_all add: same_rx_def)

lemma keeps_rx_write: "keeps (same_rx t) (udt_write ws)"
proof (rule keepsI)
  fix s assume s: "same_rx t s"
  show "same_rx t (snd (udt_write ws s))"
  proof (cases "(ws, s)" rule: udt_write.cases)
    case (3 c cs)
    obtain dp rest s1 where b: "write_build (c # cs) s = (dp, rest, s1)" by (cases "write_build (c # cs) s") auto
    then have "same_rx t s1" using s by (auto simp: write_build_def Let_def same_rx_def)
    then show ?thesis using 3 b keepsD [OF keeps_rx_write_try] by simp
  qed (use s keepsD [OF keeps_rx_write_try, of t s] in auto)
qed

end
