(* ===== verification/Udt_Stream.thy ===== *)
theory Udt_Stream
  imports Udt_Receiver
begin

text \<open>
  The promise of src/udt_channel.cpp to its reader: whatever the network does to the peer's data
  packets (loss, duplication, reordering), and whatever control packets, timers, tasks and
  writes come in between, the bytes that \<open>read\<close> returns are the peer's stream, in order and
  without gaps.
\<close>

section \<open>Runs of a receiver\<close>

text \<open>
  \<open>udt_run pl p out s\<close>: the channel can be in state \<open>s\<close> after its reader got \<open>out\<close>, with \<open>p\<close> the
  number of the packet at the start of the window. Data packets are the peer's, in time as
  \<open>in_time\<close> says; control packets are arbitrary bytes.
\<close>

inductive udt_run :: "(nat \<Rightarrow> byte list) \<Rightarrow> nat \<Rightarrow> byte list \<Rightarrow> udt \<Rightarrow> bool" for pl where
  start: "unat mwp < 32767 \<Longrightarrow> udt_run pl 1 [] (udt_init junk mwp)"
| packet: "udt_run pl p out s \<Longrightarrow> chan_my s \<Longrightarrow> in_time (rx_size (rx_part s)) p k \<Longrightarrow>
    udt_run pl p out (snd (on_recv j0 jz ju jn now (data_packet_bytes r (of_nat k) (pl k)) False s))"
| control: "udt_run pl p out s \<Longrightarrow> chan_my s \<Longrightarrow> b \<noteq> [] \<Longrightarrow> packet_types_of (hd b) \<noteq> Some data \<Longrightarrow>
    udt_run pl p out (snd (on_recv j0 jz ju jn now b False s))"
| closed: "udt_run pl p out s \<Longrightarrow> udt_run pl p out (snd (on_recv j0 jz ju jn now b True s))"
| syn: "udt_run pl p out s \<Longrightarrow> udt_run pl p out (snd (on_syn now s))"
| task: "udt_run pl p out s \<Longrightarrow> udt_run pl p out (snd (run_task t s))"
| shut: "udt_run pl p out s \<Longrightarrow> udt_run pl p out (snd (udt_channel_close s))"
| wr: "udt_run pl p out s \<Longrightarrow> udt_run pl p out (snd (udt_write ws s))"
| rd: "udt_run pl p out s \<Longrightarrow> udt_read got len s = (st, s') \<Longrightarrow> status_bytes st = got @ new \<Longrightarrow>
    udt_run pl (p + off (ap_rx_win_start (rx_ack_pack s)) (ap_rx_win_start (rx_ack_pack s'))) (out @ new) s'"

section \<open>Preservation\<close>

text \<open>Either the channel is open, the window is in order and \<open>out\<close> ends where it starts, or the
  channel was closed and its window emptied.\<close>

definition rx_state :: "(nat \<Rightarrow> byte list) \<Rightarrow> nat \<Rightarrow> byte list \<Rightarrow> udt \<Rightarrow> bool" where
  "rx_state pl p out s \<longleftrightarrow>
     (\<exists>c. chan_my s \<and> rx_good pl p c (rx_part s) \<and> out = stream_upto pl p c) \<or>
     (\<exists>q c. \<not> chan_my s \<and> rx_win s = [] \<and> out = stream_upto pl q c)"

definition closed_rx :: "udt \<Rightarrow> bool" where
  "closed_rx s \<longleftrightarrow> \<not> chan_my s \<and> rx_win s = []"

lemma rx_state_same:
  assumes "rx_state pl p out t" "same_rx t s"
  shows "rx_state pl p out s"
proof -
  have "chan_my s = chan_my t" "rx_win s = rx_win t" using assms(2) by (simp_all add: same_rx_def)
  then show ?thesis using assms(1) rx_good_same [OF assms(2)] unfolding rx_state_def by metis
qed

lemma rx_state_closed: "rx_state pl p out t \<Longrightarrow> closed_rx s \<Longrightarrow> rx_state pl p out s"
  unfolding rx_state_def closed_rx_def by blast

definition quiet :: "udt \<Rightarrow> udt \<Rightarrow> bool" where
  "quiet t s \<longleftrightarrow> same_rx t s \<or> closed_rx s"

lemma rx_state_quiet: "rx_state pl p out t \<Longrightarrow> quiet t s \<Longrightarrow> rx_state pl p out s"
  unfolding quiet_def using rx_state_same rx_state_closed by blast

lemma same_rx_trans: "same_rx t s \<Longrightarrow> same_rx s u \<Longrightarrow> same_rx t u"
  by (simp add: same_rx_def)

lemma same_rx_closed: "closed_rx t \<Longrightarrow> same_rx t s \<Longrightarrow> closed_rx s"
  by (simp add: same_rx_def closed_rx_def)

text \<open>An operation that leaves the window of every state alone is quiet.\<close>

lemma keeps_quiet: "(\<And>t. keeps (same_rx t) m) \<Longrightarrow> keeps (quiet t) m"
  unfolding quiet_def by (intro keepsI) (meson keepsD same_rx_closed same_rx_refl)

lemmas quiet_intros =
  keeps_quiet [OF keeps_rx_send] keeps_quiet [OF keeps_rx_send_ack] keeps_quiet [OF keeps_rx_retransmit]
  keeps_quiet [OF keeps_rx_handle_ack] keeps_quiet [OF keeps_rx_handle_nack] keeps_quiet [OF keeps_rx_handle_ack2]
  keeps_quiet [OF keeps_rx_write]

lemma quiet_close_tail: "quiet t s \<Longrightarrow> quiet t (let s1 = chan_close s in
    s1\<lparr> rx_win_avail := a s1, tx_win_avail := b s1, rx_win := [], tx_win := [], rx_ack_pack := c s1 \<rparr>)"
  by (simp add: quiet_def closed_rx_def chan_close_def Let_def)

lemma quiet_close: "keeps (quiet t) (udt_close f)"
  unfolding udt_close_def
  by (intro keeps_intros; (rule quiet_close_tail, assumption)?)
     (auto intro!: keeps_intros quiet_intros split: sum.split)

lemma quiet_modc: "(\<And>s. same_rx s (f s)) \<Longrightarrow> keeps (quiet t) (modc f)"
  unfolding quiet_def by (intro keeps_modc) (meson same_rx_trans same_rx_closed)

lemma quiet_on_syn: "keeps (quiet t) (on_syn now)"
  unfolding on_syn_def
  by (intro keeps_intros quiet_close quiet_intros quiet_modc) (simp_all add: same_rx_def)

lemma quiet_run_task: "keeps (quiet t) (run_task k)"
  by (simp add: run_task_def quiet_close quiet_intros split: udt_task.split)

lemma quiet_control:
  assumes "b \<noteq> []" "packet_types_of (hd b) \<noteq> Some data"
  shows "keeps (quiet t) (on_recv j0 jz ju jn now b False)"
proof -
  obtain x r where b: "b = x # r" using assms(1) by (cases b) auto
  show ?thesis using assms(2) unfolding on_recv_def b handle_close_def
    by (auto intro!: keeps_intros quiet_intros quiet_modc simp: same_rx_def split: option.split packet_types.split)
qed

lemma quiet_closed: "keeps (quiet t) (on_recv j0 jz ju jn now b True)"
  by (simp add: on_recv_def quiet_close)

lemma rx_state_step: "rx_state pl p out s \<Longrightarrow> keeps (quiet s) m \<Longrightarrow> rx_state pl p out (snd (m s))"
  using rx_state_quiet keepsD [of "quiet s" m s] by (simp add: quiet_def)

lemma rx_part_on_recv_data:
  assumes "b = data_packet_bytes r q d"
  shows "rx_part (snd (on_recv j0 jz ju jn now b False s)) =
    receive_part \<lparr> dp_flags = 0, dp_rx_win_start = r, dp_seq = q, dp_data = d, dp_last_sent_ack_seq = 0 \<rparr> (rx_part s)"
proof -
  obtain rest where b: "b = 0 # rest" using assms by (simp add: data_packet_bytes_def)
  have "rx_part (snd (on_recv j0 jz ju jn now b False s)) = rx_part (snd (handle_data now b (s\<lparr> last_rx_time := now \<rparr>)))"
    by (simp add: on_recv_def andthen_def bindc_def modc_simp b packet_types_of_def)
  also have "\<dots> = receive_part (parse_data b) (rx_part (s\<lparr> last_rx_time := now \<rparr>))"
    by (simp add: rx_part_handle_data assms)
  finally show ?thesis by (simp add: assms parse_data_packet_bytes rx_part_def)
qed

lemma chan_my_signal [simp]: "chan_my (rx_signal dp s) = chan_my s"
  by (simp add: rx_signal_def)

lemma chan_my_keeps:
  "keeps (\<lambda>s. chan_my s = m) (send_nack a b)" "keeps (\<lambda>s. chan_my s = m) (receive_data dp)"
proof -
  have s: "keeps (\<lambda>s. chan_my s = m) (udt_send b)" for b by (rule keepsI) (simp add: udt_send_def)
  show n: "keeps (\<lambda>s. chan_my s = m) (send_nack a b)" for a b
    unfolding send_nack_def send_packed_def by (auto intro!: keeps_intros s split: sum.split)
  show "keeps (\<lambda>s. chan_my s = m) (receive_data dp)"
    unfolding receive_data_def Let_def
    by (auto intro!: keeps_intros n split: option.split)
qed

lemma chan_my_on_recv_data:
  assumes "hd b = 0" "b \<noteq> []" "chan_my s"
  shows "chan_my (snd (on_recv j0 jz ju jn now b False s))"
proof -
  obtain rest where b: "b = 0 # rest" using assms by (cases b) auto
  have d: "keeps (\<lambda>s. chan_my s = True) (handle_data now b)"
    unfolding handle_data_def
    by (auto intro!: keeps_intros chan_my_keeps(2) [where m = True, simplified] simp: start_syn_timer_def Let_def
        split: prod.split sum.split)
  have "keeps (\<lambda>s. chan_my s = True) (on_recv j0 jz ju jn now b False)"
    using d by (auto intro!: keeps_intros simp: on_recv_def b packet_types_of_def)
  then show ?thesis using keepsD [of "\<lambda>s. chan_my s = True"] assms(3) by blast
qed

lemma rx_state_data:
  assumes "rx_state pl p out s" "chan_my s" "in_time (rx_size (rx_part s)) p k"
  shows "rx_state pl p out (snd (on_recv j0 jz ju jn now (data_packet_bytes r (of_nat k) (pl k)) False s))"
proof -
  let ?b = "data_packet_bytes r (of_nat k) (pl k)"
  obtain c where g: "rx_good pl p c (rx_part s)" "out = stream_upto pl p c"
    using assms(1,2) by (auto simp: rx_state_def)
  have "rx_good pl p c (rx_part (snd (on_recv j0 jz ju jn now ?b False s)))"
    unfolding rx_part_on_recv_data [OF refl] by (rule rx_good_receive [OF g(1) _ _ assms(3)]) simp_all
  moreover have "chan_my (snd (on_recv j0 jz ju jn now ?b False s))"
    using assms(2) by (intro chan_my_on_recv_data) (simp_all add: data_packet_bytes_def)
  ultimately show ?thesis using g(2) by (auto simp: rx_state_def)
qed

lemma udt_read_keeps_chan: "udt_read got len s = (st, s') \<Longrightarrow> chan_my s' = chan_my s"
proof (induction got len s rule: udt_read.induct)
  case (1 got len s)
  obtain ch s1 where c: "read_chunk len s = (ch, s1)" by (cases "read_chunk len s")
  then have "chan_my s1 = chan_my s" by (auto simp: read_chunk_def Let_def split: if_splits)
  moreover have "udt_read got len s = (if len = 0 then (Read_done got, s) else if \<not> rx_ready s then (Read_wait got len, s)
      else udt_read (got @ ch) (len - length ch) s1)"
    using c by (subst udt_read.simps) simp
  ultimately show ?case using "1.IH" [OF _ _ c [symmetric]] "1.prems" by (auto split: if_splits)
qed

lemma rx_win_length: "rx_inv rw \<Longrightarrow> length (snd rw) < 32768"
proof -
  assume inv: "rx_inv rw"
  then have d: "distinct (rx_offs rw)" by (auto simp: rx_inv_def strict_sorted_iff)
  have acc: "ll.accounts (ap_rx_win_start (fst rw)) (set (rx_offs rw)) (rx_len rw) (ap_missed_seq (fst rw))"
    and n: "rx_len rw < 32768" using inv by (auto simp: rx_inv_def)
  have "set (rx_offs rw) \<subseteq> {..<rx_len rw}" using accounts_bound [OF acc] by blast
  then have "card (set (rx_offs rw)) \<le> rx_len rw" by (metis card_lessThan card_mono finite_lessThan)
  then show ?thesis using distinct_card [OF d] n by (simp add: rx_offs_def)
qed

lemma rx_state_read:
  assumes st: "rx_state pl p out s" and r: "udt_read got len s = (st, s')" and new: "status_bytes st = got @ new"
  shows "rx_state pl (p + off (ap_rx_win_start (rx_ack_pack s)) (ap_rx_win_start (rx_ack_pack s'))) (out @ new) s'"
proof (cases "chan_my s")
  case True
  then obtain c where g: "rx_good pl p c (rx_part s)" "out = stream_upto pl p c"
    using st by (auto simp: rx_state_def)
  obtain p' c' new' where g': "rx_good pl p' c' (rx_part s')" "status_bytes st = got @ new'"
    "stream_upto pl p' c' = stream_upto pl p c @ new'" "p \<le> p'" "p' + length (rx_win s') = p + length (rx_win s)"
    using rx_good_read [OF g(1) r] by blast
  have "length (rx_win s) < 32768" using g(1) rx_win_length [of "rx_part s"] by (simp add: rx_good_def rx_part_def)
  then have "off (of_nat p) (of_nat p' :: seq_num) = p' - p" using g'(4,5) by (intro off_of_nat) auto
  then have "p + off (ap_rx_win_start (rx_ack_pack s)) (ap_rx_win_start (rx_ack_pack s')) = p'"
    using g(1) g'(1,4) by (simp add: rx_good_def rx_part_def)
  then show ?thesis using g g' True udt_read_keeps_chan [OF r] new by (auto simp: rx_state_def)
next
  case False
  then have "rx_win s = []" using st by (auto simp: rx_state_def)
  then have "s' = s" "new = []" using r new by (subst (asm) udt_read.simps, auto simp: rx_ready_def split: if_splits)+
  then show ?thesis using st by simp
qed

lemma rx_state_init:
  assumes "unat mwp < 32767"
  shows "rx_state pl 1 [] (udt_init junk mwp)"
proof -
  have "ll.accounts 1 {} 0 []" by (rule ll.accounts_empty)
  then have "rx_good pl 1 0 (rx_part (udt_init junk mwp))"
    using assms by (simp add: rx_good_def rx_inv_def rx_part_def udt_init_def rx_size_def rx_len_def rx_offs_def rx_map_def
        ack_packet_init_def)
  then show ?thesis by (auto simp: rx_state_def stream_upto_def udt_init_def)
qed

lemma udt_run_state: "udt_run pl p out s \<Longrightarrow> rx_state pl p out s"
proof (induction rule: udt_run.induct)
  case (start mwp junk)
  then show ?case by (rule rx_state_init)
next
  case (packet p out s k)
  then show ?case by (intro rx_state_data)
next
  case (control p out s b)
  then show ?case by (intro rx_state_step quiet_control)
next
  case (closed p out s)
  then show ?case by (intro rx_state_step quiet_closed)
next
  case (syn p out s)
  then show ?case by (intro rx_state_step quiet_on_syn)
next
  case (task p out s)
  then show ?case by (intro rx_state_step quiet_run_task)
next
  case (shut p out s)
  then show ?case unfolding udt_channel_close_def by (intro rx_state_step quiet_close)
next
  case (wr p out s)
  then show ?case by (intro rx_state_step quiet_intros)
next
  case (rd p out s got len st s' new)
  then show ?case by (intro rx_state_read)
qed

section \<open>Properties\<close>

text \<open>
  C1: UDT delivers the peer's stream in order and without gaps. In every run of a channel, over
  any sequence of lost, repeated and reordered data packets of the peer, arbitrary control
  packets, timer ticks, posted tasks, writes and closes, the concatenation of all bytes that
  \<open>read\<close> has returned is a prefix of the concatenation of the payloads the peer sent, cut
  inside packet \<open>q\<close> after \<open>c\<close> bytes. Data packets have to be in time: less than 2^15 ahead of
  the window, and late by less than 2^15 - 1 less the window size.
\<close>

theorem udt_in_order_delivery:
  assumes "udt_run pl p out s"
  shows "\<exists>q c. out = concat (map pl [1..<q]) @ take c (pl q)"
  using udt_run_state [OF assms] unfolding rx_state_def stream_upto_def by blast

text \<open>Concrete states for the examples: every indeterminate member zero.\<close>

definition ack_zero :: ack_packet where
  "ack_zero = ack_packet_init 0 0"

definition udt_zero :: udt where
  "udt_zero = \<lparr> remote_rx_win = 0, tx_win_size = 0, tx_miss_list = [], last_rx_ack = ack_zero, rx_ack_pack = ack_zero,
     tx_ack2_pack = ack_zero, rx_ack2_pack = ack_zero, start_up = False, dec_on_nack = False, started_retran = False,
     retransmitting = False, syn_timer_running = False, next_tx_seq = 0, m_stop_syn_timer = False, next_syn_time = 0,
     last_rx_time = 0, rx_win = [], tx_win = [], chan_my = False, chan_closed = False, outbox = [], rx_win_avail = 0,
     tx_win_avail = 0, tasks = [], syn_schedule = [] \<rparr>"

definition nack_zero :: nack_packet where
  "nack_zero = \<lparr> np_flags = 0, np_rx_win_start = 0, np_start_seq = 0, np_end_seq = 0 \<rparr>"

text \<open>Packets 2 and 1 of a peer that sends A in packet 1 and B in packet 2, in the wrong order.\<close>

definition demo_payload :: "nat \<Rightarrow> byte list" where
  "demo_payload k = (if k = 1 then [65] else if k = 2 then [66] else [])"

definition demo_after_2 :: udt where
  "demo_after_2 = snd (on_recv 0 0 0 nack_zero 0 (data_packet_bytes 0 (of_nat 2) (demo_payload 2)) False (udt_init udt_zero 4096))"

definition demo_after_1 :: udt where
  "demo_after_1 = snd (on_recv 0 0 0 nack_zero 0 (data_packet_bytes 0 (of_nat 1) (demo_payload 1)) False demo_after_2)"

lemma demo_rx_2: "rx_part demo_after_2 = receive_part
    \<lparr> dp_flags = 0, dp_rx_win_start = 0, dp_seq = 2, dp_data = [66], dp_last_sent_ack_seq = 0 \<rparr>
    (rx_part (udt_init udt_zero 4096))"
  unfolding demo_after_2_def rx_part_on_recv_data [OF refl] by (simp add: demo_payload_def)

lemma demo_rx_1: "rx_part demo_after_1 = receive_part
    \<lparr> dp_flags = 0, dp_rx_win_start = 0, dp_seq = 1, dp_data = [65], dp_last_sent_ack_seq = 0 \<rparr> (rx_part demo_after_2)"
  unfolding demo_after_1_def rx_part_on_recv_data [OF refl] by (simp add: demo_payload_def)

lemma rx_bytes_part: "rx_bytes s = rx_contig (ap_rx_win_start (fst (rx_part s))) (snd (rx_part s))"
  by (simp add: rx_bytes_def rx_part_def)

theorem udt_in_order_delivery_witness:
  "\<exists>p s. udt_run demo_payload p [65, 66] s \<and> (\<exists>q c. [65, 66] = concat (map demo_payload [1..<q]) @ take c (demo_payload q))"
proof -
  have r0: "udt_run demo_payload 1 [] (udt_init udt_zero 4096)" by (rule udt_run.start) simp
  have o: "chan_my (udt_init udt_zero 4096)" by (simp add: udt_init_def)
  have "in_time (rx_size (rx_part (udt_init udt_zero 4096))) 1 2"
    by (simp add: in_time_def rx_size_def rx_part_def udt_init_def)
  then have r1: "udt_run demo_payload 1 [] demo_after_2"
    unfolding demo_after_2_def by (intro udt_run.packet [OF r0 o])
  have o2: "chan_my demo_after_2" unfolding demo_after_2_def
    using o by (intro chan_my_on_recv_data) (simp_all add: data_packet_bytes_def)
  have "ap_rx_win_size (fst (rx_part demo_after_2)) = 4096" unfolding demo_rx_2 by code_simp
  then have "in_time (rx_size (rx_part demo_after_2)) 1 1" by (simp add: in_time_def rx_size_def)
  then have r2: "udt_run demo_payload 1 [] demo_after_1"
    unfolding demo_after_1_def by (intro udt_run.packet [OF r1 o2])
  obtain st s' where rd: "udt_read [] 2 demo_after_1 = (st, s')" by (cases "udt_read [] 2 demo_after_1")
  have "rx_bytes demo_after_1 = [65, 66]" unfolding rx_bytes_part demo_rx_1 demo_rx_2 by code_simp
  then have "status_bytes st = [] @ [65, 66]" using udt_read_bytes [of "[]" 2 demo_after_1] by (simp add: rd)
  from udt_run.rd [OF r2 rd this] obtain p where run: "udt_run demo_payload p [65, 66] s'" by auto
  show ?thesis using run udt_in_order_delivery [OF run] by blast
qed

text \<open>
  C13: an arriving data packet is a guarded insertion into the window. On a channel whose window
  is well formed (packets sorted, miss list exactly the numbers between that are not held), a
  data packet of at least five bytes keeps the window well formed, leaves its start and size
  alone, and changes the map from offsets to held payloads exactly as the specification says: the
  payload is entered when its offset is at most the window size and not held yet, and otherwise
  nothing changes; duplicates, old packets and packets beyond the window are ignored. The one
  number excluded is the antipode of a full window.
\<close>

theorem receiver_refines_map:
  fixes now :: int
  assumes "rx_inv (rx_part s)" "5 \<le> length b" "\<not> rx_edge (rx_part s) (dp_seq (parse_data b))"
  defines "s' \<equiv> snd (handle_data now b s)"
  shows "rx_inv (rx_part s') \<and>
    rx_map (rx_part s') = spec_receive (rx_size (rx_part s))
      (off (ap_rx_win_start (rx_ack_pack s)) (dp_seq (parse_data b))) (drop 5 b) (rx_map (rx_part s)) \<and>
    ap_rx_win_start (rx_ack_pack s') = ap_rx_win_start (rx_ack_pack s) \<and>
    ap_rx_win_size (rx_ack_pack s') = ap_rx_win_size (rx_ack_pack s)"
proof -
  have e: "rx_part s' = receive_part (parse_data b) (rx_part s)"
    using assms(2) by (simp add: s'_def rx_part_handle_data)
  have f: "fst (rx_part t) = rx_ack_pack t" for t by (simp add: rx_part_def)
  have "dp_data (parse_data b) = drop 5 b" by (simp add: parse_data_def)
  then show ?thesis using receive_part_spec [OF assms(1,3)] unfolding e [symmetric] f by simp
qed

theorem receiver_refines_map_witness:
  "rx_map (rx_part (snd (handle_data 0 (data_packet_bytes 0 2 [66]) (udt_init udt_zero 4096)))) 1 = Some [66]"
proof -
  have h: "rx_inv (rx_part (udt_init udt_zero 4096))"
    using rx_state_init [of 4096 demo_payload udt_zero]
    by (auto simp: rx_state_def rx_good_def udt_init_def)
  have "\<not> rx_edge (rx_part (udt_init udt_zero 4096)) (dp_seq (parse_data (data_packet_bytes 0 2 [66])))" by code_simp
  moreover have "spec_receive (rx_size (rx_part (udt_init udt_zero 4096)))
      (off (ap_rx_win_start (rx_ack_pack (udt_init udt_zero 4096))) (dp_seq (parse_data (data_packet_bytes 0 2 [66]))))
      (drop 5 (data_packet_bytes 0 2 [66])) (rx_map (rx_part (udt_init udt_zero 4096))) 1 = Some [66]" by code_simp
  ultimately show ?thesis using receiver_refines_map [OF h, of "data_packet_bytes 0 2 [66]" 0] by simp
qed


text \<open>
  The one flaw of the window test. When the window is full, with \<open>size + 1\<close> packets after
  its start, a data packet whose number lies exactly 2^15 beyond the next one passes both
  comparisons: it is appended and the end of the window jumps to it, far outside the window.
\<close>

theorem receiver_antipode_accepted:
  assumes "rx_inv (rx_part s)" "5 \<le> length b" "rx_edge (rx_part s) (dp_seq (parse_data b))"
  shows "ap_rx_win_end (rx_ack_pack (snd (handle_data now b s))) = dp_seq (parse_data b) \<and>
         rx_len (rx_part s) = rx_size (rx_part s) + 1 \<and>
         off (ap_rx_win_start (rx_ack_pack s)) (ap_rx_win_end (rx_ack_pack (snd (handle_data now b s)))) =
           rx_size (rx_part s) + 32769"
proof -
  obtain rp w where rw: "rx_part s = (rp, w)" by (cases "rx_part s")
  have i: "rx_inv (rp, w)" and W: "rx_size (rp, w) < 32767" using assms(1) by (simp_all add: rw rx_inv_def)
  have e: "rx_len (rp, w) = rx_size (rp, w) + 1"
    "off (ap_rx_win_start rp) (dp_seq (parse_data b)) = rx_size (rp, w) + 32769"
    using assms(3) by (simp_all add: rx_edge_def rw)
  have "ap_rx_win_end (fst (receive_part (parse_data b) (rp, w))) = dp_seq (parse_data b) \<and>
      ap_rx_win_start (fst (receive_part (parse_data b) (rp, w))) = ap_rx_win_start rp"
    using rx_compare [OF i, of "dp_seq (parse_data b)"] e W by (simp add: receive_part_def Let_def)
  moreover have "rx_part (snd (handle_data now b s)) = receive_part (parse_data b) (rp, w)"
    using assms(2) rw by (simp add: rx_part_handle_data)
  moreover have "fst (rx_part t) = rx_ack_pack t" for t by (simp add: rx_part_def)
  ultimately show ?thesis using e rw by (metis fst_conv)
qed

theorem receiver_antipode_accepted_witness:
  "ap_rx_win_end (rx_ack_pack (snd (handle_data 0 (data_packet_bytes 0 32770 []) (snd (handle_data 0 (data_packet_bytes 0 1 []) (udt_init udt_zero 0)))))) = 32770"
proof -
  let ?s = "snd (handle_data 0 (data_packet_bytes 0 1 []) (udt_init udt_zero 0))"
  have i0: "rx_inv (rx_part (udt_init udt_zero 0))"
    using rx_state_init [of 0 demo_payload udt_zero] by (auto simp: rx_state_def rx_good_def udt_init_def)
  have "\<not> rx_edge (rx_part (udt_init udt_zero 0)) (dp_seq (parse_data (data_packet_bytes 0 1 [])))" by code_simp
  then have i: "rx_inv (rx_part ?s)"
    using receive_part_spec [OF i0] by (simp add: rx_part_handle_data)
  have q: "dp_seq (parse_data (data_packet_bytes 0 32770 [])) = 32770" by (simp add: parse_data_packet_bytes)
  have w: "ap_rx_win_start (fst (rx_part ?s)) = 1 \<and> ap_rx_win_end (fst (rx_part ?s)) = 1 \<and> ap_rx_win_size (fst (rx_part ?s)) = 0"
    unfolding rx_part_handle_data by code_simp
  then have e: "rx_edge (rx_part ?s) (dp_seq (parse_data (data_packet_bytes 0 32770 [])))"
    unfolding q by (simp add: rx_edge_def rx_len_def rx_size_def off_def)
  show ?thesis using receiver_antipode_accepted [OF i _ e, of 0] q by simp
qed

end
