(* ===== verification/Udt_Sender.thy ===== *)
theory Udt_Sender
  imports Udt_Stream
begin

text \<open>
  The sending half of src/udt_channel.cpp: cutting a write into numbered packets, flow control
  by the window the peer reports, congestion control by acks and nacks, and retransmission.
\<close>

section \<open>Sending a packed packet\<close>

lemma pack_ack: "pack_packet fresh_mem ack_write p = Inr (ack_enc p)"
  using ackc.pack_enc [of p fresh_mem] length_ack_enc [of p] by (simp add: fresh_mem_def)

lemma pack_nack: "pack_packet fresh_mem nack_write p = Inr (nack_enc p)"
  using nackc.pack_enc [of p fresh_mem] by (simp add: fresh_mem_def length_nack_enc)

lemma send_ack_eq:
  "send_ack now s = udt_send (ack_enc (rx_ack_pack (s\<lparr> rx_ack_pack := (rx_ack_pack s)
        \<lparr> ap_ack_seq := seq_inc (ap_ack_seq (rx_ack_pack s)), ap_utc_time := of_int now \<rparr> \<rparr>)))
     (s\<lparr> rx_ack_pack := (rx_ack_pack s)
        \<lparr> ap_ack_seq := seq_inc (ap_ack_seq (rx_ack_pack s)), ap_utc_time := of_int now \<rparr> \<rparr>)"
  by (simp add: send_ack_def andthen_def bindc_def modc_simp getc_simp send_packed_def pack_ack)

section \<open>The writer\<close>

text \<open>
  A run of one \<open>write\<close> of \<open>dat\<close>, started when \<open>next_tx_seq\<close> was \<open>q\<close>: its own steps, which may
  append to the transmit window, and between them anything that does not touch
  \<open>next_tx_seq\<close> (all handlers: only \<open>write\<close> assigns it). \<open>sent\<close> collects the packets it
  appended.
\<close>

inductive write_run :: "byte list \<Rightarrow> seq_num \<Rightarrow> write_status \<Rightarrow> data_packet list \<Rightarrow> udt \<Rightarrow> bool" for dat q where
  begin_write: "next_tx_seq s = q \<Longrightarrow> write_run dat q (Write_top dat) [] s"
| own_step: "write_run dat q ws sent s \<Longrightarrow> udt_write ws s = (Inr ws', s') \<Longrightarrow>
    write_run dat q ws' (sent @ drop (length (tx_win s)) (tx_win s')) s'"
| other: "write_run dat q ws sent s \<Longrightarrow> next_tx_seq s' = next_tx_seq s \<Longrightarrow> write_run dat q ws sent s'"

fun ws_rest :: "write_status \<Rightarrow> byte list" where
  "ws_rest (Write_top r) = r"
| "ws_rest (Write_wait r dp) = dp_data dp @ r"
| "ws_rest Write_done = []"

fun ws_pending :: "write_status \<Rightarrow> data_packet list" where
  "ws_pending (Write_wait r dp) = [dp]"
| "ws_pending ws = []"

definition numbered :: "seq_num \<Rightarrow> data_packet list \<Rightarrow> bool" where
  "numbered q ps \<longleftrightarrow> (\<forall>i < length ps. dp_seq (ps ! i) = q + of_nat (i + 1) \<and> dp_data (ps ! i) \<noteq> [] \<and> length (dp_data (ps ! i)) \<le> 1200)"

definition write_ok :: "byte list \<Rightarrow> seq_num \<Rightarrow> write_status \<Rightarrow> data_packet list \<Rightarrow> udt \<Rightarrow> bool" where
  "write_ok dat q ws sent s \<longleftrightarrow>
     dat = concat (map dp_data sent) @ ws_rest ws \<and> numbered q (sent @ ws_pending ws) \<and>
     next_tx_seq s = q + of_nat (length (sent @ ws_pending ws))"

lemma numbered_snoc:
  "numbered q (ps @ [dp]) \<longleftrightarrow> numbered q ps \<and> dp_seq dp = q + of_nat (length ps + 1) \<and> dp_data dp \<noteq> [] \<and> length (dp_data dp) \<le> 1200"
  unfolding numbered_def by (auto simp: nth_append less_Suc_eq)

lemma write_try_cases:
  assumes "write_try rest dp s = (Inr ws', s')"
  shows "ws' = Write_wait rest dp \<and> s' = s \<and> \<not> can_send s \<or>
         ws' = Write_top rest \<and> tx_win s' = tx_win s @ [dp] \<and> next_tx_seq s' = next_tx_seq s \<and> can_send s \<and>
         outbox s' = outbox s @ [packet_view dp]"
  using assms by (auto simp: write_try_def bindc_def getc_def andthen_def modc_def ret_def udt_send_def split: if_splits)

lemma write_ok_try:
  assumes "write_try rest dp s = (Inr ws', s')" "dat = concat (map dp_data sent) @ dp_data dp @ rest"
    "numbered q (sent @ [dp])" "next_tx_seq s = q + of_nat (length sent + 1)" "tx_win s = tx_win t"
  shows "write_ok dat q ws' (sent @ drop (length (tx_win t)) (tx_win s')) s'"
  using write_try_cases [OF assms(1)] assms(2-5) by (auto simp: write_ok_def)

lemma write_build_cases:
  assumes "write_build (c # cs) s = (dp, rest, s1)"
  shows "c # cs = dp_data dp @ rest" "dp_seq dp = next_tx_seq s + 1" "dp_data dp \<noteq> []" "length (dp_data dp) \<le> 1200"
    "next_tx_seq s1 = next_tx_seq s + 1" "tx_win s1 = tx_win s"
  using assms by (auto simp: write_build_def Let_def seq_inc_def min_def split: if_splits)

lemma write_ok_step:
  assumes ok: "write_ok dat q ws sent s" and st: "udt_write ws s = (Inr ws', s')"
  shows "write_ok dat q ws' (sent @ drop (length (tx_win s)) (tx_win s')) s'"
proof (cases "(ws, s)" rule: udt_write.cases)
  case (3 c cs)
  obtain dp rest s1 where b: "write_build (c # cs) s = (dp, rest, s1)" by (cases "write_build (c # cs) s") auto
  have t: "write_try rest dp s1 = (Inr ws', s')" using st 3 b by simp
  show ?thesis using write_ok_try [OF t, of dat sent q s] write_build_cases [OF b] ok 3
    by (auto simp: write_ok_def numbered_snoc add.assoc)
next
  case (4 rest dp)
  then have t: "write_try rest dp s = (Inr ws', s')" using st by (auto split: if_splits)
  show ?thesis using write_ok_try [OF t, of dat sent q s] ok 4 by (auto simp: write_ok_def)
qed (use ok st in \<open>auto simp: write_ok_def\<close>)

lemma write_run_ok: "write_run dat q ws sent s \<Longrightarrow> write_ok dat q ws sent s"
proof (induction rule: write_run.induct)
  case (begin_write s)
  then show ?case by (simp add: write_ok_def numbered_def)
next
  case (own_step ws sent s ws' s')
  then show ?case by (intro write_ok_step)
next
  case (other ws sent s s')
  then show ?case by (simp add: write_ok_def)
qed

section \<open>Windows\<close>

lemma advance_drop_dropWhile:
  "fst (advance_drop rx (w, ml)) = dropWhile (\<lambda>dp. seq_lt (dp_seq dp) rx) w"
  by (induction w arbitrary: ml) auto

lemma advance_tx_win: "tx_win (advance_tx rx s) = dropWhile (\<lambda>dp. seq_lt (dp_seq dp) rx) (tx_win s)"
  using advance_drop_dropWhile [of rx "tx_win s" "ap_missed_seq (tx_ack2_pack s)"]
  by (auto simp: advance_tx_def Let_def split: prod.split)

lemma unat_of_nat16: "n < 65536 \<Longrightarrow> unat (of_nat n :: u16) = n"
  by (simp add: unat_of_nat take_bit_nat_eq_self)

lemma nack_window_bounds:
  assumes "1 \<le> unat tx"
  shows "1 \<le> unat (nack_window su tx) \<and> unat (nack_window su tx) \<le> unat tx"
proof -
  define t :: u16 where "t = (if su then of_nat (3 * unat tx div 4) else of_nat (9 * unat tx div 10))"
  have b: "unat tx < 65536" using unsigned_less [of tx, where ?'a = nat] by simp
  have "unat t = (if su then 3 * unat tx div 4 else 9 * unat tx div 10)"
    using b unat_of_nat16 [of "3 * unat tx div 4"] unat_of_nat16 [of "9 * unat tx div 10"] by (simp add: t_def)
  then have le: "unat t \<le> unat tx" by (cases su) simp_all
  have w: "nack_window su tx = (if t = 0 then 1 else t)" by (simp add: nack_window_def Let_def t_def)
  show ?thesis
  proof (cases "t = 0")
    case False
    then have "0 < unat t" by (simp add: unat_gt_0)
    then show ?thesis using le False by (simp add: w)
  qed (use assms in \<open>simp add: w\<close>)
qed

lemma ack_window_bounds:
  assumes "3 * unat tx div 2 + 1 < 65536" "unat tx \<le> max 1 (unat remote)"
  shows "unat (ack_window su remote tx) \<le> max 1 (unat remote) \<and>
    (1 \<le> unat remote \<longrightarrow> 1 \<le> unat tx \<longrightarrow> unat tx \<le> unat remote \<longrightarrow> unat tx \<le> unat (ack_window su remote tx))"
proof -
  have m: "unat (min a b) = min (unat a) (unat b)" for a b :: u16
    by (auto simp: min_def word_le_nat_alt)
  have inc: "unat (tx + 1) = unat tx + 1" if "tx < remote"
    using that off_inc [of 0 tx] off_lt [of 0 remote] by (auto simp: off_0 word_less_nat_alt)
  show ?thesis
    using assms inc unat_of_nat16 [OF assms(1)] by (auto simp: ack_window_def m word_less_nat_alt)
qed

section \<open>Retransmission\<close>

lemma retransmit_find_None: "retransmit_find sq w = None \<longleftrightarrow> sq \<notin> set (map dp_seq w)"
  by (induction w) auto

lemma retransmit_find_Some: "retransmit_find sq w = Some i \<Longrightarrow> i < length w \<and> dp_seq (w ! i) = sq"
  by (induction w arbitrary: i) (auto split: if_splits)

text \<open>The numbers and wire images of the packets of a transmit window; a retransmission changes at
  most when a packet was last sent.\<close>

definition pkts :: "data_packet list \<Rightarrow> (seq_num \<times> byte list) list" where
  "pkts w = map (\<lambda>dp. (dp_seq dp, packet_view dp)) w"

lemma retransmit_one_cases:
  assumes "chan_my s" "retransmit_one sq s = (r, s')"
  shows "chan_my s' \<and> pkts (tx_win s') = pkts (tx_win s) \<and>
    (if sq \<in> fst ` set (pkts (tx_win s))
     then r = Inr () \<and> (outbox s' = outbox s \<or> (\<exists>v. (sq, v) \<in> set (pkts (tx_win s)) \<and> outbox s' = outbox s @ [v]))
     else r = Inl (Exit 1) \<and> outbox s' = outbox s)"
proof (cases "retransmit_find sq (tx_win s)")
  case None
  then have "sq \<notin> fst ` set (pkts (tx_win s))" by (auto simp: retransmit_find_None pkts_def)
  with None show ?thesis using assms by (auto simp: retransmit_one_def bindc_def getc_def raise_def)
next
  case (Some i)
  have i: "i < length (tx_win s)" "dp_seq (tx_win s ! i) = sq" using retransmit_find_Some [OF Some] by simp_all
  then have v: "(sq, packet_view (tx_win s ! i)) \<in> set (pkts (tx_win s))"
    unfolding pkts_def by (force intro: image_eqI [of _ _ "tx_win s ! i"])
  then have m: "sq \<in> fst ` set (pkts (tx_win s))" by force
  have keep: "pkts ((tx_win s)[i := (tx_win s ! i)\<lparr> dp_last_sent_ack_seq := a \<rparr>]) = pkts (tx_win s)" for a
    using i(1) by (intro nth_equalityI) (auto simp: pkts_def nth_list_update packet_view_def)
  show ?thesis using assms Some m v keep
    by (auto simp: retransmit_one_def bindc_def getc_def andthen_def modc_def ret_def udt_send_def Let_def split: if_splits)
qed

lemma retransmit_loop_result:
  assumes "chan_my s" "retransmit_loop s = (r, s')"
  shows "r = (if set (ml_drain (tx_miss_list s)) \<subseteq> fst ` set (pkts (tx_win s)) then Inr () else Inl (Exit 1)) \<and>
    pkts (tx_win s') = pkts (tx_win s) \<and> (r = Inr () \<longrightarrow> tx_miss_list s' = []) \<and>
    (\<exists>new. outbox s' = outbox s @ new \<and>
       (\<forall>v\<in>set new. \<exists>x\<in>set (ml_drain (tx_miss_list s)). (x, v) \<in> set (pkts (tx_win s))))"
  using assms
proof (induction s arbitrary: r s' rule: retransmit_loop.induct)
  case (1 s)
  show ?case
  proof (cases "ml_pop_front (tx_miss_list s)")
    case None
    then have "tx_miss_list s = []" by (cases "tx_miss_list s") auto
    then show ?thesis using None "1.prems" by (simp add: retransmit_loop.simps [of s] ml_drain.simps)
  next
    case (Some x)
    then obtain sq ml where x: "ml_pop_front (tx_miss_list s) = Some (sq, ml)" by (cases x) auto
    then have dr: "ml_drain (tx_miss_list s) = sq # ml_drain ml" by (subst ml_drain.simps) simp
    let ?s = "s\<lparr> tx_miss_list := ml \<rparr>"
    obtain r1 s1 where one: "retransmit_one sq ?s = (r1, s1)" by (cases "retransmit_one sq ?s")
    note c = retransmit_one_cases [OF _ one]
    have run: "retransmit_loop s = (case r1 of Inl e \<Rightarrow> (Inl e, s1) | Inr _ \<Rightarrow> retransmit_loop s1)"
      using x one by (subst retransmit_loop.simps) simp
    show ?thesis
    proof (cases "sq \<in> fst ` set (pkts (tx_win s))")
      case False
      then show ?thesis using c run "1.prems" dr by auto
    next
      case True
      then have o: "r1 = Inr ()" "chan_my s1" "pkts (tx_win s1) = pkts (tx_win s)"
        and out: "outbox s1 = outbox s \<or> (\<exists>v. (sq, v) \<in> set (pkts (tx_win s)) \<and> outbox s1 = outbox s @ [v])"
        using c "1.prems"(1) by auto
      then have run1: "retransmit_loop s1 = (r, s')" using run "1.prems"(2) by simp
      have ml: "tx_miss_list s1 = ml" using retransmit_one_miss_list [OF one] by simp
      note ih = "1.IH" [OF x refl one [symmetric] o(1) o(2) run1, unfolded ml o(3)]
      have eq: "set (ml_drain (tx_miss_list s)) \<subseteq> fst ` set (pkts (tx_win s)) \<longleftrightarrow> set (ml_drain ml) \<subseteq> fst ` set (pkts (tx_win s))"
        using True by (simp add: dr)
      obtain new where new: "outbox s' = outbox s1 @ new" "\<forall>v\<in>set new. \<exists>x\<in>set (ml_drain ml). (x, v) \<in> set (pkts (tx_win s))"
        using ih by blast
      then have ex: "\<exists>new. outbox s' = outbox s @ new \<and>
          (\<forall>v\<in>set new. \<exists>x\<in>set (ml_drain (tx_miss_list s)). (x, v) \<in> set (pkts (tx_win s)))"
        using out by (auto simp: dr)
      show ?thesis unfolding eq using ih ex by blast
    qed
  qed
qed

lemma retransmit_result:
  assumes "chan_my s" "retransmit True s = (r, s')"
  shows "r = (if set (ml_drain (tx_miss_list s)) \<subseteq> fst ` set (pkts (tx_win s)) then Inr () else Inl (Exit 1)) \<and>
    pkts (tx_win s') = pkts (tx_win s) \<and> (r = Inr () \<longrightarrow> tx_miss_list s' = [] \<and> \<not> retransmitting s') \<and>
    (\<exists>new. outbox s' = outbox s @ new \<and>
       (\<forall>v\<in>set new. \<exists>x\<in>set (ml_drain (tx_miss_list s)). (x, v) \<in> set (pkts (tx_win s))))"
proof -
  let ?s = "s\<lparr> retransmitting := True, started_retran := False \<rparr>"
  obtain r1 s1 where l: "retransmit_loop ?s = (r1, s1)" by (cases "retransmit_loop ?s")
  have "retransmit True s = (case r1 of Inl e \<Rightarrow> (Inl e, s1) | Inr _ \<Rightarrow> (Inr (), s1\<lparr> retransmitting := False \<rparr>))"
    using l by (simp add: retransmit_def andthen_def bindc_def modc_simp split: sum.split)
  then show ?thesis using retransmit_loop_result [OF _ l] assms
    by (cases "set (ml_drain (tx_miss_list s)) \<subseteq> fst ` set (pkts (tx_win s))") auto
qed

section \<open>Acks and nacks at the sender\<close>

lemma unpack_ack:
  "length (ap_missed_seq ap) \<le> 128 \<Longrightarrow> unpack_packet ack_read old (ack_enc ap) = (Inr (), ap)"
  using ackc.unpack_enc [of ap old "[]"] by simp

lemma unpack_nack: "unpack_packet nack_read old (nack_enc np) = (Inr (), np)"
  using nackc.unpack_enc [where x = np and y = old and r = "[]"] by simp

lemma retransmit_False:
  "retransmit False s = (Inr (), if \<not> retransmitting s \<and> \<not> started_retran s
     then s\<lparr> started_retran := True, tasks := tasks s @ [Task_retransmit] \<rparr> else s)"
  by (simp add: retransmit_def bindc_def getc_simp modc_simp ret_simp)

lemma advance_tx_fields [simp]:
  "tx_miss_list (advance_tx r s) = tx_miss_list s" "last_rx_ack (advance_tx r s) = last_rx_ack s"
  "tx_win_size (advance_tx r s) = tx_win_size s" "start_up (advance_tx r s) = start_up s"
  "dec_on_nack (advance_tx r s) = dec_on_nack s" "remote_rx_win (advance_tx r s) = remote_rx_win s"
  "next_tx_seq (advance_tx r s) = next_tx_seq s" "outbox (advance_tx r s) = outbox s"
  "retransmitting (advance_tx r s) = retransmitting s" "started_retran (advance_tx r s) = started_retran s"
  by (simp_all add: advance_tx_def Let_def split: prod.split)

lemma handle_ack_effect:
  assumes "length (ap_missed_seq ap) \<le> 128" "chan_my s"
  shows "\<exists>s'. handle_ack jz ju (ack_enc ap) s = (Inr (), s') \<and> tx_miss_list s' = ap_missed_seq ap \<and>
    tx_win s' = dropWhile (\<lambda>dp. seq_lt (dp_seq dp) (ap_rx_win_start ap)) (tx_win s) \<and>
    last_rx_ack s' = (if seq_ge (ap_ack_seq ap) (ap_ack_seq (last_rx_ack s)) then ap else last_rx_ack s) \<and>
    tx_win_size s' = ack_window (start_up s) (ap_rx_win_size ap) (tx_win_size s) \<and>
    remote_rx_win s' = ap_rx_win_size ap \<and> start_up s' = start_up s \<and> next_tx_seq s' = next_tx_seq s \<and>
    (\<exists>new. outbox s' = outbox s @ new \<and> length new = (if can_send s then 1 else 0))"
proof -
  have cs: "can_send (t\<lparr> tx_miss_list := x \<rparr>) = can_send t" "can_send (t\<lparr> dec_on_nack := y \<rparr>) = can_send t" for t x y
    by (simp_all add: can_send_def)
  show ?thesis
    using assms
    by (simp add: handle_ack_def unpack_ack andthen_def bindc_def modc_simp getc_simp ret_simp retransmit_False whenc_def
        Let_def cs send_packed_def pack_ack udt_send_def advance_tx_win)
qed

section \<open>Robustness against malformed packets\<close>

lemma memsafe_ml_read_pairs: "memsafe (ml_read_pairs n)"
  by (induction n) (simp_all add: memsafe_ret memsafe_andthen memsafe_rd_field)

lemma memsafe_ml_read: "memsafe ml_read"
  using memsafe_ml_read_pairs ds_read_exact [of 1]
  by (auto simp: memsafe_def ml_read_def Let_def split: prod.splits sum.splits)

lemma memsafe_rd_member: "memsafe rd \<Longrightarrow> memsafe (rd_member gt st rd)"
  by (auto simp: memsafe_def rd_member_def split: prod.splits) (metis fst_conv)

lemma memsafe_ack_read: "memsafe ack_read"
  unfolding ack_read_def
  by (intro memsafe_andthen memsafe_rd_field memsafe_rd_member memsafe_ml_read) simp_all

lemma memsafe_nack_read: "memsafe nack_read"
  unfolding nack_read_def by (intro memsafe_andthen memsafe_rd_field) simp_all

lemma unpack_memsafe: "memsafe rd \<Longrightarrow> unpack_packet rd x b = (Inl e, y) \<Longrightarrow> e \<noteq> Undefined t"
  by (auto simp: unpack_packet_def memsafe_def split: prod.splits) (metis fst_conv)

lemma memsafe_raise: "(\<And>t. e \<noteq> Undefined t) \<Longrightarrow> memsafe (raise e)"
  by (simp add: memsafe_def raise_def)

lemma memsafe_if: "memsafe m \<Longrightarrow> memsafe n \<Longrightarrow> memsafe (if b then m else n)"
  by simp

lemma memsafe_whenc: "memsafe m \<Longrightarrow> memsafe (whenc b m)"
  by (simp add: whenc_def memsafe_ret)

lemma memsafe_send: "memsafe (udt_send b)"
  by (simp add: memsafe_def udt_send_def)

lemma memsafe_retransmit_False: "memsafe (retransmit False)"
  by (simp add: memsafe_def retransmit_False)

lemmas memsafe_intros = memsafe_ret memsafe_raise_Throw memsafe_modc memsafe_getc memsafe_bindc memsafe_andthen
  memsafe_if memsafe_whenc memsafe_send memsafe_retransmit_False

lemma memsafe_close: "memsafe (udt_close f)"
  unfolding udt_close_def pack_ack by (auto intro!: memsafe_intros)

lemma memsafe_receive_data: "memsafe (receive_data dp)"
  unfolding receive_data_def Let_def send_nack_def send_packed_def pack_nack
  by (auto intro!: memsafe_intros split: option.split)

lemma memsafe_handle_data: "memsafe (handle_data now b)"
  unfolding handle_data_def
  by (auto intro!: memsafe_intros memsafe_receive_data memsafe_raise simp: unpack_data_header packet_types_code.simps)

lemma memsafe_handle_ack: "memsafe (handle_ack jz ju b)"
  unfolding handle_ack_def Let_def send_packed_def pack_ack
  by (auto intro!: memsafe_intros memsafe_raise dest: unpack_memsafe [OF memsafe_ack_read] split: prod.split sum.split)

lemma memsafe_handle_nack: "memsafe (handle_nack jn b)"
  unfolding handle_nack_def Let_def
  by (auto intro!: memsafe_intros memsafe_raise dest: unpack_memsafe [OF memsafe_nack_read] split: prod.split sum.split)

lemma memsafe_handle_ack2: "memsafe (handle_ack2 b)"
  unfolding handle_ack2_def
  by (auto intro!: memsafe_intros memsafe_raise dest: unpack_memsafe [OF memsafe_ack_read] split: prod.split sum.split)

lemma memsafe_on_recv: "memsafe (on_recv j0 jz ju jn now b ec)"
  unfolding on_recv_def handle_close_def
  by (auto intro!: memsafe_intros memsafe_close memsafe_handle_data memsafe_handle_ack memsafe_handle_nack
      memsafe_handle_ack2 split: option.split packet_types.split)

section \<open>Properties\<close>





text \<open>
  C24: an ack carries the receiver's state to the sender. If a receiver with at most 128 missing
  ranges sends an ack over an open channel and a sender handles the bytes that were sent, the
  handler succeeds; the sender's list of packets to retransmit is the receiver's miss list; its
  transmit window has lost exactly its leading packets below the receiver's window start; and it
  adopts the ack as its last one exactly when the ack number is not behind the last one, so the
  ack number never moves back.
\<close>

theorem ack_transfers_state:
  assumes "chan_my r" "chan_my s" "length (ap_missed_seq (rx_ack_pack r)) \<le> 128"
  shows "\<exists>r' b s'. send_ack now r = (Inr (), r') \<and> outbox r' = outbox r @ [b] \<and>
    handle_ack jz ju b s = (Inr (), s') \<and> tx_miss_list s' = ap_missed_seq (rx_ack_pack r) \<and>
    tx_win s' = dropWhile (\<lambda>dp. seq_lt (dp_seq dp) (ap_rx_win_start (rx_ack_pack r))) (tx_win s) \<and>
    last_rx_ack s' = (if seq_ge (ap_ack_seq (rx_ack_pack r')) (ap_ack_seq (last_rx_ack s)) then rx_ack_pack r' else last_rx_ack s) \<and>
    seq_ge (ap_ack_seq (last_rx_ack s')) (ap_ack_seq (last_rx_ack s)) \<and>
    remote_rx_win s' = ap_rx_win_size (rx_ack_pack r)"
proof -
  let ?rp = "(rx_ack_pack r)\<lparr> ap_ack_seq := seq_inc (ap_ack_seq (rx_ack_pack r)), ap_utc_time := of_int now \<rparr>"
  let ?r = "r\<lparr> rx_ack_pack := ?rp, outbox := outbox r @ [ack_enc ?rp] \<rparr>"
  have send: "send_ack now r = (Inr (), ?r)" using assms(1) by (simp add: send_ack_eq udt_send_def)
  obtain s' where h: "handle_ack jz ju (ack_enc ?rp) s = (Inr (), s')" "tx_miss_list s' = ap_missed_seq ?rp"
    "tx_win s' = dropWhile (\<lambda>dp. seq_lt (dp_seq dp) (ap_rx_win_start ?rp)) (tx_win s)"
    "last_rx_ack s' = (if seq_ge (ap_ack_seq ?rp) (ap_ack_seq (last_rx_ack s)) then ?rp else last_rx_ack s)"
    "remote_rx_win s' = ap_rx_win_size ?rp"
    using handle_ack_effect [of ?rp s jz ju] assms(2,3) by auto
  have "seq_ge (ap_ack_seq (last_rx_ack s')) (ap_ack_seq (last_rx_ack s))" using h(4) by (auto simp: seq_ge_off)
  then show ?thesis using send h by (intro exI [of _ ?r] exI [of _ "ack_enc ?rp"] exI [of _ s']) simp
qed

theorem ack_transfers_state_witness:
  "\<exists>r' b s'. send_ack 7 (udt_init udt_zero 4096) = (Inr (), r') \<and> outbox r' = [b] \<and>
     handle_ack 0 0 b (udt_init udt_zero 16) = (Inr (), s') \<and> remote_rx_win s' = 4096"
  using ack_transfers_state [of "udt_init udt_zero 4096" "udt_init udt_zero 16" 7 0 0]
  by (auto simp: udt_init_def ack_packet_init_def)

text \<open>
  Retransmission ends, and either sends lost packets again or exits the process. Over an open
  channel the retransmit loop always terminates. If every number in the list of losses is in
  the transmit window, it returns, the list is empty, the packets of the window are unchanged
  and everything it sent is the wire image of a listed packet; otherwise it calls \<open>exit(1)\<close>.
\<close>

theorem udt_retransmit_outcome:
  assumes "chan_my s"
  shows "\<exists>s'. retransmit True s =
      (if \<forall>x\<in>set (ml_drain (tx_miss_list s)). \<exists>dp\<in>set (tx_win s). dp_seq dp = x then Inr () else Inl (Exit 1), s') \<and>
    map packet_view (tx_win s') = map packet_view (tx_win s) \<and>
    ((\<forall>x\<in>set (ml_drain (tx_miss_list s)). \<exists>dp\<in>set (tx_win s). dp_seq dp = x) \<longrightarrow> tx_miss_list s' = []) \<and>
    (\<exists>new. outbox s' = outbox s @ new \<and>
       (\<forall>v\<in>set new. \<exists>dp\<in>set (tx_win s). dp_seq dp \<in> set (ml_drain (tx_miss_list s)) \<and> v = packet_view dp))"
proof -
  obtain r s' where run: "retransmit True s = (r, s')" by (cases "retransmit True s")
  note res = retransmit_result [OF assms run]
  have sub: "set (ml_drain (tx_miss_list s)) \<subseteq> fst ` set (pkts (tx_win s)) \<longleftrightarrow>
      (\<forall>x\<in>set (ml_drain (tx_miss_list s)). \<exists>dp\<in>set (tx_win s). dp_seq dp = x)"
    by (force simp: pkts_def)
  have "map snd (pkts w) = map packet_view w" for w by (simp add: pkts_def)
  then have pv: "map packet_view (tx_win s') = map packet_view (tx_win s)" using res by metis
  obtain new where new: "outbox s' = outbox s @ new" "\<forall>v\<in>set new. \<exists>x\<in>set (ml_drain (tx_miss_list s)). (x, v) \<in> set (pkts (tx_win s))"
    using res by blast
  have "\<forall>v\<in>set new. \<exists>dp\<in>set (tx_win s). dp_seq dp \<in> set (ml_drain (tx_miss_list s)) \<and> v = packet_view dp"
    using new(2) by (fastforce simp: pkts_def)
  then show ?thesis using res run pv new(1) unfolding sub by (intro exI [of _ s']) auto
qed

theorem udt_retransmit_outcome_witness:
  "\<exists>s'. retransmit True ((udt_init udt_zero 4096)\<lparr> tx_miss_list := [(3, 3)] \<rparr>) = (Inl (Exit 1), s')"
proof -
  let ?s = "(udt_init udt_zero 4096)\<lparr> tx_miss_list := [(3, 3)] \<rparr>"
  have "chan_my ?s" by (simp add: udt_init_def)
  moreover have "ml_drain [(3, 3)] = [3]" by code_simp
  ultimately show ?thesis using udt_retransmit_outcome [of ?s] by (auto simp: udt_init_def)
qed

lemma handle_nack_effect:
  "\<exists>s'. handle_nack junk (nack_enc np) s = (Inr (), s') \<and>
     tx_miss_list s' = ml_add (np_start_seq np) (np_end_seq np) (tx_miss_list s) \<and>
     tx_win s' = dropWhile (\<lambda>dp. seq_lt (dp_seq dp) (np_rx_win_start np)) (tx_win s) \<and>
     tx_win_size s' = (if dec_on_nack s then nack_window (start_up s) (tx_win_size s) else tx_win_size s) \<and>
     dec_on_nack s' = False \<and> start_up s' = (start_up s \<and> \<not> dec_on_nack s) \<and> chan_my s' = chan_my s \<and>
     (\<not> retransmitting s \<and> \<not> started_retran s \<longrightarrow> Task_retransmit \<in> set (tasks s'))"
  by (simp add: handle_nack_def unpack_nack andthen_def bindc_def modc_simp Let_def retransmit_False advance_tx_win)

text \<open>
  A late nack kills the process. If the loss list is empty and a nack arrives for a single
  number that is no longer in the transmit window (a nack delayed or duplicated by the network
  until the packet was acknowledged), the handler posts the retransmit task, and that task
  finds no packet to send and calls \<open>exit(1)\<close>.
\<close>

theorem late_nack_exits:
  assumes "chan_my s" "\<not> retransmitting s" "\<not> started_retran s" "tx_miss_list s = []"
    and "\<forall>dp\<in>set (tx_win s). dp_seq dp \<noteq> x"
  shows "\<exists>s'. handle_nack junk (nack_enc \<lparr> np_flags = 2, np_rx_win_start = w, np_start_seq = x, np_end_seq = x \<rparr>) s = (Inr (), s') \<and>
     Task_retransmit \<in> set (tasks s') \<and> fst (run_task Task_retransmit s') = Inl (Exit 1)"
proof -
  let ?np = "\<lparr> np_flags = 2, np_rx_win_start = w, np_start_seq = x, np_end_seq = x \<rparr>"
  obtain s' where h: "handle_nack junk (nack_enc ?np) s = (Inr (), s')" "tx_miss_list s' = [(x, x)]"
    "tx_win s' = dropWhile (\<lambda>dp. seq_lt (dp_seq dp) w) (tx_win s)" "chan_my s'" "Task_retransmit \<in> set (tasks s')"
    using handle_nack_effect [of junk ?np s] assms by auto
  obtain r s'' where run: "retransmit True s' = (r, s'')" by (cases "retransmit True s'")
  have "ml_drain [(x, x)] = [x]" by (simp add: ml_drain.simps seq_eq_off)
  moreover have "x \<notin> fst ` set (pkts (tx_win s'))"
    using assms(5) set_dropWhileD [of _ "\<lambda>dp. seq_lt (dp_seq dp) w" "tx_win s"] by (auto simp: h(3) pkts_def)
  ultimately have "r = Inl (Exit 1)" using retransmit_result [OF h(4) run] by (simp add: h(2))
  then show ?thesis using h run by (intro exI [of _ s']) (simp add: run_task_def)
qed

theorem late_nack_exits_witness:
  "\<exists>s'. handle_nack nack_zero (nack_enc \<lparr> np_flags = 2, np_rx_win_start = 1, np_start_seq = 1, np_end_seq = 1 \<rparr>) (udt_init udt_zero 4096) = (Inr (), s') \<and>
     fst (run_task Task_retransmit s') = Inl (Exit 1)"
  using late_nack_exits [of "udt_init udt_zero 4096" 1 nack_zero 1] by (auto simp: udt_init_def)

text \<open>
  Congestion control stays within bounds. The first nack after an ack takes a window of at
  least one packet down to at least one and at most what it was, ends the start-up phase, and
  further nacks leave the window alone until the next ack. An ack leaves a window that is within
  the peer's receive window (or is one packet) within it, as long as one and a half times the
  window plus one still fits 16 bits.
\<close>

theorem congestion_window_bounds:
  assumes "1 \<le> unat (tx_win_size s)"
  shows "(\<exists>s'. handle_nack junk (nack_enc np) s = (Inr (), s') \<and> \<not> dec_on_nack s' \<and>
      (if dec_on_nack s then 1 \<le> unat (tx_win_size s') \<and> unat (tx_win_size s') \<le> unat (tx_win_size s) \<and> \<not> start_up s'
       else tx_win_size s' = tx_win_size s)) \<and>
    (chan_my s \<and> length (ap_missed_seq ap) \<le> 128 \<and> 3 * unat (tx_win_size s) div 2 + 1 < 2 ^ 16 \<and>
      unat (tx_win_size s) \<le> max 1 (unat (ap_rx_win_size ap)) \<longrightarrow>
      (\<exists>s'. handle_ack jz ju (ack_enc ap) s = (Inr (), s') \<and> unat (tx_win_size s') \<le> max 1 (unat (ap_rx_win_size ap))))"
  using handle_nack_effect [of junk np s] nack_window_bounds [OF assms, of "start_up s"]
    handle_ack_effect [of ap s jz ju] ack_window_bounds [of "tx_win_size s" "ap_rx_win_size ap" "start_up s"]
  by auto

theorem congestion_window_bounds_witness:
  "\<exists>s'. handle_nack nack_zero (nack_enc nack_zero) (udt_init udt_zero 4096) = (Inr (), s') \<and> unat (tx_win_size s') = 1"
  using congestion_window_bounds [of "udt_init udt_zero 4096" nack_zero nack_zero ack_zero 0 0] by (auto simp: udt_init_def)


text \<open>
  Ack and nack packets survive the wire. Packing an ack with at most 128 missing ranges into
  a 2048-byte buffer and unpacking the bytes gives the same ack, whatever the reader's packet
  held before; the same holds for every nack; and no ack, however long its miss list, overflows
  the buffer.
\<close>

theorem udt_packet_roundtrip:
  assumes "length mem = 2048" "length (ap_missed_seq ap) \<le> 128"
  shows "(\<exists>bs. pack_packet mem ack_write ap = Inr bs \<and> unpack_packet ack_read old bs = (Inr (), ap)) \<and>
    (\<exists>bs. pack_packet mem nack_write np = Inr bs \<and> unpack_packet nack_read oldn bs = (Inr (), np)) \<and>
    (\<exists>bs. pack_packet mem ack_write any = Inr bs)"
  using ackc.unpack_pack [of ap mem old] nackc.unpack_pack [of np mem oldn] ackc.pack_enc [of any mem]
    length_ack_enc [of ap] length_ack_enc [of any] length_nack_enc [of np] assms by simp

theorem udt_packet_roundtrip_witness:
  "\<exists>bs. pack_packet (replicate 2048 0) ack_write ack_zero = Inr bs \<and> unpack_packet ack_read ack_zero bs = (Inr (), ack_zero)"
  using udt_packet_roundtrip [of "replicate 2048 0" ack_zero ack_zero nack_zero nack_zero ack_zero]
  by (simp add: ack_zero_def ack_packet_init_def)

end
