(* ===== verification/Frame.thy ===== *)
theory Frame
  imports Buffer
begin

text \<open>
  The encrypted frame of src/connection.cpp: \<open>connection::send( buf, size, type )\<close> prepends a
  three-byte checksum and a byte with type and pad count, pads to a multiple of eight and
  encrypts; \<open>decode_packet\<close> undoes it. The cipher, the hashes, the signature and the key
  agreement are libraries the sources only call: they are the functions of \<open>crypto\<close>, an argument
  of every definition that uses them.
\<close>

section \<open>The external functions\<close>

text \<open>The sizes of the packed signature and public key are the library's, too; \<open>dh_gen n\<close> is the private and
  the public key the \<open>n\<close>-th generated pair has, \<open>rand_seq n\<close> the \<open>n\<close>-th value of \<open>rand\<close>.\<close>

record crypto =
  bf_encrypt :: "byte list \<Rightarrow> byte list \<Rightarrow> byte list"
  bf_decrypt :: "byte list \<Rightarrow> byte list \<Rightarrow> byte list"
  super_fast_hash :: "byte list \<Rightarrow> u32"
  sha1_hash :: "byte list \<Rightarrow> sha1"
  big_log2 :: "sha1 \<Rightarrow> int"
  pk_sign :: "byte list \<Rightarrow> sha1 \<Rightarrow> byte list"
  pk_verify :: "byte list \<Rightarrow> sha1 \<Rightarrow> byte list \<Rightarrow> bool"
  dh_gen :: "nat \<Rightarrow> byte list \<times> byte list"
  dh_shared :: "byte list \<Rightarrow> byte list \<Rightarrow> byte list"
  rand_seq :: "nat \<Rightarrow> nat"
  sig_size :: nat
  pk_size :: nat

text \<open>Blowfish in CBC mode from a fresh chain: decryption undoes encryption on whole blocks and
  keeps the length.\<close>

definition cipher_ok :: "crypto \<Rightarrow> bool" where
  "cipher_ok cr \<longleftrightarrow> (\<forall>k x. 8 dvd length x \<longrightarrow>
     length (bf_encrypt cr k x) = length x \<and> length (bf_decrypt cr k x) = length x \<and>
     bf_decrypt cr k (bf_encrypt cr k x) = x)"

text \<open>\<open>bigint::log2\<close> is the number of bits of the number.\<close>

definition log2_ok :: "crypto \<Rightarrow> bool" where
  "log2_ok cr \<longleftrightarrow> (\<forall>d. 0 \<le> big_log2 cr d \<and> unat d < 2 ^ nat (big_log2 cr d) \<and>
     (d \<noteq> 0 \<longrightarrow> 0 < big_log2 cr d \<and> 2 ^ (nat (big_log2 cr d) - 1) \<le> unat d) \<and> (d = 0 \<longrightarrow> big_log2 cr d = 0))"

section \<open>Message types\<close>

datatype proto_message_type = data_msg | auth_msg | auth_resp_msg | route_lookup_msg | route_msg | close_msg
  | update_rank | req_reverse_connect_msg | req_connect_msg

fun msg_code :: "proto_message_type \<Rightarrow> byte" where
  "msg_code data_msg = 0"
| "msg_code auth_msg = 1"
| "msg_code auth_resp_msg = 2"
| "msg_code route_lookup_msg = 3"
| "msg_code route_msg = 4"
| "msg_code close_msg = 5"
| "msg_code update_rank = 6"
| "msg_code req_reverse_connect_msg = 7"
| "msg_code req_connect_msg = 8"

definition msg_of_code :: "byte \<Rightarrow> proto_message_type option" where
  "msg_of_code b =
     (if b = 0 then Some data_msg else if b = 1 then Some auth_msg else if b = 2 then Some auth_resp_msg
      else if b = 3 then Some route_lookup_msg else if b = 4 then Some route_msg else if b = 5 then Some close_msg
      else if b = 6 then Some update_rank else if b = 7 then Some req_reverse_connect_msg
      else if b = 8 then Some req_connect_msg else None)"

lemma msg_of_code_code [simp]: "msg_of_code (msg_code t) = Some t"
  by (cases t) (simp_all add: msg_of_code_def)

section \<open>Encoding\<close>

definition frame_pad :: "nat \<Rightarrow> nat" where
  "frame_pad sz = (let pad = 8 - ((sz + 4) mod 8) in if pad = 8 then 0 else pad)"

text \<open>The plain frame: checksum of the padded payload, type and pad count, padded payload.\<close>

definition frame_plain :: "crypto \<Rightarrow> byte list \<Rightarrow> proto_message_type \<Rightarrow> byte list" where
  "frame_plain cr buf t =
     (let pad = frame_pad (length buf);
          dat = buf @ replicate pad 0;
          check = super_fast_hash cr dat
      in take 3 (le_bytes 4 check) @ [or (of_nat pad) (push_bit 3 (msg_code t))] @ dat)"

definition frame_encode :: "crypto \<Rightarrow> byte list option \<Rightarrow> byte list \<Rightarrow> proto_message_type \<Rightarrow> byte list res" where
  "frame_encode cr bf buf t =
     (if length buf > 2044 then Inl (Assert_fail ''size <= 2044'')
      else case bf of
        None \<Rightarrow> Inl (Assert_fail ''my->_bf'')
      | Some key \<Rightarrow>
          (let plain = frame_plain cr buf t in
           if length plain > 2048 then Inl (Undefined ''write past the frame buffer'')
           else Inr (bf_encrypt cr key plain)))"

section \<open>Decoding\<close>

text \<open>\<open>b.subbuf( 4, b.size() - 4 - pad )\<close> on the decrypted bytes: the length is computed in 32 bits
  and the all-ones value means the default argument. A length that does not wrap stays within the
  frame; one that does fails the assertion of \<open>subbuf\<close>.\<close>

definition frame_body :: "byte list \<Rightarrow> nat \<Rightarrow> byte list res" where
  "frame_body plain pad =
     (let l = (of_nat (length plain) - 4 - of_nat pad :: u32) in
      if l = - 1 then Inr (drop 4 plain)
      else if 4 + unat l \<le> buffer_data_size then Inr (take (unat l) (drop 4 plain))
      else Inl (Assert_fail ''b.start + b.len <= c_array() + size()''))"

text \<open>\<open>b[3]\<close> is a signed char: the type is its arithmetic shift, cut to eight bits.\<close>

definition frame_type :: "byte \<Rightarrow> byte" where
  "frame_type c = of_int (drop_bit 3 (sint c))"

text \<open>The front half of \<open>decode_packet\<close>. The buffer is decrypted in place: the first component is what it
  holds afterwards. The second is \<open>None\<close> when the checksum fails, else type and pad count.\<close>

definition frame_open :: "crypto \<Rightarrow> byte list \<Rightarrow> byte list \<Rightarrow> (byte list \<times> (byte \<times> nat) option) res" where
  "frame_open cr key b =
     (if length b < 4 then Inl (Undefined ''hash of a negative length'')
      else
        let plain = bf_decrypt cr key b;
            checksum = super_fast_hash cr (drop 4 plain)
        in Inr (plain,
             if take 3 (le_bytes 4 checksum) \<noteq> take 3 plain then None
             else Some (frame_type (plain ! 3), unat (and (plain ! 3) 7))))"

section \<open>Facts\<close>

lemma frame_pad_props: "frame_pad n < 8" "8 dvd n + 4 + frame_pad n"
proof -
  have "(n + 4) mod 8 < 8" by simp
  then show "frame_pad n < 8" by (auto simp: frame_pad_def Let_def)
  show "8 dvd n + 4 + frame_pad n" unfolding frame_pad_def Let_def by presburger
qed

lemma frame_plain_length: "length (frame_plain cr buf t) = length buf + 4 + frame_pad (length buf)"
  by (simp add: frame_plain_def Let_def)

lemma frame_plain_bounds:
  assumes "length buf \<le> 2044"
  shows "length (frame_plain cr buf t) \<le> 2048 \<and> 8 dvd length (frame_plain cr buf t)"
proof -
  let ?n = "length buf + 4 + frame_pad (length buf)"
  have d: "8 dvd ?n" and p: "frame_pad (length buf) < 8" using frame_pad_props [of "length buf"] by simp_all
  obtain k where k: "?n = 8 * k" using d by (auto simp: dvd_def)
  then have "8 * k < 2056" using assms p by linarith
  then have "k \<le> 256" by simp
  then show ?thesis using d k unfolding frame_plain_length by simp
qed

lemma header_byte:
  assumes "pad < 8"
  shows "and (or (of_nat pad) (push_bit 3 (msg_code t))) 7 = (of_nat pad :: byte)"
    and "frame_type (or (of_nat pad) (push_bit 3 (msg_code t))) = msg_code t"
proof -
  have "pad \<in> {0, 1, 2, 3, 4, 5, 6, 7}" using assms by auto
  then show "and (or (of_nat pad) (push_bit 3 (msg_code t))) 7 = (of_nat pad :: byte)"
    and "frame_type (or (of_nat pad) (push_bit 3 (msg_code t))) = msg_code t"
    by (cases t; auto simp: frame_type_def)+
qed

lemma frame_body_plain:
  assumes "length buf \<le> 2044"
  shows "frame_body (frame_plain cr buf t) (frame_pad (length buf)) = Inr buf"
proof -
  let ?pad = "frame_pad (length buf)"
  have "(of_nat (length (frame_plain cr buf t)) - 4 - of_nat ?pad :: u32) = of_nat (length buf)"
    by (simp add: frame_plain_length)
  moreover have u: "unat (of_nat (length buf) :: u32) = length buf"
    using assms by (simp add: unat_of_nat)
  moreover have "(of_nat (length buf) :: u32) \<noteq> - 1"
  proof
    assume "(of_nat (length buf) :: u32) = - 1"
    then have "length buf = unat (- 1 :: u32)" using u by simp
    then show False using assms by (simp add: unsigned_minus_1_eq_mask mask_eq_exp_minus_1)
  qed
  moreover have "drop 4 (frame_plain cr buf t) = buf @ replicate ?pad 0"
    by (simp add: frame_plain_def Let_def)
  ultimately show ?thesis using assms by (simp add: frame_body_def buffer_data_size_def)
qed

lemma frame_open_plain:
  assumes "cipher_ok cr" and "length buf \<le> 2044"
  shows "frame_open cr key (bf_encrypt cr key (frame_plain cr buf t)) =
           Inr (frame_plain cr buf t, Some (msg_code t, frame_pad (length buf)))"
proof -
  let ?p = "frame_plain cr buf t" and ?pad = "frame_pad (length buf)"
  have b: "length ?p \<le> 2048" "8 dvd length ?p" using frame_plain_bounds [OF assms(2)] by simp_all
  then have c: "bf_decrypt cr key (bf_encrypt cr key ?p) = ?p" "length (bf_encrypt cr key ?p) = length ?p"
    using assms(1) by (simp_all add: cipher_ok_def)
  have pad: "?pad < 8" by (rule frame_pad_props)
  have n: "?p ! 3 = or (of_nat ?pad) (push_bit 3 (msg_code t))"
    by (simp add: frame_plain_def Let_def nth_append)
  have d: "drop 4 ?p = buf @ replicate ?pad 0" by (simp add: frame_plain_def Let_def)
  have h: "take 3 ?p = take 3 (le_bytes 4 (super_fast_hash cr (buf @ replicate ?pad 0)))"
    by (simp add: frame_plain_def Let_def)
  have "unat (of_nat ?pad :: byte) = ?pad" using pad by (simp add: unat_of_nat)
  then show ?thesis
    using c h n d header_byte [OF pad, of t] by (simp add: frame_open_def Let_def frame_plain_length)
qed

text \<open>
  C20: what \<open>connection::send\<close> encrypts under a key, the front half of \<open>decode_packet\<close> under the same key
  accepts, with the message type and, by \<open>subbuf\<close>, exactly the bytes that were sent; the frame is a
  multiple of the cipher's block of eight bytes and fits the 2048-byte buffer.
\<close>

theorem frame_roundtrip:
  assumes "cipher_ok cr" and "length buf \<le> 2044"
  shows "\<exists>fr plain pad. frame_encode cr (Some key) buf t = Inr fr \<and> 8 dvd length fr \<and> length fr \<le> buffer_data_size
           \<and> frame_open cr key fr = Inr (plain, Some (msg_code t, pad)) \<and> frame_body plain pad = Inr buf"
proof -
  let ?p = "frame_plain cr buf t"
  have b: "length ?p \<le> 2048" "8 dvd length ?p" using frame_plain_bounds [OF assms(2)] by simp_all
  then have "length (bf_encrypt cr key ?p) = length ?p" using assms(1) by (simp add: cipher_ok_def)
  then show ?thesis
    using b assms frame_open_plain [OF assms, of key t] frame_body_plain [OF assms(2), of cr t]
    by (intro exI [of _ "bf_encrypt cr key ?p"] exI [of _ ?p] exI [of _ "frame_pad (length buf)"])
       (simp add: frame_encode_def Let_def buffer_data_size_def)
qed

text \<open>The pad count of a received frame is not checked against its length. For frames of at least 16 bytes it
  does not matter; an eight-byte frame whose header claims five pad bytes yields its last four
  bytes (the length wraps to the default argument), and one that claims six or seven fails the
  assertion in \<open>subbuf\<close>.\<close>

lemma frame_body_long:
  assumes "length plain = 8 * k" "2 \<le> k" "k \<le> 256" "pad < 8"
  shows "frame_body plain pad = Inr (take (length plain - 4 - pad) (drop 4 plain))"
proof -
  define m where "m = 8 * k - 4 - pad"
  have m: "m \<le> 2044" "0 < m" "8 * k = m + 4 + pad" using assms by (simp_all add: m_def)
  have "(of_nat (length plain) - 4 - of_nat pad :: u32) = of_nat m" by (simp add: assms(1) m(3))
  moreover have u: "unat (of_nat m :: u32) = m" using m by (simp add: unat_of_nat)
  moreover have "(of_nat m :: u32) \<noteq> - 1"
  proof
    assume "(of_nat m :: u32) = - 1"
    then have "m = unat (- 1 :: u32)" using u by simp
    then show False using m(1) by (simp add: unsigned_minus_1_eq_mask mask_eq_exp_minus_1)
  qed
  ultimately show ?thesis using m by (simp add: frame_body_def buffer_data_size_def assms(1))
qed

lemma frame_body_short:
  assumes "length plain = 8" "pad < 8"
  shows "frame_body plain pad =
           (if pad \<le> 4 then Inr (take (4 - pad) (drop 4 plain)) else if pad = 5 then Inr (drop 4 plain)
            else Inl (Assert_fail ''b.start + b.len <= c_array() + size()''))"
proof -
  have "pad \<in> {0, 1, 2, 3, 4, 5, 6, 7}" using assms(2) by auto
  then show ?thesis by (auto simp: frame_body_def assms(1) buffer_data_size_def)
qed

text \<open>
  Of a frame that passes the checksum (a multiple of eight bytes, at most 2048) the payload is
  cut out without a failed assertion exactly unless the frame has eight bytes and claims more than
  five pad bytes.
\<close>

theorem frame_body_defined:
  assumes "8 dvd length plain" "8 \<le> length plain" "length plain \<le> 2048" "pad < 8"
  shows "(\<exists>body. frame_body plain pad = Inr body \<and> length body \<le> length plain - 4) \<longleftrightarrow> \<not> (length plain = 8 \<and> 5 < pad)"
proof -
  obtain k where k: "length plain = 8 * k" using assms(1) by (auto simp: dvd_def)
  show ?thesis
  proof (cases "k = 1")
    case True
    then show ?thesis using frame_body_short [of plain pad] k assms(4) by auto
  next
    case False
    then have "2 \<le> k" "k \<le> 256" using k assms by simp_all
    then show ?thesis using frame_body_long [OF k _ _ assms(4)] k by auto
  qed
qed

theorem frame_body_defined_witness:
  "8 dvd length (replicate 8 (0 :: byte)) \<and> 8 \<le> length (replicate 8 (0 :: byte)) \<and>
   length (replicate 8 (0 :: byte)) \<le> 2048 \<and> (6 :: nat) < 8 \<and>
   \<not> (\<exists>body. frame_body (replicate 8 0) 6 = Inr body \<and> length body \<le> length (replicate 8 (0 :: byte)) - 4)"
  using frame_body_defined [of "replicate 8 0" 6] by simp

text \<open>A cipher that adds the key's first byte to every byte: enough to see that the hypotheses hold of
  something that does change its input.\<close>

fun bit_count :: "nat \<Rightarrow> nat" where
  "bit_count n = (if n = 0 then 0 else Suc (bit_count (n div 2)))"

declare bit_count.simps [simp del]

definition demo_crypto :: crypto where
  "demo_crypto = \<lparr>bf_encrypt = (\<lambda>k x. map (\<lambda>b. b + hd (k @ [0])) x),
     bf_decrypt = (\<lambda>k x. map (\<lambda>b. b - hd (k @ [0])) x),
     super_fast_hash = (\<lambda>x. of_nat (length x)), sha1_hash = (\<lambda>x. fold (\<lambda>b h. 31 * h + ucast b) x 1),
     big_log2 = (\<lambda>d. int (bit_count (unat d))), pk_sign = (\<lambda>k h. [ucast h + hd (k @ [0])]), pk_verify = (\<lambda>k h s. s = [ucast h + hd (k @ [0])]),
     dh_gen = (\<lambda>n. ([of_nat (Suc n)], replicate 56 (of_nat (Suc n)))),
     dh_shared = (\<lambda>a p. map (\<lambda>b. b * hd (a @ [1])) (take 56 p)), rand_seq = (\<lambda>n. 3 * n), sig_size = 1, pk_size = 256\<rparr>"

lemma demo_cipher_ok: "cipher_ok demo_crypto"
  by (simp add: cipher_ok_def demo_crypto_def comp_def)

lemma bit_count_bounds: "n < 2 ^ bit_count n \<and> (n \<noteq> 0 \<longrightarrow> 0 < bit_count n \<and> 2 ^ (bit_count n - 1) \<le> n)"
proof (induction n rule: bit_count.induct)
  case (1 n)
  show ?case
  proof (cases "n = 0")
    case True
    then show ?thesis by (simp add: bit_count.simps)
  next
    case False
    have b: "bit_count n = Suc (bit_count (n div 2))" using False by (simp add: bit_count.simps)
    have *: "n div 2 < 2 ^ bit_count (n div 2)" using 1 False by blast
    have "2 ^ bit_count (n div 2) \<le> n"
    proof (cases "n div 2 = 0")
      case True
      then show ?thesis using False by (simp add: bit_count.simps)
    next
      case False
      then have "0 < bit_count (n div 2)" "2 ^ (bit_count (n div 2) - 1) \<le> n div 2" using 1 \<open>n \<noteq> 0\<close> by blast+
      then have "2 * 2 ^ (bit_count (n div 2) - 1) \<le> n" by simp
      then show ?thesis using \<open>0 < bit_count (n div 2)\<close> by (simp flip: power_Suc)
    qed
    then show ?thesis using * b by simp
  qed
qed

lemma demo_log2_ok: "log2_ok demo_crypto"
proof -
  have "\<And>d :: sha1. d \<noteq> 0 \<Longrightarrow> unat d \<noteq> 0" by (simp add: unat_eq_0)
  then show ?thesis
    using bit_count_bounds by (auto simp: log2_ok_def demo_crypto_def bit_count.simps [of 0])
qed

theorem frame_roundtrip_witness:
  "cipher_ok demo_crypto \<and> length [1, 2, 3 :: byte] \<le> 2044 \<and>
   (\<exists>fr plain pad. frame_encode demo_crypto (Some [7]) [1, 2, 3] auth_msg = Inr fr \<and> 8 dvd length fr \<and>
      length fr \<le> buffer_data_size \<and> frame_open demo_crypto [7] fr = Inr (plain, Some (msg_code auth_msg, pad)) \<and>
      frame_body plain pad = Inr [1, 2, 3])"
proof -
  have "length [1, 2, 3 :: byte] \<le> 2044" by simp
  from demo_cipher_ok this frame_roundtrip [OF demo_cipher_ok this, of "[7]" auth_msg] show ?thesis by blast
qed

end
