(* ===== verification/Peer_Db.thy ===== *)
theory Peer_Db
  imports Frame "HOL-Library.AList"
begin

text \<open>
  The peer database of src/db/peer.cpp: records of known peers, stored in a Berkeley DB btree under
  the distance of the peer's id from the local id, with a secondary index by endpoint. Berkeley DB
  is a library: the handle is of an unknown type \<open>'h\<close> and the calls the sources make are the functions
  of \<open>bdb\<close>, with the documented behaviour they rely on stated as \<open>bdb_ok\<close>.
\<close>

section \<open>Berkeley DB\<close>

text \<open>\<open>db_get\<close> and \<open>db_put\<close> are \<open>Db::get\<close> and \<open>Db::put\<close> (\<open>None\<close>: not found, resp. a DbException), \<open>db_recs\<close>
  lists the records in the order a cursor and the record numbers follow, \<open>db_index\<close> in the order of
  the associated secondary index.\<close>

record ('h, 'v) bdb =
  db_get :: "'h \<Rightarrow> byte list \<Rightarrow> 'v option"
  db_put :: "'h \<Rightarrow> byte list \<Rightarrow> 'v \<Rightarrow> 'h option"
  db_recs :: "'h \<Rightarrow> (byte list \<times> 'v) list"
  db_index :: "'h \<Rightarrow> (byte list \<times> 'v) list"

definition bdb_ok :: "('h, 'v) bdb \<Rightarrow> bool" where
  "bdb_ok B \<longleftrightarrow>
     (\<forall>h k v h'. db_put B h k v = Some h' \<longrightarrow> db_get B h' = (db_get B h)(k \<mapsto> v)) \<and>
     (\<forall>h k v. (k, v) \<in> set (db_recs B h) \<longleftrightarrow> db_get B h k = Some v) \<and>
     (\<forall>h. distinct (map fst (db_recs B h))) \<and>
     (\<forall>h. set (db_index B h) = set (db_recs B h))"

lemma bdb_okD:
  assumes "bdb_ok B"
  shows "db_put B h k v = Some h' \<Longrightarrow> db_get B h' = (db_get B h)(k \<mapsto> v)"
    and "(k, v) \<in> set (db_recs B h) \<longleftrightarrow> db_get B h k = Some v"
    and "distinct (map fst (db_recs B h))"
    and "set (db_index B h) = set (db_recs B h)"
  using assms by (auto simp: bdb_ok_def)

section \<open>Records\<close>

type_synonym endpoint = "u32 \<times> u16"

text \<open>A float is an exact fraction here, or one of the two values a division by zero has.\<close>

datatype flt = Fin int int | Inf | NaN

record peer_record =
  last_ep :: endpoint
  est_bandwidth :: u32
  avg_rtt_us :: u32
  nonce :: "u64 \<times> u64"
  first_contact :: u64
  last_contact :: u64
  sent_credit :: u64
  recv_credit :: u64
  total_btc_recv :: u64
  total_btc_sent :: u64
  firewalled :: byte
  rank :: byte
  published_rank :: byte
  public_key :: "byte list"
  bf_key :: "byte list"
  recv_btc :: "byte list"
  send_btc :: "byte list"
  priority :: flt
  connected_flag :: byte

definition empty_record :: peer_record where
  "empty_record = \<lparr>last_ep = (0, 0), est_bandwidth = 0, avg_rtt_us = 0, nonce = (0, 0), first_contact = 0,
     last_contact = 0, sent_credit = 0, recv_credit = 0, total_btc_recv = 0, total_btc_sent = 0, firewalled = 0,
     rank = 0, published_rank = 0, public_key = replicate 256 0, bf_key = replicate 56 0,
     recv_btc = replicate 40 0, send_btc = replicate 40 0, priority = Fin 0 1, connected_flag = 0\<rparr>"

definition rec_valid :: "peer_record \<Rightarrow> bool" where
  "rec_valid r \<longleftrightarrow> public_key empty_record \<noteq> public_key r"

definition rec_id :: "crypto \<Rightarrow> peer_record \<Rightarrow> sha1" where
  "rec_id cr r = sha1_hash cr (public_key r)"

text \<open>The key the secondary index is built with.\<close>

definition get_peer_ep :: "peer_record \<Rightarrow> endpoint" where
  "get_peer_ep r = last_ep r"

section \<open>Operations\<close>

record 'h peer_db =
  pd_node_id :: sha1
  pd_handle :: 'h

type_synonym 'h peer_bdb = "('h, peer_record) bdb"

definition sha1_data :: "sha1 \<Rightarrow> byte list" where
  "sha1_data d = le_bytes 20 d"

definition peer_key :: "'h peer_db \<Rightarrow> sha1 \<Rightarrow> byte list" where
  "peer_key p nid = sha1_data (xor nid (pd_node_id p))"

definition peer_exists :: "'h peer_bdb \<Rightarrow> 'h peer_db \<Rightarrow> sha1 \<Rightarrow> bool" where
  "peer_exists B p nid = (db_get B (pd_handle p) (peer_key p nid) \<noteq> None)"

text \<open>The cursor that looks for the first record after the commit can only miss in an empty database;
  the record number it reads is not used.\<close>

definition peer_store :: "crypto \<Rightarrow> 'h peer_bdb \<Rightarrow> sha1 \<Rightarrow> peer_record \<Rightarrow> ('h peer_db, bool) cmd" where
  "peer_store cr B nid m p =
     (let check = sha1_hash cr (public_key m) in
      if check \<noteq> nid then (Inl (Throw ''sha1(data) does not match given id''), p)
      else
        let ex = peer_exists B p nid in
        case db_put B (pd_handle p) (peer_key p nid) m of
          None \<Rightarrow> (Inl (Throw ''DbException''), p)
        | Some h \<Rightarrow>
            (let p1 = p\<lparr>pd_handle := h\<rparr> in
             if db_recs B h = [] then (Inl (Throw ''couldn't find key we just put in db''), p1)
             else (Inr True, p1)))"

text \<open>\<open>fetch\<close> sets \<open>ulen\<close> of the key but leaves its size zero: the call asks for the empty key. (The value has no
  memory either, but a record is never found.)\<close>

definition peer_fetch :: "'h peer_bdb \<Rightarrow> 'h peer_db \<Rightarrow> sha1 \<Rightarrow> peer_record \<Rightarrow> (bool \<times> peer_record) res" where
  "peer_fetch B p nid r =
     (case db_get B (pd_handle p) (take 0 (peer_key p nid)) of
        None \<Rightarrow> Inr (False, r)
      | Some v \<Rightarrow> Inl (Undefined ''value copied to a null pointer''))"

definition peer_fetch_by_endpoint :: "'h peer_bdb \<Rightarrow> 'h peer_db \<Rightarrow> endpoint \<Rightarrow> (sha1 \<times> peer_record) option" where
  "peer_fetch_by_endpoint B p ep =
     (case find (\<lambda>(k, v). get_peer_ep v = ep) (db_index B (pd_handle p)) of
        None \<Rightarrow> None
      | Some (k, v) \<Rightarrow> Some (xor (of_le_bytes k) (pd_node_id p), v))"

definition peer_fetch_index :: "'h peer_bdb \<Rightarrow> 'h peer_db \<Rightarrow> u32 \<Rightarrow> (sha1 \<times> peer_record) option" where
  "peer_fetch_index B p recnum =
     (let rs = db_recs B (pd_handle p); n = unat recnum in
      if n = 0 then None
      else if n \<le> length rs then Some (xor (of_le_bytes (fst (rs ! (n - 1)))) (pd_node_id p), snd (rs ! (n - 1)))
      else None)"

definition peer_count :: "'h peer_bdb \<Rightarrow> 'h peer_db \<Rightarrow> u32" where
  "peer_count B p = of_nat (length (db_recs B (pd_handle p)))"

section \<open>Every record is stored under its own identity\<close>

definition peer_inv :: "crypto \<Rightarrow> 'h peer_bdb \<Rightarrow> 'h peer_db \<Rightarrow> bool" where
  "peer_inv cr B p \<longleftrightarrow> (\<forall>k v. db_get B (pd_handle p) k = Some v \<longrightarrow> k = peer_key p (rec_id cr v))"

lemma length_peer_key [simp]: "length (peer_key p nid) = 20"
  by (simp add: peer_key_def sha1_data_def)

lemma peer_key_id: "xor (of_le_bytes (peer_key p nid)) (pd_node_id p) = nid"
  by (simp add: peer_key_def sha1_data_def of_le_bytes_20 xor.assoc)

lemma peer_key_inject [simp]: "peer_key p i = peer_key p j \<longleftrightarrow> i = j"
  by (metis peer_key_id)

lemma peer_key_handle [simp]: "peer_key (p\<lparr>pd_handle := h\<rparr>) = peer_key p"
  by (rule ext) (simp add: peer_key_def)

lemma peer_store_cases:
  assumes "bdb_ok B"
  obtains (ok) h where "peer_store cr B nid m p = (Inr True, p\<lparr>pd_handle := h\<rparr>)"
      "db_put B (pd_handle p) (peer_key p nid) m = Some h" "rec_id cr m = nid"
  | (throw) t where "peer_store cr B nid m p = (Inl (Throw t), p)"
proof (cases "sha1_hash cr (public_key m) = nid")
  case False
  then show ?thesis using throw by (simp add: peer_store_def)
next
  case True
  show ?thesis
  proof (cases "db_put B (pd_handle p) (peer_key p nid) m")
    case None
    then show ?thesis using throw True by (simp add: peer_store_def)
  next
    case (Some h)
    then have "db_get B h (peer_key p nid) = Some m" using bdb_okD(1) [OF assms] by simp
    then have "db_recs B h \<noteq> []" using bdb_okD(2) [OF assms] by force
    then show ?thesis using ok Some True by (simp add: peer_store_def rec_id_def)
  qed
qed

lemma peer_store_inv: "bdb_ok B \<Longrightarrow> peer_inv cr B p \<Longrightarrow> peer_inv cr B (snd (peer_store cr B nid m p))"
proof (rule peer_store_cases [of B cr nid m p])
  fix h assume "bdb_ok B" "peer_inv cr B p" and ok: "peer_store cr B nid m p = (Inr True, p\<lparr>pd_handle := h\<rparr>)"
    "db_put B (pd_handle p) (peer_key p nid) m = Some h" "rec_id cr m = nid"
  moreover have "db_get B h = (db_get B (pd_handle p))(peer_key p nid \<mapsto> m)"
    using calculation by (blast intro: bdb_okD(1))
  ultimately show ?thesis by (simp add: peer_inv_def)
qed auto

lemma peer_store_node_id: "pd_node_id (snd (peer_store cr B nid m p)) = pd_node_id p"
  by (simp add: peer_store_def Let_def split: option.splits)

lemma peer_fetch_by_endpoint_Some:
  assumes "bdb_ok B" "peer_fetch_by_endpoint B p ep = Some (nid, r)"
  obtains k where "db_get B (pd_handle p) k = Some r" "last_ep r = ep" "nid = xor (of_le_bytes k) (pd_node_id p)"
proof -
  obtain k where f: "find (\<lambda>(k, v). get_peer_ep v = ep) (db_index B (pd_handle p)) = Some (k, r)"
    and n: "nid = xor (of_le_bytes k) (pd_node_id p)"
    using assms(2) by (auto simp: peer_fetch_by_endpoint_def split: option.splits)
  then have "(k, r) \<in> set (db_index B (pd_handle p))" "get_peer_ep r = ep"
    by (auto simp: find_Some_iff in_set_conv_nth)
  then show ?thesis using that n bdb_okD(2, 4) [OF assms(1)] by (auto simp: get_peer_ep_def)
qed

lemma peer_fetch_by_endpoint_None:
  assumes "bdb_ok B"
  shows "peer_fetch_by_endpoint B p ep = None \<longleftrightarrow> (\<forall>k r. db_get B (pd_handle p) k = Some r \<longrightarrow> last_ep r \<noteq> ep)"
proof -
  have f: "peer_fetch_by_endpoint B p ep = None \<longleftrightarrow> \<not> (\<exists>k r. (k, r) \<in> set (db_index B (pd_handle p)) \<and> last_ep r = ep)"
    using find_None_iff [of "\<lambda>(k, v). get_peer_ep v = ep" "db_index B (pd_handle p)"]
    by (force simp: peer_fetch_by_endpoint_def get_peer_ep_def split: option.splits prod.splits)
  have "(\<exists>k r. (k, r) \<in> set (db_index B (pd_handle p)) \<and> last_ep r = ep) \<longleftrightarrow>
        (\<exists>k r. db_get B (pd_handle p) k = Some r \<and> last_ep r = ep)"
    using bdb_okD(2, 4) [OF assms] by simp
  then show ?thesis unfolding f by blast
qed

lemma peer_fetch_by_endpoint_id:
  assumes "bdb_ok B" "peer_inv cr B p" "peer_fetch_by_endpoint B p ep = Some (nid, r)"
  shows "nid = rec_id cr r" "last_ep r = ep"
proof -
  obtain k where k: "db_get B (pd_handle p) k = Some r" "last_ep r = ep" "nid = xor (of_le_bytes k) (pd_node_id p)"
    by (rule peer_fetch_by_endpoint_Some [OF assms(1, 3)])
  then have "k = peer_key p (rec_id cr r)" using assms(2) by (auto simp: peer_inv_def)
  then show "nid = rec_id cr r" using k(3) peer_key_id [of p "rec_id cr r"] by simp
  show "last_ep r = ep" by (rule k(2))
qed

text \<open>
  From a database in which every record lies under the hash of its public key, a successful
  \<open>store\<close> leads to such a database, makes the peer known, and an endpoint lookup then returns
  a record with that endpoint whose id is the hash of its public key; the stored peer is no longer
  found under any other endpoint. A \<open>store\<close> that throws changes nothing.
\<close>

theorem peer_store_lookup:
  assumes "bdb_ok B" "peer_inv cr B p" "peer_store cr B nid m p = (r, p')"
  shows "peer_inv cr B p' \<and>
    (case r of Inl e \<Rightarrow> p' = p
     | Inr b \<Rightarrow> b \<and> rec_id cr m = nid \<and> peer_exists B p' nid \<and>
         (\<exists>nid' r'. peer_fetch_by_endpoint B p' (last_ep m) = Some (nid', r') \<and> nid' = rec_id cr r' \<and> last_ep r' = last_ep m) \<and>
         (\<forall>ep nid' r'. peer_fetch_by_endpoint B p' ep = Some (nid', r') \<and> nid' = nid \<longrightarrow> r' = m \<and> ep = last_ep m))"
proof -
  have inv: "peer_inv cr B p'" using peer_store_inv [OF assms(1, 2), of nid m] assms(3) by simp
  show ?thesis
  proof (rule peer_store_cases [OF assms(1), of cr nid m p])
    fix t assume "peer_store cr B nid m p = (Inl (Throw t), p)"
    then show ?thesis using assms(3) inv by auto
  next
    fix h assume ok: "peer_store cr B nid m p = (Inr True, p\<lparr>pd_handle := h\<rparr>)"
      "db_put B (pd_handle p) (peer_key p nid) m = Some h" "rec_id cr m = nid"
    then have p': "p' = p\<lparr>pd_handle := h\<rparr>" "r = Inr True" using assms(3) by simp_all
    have g: "db_get B (pd_handle p') (peer_key p' nid) = Some m"
      using bdb_okD(1) [OF assms(1) ok(2)] by (simp add: p')
    have ex: "peer_exists B p' nid" using g by (simp add: peer_exists_def)
    obtain nid' r' where f: "peer_fetch_by_endpoint B p' (last_ep m) = Some (nid', r')"
      using peer_fetch_by_endpoint_None [OF assms(1), of p' "last_ep m"] g by fastforce
    have "\<forall>ep nid' r'. peer_fetch_by_endpoint B p' ep = Some (nid', r') \<and> nid' = nid \<longrightarrow> r' = m \<and> ep = last_ep m"
    proof (intro allI impI, elim conjE)
      fix ep nid' r' assume a: "peer_fetch_by_endpoint B p' ep = Some (nid', r')" "nid' = nid"
      obtain k where k: "db_get B (pd_handle p') k = Some r'" "last_ep r' = ep"
        using peer_fetch_by_endpoint_Some [OF assms(1) a(1)] by blast
      have "rec_id cr r' = nid" using peer_fetch_by_endpoint_id(1) [OF assms(1) inv a(1)] a(2) by simp
      then have "k = peer_key p' nid" using inv k(1) unfolding peer_inv_def by blast
      then show "r' = m \<and> ep = last_ep m" using g k by simp
    qed
    then show ?thesis
      using inv ok(3) ex f peer_fetch_by_endpoint_id [OF assms(1) inv f] p'(2) by auto
  qed
qed

text \<open>
  \<open>fetch\<close> never finds a stored peer. It returns false, and leaves the caller's record as it was, for
  every id, whatever has been stored.
\<close>

theorem peer_fetch_never_finds:
  assumes "peer_inv cr B p"
  shows "peer_fetch B p nid r = Inr (False, r)"
proof (cases "db_get B (pd_handle p) []")
  case (Some v)
  then have "[] = peer_key p (rec_id cr v)" using assms by (simp add: peer_inv_def)
  then have "length ([] :: byte list) = 20" by (metis length_peer_key)
  then show ?thesis by simp
qed (simp add: peer_fetch_def)

section \<open>A database in memory\<close>

text \<open>Association lists have the behaviour the library documents; the witnesses use them.\<close>

definition list_bdb :: "((byte list \<times> 'v) list, 'v) bdb" where
  "list_bdb = \<lparr>db_get = map_of, db_put = (\<lambda>h k v. Some (AList.update k v h)),
     db_recs = AList.clearjunk, db_index = AList.clearjunk\<rparr>"

lemma list_bdb_ok: "bdb_ok list_bdb"
  by (auto simp: bdb_ok_def list_bdb_def update_conv' distinct_clearjunk map_of_clearjunk
      simp flip: map_of_eq_Some_iff [OF distinct_clearjunk])

definition demo_peer :: "byte \<Rightarrow> endpoint \<Rightarrow> peer_record" where
  "demo_peer k ep = empty_record\<lparr>public_key := k # replicate 255 0, last_ep := ep\<rparr>"

definition demo_peers :: "(byte list \<times> peer_record) list peer_db" where
  "demo_peers = \<lparr>pd_node_id = 5, pd_handle = []\<rparr>"

lemma demo_peers_inv: "peer_inv cr list_bdb demo_peers"
  by (simp add: peer_inv_def demo_peers_def list_bdb_def)

theorem peer_store_lookup_witness:
  "\<exists>p'. peer_store demo_crypto list_bdb (rec_id demo_crypto (demo_peer 9 (1, 2))) (demo_peer 9 (1, 2)) demo_peers = (Inr True, p') \<and>
     peer_exists list_bdb p' (rec_id demo_crypto (demo_peer 9 (1, 2)))"
proof -
  let ?r = "demo_peer 9 (1, 2)"
  obtain x p' where s: "peer_store demo_crypto list_bdb (rec_id demo_crypto ?r) ?r demo_peers = (x, p')"
    by (cases "peer_store demo_crypto list_bdb (rec_id demo_crypto ?r) ?r demo_peers")
  then have "\<exists>b. x = Inr b"
    by (rule_tac peer_store_cases [OF list_bdb_ok, of demo_crypto "rec_id demo_crypto ?r" ?r demo_peers])
       (auto simp: peer_store_def rec_id_def list_bdb_def demo_peers_def)
  then show ?thesis using peer_store_lookup [OF list_bdb_ok demo_peers_inv s] s by auto
qed

theorem peer_fetch_never_finds_witness:
  "peer_inv demo_crypto list_bdb demo_peers \<and> peer_fetch list_bdb demo_peers 7 empty_record = Inr (False, empty_record)"
  using demo_peers_inv peer_fetch_never_finds [OF demo_peers_inv [of demo_crypto], of 7 empty_record] by blast

end
