(* ===== verification/Kbucket.thy ===== *)
theory Kbucket
  imports Peer_Db
begin

text \<open>
  The routing table of src/kbucket.cpp: 161 buckets of connections, by the number of bits of the
  distance of the remote id from the local one. A connection pointer is a number; what the code
  reads through it (the remote id, the peer record) is an argument here and comes from the
  connection store in the theory of the node.
\<close>

section \<open>State and operations\<close>

record kbucket =
  kb_count :: u32
  kb_node_id :: sha1
  kb_buckets :: "nat list list"

text \<open>The constructor leaves the count as it finds the memory: \<open>garbage\<close>.\<close>

definition kb_new :: "u32 \<Rightarrow> kbucket" where
  "kb_new garbage = \<lparr>kb_count = garbage, kb_node_id = 0, kb_buckets = replicate 161 []\<rparr>"

definition kb_set_id :: "sha1 \<Rightarrow> kbucket \<Rightarrow> kbucket" where
  "kb_set_id nid kb = kb\<lparr>kb_node_id := nid\<rparr>"

definition calc_bucket :: "crypto \<Rightarrow> sha1 \<Rightarrow> int" where
  "calc_bucket cr dist = 161 - big_log2 cr dist"

definition get_bucket_id_for_target :: "crypto \<Rightarrow> kbucket \<Rightarrow> sha1 \<Rightarrow> int" where
  "get_bucket_id_for_target cr kb target = calc_bucket cr (xor target (kb_node_id kb))"

text \<open>\<open>operator[]\<close> of the vector of buckets does not check its index.\<close>

definition get_bucket :: "kbucket \<Rightarrow> int \<Rightarrow> nat list res" where
  "get_bucket kb bid =
     (if 0 \<le> bid \<and> bid < int (length (kb_buckets kb)) then Inr (kb_buckets kb ! nat bid)
      else Inl (Undefined ''bucket index out of range''))"

definition get_bucket_for_target :: "crypto \<Rightarrow> kbucket \<Rightarrow> sha1 \<Rightarrow> nat list res" where
  "get_bucket_for_target cr kb target = get_bucket kb (calc_bucket cr (xor target (kb_node_id kb)))"

definition get_bucket_at_dist :: "crypto \<Rightarrow> kbucket \<Rightarrow> sha1 \<Rightarrow> nat list res" where
  "get_bucket_at_dist cr kb dist = get_bucket kb (calc_bucket cr dist)"

definition put_bucket :: "int \<Rightarrow> nat list \<Rightarrow> kbucket \<Rightarrow> kbucket" where
  "put_bucket bid l kb = kb\<lparr>kb_buckets := (kb_buckets kb)[nat bid := l]\<rparr>"

definition kb_add :: "crypto \<Rightarrow> nat \<Rightarrow> sha1 \<Rightarrow> (kbucket, unit) cmd" where
  "kb_add cr c rid kb =
     (case get_bucket_for_target cr kb rid of
        Inl e \<Rightarrow> (Inl e, kb)
      | Inr buck \<Rightarrow>
          (Inr (), (put_bucket (get_bucket_id_for_target cr kb rid) (buck @ [c]) kb)\<lparr>kb_count := kb_count kb + 1\<rparr>))"

definition kb_remove :: "crypto \<Rightarrow> nat \<Rightarrow> sha1 \<Rightarrow> (kbucket, unit) cmd" where
  "kb_remove cr c rid kb =
     (case get_bucket_for_target cr kb rid of
        Inl e \<Rightarrow> (Inl e, kb)
      | Inr buck \<Rightarrow>
          if c \<in> set buck
          then (Inr (), (put_bucket (get_bucket_id_for_target cr kb rid) (remove1 c buck) kb)\<lparr>kb_count := kb_count kb - 1\<rparr>)
          else (Inr (), kb))"

text \<open>Seven counts of the peers the record beats, summed over all buckets, over seven times the count.\<close>

definition beats :: "peer_record \<Rightarrow> peer_record \<Rightarrow> u64" where
  "beats r br =
     of_bool (recv_credit br < recv_credit r) + of_bool (total_btc_recv br < total_btc_recv r) +
     of_bool (rank br < rank r) + of_bool (last_contact r < last_contact br) +
     of_bool (avg_rtt_us r < avg_rtt_us br) + of_bool (est_bandwidth br < est_bandwidth r) +
     of_bool (firewalled br \<noteq> 0 \<and> firewalled r = 0)"

definition flt_div :: "int \<Rightarrow> int \<Rightarrow> flt" where
  "flt_div n d = (if d = 0 then if n = 0 then NaN else Inf else Fin n d)"

definition update_priority :: "(nat \<Rightarrow> peer_record) \<Rightarrow> nat \<Rightarrow> kbucket \<Rightarrow> peer_record" where
  "update_priority rec_of c kb =
     (let total = fold (\<lambda>buck t. fold (\<lambda>b t. t + beats (rec_of c) (rec_of b)) buck t) (kb_buckets kb) 0
      in (rec_of c)\<lparr>priority := flt_div (uint total) (7 * uint (kb_count kb))\<rparr>)"

fun flt_gt :: "flt \<Rightarrow> flt \<Rightarrow> bool" where
  "flt_gt NaN _ = False"
| "flt_gt _ NaN = False"
| "flt_gt Inf Inf = False"
| "flt_gt Inf (Fin _ _) = True"
| "flt_gt (Fin _ _) Inf = False"
| "flt_gt (Fin a b) (Fin c d) = (a * d > c * b)"

primrec insert_desc :: "(nat \<Rightarrow> flt) \<Rightarrow> nat \<Rightarrow> nat list \<Rightarrow> nat list" where
  "insert_desc pr c [] = [c]"
| "insert_desc pr c (d # ds) = (if flt_gt (pr c) (pr d) then c # d # ds else d # insert_desc pr c ds)"

text \<open>The loop of \<open>resort_buckets\<close> sorts the bucket its iterator points to and does not advance it.\<close>

partial_function (option) resort_loop :: "(nat \<Rightarrow> flt) \<Rightarrow> nat \<Rightarrow> nat list list \<Rightarrow> nat list list option" where
  "resort_loop pr b bs =
     (if b = length bs then Some bs
      else resort_loop pr b (bs[b := fold (insert_desc pr) (bs ! b) []]))"

definition resort_buckets :: "(nat \<Rightarrow> flt) \<Rightarrow> kbucket \<Rightarrow> kbucket option" where
  "resort_buckets pr kb =
     (case resort_loop pr 0 (kb_buckets kb) of None \<Rightarrow> None | Some bs \<Rightarrow> Some (kb\<lparr>kb_buckets := bs\<rparr>))"

section \<open>The XOR metric\<close>

lemma log2_bits:
  assumes "log2_ok cr" "d \<noteq> (0 :: sha1)" "l = nat (big_log2 cr d)"
  shows "0 < l" "l \<le> 160" "bit d (l - 1)" "\<And>k. l \<le> k \<Longrightarrow> \<not> bit d k"
proof -
  have b: "0 < big_log2 cr d" "unat d < 2 ^ l" "2 ^ (l - 1) \<le> unat d"
    using assms by (auto simp: log2_ok_def)
  show l: "0 < l" using b(1) assms(3) by simp
  have "(2 :: nat) ^ (l - 1) < 2 ^ 160" using le_less_trans [OF b(3) unsigned_less [of d]] by simp
  then have "l - 1 < 160" by (rule power_less_imp_less_exp [rotated]) simp
  then show "l \<le> 160" by simp
  have hi: "\<not> bit (unat d) k" if "l \<le> k" for k
  proof -
    have "unat d < 2 ^ k" using less_le_trans [OF b(2) power_increasing [OF that]] by simp
    then show ?thesis by (simp add: bit_iff_odd)
  qed
  show "\<not> bit d k" if "l \<le> k" for k
    using hi [OF that] bit_imp_le_length [of d k] by (auto simp: bit_unsigned_iff)
  have "unat d div 2 ^ (l - 1) = 1"
  proof -
    have "unat d < 2 * 2 ^ (l - 1)" using b(2) l by (simp flip: power_Suc)
    then show ?thesis using b(3) by (simp add: div_nat_eqI)
  qed
  then have "bit (unat d) (l - 1)" by (simp add: bit_iff_odd)
  then show "bit d (l - 1)" by (simp add: bit_unsigned_iff)
qed

lemma word_less_top_bit:
  fixes a b :: "'a::len word"
  assumes "bit b n" "\<And>k. n \<le> k \<Longrightarrow> \<not> bit a k"
  shows "a < b"
proof -
  have "take_bit n a = a"
    using assms(2) by (intro bit_word_eqI) (auto simp: bit_take_bit_iff not_le [symmetric])
  then have "unat a < 2 ^ n" by (metis unsigned_take_bit_eq take_bit_nat_less_exp)
  moreover have "2 ^ n \<le> unat b"
  proof (rule ccontr)
    assume "\<not> 2 ^ n \<le> unat b"
    then have "unat b div 2 ^ n = 0" by simp
    then have "\<not> bit (unat b) n" by (simp add: bit_iff_odd)
    then show False using assms(1) bit_imp_le_length [OF assms(1)] by (simp add: bit_unsigned_iff)
  qed
  ultimately show ?thesis by (simp add: word_less_nat_alt)
qed

lemma xor_less_by_bits:
  assumes ok: "log2_ok cr" and nz: "x \<noteq> 0" "y \<noteq> 0" "t \<noteq> (0 :: sha1)"
    and "max (nat (big_log2 cr x)) (nat (big_log2 cr t)) < max (nat (big_log2 cr y)) (nat (big_log2 cr t))
         \<or> (nat (big_log2 cr x) = nat (big_log2 cr t) \<and> nat (big_log2 cr y) \<noteq> nat (big_log2 cr t))"
  shows "xor x t < xor y t"
proof -
  define lx ly lt where l: "lx = nat (big_log2 cr x)" "ly = nat (big_log2 cr y)" "lt = nat (big_log2 cr t)"
  note bx = log2_bits [OF ok nz(1) l(1)] and b_y = log2_bits [OF ok nz(2) l(2)] and bt = log2_bits [OF ok nz(3) l(3)]
  have neq: "ly \<noteq> lt" using assms(5) by (auto simp: l)
  define m where "m = max ly lt - 1"
  have top: "bit (xor y t) m"
    using neq b_y bt by (cases "ly < lt") (auto simp: m_def bit_xor_iff max_def)
  have low: "\<not> bit (xor x t) k" if "m \<le> k" for k
  proof (cases "lx = lt")
    case True
    show ?thesis
    proof (cases "k = lt - 1")
      case True
      then show ?thesis using \<open>lx = lt\<close> bx(3) bt(3) by (simp add: bit_xor_iff)
    next
      case False
      then have "lt \<le> k" using that bt(1) by (simp add: m_def)
      then show ?thesis using bx(4) [of k] bt(4) [of k] \<open>lx = lt\<close> by (simp add: bit_xor_iff)
    qed
  next
    case False
    then have "max lx lt < max ly lt" using assms(5) by (simp only: l) blast
    then have "max lx lt \<le> k" using that unfolding m_def by linarith
    then show ?thesis using bx(4) [of k] bt(4) [of k] by (simp add: bit_xor_iff)
  qed
  show ?thesis by (rule word_less_top_bit [OF top low])
qed

lemma calc_bucket_range:
  assumes "log2_ok cr"
  shows "d \<noteq> 0 \<Longrightarrow> 1 \<le> calc_bucket cr d \<and> calc_bucket cr d \<le> 160" and "calc_bucket cr 0 = 161"
proof -
  show "calc_bucket cr 0 = 161" using assms by (simp add: log2_ok_def calc_bucket_def)
  show "1 \<le> calc_bucket cr d \<and> calc_bucket cr d \<le> 160" if "d \<noteq> 0"
    using log2_bits(1, 2) [OF assms that refl] by (auto simp: calc_bucket_def)
qed

lemma xor_xor_cancel: "xor (xor a n) (xor b n) = xor a (b :: sha1)"
proof -
  have "xor (xor a n) (xor b n) = xor (xor a b) (xor n n)" by (simp only: ac_simps)
  then show ?thesis by simp
qed

lemma xor_eq_0_iff: "xor a b = 0 \<longleftrightarrow> a = (b :: sha1)"
proof
  assume "xor a b = 0"
  then have "xor (xor a b) b = b" by simp
  then show "a = b" by (simp add: xor.assoc)
qed simp

text \<open>
  The bucket number orders peers by distance. Relative to the local id \<open>n\<close>, a peer in the bucket
  of the target is strictly closer to the target than every peer of another bucket, and a peer of
  a bucket with a higher number (closer to the local node) is strictly closer to the target than
  every peer of a bucket with a lower number than the target's.
\<close>

theorem kbucket_metric:
  assumes "log2_ok cr" "x \<noteq> n" "y \<noteq> n" "t \<noteq> n"
    and "calc_bucket cr (xor y n) \<noteq> calc_bucket cr (xor t n)"
    and "calc_bucket cr (xor x n) = calc_bucket cr (xor t n)
         \<or> (calc_bucket cr (xor t n) < calc_bucket cr (xor x n) \<and> calc_bucket cr (xor y n) < calc_bucket cr (xor t n))"
  shows "xor x t < xor y t"
proof -
  have nz: "xor x n \<noteq> 0" "xor y n \<noteq> 0" "xor t n \<noteq> 0" using assms(2-4) by (simp_all add: xor_eq_0_iff)
  have pos: "0 < big_log2 cr (xor x n)" "0 < big_log2 cr (xor y n)" "0 < big_log2 cr (xor t n)"
    using log2_bits(1) [OF assms(1) nz(1) refl] log2_bits(1) [OF assms(1) nz(2) refl] log2_bits(1) [OF assms(1) nz(3) refl]
    by simp_all
  have "xor (xor x n) (xor t n) < xor (xor y n) (xor t n)"
    using assms(5, 6) pos by (intro xor_less_by_bits [OF assms(1) nz]) (auto simp: calc_bucket_def)
  then show ?thesis by (simp only: xor_xor_cancel)
qed

section \<open>Adding and removing\<close>

definition kb_wf :: "kbucket \<Rightarrow> bool" where
  "kb_wf kb \<longleftrightarrow> length (kb_buckets kb) = 161"

lemma kb_wf_keeps: "keeps kb_wf (kb_add cr c rid)" "keeps kb_wf (kb_remove cr c rid)"
  by (auto simp: keeps_def kb_wf_def kb_add_def kb_remove_def put_bucket_def split: sum.splits)

lemma get_bucket_for_target_ok:
  assumes "log2_ok cr" "kb_wf kb" "rid \<noteq> kb_node_id kb"
  shows "get_bucket_for_target cr kb rid = Inr (kb_buckets kb ! nat (get_bucket_id_for_target cr kb rid))"
    and "nat (get_bucket_id_for_target cr kb rid) < length (kb_buckets kb)"
proof -
  have "xor rid (kb_node_id kb) \<noteq> 0" using assms(3) by (simp add: xor_eq_0_iff)
  then have "1 \<le> calc_bucket cr (xor rid (kb_node_id kb)) \<and> calc_bucket cr (xor rid (kb_node_id kb)) \<le> 160"
    by (rule calc_bucket_range(1) [OF assms(1)])
  then show "get_bucket_for_target cr kb rid = Inr (kb_buckets kb ! nat (get_bucket_id_for_target cr kb rid))"
    and "nat (get_bucket_id_for_target cr kb rid) < length (kb_buckets kb)"
    using assms(2) by (auto simp: get_bucket_for_target_def get_bucket_def get_bucket_id_for_target_def kb_wf_def nat_less_iff)
qed

text \<open>
  \<open>add\<close> of a peer that is not the node itself puts it at the end of the bucket of its distance, in no other
  bucket, and \<open>remove\<close> then restores the table; for the node's own id both index the vector of 161
  buckets at 161.
\<close>

theorem kbucket_add_remove:
  assumes "log2_ok cr" "kb_wf kb" "\<forall>l \<in> set (kb_buckets kb). c \<notin> set l"
  shows "if rid = kb_node_id kb
         then kb_add cr c rid kb = (Inl (Undefined ''bucket index out of range''), kb)
           \<and> kb_remove cr c rid kb = (Inl (Undefined ''bucket index out of range''), kb)
         else \<exists>kb' i. kb_add cr c rid kb = (Inr (), kb') \<and> kb_wf kb' \<and> 1 \<le> i \<and> i \<le> 160
           \<and> i = nat (161 - big_log2 cr (xor rid (kb_node_id kb)))
           \<and> (\<forall>j < 161. c \<in> set (kb_buckets kb' ! j) \<longleftrightarrow> j = i)
           \<and> kb_remove cr c rid kb' = (Inr (), kb)"
proof (cases "rid = kb_node_id kb")
  case True
  then have "calc_bucket cr (xor rid (kb_node_id kb)) = 161" using calc_bucket_range(2) [OF assms(1)] by simp
  then show ?thesis
    using True assms(2) by (simp add: kb_add_def kb_remove_def get_bucket_for_target_def get_bucket_def kb_wf_def)
next
  case False
  define i where "i = nat (get_bucket_id_for_target cr kb rid)"
  note g = get_bucket_for_target_ok [OF assms(1, 2) False, folded i_def]
  have r: "1 \<le> i" "i \<le> 160"
    using calc_bucket_range(1) [OF assms(1), of "xor rid (kb_node_id kb)"] False
    by (simp_all add: i_def get_bucket_id_for_target_def xor_eq_0_iff nat_le_iff le_nat_iff)
  define kb' where "kb' = (put_bucket (get_bucket_id_for_target cr kb rid) (kb_buckets kb ! i @ [c]) kb)\<lparr>kb_count := kb_count kb + 1\<rparr>"
  have a: "kb_add cr c rid kb = (Inr (), kb')" using g(1) by (simp add: kb_add_def kb'_def)
  have bs: "kb_buckets kb' = (kb_buckets kb)[i := kb_buckets kb ! i @ [c]]"
    by (simp add: kb'_def put_bucket_def i_def)
  have wf: "kb_wf kb'" using assms(2) bs by (simp add: kb_wf_def)
  have id': "get_bucket_id_for_target cr kb' rid = get_bucket_id_for_target cr kb rid" "kb_node_id kb' = kb_node_id kb"
    by (simp_all add: get_bucket_id_for_target_def kb'_def put_bucket_def)
  have new: "c \<notin> set (kb_buckets kb ! j)" if "j < 161" for j
    using assms(2, 3) that by (simp add: kb_wf_def)
  have "kb_remove cr c rid kb' = (Inr (), kb)"
    using get_bucket_for_target_ok(1) [OF assms(1) wf, of rid] False g(2) new [of i] r bs id'
    by (simp add: kb_remove_def i_def [symmetric] put_bucket_def remove1_append)
       (simp add: kb'_def put_bucket_def i_def)
  moreover have "\<forall>j < 161. c \<in> set (kb_buckets kb' ! j) \<longleftrightarrow> j = i"
    using new g(2) assms(2) by (auto simp: bs nth_list_update kb_wf_def)
  ultimately show ?thesis
    using False a wf r by (auto simp: i_def get_bucket_id_for_target_def calc_bucket_def intro!: exI [of _ kb'])
qed

lemma resort_loop_None: "resort_loop pr b bs = Some r \<Longrightarrow> b = length bs"
  by (erule resort_loop.raw_induct [rotated]) (metis length_list_update)

text \<open>
  \<open>resort_buckets\<close> does not return: as long as there is a bucket (and there are always 161), the
  loop sorts the first one for ever.
\<close>

theorem resort_buckets_diverges:
  assumes "kb_wf kb"
  shows "resort_buckets pr kb = None"
  using resort_loop_None [of pr 0 "kb_buckets kb"] assms
  by (cases "resort_loop pr 0 (kb_buckets kb)") (auto simp: resort_buckets_def kb_wf_def)

section \<open>Witnesses\<close>

definition demo_kb :: kbucket where
  "demo_kb = kb_set_id 5 (kb_new 0)"

lemma demo_kb_wf: "kb_wf demo_kb"
  by (simp add: demo_kb_def kb_set_id_def kb_new_def kb_wf_def)

theorem kbucket_metric_witness: "xor (7 :: sha1) 6 < xor 1024 (6 :: sha1)"
  by (rule kbucket_metric [OF demo_log2_ok, of 7 5])
     (simp_all add: demo_crypto_def calc_bucket_def bit_count.simps)

theorem kbucket_add_remove_witness:
  "\<exists>kb'. kb_add demo_crypto 3 9 demo_kb = (Inr (), kb') \<and> kb_remove demo_crypto 3 9 kb' = (Inr (), demo_kb)"
proof -
  have "\<forall>l \<in> set (kb_buckets demo_kb). 3 \<notin> set l" by (simp add: demo_kb_def kb_set_id_def kb_new_def)
  from kbucket_add_remove [OF demo_log2_ok demo_kb_wf this, of 9] show ?thesis
    by (auto simp: demo_kb_def kb_set_id_def)
qed

theorem resort_buckets_diverges_witness: "kb_wf demo_kb \<and> resort_buckets (\<lambda>_. NaN) demo_kb = None"
  using demo_kb_wf resort_buckets_diverges [OF demo_kb_wf] by simp

end
