(* ===== verification/Messages.thy ===== *)
theory Messages
  imports Udt_Packets Peer_Db
begin

text \<open>
  The messages two connections exchange inside encrypted frames, with the stream operations of
  src/connection.cpp that write and read them: the authentication message, the route lookup and
  its reply, the endpoint of the two reverse-connect messages and the channel header of a data
  message.
\<close>

section \<open>Byte fields\<close>

definition wr_bytes :: "nat \<Rightarrow> byte list \<Rightarrow> writer" where
  "wr_bytes n bs = ds_write bs (of_nat n)"

definition rd_bytes :: "nat \<Rightarrow> (byte list \<Rightarrow> 'a \<Rightarrow> 'a) \<Rightarrow> 'a reader" where
  "rd_bytes n upd = (\<lambda>(x, ds).
     case ds_read (of_nat n) ds of
       (Inr bs, ds') \<Rightarrow> (Inr (), (upd bs x, ds'))
     | (Inl e, ds') \<Rightarrow> (Inl e, (x, ds')))"

lemma writes_bytes: "n < 2 ^ 31 \<Longrightarrow> length bs = n \<Longrightarrow> writes (wr_bytes n bs) bs"
  by (auto simp: writes_def wr_bytes_def ds_write_exact)

lemma reads_bytes:
  assumes "n < 2 ^ 31" "length bs = n"
  shows "reads (rd_bytes n upd) (upd bs) bs"
  unfolding reads_def
proof (intro allI impI)
  fix ds :: datastream and r x
  assume d: "drop (ds_pos ds) (ds_mem ds) = bs @ r \<and> ds_pos ds \<le> length (ds_mem ds)"
  then have "length (ds_mem ds) - ds_pos ds = n + length r"
    using assms(2) by (metis length_append length_drop)
  then have room: "ds_pos ds + n \<le> length (ds_mem ds)" using conjunct2 [OF d] by linarith
  have "take n (drop (ds_pos ds) (ds_mem ds)) = bs" using d assms(2) by simp
  then show "rd_bytes n upd (x, ds) = (Inr (), (upd bs x, ds\<lparr>ds_pos := ds_pos ds + length bs\<rparr>))"
    using room assms(2) by (simp add: rd_bytes_def ds_read_exact [OF assms(1)])
qed

section \<open>Authentication\<close>

text \<open>\<open>sig pub_key utc nonce[2] ip port\<close>\<close>

record auth_packet =
  au_sig :: "byte list"
  au_pubk :: "byte list"
  au_utc :: u64
  au_nonce :: "u64 \<times> u64"
  au_ip :: u32
  au_port :: u16

definition auth_write :: "crypto \<Rightarrow> auth_packet \<Rightarrow> writer" where
  "auth_write cr a =
     andthen (wr_bytes (sig_size cr) (au_sig a))
    (andthen (wr_bytes (pk_size cr) (au_pubk a))
    (andthen (wr_field 8 (au_utc a))
    (andthen (wr_field 8 (fst (au_nonce a)))
    (andthen (wr_field 8 (snd (au_nonce a)))
    (andthen (wr_field 4 (au_ip a))
             (wr_field 2 (au_port a)))))))"

definition auth_read :: "crypto \<Rightarrow> auth_packet reader" where
  "auth_read cr =
     andthen (rd_bytes (sig_size cr) (\<lambda>v a. a\<lparr>au_sig := v\<rparr>))
    (andthen (rd_bytes (pk_size cr) (\<lambda>v a. a\<lparr>au_pubk := v\<rparr>))
    (andthen (rd_field 8 (\<lambda>v a. a\<lparr>au_utc := v\<rparr>))
    (andthen (rd_field 8 (\<lambda>v a. a\<lparr>au_nonce := (v, snd (au_nonce a))\<rparr>))
    (andthen (rd_field 8 (\<lambda>v a. a\<lparr>au_nonce := (fst (au_nonce a), v)\<rparr>))
    (andthen (rd_field 4 (\<lambda>v a. a\<lparr>au_ip := v\<rparr>))
             (rd_field 2 (\<lambda>v a. a\<lparr>au_port := v\<rparr>)))))))"

definition auth_enc :: "auth_packet \<Rightarrow> byte list" where
  "auth_enc a = au_sig a @ au_pubk a @ le_bytes 8 (au_utc a) @ le_bytes 8 (fst (au_nonce a)) @
     le_bytes 8 (snd (au_nonce a)) @ le_bytes 4 (au_ip a) @ le_bytes 2 (au_port a)"

definition auth_ok :: "crypto \<Rightarrow> auth_packet \<Rightarrow> bool" where
  "auth_ok cr a \<longleftrightarrow> length (au_sig a) = sig_size cr \<and> length (au_pubk a) = pk_size cr \<and>
     sig_size cr < 2 ^ 31 \<and> pk_size cr < 2 ^ 31"

definition auth_size :: "crypto \<Rightarrow> nat" where
  "auth_size cr = sig_size cr + pk_size cr + 8 + 16 + 6"

definition auth_zero :: auth_packet where
  "auth_zero = \<lparr>au_sig = [], au_pubk = [], au_utc = 0, au_nonce = (0, 0), au_ip = 0, au_port = 0\<rparr>"

lemma writes_auth: "auth_ok cr a \<Longrightarrow> writes (auth_write cr a) (auth_enc a)"
  unfolding auth_write_def auth_enc_def auth_ok_def
  by (intro writes_andthen writes_field writes_bytes) simp_all

lemma reads_auth: "auth_ok cr a \<Longrightarrow> reads (auth_read cr) (\<lambda>_. a) (auth_enc a)"
  unfolding auth_read_def auth_enc_def auth_ok_def
  by (rule reads_cong, (rule reads_andthen reads_field reads_bytes | simp)+)

lemma length_auth_enc: "auth_ok cr a \<Longrightarrow> length (auth_enc a) = auth_size cr"
  by (simp add: auth_enc_def auth_ok_def auth_size_def)

section \<open>Route lookup and reply\<close>

record lookup_packet =
  lk_target :: sha1
  lk_num :: u32
  lk_l :: byte
  lk_limit :: sha1

definition lookup_write :: "lookup_packet \<Rightarrow> writer" where
  "lookup_write p =
     andthen (wr_field 20 (lk_target p)) (andthen (wr_field 4 (lk_num p)) (andthen (wr_field 1 (lk_l p))
       (whenc (lk_l p \<noteq> 0) (wr_field 20 (lk_limit p)))))"

definition lookup_read :: "lookup_packet reader" where
  "lookup_read =
     andthen (rd_field 20 (\<lambda>v p. p\<lparr>lk_target := v\<rparr>)) (andthen (rd_field 4 (\<lambda>v p. p\<lparr>lk_num := v\<rparr>))
    (andthen (rd_field 1 (\<lambda>v p. p\<lparr>lk_l := v\<rparr>))
       (\<lambda>(p, ds). if lk_l p \<noteq> 0 then rd_field 20 (\<lambda>v p. p\<lparr>lk_limit := v\<rparr>) (p, ds) else (Inr (), (p, ds)))))"

definition lookup_enc :: "lookup_packet \<Rightarrow> byte list" where
  "lookup_enc p = le_bytes 20 (lk_target p) @ le_bytes 4 (lk_num p) @ le_bytes 1 (lk_l p) @
     (if lk_l p \<noteq> 0 then le_bytes 20 (lk_limit p) else [])"

text \<open>The request for \<open>n\<close> nodes near a target, with or without a limit, and its buffer size.\<close>

definition lookup_request :: "sha1 \<Rightarrow> u32 \<Rightarrow> sha1 option \<Rightarrow> lookup_packet" where
  "lookup_request target n limit = \<lparr>lk_target = target, lk_num = n, lk_l = of_bool (limit \<noteq> None),
     lk_limit = (case limit of None \<Rightarrow> 0 | Some l \<Rightarrow> l)\<rparr>"

definition lookup_size :: "sha1 option \<Rightarrow> nat" where
  "lookup_size limit = (if limit \<noteq> None then 45 else 25)"

definition lookup_zero :: lookup_packet where
  "lookup_zero = lookup_request 0 0 None"

lemma writes_whenc: "writes m bs \<Longrightarrow> writes (whenc b m) (if b then bs else [])"
  by (simp add: whenc_def writes_ret)

lemma writes_lookup: "writes (lookup_write p) (lookup_enc p)"
  unfolding lookup_write_def lookup_enc_def by (intro writes_andthen writes_field writes_whenc) simp_all

lemma reads_if:
  assumes "\<And>x. P (f x) = b" "reads m f bs" "b \<Longrightarrow> reads n g cs" "\<not> b \<Longrightarrow> cs = []"
  shows "reads (andthen m (\<lambda>(x, ds). if P x then n (x, ds) else (Inr (), (x, ds)))) (\<lambda>x. if b then g (f x) else f x) (bs @ cs)"
proof (cases b)
  case True
  have "reads (andthen m n) (\<lambda>x. g (f x)) (bs @ cs)" using assms(2, 3) True by (intro reads_andthen) auto
  then show ?thesis using assms(1, 2) True unfolding reads_def andthen_def bindc_def by simp
next
  case False
  then show ?thesis using assms unfolding reads_def andthen_def bindc_def by simp
qed

lemma reads_lookup:
  assumes "lk_l p = 0 \<longrightarrow> lk_limit p = 0"
  shows "reads lookup_read (\<lambda>q. p\<lparr>lk_limit := (if lk_l p \<noteq> 0 then lk_limit p else lk_limit q)\<rparr>) (lookup_enc p)"
proof -
  have c: "reads (andthen (rd_field 1 (\<lambda>v p. p\<lparr>lk_l := v\<rparr>))
      (\<lambda>(p, ds). if lk_l p \<noteq> 0 then rd_field 20 (\<lambda>v p. p\<lparr>lk_limit := v\<rparr>) (p, ds) else (Inr (), (p, ds))))
      (\<lambda>x. if lk_l p \<noteq> 0 then (x\<lparr>lk_l := lk_l p\<rparr>)\<lparr>lk_limit := lk_limit p\<rparr> else x\<lparr>lk_l := lk_l p\<rparr>)
      (le_bytes 1 (lk_l p) @ (if lk_l p \<noteq> 0 then le_bytes 20 (lk_limit p) else []))"
    by (rule reads_if [OF _ reads_field [where w = "lk_l p"]]) (auto intro: reads_field)
  show ?thesis
    unfolding lookup_read_def lookup_enc_def
    by (rule reads_cong, rule reads_andthen [OF reads_field [where w = "lk_target p"]
          reads_andthen [OF reads_field [where w = "lk_num p"] c]]) simp_all
qed

lemma length_lookup_enc: "length (lookup_enc (lookup_request t n limit)) = lookup_size limit"
  by (simp add: lookup_enc_def lookup_request_def lookup_size_def)

text \<open>A reply: target, count, then per host the id, the address, the port and whether it is behind a NAT.\<close>

record host =
  host_id :: sha1
  host_ep :: endpoint
  nat_hosts :: "endpoint list"

fun hosts_write :: "host list \<Rightarrow> writer" where
  "hosts_write [] = ret ()"
| "hosts_write (h # r) =
     andthen (wr_field 20 (host_id h)) (andthen (wr_field 4 (fst (host_ep h))) (andthen (wr_field 2 (snd (host_ep h)))
    (andthen (wr_field 1 (of_nat (length (nat_hosts h)) :: byte)) (hosts_write r))))"

definition route_write :: "sha1 \<Rightarrow> host list \<Rightarrow> writer" where
  "route_write target r =
     andthen (wr_field 20 target) (andthen (wr_field 4 (of_nat (length r) :: u32)) (hosts_write r))"

record route_entry =
  re_nid :: sha1
  re_ip :: u32
  re_port :: u16
  re_nat :: byte

definition entry_read :: "route_entry reader" where
  "entry_read =
     andthen (rd_field 20 (\<lambda>v e. e\<lparr>re_nid := v\<rparr>)) (andthen (rd_field 4 (\<lambda>v e. e\<lparr>re_ip := v\<rparr>))
    (andthen (rd_field 2 (\<lambda>v e. e\<lparr>re_port := v\<rparr>)) (rd_field 1 (\<lambda>v e. e\<lparr>re_nat := v\<rparr>))))"

definition entry_host :: "endpoint \<Rightarrow> route_entry \<Rightarrow> host" where
  "entry_host from e = \<lparr>host_id = re_nid e, host_ep = (re_ip e, re_port e),
     nat_hosts = (if re_nat e \<noteq> 0 then [from] else [])\<rparr>"

text \<open>The loop of \<open>handle_route_msg\<close>: the variables of an entry live across its rounds.\<close>

fun hosts_read :: "endpoint \<Rightarrow> nat \<Rightarrow> route_entry \<times> datastream \<Rightarrow> host list res" where
  "hosts_read from 0 s = Inr []"
| "hosts_read from (Suc n) s =
     (case entry_read s of
        (Inl e, _) \<Rightarrow> Inl e
      | (Inr _, s') \<Rightarrow> (case hosts_read from n s' of Inl e \<Rightarrow> Inl e | Inr hs \<Rightarrow> Inr (entry_host from (fst s') # hs)))"

definition entry_zero :: route_entry where
  "entry_zero = \<lparr>re_nid = 0, re_ip = 0, re_port = 0, re_nat = 0\<rparr>"

definition route_header_read :: "(sha1 \<times> u32) reader" where
  "route_header_read = andthen (rd_field 20 (\<lambda>v p. (v, snd p))) (rd_field 4 (\<lambda>v p. (fst p, v)))"

fun hosts_enc :: "host list \<Rightarrow> byte list" where
  "hosts_enc [] = []"
| "hosts_enc (h # r) = le_bytes 20 (host_id h) @ le_bytes 4 (fst (host_ep h)) @ le_bytes 2 (snd (host_ep h)) @
     le_bytes 1 (of_nat (length (nat_hosts h)) :: byte) @ hosts_enc r"

definition route_enc :: "sha1 \<Rightarrow> host list \<Rightarrow> byte list" where
  "route_enc target r = le_bytes 20 target @ le_bytes 4 (of_nat (length r) :: u32) @ hosts_enc r"

lemma writes_hosts: "writes (hosts_write r) (hosts_enc r)"
proof (induction r)
  case (Cons h r)
  show ?case unfolding hosts_write.simps hosts_enc.simps
    by (intro writes_andthen writes_field Cons) simp_all
qed (simp add: writes_ret)

lemma writes_route: "writes (route_write t r) (route_enc t r)"
  unfolding route_write_def route_enc_def by (intro writes_andthen writes_field writes_hosts) simp_all

lemma length_hosts_enc: "length (hosts_enc r) = 27 * length r"
  by (induction r) simp_all

lemma length_route_enc: "length (route_enc t r) = 24 + 27 * length r"
  by (simp add: route_enc_def length_hosts_enc)

lemma reads_entry: "reads entry_read (\<lambda>_. e)
  (le_bytes 20 (re_nid e) @ le_bytes 4 (re_ip e) @ le_bytes 2 (re_port e) @ le_bytes 1 (re_nat e))"
  unfolding entry_read_def by (rule reads_cong, (rule reads_andthen reads_field | simp)+)

text \<open>What the other side makes of a host: it learns whether there are NAT hosts, not which.\<close>

definition host_via :: "endpoint \<Rightarrow> host \<Rightarrow> host" where
  "host_via from h = h\<lparr>nat_hosts := (if (of_nat (length (nat_hosts h)) :: byte) \<noteq> 0 then [from] else [])\<rparr>"

lemma hosts_read_enc:
  assumes "drop (ds_pos ds) (ds_mem ds) = hosts_enc r" "ds_pos ds \<le> length (ds_mem ds)"
  shows "hosts_read from (length r) (e, ds) = Inr (map (host_via from) r)"
  using assms
proof (induction r arbitrary: e ds)
  case (Cons h r)
  define e' where "e' = \<lparr>re_nid = host_id h, re_ip = fst (host_ep h), re_port = snd (host_ep h),
    re_nat = of_nat (length (nat_hosts h))\<rparr>"
  let ?b = "le_bytes 20 (re_nid e') @ le_bytes 4 (re_ip e') @ le_bytes 2 (re_port e') @ le_bytes 1 (re_nat e')"
  let ?ds = "ds\<lparr>ds_pos := ds_pos ds + length ?b\<rparr>"
  have d: "drop (ds_pos ds) (ds_mem ds) = ?b @ hosts_enc r" using Cons.prems(1) by (simp add: e'_def)
  then have r: "entry_read (e, ds) = (Inr (), (e', ?ds))"
    using reads_entry [of e'] Cons.prems(2) unfolding reads_def by blast
  have l: "length (ds_mem ds) - ds_pos ds = 27 + length (hosts_enc r)"
    using arg_cong [OF d, of length] by simp
  then have "drop (ds_pos ?ds) (ds_mem ?ds) = hosts_enc r" "ds_pos ?ds \<le> length (ds_mem ?ds)"
    using d Cons.prems(2) by (simp_all add: drop_drop [symmetric] add.commute [of "ds_pos ds"] del: drop_drop)
  then show ?case
    using Cons.IH [of ?ds e'] r by (simp add: entry_host_def host_via_def e'_def)
qed simp

text \<open>A writer that runs out of room throws.\<close>

definition full_at :: "writer \<Rightarrow> nat \<Rightarrow> bool" where
  "full_at m n \<longleftrightarrow> (\<forall>ds. ds_valid ds \<and> length (ds_mem ds) < ds_pos ds + n \<longrightarrow>
     fst (m ds) = Inl (Throw ''Attempt to write beyond end of buffer''))"

lemma full_at_field: "n < 2 ^ 31 \<Longrightarrow> full_at (wr_field n w) n"
  by (auto simp: full_at_def wr_field_def ds_write_exact)

lemma full_at_andthen:
  assumes "full_at a n" "writes a bs" "length bs = n" "full_at b k"
  shows "full_at (andthen a b) (n + k)"
  unfolding full_at_def
proof (intro allI impI, elim conjE)
  fix ds :: datastream assume v: "ds_valid ds" and f: "length (ds_mem ds) < ds_pos ds + (n + k)"
  show "fst (andthen a b ds) = Inl (Throw ''Attempt to write beyond end of buffer'')"
  proof (cases "length (ds_mem ds) < ds_pos ds + n")
    case True
    then show ?thesis using assms(1) v
      by (auto simp: full_at_def andthen_def bindc_def split: prod.splits sum.splits)
  next
    case False
    then have "a ds = (Inr (), ds\<lparr>ds_mem := overwrite (ds_pos ds) bs (ds_mem ds), ds_pos := ds_pos ds + n\<rparr>)"
      using assms(2, 3) by (auto simp: writes_def)
    then show ?thesis
      using assms(3, 4) False f v by (simp add: andthen_Inr full_at_def ds_valid_def)
  qed
qed

lemma full_at_hosts: "full_at (hosts_write r) (27 * length r)"
proof (induction r)
  case (Cons h r)
  have "full_at (hosts_write (h # r)) (20 + (4 + (2 + (1 + 27 * length r))))"
    unfolding hosts_write.simps
    by (intro full_at_andthen [OF full_at_field writes_field] Cons) simp_all
  then show ?case by simp
qed (auto simp: full_at_def ds_valid_def)

lemma full_at_route: "full_at (route_write t r) (24 + 27 * length r)"
proof -
  have "full_at (route_write t r) (20 + (4 + 27 * length r))"
    unfolding route_write_def by (intro full_at_andthen [OF full_at_field writes_field] full_at_hosts) simp_all
  then show ?thesis by simp
qed

section \<open>Endpoints and channel headers\<close>

definition endpoint_write :: "endpoint \<Rightarrow> writer" where
  "endpoint_write ep = andthen (wr_field 4 (fst ep)) (wr_field 2 (snd ep))"

definition endpoint_read :: "endpoint reader" where
  "endpoint_read = andthen (rd_field 4 (\<lambda>v ep. (v, snd ep))) (rd_field 2 (\<lambda>v ep. (fst ep, v)))"

definition endpoint_enc :: "endpoint \<Rightarrow> byte list" where
  "endpoint_enc ep = le_bytes 4 (fst ep) @ le_bytes 2 (snd ep)"

interpretation epc: stream_codec endpoint_enc endpoint_write endpoint_read "\<lambda>_. True"
proof
  show "writes (endpoint_write x) (endpoint_enc x)" for x
    unfolding endpoint_write_def endpoint_enc_def by (intro writes_andthen writes_field) simp_all
  show "reads endpoint_read (\<lambda>_. x) (endpoint_enc x)" for x
    unfolding endpoint_read_def endpoint_enc_def by (rule reads_cong, (rule reads_andthen reads_field | simp)+)
qed

text \<open>Local and remote channel number in front of the payload; the reader is the other side.\<close>

definition chan_write :: "u16 \<Rightarrow> u16 \<Rightarrow> byte list \<Rightarrow> writer" where
  "chan_write lcn rcn b = andthen (wr_field 2 lcn) (andthen (wr_field 2 rcn) (wr_bytes (length b) b))"

definition chan_read :: "(u16 \<times> u16) reader" where
  "chan_read = andthen (rd_field 2 (\<lambda>v p. (v, snd p))) (rd_field 2 (\<lambda>v p. (fst p, v)))"

lemma writes_chan: "length b < 2 ^ 31 \<Longrightarrow> writes (chan_write l r b) (le_bytes 2 l @ le_bytes 2 r @ b)"
  unfolding chan_write_def by (intro writes_andthen writes_field writes_bytes) simp_all

lemma reads_chan: "reads chan_read (\<lambda>_. (s, d)) (le_bytes 2 s @ le_bytes 2 d)"
  unfolding chan_read_def by (rule reads_cong, (rule reads_andthen reads_field | simp)+)

section \<open>Round trips\<close>

lemma pack_writes: "writes (wr x) bs \<Longrightarrow> length bs \<le> length mem \<Longrightarrow> pack_packet mem wr x = Inr bs"
  by (simp add: pack_packet_def writes_def ds_make_def overwrite_def)

lemma unpack_reads: "reads rd f bs \<Longrightarrow> unpack_packet rd y (bs @ r) = (Inr (), f y)"
  by (simp add: unpack_packet_def reads_def ds_make_def)

text \<open>
  The replies to route lookups survive the wire. Up to 74 hosts fit the 2048-byte buffer (and the
  2044 bytes a frame takes); the other side reads back target and hosts in order, each with its id
  and endpoint, and with the sender as its NAT host exactly if it had one. With 75 or more hosts
  the writer throws.
\<close>

theorem route_reply_roundtrip:
  "if length r \<le> 74
   then \<exists>bs hdr ds. pack_packet (replicate 2048 0) (route_write target) r = Inr bs \<and> length bs \<le> 2044
     \<and> route_header_read (hdr0, ds_make bs) = (Inr (), (hdr, ds)) \<and> hdr = (target, of_nat (length r))
     \<and> hosts_read from (unat (snd hdr)) (entry_zero, ds) = Inr (map (host_via from) r)
   else pack_packet (replicate 2048 0) (route_write target) r = Inl (Throw ''Attempt to write beyond end of buffer'')"
proof (cases "length r \<le> 74")
  case True
  let ?h = "le_bytes 20 target @ le_bytes 4 (of_nat (length r) :: u32)" and ?bs = "route_enc target r"
  let ?ds = "(ds_make ?bs)\<lparr>ds_pos := 24\<rparr>"
  have p: "pack_packet (replicate 2048 0) (route_write target) r = Inr ?bs"
    using True by (intro pack_writes [OF writes_route]) (simp add: length_route_enc)
  have "reads route_header_read (\<lambda>_. (target, of_nat (length r))) ?h"
    unfolding route_header_read_def by (rule reads_cong, (rule reads_andthen reads_field | simp)+)
  then have h: "route_header_read (hdr0, ds_make ?bs) = (Inr (), ((target, of_nat (length r)), ?ds))"
    by (cases hdr0) (simp add: reads_def ds_make_def route_enc_def)
  have "hosts_read from (length r) (entry_zero, ?ds) = Inr (map (host_via from) r)"
    by (rule hosts_read_enc) (simp_all add: ds_make_def route_enc_def)
  moreover have "unat (of_nat (length r) :: u32) = length r" using True by (simp add: unat_of_nat)
  ultimately show ?thesis
    unfolding if_P [OF True]
    using p h True by (intro exI [of _ ?bs] exI [of _ "(target, of_nat (length r))"] exI [of _ ?ds])
      (simp add: length_route_enc)
next
  case False
  then have "fst (route_write target r (ds_make (replicate 2048 0))) = Inl (Throw ''Attempt to write beyond end of buffer'')"
    using full_at_route [of target r] by (simp add: full_at_def ds_valid_def ds_make_def)
  then show ?thesis using False by (auto simp: pack_packet_def split: prod.splits sum.splits)
qed

text \<open>
  An authentication message and a lookup request are read back as they were written, and fill the
  buffers the code allocates for them exactly: the sum of the field sizes, and 25 or 45 bytes.
\<close>

theorem handshake_messages_roundtrip:
  assumes "auth_ok cr a"
  shows "pack_packet (replicate (auth_size cr) 0) (auth_write cr) a = Inr (auth_enc a)
    \<and> length (auth_enc a) = auth_size cr
    \<and> unpack_packet (auth_read cr) auth_zero (auth_enc a) = (Inr (), a)
    \<and> pack_packet (replicate (lookup_size limit) 0) lookup_write (lookup_request target n limit)
        = Inr (lookup_enc (lookup_request target n limit))
    \<and> length (lookup_enc (lookup_request target n limit)) = lookup_size limit
    \<and> unpack_packet lookup_read lookup_zero (lookup_enc (lookup_request target n limit))
        = (Inr (), lookup_request target n limit)"
proof -
  have "lk_l (lookup_request target n limit) = 0 \<longrightarrow> lk_limit (lookup_request target n limit) = 0"
    by (simp add: lookup_request_def split: option.splits)
  from unpack_reads [OF reads_lookup [OF this], of lookup_zero "[]"]
  have "unpack_packet lookup_read lookup_zero (lookup_enc (lookup_request target n limit)) = (Inr (), lookup_request target n limit)"
    by (simp add: lookup_request_def lookup_zero_def split: option.splits)
  moreover have "pack_packet (replicate (lookup_size limit) 0) lookup_write (lookup_request target n limit)
        = Inr (lookup_enc (lookup_request target n limit))"
    by (intro pack_writes [OF writes_lookup]) (simp add: length_lookup_enc)
  moreover have "pack_packet (replicate (auth_size cr) 0) (auth_write cr) a = Inr (auth_enc a)"
    by (intro pack_writes [of "auth_write cr", OF writes_auth [OF assms]]) (simp add: length_auth_enc [OF assms])
  ultimately show ?thesis
    using unpack_reads [OF reads_auth [OF assms], of auth_zero "[]"] by (simp add: length_auth_enc [OF assms] length_lookup_enc)
qed

theorem handshake_messages_roundtrip_witness:
  "auth_ok demo_crypto (auth_zero\<lparr>au_sig := [3], au_pubk := replicate 256 4, au_utc := 5\<rparr>) \<and>
   unpack_packet lookup_read lookup_zero (lookup_enc (lookup_request 6 20 (Some 7))) = (Inr (), lookup_request 6 20 (Some 7))"
proof -
  have a: "auth_ok demo_crypto (auth_zero\<lparr>au_sig := [3], au_pubk := replicate 256 4, au_utc := 5\<rparr>)"
    by (simp add: auth_ok_def demo_crypto_def)
  then show ?thesis using handshake_messages_roundtrip [OF a] by blast
qed

end
