(* ===== verification/Std_Map.thy ===== *)
theory Std_Map
  imports Main "HOL-Library.Product_Lexorder"
begin

text \<open>
  \<open>std::map\<close> as a list of pairs with strictly increasing keys: what iteration visits, in its order. The
  same lists stand for \<open>boost::unordered_map\<close>, whose iteration order is unspecified. The locale
  \<open>finite_dict\<close> is what the components rely on.
\<close>

type_synonym ('k, 'v) std_map = "('k \<times> 'v) list"

fun sm_put :: "'k::linorder \<Rightarrow> 'v \<Rightarrow> ('k, 'v) std_map \<Rightarrow> ('k, 'v) std_map" where
  "sm_put k v [] = [(k, v)]"
| "sm_put k v ((k', v') # r) =
     (if k < k' then (k, v) # (k', v') # r else if k = k' then (k, v) # r else (k', v') # sm_put k v r)"

definition sm_get :: "('k, 'v) std_map \<Rightarrow> 'k \<Rightarrow> 'v option" where
  "sm_get m k = map_of m k"

definition sm_del :: "'k \<Rightarrow> ('k, 'v) std_map \<Rightarrow> ('k, 'v) std_map" where
  "sm_del k m = filter (\<lambda>e. fst e \<noteq> k) m"

definition sm_ok :: "('k::linorder, 'v) std_map \<Rightarrow> bool" where
  "sm_ok m \<longleftrightarrow> sorted_wrt (<) (map fst m)"

locale finite_dict =
  fixes look :: "'m \<Rightarrow> 'k \<Rightarrow> 'v option"
    and put :: "'k \<Rightarrow> 'v \<Rightarrow> 'm \<Rightarrow> 'm"
    and del :: "'k \<Rightarrow> 'm \<Rightarrow> 'm"
    and ok :: "'m \<Rightarrow> bool"
  assumes look_put: "ok m \<Longrightarrow> look (put k v m) = (look m)(k \<mapsto> v)"
    and look_del: "ok m \<Longrightarrow> look (del k m) = (look m)(k := None)"
    and ok_put: "ok m \<Longrightarrow> ok (put k v m)"
    and ok_del: "ok m \<Longrightarrow> ok (del k m)"
begin

lemma look_put_same: "ok m \<Longrightarrow> look (put k v m) k = Some v"
  by (simp add: look_put)

lemma look_put_other: "ok m \<Longrightarrow> k \<noteq> k' \<Longrightarrow> look (put k v m) k' = look m k'"
  by (simp add: look_put)

lemma look_del_same: "ok m \<Longrightarrow> look (del k m) k = None"
  by (simp add: look_del)

lemma ran_put: "ok m \<Longrightarrow> ran (look (put k v m)) \<subseteq> insert v (ran (look m))"
  by (auto simp: look_put ran_def)

lemma ran_del: "ok m \<Longrightarrow> ran (look (del k m)) \<subseteq> ran (look m)"
  by (auto simp: look_del ran_def split: if_splits)

text \<open>A property of all entries survives every update that puts in an entry with the property.\<close>

lemma all_put:
  assumes "ok m" "\<And>k v. look m k = Some v \<Longrightarrow> P k v" "P k v" "look (put k v m) k' = Some v'"
  shows "P k' v'"
  using assms by (auto simp: look_put split: if_splits)

lemma all_del:
  assumes "ok m" "\<And>k v. look m k = Some v \<Longrightarrow> P k v" "look (del k m) k' = Some v'"
  shows "P k' v'"
  using assms by (auto simp: look_del split: if_splits)

end

lemma sm_put_keys: "fst ` set (sm_put k v m) = insert k (fst ` set m)"
  by (induction k v m rule: sm_put.induct) auto

lemma sm_ok_put: "sm_ok m \<Longrightarrow> sm_ok (sm_put k v m)"
proof (induction k v m rule: sm_put.induct)
  case (2 k v k' v' r)
  show ?case
  proof (cases "k < k' \<or> k = k'")
    case True
    then show ?thesis using 2 by (auto simp: sm_ok_def)
  next
    case False
    then have "\<forall>x \<in> fst ` set (sm_put k v r). k' < x" using 2 by (auto simp: sm_put_keys sm_ok_def)
    then show ?thesis using 2 False by (auto simp: sm_ok_def)
  qed
qed (simp add: sm_ok_def)

lemma sm_get_put:
  assumes "sm_ok m"
  shows "sm_get (sm_put k v m) = (sm_get m)(k \<mapsto> v)"
  using assms by (induction k v m rule: sm_put.induct) (auto simp: sm_get_def sm_ok_def fun_eq_iff)

lemma sm_get_del: "sm_get (sm_del k m) = (sm_get m)(k := None)"
  by (induction m) (auto simp: sm_get_def sm_del_def fun_eq_iff)

lemma sm_ok_del: "sm_ok m \<Longrightarrow> sm_ok (sm_del k m)"
proof -
  assume "sm_ok m"
  then have "sorted_wrt (\<lambda>x y. fst x < fst y) m" by (simp add: sm_ok_def sorted_wrt_map)
  then have "sorted_wrt (\<lambda>x y. fst x < fst y) (sm_del k m)" unfolding sm_del_def by (rule sorted_wrt_filter)
  then show ?thesis by (simp add: sm_ok_def sorted_wrt_map)
qed

interpretation sm: finite_dict sm_get sm_put sm_del sm_ok
  by unfold_locales (simp_all add: sm_get_put sm_get_del sm_ok_put sm_ok_del)

lemma sm_ok_Nil [simp]: "sm_ok []"
  by (simp add: sm_ok_def)

lemma sm_get_Nil [simp]: "sm_get [] k = None"
  by (simp add: sm_get_def)

lemma sm_get_mem: "sm_ok m \<Longrightarrow> sm_get m k = Some v \<longleftrightarrow> (k, v) \<in> set m"
proof -
  assume "sm_ok m"
  then have "distinct (map fst m)" by (simp add: sm_ok_def strict_sorted_iff)
  then show ?thesis by (simp add: sm_get_def)
qed

lemma length_sm_put: "sm_ok m \<Longrightarrow> length (sm_put k v m) = (if sm_get m k = None then Suc (length m) else length m)"
  by (induction k v m rule: sm_put.induct) (auto simp: sm_get_def sm_ok_def split: option.splits dest!: map_of_SomeD)

text \<open>The entry the reverse iterator \<open>--end()\<close> points to has the greatest key.\<close>

lemma sm_last_max: "sm_ok m \<Longrightarrow> m \<noteq> [] \<Longrightarrow> (k, v) \<in> set m \<Longrightarrow> k \<le> fst (last m)"
proof (induction m)
  case (Cons e m)
  then show ?case by (cases "m = []") (auto simp: sm_ok_def less_imp_le)
qed simp

lemma sm_butlast: "sm_ok m \<Longrightarrow> sm_ok (butlast m)"
  unfolding sm_ok_def map_butlast [symmetric] sorted_wrt_iff_nth_less by (simp add: nth_butlast)

end
