(* ===== verification/Node_State.thy ===== *)
theory Node_State
  imports Kbucket Messages Std_Map
begin

text \<open>
  The state of a node (src/node_impl.hpp), of its connections (\<open>connection\<close> and \<open>connection::impl\<close> of
  src/connection.cpp) and of their channels (src/channel.cpp), with the operations that do not call
  back into the node. Connections and channels are objects other parts point to: the node state
  holds a store of each, and a pointer is a number. What leaves the node is recorded: datagrams in
  \<open>nd_sent\<close>, calls of user callbacks and signals in \<open>nd_events\<close>, tasks posted to the node's
  thread in \<open>nd_tasks\<close>. The clock and the counters behind \<open>rand\<close> and key generation are part of the state.
\<close>

section \<open>Connections\<close>

datatype state_enum = failed | uninit | generated_dh | received_dh | authenticated | connected

fun state_num :: "state_enum \<Rightarrow> int" where
  "state_num failed = - 1"
| "state_num uninit = 0"
| "state_num generated_dh = 1"
| "state_num received_dh = 2"
| "state_num authenticated = 3"
| "state_num connected = 4"

record route_lookup_request =
  rl_prom :: nat
  rl_n :: u32
  rl_limit :: "sha1 option"

record dh_state =
  dh_priv :: "byte list"
  dh_pub :: "byte list"
  dh_key :: "byte list"

record con =
  c_record :: peer_record
  c_next_chan_num :: u16
  c_advance_count :: u16
  c_dh :: "dh_state option"
  c_bf :: "byte list option"
  c_state :: state_enum
  c_remote_id :: sha1
  c_remote_ep :: endpoint
  c_public_ep :: endpoint
  c_behind_nat :: bool
  c_in_queue :: "byte list list"
  c_route_lookups :: "(sha1, route_lookup_request) std_map"
  c_serv_clients :: "(string \<times> nat) list"
  c_channels :: "(u32, nat) std_map"
  c_has_peers :: bool

section \<open>Channels, services, nodes\<close>

datatype error_code = ec_ok | ec_closed

record chan =
  ch_rc :: bool
  ch_con :: "nat option"
  ch_closed :: bool
  ch_rport :: u16
  ch_lport :: u16

text \<open>A service's handler is user code: it is told the new channel and either throws or returns, having
  installed a receive callback or not.\<close>

record service =
  svc_port :: u16
  svc_name :: string
  svc_handler :: "nat \<Rightarrow> bool res"

datatype event =
    Ev_state nat state_enum
  | Ev_recv nat "byte list" error_code
  | Ev_promise nat "host list"

datatype task =
    T_process_queue
  | T_request_connect endpoint nat
  | T_connect endpoint
  | T_close nat

record 'h node =
  nd_id :: sha1
  nd_rank :: u32
  nd_nonce :: "u64 \<times> u64"
  nd_priv_key :: "byte list"
  nd_pub_key :: "byte list"
  nd_services :: "(u16, service) std_map"
  nd_ep_to_con :: "(endpoint, nat) std_map"
  nd_dist_to_con :: "(sha1, nat) std_map"
  nd_kbuckets :: kbucket
  nd_process_queue :: "nat list"
  nd_processing :: bool
  nd_reading :: bool
  nd_peers :: "'h peer_db"
  nd_local_addr :: "endpoint \<Rightarrow> u32"
  nd_port :: u16
  nd_cons :: "nat \<Rightarrow> con"
  nd_next_con :: nat
  nd_chans :: "nat \<Rightarrow> chan"
  nd_next_chan :: nat
  nd_next_prom :: nat
  nd_now :: u64
  nd_rand_ctr :: nat
  nd_dh_ctr :: nat
  nd_sent :: "(endpoint \<times> byte list) list"
  nd_events :: "event list"
  nd_tasks :: "task list"

record 'h env =
  en_cr :: crypto
  en_db :: "'h peer_bdb"

type_synonym ('h, 'a) act = "('h node, 'a) cmd"

section \<open>Access to the stores\<close>

definition get_con :: "nat \<Rightarrow> ('h, con) act" where
  "get_con c nd = (Inr (nd_cons nd c), nd)"

definition upd_con :: "nat \<Rightarrow> (con \<Rightarrow> con) \<Rightarrow> ('h, unit) act" where
  "upd_con c f nd = (Inr (), nd\<lparr>nd_cons := (nd_cons nd)(c := f (nd_cons nd c))\<rparr>)"

definition upd_rec :: "nat \<Rightarrow> (peer_record \<Rightarrow> peer_record) \<Rightarrow> ('h, unit) act" where
  "upd_rec c f = upd_con c (\<lambda>k. k\<lparr>c_record := f (c_record k)\<rparr>)"

definition get_chan :: "nat \<Rightarrow> ('h, chan) act" where
  "get_chan ch nd = (Inr (nd_chans nd ch), nd)"

definition upd_chan :: "nat \<Rightarrow> (chan \<Rightarrow> chan) \<Rightarrow> ('h, unit) act" where
  "upd_chan ch f nd = (Inr (), nd\<lparr>nd_chans := (nd_chans nd)(ch := f (nd_chans nd ch))\<rparr>)"

definition emit :: "event \<Rightarrow> ('h, unit) act" where
  "emit ev nd = (Inr (), nd\<lparr>nd_events := nd_events nd @ [ev]\<rparr>)"

definition post_task :: "task \<Rightarrow> ('h, unit) act" where
  "post_task t nd = (Inr (), nd\<lparr>nd_tasks := nd_tasks nd @ [t]\<rparr>)"

text \<open>\<open>node::send\<close>\<close>

definition net_send :: "endpoint \<Rightarrow> byte list \<Rightarrow> ('h, unit) act" where
  "net_send ep d nd = (Inr (), nd\<lparr>nd_sent := nd_sent nd @ [(ep, d)]\<rparr>)"

definition liftres :: "'a res \<Rightarrow> ('s, 'a) cmd" where
  "liftres r s = (r, s)"

definition assertc :: "bool \<Rightarrow> string \<Rightarrow> ('s, unit) cmd" where
  "assertc b t = (if b then ret () else raise (Assert_fail t))"

definition peers_store :: "'h env \<Rightarrow> sha1 \<Rightarrow> peer_record \<Rightarrow> ('h, bool) act" where
  "peers_store E nid m = liftc nd_peers (\<lambda>p nd. nd\<lparr>nd_peers := p\<rparr>) (peer_store (en_cr E) (en_db E) nid m)"

definition kbuckets_add :: "'h env \<Rightarrow> nat \<Rightarrow> ('h, unit) act" where
  "kbuckets_add E c = bindc (get_con c) (\<lambda>k.
     liftc nd_kbuckets (\<lambda>b nd. nd\<lparr>nd_kbuckets := b\<rparr>) (kb_add (en_cr E) c (c_remote_id k)))"

definition kbuckets_remove :: "'h env \<Rightarrow> nat \<Rightarrow> ('h, unit) act" where
  "kbuckets_remove E c = bindc (get_con c) (\<lambda>k.
     liftc nd_kbuckets (\<lambda>b nd. nd\<lparr>nd_kbuckets := b\<rparr>) (kb_remove (en_cr E) c (c_remote_id k)))"

section \<open>State, queue and channel bookkeeping of a connection\<close>

definition goto_state :: "nat \<Rightarrow> state_enum \<Rightarrow> ('h, unit) act" where
  "goto_state c s = bindc (get_con c) (\<lambda>k.
     whenc (c_state k \<noteq> s) (andthen (upd_con c (\<lambda>k. k\<lparr>c_state := s\<rparr>)) (emit (Ev_state c s))))"

definition set_remote_id :: "nat \<Rightarrow> sha1 \<Rightarrow> ('h, unit) act" where
  "set_remote_id c nid = upd_con c (\<lambda>k. k\<lparr>c_remote_id := nid\<rparr>)"

definition pending_packets :: "con \<Rightarrow> nat" where
  "pending_packets k = length (c_in_queue k)"

definition post_packet :: "nat \<Rightarrow> byte list \<Rightarrow> ('h, unit) act" where
  "post_packet c b = upd_con c (\<lambda>k. k\<lparr>c_in_queue := c_in_queue k @ [b]\<rparr>)"

definition get_free_channel_num :: "nat \<Rightarrow> ('h, u16) act" where
  "get_free_channel_num c =
     andthen (upd_con c (\<lambda>k. k\<lparr>c_next_chan_num := c_next_chan_num k + 1\<rparr>))
    (bindc (get_con c) (\<lambda>k.
       if c_next_chan_num k = 0 then raise (Throw ''All channels have been used'') else ret (c_next_chan_num k)))"

text \<open>Channels are indexed by local and remote number: \<open>(uint32_t(local) << 16) | remote\<close>.\<close>

definition chan_key :: "u16 \<Rightarrow> u16 \<Rightarrow> u32" where
  "chan_key lcn rcn = or (push_bit 16 (ucast lcn)) (ucast rcn)"

definition new_channel :: "nat \<Rightarrow> u16 \<Rightarrow> u16 \<Rightarrow> ('h, nat) act" where
  "new_channel c r l nd =
     (Inr (nd_next_chan nd),
      nd\<lparr>nd_chans := (nd_chans nd)(nd_next_chan nd := \<lparr>ch_rc = False, ch_con = Some c, ch_closed = False, ch_rport = r, ch_lport = l\<rparr>),
         nd_next_chan := Suc (nd_next_chan nd)\<rparr>)"

definition add_channel :: "nat \<Rightarrow> nat \<Rightarrow> ('h, unit) act" where
  "add_channel c ch = bindc (get_chan ch) (\<lambda>x.
     upd_con c (\<lambda>k. k\<lparr>c_channels := sm_put (chan_key (ch_lport x) (ch_rport x)) ch (c_channels k)\<rparr>))"

definition find_channel :: "con \<Rightarrow> u16 \<Rightarrow> nat option" where
  "find_channel k remote_channel_num =
     map_option snd (find (\<lambda>e. and (fst e) 65535 = ucast remote_channel_num) (c_channels k))"

text \<open>\<open>_channels.erase( _channels.find(k) )\<close>: erasing the end iterator is undefined.\<close>

definition con_close_channel :: "nat \<Rightarrow> nat \<Rightarrow> ('h, unit) act" where
  "con_close_channel c ch = bindc (get_chan ch) (\<lambda>x. bindc (get_con c) (\<lambda>k.
     let key = chan_key (ch_lport x) (ch_rport x) in
     if sm_get (c_channels k) key = None then raise (Undefined ''erase of the end iterator'')
     else upd_con c (\<lambda>k. k\<lparr>c_channels := sm_del key (c_channels k)\<rparr>)))"

section \<open>Channel operations\<close>

text \<open>The handle of a channel may be empty: \<open>None\<close>.\<close>

definition channel_close :: "nat option \<Rightarrow> ('h, unit) act" where
  "channel_close hdl = (case hdl of None \<Rightarrow> ret () | Some ch \<Rightarrow> bindc (get_chan ch) (\<lambda>x.
     andthen (case ch_con x of None \<Rightarrow> ret () | Some c \<Rightarrow> con_close_channel c ch)
             (upd_chan ch (\<lambda>x. x\<lparr>ch_rc := False, ch_closed := True\<rparr>))))"

definition chan_reset :: "nat \<Rightarrow> ('h, unit) act" where
  "chan_reset ch = upd_chan ch (\<lambda>x. x\<lparr>ch_con := None\<rparr>)"

definition chan_on_recv :: "nat option \<Rightarrow> bool \<Rightarrow> ('h, unit) act" where
  "chan_on_recv hdl rc = (case hdl of None \<Rightarrow> raise (Assert_fail ''my'') | Some ch \<Rightarrow> upd_chan ch (\<lambda>x. x\<lparr>ch_rc := rc\<rparr>))"

definition chan_recv :: "nat \<Rightarrow> byte list \<Rightarrow> error_code \<Rightarrow> ('h, unit) act" where
  "chan_recv ch b ec = bindc (get_chan ch) (\<lambda>x. whenc (ch_rc x) (emit (Ev_recv ch b ec)))"

definition chan_valid :: "nat option \<Rightarrow> 'h node \<Rightarrow> bool" where
  "chan_valid hdl nd = (case hdl of None \<Rightarrow> False | Some ch \<Rightarrow> \<not> ch_closed (nd_chans nd ch))"

definition chan_remote_node :: "nat option \<Rightarrow> ('h, sha1) act" where
  "chan_remote_node hdl = (case hdl of None \<Rightarrow> raise (Assert_fail ''my'') | Some ch \<Rightarrow> bindc (get_chan ch) (\<lambda>x.
     case ch_con x of None \<Rightarrow> raise (Undefined ''null connection'') | Some c \<Rightarrow> bindc (get_con c) (\<lambda>k. ret (c_remote_id k))))"

text \<open>\<open>connection::close_channels\<close>: every channel is cut off and told, then the map is cleared.\<close>

fun close_each :: "nat list \<Rightarrow> ('h, unit) act" where
  "close_each [] = ret ()"
| "close_each (ch # r) = andthen (chan_reset ch) (andthen (chan_recv ch [] ec_closed) (close_each r))"

definition close_channels :: "nat \<Rightarrow> ('h, unit) act" where
  "close_channels c = bindc (get_con c) (\<lambda>k.
     andthen (close_each (map snd (c_channels k))) (upd_con c (\<lambda>k. k\<lparr>c_channels := []\<rparr>)))"

section \<open>Unfolding\<close>

named_theorems act_simps \<open>the primitive actions, applied to a state\<close>

lemmas act_defs [act_simps] = get_con_def upd_con_def upd_rec_def get_chan_def upd_chan_def emit_def post_task_def
  net_send_def liftres_def

lemma act_bind_simps [act_simps]:
  "bindc (get_con c) f nd = f (nd_cons nd c) nd"
  "bindc (get_chan ch) g nd = g (nd_chans nd ch) nd"
  by (simp_all add: bindc_def get_con_def get_chan_def)

lemma act_andthen_simps [act_simps]:
  "andthen (upd_con c u) m nd = m (nd\<lparr>nd_cons := (nd_cons nd)(c := u (nd_cons nd c))\<rparr>)"
  "andthen (upd_chan ch v) m nd = m (nd\<lparr>nd_chans := (nd_chans nd)(ch := v (nd_chans nd ch))\<rparr>)"
  "andthen (emit ev) m nd = m (nd\<lparr>nd_events := nd_events nd @ [ev]\<rparr>)"
  "andthen (post_task t) m nd = m (nd\<lparr>nd_tasks := nd_tasks nd @ [t]\<rparr>)"
  "andthen (net_send ep d) m nd = m (nd\<lparr>nd_sent := nd_sent nd @ [(ep, d)]\<rparr>)"
  by (simp_all add: andthen_def bindc_def upd_con_def upd_chan_def emit_def post_task_def net_send_def)

section \<open>Channel numbers and keys\<close>

lemma chan_key_parts: "ucast (drop_bit 16 (chan_key l r)) = l" "ucast (chan_key l r) = r"
  "and (chan_key l r) 65535 = ucast r"
proof -
  have m: "(65535 :: u32) = mask 16" by (simp add: mask_eq_exp_minus_1)
  show "ucast (drop_bit 16 (chan_key l r)) = l"
    by (rule bit_word_eqI) (auto simp: chan_key_def bit_simps dest: bit_imp_le_length)
  show "ucast (chan_key l r) = r"
    by (rule bit_word_eqI) (auto simp: chan_key_def bit_simps)
  show "and (chan_key l r) 65535 = ucast r"
    unfolding m by (rule bit_word_eqI) (auto simp: chan_key_def bit_simps dest: bit_imp_le_length)
qed

lemma chan_key_inject [simp]: "chan_key l r = chan_key l' r' \<longleftrightarrow> l = l' \<and> r = r'"
  by (metis chan_key_parts(1, 2))

end
