(* ===== verification/Connection.thy ===== *)
theory Connection
  imports Node_State
begin

text \<open>
  The connection of src/connection.cpp: the handshake (Diffie-Hellman keys in the clear, then an
  authentication message under the shared key), the handlers of the messages inside encrypted
  frames, and closing and resetting; with \<open>node::update_dist_index\<close>, \<open>create_channel\<close> and
  \<open>find_nodes_near\<close> of src/node.cpp, which the handlers call. \<open>c\<close> is always \<open>this\<close>.
\<close>

section \<open>Sending\<close>

definition con_send :: "'h env \<Rightarrow> nat \<Rightarrow> byte list \<Rightarrow> proto_message_type \<Rightarrow> ('h, unit) act" where
  "con_send E c buf t = bindc (get_con c) (\<lambda>k.
     bindc (liftres (frame_encode (en_cr E) (c_bf k) buf t)) (\<lambda>fr. net_send (c_remote_ep k) fr))"

definition send_close :: "'h env \<Rightarrow> nat \<Rightarrow> ('h, unit) act" where
  "send_close E c = con_send E c [1] close_msg"

definition send_punch :: "nat \<Rightarrow> ('h, unit) act" where
  "send_punch c = bindc (get_con c) (\<lambda>k. net_send (c_remote_ep k) (map (of_nat \<circ> of_char) ''punch''))"

definition send_auth_response :: "'h env \<Rightarrow> nat \<Rightarrow> bool \<Rightarrow> ('h, unit) act" where
  "send_auth_response E c r = bindc (get_con c) (\<lambda>k.
     if \<not> r then con_send E c [0] auth_resp_msg else con_send E c [rank (c_record k)] auth_resp_msg)"

definition send_update_rank :: "'h env \<Rightarrow> nat \<Rightarrow> ('h, unit) act" where
  "send_update_rank E c = bindc getc (\<lambda>nd.
     con_send E c (le_bytes 8 (fst (nd_nonce nd)) @ le_bytes 8 (snd (nd_nonce nd))) update_rank)"

text \<open>\<open>connection::send( channel, buffer )\<close>, and \<open>channel::send\<close> in front of it.\<close>

definition con_send_data :: "'h env \<Rightarrow> nat \<Rightarrow> nat \<Rightarrow> byte list \<Rightarrow> ('h, unit) act" where
  "con_send_data E c ch b = bindc (get_chan ch) (\<lambda>x.
     bindc (liftres (pack_packet (replicate 2048 0) (chan_write (ch_lport x) (ch_rport x)) b)) (\<lambda>buf.
       con_send E c buf data_msg))"

definition chan_send :: "'h env \<Rightarrow> nat option \<Rightarrow> byte list \<Rightarrow> ('h, unit) act" where
  "chan_send E hdl b = (case hdl of
     None \<Rightarrow> raise (Throw ''Channel freed!'')
   | Some ch \<Rightarrow> bindc (get_chan ch) (\<lambda>x.
       case ch_con x of
         None \<Rightarrow> raise (Undefined ''null connection'')
       | Some c \<Rightarrow> con_send_data E c ch b))"

section \<open>Key exchange\<close>

text \<open>Pairs are drawn until the public key has 56 bytes.\<close>

partial_function (option) dh_draw :: "crypto \<Rightarrow> nat \<Rightarrow> nat option" where
  "dh_draw cr n = (if length (snd (dh_gen cr n)) = 56 then Some n else dh_draw cr (Suc n))"

declare dh_draw.simps [code]

definition generate_dh :: "'h env \<Rightarrow> nat \<Rightarrow> ('h, unit) act" where
  "generate_dh E c = bindc getc (\<lambda>nd.
     case dh_draw (en_cr E) (nd_dh_ctr nd) of
       None \<Rightarrow> raise Out_of_fuel
     | Some n \<Rightarrow> andthen (modc (\<lambda>nd. nd\<lparr>nd_dh_ctr := Suc n\<rparr>))
         (upd_con c (\<lambda>k. k\<lparr>c_dh := Some \<lparr>dh_priv = fst (dh_gen (en_cr E) n), dh_pub = snd (dh_gen (en_cr E) n), dh_key = []\<rparr>\<rparr>)))"

text \<open>One to seven zero bytes follow the key, so that its length is not a multiple of eight.\<close>

definition send_dh :: "'h env \<Rightarrow> nat \<Rightarrow> ('h, unit) act" where
  "send_dh E c = bindc getc (\<lambda>nd. bindc (get_con c) (\<lambda>k.
     case c_dh k of
       None \<Rightarrow> raise (Assert_fail ''my->_dh'')
     | Some d \<Rightarrow> andthen (modc (\<lambda>nd. nd\<lparr>nd_rand_ctr := Suc (nd_rand_ctr nd)\<rparr>))
         (net_send (c_remote_ep k) (dh_pub d @ replicate (rand_seq (en_cr E) (nd_rand_ctr nd) mod 7 + 1) 0))))"

definition process_dh :: "'h env \<Rightarrow> nat \<Rightarrow> byte list \<Rightarrow> ('h, bool) act" where
  "process_dh E c b = andthen (assertc (56 \<le> length b) ''b.size() >= 56'')
     (bindc (get_con c) (\<lambda>k.
        case c_dh k of
          None \<Rightarrow> raise (Assert_fail ''my->_dh'')
        | Some d \<Rightarrow>
            (let sk = dh_shared (en_cr E) (dh_priv d) (take 56 b);
                 key = sk @ replicate (56 - length sk) 0
             in andthen (upd_con c (\<lambda>k. k\<lparr>c_dh := Some (d\<lparr>dh_key := key\<rparr>), c_bf := Some (take 56 key)\<rparr>))
               (andthen (upd_rec c (\<lambda>r. r\<lparr>bf_key := take 56 key\<rparr>)) (ret True)))))"

definition local_endpoint :: "'h node \<Rightarrow> endpoint \<Rightarrow> endpoint" where
  "local_endpoint nd dst =
     (let ep = (if dst = (0, 0) then (1249764392, 8000) else dst) in (nd_local_addr nd ep, nd_port nd))"

text \<open>The signed digest binds the shared key and the time.\<close>

definition auth_digest :: "crypto \<Rightarrow> byte list \<Rightarrow> u64 \<Rightarrow> sha1" where
  "auth_digest cr key utc = sha1_hash cr (key @ le_bytes 8 utc)"

definition send_auth :: "'h env \<Rightarrow> nat \<Rightarrow> ('h, unit) act" where
  "send_auth E c = bindc getc (\<lambda>nd. bindc (get_con c) (\<lambda>k.
     case c_dh k of
       None \<Rightarrow> raise (Assert_fail ''my->_dh'')
     | Some d \<Rightarrow> andthen (assertc (length (dh_key d) = 56) ''shared_key.size() == 56'')
         (let a = \<lparr>au_sig = pk_sign (en_cr E) (nd_priv_key nd) (auth_digest (en_cr E) (dh_key d) (nd_now nd)),
                   au_pubk = nd_pub_key nd, au_utc = nd_now nd, au_nonce = nd_nonce nd,
                   au_ip = fst (local_endpoint nd (c_remote_ep k)), au_port = snd (local_endpoint nd (0, 0))\<rparr>
          in bindc (liftres (pack_packet (replicate (auth_size (en_cr E)) 0) (auth_write (en_cr E)) a)) (\<lambda>buf.
               con_send E c buf auth_msg))))"

section \<open>Resetting and closing\<close>

text \<open>\<open>update_dist_index( nid, 0 )\<close>\<close>

definition update_dist_clear :: "'h env \<Rightarrow> sha1 \<Rightarrow> ('h, unit) act" where
  "update_dist_clear E nid = bindc getc (\<lambda>nd.
     let dist = xor nid (nd_id nd) in
     case sm_get (nd_dist_to_con nd) dist of
       None \<Rightarrow> ret ()
     | Some c \<Rightarrow> andthen (kbuckets_remove E c) (modc (\<lambda>nd. nd\<lparr>nd_dist_to_con := sm_del dist (nd_dist_to_con nd)\<rparr>)))"

definition store_record :: "'h env \<Rightarrow> nat \<Rightarrow> ('h, unit) act" where
  "store_record E c = bindc (get_con c) (\<lambda>k. andthen (peers_store E (c_remote_id k) (c_record k)) (ret ()))"

definition con_reset :: "'h env \<Rightarrow> nat \<Rightarrow> ('h, unit) act" where
  "con_reset E c = bindc (get_con c) (\<lambda>k.
     andthen (whenc (c_has_peers k \<and> rec_valid (c_record k))
                (andthen (upd_rec c (\<lambda>r. r\<lparr>connected_flag := 0\<rparr>)) (store_record E c)))
    (andthen (close_channels c)
    (andthen (update_dist_clear E (c_remote_id k))
    (andthen (upd_con c (\<lambda>k. k\<lparr>c_serv_clients := []\<rparr>))
             (goto_state c uninit)))))"

definition con_close :: "'h env \<Rightarrow> nat \<Rightarrow> ('h, unit) act" where
  "con_close E c = bindc (get_con c) (\<lambda>k.
     andthen (whenc (state_num received_dh \<le> state_num (c_state k)) (send_close E c)) (con_reset E c))"

text \<open>\<open>update_dist_index( nid, c )\<close>. Where another connection is found under the distance it is closed;
  that erases the map node the iterator points to whenever its remote id is \<open>nid\<close>, and the
  assignment through the iterator is then undefined.\<close>

definition update_dist_set :: "'h env \<Rightarrow> sha1 \<Rightarrow> nat \<Rightarrow> ('h, unit) act" where
  "update_dist_set E nid c = bindc getc (\<lambda>nd.
     let dist = xor nid (nd_id nd) in
     case sm_get (nd_dist_to_con nd) dist of
       None \<Rightarrow> andthen (kbuckets_add E c) (modc (\<lambda>nd. nd\<lparr>nd_dist_to_con := sm_put dist c (nd_dist_to_con nd)\<rparr>))
     | Some c' \<Rightarrow> whenc (c' \<noteq> c)
         (andthen (con_close E c') (bindc getc (\<lambda>nd.
            if sm_get (nd_dist_to_con nd) dist = None then raise (Undefined ''assignment through an erased iterator'')
            else modc (\<lambda>nd. nd\<lparr>nd_dist_to_con := sm_put dist c (nd_dist_to_con nd)\<rparr>)))))"

definition con_destroy :: "'h env \<Rightarrow> nat \<Rightarrow> ('h, unit) act" where
  "con_destroy E c = bindc (get_con c) (\<lambda>k.
     whenc (c_has_peers k \<and> rec_valid (c_record k))
       (andthen (upd_rec c (\<lambda>r. r\<lparr>connected_flag := 0\<rparr>)) (store_record E c)))"

text \<open>The constructor for an endpoint, and the one for an authenticated id.\<close>

definition con_init :: "endpoint \<Rightarrow> con" where
  "con_init ep = \<lparr>c_record = empty_record, c_next_chan_num = 1000, c_advance_count = 0, c_dh = None, c_bf = None,
     c_state = uninit, c_remote_id = 0, c_remote_ep = ep, c_public_ep = (0, 0), c_behind_nat = False, c_in_queue = [],
     c_route_lookups = [], c_serv_clients = [], c_channels = [], c_has_peers = True\<rparr>"

definition alloc_con :: "con \<Rightarrow> ('h, nat) act" where
  "alloc_con k nd = (Inr (nd_next_con nd),
     nd\<lparr>nd_cons := (nd_cons nd)(nd_next_con nd := k), nd_next_con := Suc (nd_next_con nd)\<rparr>)"

definition new_connection :: "'h env \<Rightarrow> endpoint \<Rightarrow> ('h, nat) act" where
  "new_connection E ep = bindc (alloc_con (con_init ep)) (\<lambda>c. bindc getc (\<lambda>nd.
     case peer_fetch_by_endpoint (en_db E) (nd_peers nd) ep of
       Some (rid, r) \<Rightarrow>
         andthen (upd_con c (\<lambda>k. k\<lparr>c_remote_id := rid, c_record := r, c_bf := Some (bf_key r)\<rparr>))
        (andthen (update_dist_set E rid c)
        (andthen (upd_con c (\<lambda>k. k\<lparr>c_state := connected\<rparr>))
        (andthen (upd_rec c (\<lambda>r. r\<lparr>connected_flag := 1\<rparr>))
        (andthen (store_record E c) (ret c)))))
     | None \<Rightarrow> andthen (upd_rec c (\<lambda>r. r\<lparr>last_ep := ep\<rparr>)) (ret c)))"

definition new_connection_auth :: "endpoint \<Rightarrow> sha1 \<Rightarrow> state_enum \<Rightarrow> ('h, nat) act" where
  "new_connection_auth ep auth_id init_state = alloc_con ((con_init ep)\<lparr>c_remote_id := auth_id, c_state := init_state\<rparr>)"

section \<open>Nodes near a target\<close>

text \<open>\<open>node::find_nodes_near\<close>: from the target's bucket down to bucket 0, in the order of the buckets. The limit
  is compared with the remote id.\<close>

fun near_bucket :: "(nat \<Rightarrow> con) \<Rightarrow> sha1 option \<Rightarrow> nat \<Rightarrow> host list \<Rightarrow> nat list \<Rightarrow> host list" where
  "near_bucket cons limit n near [] = near"
| "near_bucket cons limit n near (b # r) =
     (if n > length near then
        (if (case limit of None \<Rightarrow> False | Some l \<Rightarrow> l \<le> c_remote_id (cons b)) then near_bucket cons limit n near r
         else near_bucket cons limit n
           (near @ [\<lparr>host_id = c_remote_id (cons b), host_ep = c_remote_ep (cons b),
                     nat_hosts = (if c_behind_nat (cons b) then [(0, 0)] else [])\<rparr>]) r)
      else near)"

fun near_loop :: "(nat \<Rightarrow> con) \<Rightarrow> kbucket \<Rightarrow> sha1 option \<Rightarrow> nat \<Rightarrow> host list \<Rightarrow> nat \<Rightarrow> host list res" where
  "near_loop cons kb limit n near bid =
     (if n > length near then
        (case get_bucket kb (int bid) of
           Inl e \<Rightarrow> Inl e
         | Inr buck \<Rightarrow>
             (let near' = near_bucket cons limit n near buck in
              case bid of 0 \<Rightarrow> Inr near' | Suc b \<Rightarrow> near_loop cons kb limit n near' b))
      else Inr near)"

definition find_nodes_near :: "'h env \<Rightarrow> 'h node \<Rightarrow> sha1 \<Rightarrow> u32 \<Rightarrow> sha1 option \<Rightarrow> host list res" where
  "find_nodes_near E nd target n limit =
     (let bid = get_bucket_id_for_target (en_cr E) (nd_kbuckets nd) target in
      if bid < 0 then Inr [] else near_loop (nd_cons nd) (nd_kbuckets nd) limit (unat n) [] (nat bid))"

definition get_kbucket :: "'h node \<Rightarrow> int \<Rightarrow> int \<Rightarrow> sha1 list res" where
  "get_kbucket nd l mx =
     (case get_bucket (nd_kbuckets nd) l of
        Inl e \<Rightarrow> Inl e
      | Inr buck \<Rightarrow> Inr (map (\<lambda>c. c_remote_id (nd_cons nd c)) (take (nat mx) buck)))"

section \<open>Message handlers\<close>

definition handle_auth_resp_msg :: "'h env \<Rightarrow> nat \<Rightarrow> byte \<Rightarrow> ('h, bool) act" where
  "handle_auth_resp_msg E c b0 =
     (if b0 \<noteq> 0 then andthen (upd_rec c (\<lambda>r. r\<lparr>published_rank := b0\<rparr>)) (andthen (goto_state c connected) (ret True))
      else andthen (con_reset E c) (ret False))"

definition rank_of :: "crypto \<Rightarrow> sha1 \<Rightarrow> byte" where
  "rank_of cr h = of_int (161 - big_log2 cr h)"

definition handle_update_rank_msg :: "'h env \<Rightarrow> nat \<Rightarrow> byte list \<Rightarrow> ('h, bool) act" where
  "handle_update_rank_msg E c b =
     (if length b < 16 then ret False
      else bindc (get_con c) (\<lambda>k.
        let new_rank = rank_of (en_cr E) (sha1_hash (en_cr E) (take 16 b @ public_key (c_record k))) in
        andthen (whenc (rank (c_record k) < new_rank)
          (andthen (upd_rec c (\<lambda>r. r\<lparr>rank := new_rank, nonce := (of_le_bytes (take 8 b), of_le_bytes (take 8 (drop 8 b)))\<rparr>))
          (andthen (send_auth_response E c True) (store_record E c))))
        (ret True)))"

definition handle_close_msg :: "'h env \<Rightarrow> nat \<Rightarrow> ('h, bool) act" where
  "handle_close_msg E c = andthen (con_reset E c) (ret True)"

definition REVERSE_CONNECT_FEE :: u64 where "REVERSE_CONNECT_FEE = 2048 * 10"
definition REQUEST_REVERSE_CONNECT_FEE :: u64 where "REQUEST_REVERSE_CONNECT_FEE = 2048 * 11"
definition REQUEST_NODES_NEAR_FEE :: u64 where "REQUEST_NODES_NEAR_FEE = 2048 * 2"

definition request_reverse_connect :: "'h env \<Rightarrow> nat \<Rightarrow> endpoint \<Rightarrow> ('h, unit) act" where
  "request_reverse_connect E c ep =
     bindc (liftres (pack_packet (replicate 6 0) endpoint_write ep)) (\<lambda>rnpt.
       andthen (con_send E c rnpt req_reverse_connect_msg)
               (upd_rec c (\<lambda>r. r\<lparr>recv_credit := recv_credit r + REQUEST_REVERSE_CONNECT_FEE\<rparr>)))"

definition send_request_connect :: "'h env \<Rightarrow> nat \<Rightarrow> endpoint \<Rightarrow> ('h, unit) act" where
  "send_request_connect E c ep =
     bindc (liftres (pack_packet (replicate 6 0) endpoint_write ep)) (\<lambda>rnpt.
       andthen (con_send E c rnpt req_connect_msg)
               (upd_rec c (\<lambda>r. r\<lparr>recv_credit := recv_credit r + REVERSE_CONNECT_FEE\<rparr>)))"

definition unpackc :: "'a reader \<Rightarrow> 'a \<Rightarrow> byte list \<Rightarrow> ('s, 'a) cmd" where
  "unpackc rd x bs s = (case unpack_packet rd x bs of (Inl e, _) \<Rightarrow> (Inl e, s) | (Inr _, y) \<Rightarrow> (Inr y, s))"

definition handle_request_reverse_connect_msg :: "nat \<Rightarrow> byte list \<Rightarrow> ('h, bool) act" where
  "handle_request_reverse_connect_msg c b = bindc (unpackc endpoint_read (0, 0) b) (\<lambda>ep.
     andthen (post_task (T_request_connect ep c))
    (andthen (upd_rec c (\<lambda>r. r\<lparr>sent_credit := sent_credit r + REQUEST_REVERSE_CONNECT_FEE\<rparr>)) (ret True)))"

definition handle_request_connect_msg :: "nat \<Rightarrow> byte list \<Rightarrow> ('h, bool) act" where
  "handle_request_connect_msg c b = bindc (unpackc endpoint_read (0, 0) b) (\<lambda>ep.
     andthen (upd_rec c (\<lambda>r. r\<lparr>sent_credit := sent_credit r + REVERSE_CONNECT_FEE\<rparr>))
    (andthen (post_task (T_connect ep)) (ret True)))"

definition handle_lookup_msg :: "'h env \<Rightarrow> nat \<Rightarrow> byte list \<Rightarrow> ('h, bool) act" where
  "handle_lookup_msg E c b = bindc (unpackc lookup_read lookup_zero b) (\<lambda>p. bindc getc (\<lambda>nd.
     bindc (liftres (find_nodes_near E nd (lk_target p) (lk_num p) (if lk_l p \<noteq> 0 then Some (lk_limit p) else None))) (\<lambda>r.
       andthen (upd_rec c (\<lambda>x. x\<lparr>sent_credit := sent_credit x + REQUEST_NODES_NEAR_FEE\<rparr>))
      (bindc (liftres (pack_packet (replicate 2048 0) (route_write (lk_target p)) r)) (\<lambda>rb.
         andthen (con_send E c rb route_msg) (ret True))))))"

definition handle_route_msg :: "nat \<Rightarrow> byte list \<Rightarrow> ('h, bool) act" where
  "handle_route_msg c b = bindc (get_con c) (\<lambda>k.
     case route_header_read ((0, 0), ds_make b) of
       (Inl e, _) \<Rightarrow> raise e
     | (Inr _, ((target, num), ds)) \<Rightarrow>
         (case sm_get (c_route_lookups k) target of
            None \<Rightarrow> ret True
          | Some q \<Rightarrow> bindc (liftres (hosts_read (c_remote_ep k) (unat num) (entry_zero, ds))) (\<lambda>rt.
              andthen (emit (Ev_promise (rl_prom q) rt))
             (andthen (upd_con c (\<lambda>k. k\<lparr>c_route_lookups := sm_del target (c_route_lookups k)\<rparr>)) (ret True)))))"

definition create_channel :: "nat \<Rightarrow> u16 \<Rightarrow> u16 \<Rightarrow> ('h, nat) act" where
  "create_channel c rcn lcn = bindc getc (\<lambda>nd.
     case sm_get (nd_services nd) lcn of
       None \<Rightarrow> raise (Throw ''Unable to open channel, no services listening on that port'')
     | Some svc \<Rightarrow> bindc (new_channel c rcn lcn) (\<lambda>ch.
         bindc (liftres (svc_handler svc ch)) (\<lambda>rc. andthen (upd_chan ch (\<lambda>x. x\<lparr>ch_rc := rc\<rparr>)) (ret ch))))"

definition handle_data_msg :: "'h env \<Rightarrow> nat \<Rightarrow> byte list \<Rightarrow> ('h, bool) act" where
  "handle_data_msg E c b = bindc (get_con c) (\<lambda>k.
     if c_state k \<noteq> connected then andthen (con_close E c) (ret False)
     else bindc (unpackc chan_read (0, 0) b) (\<lambda>(src, dst).
       case sm_get (c_channels k) (chan_key dst src) of
         Some ch \<Rightarrow> andthen (chan_recv ch (drop 4 b) ec_ok) (ret True)
       | None \<Rightarrow> andthen
           (catchc (bindc (create_channel c src dst) (\<lambda>ch.
                      andthen (upd_con c (\<lambda>k. k\<lparr>c_channels := sm_put (chan_key dst src) ch (c_channels k)\<rparr>))
                              (chan_recv ch (drop 4 b) ec_ok)))
                   (\<lambda>e. ret ()))
           (ret True)))"

fun resend_lookups :: "'h env \<Rightarrow> nat \<Rightarrow> (sha1, route_lookup_request) std_map \<Rightarrow> ('h, unit) act" where
  "resend_lookups E c [] = ret ()"
| "resend_lookups E c ((target, q) # r) =
     bindc (liftres (pack_packet (replicate (lookup_size (rl_limit q)) 0) lookup_write (lookup_request target (rl_n q) (rl_limit q)))) (\<lambda>buf.
       andthen (con_send E c buf route_lookup_msg) (resend_lookups E c r))"

text \<open>The part of \<open>handle_auth_msg\<close> after the signature has been verified.\<close>

definition auth_record :: "crypto \<Rightarrow> u64 \<Rightarrow> endpoint \<Rightarrow> byte list \<Rightarrow> auth_packet \<Rightarrow> peer_record \<Rightarrow> peer_record" where
  "auth_record cr now ep key a r =
     r\<lparr>bf_key := take 56 key, public_key := overwrite 0 (au_pubk a) (public_key r), nonce := au_nonce a, last_ep := ep,
       first_contact := (if first_contact r = 0 then now else first_contact r), last_contact := now,
       rank := rank_of cr (sha1_hash cr (le_bytes 8 (fst (au_nonce a)) @ le_bytes 8 (snd (au_nonce a)) @ au_pubk a))\<rparr>"

definition accept_auth :: "'h env \<Rightarrow> nat \<Rightarrow> byte list \<Rightarrow> auth_packet \<Rightarrow> ('h, bool) act" where
  "accept_auth E c key a = bindc getc (\<lambda>nd.
     andthen (upd_con c (\<lambda>k. k\<lparr>c_behind_nat := (fst (c_public_ep k) \<noteq> fst (c_remote_ep k))\<rparr>))
    (andthen (set_remote_id c (sha1_hash (en_cr E) (au_pubk a)))
    (bindc (get_con c) (\<lambda>k.
     bindc (liftres (peer_fetch (en_db E) (nd_peers nd) (c_remote_id k) (c_record k))) (\<lambda>(_, r).
     andthen (upd_con c (\<lambda>k. k\<lparr>c_record := r\<lparr>bf_key := take 56 key\<rparr>\<rparr>))
    (if length (au_pubk a) > 256 then raise (Throw ''Attempt to write beyond end of buffer'')
     else
     andthen (upd_rec c (auth_record (en_cr E) (nd_now nd) (c_remote_ep k) key a))
    (andthen (send_auth_response E c True)
    (andthen (upd_rec c (\<lambda>r. r\<lparr>connected_flag := 1\<rparr>))
    (andthen (store_record E c)
    (andthen (update_dist_set E (c_remote_id k) c)
    (andthen (goto_state c connected)
    (andthen (resend_lookups E c (c_route_lookups k))
             (ret True)))))))))))))"

definition handle_auth_msg :: "'h env \<Rightarrow> nat \<Rightarrow> byte list \<Rightarrow> ('h, bool) act" where
  "handle_auth_msg E c b = bindc (unpackc (auth_read (en_cr E)) auth_zero b) (\<lambda>a.
     andthen (upd_con c (\<lambda>k. k\<lparr>c_public_ep := (au_ip a, au_port a)\<rparr>))
    (bindc (get_con c) (\<lambda>k.
     case c_dh k of
       None \<Rightarrow> raise (Assert_fail ''my->_dh'')
     | Some d \<Rightarrow>
         if dh_key d = [] then raise (Undefined ''front of an empty vector'')
         else if \<not> pk_verify (en_cr E) (au_pubk a) (auth_digest (en_cr E) (dh_key d) (au_utc a)) (au_sig a)
         then andthen (send_auth_response E c False) (andthen (send_close E c) (ret False))
         else accept_auth E c (dh_key d) a)))"

section \<open>Decoding a packet\<close>

text \<open>\<open>b[0]\<close> of an empty body is the byte after the header, so the handler of an authentication response is
  given that byte.\<close>

definition dispatch :: "'h env \<Rightarrow> nat \<Rightarrow> byte list \<Rightarrow> nat \<Rightarrow> proto_message_type \<Rightarrow> ('h, bool) act" where
  "dispatch E c plain pad t = bindc (liftres (frame_body plain pad)) (\<lambda>b.
     case t of
       data_msg \<Rightarrow> handle_data_msg E c b
     | auth_msg \<Rightarrow> handle_auth_msg E c b
     | auth_resp_msg \<Rightarrow> handle_auth_resp_msg E c (plain ! 4)
     | route_lookup_msg \<Rightarrow> handle_lookup_msg E c b
     | route_msg \<Rightarrow> handle_route_msg c b
     | close_msg \<Rightarrow> handle_close_msg E c
     | update_rank \<Rightarrow> handle_update_rank_msg E c b
     | req_reverse_connect_msg \<Rightarrow> handle_request_reverse_connect_msg c b
     | req_connect_msg \<Rightarrow> handle_request_connect_msg c b)"

text \<open>The buffer is the front of the connection's queue and is decrypted in place; what it then holds is
  returned for the handlers that go on with it.\<close>

definition set_front :: "nat \<Rightarrow> byte list \<Rightarrow> ('h, unit) act" where
  "set_front c b = upd_con c (\<lambda>k. k\<lparr>c_in_queue := (case c_in_queue k of [] \<Rightarrow> [] | _ # r \<Rightarrow> b # r)\<rparr>)"

definition decode_packet :: "'h env \<Rightarrow> nat \<Rightarrow> byte list \<Rightarrow> ('h, bool \<times> byte list) act" where
  "decode_packet E c b = bindc getc (\<lambda>nd.
     andthen (upd_rec c (\<lambda>r. r\<lparr>last_contact := nd_now nd\<rparr>))
    (bindc (get_con c) (\<lambda>k.
     case c_bf k of
       None \<Rightarrow> raise (Assert_fail ''my->_bf'')
     | Some key \<Rightarrow> bindc (liftres (frame_open (en_cr E) key b)) (\<lambda>(plain, hdr).
         andthen (set_front c plain)
        (case hdr of
           None \<Rightarrow> ret (False, plain)
         | Some (code, pad) \<Rightarrow>
             (case msg_of_code code of
                None \<Rightarrow> ret (True, plain)
              | Some t \<Rightarrow> bindc (dispatch E c plain pad t) (\<lambda>ok. ret (ok, plain))))))))"

section \<open>The handlers of the states\<close>

definition is_dh :: "byte list \<Rightarrow> bool" where
  "is_dh b \<longleftrightarrow> length b mod 8 \<noteq> 0 \<and> length b > 56"

definition key_exchange :: "'h env \<Rightarrow> nat \<Rightarrow> byte list \<Rightarrow> ('h, unit) act" where
  "key_exchange E c b = bindc (process_dh E c b) (\<lambda>ok. whenc ok (send_auth E c))"

definition handle_unknown :: "'h env \<Rightarrow> nat \<Rightarrow> byte list \<Rightarrow> ('h, unit) act" where
  "handle_unknown E c b = bindc (get_con c) (\<lambda>k.
     andthen (assertc (c_state k = uninit) ''my->_cur_state == uninit'')
    (if is_dh b
     then andthen (generate_dh E c) (andthen (send_dh E c) (andthen (key_exchange E c b) (goto_state c received_dh)))
     else andthen (generate_dh E c) (andthen (send_dh E c) (goto_state c generated_dh))))"

definition forget_peer :: "'h env \<Rightarrow> nat \<Rightarrow> ('h, unit) act" where
  "forget_peer E c = bindc (get_con c) (\<lambda>k.
     andthen (whenc (c_has_peers k \<and> rec_valid (c_record k))
       (andthen (upd_rec c (\<lambda>r. r\<lparr>last_ep := (0, 0), bf_key := replicate 56 0, connected_flag := 0\<rparr>)) (store_record E c)))
     (upd_con c (\<lambda>k. k\<lparr>c_record := empty_record\<lparr>last_ep := c_remote_ep k\<rparr>\<rparr>)))"

text \<open>\<open>handle_uninit\<close> and \<open>handle_connected\<close> call each other, at most once per database record with the endpoint:
  \<open>n\<close> bounds the calls.\<close>

fun handle_uninit :: "nat \<Rightarrow> 'h env \<Rightarrow> nat \<Rightarrow> byte list \<Rightarrow> ('h, unit) act"
  and handle_connected :: "nat \<Rightarrow> 'h env \<Rightarrow> nat \<Rightarrow> byte list \<Rightarrow> ('h, unit) act" where
  "handle_uninit 0 E c b = raise Out_of_fuel"
| "handle_uninit (Suc n) E c b = bindc getc (\<lambda>nd.
     case peer_fetch_by_endpoint (en_db E) (nd_peers nd) (c_remote_ep (nd_cons nd c)) of
       Some (rid, r) \<Rightarrow>
         andthen (upd_con c (\<lambda>k. k\<lparr>c_remote_id := rid, c_record := r, c_bf := Some (bf_key r)\<rparr>))
        (andthen (update_dist_set E rid c)
        (andthen (upd_rec c (\<lambda>r. r\<lparr>connected_flag := 1\<rparr>))
        (andthen (store_record E c)
        (andthen (goto_state c connected)
                 (handle_connected n E c b)))))
     | None \<Rightarrow> handle_unknown E c b)"
| "handle_connected 0 E c b = raise Out_of_fuel"
| "handle_connected (Suc n) E c b = bindc (get_con c) (\<lambda>k.
     andthen (assertc (c_state k = connected) ''my->_cur_state == connected'')
    (bindc (if length b mod 8 = 0 then decode_packet E c b else ret (False, b)) (\<lambda>(ok, b').
       if ok then ret ()
       else andthen (forget_peer E c) (andthen (con_reset E c) (handle_uninit n E c b')))))"

definition handle_generated_dh :: "'h env \<Rightarrow> nat \<Rightarrow> byte list \<Rightarrow> ('h, unit) act" where
  "handle_generated_dh E c b = bindc (get_con c) (\<lambda>k.
     andthen (assertc (c_state k = generated_dh) ''my->_cur_state == generated_dh'')
    (if is_dh b then andthen (key_exchange E c b) (goto_state c received_dh)
     else send_dh E c))"

definition handle_received_dh :: "nat \<Rightarrow> 'h env \<Rightarrow> nat \<Rightarrow> byte list \<Rightarrow> ('h, unit) act" where
  "handle_received_dh n E c b = bindc (get_con c) (\<lambda>k.
     andthen (assertc (c_state k = received_dh) ''my->_cur_state == received_dh'')
    (if is_dh b then andthen (send_dh E c) (key_exchange E c b)
     else if length b mod 8 = 0
     then bindc (decode_packet E c b) (\<lambda>(ok, b').
       if ok then ret () else andthen (goto_state c uninit) (handle_uninit n E c b'))
     else ret ()))"

definition handle_authenticated :: "nat \<Rightarrow> 'h env \<Rightarrow> nat \<Rightarrow> byte list \<Rightarrow> ('h, unit) act" where
  "handle_authenticated n E c b = bindc (get_con c) (\<lambda>k.
     andthen (assertc (c_state k = authenticated) ''my->_cur_state == authenticated'')
    (if length b mod 8 = 0
     then bindc (decode_packet E c b) (\<lambda>(ok, b').
       if ok then ret () else andthen (con_reset E c) (handle_uninit n E c b'))
     else whenc (length b > 56) (andthen (con_reset E c) (handle_uninit n E c b))))"

definition call_bound :: "'h env \<Rightarrow> 'h node \<Rightarrow> nat" where
  "call_bound E nd = 2 * length (db_recs (en_db E) (pd_handle (nd_peers nd))) + 3"

definition con_handle_packet :: "'h env \<Rightarrow> nat \<Rightarrow> byte list \<Rightarrow> ('h, unit) act" where
  "con_handle_packet E c b = bindc getc (\<lambda>nd. let n = call_bound E nd in
     case c_state (nd_cons nd c) of
       failed \<Rightarrow> ret ()
     | uninit \<Rightarrow> handle_uninit n E c b
     | generated_dh \<Rightarrow> handle_generated_dh E c b
     | received_dh \<Rightarrow> handle_received_dh n E c b
     | authenticated \<Rightarrow> handle_authenticated n E c b
     | connected \<Rightarrow> handle_connected n E c b)"

definition process_next_message :: "'h env \<Rightarrow> nat \<Rightarrow> ('h, unit) act" where
  "process_next_message E c = bindc (get_con c) (\<lambda>k.
     case c_in_queue k of
       [] \<Rightarrow> raise (Undefined ''front of an empty list'')
     | b # _ \<Rightarrow> andthen (con_handle_packet E c b) (upd_con c (\<lambda>k. k\<lparr>c_in_queue := tl (c_in_queue k)\<rparr>)))"

section \<open>Advancing\<close>

definition advance :: "'h env \<Rightarrow> nat \<Rightarrow> ('h, unit) act" where
  "advance E c = andthen (upd_con c (\<lambda>k. k\<lparr>c_advance_count := c_advance_count k + 1\<rparr>)) (bindc (get_con c) (\<lambda>k.
     if 10 \<le> c_advance_count k then goto_state c failed
     else case c_state k of
       failed \<Rightarrow> ret ()
     | uninit \<Rightarrow> andthen (generate_dh E c) (andthen (send_dh E c) (goto_state c generated_dh))
     | generated_dh \<Rightarrow> send_dh E c
     | received_dh \<Rightarrow> andthen (send_dh E c) (send_auth E c)
     | authenticated \<Rightarrow> send_auth_response E c True
     | connected \<Rightarrow> upd_con c (\<lambda>k. k\<lparr>c_advance_count := 0\<rparr>)))"

text \<open>\<open>connection::find_nodes_near\<close> up to the wait for the promise, its return after the promise is set, and its
  handler of a timeout.\<close>

definition lookup_begin :: "'h env \<Rightarrow> nat \<Rightarrow> sha1 \<Rightarrow> u32 \<Rightarrow> sha1 option \<Rightarrow> ('h, nat) act" where
  "lookup_begin E c target n limit = bindc getc (\<lambda>nd. bindc (get_con c) (\<lambda>k.
     andthen (whenc (ucast (published_rank (c_record k)) < nd_rank nd) (send_update_rank E c))
    (andthen (modc (\<lambda>nd. nd\<lparr>nd_next_prom := Suc (nd_next_prom nd)\<rparr>))
    (andthen (upd_con c (\<lambda>k. k\<lparr>c_route_lookups := sm_put target \<lparr>rl_prom = nd_next_prom nd, rl_n = n, rl_limit = limit\<rparr> (c_route_lookups k)\<rparr>))
    (bindc (liftres (pack_packet (replicate (lookup_size limit) 0) lookup_write (lookup_request target n limit))) (\<lambda>buf.
       andthen (con_send E c buf route_lookup_msg) (ret (nd_next_prom nd))))))))"

definition lookup_finish :: "nat \<Rightarrow> sha1 \<Rightarrow> u64 \<Rightarrow> u64 \<Rightarrow> ('h, unit) act" where
  "lookup_finish c target start_time end_time =
     andthen (upd_rec c (\<lambda>r. r\<lparr>avg_rtt_us := ucast ((ucast (avg_rtt_us r * 7) + (end_time - start_time)) div 8)\<rparr>))
    (bindc (get_con c) (\<lambda>k. andthen (assertc (sm_get (c_route_lookups k) target = None) ''lookup removed'')
       (upd_rec c (\<lambda>r. r\<lparr>recv_credit := recv_credit r + REQUEST_NODES_NEAR_FEE\<rparr>))))"

definition lookup_failed :: "nat \<Rightarrow> sha1 \<Rightarrow> ('h, unit) act" where
  "lookup_failed c target =
     andthen (upd_con c (\<lambda>k. k\<lparr>c_route_lookups := sm_del target (c_route_lookups k)\<rparr>))
    (andthen (post_task (T_close c)) (raise (Throw ''lookup timed out'')))"

definition get_client :: "con \<Rightarrow> string \<Rightarrow> nat option" where
  "get_client k n = map_of (c_serv_clients k) n"

definition add_client :: "nat \<Rightarrow> string \<Rightarrow> nat \<Rightarrow> ('h, unit) act" where
  "add_client c name p = upd_con c (\<lambda>k. k\<lparr>c_serv_clients := AList.update name p (c_serv_clients k)\<rparr>)"

end
