(* ===== verification/Node.thy ===== *)
theory Node
  imports Connection
begin

text \<open>
  The node of src/node.cpp and src/node_impl.hpp: the loop that reads datagrams and posts them to
  their connections, the queue from which messages are processed, establishing connections,
  channels and services. The fibers of the node's thread run one at a time, between the points where
  they yield: the step relation of the theory of reachable states interleaves these pieces.
\<close>

section \<open>Reading and processing packets\<close>

text \<open>\<open>pq_comparer\<close> orders the heap so that its front is a connection no other one has a lower priority than.
  Which of several equal ones it is the library leaves open; here it is the first.\<close>

definition pq_comparer :: "'h node \<Rightarrow> nat \<Rightarrow> nat \<Rightarrow> bool" where
  "pq_comparer nd l r = flt_gt (priority (c_record (nd_cons nd l))) (priority (c_record (nd_cons nd r)))"

definition pq_front :: "'h node \<Rightarrow> nat option" where
  "pq_front nd = find (\<lambda>c. \<forall>d \<in> set (nd_process_queue nd). \<not> pq_comparer nd c d) (nd_process_queue nd)"

definition process_connection :: "nat \<Rightarrow> ('h, unit) act" where
  "process_connection c = bindc getc (\<lambda>nd.
     if pending_packets (nd_cons nd c) > 1 then ret ()
     else andthen (modc (\<lambda>nd. nd\<lparr>nd_process_queue := nd_process_queue nd @ [c]\<rparr>))
       (whenc (\<not> nd_processing nd)
          (andthen (modc (\<lambda>nd. nd\<lparr>nd_processing := True\<rparr>)) (post_task T_process_queue))))"

definition set_ep_to_con :: "endpoint \<Rightarrow> nat \<Rightarrow> ('h, unit) act" where
  "set_ep_to_con ep c = modc (\<lambda>nd. nd\<lparr>nd_ep_to_con := sm_put ep c (nd_ep_to_con nd)\<rparr>)"

definition node_handle_packet :: "'h env \<Rightarrow> byte list \<Rightarrow> endpoint \<Rightarrow> ('h, unit) act" where
  "node_handle_packet E b ep = bindc getc (\<lambda>nd.
     case sm_get (nd_ep_to_con nd) ep of
       None \<Rightarrow> bindc (new_connection E ep) (\<lambda>c.
         andthen (set_ep_to_con ep c) (andthen (post_packet c b) (process_connection c)))
     | Some c \<Rightarrow> andthen (post_packet c b) (process_connection c))"

text \<open>One round of \<open>read_loop\<close>. The handler of exceptions is outside the loop, which ends with the first one.\<close>

definition read_round :: "'h env \<Rightarrow> byte list \<Rightarrow> endpoint \<Rightarrow> ('h, unit) act" where
  "read_round E b from =
     (if length b = 0 then ret ()
      else catchc (node_handle_packet E b from) (\<lambda>e. modc (\<lambda>nd. nd\<lparr>nd_reading := False\<rparr>)))"

text \<open>One round of \<open>process_queue\<close>; the result says whether the fiber goes on.\<close>

definition process_round :: "'h env \<Rightarrow> ('h, bool) act" where
  "process_round E = bindc getc (\<lambda>nd.
     case pq_front nd of
       None \<Rightarrow> andthen (modc (\<lambda>nd. nd\<lparr>nd_processing := False\<rparr>)) (ret False)
     | Some c \<Rightarrow> andthen (process_next_message E c) (bindc getc (\<lambda>nd.
         case pq_front nd of
           None \<Rightarrow> raise (Undefined ''front of an empty vector'')
         | Some d \<Rightarrow> andthen (whenc (pending_packets (nd_cons nd d) = 0)
             (modc (\<lambda>nd. nd\<lparr>nd_process_queue := remove1 d (nd_process_queue nd)\<rparr>))) (ret True))))"

section \<open>Connecting\<close>

definition connect_begin :: "'h env \<Rightarrow> endpoint \<Rightarrow> ('h, nat) act" where
  "connect_begin E ep = bindc getc (\<lambda>nd.
     case sm_get (nd_ep_to_con nd) ep of
       Some c \<Rightarrow> ret c
     | None \<Rightarrow> bindc (new_connection E ep) (\<lambda>c. andthen (set_ep_to_con ep c) (ret c)))"

text \<open>One round of the loop of \<open>connect_to\<close>, up to its wait for a change of state: \<open>Some\<close> is the return.\<close>

definition connect_round :: "'h env \<Rightarrow> nat \<Rightarrow> ('h, sha1 option) act" where
  "connect_round E c = bindc (get_con c) (\<lambda>k.
     case c_state k of
       failed \<Rightarrow> andthen (con_close E c) (raise (Throw ''Attempt to connect failed''))
     | connected \<Rightarrow> ret (Some (c_remote_id k))
     | _ \<Rightarrow> andthen (advance E c) (ret None))"

text \<open>\<open>connect_to\<close> through a NAT host: a known endpoint returns at once.\<close>

definition connect_nat_begin :: "'h env \<Rightarrow> endpoint \<Rightarrow> endpoint \<Rightarrow> ('h, sha1 + nat) act" where
  "connect_nat_begin E ep nat_ep = bindc getc (\<lambda>nd.
     case sm_get (nd_ep_to_con nd) ep of
       Some c \<Rightarrow> ret (Inl (c_remote_id (nd_cons nd c)))
     | None \<Rightarrow>
         (case sm_get (nd_ep_to_con nd) nat_ep of
            None \<Rightarrow> raise (Throw ''No active connection to NAT endpoint'')
          | Some nat_con \<Rightarrow>
              if c_state (nd_cons nd nat_con) \<noteq> connected then raise (Throw ''No active connection to NAT endpoint'')
              else bindc (new_connection E ep) (\<lambda>con.
                andthen (set_ep_to_con ep con)
               (andthen (send_punch con)
               (andthen (request_reverse_connect E nat_con ep)
                        (ret (Inr con)))))))"

definition connect_nat_round :: "nat \<Rightarrow> ('h, sha1 option) act" where
  "connect_nat_round c = bindc (get_con c) (\<lambda>k.
     case c_state k of
       failed \<Rightarrow> raise (Throw ''Attempt to connect failed'')
     | connected \<Rightarrow> ret (Some (c_remote_id k))
     | _ \<Rightarrow> ret None)"

section \<open>Channels, services, lookups\<close>

definition get_connection :: "sha1 \<Rightarrow> ('h, nat) act" where
  "get_connection remote_id = bindc getc (\<lambda>nd.
     case sm_get (nd_dist_to_con nd) (xor remote_id (nd_id nd)) of
       Some c \<Rightarrow> ret c
     | None \<Rightarrow> raise (Throw ''No known connection''))"

definition open_channel :: "sha1 \<Rightarrow> u16 \<Rightarrow> ('h, nat) act" where
  "open_channel nid remote_chan_num = bindc (get_connection nid) (\<lambda>c.
     bindc (get_free_channel_num c) (\<lambda>l. bindc (new_channel c remote_chan_num l) (\<lambda>ch. andthen (add_channel c ch) (ret ch))))"

definition start_service :: "u16 \<Rightarrow> string \<Rightarrow> (nat \<Rightarrow> bool res) \<Rightarrow> ('h, unit) act" where
  "start_service cn name cb = bindc getc (\<lambda>nd.
     if sm_get (nd_services nd) cn \<noteq> None then raise (Throw ''Unable to start service, channel is in use'')
     else modc (\<lambda>nd. nd\<lparr>nd_services := sm_put cn \<lparr>svc_port = cn, svc_name = name, svc_handler = cb\<rparr> (nd_services nd)\<rparr>))"

definition close_service :: "u16 \<Rightarrow> ('h, unit) act" where
  "close_service cn = ret ()"

definition remote_nodes_near :: "'h env \<Rightarrow> sha1 \<Rightarrow> sha1 \<Rightarrow> u32 \<Rightarrow> sha1 option \<Rightarrow> ('h, nat) act" where
  "remote_nodes_near E rnode target n limit = bindc (get_connection rnode) (\<lambda>c. lookup_begin E c target n limit)"

definition active_peers :: "'h node \<Rightarrow> peer_record list" where
  "active_peers nd = map (\<lambda>e. c_record (nd_cons nd (snd e))) (nd_dist_to_con nd)"

definition node_add_client :: "sha1 \<Rightarrow> string \<Rightarrow> nat \<Rightarrow> ('h, unit) act" where
  "node_add_client nid name p = bindc (get_connection nid) (\<lambda>c. add_client c name p)"

definition node_get_client :: "sha1 \<Rightarrow> string \<Rightarrow> ('h, nat option) act" where
  "node_get_client nid name = bindc (get_connection nid) (\<lambda>c. bindc (get_con c) (\<lambda>k. ret (get_client k name)))"

fun close_all :: "'h env \<Rightarrow> nat list \<Rightarrow> ('h, unit) act" where
  "close_all E [] = ret ()"
| "close_all E (c # r) = andthen (con_close E c) (close_all E r)"

definition shutdown :: "'h env \<Rightarrow> ('h, unit) act" where
  "shutdown E = bindc getc (\<lambda>nd.
     andthen (close_all E (map snd (nd_ep_to_con nd))) (modc (\<lambda>nd. nd\<lparr>nd_ep_to_con := []\<rparr>)))"

text \<open>Tasks other parts post to the node's thread.\<close>

definition run_node_task :: "'h env \<Rightarrow> task \<Rightarrow> ('h, unit) act" where
  "run_node_task E t = (case t of
     T_process_queue \<Rightarrow> bindc (process_round E) (\<lambda>more. whenc more (post_task T_process_queue))
   | T_request_connect ep c \<Rightarrow> bindc getc (\<lambda>nd.
       case sm_get (nd_ep_to_con nd) ep of
         None \<Rightarrow> ret ()
       | Some d \<Rightarrow> send_request_connect E d (c_remote_ep (nd_cons nd c)))
   | T_connect ep \<Rightarrow> bindc (connect_begin E ep) (\<lambda>c. andthen (connect_round E c) (ret ()))
   | T_close c \<Rightarrow> con_close E c)"

section \<open>Starting\<close>

text \<open>\<open>node::impl::impl\<close> and \<open>node::init\<close>: a stored identity (keys and nonce) gives the rank; a fresh one has
  rank 0 and nonce 0. The peer database holds what earlier runs stored.\<close>

definition node_rank :: "crypto \<Rightarrow> u64 \<times> u64 \<Rightarrow> byte list \<Rightarrow> u32" where
  "node_rank cr nn pub = of_int (161 - big_log2 cr (sha1_hash cr (le_bytes 8 (fst nn) @ le_bytes 8 (snd nn) @ pub)))"

definition node_init :: "crypto \<Rightarrow> u32 \<Rightarrow> (byte list \<times> byte list) \<Rightarrow> (u64 \<times> u64) option \<Rightarrow> 'h \<Rightarrow> (endpoint \<Rightarrow> u32) \<Rightarrow> u16 \<Rightarrow> 'h node" where
  "node_init cr garbage keys stored h addr port =
     (let nid = sha1_hash cr (fst keys); nn = (case stored of None \<Rightarrow> (0, 0) | Some nn \<Rightarrow> nn) in
      \<lparr>nd_id = nid, nd_rank = (if stored = None then 0 else node_rank cr nn (fst keys)), nd_nonce = nn,
       nd_priv_key = snd keys, nd_pub_key = fst keys, nd_services = [], nd_ep_to_con = [], nd_dist_to_con = [],
       nd_kbuckets = kb_set_id nid (kb_new garbage), nd_process_queue = [], nd_processing = False, nd_reading = True,
       nd_peers = \<lparr>pd_node_id = nid, pd_handle = h\<rparr>, nd_local_addr = addr, nd_port = port,
       nd_cons = (\<lambda>_. con_init (0, 0)), nd_next_con = 0,
       nd_chans = (\<lambda>_. \<lparr>ch_rc = False, ch_con = None, ch_closed = False, ch_rport = 0, ch_lport = 0\<rparr>), nd_next_chan = 0,
       nd_next_prom = 0, nd_now = 0, nd_rand_ctr = 0, nd_dh_ctr = 0, nd_sent = [], nd_events = [], nd_tasks = []\<rparr>)"

end
