(* ===== verification/Node_Inv.thy ===== *)
theory Node_Inv
  imports Node
begin

text \<open>
  The invariant of a node and that every operation keeps it. \<open>hoare P m Q X\<close> is the usual partial
  correctness of a state-and-exception operation, with a postcondition \<open>X\<close> for exceptions; the
  rules below follow the syntax of the operations.
\<close>

section \<open>Triples\<close>

definition hoare :: "('s \<Rightarrow> bool) \<Rightarrow> ('s, 'a) cmd \<Rightarrow> ('a \<Rightarrow> 's \<Rightarrow> bool) \<Rightarrow> (exn \<Rightarrow> 's \<Rightarrow> bool) \<Rightarrow> bool" where
  "hoare P m Q X \<longleftrightarrow> (\<forall>s. P s \<longrightarrow> (case m s of (Inr a, s') \<Rightarrow> Q a s' | (Inl e, s') \<Rightarrow> X e s'))"

lemma hoareI: "(\<And>s. P s \<Longrightarrow> (case m s of (Inr a, s') \<Rightarrow> Q a s' | (Inl e, s') \<Rightarrow> X e s')) \<Longrightarrow> hoare P m Q X"
  by (simp add: hoare_def)

lemma hoare_pre: "hoare P m Q X \<Longrightarrow> (\<And>s. P' s \<Longrightarrow> P s) \<Longrightarrow> hoare P' m Q X"
  by (simp add: hoare_def)

lemma hoare_post: "hoare P m Q X \<Longrightarrow> (\<And>a s. Q a s \<Longrightarrow> Q' a s) \<Longrightarrow> hoare P m Q' X"
  unfolding hoare_def by (fastforce split: prod.splits sum.splits)

lemma hoare_exn: "hoare P m Q X \<Longrightarrow> (\<And>e s. X e s \<Longrightarrow> X' e s) \<Longrightarrow> hoare P m Q X'"
  unfolding hoare_def by (fastforce split: prod.splits sum.splits)

lemma hoare_ret: "(\<And>s. P s \<Longrightarrow> Q a s) \<Longrightarrow> hoare P (ret a) Q X"
  by (simp add: hoare_def ret_def)

lemma hoare_raise: "(\<And>s. P s \<Longrightarrow> X e s) \<Longrightarrow> hoare P (raise e) Q X"
  by (simp add: hoare_def raise_def)

lemma hoare_modc: "(\<And>s. P s \<Longrightarrow> Q () (f s)) \<Longrightarrow> hoare P (modc f) Q X"
  by (simp add: hoare_def modc_def)

lemma hoare_liftres: "(\<And>s a. P s \<Longrightarrow> r = Inr a \<Longrightarrow> Q a s) \<Longrightarrow> (\<And>s e. P s \<Longrightarrow> r = Inl e \<Longrightarrow> X e s) \<Longrightarrow> hoare P (liftres r) Q X"
  by (cases r) (simp_all add: hoare_def liftres_def)

lemma hoare_bindc:
  assumes "hoare P m R X" "\<And>a. hoare (R a) (k a) Q X"
  shows "hoare P (bindc m k) Q X"
  unfolding hoare_def
proof (intro allI impI)
  fix s assume "P s"
  then have "case m s of (Inr a, s') \<Rightarrow> R a s' | (Inl e, s') \<Rightarrow> X e s'" using assms(1) by (simp add: hoare_def)
  then show "case bindc m k s of (Inr a, s') \<Rightarrow> Q a s' | (Inl e, s') \<Rightarrow> X e s'"
    using assms(2) [unfolded hoare_def] by (cases "m s"; cases "fst (m s)") (simp_all add: bindc_def)
qed

lemma hoare_andthen: "hoare P m (\<lambda>_. R) X \<Longrightarrow> hoare R k Q X \<Longrightarrow> hoare P (andthen m k) Q X"
  unfolding andthen_def by (rule hoare_bindc)

lemma hoare_getc: "(\<And>nd. hoare (\<lambda>s. P s \<and> s = nd) (k nd) Q X) \<Longrightarrow> hoare P (bindc getc k) Q X"
  by (simp add: hoare_def bindc_def getc_def)

lemma hoare_get_con: "(\<And>x. hoare (\<lambda>nd. P nd \<and> nd_cons nd c = x) (k x) Q X) \<Longrightarrow> hoare P (bindc (get_con c) k) Q X"
  by (simp add: hoare_def act_simps)

lemma hoare_get_chan: "(\<And>x. hoare (\<lambda>nd. P nd \<and> nd_chans nd c = x) (k x) Q X) \<Longrightarrow> hoare P (bindc (get_chan c) k) Q X"
  by (simp add: hoare_def act_simps)

lemma hoare_whenc: "(b \<Longrightarrow> hoare P m (\<lambda>_. Q) X) \<Longrightarrow> (\<And>s. \<not> b \<Longrightarrow> P s \<Longrightarrow> Q s) \<Longrightarrow> hoare P (whenc b m) (\<lambda>_. Q) X"
  by (cases b) (simp_all add: whenc_def hoare_ret)

lemma hoare_catchc:
  assumes "hoare P m Q R" "\<And>t. hoare (R (Throw t)) (h (Throw t)) Q X" "\<And>e s. R e s \<Longrightarrow> X e s"
  shows "hoare P (catchc m h) Q X"
  unfolding hoare_def
proof (intro allI impI)
  fix s assume "P s"
  then have "case m s of (Inr a, s') \<Rightarrow> Q a s' | (Inl e, s') \<Rightarrow> R e s'" using assms(1) by (simp add: hoare_def)
  then show "case catchc m h s of (Inr a, s') \<Rightarrow> Q a s' | (Inl e, s') \<Rightarrow> X e s'"
    using assms(2) [unfolded hoare_def] assms(3)
    by (cases "m s"; cases "fst (m s)"; cases "projl (fst (m s))") (simp_all add: catchc_def)
qed

section \<open>The invariant\<close>

text \<open>What holds of a connection: it is never in the state \<open>authenticated\<close>; once it has sent or received a
  Diffie-Hellman key it has a key pair, once it has received one it has a 56-byte shared key, and in the
  states in which frames are exchanged it has a cipher.\<close>

definition keyed :: "con \<Rightarrow> bool" where
  "keyed k \<longleftrightarrow> (\<exists>d. c_dh k = Some d \<and> length (dh_key d) = 56)"

definition con_ok :: "con \<Rightarrow> bool" where
  "con_ok k \<longleftrightarrow> c_state k \<noteq> authenticated \<and> (c_state k = generated_dh \<longrightarrow> c_dh k \<noteq> None) \<and>
     (c_state k = received_dh \<longrightarrow> keyed k \<and> c_bf k \<noteq> None) \<and> (c_state k = connected \<longrightarrow> c_bf k \<noteq> None) \<and>
     sm_ok (c_channels k) \<and> sm_ok (c_route_lookups k)"

definition env_ok :: "'h env \<Rightarrow> bool" where
  "env_ok E \<longleftrightarrow> bdb_ok (en_db E) \<and> (\<forall>a b. length (dh_shared (en_cr E) a b) \<le> 56)"

text \<open>The indexes of the node: an endpoint leads to a connection with that remote endpoint, all
  pointers are to connections that exist, the tables are well formed, the peer database holds
  every record under its identity, and service handlers end with a return or a C++ exception.\<close>

definition node_ok :: "'h env \<Rightarrow> 'h node \<Rightarrow> bool" where
  "node_ok E nd \<longleftrightarrow> (\<forall>c. con_ok (nd_cons nd c)) \<and>
     sm_ok (nd_ep_to_con nd) \<and> sm_ok (nd_dist_to_con nd) \<and> sm_ok (nd_services nd) \<and>
     (\<forall>ep c. sm_get (nd_ep_to_con nd) ep = Some c \<longrightarrow> c < nd_next_con nd \<and> c_remote_ep (nd_cons nd c) = ep) \<and>
     (\<forall>d c. sm_get (nd_dist_to_con nd) d = Some c \<longrightarrow> c < nd_next_con nd \<and> c_bf (nd_cons nd c) \<noteq> None) \<and>
     (\<forall>c \<in> set (nd_process_queue nd). c < nd_next_con nd) \<and>
     kb_wf (nd_kbuckets nd) \<and> kb_node_id (nd_kbuckets nd) = nd_id nd \<and>
     pd_node_id (nd_peers nd) = nd_id nd \<and> peer_inv (en_cr E) (en_db E) (nd_peers nd) \<and>
     (\<forall>p svc ch e. sm_get (nd_services nd) p = Some svc \<and> svc_handler svc ch = Inl e \<longrightarrow> (\<exists>t. e = Throw t))"

text \<open>\<open>ninv E S F\<close> adds facts no operation undoes: the connections in \<open>S\<close> have a cipher, those of \<open>F\<close> exist and
  have the given remote endpoint.\<close>

definition ninv :: "'h env \<Rightarrow> nat set \<Rightarrow> (nat \<times> endpoint) set \<Rightarrow> 'h node \<Rightarrow> bool" where
  "ninv E S F nd \<longleftrightarrow> node_ok E nd \<and> (\<forall>c \<in> S. c_bf (nd_cons nd c) \<noteq> None) \<and>
     (\<forall>(c, ep) \<in> F. c < nd_next_con nd \<and> c_remote_ep (nd_cons nd c) = ep)"

text \<open>The assertions on states and cipher never fail.\<close>

definition bad_asserts :: "exn set" where
  "bad_asserts = Assert_fail ` {''my->_bf'', ''my->_cur_state == uninit'', ''my->_cur_state == generated_dh'',
     ''my->_cur_state == received_dh'', ''my->_cur_state == authenticated'', ''my->_cur_state == connected''}"

definition fine :: "'h env \<Rightarrow> nat set \<Rightarrow> (nat \<times> endpoint) set \<Rightarrow> exn \<Rightarrow> 'h node \<Rightarrow> bool" where
  "fine E S F e nd \<longleftrightarrow> e \<notin> bad_asserts \<and> ninv E S F nd"

text \<open>An operation that keeps the invariant whatever facts are known.\<close>

definition safe :: "'h env \<Rightarrow> nat set \<Rightarrow> (nat \<times> endpoint) set \<Rightarrow> ('h, 'a) act \<Rightarrow> bool" where
  "safe E S F m \<longleftrightarrow> hoare (ninv E S F) m (\<lambda>_. ninv E S F) (fine E S F)"

named_theorems safe_intros \<open>operations that keep the invariant\<close>

lemma safe_ret [safe_intros]: "safe E S F (ret a)" by (simp add: safe_def hoare_ret)
lemma safe_bindc [safe_intros]: "safe E S F m \<Longrightarrow> (\<And>a. safe E S F (k a)) \<Longrightarrow> safe E S F (bindc m k)"
  unfolding safe_def by (rule hoare_bindc)
lemma safe_andthen [safe_intros]: "safe E S F m \<Longrightarrow> safe E S F k \<Longrightarrow> safe E S F (andthen m k)"
  unfolding safe_def by (rule hoare_andthen)
lemma safe_whenc [safe_intros]: "(b \<Longrightarrow> safe E S F m) \<Longrightarrow> safe E S F (whenc b m)"
  unfolding safe_def by (rule hoare_whenc)
lemma safe_if [safe_intros]: "(b \<Longrightarrow> safe E S F m) \<Longrightarrow> (\<not> b \<Longrightarrow> safe E S F k) \<Longrightarrow> safe E S F (if b then m else k)"
  by simp
lemma safe_getc [safe_intros]: "safe E S F getc" by (simp add: safe_def hoare_def getc_def)
lemma safe_get_con [safe_intros]: "safe E S F (get_con c)" by (simp add: safe_def hoare_def get_con_def)
lemma safe_get_chan [safe_intros]: "safe E S F (get_chan c)" by (simp add: safe_def hoare_def get_chan_def)
lemma safe_raise [safe_intros]: "e \<notin> bad_asserts \<Longrightarrow> safe E S F (raise e)"
  by (simp add: safe_def hoare_raise fine_def)

lemma ninv_irrelevant:
  "ninv E S F (nd\<lparr>nd_chans := a\<rparr>) = ninv E S F nd" "ninv E S F (nd\<lparr>nd_events := b\<rparr>) = ninv E S F nd"
  "ninv E S F (nd\<lparr>nd_tasks := d\<rparr>) = ninv E S F nd" "ninv E S F (nd\<lparr>nd_sent := f\<rparr>) = ninv E S F nd"
  "ninv E S F (nd\<lparr>nd_next_prom := g\<rparr>) = ninv E S F nd" "ninv E S F (nd\<lparr>nd_rand_ctr := g\<rparr>) = ninv E S F nd"
  "ninv E S F (nd\<lparr>nd_dh_ctr := g\<rparr>) = ninv E S F nd"
  "ninv E S F (nd\<lparr>nd_processing := i\<rparr>) = ninv E S F nd" "ninv E S F (nd\<lparr>nd_reading := i\<rparr>) = ninv E S F nd"
  "ninv E S F (nd\<lparr>nd_next_chan := g\<rparr>) = ninv E S F nd" "ninv E S F (nd\<lparr>nd_now := j\<rparr>) = ninv E S F nd"
  by (simp_all add: ninv_def node_ok_def)

lemma safe_upd_chan [safe_intros]: "safe E S F (upd_chan ch f)" by (simp add: safe_def hoare_def upd_chan_def ninv_irrelevant)
lemma safe_emit [safe_intros]: "safe E S F (emit ev)" by (simp add: safe_def hoare_def emit_def ninv_irrelevant)
lemma safe_post_task [safe_intros]: "safe E S F (post_task t)" by (simp add: safe_def hoare_def post_task_def ninv_irrelevant)
lemma safe_net_send [safe_intros]: "safe E S F (net_send ep d)" by (simp add: safe_def hoare_def net_send_def ninv_irrelevant)
lemma safe_new_channel [safe_intros]: "safe E S F (new_channel c r l)"
  by (simp add: safe_def hoare_def new_channel_def ninv_def node_ok_def)

lemma ninv_upd_con:
  assumes "ninv E S F nd" "con_ok (f (nd_cons nd c))" "c_remote_ep (f (nd_cons nd c)) = c_remote_ep (nd_cons nd c)"
    and "c_bf (nd_cons nd c) \<noteq> None \<longrightarrow> c_bf (f (nd_cons nd c)) \<noteq> None"
  shows "ninv E S F (nd\<lparr>nd_cons := (nd_cons nd)(c := f (nd_cons nd c))\<rparr>)"
  using assms by (auto simp: ninv_def node_ok_def)

lemma safe_upd_con:
  assumes "\<And>k. con_ok k \<Longrightarrow> con_ok (f k)" "\<And>k. c_remote_ep (f k) = c_remote_ep k" "\<And>k. c_bf k \<noteq> None \<Longrightarrow> c_bf (f k) \<noteq> None"
  shows "safe E S F (upd_con c f)"
proof -
  have "ninv E S F nd \<Longrightarrow> con_ok (nd_cons nd c)" for nd by (simp add: ninv_def node_ok_def)
  then show ?thesis using assms by (auto simp: safe_def hoare_def upd_con_def intro!: ninv_upd_con)
qed

lemma safe_upd_rec [safe_intros]: "safe E S F (upd_rec c f)"
  unfolding upd_rec_def by (rule safe_upd_con) (simp_all add: con_ok_def keyed_def)

lemma safe_liftres:
  "(\<And>e. r = Inl e \<Longrightarrow> e \<notin> bad_asserts) \<Longrightarrow> safe E S F (liftres r)"
  unfolding safe_def by (rule hoare_liftres) (auto simp: fine_def)

lemma safe_case_option [safe_intros]:
  "(x = None \<Longrightarrow> safe E S F m) \<Longrightarrow> (\<And>a. x = Some a \<Longrightarrow> safe E S F (k a)) \<Longrightarrow> safe E S F (case x of None \<Rightarrow> m | Some a \<Rightarrow> k a)"
  by (cases x) simp_all

lemma safe_case_prod [safe_intros]:
  "(\<And>a b. x = (a, b) \<Longrightarrow> safe E S F (k a b)) \<Longrightarrow> safe E S F (case x of (a, b) \<Rightarrow> k a b)"
  by (cases x) simp_all

lemma bad_Throw [simp]: "Throw t \<notin> bad_asserts" by (simp add: bad_asserts_def)
lemma bad_Undefined [simp]: "Undefined t \<notin> bad_asserts" by (auto simp: bad_asserts_def)
lemma bad_fuel [simp]: "Out_of_fuel \<notin> bad_asserts" by (simp add: bad_asserts_def)
lemma bad_asserts_other [simp]: "Assert_fail ''my->_dh'' \<notin> bad_asserts" "Assert_fail ''size <= 2044'' \<notin> bad_asserts"
  "Assert_fail ''b.size() >= 56'' \<notin> bad_asserts" "Assert_fail ''shared_key.size() == 56'' \<notin> bad_asserts"
  "Assert_fail ''lookup removed'' \<notin> bad_asserts" "Assert_fail ''b.start + b.len <= c_array() + size()'' \<notin> bad_asserts"
  "Assert_fail ''my'' \<notin> bad_asserts"
  by (simp_all add: bad_asserts_def image_iff)


section \<open>Sending\<close>

lemma frame_encode_fine: "frame_encode cr (Some key) buf t = Inl e \<Longrightarrow> e \<notin> bad_asserts"
  by (auto simp: frame_encode_def Let_def split: if_splits)

lemma con_send_safe:
  assumes "c \<in> S"
  shows "safe E S F (con_send E c buf t)"
  unfolding safe_def con_send_def
proof (rule hoare_get_con)
  fix k
  show "hoare (\<lambda>nd. ninv E S F nd \<and> nd_cons nd c = k)
     (bindc (liftres (frame_encode (en_cr E) (c_bf k) buf t)) (net_send (c_remote_ep k))) (\<lambda>_. ninv E S F) (fine E S F)"
  proof (cases "c_bf k")
    case None
    then show ?thesis using assms by (auto simp: hoare_def ninv_def)
  next
    case (Some key)
    have "safe E S F (bindc (liftres (frame_encode (en_cr E) (c_bf k) buf t)) (net_send (c_remote_ep k)))"
      unfolding Some by (intro safe_intros safe_liftres frame_encode_fine)
    then show ?thesis unfolding safe_def by (rule hoare_pre) simp
  qed
qed

lemma ninv_insert: "ninv E (insert c S) F nd \<longleftrightarrow> ninv E S F nd \<and> c_bf (nd_cons nd c) \<noteq> None"
  by (auto simp: ninv_def)

lemma safe_weaken:
  assumes "safe E (insert c S) F m"
  shows "hoare (\<lambda>nd. ninv E S F nd \<and> c_bf (nd_cons nd c) \<noteq> None) m (\<lambda>_. ninv E S F) (fine E S F)"
proof -
  have "hoare (ninv E (insert c S) F) m (\<lambda>_. ninv E S F) (fine E S F)"
    by (rule hoare_exn [OF hoare_post [OF assms [unfolded safe_def]]]) (simp_all add: ninv_insert fine_def)
  then show ?thesis by (rule hoare_pre) (simp add: ninv_insert)
qed

text \<open>Facts about one connection that sending does not touch.\<close>

definition at :: "nat \<Rightarrow> (con \<Rightarrow> bool) \<Rightarrow> 'h node \<Rightarrow> bool" where
  "at c P nd = P (nd_cons nd c)"

lemma goto_state_rule:
  assumes "\<And>k. con_ok k \<Longrightarrow> P k \<Longrightarrow> con_ok (k\<lparr>c_state := s\<rparr>)"
  shows "hoare (\<lambda>nd. ninv E S F nd \<and> at c P nd) (goto_state c s) (\<lambda>_ nd. ninv E S F nd \<and> at c (\<lambda>k. c_state k = s) nd) (fine E S F)"
proof (rule hoareI)
  fix nd assume "ninv E S F nd \<and> at c P nd"
  then have i: "ninv E S F nd" and p: "P (nd_cons nd c)" by (simp_all add: at_def)
  then have "con_ok ((nd_cons nd c)\<lparr>c_state := s\<rparr>)" using assms by (simp add: ninv_def node_ok_def)
  then have "ninv E S F (nd\<lparr>nd_cons := (nd_cons nd)(c := (nd_cons nd c)\<lparr>c_state := s\<rparr>)\<rparr>)"
    using i by (intro ninv_upd_con) simp_all
  then show "case goto_state c s nd of (Inr a, nd') \<Rightarrow> ninv E S F nd' \<and> at c (\<lambda>k. c_state k = s) nd' | (Inl e, nd') \<Rightarrow> fine E S F e nd'"
    using i by (simp add: goto_state_def act_simps whenc_def ret_def at_def ninv_irrelevant)
qed

lemma goto_any_rule:
  "s \<in> {uninit, failed} \<Longrightarrow> hoare (ninv E S F) (goto_state c s) (\<lambda>_ nd. ninv E S F nd \<and> at c (\<lambda>k. c_state k = s) nd) (fine E S F)"
  by (rule hoare_pre [OF goto_state_rule [where P = "\<lambda>_. True"]]) (auto simp: con_ok_def at_def)

lemma goto_uninit_safe: "safe E S F (goto_state c uninit)" and goto_failed_safe: "safe E S F (goto_state c failed)"
  unfolding safe_def by (rule hoare_post [OF goto_any_rule]; simp)+

lemma goto_connected_safe: "c \<in> S \<Longrightarrow> safe E S F (goto_state c connected)"
  unfolding safe_def
  by (rule hoare_post [OF hoare_pre [OF goto_state_rule [where P = "\<lambda>k. c_bf k \<noteq> None"]]]) (auto simp: con_ok_def at_def ninv_def)

section \<open>Bookkeeping\<close>

lemma liftc_hoare:
  assumes "\<And>s. P s \<Longrightarrow> (case m (gt s) of (Inr a, x) \<Rightarrow> Q a (st x s) | (Inl e, x) \<Rightarrow> X e (st x s))"
  shows "hoare P (liftc gt st m) Q X"
  unfolding hoare_def
proof (intro allI impI)
  fix s assume "P s"
  then show "case liftc gt st m s of (Inr a, s') \<Rightarrow> Q a s' | (Inl e, s') \<Rightarrow> X e s'"
    using assms [of s] by (cases "m (gt s)") (simp add: liftc_def)
qed

lemma peers_store_safe:
  assumes "env_ok E"
  shows "safe E S F (peers_store E nid m)"
  unfolding safe_def peers_store_def
proof (rule liftc_hoare)
  fix nd assume i: "ninv E S F nd"
  have B: "bdb_ok (en_db E)" using assms by (simp add: env_ok_def)
  let ?r = "peer_store (en_cr E) (en_db E) nid m (nd_peers nd)"
  have "ninv E S F (nd\<lparr>nd_peers := snd ?r\<rparr>)"
    using i peer_store_inv [OF B, of "en_cr E" "nd_peers nd" nid m] peer_store_node_id [of "en_cr E" "en_db E" nid m "nd_peers nd"]
    by (simp add: ninv_def node_ok_def)
  moreover have "fst ?r = Inl e \<Longrightarrow> e \<notin> bad_asserts" for e
    by (rule peer_store_cases [OF B, of "en_cr E" nid m "nd_peers nd"]) auto
  ultimately show "case ?r of (Inr a, x) \<Rightarrow> ninv E S F (nd\<lparr>nd_peers := x\<rparr>) | (Inl e, x) \<Rightarrow> fine E S F e (nd\<lparr>nd_peers := x\<rparr>)"
    by (cases ?r; cases "fst ?r") (auto simp: fine_def)
qed

lemma store_record_safe: "env_ok E \<Longrightarrow> safe E S F (store_record E c)"
  unfolding store_record_def by (intro safe_intros peers_store_safe)

lemma kb_exn: "fst (kb_add cr c rid kb) = Inl e \<Longrightarrow> e \<notin> bad_asserts" "fst (kb_remove cr c rid kb) = Inl e \<Longrightarrow> e \<notin> bad_asserts"
  by (auto simp: kb_add_def kb_remove_def get_bucket_for_target_def get_bucket_def split: sum.splits if_splits)

lemma kb_id: "kb_node_id (snd (kb_add cr c rid kb)) = kb_node_id kb" "kb_node_id (snd (kb_remove cr c rid kb)) = kb_node_id kb"
  by (auto simp: kb_add_def kb_remove_def put_bucket_def split: sum.splits)

lemma kbuckets_safe:
  assumes "\<And>kb e. fst (m kb) = Inl e \<Longrightarrow> e \<notin> bad_asserts" "keeps kb_wf m" "\<And>kb. kb_node_id (snd (m kb)) = kb_node_id kb"
  shows "safe E S F (liftc nd_kbuckets (\<lambda>b nd. nd\<lparr>nd_kbuckets := b\<rparr>) m)"
  unfolding safe_def
proof (rule liftc_hoare)
  fix nd assume i: "ninv E S F nd"
  let ?r = "m (nd_kbuckets nd)"
  have "ninv E S F (nd\<lparr>nd_kbuckets := snd ?r\<rparr>)"
    using i assms(3) keepsD [OF assms(2), of "nd_kbuckets nd"] by (simp add: ninv_def node_ok_def)
  then show "case ?r of (Inr a, x) \<Rightarrow> ninv E S F (nd\<lparr>nd_kbuckets := x\<rparr>) | (Inl e, x) \<Rightarrow> fine E S F e (nd\<lparr>nd_kbuckets := x\<rparr>)"
    using assms(1) [of "nd_kbuckets nd"] by (cases ?r; cases "fst ?r") (auto simp: fine_def)
qed

lemma kbuckets_add_safe [safe_intros]: "safe E S F (kbuckets_add E c)" and kbuckets_remove_safe [safe_intros]: "safe E S F (kbuckets_remove E c)"
  unfolding kbuckets_add_def kbuckets_remove_def
  by (intro safe_intros kbuckets_safe kb_wf_keeps kb_exn kb_id; assumption)+

lemma chan_recv_safe [safe_intros]: "safe E S F (chan_recv ch b ec)"
  unfolding chan_recv_def by (intro safe_intros)

lemma close_each_safe: "safe E S F (close_each l)"
  by (induction l) (auto simp: chan_reset_def intro!: safe_intros)

lemma close_channels_safe [safe_intros]: "safe E S F (close_channels c)"
  unfolding close_channels_def
  by (intro safe_intros close_each_safe safe_upd_con) (simp_all add: con_ok_def keyed_def)

lemma dist_del_safe [safe_intros]: "safe E S F (modc (\<lambda>nd. nd\<lparr>nd_dist_to_con := sm_del d (nd_dist_to_con nd)\<rparr>))"
  unfolding safe_def
  by (rule hoare_modc) (auto simp: ninv_def node_ok_def sm_ok_del sm_get_del split: if_splits)

lemma update_dist_clear_safe [safe_intros]: "safe E S F (update_dist_clear E nid)"
  unfolding update_dist_clear_def Let_def by (intro safe_intros)

lemma con_reset_rule:
  assumes "env_ok E"
  shows "hoare (ninv E S F) (con_reset E c) (\<lambda>_ nd. ninv E S F nd \<and> at c (\<lambda>k. c_state k = uninit) nd) (fine E S F)"
proof -
  have u: "safe E S F (upd_con c (\<lambda>k. k\<lparr>c_serv_clients := []\<rparr>))"
    by (rule safe_upd_con) (simp_all add: con_ok_def keyed_def)
  note g = goto_any_rule [of uninit E S F c, simplified]
  show ?thesis
    unfolding con_reset_def
    by (rule hoare_bindc [OF safe_get_con [unfolded safe_def]],
        (rule hoare_andthen, (rule safe_intros [unfolded safe_def] u [unfolded safe_def] store_record_safe [OF assms, unfolded safe_def] g | assumption)+)+)
qed

lemma con_reset_safe: "env_ok E \<Longrightarrow> safe E S F (con_reset E c)"
  unfolding safe_def by (rule hoare_post [OF con_reset_rule]) simp_all

lemma con_close_rule:
  assumes "env_ok E"
  shows "hoare (ninv E S F) (con_close E c) (\<lambda>_ nd. ninv E S F nd \<and> at c (\<lambda>k. c_state k = uninit) nd) (fine E S F)"
  unfolding con_close_def
proof (rule hoare_get_con)
  fix k :: con
  let ?m = "andthen (whenc (state_num received_dh \<le> state_num (c_state k)) (send_close E c)) (con_reset E c)"
  have w: "hoare (\<lambda>nd. ninv E S F nd \<and> nd_cons nd c = k) (whenc (state_num received_dh \<le> state_num (c_state k)) (send_close E c))
      (\<lambda>_. ninv E S F) (fine E S F)"
  proof (rule hoare_whenc)
    assume s: "state_num received_dh \<le> state_num (c_state k)"
    have "ninv E S F nd \<and> nd_cons nd c = k \<Longrightarrow> c_bf (nd_cons nd c) \<noteq> None" for nd
      using s by (cases "c_state k") (auto simp: ninv_def node_ok_def con_ok_def)
    then show "hoare (\<lambda>nd. ninv E S F nd \<and> nd_cons nd c = k) (send_close E c) (\<lambda>_. ninv E S F) (fine E S F)"
      unfolding send_close_def by (intro hoare_pre [OF safe_weaken [OF con_send_safe]]) auto
  qed simp
  then show "hoare (\<lambda>nd. ninv E S F nd \<and> nd_cons nd c = k) ?m (\<lambda>_ nd. ninv E S F nd \<and> at c (\<lambda>k. c_state k = uninit) nd) (fine E S F)"
    by (rule hoare_andthen) (rule con_reset_rule [OF assms])
qed

lemma con_close_safe: "env_ok E \<Longrightarrow> safe E S F (con_close E c)"
  unfolding safe_def by (rule hoare_post [OF con_close_rule]) simp_all

lemma dist_put_safe:
  assumes "(c, ep) \<in> F" "c \<in> S"
  shows "safe E S F (modc (\<lambda>nd. nd\<lparr>nd_dist_to_con := sm_put d c (nd_dist_to_con nd)\<rparr>))"
  unfolding safe_def
proof (rule hoare_modc)
  fix nd assume i: "ninv E S F nd"
  then have "c < nd_next_con nd" "c_bf (nd_cons nd c) \<noteq> None" using assms by (auto simp: ninv_def)
  then show "ninv E S F (nd\<lparr>nd_dist_to_con := sm_put d c (nd_dist_to_con nd)\<rparr>)"
    using i by (auto simp: ninv_def node_ok_def sm_ok_put sm_get_put split: if_splits)
qed

lemma update_dist_set_safe: "env_ok E \<Longrightarrow> (c, ep) \<in> F \<Longrightarrow> c \<in> S \<Longrightarrow> safe E S F (update_dist_set E nid c)"
  unfolding update_dist_set_def Let_def
  by (intro safe_intros con_close_safe dist_put_safe bad_Undefined; assumption)

section \<open>Message handlers\<close>

lemma send_auth_response_safe: "c \<in> S \<Longrightarrow> safe E S F (send_auth_response E c r)"
  unfolding send_auth_response_def by (intro safe_intros con_send_safe)

lemma handle_auth_resp_safe: "env_ok E \<Longrightarrow> c \<in> S \<Longrightarrow> safe E S F (handle_auth_resp_msg E c b0)"
  unfolding handle_auth_resp_msg_def by (intro safe_intros goto_connected_safe con_reset_safe)

lemma handle_update_rank_safe: "env_ok E \<Longrightarrow> c \<in> S \<Longrightarrow> safe E S F (handle_update_rank_msg E c b)"
  unfolding handle_update_rank_msg_def Let_def by (intro safe_intros send_auth_response_safe store_record_safe)

lemma handle_close_safe: "env_ok E \<Longrightarrow> safe E S F (handle_close_msg E c)"
  unfolding handle_close_msg_def by (intro safe_intros con_reset_safe)

lemma not_bad_stream: "fst (ds_read n ds) = Inl e \<Longrightarrow> e \<notin> bad_asserts" "fst (ds_write d n ds) = Inl e \<Longrightarrow> e \<notin> bad_asserts"
  by (auto simp: ds_read_def ds_write_def split: if_splits)

definition calm :: "('s, 'a) cmd \<Rightarrow> bool" where
  "calm m \<longleftrightarrow> (\<forall>s e. fst (m s) = Inl e \<longrightarrow> e \<notin> bad_asserts)"

lemma calm_andthen: "calm m \<Longrightarrow> calm k \<Longrightarrow> calm (andthen m k)"
proof -
  assume m: "calm m" and k: "calm k"
  show ?thesis unfolding calm_def
  proof (intro allI impI)
    fix s e assume a: "fst (andthen m k s) = Inl e"
    show "e \<notin> bad_asserts"
    proof (cases "fst (m s)")
      case (Inl e')
      then have "e' = e" using a by (cases "m s") (simp add: andthen_def bindc_def)
      then show ?thesis using Inl m by (simp add: calm_def)
    next
      case (Inr x)
      then show ?thesis using a k by (cases "m s") (auto simp: andthen_def bindc_def calm_def)
    qed
  qed
qed

lemma calm_ret: "calm (ret a)" by (simp add: calm_def ret_def)

lemma calm_rd_field: "calm (rd_field n u)" and calm_rd_bytes: "calm (rd_bytes n v)"
  using not_bad_stream(1) by (auto simp: calm_def rd_field_def rd_bytes_def split: prod.splits sum.splits) (metis fst_conv)+

lemma calm_wr_field: "calm (wr_field n w)" and calm_wr_bytes: "calm (wr_bytes n v)"
  using not_bad_stream(2) by (auto simp: calm_def wr_field_def wr_bytes_def)

lemmas calm_intros = calm_andthen calm_ret calm_rd_field calm_rd_bytes calm_wr_field calm_wr_bytes

lemma calm_auth: "calm (auth_read cr)" "calm (auth_write cr a)"
  unfolding auth_read_def auth_write_def by (intro calm_intros)+

lemma calm_lookup: "calm lookup_read" "calm (lookup_write p)"
proof -
  have "calm (\<lambda>(p, ds). if lk_l p \<noteq> 0 then rd_field 20 (\<lambda>v p. p\<lparr>lk_limit := v\<rparr>) (p, ds) else (Inr (), (p, ds)))"
    using calm_rd_field [of 20 "\<lambda>v p. p\<lparr>lk_limit := v\<rparr>"] by (auto simp: calm_def split: if_splits)
  then show "calm lookup_read" unfolding lookup_read_def by (intro calm_intros)
  show "calm (lookup_write p)" unfolding lookup_write_def whenc_def by (cases "lk_l p \<noteq> 0") (auto intro!: calm_intros)
qed

lemma calm_endpoint: "calm endpoint_read" "calm (endpoint_write ep)"
  unfolding endpoint_read_def endpoint_write_def by (intro calm_intros)+

lemma calm_chan: "calm chan_read" "calm (chan_write l r b)"
  unfolding chan_read_def chan_write_def by (intro calm_intros)+

lemma calm_route: "calm route_header_read" "calm entry_read" "calm (route_write t r)"
proof -
  have "calm (hosts_write r)" by (induction r) (auto intro!: calm_intros)
  then show "calm (route_write t r)" unfolding route_write_def by (intro calm_intros)
qed (unfold route_header_read_def entry_read_def, (intro calm_intros)+)

lemma pack_safe: "(\<And>x. calm (wr x)) \<Longrightarrow> safe E S F (liftres (pack_packet mem wr x))"
  by (rule safe_liftres) (auto simp: pack_packet_def calm_def split: prod.splits sum.splits, metis fst_conv)

lemma unpackc_safe: "calm rd \<Longrightarrow> safe E S F (unpackc rd x b)"
proof -
  assume c: "calm rd"
  have "e \<notin> bad_asserts" if "unpack_packet rd x b = (Inl e, y)" for e y
  proof -
    have "fst (rd (x, ds_make b)) = Inl e" using that by (cases "rd (x, ds_make b)") (auto simp: unpack_packet_def)
    then show ?thesis using c by (simp add: calm_def)
  qed
  then show ?thesis by (auto simp: safe_def hoare_def unpackc_def fine_def split: prod.splits sum.splits)
qed

lemma safe_liftres_near: "safe E S F (liftres (find_nodes_near E nd t n l))"
proof (rule safe_liftres)
  have "near_loop f kb l m acc bid = Inl e \<Longrightarrow> e \<notin> bad_asserts" for f kb m acc bid e
  proof (induction bid arbitrary: acc)
    case 0
    then show ?case by (auto simp: get_bucket_def Let_def split: if_splits)
  next
    case (Suc bid)
    then show ?case by (subst (asm) near_loop.simps) (auto simp: get_bucket_def Let_def simp del: near_loop.simps split: if_splits)
  qed
  then show "find_nodes_near E nd t n l = Inl e \<Longrightarrow> e \<notin> bad_asserts" for e
    by (auto simp: find_nodes_near_def Let_def simp del: near_loop.simps split: if_splits)
qed

lemma handle_lookup_safe: "c \<in> S \<Longrightarrow> safe E S F (handle_lookup_msg E c b)"
  unfolding handle_lookup_msg_def
  by (intro safe_intros unpackc_safe calm_lookup safe_liftres_near pack_safe calm_route con_send_safe)

lemma handle_reverse_safe: "safe E S F (handle_request_reverse_connect_msg c b)" "safe E S F (handle_request_connect_msg c b)"
  unfolding handle_request_reverse_connect_msg_def handle_request_connect_msg_def
  by (intro safe_intros unpackc_safe calm_endpoint)+

lemma hosts_read_fine: "hosts_read from n s = Inl e \<Longrightarrow> e \<notin> bad_asserts"
proof (induction n arbitrary: s)
  case (Suc n)
  obtain r s' where r: "entry_read s = (r, s')" by (cases "entry_read s")
  show ?case
  proof (cases r)
    case (Inl e')
    then have "fst (entry_read s) = Inl e" using Suc.prems r by simp
    then show ?thesis using calm_route(2) unfolding calm_def by blast
  next
    case (Inr u)
    then show ?thesis using Suc r by (auto split: sum.splits)
  qed
qed simp

lemma safe_upd_lookups [safe_intros]: "(\<And>m. sm_ok m \<Longrightarrow> sm_ok (f m)) \<Longrightarrow> safe E S F (upd_con c (\<lambda>k. k\<lparr>c_route_lookups := f (c_route_lookups k)\<rparr>))"
  by (rule safe_upd_con) (simp_all add: con_ok_def keyed_def)

lemma safe_upd_channels [safe_intros]: "(\<And>m. sm_ok m \<Longrightarrow> sm_ok (f m)) \<Longrightarrow> safe E S F (upd_con c (\<lambda>k. k\<lparr>c_channels := f (c_channels k)\<rparr>))"
  by (rule safe_upd_con) (simp_all add: con_ok_def keyed_def)

lemma handle_route_safe: "safe E S F (handle_route_msg c b)"
proof -
  have h: "route_header_read ((0, 0), ds_make b) = (Inl e, s) \<Longrightarrow> e \<notin> bad_asserts" for e s
    using calm_route(1) unfolding calm_def by (metis fst_conv)
  show ?thesis
    unfolding handle_route_msg_def
    by (intro safe_intros) (auto split: sum.splits intro!: safe_intros safe_liftres sm_ok_del dest: hosts_read_fine h)
qed

lemma create_channel_safe: "safe E S F (create_channel c rcn lcn)"
  unfolding create_channel_def safe_def
proof (rule hoare_getc)
  fix nd :: "'a node"
  let ?k = "case sm_get (nd_services nd) lcn of None \<Rightarrow> raise (Throw ''Unable to open channel, no services listening on that port'')
     | Some svc \<Rightarrow> bindc (new_channel c rcn lcn) (\<lambda>ch. bindc (liftres (svc_handler svc ch)) (\<lambda>rc. andthen (upd_chan ch (\<lambda>x. x\<lparr>ch_rc := rc\<rparr>)) (ret ch)))"
  show "hoare (\<lambda>s. ninv E S F s \<and> s = nd) ?k (\<lambda>_. ninv E S F) (fine E S F)"
  proof (cases "ninv E S F nd")
    case True
    then have h: "sm_get (nd_services nd) lcn = Some svc \<Longrightarrow> svc_handler svc ch = Inl e \<Longrightarrow> e \<notin> bad_asserts" for svc ch e
      by (fastforce simp: ninv_def node_ok_def)
    have "safe E S F ?k" by (intro safe_intros safe_liftres) (auto dest: h)
    then show ?thesis unfolding safe_def by (rule hoare_pre) simp
  qed (simp add: hoare_def)
qed

lemma catch_ignore_safe: "safe E S F m \<Longrightarrow> safe E S F (catchc m (\<lambda>e. ret ()))"
  unfolding safe_def by (rule hoare_catchc, assumption) (auto intro!: hoare_ret simp: fine_def)

lemma handle_data_safe: "env_ok E \<Longrightarrow> safe E S F (handle_data_msg E c b)"
  unfolding handle_data_msg_def
  by (intro safe_intros con_close_safe unpackc_safe calm_chan catch_ignore_safe create_channel_safe sm_ok_put)

lemma resend_lookups_safe: "c \<in> S \<Longrightarrow> safe E S F (resend_lookups E c l)"
  by (induction E c l rule: resend_lookups.induct) (auto intro!: safe_intros pack_safe calm_lookup con_send_safe)

lemma peer_fetch_fine: "peer_fetch B p i r = Inl e \<Longrightarrow> e \<notin> bad_asserts"
  by (auto simp: peer_fetch_def split: option.splits)

lemma safe_upd_misc [safe_intros]:
  "safe E S F (upd_con c (\<lambda>k. k\<lparr>c_behind_nat := f k\<rparr>))" "safe E S F (upd_con c (\<lambda>k. k\<lparr>c_remote_id := i\<rparr>))"
  "safe E S F (upd_con c (\<lambda>k. k\<lparr>c_record := g k\<rparr>))" "safe E S F (upd_con c (\<lambda>k. k\<lparr>c_public_ep := ep\<rparr>))"
  "safe E S F (upd_con c (\<lambda>k. k\<lparr>c_in_queue := q k\<rparr>))" "safe E S F (upd_con c (\<lambda>k. k\<lparr>c_advance_count := n k\<rparr>))"
  "safe E S F (upd_con c (\<lambda>k. k\<lparr>c_next_chan_num := w k\<rparr>))" "safe E S F (upd_con c (\<lambda>k. k\<lparr>c_serv_clients := v k\<rparr>))"
  by (rule safe_upd_con; simp add: con_ok_def keyed_def)+

lemma accept_auth_safe: "env_ok E \<Longrightarrow> c \<in> S \<Longrightarrow> (c, ep) \<in> F \<Longrightarrow> safe E S F (accept_auth E c key a)"
  unfolding accept_auth_def set_remote_id_def
  by (intro safe_intros safe_liftres peer_fetch_fine bad_Throw send_auth_response_safe store_record_safe update_dist_set_safe
      goto_connected_safe resend_lookups_safe; assumption)

lemma handle_auth_safe: "env_ok E \<Longrightarrow> c \<in> S \<Longrightarrow> (c, ep) \<in> F \<Longrightarrow> safe E S F (handle_auth_msg E c b)"
  unfolding handle_auth_msg_def send_close_def
  by (intro safe_intros unpackc_safe calm_auth bad_asserts_other bad_Undefined send_auth_response_safe con_send_safe accept_auth_safe; assumption)

lemma frame_body_fine: "frame_body plain pad = Inl e \<Longrightarrow> e \<notin> bad_asserts"
  by (auto simp: frame_body_def Let_def split: if_splits)

lemma dispatch_safe: "env_ok E \<Longrightarrow> c \<in> S \<Longrightarrow> (c, ep) \<in> F \<Longrightarrow> safe E S F (dispatch E c plain pad t)"
  unfolding dispatch_def
  by (cases t) (simp_all, (intro safe_intros safe_liftres frame_body_fine handle_data_safe handle_auth_safe handle_auth_resp_safe
      handle_lookup_safe handle_route_safe handle_close_safe handle_update_rank_safe handle_reverse_safe; assumption)+)

lemma frame_open_fine: "frame_open cr key b = Inl e \<Longrightarrow> e \<notin> bad_asserts"
  by (auto simp: frame_open_def Let_def split: if_splits)

lemma decode_packet_rule:
  assumes "env_ok E" "(c, ep) \<in> F"
  shows "hoare (\<lambda>nd. ninv E S F nd \<and> c_bf (nd_cons nd c) \<noteq> None) (decode_packet E c b) (\<lambda>_. ninv E S F) (fine E S F)"
proof -
  have d: "safe E (insert c S) F (dispatch E c plain pad t)" for plain pad t
    by (rule dispatch_safe [OF assms(1) _ assms(2)]) simp
  have "hoare (ninv E (insert c S) F) (decode_packet E c b) (\<lambda>_. ninv E (insert c S) F) (fine E (insert c S) F)"
    unfolding decode_packet_def
    apply (rule hoare_bindc [OF safe_getc [unfolded safe_def]])
    apply (rule hoare_andthen [OF safe_upd_rec [unfolded safe_def]])
    apply (rule hoare_get_con)
    subgoal for nd k
    proof (cases "c_bf k")
      case None
      then show ?thesis by (auto simp: hoare_def ninv_def)
    next
      case (Some key)
      have "safe E (insert c S) F (bindc (liftres (frame_open (en_cr E) key b)) (\<lambda>(plain, hdr). andthen (set_front c plain)
          (case hdr of None \<Rightarrow> ret (False, plain) | Some (code, pad) \<Rightarrow> (case msg_of_code code of None \<Rightarrow> ret (True, plain)
            | Some t \<Rightarrow> bindc (dispatch E c plain pad t) (\<lambda>ok. ret (ok, plain))))))"
        unfolding set_front_def by (intro safe_intros safe_liftres frame_open_fine d; assumption)
      then show ?thesis unfolding Some option.case safe_def by (rule hoare_pre) simp
    qed
    done
  then have "safe E (insert c S) F (decode_packet E c b)" by (simp add: safe_def)
  then show ?thesis by (rule safe_weaken)
qed

section \<open>The handshake\<close>

lemma generate_dh_rule:
  "hoare (\<lambda>nd. ninv E S F nd \<and> at c (\<lambda>k. c_state k = uninit) nd) (generate_dh E c)
     (\<lambda>_ nd. ninv E S F nd \<and> at c (\<lambda>k. c_state k = uninit \<and> c_dh k \<noteq> None) nd) (fine E S F)"
proof (rule hoareI)
  fix nd assume a: "ninv E S F nd \<and> at c (\<lambda>k. c_state k = uninit) nd"
  let ?f = "\<lambda>n k. k\<lparr>c_dh := Some \<lparr>dh_priv = fst (dh_gen (en_cr E) n), dh_pub = snd (dh_gen (en_cr E) n), dh_key = []\<rparr>\<rparr>"
  have "con_ok (nd_cons nd c)" using a by (simp add: ninv_def node_ok_def)
  then have "con_ok (?f n (nd_cons nd c))" for n using a by (simp add: con_ok_def at_def)
  then have "ninv E S F (nd\<lparr>nd_cons := (nd_cons nd)(c := ?f n (nd_cons nd c))\<rparr>)" for n using a by (intro ninv_upd_con) simp_all
  then have "ninv E S F (nd\<lparr>nd_dh_ctr := m, nd_cons := (nd_cons nd)(c := ?f n (nd_cons nd c))\<rparr>)" for n m
    by (simp add: ninv_def node_ok_def)
  then show "case generate_dh E c nd of (Inr a, nd') \<Rightarrow> ninv E S F nd' \<and> at c (\<lambda>k. c_state k = uninit \<and> c_dh k \<noteq> None) nd' | (Inl e, nd') \<Rightarrow> fine E S F e nd'"
    using a by (auto simp: generate_dh_def bindc_def getc_def andthen_def modc_def upd_con_def raise_def at_def fine_def split: option.split)
qed

text \<open>Sending does not touch the connections.\<close>

lemma send_dh_at: "hoare (\<lambda>nd. ninv E S F nd \<and> at c P nd) (send_dh E c) (\<lambda>_ nd. ninv E S F nd \<and> at c P nd) (fine E S F)"
  by (auto simp: hoare_def send_dh_def bindc_def getc_def get_con_def andthen_def modc_def net_send_def raise_def at_def fine_def
      ninv_irrelevant split: option.split)

lemma con_send_at:
  assumes "\<And>k. P k \<Longrightarrow> c_bf k \<noteq> None"
  shows "hoare (\<lambda>nd. ninv E S F nd \<and> at c P nd) (con_send E c buf t) (\<lambda>_ nd. ninv E S F nd \<and> at c P nd) (fine E S F)"
proof (rule hoareI)
  fix nd assume a: "ninv E S F nd \<and> at c P nd"
  then obtain key where k: "c_bf (nd_cons nd c) = Some key" using assms by (auto simp: at_def)
  then show "case con_send E c buf t nd of (Inr u, nd') \<Rightarrow> ninv E S F nd' \<and> at c P nd' | (Inl e, nd') \<Rightarrow> fine E S F e nd'"
    using a frame_encode_fine [of "en_cr E" key buf t]
    by (cases "frame_encode (en_cr E) (Some key) buf t")
       (simp_all add: con_send_def act_simps bindc_def at_def fine_def ninv_irrelevant)
qed

lemma send_auth_at:
  assumes "\<And>k. P k \<Longrightarrow> c_bf k \<noteq> None"
  shows "hoare (\<lambda>nd. ninv E S F nd \<and> at c P nd) (send_auth E c) (\<lambda>_ nd. ninv E S F nd \<and> at c P nd) (fine E S F)"
proof -
  let ?I = "\<lambda>nd. ninv E S F nd \<and> at c P nd"
  have p: "hoare ?I (liftres (pack_packet mem (auth_write (en_cr E)) a)) (\<lambda>_. ?I) (fine E S F)" for mem a
  proof (rule hoare_liftres)
    show "?I s \<Longrightarrow> pack_packet mem (auth_write (en_cr E)) a = Inl e \<Longrightarrow> fine E S F e s" for s e
      using calm_auth(2) [of "en_cr E" a]
      by (cases "auth_write (en_cr E) a (ds_make mem)") (auto simp: fine_def pack_packet_def calm_def split: sum.splits, metis fst_conv)
  qed simp
  have "hoare ?I (case d of None \<Rightarrow> raise (Assert_fail ''my->_dh'')
     | Some d \<Rightarrow> andthen (assertc (length (dh_key d) = 56) ''shared_key.size() == 56'')
         (bindc (liftres (pack_packet mem (auth_write (en_cr E)) (a d))) (\<lambda>buf. con_send E c buf auth_msg))) (\<lambda>_. ?I) (fine E S F)" for d mem a
  proof (cases d)
    case (Some d)
    have "hoare ?I (assertc b t) (\<lambda>_. ?I) (fine E S F)" if "Assert_fail t \<notin> bad_asserts" for b t
      using that by (cases b) (auto simp: assertc_def fine_def intro!: hoare_raise hoare_ret)
    then show ?thesis unfolding Some option.case
      by (rule hoare_andthen [OF _ hoare_bindc [OF p con_send_at [OF assms]]]) simp_all
  qed (auto simp: fine_def intro: hoare_raise)
  note h = this
  show ?thesis
    unfolding send_auth_def Let_def by (intro hoare_getc hoare_get_con, rule hoare_pre [OF h]) simp
qed

definition keys_set :: "con \<Rightarrow> bool" where
  "keys_set k \<longleftrightarrow> keyed k \<and> c_bf k \<noteq> None \<and> c_state k \<in> {uninit, generated_dh, received_dh}"

lemma process_dh_rule:
  assumes "env_ok E"
  shows "hoare (\<lambda>nd. ninv E S F nd \<and> at c (\<lambda>k. c_state k \<in> {uninit, generated_dh, received_dh}) nd) (process_dh E c b)
     (\<lambda>_ nd. ninv E S F nd \<and> at c keys_set nd) (fine E S F)"
proof (rule hoareI)
  fix nd assume a: "ninv E S F nd \<and> at c (\<lambda>k. c_state k \<in> {uninit, generated_dh, received_dh}) nd"
  have ok: "con_ok (nd_cons nd c)" using a by (simp add: ninv_def node_ok_def)
  let ?key = "\<lambda>d. dh_shared (en_cr E) (dh_priv d) (take 56 b) @ replicate (56 - length (dh_shared (en_cr E) (dh_priv d) (take 56 b))) 0"
  let ?f = "\<lambda>d k. k\<lparr>c_dh := Some (d\<lparr>dh_key := ?key d\<rparr>), c_bf := Some (take 56 (?key d)), c_record := (c_record k)\<lparr>bf_key := take 56 (?key d)\<rparr>\<rparr>"
  have l: "length (?key d) = 56" for d using assms by (simp add: env_ok_def)
  then have ks: "keys_set (?f d (nd_cons nd c))" for d using a by (auto simp: keys_set_def keyed_def at_def)
  then have "con_ok (?f d (nd_cons nd c))" for d using ok a by (auto simp: con_ok_def keys_set_def at_def)
  then have i: "ninv E S F (nd\<lparr>nd_cons := (nd_cons nd)(c := ?f d (nd_cons nd c))\<rparr>)" for d using a by (intro ninv_upd_con) simp_all
  show "case process_dh E c b nd of (Inr u, nd') \<Rightarrow> ninv E S F nd' \<and> at c keys_set nd' | (Inl e, nd') \<Rightarrow> fine E S F e nd'"
  proof (cases "56 \<le> length b")
    case True
    then show ?thesis using a i ks
      by (auto simp: process_dh_def assertc_def andthen_def bindc_def ret_def get_con_def upd_con_def upd_rec_def raise_def Let_def at_def fine_def
          split: option.split)
  next
    case False
    then show ?thesis using a by (simp add: process_dh_def assertc_def andthen_def bindc_def raise_def fine_def)
  qed
qed

lemma key_exchange_rule:
  assumes "env_ok E"
  shows "hoare (\<lambda>nd. ninv E S F nd \<and> at c (\<lambda>k. c_state k \<in> {uninit, generated_dh, received_dh}) nd) (key_exchange E c b)
     (\<lambda>_ nd. ninv E S F nd \<and> at c keys_set nd) (fine E S F)"
  unfolding key_exchange_def
  by (rule hoare_bindc [OF process_dh_rule [OF assms]], rule hoare_whenc [OF send_auth_at]) (simp_all add: keys_set_def)

lemma goto_received_rule:
  "hoare (\<lambda>nd. ninv E S F nd \<and> at c keys_set nd) (goto_state c received_dh) (\<lambda>_. ninv E S F) (fine E S F)"
  by (rule hoare_post [OF goto_state_rule]) (auto simp: con_ok_def keys_set_def keyed_def)

lemma goto_generated_rule:
  "hoare (\<lambda>nd. ninv E S F nd \<and> at c (\<lambda>k. c_state k = uninit \<and> c_dh k \<noteq> None) nd) (goto_state c generated_dh) (\<lambda>_. ninv E S F) (fine E S F)"
  by (rule hoare_post [OF goto_state_rule]) (auto simp: con_ok_def)

lemma dh_begin_rule:
  "hoare (\<lambda>nd. ninv E S F nd \<and> at c (\<lambda>k. c_state k = uninit) nd) (andthen (generate_dh E c) (andthen (send_dh E c) m)) Q (fine E S F)"
  if "hoare (\<lambda>nd. ninv E S F nd \<and> at c (\<lambda>k. c_state k = uninit \<and> c_dh k \<noteq> None) nd) m Q (fine E S F)"
  by (rule hoare_andthen [OF generate_dh_rule hoare_andthen [OF send_dh_at that]])

lemma handle_unknown_rule:
  assumes "env_ok E"
  shows "hoare (\<lambda>nd. ninv E S F nd \<and> at c (\<lambda>k. c_state k = uninit) nd) (handle_unknown E c b) (\<lambda>_. ninv E S F) (fine E S F)"
  unfolding handle_unknown_def
proof (rule hoare_get_con)
  fix k
  let ?P = "\<lambda>nd. ninv E S F nd \<and> at c (\<lambda>k. c_state k = uninit) nd"
  let ?body = "if is_dh b
     then andthen (generate_dh E c) (andthen (send_dh E c) (andthen (key_exchange E c b) (goto_state c received_dh)))
     else andthen (generate_dh E c) (andthen (send_dh E c) (goto_state c generated_dh))"
  have "hoare (\<lambda>nd. ninv E S F nd \<and> at c (\<lambda>k. c_state k = uninit \<and> c_dh k \<noteq> None) nd)
      (andthen (key_exchange E c b) (goto_state c received_dh)) (\<lambda>_. ninv E S F) (fine E S F)"
    by (rule hoare_pre [OF hoare_andthen [OF key_exchange_rule [OF assms] goto_received_rule]]) (auto simp: at_def)
  then have "hoare ?P ?body (\<lambda>_. ninv E S F) (fine E S F)"
    using dh_begin_rule goto_generated_rule by (cases "is_dh b") (simp_all only: if_True if_False, blast+)
  then show "hoare (\<lambda>nd. ?P nd \<and> nd_cons nd c = k) (andthen (assertc (c_state k = uninit) ''my->_cur_state == uninit'') ?body) (\<lambda>_. ninv E S F) (fine E S F)"
    by (cases "c_state k = uninit") (auto simp: hoare_def assertc_def andthen_def bindc_def ret_def at_def)
qed

lemma forget_peer_safe: "env_ok E \<Longrightarrow> safe E S F (forget_peer E c)"
  unfolding forget_peer_def by (intro safe_intros store_record_safe)

lemma restore_peer_safe: "safe E S F (upd_con c (\<lambda>k. k\<lparr>c_remote_id := rid, c_record := r, c_bf := Some bf\<rparr>))"
  by (rule safe_upd_con) (simp_all add: con_ok_def keyed_def)

lemma hoare_assert_state:
  "(\<And>nd. P nd \<Longrightarrow> b) \<Longrightarrow> hoare P m Q X \<Longrightarrow> hoare P (andthen (assertc b t) m) Q X"
  by (cases b) (auto simp: hoare_def assertc_def andthen_def bindc_def ret_def)

lemma handle_uninit_connected_rule:
  assumes E: "env_ok E" and F: "(c, ep) \<in> F"
  shows "hoare (\<lambda>nd. ninv E S F nd \<and> at c (\<lambda>k. c_state k = uninit) nd) (handle_uninit n E c b) (\<lambda>_. ninv E S F) (fine E S F)"
    and "hoare (\<lambda>nd. ninv E S F nd \<and> at c (\<lambda>k. c_state k = connected) nd) (handle_connected n E c b) (\<lambda>_. ninv E S F) (fine E S F)"
proof (induction n arbitrary: b)
  case 0
  {
    case 1
    then show ?case by (auto simp: fine_def intro: hoare_raise)
  next
    case 2
    then show ?case by (auto simp: fine_def intro: hoare_raise)
  }
next
  case (Suc n)
  let ?U = "\<lambda>nd. ninv E S F nd \<and> at c (\<lambda>k. c_state k = uninit) nd" and ?C = "\<lambda>nd. ninv E S F nd \<and> at c (\<lambda>k. c_state k = connected) nd"
  {
    case 1
    have g: "hoare (ninv E (insert c S) F) (goto_state c connected) (\<lambda>_. ?C) (fine E S F)"
      by (rule hoare_exn [OF hoare_post [OF hoare_pre [OF goto_state_rule [where P = "\<lambda>k. c_bf k \<noteq> None" and S = "insert c S"]]]])
         (auto simp: con_ok_def at_def fine_def ninv_insert)
    have r: "hoare (ninv E S F) (upd_con c (\<lambda>k. k\<lparr>c_remote_id := rid, c_record := r, c_bf := Some (bf_key r)\<rparr>))
        (\<lambda>_. ninv E (insert c S) F) (fine E S F)" for rid r
      using restore_peer_safe [of E S F c "bf_key r" r rid] by (auto simp: safe_def hoare_def upd_con_def ninv_insert)
    have x: "safe E (insert c S) F m \<Longrightarrow> hoare (ninv E (insert c S) F) m (\<lambda>_. ninv E (insert c S) F) (fine E S F)" for m :: "('a, unit) act"
      unfolding safe_def by (rule hoare_exn, assumption) (auto simp: fine_def ninv_insert)
    have "hoare (ninv E S F) (andthen (upd_con c (\<lambda>k. k\<lparr>c_remote_id := rid, c_record := r, c_bf := Some (bf_key r)\<rparr>))
        (andthen (update_dist_set E rid c) (andthen (upd_rec c (\<lambda>r. r\<lparr>connected_flag := 1\<rparr>))
        (andthen (store_record E c) (andthen (goto_state c connected) (handle_connected n E c b)))))) (\<lambda>_. ninv E S F) (fine E S F)" for rid r
      by (rule hoare_andthen [OF r hoare_andthen [OF x [OF update_dist_set_safe [OF E F insertI1]] hoare_andthen [OF x [OF safe_upd_rec]
            hoare_andthen [OF x [OF store_record_safe [OF E]] hoare_andthen [OF g Suc.IH(2)]]]]])
    then show ?case
      unfolding handle_uninit.simps using handle_unknown_rule [OF E, of S F c b]
      by (intro hoare_getc) (auto split: option.split intro: hoare_pre)
  next
    case 2
    have t: "hoare (ninv E S F) (andthen (forget_peer E c) (andthen (con_reset E c) (handle_uninit n E c b'))) (\<lambda>_. ninv E S F) (fine E S F)" for b'
      by (rule hoare_andthen [OF forget_peer_safe [OF E, unfolded safe_def] hoare_andthen [OF con_reset_rule [OF E] Suc.IH(1)]])
    have d: "hoare ?C (if length b mod 8 = 0 then decode_packet E c b else ret (False, b)) (\<lambda>_. ninv E S F) (fine E S F)"
      using hoare_pre [OF decode_packet_rule [OF E F, of S b], of ?C]
      by (auto simp: at_def ninv_def node_ok_def con_ok_def intro!: hoare_ret)
    have "hoare ?C (bindc (if length b mod 8 = 0 then decode_packet E c b else ret (False, b)) (\<lambda>(ok, b').
       if ok then ret () else andthen (forget_peer E c) (andthen (con_reset E c) (handle_uninit n E c b')))) (\<lambda>_. ninv E S F) (fine E S F)"
      by (rule hoare_bindc [OF d]) (auto intro!: hoare_ret t split: prod.split)
    then show ?case
      unfolding handle_connected.simps
      by (intro hoare_get_con hoare_assert_state) (auto simp: at_def intro: hoare_pre)
  }
qed

lemma state_cases:
  assumes "env_ok E" "(c, ep) \<in> F"
  shows "safe E S F (con_handle_packet E c b)"
  unfolding safe_def con_handle_packet_def Let_def
proof (rule hoare_getc)
  fix nd :: "'a node"
  let ?n = "call_bound E nd" and ?s = "c_state (nd_cons nd c)"
  have u: "hoare (ninv E S F) (andthen (goto_state c uninit) (handle_uninit ?n E c b')) (\<lambda>_. ninv E S F) (fine E S F)" for b'
    using goto_any_rule [of uninit E S F c] by (intro hoare_andthen [OF _ handle_uninit_connected_rule(1) [OF assms]]) simp
  have g: "hoare (\<lambda>nd. ninv E S F nd \<and> at c (\<lambda>k. c_state k = generated_dh) nd) (handle_generated_dh E c b) (\<lambda>_. ninv E S F) (fine E S F)"
    unfolding handle_generated_dh_def
  proof (rule hoare_get_con, rule hoare_assert_state)
    fix k
    have "hoare (\<lambda>nd. ninv E S F nd \<and> at c (\<lambda>k. c_state k = generated_dh) nd) (andthen (key_exchange E c b) (goto_state c received_dh)) (\<lambda>_. ninv E S F) (fine E S F)"
      by (rule hoare_pre [OF hoare_andthen [OF key_exchange_rule [OF assms(1)] goto_received_rule]]) (auto simp: at_def)
    moreover have "hoare (\<lambda>nd. ninv E S F nd \<and> at c (\<lambda>k. c_state k = generated_dh) nd) (send_dh E c) (\<lambda>_. ninv E S F) (fine E S F)"
      by (rule hoare_post [OF send_dh_at]) simp
    ultimately show "hoare (\<lambda>nd. (ninv E S F nd \<and> at c (\<lambda>k. c_state k = generated_dh) nd) \<and> nd_cons nd c = k)
       (if is_dh b then andthen (key_exchange E c b) (goto_state c received_dh) else send_dh E c) (\<lambda>_. ninv E S F) (fine E S F)"
      by (cases "is_dh b") (auto intro: hoare_pre)
  qed (simp add: at_def)
  have r: "hoare (\<lambda>nd. ninv E S F nd \<and> at c (\<lambda>k. c_state k = received_dh) nd) (handle_received_dh ?n E c b) (\<lambda>_. ninv E S F) (fine E S F)"
    unfolding handle_received_dh_def
  proof (rule hoare_get_con, rule hoare_assert_state)
    fix k
    let ?P = "\<lambda>nd. ninv E S F nd \<and> at c (\<lambda>k. c_state k = received_dh) nd"
    have 1: "hoare ?P (andthen (send_dh E c) (key_exchange E c b)) (\<lambda>_. ninv E S F) (fine E S F)"
      by (rule hoare_andthen [OF send_dh_at], rule hoare_post [OF hoare_pre [OF key_exchange_rule [OF assms(1)]]]) (auto simp: at_def)
    have 2: "hoare ?P (decode_packet E c b) (\<lambda>_. ninv E S F) (fine E S F)"
      by (rule hoare_pre [OF decode_packet_rule [OF assms]]) (auto simp: at_def ninv_def node_ok_def con_ok_def)
    have 3: "hoare ?P (bindc (decode_packet E c b) (\<lambda>(ok, b'). if ok then ret () else andthen (goto_state c uninit) (handle_uninit ?n E c b')))
        (\<lambda>_. ninv E S F) (fine E S F)"
      by (rule hoare_bindc [OF 2]) (auto intro!: hoare_ret u split: prod.split)
    show "hoare (\<lambda>nd. ?P nd \<and> nd_cons nd c = k)
       (if is_dh b then andthen (send_dh E c) (key_exchange E c b)
        else if length b mod 8 = 0 then bindc (decode_packet E c b) (\<lambda>(ok, b'). if ok then ret () else andthen (goto_state c uninit) (handle_uninit ?n E c b'))
        else ret ()) (\<lambda>_. ninv E S F) (fine E S F)"
      using 1 3 by (auto intro: hoare_pre hoare_ret)
  qed (simp add: at_def)
  show "hoare (\<lambda>s. ninv E S F s \<and> s = nd) (case ?s of failed \<Rightarrow> ret () | uninit \<Rightarrow> handle_uninit ?n E c b
     | generated_dh \<Rightarrow> handle_generated_dh E c b | received_dh \<Rightarrow> handle_received_dh ?n E c b
     | authenticated \<Rightarrow> handle_authenticated ?n E c b | connected \<Rightarrow> handle_connected ?n E c b) (\<lambda>_. ninv E S F) (fine E S F)"
  proof (cases ?s)
    case authenticated
    then have "\<not> ninv E S F nd" by (auto simp: ninv_def node_ok_def con_ok_def)
    then show ?thesis by (simp add: hoare_def)
  next
    case uninit
    then show ?thesis using handle_uninit_connected_rule(1) [OF assms, of S ?n b] by (auto simp: at_def intro: hoare_pre)
  next
    case connected
    then show ?thesis using handle_uninit_connected_rule(2) [OF assms, of S ?n b] by (auto simp: at_def intro: hoare_pre)
  qed (use g r in \<open>auto simp: at_def intro: hoare_pre hoare_ret\<close>)
qed

lemma ninv_insert_F: "ninv E S (insert (c, ep) F) nd \<longleftrightarrow> ninv E S F nd \<and> c < nd_next_con nd \<and> c_remote_ep (nd_cons nd c) = ep"
  by (auto simp: ninv_def)

text \<open>Working on a connection that is known to exist.\<close>

lemma safe_existing:
  assumes "\<And>ep. safe E S (insert (c, ep) F) m"
  shows "hoare (\<lambda>nd. ninv E S F nd \<and> c < nd_next_con nd) m (\<lambda>_. ninv E S F) (fine E S F)"
  unfolding hoare_def
proof (intro allI impI)
  fix nd assume "ninv E S F nd \<and> c < nd_next_con nd"
  then have "ninv E S (insert (c, c_remote_ep (nd_cons nd c)) F) nd" by (simp add: ninv_insert_F)
  then have "case m nd of (Inr a, s') \<Rightarrow> ninv E S (insert (c, c_remote_ep (nd_cons nd c)) F) s'
      | (Inl e, s') \<Rightarrow> fine E S (insert (c, c_remote_ep (nd_cons nd c)) F) e s'"
    using assms [of "c_remote_ep (nd_cons nd c)"] by (simp add: safe_def hoare_def)
  then show "case m nd of (Inr a, s') \<Rightarrow> ninv E S F s' | (Inl e, s') \<Rightarrow> fine E S F e s'"
    by (cases "m nd"; cases "fst (m nd)") (simp_all add: ninv_insert_F fine_def)
qed

lemma process_next_message_safe: "env_ok E \<Longrightarrow> (c, ep) \<in> F \<Longrightarrow> safe E S F (process_next_message E c)"
  unfolding process_next_message_def
  by (rule safe_bindc [OF safe_get_con]) (auto split: list.split intro!: safe_intros state_cases)

lemma pq_front_mem: "pq_front nd = Some c \<Longrightarrow> c \<in> set (nd_process_queue nd)"
  by (auto simp: pq_front_def find_Some_iff)

lemma queue_filter_safe: "(\<And>nd. set (f nd) \<subseteq> set (nd_process_queue nd)) \<Longrightarrow> safe E S F (modc (\<lambda>nd. nd\<lparr>nd_process_queue := f nd\<rparr>))"
  unfolding safe_def by (rule hoare_modc) (fastforce simp: ninv_def node_ok_def)

lemma process_round_safe:
  assumes "env_ok E"
  shows "safe E S F (process_round E)"
  unfolding safe_def process_round_def
proof (rule hoare_getc)
  fix nd :: "'a node"
  have p: "safe E S F (modc (\<lambda>nd. nd\<lparr>nd_processing := b\<rparr>))" for b
    unfolding safe_def by (rule hoare_modc) (simp add: ninv_irrelevant)
  let ?m = "\<lambda>c. andthen (process_next_message E c) (bindc getc (\<lambda>nd. case pq_front nd of None \<Rightarrow> raise (Undefined ''front of an empty vector'')
     | Some d \<Rightarrow> andthen (whenc (pending_packets (nd_cons nd d) = 0)
             (modc (\<lambda>nd. nd\<lparr>nd_process_queue := remove1 d (nd_process_queue nd)\<rparr>))) (ret True)))"
  have "safe E S (insert (c, ep) F) (?m c)" for c ep
    by (intro safe_intros process_next_message_safe [OF assms insertI1] queue_filter_safe bad_Undefined set_remove1_subset)
  then have m: "hoare (\<lambda>nd. ninv E S F nd \<and> c < nd_next_con nd) (?m c) (\<lambda>_. ninv E S F) (fine E S F)" for c
    by (rule safe_existing)
  show "hoare (\<lambda>s. ninv E S F s \<and> s = nd) (case pq_front nd of None \<Rightarrow> andthen (modc (\<lambda>nd. nd\<lparr>nd_processing := False\<rparr>)) (ret False) | Some c \<Rightarrow> ?m c)
     (\<lambda>_. ninv E S F) (fine E S F)"
  proof (cases "pq_front nd")
    case None
    have "safe E S F (andthen (modc (\<lambda>nd. nd\<lparr>nd_processing := False\<rparr>)) (ret False))" by (intro safe_intros p)
    then show ?thesis unfolding None option.case safe_def by (rule hoare_pre) simp
  next
    case (Some c)
    have "ninv E S F nd \<Longrightarrow> c < nd_next_con nd" using pq_front_mem [OF Some] by (auto simp: ninv_def node_ok_def)
    then show ?thesis unfolding Some option.case by (intro hoare_pre [OF m]) auto
  qed
qed

section \<open>Connecting\<close>

lemma advance_safe:
  assumes "env_ok E"
  shows "safe E S F (advance E c)"
  unfolding advance_def
proof (rule safe_andthen)
  show "safe E S F (upd_con c (\<lambda>k. k\<lparr>c_advance_count := c_advance_count k + 1\<rparr>))" by (intro safe_intros)
  let ?b = "\<lambda>k. if 10 \<le> c_advance_count k then goto_state c failed else case c_state k of
       failed \<Rightarrow> ret () | uninit \<Rightarrow> andthen (generate_dh E c) (andthen (send_dh E c) (goto_state c generated_dh))
     | generated_dh \<Rightarrow> send_dh E c | received_dh \<Rightarrow> andthen (send_dh E c) (send_auth E c)
     | authenticated \<Rightarrow> send_auth_response E c True | connected \<Rightarrow> upd_con c (\<lambda>k. k\<lparr>c_advance_count := 0\<rparr>)"
  have d: "hoare (\<lambda>nd. ninv E S F nd \<and> at c P nd) (send_dh E c) (\<lambda>_. ninv E S F) (fine E S F)" for P
    by (rule hoare_post [OF send_dh_at]) simp
  have r: "hoare (\<lambda>nd. ninv E S F nd \<and> at c (\<lambda>k. c_state k = received_dh \<and> c_bf k \<noteq> None) nd) (andthen (send_dh E c) (send_auth E c)) (\<lambda>_. ninv E S F) (fine E S F)"
    by (rule hoare_andthen [OF send_dh_at], rule hoare_post [OF send_auth_at]) auto
  have "hoare (\<lambda>nd. ninv E S F nd \<and> nd_cons nd c = k) (?b k) (\<lambda>_. ninv E S F) (fine E S F)" for k
  proof (cases "10 \<le> c_advance_count k")
    case True
    then show ?thesis using goto_failed_safe [of E S F c] by (auto simp: safe_def intro: hoare_pre)
  next
    case False
    have ok: "ninv E S F nd \<and> nd_cons nd c = k \<Longrightarrow> con_ok k" for nd by (auto simp: ninv_def node_ok_def)
    show ?thesis
    proof (cases "c_state k")
      case uninit
      then show ?thesis using False
        by (simp, intro hoare_pre [OF dh_begin_rule [OF goto_generated_rule]]) (auto simp: at_def)
    next
      case generated_dh
      then show ?thesis using False by (simp, intro hoare_pre [OF d [of "\<lambda>_. True"]]) (auto simp: at_def)
    next
      case received_dh
      then show ?thesis using False ok by (simp, intro hoare_pre [OF r]) (auto simp: at_def con_ok_def)
    next
      case authenticated
      then show ?thesis using ok by (auto simp: hoare_def con_ok_def)
    next
      case connected
      have "safe E S F (upd_con c (\<lambda>k. k\<lparr>c_advance_count := 0\<rparr>))" by (intro safe_intros)
      then have "hoare (\<lambda>nd. ninv E S F nd \<and> nd_cons nd c = k) (upd_con c (\<lambda>k. k\<lparr>c_advance_count := 0\<rparr>)) (\<lambda>_. ninv E S F) (fine E S F)"
        unfolding safe_def by (rule hoare_pre) simp
      then show ?thesis using connected False by simp
    qed (auto simp: False intro: hoare_ret)
  qed
  then show "safe E S F (bindc (get_con c) ?b)" unfolding safe_def by (rule hoare_get_con)
qed

lemma alloc_con_rule:
  assumes "con_ok k" "c_remote_ep k = ep"
  shows "hoare (ninv E S F) (alloc_con k) (\<lambda>c. ninv E (S - {c}) (insert (c, ep) F)) (fine E S F)"
proof (rule hoareI)
  fix nd assume i: "ninv E S F nd"
  have n: "(nd_next_con nd, ep') \<notin> F" for ep' using i by (fastforce simp: ninv_def)
  have "ninv E (S - {nd_next_con nd}) (insert (nd_next_con nd, ep) F)
      (nd\<lparr>nd_cons := (nd_cons nd)(nd_next_con nd := k), nd_next_con := Suc (nd_next_con nd)\<rparr>)"
    using i assms n by (fastforce simp: ninv_def node_ok_def less_Suc_eq)
  then show "case alloc_con k nd of (Inr c, s') \<Rightarrow> ninv E (S - {c}) (insert (c, ep) F) s' | (Inl e, s') \<Rightarrow> fine E S F e s'"
    by (simp add: alloc_con_def)
qed

text \<open>The constructor is run without other facts on ciphers, since it makes a new connection without one.\<close>

lemma new_connection_rule:
  assumes "env_ok E"
  shows "hoare (ninv E {} F) (new_connection E ep) (\<lambda>c. ninv E {} (insert (c, ep) F)) (fine E {} F)"
  unfolding new_connection_def
proof (rule hoare_bindc)
  show "hoare (ninv E {} F) (alloc_con (con_init ep)) (\<lambda>c. ninv E {} (insert (c, ep) F)) (fine E {} F)"
    using alloc_con_rule [of "con_init ep" ep E "{}" F] by (simp add: con_init_def con_ok_def)
  fix c
  let ?F = "insert (c, ep) F"
  have bf: "hoare (ninv E {} ?F) (upd_con c (\<lambda>k. k\<lparr>c_remote_id := rid, c_record := r, c_bf := Some (bf_key r)\<rparr>)) (\<lambda>_. ninv E {c} ?F) (fine E {} ?F)" for rid r
    using restore_peer_safe [of E "{}" ?F c "bf_key r" r rid] by (auto simp: safe_def hoare_def upd_con_def ninv_insert)
  have x: "safe E {c} ?F m \<Longrightarrow> hoare (ninv E {c} ?F) m (\<lambda>_. ninv E {c} ?F) (fine E {} ?F)" for m :: "('a, unit) act"
    unfolding safe_def by (rule hoare_exn, assumption) (auto simp: fine_def ninv_insert)
  have s: "safe E {c} ?F (upd_con c (\<lambda>k. k\<lparr>c_state := connected\<rparr>))"
    unfolding safe_def hoare_def by (auto simp: upd_con_def ninv_insert con_ok_def ninv_def node_ok_def keyed_def)
  have "hoare (ninv E {} ?F) (case p of Some (rid, r) \<Rightarrow>
         andthen (upd_con c (\<lambda>k. k\<lparr>c_remote_id := rid, c_record := r, c_bf := Some (bf_key r)\<rparr>))
        (andthen (update_dist_set E rid c) (andthen (upd_con c (\<lambda>k. k\<lparr>c_state := connected\<rparr>))
        (andthen (upd_rec c (\<lambda>r. r\<lparr>connected_flag := 1\<rparr>)) (andthen (store_record E c) (ret c)))))
     | None \<Rightarrow> andthen (upd_rec c (\<lambda>r. r\<lparr>last_ep := ep\<rparr>)) (ret c))
     (\<lambda>c'. ninv E {} (insert (c', ep) F)) (fine E {} ?F)" for p
  proof (cases p)
    case None
    then show ?thesis using safe_upd_rec [of E "{}" ?F c] by (auto simp: safe_def intro!: hoare_andthen hoare_ret)
  next
    case (Some q)
    then show ?thesis
      by (cases q) (simp, intro hoare_andthen [OF bf] hoare_andthen [OF x [OF update_dist_set_safe [OF assms insertI1 insertI1]]]
        hoare_andthen [OF x [OF s]] hoare_andthen [OF x [OF safe_upd_rec]] hoare_andthen [OF x [OF store_record_safe [OF assms]]] hoare_ret,
        simp add: ninv_insert)
  qed
  then have "hoare (ninv E {} ?F) (case p of Some (rid, r) \<Rightarrow>
         andthen (upd_con c (\<lambda>k. k\<lparr>c_remote_id := rid, c_record := r, c_bf := Some (bf_key r)\<rparr>))
        (andthen (update_dist_set E rid c) (andthen (upd_con c (\<lambda>k. k\<lparr>c_state := connected\<rparr>))
        (andthen (upd_rec c (\<lambda>r. r\<lparr>connected_flag := 1\<rparr>)) (andthen (store_record E c) (ret c)))))
     | None \<Rightarrow> andthen (upd_rec c (\<lambda>r. r\<lparr>last_ep := ep\<rparr>)) (ret c))
     (\<lambda>c'. ninv E {} (insert (c', ep) F)) (fine E {} F)" for p
    by (rule hoare_exn) (auto simp: fine_def ninv_insert_F)
  then show "hoare (ninv E {} ?F) (bindc getc (\<lambda>nd. case peer_fetch_by_endpoint (en_db E) (nd_peers nd) ep of Some (rid, r) \<Rightarrow>
         andthen (upd_con c (\<lambda>k. k\<lparr>c_remote_id := rid, c_record := r, c_bf := Some (bf_key r)\<rparr>))
        (andthen (update_dist_set E rid c) (andthen (upd_con c (\<lambda>k. k\<lparr>c_state := connected\<rparr>))
        (andthen (upd_rec c (\<lambda>r. r\<lparr>connected_flag := 1\<rparr>)) (andthen (store_record E c) (ret c)))))
     | None \<Rightarrow> andthen (upd_rec c (\<lambda>r. r\<lparr>last_ep := ep\<rparr>)) (ret c))) (\<lambda>c'. ninv E {} (insert (c', ep) F)) (fine E {} F)"
    by (intro hoare_getc) (auto intro: hoare_pre)
qed

lemma set_ep_rule: "hoare (ninv E S (insert (c, ep) F)) (set_ep_to_con ep c) (\<lambda>_. ninv E S (insert (c, ep) F)) (fine E S F)"
  unfolding set_ep_to_con_def
  by (rule hoare_modc) (auto simp: ninv_def node_ok_def sm_ok_put sm_get_put split: if_splits)

section \<open>Operations of the node\<close>

lemma safe_modc_irrelevant:
  assumes "\<And>nd. ninv E S F (f nd) = ninv E S F nd"
  shows "safe E S F (modc f)"
  unfolding safe_def by (rule hoare_modc) (simp add: assms)

lemma process_connection_safe:
  assumes "(c, ep) \<in> F"
  shows "safe E S F (process_connection c)"
proof -
  have q: "safe E S F (modc (\<lambda>nd. nd\<lparr>nd_process_queue := nd_process_queue nd @ [c]\<rparr>))"
    unfolding safe_def using assms by (intro hoare_modc) (auto simp: ninv_def node_ok_def)
  show ?thesis
    unfolding process_connection_def by (intro safe_intros q safe_modc_irrelevant) (simp add: ninv_irrelevant)
qed

lemma post_packet_safe [safe_intros]: "safe E S F (post_packet c b)"
  unfolding post_packet_def by (intro safe_intros)

lemma hoare_new_con:
  assumes "env_ok E" "\<And>c. safe E {} (insert (c, ep) F) (k c)"
  shows "hoare (ninv E {} F) (bindc (new_connection E ep) (\<lambda>c. andthen (set_ep_to_con ep c) (k c))) (\<lambda>_. ninv E {} F) (fine E {} F)"
proof (rule hoare_bindc [OF new_connection_rule [OF assms(1)]], rule hoare_andthen [OF set_ep_rule])
  show "hoare (ninv E {} (insert (c, ep) F)) (k c) (\<lambda>_. ninv E {} F) (fine E {} F)" for c
    by (rule hoare_exn [OF hoare_post [OF assms(2) [unfolded safe_def]]]) (simp_all add: ninv_insert_F fine_def)
qed

lemma ep_existing:
  assumes "sm_get (nd_ep_to_con nd) ep = Some c" "\<And>ep'. safe E {} (insert (c, ep') F) m"
  shows "hoare (\<lambda>s. ninv E {} F s \<and> s = nd) m (\<lambda>_. ninv E {} F) (fine E {} F)"
proof (rule hoare_pre [OF safe_existing [OF assms(2)]])
  fix s assume "ninv E {} F s \<and> s = nd"
  moreover from this have "c < nd_next_con nd" using assms(1) by (cases ep) (auto simp: ninv_def node_ok_def)
  ultimately show "ninv E {} F s \<and> c < nd_next_con s" by blast
qed

lemma node_handle_packet_safe:
  assumes "env_ok E"
  shows "safe E {} F (node_handle_packet E b ep)"
  unfolding safe_def node_handle_packet_def
proof (rule hoare_getc)
  fix nd :: "'a node"
  have p: "safe E {} (insert (c, ep') F) (andthen (post_packet c b) (process_connection c))" for c ep'
    by (intro safe_intros process_connection_safe [OF insertI1])
  show "hoare (\<lambda>s. ninv E {} F s \<and> s = nd) (case sm_get (nd_ep_to_con nd) ep of
       None \<Rightarrow> bindc (new_connection E ep) (\<lambda>c. andthen (set_ep_to_con ep c) (andthen (post_packet c b) (process_connection c)))
     | Some c \<Rightarrow> andthen (post_packet c b) (process_connection c)) (\<lambda>_. ninv E {} F) (fine E {} F)"
  proof (cases "sm_get (nd_ep_to_con nd) ep")
    case None
    show ?thesis unfolding None option.case by (rule hoare_pre [OF hoare_new_con [OF assms p]]) simp
  next
    case (Some c)
    show ?thesis unfolding Some option.case by (rule ep_existing [OF Some p])
  qed
qed

lemma read_round_safe:
  assumes "env_ok E"
  shows "safe E {} F (read_round E b from)"
proof -
  have r: "safe E {} F (modc (\<lambda>nd. nd\<lparr>nd_reading := False\<rparr>))" by (rule safe_modc_irrelevant) (simp add: ninv_irrelevant)
  have "safe E {} F (catchc (node_handle_packet E b from) (\<lambda>e. modc (\<lambda>nd. nd\<lparr>nd_reading := False\<rparr>)))"
    unfolding safe_def
    by (rule hoare_catchc [OF node_handle_packet_safe [OF assms, unfolded safe_def] hoare_pre [OF r [unfolded safe_def]]]) (simp_all add: fine_def)
  then show ?thesis unfolding read_round_def by (intro safe_intros)
qed

lemma connect_begin_rule:
  assumes "env_ok E"
  shows "hoare (ninv E {} F) (connect_begin E ep) (\<lambda>c. ninv E {} F) (fine E {} F)"
  unfolding connect_begin_def
proof (rule hoare_getc)
  fix nd :: "'a node"
  show "hoare (\<lambda>s. ninv E {} F s \<and> s = nd) (case sm_get (nd_ep_to_con nd) ep of Some c \<Rightarrow> ret c
     | None \<Rightarrow> bindc (new_connection E ep) (\<lambda>c. andthen (set_ep_to_con ep c) (ret c))) (\<lambda>_. ninv E {} F) (fine E {} F)"
  proof (cases "sm_get (nd_ep_to_con nd) ep")
    case None
    show ?thesis unfolding None option.case by (rule hoare_pre [OF hoare_new_con [OF assms safe_ret]]) simp
  qed (auto intro: hoare_ret)
qed

lemma safe_case_state [safe_intros]:
  "\<lbrakk>s = failed \<Longrightarrow> safe E S F a; s = connected \<Longrightarrow> safe E S F b; safe E S F d\<rbrakk> \<Longrightarrow>
   safe E S F (case s of failed \<Rightarrow> a | connected \<Rightarrow> b | _ \<Rightarrow> d)"
  by (cases s) simp_all

lemma connect_round_safe: "env_ok E \<Longrightarrow> safe E S F (connect_round E c)"
  unfolding connect_round_def by (intro safe_intros con_close_safe advance_safe bad_Throw)

lemma connect_nat_round_safe: "safe E S F (connect_nat_round c)"
  unfolding connect_nat_round_def by (intro safe_intros bad_Throw)

lemma request_connect_safe: "c \<in> S \<Longrightarrow> safe E S F (request_reverse_connect E c ep)" "c \<in> S \<Longrightarrow> safe E S F (send_request_connect E c ep)"
  unfolding request_reverse_connect_def send_request_connect_def
  by (intro safe_intros pack_safe calm_endpoint con_send_safe; assumption)+

lemma get_connection_safe [safe_intros]: "safe E S F (get_connection i)"
  unfolding get_connection_def by (intro safe_intros bad_Throw)

lemma open_channel_safe: "safe E S F (open_channel nid rcn)"
  unfolding open_channel_def get_free_channel_num_def add_channel_def
  by (intro safe_intros bad_Throw sm_ok_put)

lemma start_service_safe:
  assumes "\<And>ch e. cb ch = Inl e \<Longrightarrow> \<exists>t. e = Throw t"
  shows "safe E S F (start_service cn name cb)"
proof -
  have "ninv E S F (nd\<lparr>nd_services := sm_put cn \<lparr>svc_port = cn, svc_name = name, svc_handler = cb\<rparr> (nd_services nd)\<rparr>)" if "ninv E S F nd" for nd
    using that assms by (auto simp: ninv_def node_ok_def sm_ok_put sm_get_put split: if_splits)
  then show ?thesis
    unfolding start_service_def by (intro safe_intros bad_Throw) (simp add: safe_def hoare_modc)
qed

lemma close_all_safe: "env_ok E \<Longrightarrow> safe E S F (close_all E l)"
  by (induction l) (auto intro!: safe_intros con_close_safe)

lemma shutdown_safe: "env_ok E \<Longrightarrow> safe E S F (shutdown E)"
  unfolding shutdown_def
  by (intro safe_intros close_all_safe) (auto simp: safe_def ninv_def node_ok_def intro!: hoare_modc)

lemma channel_close_safe: "safe E S F (channel_close hdl)"
  unfolding channel_close_def con_close_channel_def Let_def by (intro safe_intros bad_Undefined sm_ok_del)
end
