(* ===== verification/Node_Steps.thy ===== *)
theory Node_Steps
  imports Node_Inv
begin

text \<open>
  The reachable states of a node. A step is a piece of one of the fibers of its thread between two
  points where it yields, or a call of the node's interface by the application: reading a datagram,
  running a posted task (among them a round of the processing loop), connecting, channel and
  service operations, and the passing of time. Whatever datagrams arrive, the invariant holds.
\<close>

section \<open>Keeping the invariant\<close>

lemma hoare_keeps:
  assumes "hoare P m (\<lambda>_. P) (\<lambda>_. P)"
  shows "keeps P m"
proof (rule keepsI)
  fix s assume "P s"
  then have "case m s of (Inr a, s') \<Rightarrow> P s' | (Inl e, s') \<Rightarrow> P s'" using assms by (simp add: hoare_def)
  then show "P (snd (m s))" by (cases "m s"; cases "fst (m s)") simp_all
qed

lemma safe_keeps: "safe E S F m \<Longrightarrow> keeps (ninv E S F) m"
  unfolding safe_def by (rule hoare_keeps, rule hoare_exn, assumption) (auto simp: fine_def)

lemma keeps_liftres [keeps_intros]: "keeps P (liftres r)" by (simp add: keeps_def liftres_def)
lemma keeps_get_con [keeps_intros]: "keeps P (get_con c)" by (simp add: keeps_def get_con_def)
lemma keeps_get_chan [keeps_intros]: "keeps P (get_chan c)" by (simp add: keeps_def get_chan_def)

lemma keeps_option [keeps_intros]: "keeps P m \<Longrightarrow> (\<And>a. keeps P (k a)) \<Longrightarrow> keeps P (case x of None \<Rightarrow> m | Some a \<Rightarrow> k a)"
  by (cases x) simp_all

lemma con_send_keeps: "keeps (ninv E S F) (con_send E c buf t)"
  unfolding con_send_def by (intro keeps_intros safe_keeps safe_net_send)

lemma chan_send_keeps: "keeps (ninv E S F) (chan_send E hdl b)"
  unfolding chan_send_def con_send_data_def by (intro keeps_intros con_send_keeps)

lemma send_request_connect_keeps: "keeps (ninv E S F) (send_request_connect E c ep)"
  unfolding send_request_connect_def by (intro keeps_intros con_send_keeps safe_keeps safe_upd_rec)

lemma connect_nat_begin_keeps:
  assumes "env_ok E"
  shows "keeps (ninv E {} F) (connect_nat_begin E ep nat_ep)"
proof -
  have "hoare (ninv E {} F) (new_connection E ep) (\<lambda>c. ninv E {} (insert (c, ep) F)) (fine E {} F)"
    by (rule new_connection_rule [OF assms])
  then have n: "keeps (ninv E {} F) (bindc (new_connection E ep) (\<lambda>con. andthen (set_ep_to_con ep con) (k con)))"
    if "\<And>con. keeps (ninv E {} (insert (con, ep) F)) (k con)" for k :: "nat \<Rightarrow> ('a, sha1 + nat) act"
  proof -
    have "hoare (ninv E {} F) (bindc (new_connection E ep) (\<lambda>con. andthen (set_ep_to_con ep con) (k con)))
        (\<lambda>_. ninv E {} F) (\<lambda>_. ninv E {} F)"
    proof (rule hoare_bindc [OF hoare_exn [OF new_connection_rule [OF assms]]])
      fix con
      have "hoare (ninv E {} (insert (con, ep) F)) (k con) (\<lambda>_. ninv E {} F) (\<lambda>_. ninv E {} F)"
        using that [of con] unfolding hoare_def keeps_def
        by (intro allI impI) (metis (no_types, lifting) ninv_insert_F prod.case_eq_if sum.case_eq_if)
      moreover have "hoare (ninv E {} (insert (con, ep) F)) (set_ep_to_con ep con) (\<lambda>_. ninv E {} (insert (con, ep) F)) (\<lambda>_. ninv E {} F)"
        by (rule hoare_exn [OF set_ep_rule]) (simp add: fine_def)
      ultimately show "hoare (ninv E {} (insert (con, ep) F)) (andthen (set_ep_to_con ep con) (k con)) (\<lambda>_. ninv E {} F) (\<lambda>_. ninv E {} F)"
        by (rule hoare_andthen [rotated])
    qed (simp add: fine_def)
    then show ?thesis by (rule hoare_keeps)
  qed
  show ?thesis
    unfolding connect_nat_begin_def send_punch_def request_reverse_connect_def
    by (intro keeps_intros n con_send_keeps safe_keeps safe_upd_rec safe_net_send)
qed

lemma lookup_begin_keeps: "keeps (ninv E S F) (lookup_begin E c target n limit)"
  unfolding lookup_begin_def send_update_rank_def
  by (intro keeps_intros con_send_keeps safe_keeps safe_intros sm_ok_put) (simp add: ninv_irrelevant)

lemma lookup_finish_keeps: "keeps (ninv E S F) (lookup_finish c target t1 t2)"
  unfolding lookup_finish_def assertc_def by (intro keeps_intros safe_keeps safe_upd_rec)

lemma lookup_failed_keeps: "keeps (ninv E S F) (lookup_failed c target)"
  unfolding lookup_failed_def by (intro safe_keeps safe_intros sm_ok_del bad_Throw)

lemma run_node_task_keeps:
  assumes "env_ok E"
  shows "keeps (ninv E {} F) (run_node_task E t)"
proof (cases t)
  case T_process_queue
  then show ?thesis unfolding run_node_task_def by (auto intro!: safe_keeps safe_intros process_round_safe assms)
next
  case (T_request_connect ep c)
  then show ?thesis unfolding run_node_task_def by (auto intro!: keeps_intros send_request_connect_keeps)
next
  case (T_connect ep)
  have "safe E {} F (connect_begin E ep)" unfolding safe_def by (rule connect_begin_rule [OF assms])
  then show ?thesis using T_connect unfolding run_node_task_def by (auto intro!: safe_keeps safe_intros connect_round_safe assms)
next
  case (T_close c)
  then show ?thesis unfolding run_node_task_def by (auto intro!: safe_keeps con_close_safe assms)
qed

section \<open>Steps\<close>

inductive node_step :: "'h env \<Rightarrow> 'h node \<Rightarrow> 'h node \<Rightarrow> bool" for E where
  read: "nd_reading nd \<Longrightarrow> length b \<le> 2048 \<Longrightarrow> node_step E nd (snd (read_round E b fr nd))"
| task: "t \<in> set (nd_tasks nd) \<Longrightarrow> node_step E nd (snd (run_node_task E t (nd\<lparr>nd_tasks := remove1 t (nd_tasks nd)\<rparr>)))"
| connect: "node_step E nd (snd (connect_begin E ep nd))"
| round: "c < nd_next_con nd \<Longrightarrow> node_step E nd (snd (connect_round E c nd))"
| nat_connect: "node_step E nd (snd (connect_nat_begin E ep nat_ep nd))"
| open_chan: "node_step E nd (snd (open_channel nid rcn nd))"
| on_recv: "node_step E nd (snd (chan_on_recv hdl rc nd))"
| send: "node_step E nd (snd (chan_send E hdl b nd))"
| close_chan: "node_step E nd (snd (channel_close hdl nd))"
| serve: "(\<And>ch e. cb ch = Inl e \<Longrightarrow> \<exists>t. e = Throw t) \<Longrightarrow> node_step E nd (snd (start_service cn name cb nd))"
| lookup: "node_step E nd (snd (remote_nodes_near E rnode target n limit nd))"
| lookup_done: "node_step E nd (snd (lookup_finish c target t1 t2 nd))"
| lookup_timeout: "node_step E nd (snd (lookup_failed c target nd))"
| client: "node_step E nd (snd (node_add_client nid nm p nd))"
| stop: "node_step E nd (snd (shutdown E nd))"
| tick: "nd_now nd \<le> t \<Longrightarrow> node_step E nd (nd\<lparr>nd_now := t\<rparr>)"

inductive_cases node_stepE: "node_step E nd nd'"

lemma node_step_keeps:
  assumes "node_step E nd nd'" "env_ok E" "ninv E {} F nd"
  shows "ninv E {} F nd'"
  using assms(1)
proof cases
  case (read b fr)
  then show ?thesis using keepsD [OF safe_keeps [OF read_round_safe [OF assms(2)]] assms(3)] by simp
next
  case (task t)
  then show ?thesis using keepsD [OF run_node_task_keeps [OF assms(2)]] assms(3) by (simp add: ninv_irrelevant)
next
  case (connect ep)
  have "safe E {} F (connect_begin E ep)" unfolding safe_def by (rule connect_begin_rule [OF assms(2)])
  then show ?thesis using connect keepsD [OF safe_keeps assms(3)] by simp
next
  case (round c)
  then show ?thesis using keepsD [OF safe_keeps [OF connect_round_safe [OF assms(2)]] assms(3)] by simp
next
  case (nat_connect ep nat_ep)
  then show ?thesis using keepsD [OF connect_nat_begin_keeps [OF assms(2)] assms(3)] by simp
next
  case (open_chan nid rcn)
  then show ?thesis using keepsD [OF safe_keeps [OF open_channel_safe] assms(3)] by simp
next
  case (on_recv hdl rc)
  have "safe E {} F (chan_on_recv hdl rc)" unfolding chan_on_recv_def by (intro safe_intros bad_asserts_other)
  then show ?thesis using on_recv keepsD [OF safe_keeps assms(3)] by simp
next
  case (send hdl b)
  then show ?thesis using keepsD [OF chan_send_keeps assms(3)] by simp
next
  case (close_chan hdl)
  then show ?thesis using keepsD [OF safe_keeps [OF channel_close_safe] assms(3)] by simp
next
  case (serve cb cn name)
  then show ?thesis using keepsD [OF safe_keeps [OF start_service_safe] assms(3)] by simp
next
  case (lookup rnode target n limit)
  have "keeps (ninv E {} F) (remote_nodes_near E rnode target n limit)"
    unfolding remote_nodes_near_def by (intro keeps_intros lookup_begin_keeps safe_keeps get_connection_safe)
  from keepsD [OF this assms(3)] show ?thesis using lookup by simp
next
  case (lookup_done c target t1 t2)
  then show ?thesis using keepsD [OF lookup_finish_keeps assms(3)] by simp
next
  case (lookup_timeout c target)
  then show ?thesis using keepsD [OF lookup_failed_keeps assms(3)] by simp
next
  case (client nid nm p)
  have "safe E {} F (node_add_client nid nm p)" unfolding node_add_client_def add_client_def by (intro safe_intros)
  then show ?thesis using client keepsD [OF safe_keeps assms(3)] by simp
next
  case stop
  then show ?thesis using keepsD [OF safe_keeps [OF shutdown_safe [OF assms(2)]] assms(3)] by simp
next
  case (tick t)
  then show ?thesis using assms(3) by (simp add: ninv_irrelevant)
qed

inductive node_run :: "'h env \<Rightarrow> 'h node \<Rightarrow> 'h node \<Rightarrow> bool" for E nd0 where
  start: "node_run E nd0 nd0"
| step: "node_run E nd0 nd \<Longrightarrow> node_step E nd nd' \<Longrightarrow> node_run E nd0 nd'"

lemma node_run_keeps: "node_run E nd0 nd \<Longrightarrow> env_ok E \<Longrightarrow> ninv E {} F nd0 \<Longrightarrow> ninv E {} F nd"
  by (induction rule: node_run.induct) (auto intro: node_step_keeps)

lemma node_init_ok:
  assumes "peer_inv (en_cr E) (en_db E) \<lparr>pd_node_id = sha1_hash (en_cr E) (fst keys), pd_handle = h\<rparr>"
  shows "ninv E {} {} (node_init (en_cr E) garbage keys stored h addr port)"
  using assms by (simp add: ninv_def node_ok_def node_init_def Let_def con_ok_def con_init_def kb_wf_def kb_set_id_def kb_new_def)


section \<open>Properties\<close>

text \<open>
  C2: in every state a node can reach from its start, whatever datagrams arrive and whatever the
  application does: no connection is in the state \<open>authenticated\<close> (nothing ever enters it); a
  connection that has received a key or is connected has a cipher; an endpoint leads to the
  connection with that remote endpoint; the peer database holds every record under the hash of
  its public key; and processing a queued packet does not fail an assertion on the connection's
  state or cipher.
\<close>

theorem node_reachable_ok:
  assumes "env_ok E" "peer_inv (en_cr E) (en_db E) \<lparr>pd_node_id = sha1_hash (en_cr E) (fst keys), pd_handle = h\<rparr>"
    and "node_run E (node_init (en_cr E) garbage keys stored h addr port) nd"
  shows "(\<forall>c. c_state (nd_cons nd c) \<noteq> authenticated \<and>
           (c_state (nd_cons nd c) \<in> {received_dh, connected} \<longrightarrow> c_bf (nd_cons nd c) \<noteq> None)) \<and>
    (\<forall>ep c. sm_get (nd_ep_to_con nd) ep = Some c \<longrightarrow> c_remote_ep (nd_cons nd c) = ep) \<and>
    peer_inv (en_cr E) (en_db E) (nd_peers nd) \<and>
    (\<forall>e nd'. process_round E nd = (Inl e, nd') \<longrightarrow> e \<notin> bad_asserts)"
proof -
  have i: "ninv E {} {} nd" using node_run_keeps [OF assms(3, 1) node_init_ok [OF assms(2)]] .
  then have "hoare (ninv E {} {}) (process_round E) (\<lambda>_. ninv E {} {}) (fine E {} {})"
    using process_round_safe [OF assms(1)] by (simp add: safe_def)
  then have "\<forall>e nd'. process_round E nd = (Inl e, nd') \<longrightarrow> e \<notin> bad_asserts"
    using i unfolding hoare_def fine_def by fastforce
  then show ?thesis using i by (auto simp: ninv_def node_ok_def con_ok_def)
qed

text \<open>
  A peer can ask for a reverse connection through this node to any endpoint; if the node has a
  connection object for that endpoint that has not got a cipher yet (it is still in the handshake),
  the posted task fails the assertion \<open>my->_bf\<close> in \<open>connection::send\<close>.
\<close>

theorem reverse_connect_assert:
  assumes "sm_get (nd_ep_to_con nd) ep = Some d" "c_bf (nd_cons nd d) = None"
  shows "fst (run_node_task E (T_request_connect ep c) nd) = Inl (Assert_fail ''my->_bf'')"
proof -
  have "pack_packet (replicate 6 0) endpoint_write (c_remote_ep (nd_cons nd c)) = Inr (endpoint_enc (c_remote_ep (nd_cons nd c)))"
    by (rule epc.pack_enc) (simp add: endpoint_enc_def)
  then show ?thesis
    using assms by (simp add: run_node_task_def send_request_connect_def con_send_def act_simps bindc_def getc_def andthen_def
        frame_encode_def endpoint_enc_def)
qed

definition demo_env :: "(byte list \<times> peer_record) list env" where
  "demo_env = \<lparr>en_cr = demo_crypto, en_db = list_bdb\<rparr>"

definition demo_node :: "byte \<Rightarrow> (byte list \<times> peer_record) list node" where
  "demo_node k = node_init demo_crypto 0 (k # replicate 255 0, [k]) None [] (\<lambda>_. ucast k) 9000"

lemma demo_env_ok: "env_ok demo_env"
  by (simp add: env_ok_def demo_env_def list_bdb_ok demo_crypto_def)

lemma demo_start_inv: "peer_inv (en_cr demo_env) (en_db demo_env) \<lparr>pd_node_id = sha1_hash (en_cr demo_env) (fst (k # replicate 255 0, [k])), pd_handle = []\<rparr>"
  by (simp add: peer_inv_def demo_env_def list_bdb_def)

theorem node_reachable_ok_witness:
  "c_state (nd_cons (snd (connect_begin demo_env (1, 2) (demo_node 3))) 0) \<noteq> authenticated"
proof -
  have "node_run demo_env (node_init (en_cr demo_env) 0 (3 # replicate 255 0, [3]) None [] (\<lambda>_. ucast (3 :: byte)) 9000)
      (snd (connect_begin demo_env (1, 2) (demo_node 3)))"
    unfolding demo_node_def by (rule node_run.step [OF _ node_step.connect]) (simp add: node_run.start demo_env_def)
  from node_reachable_ok [OF demo_env_ok demo_start_inv this] show ?thesis by blast
qed

theorem reverse_connect_assert_witness:
  "fst (run_node_task demo_env (T_request_connect (1, 2) 7) (snd (connect_begin demo_env (1, 2) (demo_node 3)))) = Inl (Assert_fail ''my->_bf'')"
proof -
  let ?nd = "snd (connect_begin demo_env (1, 2) (demo_node 3))"
  have n: "peer_fetch_by_endpoint list_bdb \<lparr>pd_node_id = i, pd_handle = []\<rparr> ep = None" for i ep
    by (simp add: peer_fetch_by_endpoint_def list_bdb_def)
  have "sm_get (nd_ep_to_con ?nd) (1, 2) = Some 0 \<and> c_bf (nd_cons ?nd 0) = None"
    by (simp add: connect_begin_def demo_node_def node_init_def demo_env_def new_connection_def bindc_def getc_def
        alloc_con_def n andthen_def upd_rec_def upd_con_def ret_def set_ep_to_con_def modc_def con_init_def sm_get_def Let_def)
  then show ?thesis using reverse_connect_assert [of ?nd "(1, 2)" 0] by blast
qed

end
