(* ===== verification/Kad_Search.thy ===== *)
theory Kad_Search
  imports Node_Steps
begin

text \<open>
  The iterative Kademlia lookup of src/kad.cpp. \<open>start\<close> fills a queue with the nodes the local node
  knows and spawns \<open>P\<close> coroutines of \<open>search_thread\<close> on the node's thread; each takes the nearest
  node of the queue, connects to it, lets the virtual \<open>filter\<close> look at it, puts it among the
  results and asks it for nodes near the target. A coroutine gives way to the others where it waits: for
  the connection, for the filter and for the answer. \<open>fiber\<close> says where it stands; the functions
  below are the pieces of the loop body between these points. What the network answers is an argument.
\<close>

section \<open>State\<close>

datatype kad_status = kad_idle | kad_searching | kad_canceled | kad_done

datatype fiber =
    F_loop
  | F_connect host
  | F_filter host sha1
  | F_near host sha1 "sha1 option"
  | F_end

record kad_search =
  m_n :: u32
  m_p :: u32
  m_target :: sha1
  m_target_dist :: sha1
  m_pending :: "nat list"
  m_cur_status :: kad_status
  m_search_queue :: "(sha1, host) std_map"
  m_current_results :: "(sha1, host) std_map"
  m_fibers :: "fiber list"

definition kad_new :: "sha1 \<Rightarrow> sha1 \<Rightarrow> u32 \<Rightarrow> u32 \<Rightarrow> kad_search" where
  "kad_new local_id target n p =
     \<lparr>m_n = n, m_p = p, m_target = target, m_target_dist = xor local_id target, m_pending = [], m_cur_status = kad_idle,
      m_search_queue = [], m_current_results = [], m_fibers = []\<rparr>"

section \<open>Starting and waiting\<close>

definition enqueue_host :: "host \<Rightarrow> 'a kad_search_scheme \<Rightarrow> 'a kad_search_scheme" where
  "enqueue_host h s = s\<lparr>m_search_queue := sm_put (xor (host_id h) (m_target s)) h (m_search_queue s)\<rparr>"

definition kad_start :: "'h env \<Rightarrow> 'h node \<Rightarrow> ('a kad_search_scheme, unit) cmd" where
  "kad_start E nd =
     andthen (modc (\<lambda>s. s\<lparr>m_current_results := [], m_cur_status := kad_searching\<rparr>))
    (bindc getc (\<lambda>s. bindc (liftres (find_nodes_near E nd (m_target s) (m_n s) None)) (\<lambda>nn.
       andthen (modc (fold enqueue_host nn))
      (modc (\<lambda>s. s\<lparr>m_pending := m_pending s @ [length (m_fibers s) ..< length (m_fibers s) + unat (m_p s)],
                    m_fibers := m_fibers s @ replicate (unat (m_p s)) F_loop\<rparr>)))))"

text \<open>\<open>wait\<close> blocks (\<open>None\<close>) until every pending coroutine has ended or the time is up; then it throws.\<close>

definition kad_wait :: "bool \<Rightarrow> 'a kad_search_scheme \<Rightarrow> (unit res \<times> 'a kad_search_scheme) option" where
  "kad_wait timed_out s =
     (if \<forall>i \<in> set (m_pending s). m_fibers s ! i = F_end then Some (Inr (), s\<lparr>m_pending := []\<rparr>)
      else if timed_out then Some (Inl (Throw ''timeout''), s\<lparr>m_pending := []\<rparr>)
      else None)"

section \<open>The loop of a coroutine\<close>

definition set_fiber :: "nat \<Rightarrow> fiber \<Rightarrow> ('a kad_search_scheme, unit) cmd" where
  "set_fiber i f = modc (\<lambda>s. s\<lparr>m_fibers := (m_fibers s)[i := f]\<rparr>)"

definition search_next :: "nat \<Rightarrow> ('a kad_search_scheme, unit) cmd" where
  "search_next i = bindc getc (\<lambda>s.
     case m_search_queue s of
       [] \<Rightarrow> set_fiber i F_end
     | (_, cur_item) # q \<Rightarrow>
         if m_cur_status s = kad_searching
         then andthen (modc (\<lambda>s. s\<lparr>m_search_queue := q\<rparr>)) (set_fiber i (F_connect cur_item))
         else set_fiber i F_end)"

text \<open>Which connection the coroutine asks the node for: directly, or through the first NAT host.\<close>

definition connect_call :: "host \<Rightarrow> endpoint \<times> endpoint option" where
  "connect_call h = (host_ep h, case nat_hosts h of [] \<Rightarrow> None | v # _ \<Rightarrow> Some v)"

definition search_connected :: "nat \<Rightarrow> host \<Rightarrow> sha1 res \<Rightarrow> ('a kad_search_scheme, unit) cmd" where
  "search_connected i h r = (case r of Inl _ \<Rightarrow> set_fiber i F_loop | Inr rtn \<Rightarrow> set_fiber i (F_filter h rtn))"

definition add_result :: "sha1 \<Rightarrow> endpoint \<Rightarrow> 'a kad_search_scheme \<Rightarrow> 'a kad_search_scheme" where
  "add_result rtn ep s =
     (let r = sm_put (xor (m_target s) rtn) \<lparr>host_id = rtn, host_ep = ep, nat_hosts = []\<rparr> (m_current_results s) in
      s\<lparr>m_current_results := (if length r > unat (m_n s) then butlast r else r)\<rparr>)"

definition search_limit :: "'a kad_search_scheme \<Rightarrow> sha1 option" where
  "search_limit s =
     (if length (m_current_results s) \<ge> unat (m_n s) \<and> m_n s \<noteq> 0 then Some (fst (last (m_current_results s))) else None)"

definition search_filtered ::
  "(sha1 \<Rightarrow> 'r \<Rightarrow> ('a kad_search_scheme, unit) cmd) \<Rightarrow> nat \<Rightarrow> host \<Rightarrow> sha1 \<Rightarrow> 'r res \<Rightarrow> ('a kad_search_scheme, unit) cmd" where
  "search_filtered flt i h rtn r =
     catchc (andthen (bindc (liftres r) (flt rtn))
            (andthen (modc (add_result rtn (host_ep h)))
            (andthen (modc (\<lambda>s. if rtn = m_target s then s\<lparr>m_cur_status := kad_done\<rparr> else s))
            (bindc getc (\<lambda>s.
               if m_cur_status s = kad_done then set_fiber i F_end
               else set_fiber i (F_near h rtn (search_limit s)))))))
       (\<lambda>_. set_fiber i F_loop)"

text \<open>A reported node is put in the queue unless it is a result or the results are full and the greatest
  distance among them is not greater than its \<open>id\<close>. With no results to compare with, the iterator leaves
  the map.\<close>

definition consider_host :: "host \<Rightarrow> ('a kad_search_scheme, unit) cmd" where
  "consider_host h = bindc getc (\<lambda>s.
     if sm_get (m_current_results s) (xor (host_id h) (m_target s)) \<noteq> None then ret ()
     else if length (m_current_results s) < unat (m_n s) then modc (enqueue_host h)
     else if m_current_results s = [] then raise (Undefined ''decrement of begin()'')
     else if host_id h < fst (last (m_current_results s)) then modc (enqueue_host h)
     else ret ())"

fun consider_hosts :: "host list \<Rightarrow> ('a kad_search_scheme, unit) cmd" where
  "consider_hosts [] = ret ()"
| "consider_hosts (h # r) = andthen (consider_host h) (consider_hosts r)"

definition search_near :: "nat \<Rightarrow> host list res \<Rightarrow> ('a kad_search_scheme, unit) cmd" where
  "search_near i r =
     (case r of Inl _ \<Rightarrow> set_fiber i F_loop | Inr rr \<Rightarrow> andthen (consider_hosts rr) (set_fiber i F_loop))"

text \<open>The base class filters nothing.\<close>

definition kad_filter :: "sha1 \<Rightarrow> unit \<Rightarrow> ('a kad_search_scheme, unit) cmd" where
  "kad_filter nid r = ret ()"

section \<open>Interleaved runs\<close>

text \<open>
  A run of the coroutines. Beside the search state it carries the distances of the nodes that were contacted:
  those whose connection and filter succeeded.
\<close>

inductive kad_step ::
  "(sha1 \<Rightarrow> 'r \<Rightarrow> ('a kad_search_scheme, unit) cmd) \<Rightarrow> sha1 set \<times> 'a kad_search_scheme \<Rightarrow> sha1 set \<times> 'a kad_search_scheme \<Rightarrow> bool"
  for flt where
  nxt: "i < length (m_fibers s) \<Longrightarrow> m_fibers s ! i = F_loop \<Longrightarrow> search_next i s = (Inr (), s') \<Longrightarrow> kad_step flt (K, s) (K, s')"
| conn: "i < length (m_fibers s) \<Longrightarrow> m_fibers s ! i = F_connect h \<Longrightarrow> search_connected i h r s = (Inr (), s')
    \<Longrightarrow> kad_step flt (K, s) (K, s')"
| filtered: "i < length (m_fibers s) \<Longrightarrow> m_fibers s ! i = F_filter h rtn \<Longrightarrow> flt rtn r s = (Inr (), s0)
    \<Longrightarrow> search_filtered flt i h rtn (Inr r) s = (Inr (), s') \<Longrightarrow> kad_step flt (K, s) (insert (xor (m_target s) rtn) K, s')"
| rejected: "i < length (m_fibers s) \<Longrightarrow> m_fibers s ! i = F_filter h rtn
    \<Longrightarrow> r = Inl (Throw x) \<or> r = Inr v \<and> flt rtn v s = (Inl (Throw x), s0)
    \<Longrightarrow> search_filtered flt i h rtn r s = (Inr (), s') \<Longrightarrow> kad_step flt (K, s) (K, s')"
| near: "i < length (m_fibers s) \<Longrightarrow> m_fibers s ! i = F_near h rtn l \<Longrightarrow> search_near i r s = (Inr (), s')
    \<Longrightarrow> kad_step flt (K, s) (K, s')"

inductive kad_run ::
  "(sha1 \<Rightarrow> 'r \<Rightarrow> ('a kad_search_scheme, unit) cmd) \<Rightarrow> sha1 set \<times> 'a kad_search_scheme \<Rightarrow> sha1 set \<times> 'a kad_search_scheme \<Rightarrow> bool"
  for flt where
  refl: "kad_run flt z z"
| step: "kad_run flt z y \<Longrightarrow> kad_step flt y x \<Longrightarrow> kad_run flt z x"

section \<open>The results are the closest contacted nodes\<close>

lemma keys_sm_put:
  "sm_ok m \<Longrightarrow> map fst (sm_put k v m) = (if k \<in> fst ` set m then map fst m else insort k (map fst m))"
  by (induction k v m rule: sm_put.induct) (force simp: sm_ok_def)+

lemma take_insort: "take n (insort d (take n L)) = take n (insort d L)"
  by (induction L arbitrary: n) (auto simp: take_Cons split: nat.splits)

lemma insort_end: "sorted L \<Longrightarrow> \<forall>x \<in> set L. x \<le> d \<Longrightarrow> d \<notin> set L \<Longrightarrow> insort d L = L @ [d]"
  by (induction L) auto

definition closest :: "nat \<Rightarrow> sha1 set \<Rightarrow> sha1 list" where
  "closest n K = take n (sorted_list_of_set K)"

lemma closest_insert:
  assumes "finite K"
  shows "take n (if d \<in> set (closest n K) then closest n K else insort d (closest n K)) = closest n (insert d K)"
proof (cases "d \<in> K")
  case True
  let ?L = "sorted_list_of_set K"
  have "insort d (take n ?L) = take n ?L @ [d] \<and> n \<le> length ?L" if "d \<notin> set (take n ?L)"
  proof -
    have "set (take n ?L) \<union> set (drop n ?L) = K" using assms by (simp flip: set_append)
    then have "d \<in> set (drop n ?L)" using True that by blast
    moreover have "sorted (take n ?L) \<and> (\<forall>x \<in> set (take n ?L). \<forall>y \<in> set (drop n ?L). x \<le> y)"
      using sorted_append [of "take n ?L" "drop n ?L"] by simp
    moreover have "drop n ?L \<noteq> []" using calculation(1) by auto
    ultimately show ?thesis using insort_end [of "take n ?L" d] that by auto
  qed
  then show ?thesis using True by (auto simp: closest_def insert_absorb)
next
  case False
  then have "d \<notin> set (take n (sorted_list_of_set K))" using assms by (auto dest: in_set_takeD)
  then show ?thesis using False assms by (simp add: closest_def take_insort)
qed

lemma trim_take: "length r \<le> Suc n \<Longrightarrow> (if n < length r then butlast r else r) = take n r"
  by (cases "length r = Suc n") (auto simp: butlast_conv_take)

lemma add_result_closest:
  assumes "sm_ok (m_current_results s)" "finite K" "map fst (m_current_results s) = closest (unat (m_n s)) K"
  shows "map fst (m_current_results (add_result rtn ep s)) = closest (unat (m_n s)) (insert (xor (m_target s) rtn) K)"
proof -
  let ?n = "unat (m_n s)" and ?d = "xor (m_target s) rtn"
  let ?r = "sm_put ?d \<lparr>host_id = rtn, host_ep = ep, nat_hosts = []\<rparr> (m_current_results s)"
  have k: "map fst ?r = (if ?d \<in> set (closest ?n K) then closest ?n K else insort ?d (closest ?n K))"
    using keys_sm_put [OF assms(1), of ?d] assms(3) by (metis list.set_map)
  have "length ?r \<le> Suc ?n"
    using arg_cong [OF k, of length] by (auto simp: closest_def split: if_splits)
  then have "(if ?n < length ?r then butlast ?r else ?r) = take ?n ?r"
    by (rule trim_take)
  then show ?thesis
    using k closest_insert [OF assms(2), of ?n ?d] by (simp add: add_result_def Let_def flip: take_map)
qed

section \<open>The invariant of a search\<close>

definition keyed_by :: "sha1 \<Rightarrow> (sha1, host) std_map \<Rightarrow> bool" where
  "keyed_by t m \<longleftrightarrow> (\<forall>(k, h) \<in> set m. k = xor t (host_id h))"

definition kad_inv :: "sha1 \<Rightarrow> u32 \<Rightarrow> sha1 set \<times> 'a kad_search_scheme \<Rightarrow> bool" where
  "kad_inv t n = (\<lambda>(K, s).
     finite K \<and> m_target s = t \<and> m_n s = n \<and> sm_ok (m_current_results s) \<and> sm_ok (m_search_queue s)
     \<and> map fst (m_current_results s) = closest (unat n) K
     \<and> keyed_by t (m_current_results s) \<and> keyed_by t (m_search_queue s)
     \<and> (0 \<in> K \<longrightarrow> m_cur_status s = kad_done)
     \<and> (m_search_queue s = [] \<or> m_cur_status s \<noteq> kad_searching \<or> (\<exists>f \<in> set (m_fibers s). f \<noteq> F_end)))"

lemma set_sm_put: "set (sm_put k v m) \<subseteq> insert (k, v) (set m)"
  by (induction k v m rule: sm_put.induct) auto

lemma keyed_put: "keyed_by t m \<Longrightarrow> k = xor t (host_id h) \<Longrightarrow> keyed_by t (sm_put k h m)"
  using set_sm_put [of k h m] by (fastforce simp: keyed_by_def)

lemma keyed_sub: "keyed_by t m \<Longrightarrow> set m' \<subseteq> set m \<Longrightarrow> keyed_by t m'"
  by (auto simp: keyed_by_def)

lemma add_result_keyed:
  assumes "sm_ok (m_current_results s)" "keyed_by (m_target s) (m_current_results s)"
  shows "sm_ok (m_current_results (add_result rtn ep s)) \<and> keyed_by (m_target s) (m_current_results (add_result rtn ep s))"
  using assms keyed_put [OF assms(2), of "xor (m_target s) rtn" "\<lparr>host_id = rtn, host_ep = ep, nat_hosts = []\<rparr>"]
  by (auto simp: add_result_def Let_def sm_ok_put sm_butlast intro: keyed_sub in_set_butlastD)

text \<open>What is considered changes only the queue, and never runs out of the map when \<open>n > 0\<close>.\<close>

definition queue_ok :: "'a kad_search_scheme \<Rightarrow> 'a kad_search_scheme \<Rightarrow> bool" where
  "queue_ok s s' \<longleftrightarrow> (\<exists>q. s' = s\<lparr>m_search_queue := q\<rparr> \<and> (sm_ok (m_search_queue s) \<longrightarrow> sm_ok q)
     \<and> (keyed_by (m_target s) (m_search_queue s) \<longrightarrow> keyed_by (m_target s) q))"

lemma queue_ok_refl: "queue_ok s s"
  unfolding queue_ok_def by (rule exI [of _ "m_search_queue s"]) simp

lemma queue_ok_trans: "queue_ok s s' \<Longrightarrow> queue_ok s' s'' \<Longrightarrow> queue_ok s s''"
  by (auto simp: queue_ok_def)

lemma queue_ok_enqueue: "queue_ok s (enqueue_host h s)"
  by (auto simp: queue_ok_def enqueue_host_def sm_ok_put xor.commute intro!: exI keyed_put)

lemma consider_host_cases:
  assumes "consider_host h s = (r, s')"
  shows "queue_ok s s' \<and> (unat (m_n s) > 0 \<longrightarrow> r = Inr ())"
  using assms queue_ok_refl [of s] queue_ok_enqueue [of s h]
  by (auto simp: consider_host_def bindc_def getc_def modc_def ret_def raise_def split: if_splits)

lemma consider_hosts_cases:
  "consider_hosts hs s = (r, s') \<Longrightarrow> queue_ok s s' \<and> (unat (m_n s) > 0 \<longrightarrow> r = Inr ())"
proof (induction hs arbitrary: s)
  case (Cons h hs)
  obtain r1 s1 where 1: "consider_host h s = (r1, s1)" by fastforce
  note c = consider_host_cases [OF 1]
  show ?case
  proof (cases r1)
    case (Inr u)
    then have "consider_hosts hs s1 = (r, s')" using Cons.prems 1 by (simp add: andthen_def bindc_def)
    from Cons.IH [OF this] c queue_ok_trans show ?thesis by (auto simp: queue_ok_def)
  next
    case (Inl e)
    then show ?thesis using Cons.prems 1 c by (auto simp: andthen_def bindc_def)
  qed
qed (simp add: ret_def queue_ok_refl)

lemma enqueue_all: "queue_ok s (fold enqueue_host nn s)"
  by (induction nn arbitrary: s) (auto intro: queue_ok_refl queue_ok_trans [OF queue_ok_enqueue])

section \<open>Every step keeps the invariant\<close>

text \<open>What a search relies on of the \<open>filter\<close> a derived class puts in: it may end the search, and nothing else
  of the search's state changes.\<close>

definition filter_frame :: "'a kad_search_scheme \<Rightarrow> 'a kad_search_scheme \<Rightarrow> bool" where
  "filter_frame s s' \<longleftrightarrow>
     m_n s' = m_n s \<and> m_target s' = m_target s \<and> m_search_queue s' = m_search_queue s
     \<and> m_current_results s' = m_current_results s \<and> m_fibers s' = m_fibers s
     \<and> (m_cur_status s' = m_cur_status s \<or> m_cur_status s' = kad_done)"

lemma in_list_update: "i < length xs \<Longrightarrow> x \<in> set (xs[i := x])"
  by (metis length_list_update nth_list_update_eq nth_mem)

lemma kad_inv_advance:
  assumes "kad_inv t n (K, s)" "m_fibers s' = (m_fibers s)[i := f]" "i < length (m_fibers s)" "f \<noteq> F_end"
    "m_target s' = m_target s" "m_n s' = m_n s" "m_current_results s' = m_current_results s"
    "m_cur_status s' = m_cur_status s \<or> m_cur_status s' = kad_done"
    "sm_ok (m_search_queue s')" "keyed_by t (m_search_queue s')"
  shows "kad_inv t n (K, s')"
  using assms in_list_update [of i "m_fibers s" f] by (auto simp: kad_inv_def)

lemma kad_inv_next:
  assumes "kad_inv t n (K, s)" "i < length (m_fibers s)" "search_next i s = (r, s')"
  shows "kad_inv t n (K, s')"
proof (cases "m_search_queue s \<noteq> [] \<and> m_cur_status s = kad_searching")
  case True
  then obtain k h q where q: "m_search_queue s = (k, h) # q" by (cases "m_search_queue s") auto
  then have "s' = s\<lparr>m_search_queue := q, m_fibers := (m_fibers s)[i := F_connect h]\<rparr>"
    using assms(3) True by (simp add: search_next_def set_fiber_def cmd_simps bindc_def andthen_def getc_def modc_def)
  moreover have "sm_ok q \<and> keyed_by t q" using assms(1) q by (auto simp: kad_inv_def sm_ok_def keyed_by_def)
  ultimately show ?thesis using assms q by (intro kad_inv_advance [OF assms(1)]) auto
next
  case False
  then have "s' = s\<lparr>m_fibers := (m_fibers s)[i := F_end]\<rparr>"
    using assms(3) by (auto simp: search_next_def set_fiber_def bindc_def getc_def modc_def split: list.splits prod.splits if_splits)
  then show ?thesis using assms(1) False by (auto simp: kad_inv_def)
qed

lemma kad_inv_loop:
  "kad_inv t n (K, s) \<Longrightarrow> i < length (m_fibers s) \<Longrightarrow> kad_inv t n (K, s\<lparr>m_fibers := (m_fibers s)[i := F_loop]\<rparr>)"
  by (rule kad_inv_advance) (auto simp: kad_inv_def)

lemma kad_inv_connected:
  assumes "kad_inv t n (K, s)" "i < length (m_fibers s)" "search_connected i h r s = (x, s')"
  shows "kad_inv t n (K, s')"
  using assms
  by (cases r; intro kad_inv_advance [OF assms(1)])
     (auto simp: search_connected_def set_fiber_def modc_def kad_inv_def)

lemma kad_inv_near:
  assumes "kad_inv t n (K, s)" "i < length (m_fibers s)" "search_near i r s = (Inr (), s')"
  shows "kad_inv t n (K, s')"
proof (cases r)
  case (Inl e)
  then show ?thesis using assms
    by (intro kad_inv_advance [OF assms(1)]) (auto simp: search_near_def set_fiber_def modc_def kad_inv_def)
next
  case (Inr rr)
  obtain x s1 where 1: "consider_hosts rr s = (x, s1)" by fastforce
  then have "queue_ok s s1" using consider_hosts_cases [OF 1] by simp
  moreover have "s' = s1\<lparr>m_fibers := (m_fibers s1)[i := F_loop]\<rparr>"
    using assms(3) Inr 1 by (cases x) (auto simp: search_near_def andthen_def bindc_def set_fiber_def modc_def)
  ultimately show ?thesis using assms(1,2)
    by (intro kad_inv_advance [OF assms(1)]) (auto simp: queue_ok_def kad_inv_def)
qed

lemma kad_inv_frame: "kad_inv t n (K, s) \<Longrightarrow> filter_frame s s' \<Longrightarrow> kad_inv t n (K, s')"
  by (auto simp: kad_inv_def filter_frame_def)

text \<open>A contacted node is put among the results; the coroutine ends if the search is done.\<close>

definition accepted :: "nat \<Rightarrow> host \<Rightarrow> sha1 \<Rightarrow> 'a kad_search_scheme \<Rightarrow> 'a kad_search_scheme" where
  "accepted i h rtn s =
     (let s1 = add_result rtn (host_ep h) s;
          s2 = (if rtn = m_target s1 then s1\<lparr>m_cur_status := kad_done\<rparr> else s1);
          f = (if m_cur_status s2 = kad_done then F_end else F_near h rtn (search_limit s2))
      in s2\<lparr>m_fibers := (m_fibers s2)[i := f]\<rparr>)"

lemma search_filtered_accepted:
  "flt rtn v s = (Inr (), s0) \<Longrightarrow> search_filtered flt i h rtn (Inr v) s = (Inr (), accepted i h rtn s0)"
  by (simp add: search_filtered_def accepted_def catchc_def andthen_def bindc_def liftres_def modc_def getc_def set_fiber_def Let_def)

lemma search_filtered_rejected:
  "flt rtn v s = (Inl (Throw x), s0) \<Longrightarrow> search_filtered flt i h rtn (Inr v) s = (Inr (), s0\<lparr>m_fibers := (m_fibers s0)[i := F_loop]\<rparr>)"
  "search_filtered flt i h rtn (Inl (Throw x)) s = (Inr (), s\<lparr>m_fibers := (m_fibers s)[i := F_loop]\<rparr>)"
  by (simp_all add: search_filtered_def catchc_def andthen_def bindc_def liftres_def modc_def set_fiber_def)

lemma add_result_fields [simp]:
  "m_n (add_result rtn ep s) = m_n s" "m_target (add_result rtn ep s) = m_target s"
  "m_search_queue (add_result rtn ep s) = m_search_queue s" "m_fibers (add_result rtn ep s) = m_fibers s"
  "m_cur_status (add_result rtn ep s) = m_cur_status s"
  by (simp_all add: add_result_def Let_def)

lemma kad_inv_accepted:
  assumes "kad_inv t n (K, s)" "i < length (m_fibers s)"
  shows "kad_inv t n (insert (xor (m_target s) rtn) K, accepted i h rtn s)"
proof -
  have "xor (m_target s) rtn = 0 \<longleftrightarrow> rtn = m_target s" by (metis xor.right_neutral xor_self_eq xor.left_commute)
  then show ?thesis
    using assms add_result_closest [of s K rtn "host_ep h"] add_result_keyed [of s rtn "host_ep h"]
      in_list_update [of i "m_fibers s" "F_near h rtn l" for l]
    by (auto simp: kad_inv_def accepted_def Let_def)
qed

locale search_filter =
  fixes flt :: "sha1 \<Rightarrow> 'r \<Rightarrow> ('a kad_search_scheme, unit) cmd"
  assumes flt_frame: "flt rtn v s = (x, s') \<Longrightarrow> filter_frame s s'"
begin

lemma step_inv:
  assumes "kad_step flt z z'" "kad_inv t n z"
  shows "kad_inv t n z'"
  using assms
proof (cases rule: kad_step.cases)
  case (filtered i s h rtn v s0 s' K)
  then have "filter_frame s s0" using flt_frame by blast
  moreover from this filtered assms(2) have "kad_inv t n (K, s0)" by (auto intro: kad_inv_frame)
  ultimately show ?thesis
    using filtered kad_inv_accepted [of t n K s0 i rtn h] search_filtered_accepted [of flt rtn v s s0 i h]
    by (auto simp: filter_frame_def)
next
  case (rejected i s h rtn r x v s0 s' K)
  from rejected(5) show ?thesis
  proof
    assume "r = Inl (Throw x)"
    then show ?thesis using rejected assms(2) search_filtered_rejected(2) [of flt i h rtn x s] kad_inv_loop [of t n K s i]
      by auto
  next
    assume r: "r = Inr v \<and> flt rtn v s = (Inl (Throw x), s0)"
    then have f: "filter_frame s s0" using flt_frame by blast
    with rejected assms(2) have "kad_inv t n (K, s0)" by (auto intro: kad_inv_frame)
    then show ?thesis using r rejected f search_filtered_rejected(1) [of flt rtn v s x s0 i h] kad_inv_loop [of t n K s0 i]
      by (auto simp: filter_frame_def)
  qed
qed (auto intro: kad_inv_next kad_inv_connected kad_inv_near)

lemma run_inv: "kad_run flt z z' \<Longrightarrow> kad_inv t n z \<Longrightarrow> kad_inv t n z'"
  by (induction rule: kad_run.induct) (auto intro: step_inv)

end

interpretation kadf: search_filter kad_filter
  by unfold_locales (simp add: kad_filter_def ret_def filter_frame_def)

lemma kad_inv_start:
  assumes "kad_start E nd s = (Inr (), s0)" "m_p s \<noteq> 0" "m_search_queue s = []"
  shows "kad_inv (m_target s) (m_n s) ({}, s0)"
proof -
  let ?s1 = "s\<lparr>m_current_results := [], m_cur_status := kad_searching\<rparr>"
  obtain nn where "find_nodes_near E nd (m_target s) (m_n s) None = Inr nn"
    using assms(1) by (auto simp: kad_start_def andthen_def bindc_def modc_def getc_def liftres_def split: sum.splits)
  then have s0: "s0 = (let s2 = fold enqueue_host nn ?s1 in
      s2\<lparr>m_pending := m_pending s2 @ [length (m_fibers s2) ..< length (m_fibers s2) + unat (m_p s2)],
         m_fibers := m_fibers s2 @ replicate (unat (m_p s2)) F_loop\<rparr>)"
    using assms(1) by (simp add: kad_start_def andthen_def bindc_def modc_def getc_def liftres_def Let_def)
  have "unat (m_p s) \<noteq> 0" using assms(2) by (simp add: unat_eq_zero)
  with s0 enqueue_all [of ?s1 nn] assms(3) show ?thesis
    by (auto simp: queue_ok_def kad_inv_def closest_def keyed_by_def)
qed

lemma kad_new_fields [simp]:
  "m_target (kad_new lid t n p) = t" "m_n (kad_new lid t n p) = n" "m_p (kad_new lid t n p) = p"
  "m_search_queue (kad_new lid t n p) = []"
  by (simp_all add: kad_new_def)

text \<open>
  C5: at every moment of a lookup, however its coroutines interleave and whatever the network answers or fails to
  answer, the results are exactly the \<open>n\<close> nodes closest to the target among those contacted so
  far (all of them while they are fewer), in the order of their distance, each under its distance.
\<close>

theorem kad_results_closest:
  assumes "kad_start E nd (kad_new lid t n p) = (Inr (), s0)" "p \<noteq> 0" "kad_run kad_filter ({}, s0) (K, s)"
  shows "map fst (m_current_results s) = take (unat n) (sorted_list_of_set K)
    \<and> (\<forall>(d, h) \<in> set (m_current_results s). d = xor t (host_id h))"
  using kadf.run_inv [OF assms(3)] kad_inv_start [OF assms(1)] assms(2)
  by (auto simp: kad_inv_def closest_def keyed_by_def)

section \<open>A search that does not end\<close>

text \<open>The loop of one coroutine against a network with fixed answers.\<close>

definition fiber_step :: "(endpoint \<Rightarrow> sha1 res) \<Rightarrow> (sha1 \<Rightarrow> host list res) \<Rightarrow> nat \<Rightarrow> kad_search \<Rightarrow> kad_search" where
  "fiber_step conn near i s =
     (case m_fibers s ! i of
        F_loop \<Rightarrow> snd (search_next i s)
      | F_connect h \<Rightarrow> snd (search_connected i h (conn (fst (connect_call h))) s)
      | F_filter h rtn \<Rightarrow> snd (search_filtered kad_filter i h rtn (Inr ()) s)
      | F_near h rtn l \<Rightarrow> snd (search_near i (near rtn) s)
      | F_end \<Rightarrow> s)"

text \<open>Three nodes with identities 19, 0 and 1 at three endpoints. 19 knows 0; 0 and 1 know each other.\<close>

definition tri_host :: "sha1 \<Rightarrow> host" where
  "tri_host x = \<lparr>host_id = x, host_ep = (ucast x, 9000), nat_hosts = []\<rparr>"

definition tri_conn :: "endpoint \<Rightarrow> sha1 res" where
  "tri_conn ep = Inr (ucast (fst ep))"

definition tri_near :: "sha1 \<Rightarrow> host list res" where
  "tri_near x = (if x = 0 then Inr [tri_host 1] else Inr [tri_host 0])"

definition tri_start :: "kad_search" where
  "tri_start = (kad_new 7 16 1 1)\<lparr>m_search_queue := [(3, tri_host 19)], m_cur_status := kad_searching, m_fibers := [F_loop]\<rparr>"

lemmas kad_eval = fiber_step_def search_next_def search_connected_def search_filtered_def search_near_def
  connect_call_def add_result_def search_limit_def consider_host_def enqueue_host_def set_fiber_def kad_filter_def
  tri_host_def tri_conn_def tri_near_def tri_start_def kad_new_def catchc_def andthen_def bindc_def getc_def modc_def
  liftres_def ret_def sm_get_def Let_def

definition tri_back :: "kad_search" where
  "tri_back = (kad_new 7 16 1 1)\<lparr>m_search_queue := [(16, tri_host 0)], m_current_results := [(3, tri_host 19)],
     m_cur_status := kad_searching, m_fibers := [F_loop]\<rparr>"

lemma funpow_four: "(f ^^ 4) x = f (f (f (f x)))"
  by (simp add: numeral_eq_Suc)

lemma tri_enter: "(fiber_step tri_conn tri_near 0 ^^ 4) tri_start = tri_back"
  unfolding funpow_four by code_simp

lemma tri_cycle: "(fiber_step tri_conn tri_near 0 ^^ (8 * k)) tri_back = tri_back"
proof (induction k)
  case (Suc k)
  have "(fiber_step tri_conn tri_near 0 ^^ 4) ((fiber_step tri_conn tri_near 0 ^^ 4) tri_back) = tri_back"
    unfolding funpow_four by code_simp
  then have "(fiber_step tri_conn tri_near 0 ^^ 8) tri_back = tri_back"
    by (simp flip: comp_apply [of "_ ^^ 4"] funpow_add)
  then show ?case using Suc by (simp add: funpow_add)
qed simp

lemma fiber_end_stays:
  "m_fibers s ! i = F_end \<Longrightarrow> (fiber_step conn near i ^^ k) s = s"
  by (induction k) (simp_all add: fiber_step_def)

text \<open>
  C36: a lookup need not end. In a network of three nodes that answer truthfully and always alike, a lookup
  with \<open>N = 1\<close> asks two of the nodes in turn for ever: the distance of the worst result is compared with
  the identity of a reported node and not with its distance, so that nodes farther away than every
  result are put in the queue again each time they are reported.
\<close>

theorem kad_search_livelock:
  "m_fibers ((fiber_step tri_conn tri_near 0 ^^ k) tri_start) ! 0 \<noteq> F_end"
proof
  let ?s = "(fiber_step tri_conn tri_near 0 ^^ k) tri_start"
  assume "m_fibers ?s ! 0 = F_end"
  then have "(fiber_step tri_conn tri_near 0 ^^ (7 * k + 4)) ?s = ?s" by (rule fiber_end_stays)
  moreover have "(fiber_step tri_conn tri_near 0 ^^ (7 * k + 4)) ?s = (fiber_step tri_conn tri_near 0 ^^ (8 * k + 4)) tri_start"
    by (simp flip: comp_apply [of "_ ^^ (7 * k + 4)"] funpow_add)
  moreover have "\<dots> = tri_back" by (simp add: funpow_add tri_enter tri_cycle)
  ultimately have "?s = tri_back" by simp
  with \<open>m_fibers ?s ! 0 = F_end\<close> show False by (simp add: tri_back_def kad_new_def)
qed

section \<open>Witness\<close>

text \<open>A node with one connection, to a peer with identity 3, in its routing table; the lookup contacts it.\<close>

definition kad_demo_env :: "(byte list \<times> peer_record) list env" where
  "kad_demo_env = demo_env\<lparr>en_cr := demo_crypto\<lparr>big_log2 := (\<lambda>_. 160)\<rparr>\<rparr>"

definition kad_demo_node :: "(byte list \<times> peer_record) list node" where
  "kad_demo_node = (demo_node 3)\<lparr>nd_kbuckets := \<lparr>kb_count = 1, kb_node_id = 5, kb_buckets = [[], [0]]\<rparr>,
     nd_cons := (\<lambda>_. (con_init (1, 2))\<lparr>c_remote_id := 3\<rparr>)\<rparr>"

definition kad_demo_host :: host where
  "kad_demo_host = \<lparr>host_id = 3, host_ep = (1, 2), nat_hosts = []\<rparr>"

definition kad_demo_start :: kad_search where
  "kad_demo_start = (kad_new 5 16 1 1)\<lparr>m_cur_status := kad_searching, m_search_queue := [(19, kad_demo_host)],
     m_pending := [0], m_fibers := [F_loop]\<rparr>"

lemma kad_demo_started: "kad_start kad_demo_env kad_demo_node (kad_new 5 16 1 1) = (Inr (), kad_demo_start)"
proof -
  have "find_nodes_near kad_demo_env kad_demo_node 16 1 None = Inr [kad_demo_host]"
    by (simp add: find_nodes_near_def kad_demo_env_def kad_demo_node_def kad_demo_host_def get_bucket_id_for_target_def
        calc_bucket_def get_bucket_def con_init_def Let_def)
  then show ?thesis
    by (simp add: kad_start_def kad_eval kad_demo_start_def kad_demo_host_def)
qed

lemma kad_demo_run:
  "\<exists>s. kad_run kad_filter ({}, kad_demo_start) ({19}, s)"
proof -
  let ?s1 = "snd (search_next 0 kad_demo_start)"
  let ?s2 = "snd (search_connected 0 kad_demo_host (Inr 3) ?s1)"
  let ?s3 = "snd (search_filtered kad_filter 0 kad_demo_host 3 (Inr ()) ?s2)"
  have 1: "kad_step kad_filter ({}, kad_demo_start) ({}, ?s1)"
    by (rule kad_step.nxt [of 0]) (simp_all add: kad_eval kad_demo_start_def)
  have 2: "kad_step kad_filter ({}, ?s1) ({}, ?s2)"
    by (rule kad_step.conn [of 0 _ kad_demo_host "Inr 3"]) (simp_all add: kad_eval kad_demo_start_def)
  have 3: "kad_step kad_filter ({}, ?s2) (insert (xor (m_target ?s2) 3) {}, ?s3)"
    by (rule kad_step.filtered [of 0 _ kad_demo_host 3 kad_filter "()"])
       (simp_all add: kad_eval kad_demo_start_def)
  have "xor (m_target ?s2) 3 = 19" by (simp add: kad_eval kad_demo_start_def)
  with kad_run.step [OF kad_run.step [OF kad_run.step [OF kad_run.refl 1] 2] 3] show ?thesis by (intro exI) simp
qed

theorem kad_results_closest_witness:
  "\<exists>s. kad_run kad_filter ({}, kad_demo_start) ({19}, s) \<and> map fst (m_current_results s) = [19]"
proof -
  obtain s where s: "kad_run kad_filter ({}, kad_demo_start) ({19}, s)" using kad_demo_run by blast
  from kad_results_closest [OF kad_demo_started _ this] s show ?thesis by auto
qed

end
