(* ===== verification/Chunk_Db.thy ===== *)
theory Chunk_Db
  imports Peer_Db
begin

text \<open>
  The chunk database of src/db/chunk.cpp: for every chunk that was asked for, how often and when, its size if the
  node stores it, and how near it is. Records lie under the distance of the chunk from the node;
  a secondary index orders them by the revenue a chunk would earn in a year, with the
  chunks the node does not store on the negative side.
\<close>

section \<open>What is known of a chunk\<close>

record meta =
  first_update :: u64
  last_update :: u64
  query_count :: u64
  chunk_size :: u32
  distance_rank :: byte

definition meta_new :: meta where
  "meta_new = \<lparr>first_update = 0, last_update = 0, query_count = 0, chunk_size = 0, distance_rank = 1\<rparr>"

definition access_interval :: "meta \<Rightarrow> u64" where
  "access_interval m = (if query_count m = 0 then 0xffffffffffffffff else 1 + (last_update m - first_update m) div query_count m)"

definition price :: "meta \<Rightarrow> int" where
  "price m = (if chunk_size m \<noteq> 0 then uint (chunk_size m) else - 1024 * 66) * uint (distance_rank m) + 1024"

text \<open>The division by the interval is one of \<open>uint64_t\<close>; by zero it is undefined, and so is an overflow of the
  signed product.\<close>

definition annual_query_count :: "meta \<Rightarrow> int res" where
  "annual_query_count m =
     (if access_interval m = 0 then Inl (Undefined ''division by zero'')
      else Inr ((365 * 24 * 60 * 60 * 1000000) div uint (access_interval m)))"

definition annual_revenue_rate :: "meta \<Rightarrow> int res" where
  "annual_revenue_rate m =
     (case annual_query_count m of
        Inl e \<Rightarrow> Inl e
      | Inr q \<Rightarrow> let r = price m * q in
          if - (2 ^ 63) \<le> r \<and> r < 2 ^ 63 then Inr r else Inl (Undefined ''signed overflow''))"

text \<open>The key of the secondary index, and its order.\<close>

definition get_annual_rev :: "meta \<Rightarrow> int res" where
  "get_annual_rev m = annual_revenue_rate m"

definition compare_i64 :: "int \<Rightarrow> int \<Rightarrow> int" where
  "compare_i64 k1 k2 = (if k1 > k2 then 1 else if k1 = k2 then 0 else - 1)"

section \<open>Operations\<close>

record 'h chunk_db =
  cd_node_id :: sha1
  cd_handle :: 'h

type_synonym 'h chunk_bdb = "('h, meta) bdb"

definition chunk_key :: "'h chunk_db \<Rightarrow> sha1 \<Rightarrow> byte list" where
  "chunk_key d cid = sha1_data (xor cid (cd_node_id d))"

text \<open>Berkeley DB computes the secondary key while it puts the record.\<close>

definition store_meta :: "'h chunk_bdb \<Rightarrow> sha1 \<Rightarrow> meta \<Rightarrow> ('h chunk_db, bool) cmd" where
  "store_meta B cid m d =
     (case get_annual_rev m of
        Inl e \<Rightarrow> (Inl e, d)
      | Inr _ \<Rightarrow>
          (case db_put B (cd_handle d) (chunk_key d cid) m of
             None \<Rightarrow> (Inl (Throw ''DbException''), d)
           | Some h \<Rightarrow> (Inr True, d\<lparr>cd_handle := h\<rparr>)))"

text \<open>\<open>t\<close> and \<open>t'\<close> are what the calls of \<open>now\<close> return; \<open>m\<close> is the caller's record, which is filled in.\<close>

definition fetch_meta :: "crypto \<Rightarrow> 'h chunk_bdb \<Rightarrow> u64 \<Rightarrow> u64 \<Rightarrow> sha1 \<Rightarrow> meta \<Rightarrow> bool \<Rightarrow> ('h chunk_db, bool \<times> meta) cmd" where
  "fetch_meta cr B t t' cid m auto_inc d =
     (let dist = xor cid (cd_node_id d) in
      case db_get B (cd_handle d) (chunk_key d cid) of
        None \<Rightarrow>
          if auto_inc then
            let m' = m\<lparr>distance_rank := of_int (161 - big_log2 cr dist), first_update := t, last_update := t', query_count := 0\<rparr>
            in bindc (store_meta B cid m') (\<lambda>_. ret (True, m')) d
          else (Inr (False, m), d)
      | Some v \<Rightarrow>
          if auto_inc then
            let m' = v\<lparr>query_count := query_count v + 1, last_update := t\<rparr>
            in bindc (store_meta B cid m') (\<lambda>_. ret (True, m')) d
          else (Inr (True, v), d))"

definition chunk_fetch_index :: "'h chunk_bdb \<Rightarrow> 'h chunk_db \<Rightarrow> u32 \<Rightarrow> (sha1 \<times> meta) option" where
  "chunk_fetch_index B d recnum =
     (let rs = db_recs B (cd_handle d); n = unat recnum in
      if n = 0 then None
      else if n \<le> length rs then Some (xor (of_le_bytes (fst (rs ! (n - 1)))) (cd_node_id d), snd (rs ! (n - 1)))
      else None)"

definition chunk_count :: "'h chunk_bdb \<Rightarrow> 'h chunk_db \<Rightarrow> u32" where
  "chunk_count B d = of_nat (length (db_recs B (cd_handle d)))"

text \<open>Both scans read one record before they look at \<open>n\<close>. The first starts at the least index key that is not
  below 1.\<close>

definition meta_record :: "'h chunk_db \<Rightarrow> byte list \<times> meta \<Rightarrow> sha1 \<times> meta" where
  "meta_record d = (\<lambda>(k, m). (xor (of_le_bytes k) (cd_node_id d), m))"

definition fetch_worst_performance :: "'h chunk_bdb \<Rightarrow> 'h chunk_db \<Rightarrow> int \<Rightarrow> (sha1 \<times> meta) list" where
  "fetch_worst_performance B d n =
     map (meta_record d) (take (max 1 (nat n))
       (dropWhile (\<lambda>(k, m). case get_annual_rev m of Inl _ \<Rightarrow> True | Inr r \<Rightarrow> compare_i64 r 1 < 0) (db_index B (cd_handle d))))"

definition fetch_best_opportunity :: "'h chunk_bdb \<Rightarrow> 'h chunk_db \<Rightarrow> int \<Rightarrow> (sha1 \<times> meta) list" where
  "fetch_best_opportunity B d n = map (meta_record d) (take (max 1 (nat n)) (db_index B (cd_handle d)))"

section \<open>Intervals and revenue\<close>

lemma word_div_max: "(d :: u64) div q = - 1 \<Longrightarrow> q = 1"
proof -
  assume a: "d div q = - 1"
  have m: "unat (- 1 :: u64) = 2 ^ 64 - 1" by (simp add: unsigned_minus_1_eq_mask mask_eq_exp_minus_1)
  have u: "unat d div unat q = 2 ^ 64 - 1" using arg_cong [OF a, of unat] m unat_div [of d q] by simp
  have d: "unat d \<le> 2 ^ 64 - 1" using unsigned_less [of d, where ?'a = nat] by simp
  have "unat q < 2"
  proof (rule ccontr)
    assume "\<not> unat q < 2"
    then have "unat d div unat q \<le> unat d div 2" by (intro div_le_mono2) auto
    then show False using u d by simp
  qed
  moreover have "unat q \<noteq> 0" using u by (cases "unat q = 0") auto
  ultimately have "unat q = 1" by simp
  then show "q = 1" by (metis unat_1 word_unat_eq_iff)
qed

text \<open>
  The time between two accesses is documented to be at least one microsecond. It is zero, and
  then the revenue a division by zero, exactly when the second query came with a clock one
  microsecond before the first.
\<close>

theorem chunk_interval_zero:
  "access_interval m = 0 \<longleftrightarrow> query_count m = 1 \<and> last_update m = first_update m - 1"
proof -
  let ?d = "last_update m - first_update m"
  have "access_interval m = 0 \<longleftrightarrow> query_count m \<noteq> 0 \<and> ?d div query_count m = - 1"
    by (simp add: access_interval_def add_eq_0_iff)
  also have "\<dots> \<longleftrightarrow> query_count m = 1 \<and> ?d = - 1" using word_div_max [of ?d "query_count m"] by auto
  also have "\<dots> \<longleftrightarrow> query_count m = 1 \<and> last_update m = first_update m - 1" by (auto simp: algebra_simps)
  finally show ?thesis .
qed


lemma price_sign:
  "chunk_size m = 0 \<Longrightarrow> 1 \<le> distance_rank m \<Longrightarrow> price m < 0"
  "chunk_size m \<noteq> 0 \<Longrightarrow> 0 < price m"
proof -
  assume "chunk_size m = 0" "1 \<le> distance_rank m"
  then have "price m = - 67584 * uint (distance_rank m) + 1024" "1 \<le> uint (distance_rank m)"
    by (simp_all add: price_def word_le_def)
  then show "price m < 0" by linarith
next
  assume "chunk_size m \<noteq> 0"
  then show "0 < price m" by (simp add: price_def add_nonneg_pos)
qed

lemma revenue_cases:
  assumes "annual_revenue_rate m = Inr r"
  obtains q where "annual_query_count m = Inr q" "0 \<le> q" "r = price m * q"
  using assms
  by (auto simp: annual_revenue_rate_def annual_query_count_def Let_def div_int_pos_iff split: sum.splits if_splits)

lemma revenue_sign:
  assumes "annual_revenue_rate m = Inr r"
  shows "chunk_size m = 0 \<Longrightarrow> 1 \<le> distance_rank m \<Longrightarrow> r \<le> 0" "chunk_size m \<noteq> 0 \<Longrightarrow> 0 \<le> r"
proof -
  obtain q where "0 \<le> q" "r = price m * q" using revenue_cases [OF assms] .
  then show "chunk_size m = 0 \<Longrightarrow> 1 \<le> distance_rank m \<Longrightarrow> r \<le> 0" "chunk_size m \<noteq> 0 \<Longrightarrow> 0 \<le> r"
    using price_sign [of m] by (simp_all add: mult_nonpos_nonneg)
qed

text \<open>
  The annual revenue of a chunk of at most one mebibyte that is asked for at most every 578 microseconds
  fits in 64 bits; it is never positive for a chunk the node does not store and never negative
  for one it stores. (Asked for more often, the product of a big chunk can overflow, which is undefined.)
\<close>

theorem chunk_revenue_bounds:
  assumes "unat (chunk_size m) \<le> 1024 * 1024" "1 \<le> distance_rank m" "distance_rank m \<le> 161" "578 \<le> access_interval m"
  shows "\<exists>r. annual_revenue_rate m = Inr r \<and> (chunk_size m = 0 \<longrightarrow> r \<le> 0) \<and> (chunk_size m \<noteq> 0 \<longrightarrow> 0 \<le> r)"
proof -
  let ?q = "31536000000000 div uint (access_interval m)"
  have i: "578 \<le> uint (access_interval m)" using assms(4) by (simp add: word_le_def)
  then have q: "0 \<le> ?q" "?q \<le> 31536000000000 div 578"
    using zdiv_mono2 [of 31536000000000 578 "uint (access_interval m)"] by (simp_all add: div_int_pos_iff)
  have rk: "1 \<le> uint (distance_rank m)" "uint (distance_rank m) \<le> 161" using assms(2,3) by (simp_all add: word_le_def)
  have p: "\<bar>price m\<bar> \<le> 168821760 + 1024"
  proof (cases "chunk_size m = 0")
    case False
    have "int (unat (chunk_size m)) \<le> 1048576" using assms(1) by linarith
    then have "uint (chunk_size m) * uint (distance_rank m) \<le> 1048576 * 161"
      using rk by (intro mult_mono) simp_all
    then show ?thesis using False price_sign(2) [OF False] by (simp add: price_def)
  qed (use rk in \<open>simp add: price_def\<close>)
  have "\<bar>price m * ?q\<bar> \<le> (168821760 + 1024) * (31536000000000 div 578)"
    unfolding abs_mult using p q by (intro mult_mono) auto
  then have "\<bar>price m * ?q\<bar> < 2 ^ 63" by simp
  then have r: "annual_revenue_rate m = Inr (price m * ?q)"
    using i by (auto simp: annual_revenue_rate_def annual_query_count_def Let_def)
  show ?thesis using r revenue_sign [OF r] assms(2) by blast
qed

section \<open>The database\<close>

lemma chunk_key_id: "xor (of_le_bytes (chunk_key d cid)) (cd_node_id d) = cid"
  by (simp add: chunk_key_def sha1_data_def of_le_bytes_20 xor.assoc)

lemma chunk_key_inject [simp]: "chunk_key d i = chunk_key d j \<longleftrightarrow> i = j"
  by (metis chunk_key_id)

lemma chunk_key_handle [simp]: "chunk_key (d\<lparr>cd_handle := h\<rparr>) = chunk_key d"
  by (rule ext) (simp add: chunk_key_def)

lemma store_meta_Inr:
  assumes "bdb_ok B" "store_meta B cid m d = (Inr b, d')"
  shows "cd_node_id d' = cd_node_id d \<and> db_get B (cd_handle d') = (db_get B (cd_handle d))(chunk_key d cid \<mapsto> m)
    \<and> (\<exists>r. get_annual_rev m = Inr r)"
  using assms by (auto simp: store_meta_def bdb_okD(1) split: sum.splits option.splits)

text \<open>Every record lies under a distance, has a rank and a revenue.\<close>

definition chunk_inv :: "'h chunk_bdb \<Rightarrow> 'h chunk_db \<Rightarrow> bool" where
  "chunk_inv B d \<longleftrightarrow> (\<forall>k m. db_get B (cd_handle d) k = Some m \<longrightarrow>
     (\<exists>cid. k = chunk_key d cid) \<and> 1 \<le> distance_rank m \<and> (\<exists>r. get_annual_rev m = Inr r))"

lemma store_meta_inv:
  assumes "bdb_ok B" "chunk_inv B d" "1 \<le> distance_rank m" "store_meta B cid m d = (x, d')"
  shows "chunk_inv B d'"
proof (cases x)
  case (Inr b)
  have k: "chunk_key d' = chunk_key d"
    using store_meta_Inr [OF assms(1)] assms(4) Inr by (auto simp: chunk_key_def)
  show ?thesis
    using assms(2,3) store_meta_Inr [OF assms(1)] assms(4) Inr by (auto simp: chunk_inv_def k split: if_splits)
next
  case (Inl e)
  then show ?thesis using assms(2,4) by (auto simp: store_meta_def split: sum.splits option.splits)
qed

lemma word_of_int_small: "0 \<le> x \<Longrightarrow> x < 256 \<Longrightarrow> uint (word_of_int x :: byte) = x"
  by (simp add: uint_word_of_int)

lemma rank_of_log2:
  assumes "log2_ok cr"
  shows "1 \<le> (of_int (161 - big_log2 cr d) :: byte)" and "uint (of_int (161 - big_log2 cr d) :: byte) = 161 - big_log2 cr d"
proof -
  have l: "0 \<le> big_log2 cr d" "big_log2 cr d \<le> 160"
  proof -
    show "0 \<le> big_log2 cr d" using assms by (simp add: log2_ok_def)
    show "big_log2 cr d \<le> 160"
    proof (cases "d = 0")
      case False
      then have "2 ^ (nat (big_log2 cr d) - 1) \<le> unat d" using assms by (simp add: log2_ok_def)
      then have "(2 :: nat) ^ (nat (big_log2 cr d) - 1) < 2 ^ 160" using unsigned_less [of d, where ?'a = nat] by simp
      then have "nat (big_log2 cr d) - 1 < 160" by (rule power_less_imp_less_exp [rotated]) simp
      then show ?thesis by linarith
    qed (use assms in \<open>simp add: log2_ok_def\<close>)
  qed
  then show u: "uint (of_int (161 - big_log2 cr d) :: byte) = 161 - big_log2 cr d"
    using word_of_int_small [of "161 - big_log2 cr d"] by simp
  then show "1 \<le> (of_int (161 - big_log2 cr d) :: byte)" using l by (simp add: word_le_def)
qed

lemma fetch_meta_inv:
  assumes "bdb_ok B" "log2_ok cr" "chunk_inv B d"
  shows "chunk_inv B (snd (fetch_meta cr B t t' cid m auto d))"
proof -
  have *: "chunk_inv B (snd (bindc (store_meta B cid v) (\<lambda>_. ret z) d))" if "1 \<le> distance_rank v" for v and z :: "bool \<times> meta"
    using store_meta_inv [OF assms(1,3) that] by (auto simp: bindc_def ret_def split: prod.splits sum.splits)
  show ?thesis
  proof (cases "db_get B (cd_handle d) (chunk_key d cid)")
    case None
    then show ?thesis using * rank_of_log2(1) [OF assms(2)] assms(3) by (simp add: fetch_meta_def Let_def)
  next
    case (Some v)
    then have "1 \<le> distance_rank v" using assms(3) by (auto simp: chunk_inv_def)
    with Some * assms(3) show ?thesis by (simp add: fetch_meta_def Let_def)
  qed
qed

text \<open>A chunk asked for at the times \<open>ts\<close>, the caller starting from a fresh record each time.\<close>

fun query_chunk :: "crypto \<Rightarrow> 'h chunk_bdb \<Rightarrow> sha1 \<Rightarrow> u64 list \<Rightarrow> meta \<Rightarrow> ('h chunk_db, meta) cmd" where
  "query_chunk cr B cid [] m = ret m"
| "query_chunk cr B cid (t # ts) m = bindc (fetch_meta cr B t t cid meta_new True) (\<lambda>(_, m'). query_chunk cr B cid ts m')"

lemma query_known:
  assumes "bdb_ok B" "db_get B (cd_handle d) (chunk_key d cid) = Some m" "query_chunk cr B cid ts m d = (Inr m', d')"
  shows "m' = m\<lparr>query_count := query_count m + of_nat (length ts), last_update := last (last_update m # ts)\<rparr>
    \<and> db_get B (cd_handle d') = (db_get B (cd_handle d))(chunk_key d cid \<mapsto> m')"
  using assms(2,3)
proof (induction ts arbitrary: m d)
  case Nil
  then show ?case by (auto simp: ret_def)
next
  case (Cons t ts)
  let ?m = "m\<lparr>query_count := query_count m + 1, last_update := t\<rparr>"
  obtain b d1 where s: "store_meta B cid ?m d = (Inr b, d1)" "query_chunk cr B cid ts ?m d1 = (Inr m', d')"
    using Cons.prems by (auto simp: fetch_meta_def bindc_def ret_def Let_def split: prod.splits sum.splits)
  note st = store_meta_Inr [OF assms(1) s(1)]
  have k: "chunk_key d1 = chunk_key d" using st by (auto simp: chunk_key_def)
  have "db_get B (cd_handle d1) (chunk_key d1 cid) = Some ?m" using st k by simp
  from Cons.IH [OF this s(2)] st k show ?case by (auto simp: add.assoc fun_eq_iff)
qed

text \<open>
  A chunk the database does not know, asked for once and then at the times \<open>ts\<close>, ends up with the first time as
  its first update, the last one as its last, the number of repetitions as its query count and
  161 minus the logarithm of its distance as its rank; the database holds exactly this record for
  it, and every other record is as it was.
\<close>

theorem chunk_query_history:
  assumes "bdb_ok B" "db_get B (cd_handle d) (chunk_key d cid) = None" "query_chunk cr B cid (t # ts) m d = (Inr m', d')"
  shows "m' = \<lparr>first_update = t, last_update = last (t # ts), query_count = of_nat (length ts), chunk_size = 0,
      distance_rank = of_int (161 - big_log2 cr (xor cid (cd_node_id d)))\<rparr>
    \<and> db_get B (cd_handle d') = (db_get B (cd_handle d))(chunk_key d cid \<mapsto> m')"
proof -
  let ?m = "\<lparr>first_update = t, last_update = t, query_count = 0, chunk_size = 0,
      distance_rank = of_int (161 - big_log2 cr (xor cid (cd_node_id d)))\<rparr>"
  obtain b d1 where s: "store_meta B cid ?m d = (Inr b, d1)" "query_chunk cr B cid ts ?m d1 = (Inr m', d')"
    using assms(2,3) by (auto simp: fetch_meta_def meta_new_def bindc_def ret_def Let_def split: prod.splits sum.splits)
  note st = store_meta_Inr [OF assms(1) s(1)]
  have k: "chunk_key d1 = chunk_key d" using st by (auto simp: chunk_key_def)
  have "db_get B (cd_handle d1) (chunk_key d1 cid) = Some ?m" using st k by simp
  from query_known [OF assms(1) this s(2)] st k show ?thesis by (auto simp: fun_eq_iff)
qed

section \<open>The index by revenue\<close>

definition revenue :: "meta \<Rightarrow> int" where
  "revenue m = (case get_annual_rev m of Inl _ \<Rightarrow> 0 | Inr r \<Rightarrow> r)"

text \<open>Berkeley DB keeps the secondary index in the order of \<open>compare_i64\<close>.\<close>

definition rev_index_ok :: "'h chunk_bdb \<Rightarrow> bool" where
  "rev_index_ok B \<longleftrightarrow> (\<forall>h. sorted_wrt (\<lambda>a b. compare_i64 (revenue (snd a)) (revenue (snd b)) \<le> 0) (db_index B h))"

lemma compare_i64_le [simp]: "compare_i64 a b \<le> 0 \<longleftrightarrow> a \<le> b"
  by (simp add: compare_i64_def)

lemma compare_i64_less [simp]: "compare_i64 a b < 0 \<longleftrightarrow> a < b"
  by (simp add: compare_i64_def)

lemma dropWhile_sorted:
  assumes "sorted_wrt (\<lambda>a b. f a \<le> (f b :: int)) xs"
  shows "dropWhile (\<lambda>x. f x < c) xs = filter (\<lambda>x. c \<le> f x) xs"
  using assms by (induction xs) (auto intro!: filter_True [symmetric])

lemma worst_filter:
  assumes "bdb_ok B" "rev_index_ok B" "chunk_inv B d"
  shows "fetch_worst_performance B d n =
    map (meta_record d) (take (max 1 (nat n)) (filter (\<lambda>e. 1 \<le> revenue (snd e)) (db_index B (cd_handle d))))"
proof -
  let ?xs = "db_index B (cd_handle d)"
  have "\<exists>r. get_annual_rev (snd e) = Inr r" if "e \<in> set ?xs" for e
    using that assms(3) bdb_okD(2) [OF assms(1), of "fst e" "snd e"] bdb_okD(4) [OF assms(1)] by (simp add: chunk_inv_def)
  then have "dropWhile (\<lambda>(k, m). case get_annual_rev m of Inl _ \<Rightarrow> True | Inr r \<Rightarrow> compare_i64 r 1 < 0) ?xs
      = dropWhile (\<lambda>e. revenue (snd e) < 1) ?xs"
    by (intro dropWhile_cong) (fastforce simp: revenue_def split: sum.splits)+
  moreover have "sorted_wrt (\<lambda>a b. revenue (snd a) \<le> revenue (snd b)) ?xs"
    using assms(2) by (simp add: rev_index_ok_def)
  ultimately show ?thesis using dropWhile_sorted [of "\<lambda>e. revenue (snd e)" ?xs 1]
    by (simp add: fetch_worst_performance_def)
qed

lemma positive_stored:
  assumes "chunk_inv B d" "db_get B (cd_handle d) k = Some v" "0 < revenue v"
  shows "chunk_size v \<noteq> 0"
proof
  assume "chunk_size v = 0"
  moreover obtain r where "get_annual_rev v = Inr r" "1 \<le> distance_rank v"
    using assms(1,2) unfolding chunk_inv_def by blast
  ultimately show False using assms(3) revenue_sign(1) [of v r] by (simp add: get_annual_rev_def revenue_def)
qed

lemma take_filter_sorted:
  assumes "sorted_wrt (\<lambda>a b. f a \<le> (f b :: int)) xs" "x \<in> set (take n xs)" "y \<in> set xs" "y \<notin> set (take n xs)"
  shows "f x \<le> f y"
proof -
  have "y \<in> set (drop n xs)" using assms(3,4) by (metis Un_iff append_take_drop_id set_append)
  then show ?thesis using assms(1,2) sorted_wrt_append [of "\<lambda>a b. f a \<le> f b" "take n xs" "drop n xs"] by simp
qed

text \<open>
  \<open>fetch_worst_performance\<close> returns only chunks the node stores, each with its own record and a positive
  revenue, at most \<open>n\<close> of them (but one if \<open>n\<close> is not positive), and no record left out that has a positive revenue
  earns less than a returned one.
\<close>

theorem worst_performance_stored:
  assumes "bdb_ok B" "rev_index_ok B" "chunk_inv B d"
  shows "length (fetch_worst_performance B d n) \<le> max 1 (nat n)
    \<and> (\<forall>(cid, m) \<in> set (fetch_worst_performance B d n).
         db_get B (cd_handle d) (chunk_key d cid) = Some m \<and> chunk_size m \<noteq> 0 \<and> 0 < revenue m
         \<and> (\<forall>k v. db_get B (cd_handle d) k = Some v \<and> 0 < revenue v
              \<and> (xor (of_le_bytes k) (cd_node_id d), v) \<notin> set (fetch_worst_performance B d n) \<longrightarrow> revenue m \<le> revenue v))"
proof -
  let ?ys = "filter (\<lambda>e. 1 \<le> revenue (snd e)) (db_index B (cd_handle d))" and ?n = "max 1 (nat n)"
  note w = worst_filter [OF assms, of n]
  have mem: "e \<in> set (db_index B (cd_handle d)) \<longleftrightarrow> db_get B (cd_handle d) (fst e) = Some (snd e)" for e
    using bdb_okD(2) [OF assms(1), of "fst e" "snd e"] bdb_okD(4) [OF assms(1)] by simp
  have srt: "sorted_wrt (\<lambda>a b. revenue (snd a) \<le> revenue (snd b)) ?ys"
    using assms(2) by (simp add: rev_index_ok_def sorted_wrt_filter)
  have 1: "\<exists>e. e \<in> set (take ?n ?ys) \<and> cid = xor (of_le_bytes (fst e)) (cd_node_id d) \<and> m = snd e"
    if "(cid, m) \<in> set (fetch_worst_performance B d n)" for cid m
    using that by (auto simp: w meta_record_def simp del: max.bounded_iff)
  have 2: "db_get B (cd_handle d) (fst e) = Some (snd e) \<and> 0 < revenue (snd e) \<and> fst e = chunk_key d (xor (of_le_bytes (fst e)) (cd_node_id d))"
    if "e \<in> set (take ?n ?ys)" for e
  proof -
    have e: "db_get B (cd_handle d) (fst e) = Some (snd e)" "0 < revenue (snd e)" using in_set_takeD [OF that] mem by auto
    then obtain cid where "fst e = chunk_key d cid" using assms(3) by (auto simp: chunk_inv_def)
    then show ?thesis using e chunk_key_id [of d cid] by simp
  qed
  have 3: "revenue (snd e) \<le> revenue v"
    if "e \<in> set (take ?n ?ys)" "db_get B (cd_handle d) k = Some v" "0 < revenue v"
      "(xor (of_le_bytes k) (cd_node_id d), v) \<notin> set (fetch_worst_performance B d n)" for e k v
  proof -
    have "(k, v) \<in> set ?ys" using that mem [of "(k, v)"] by simp
    moreover have "(k, v) \<notin> set (take ?n ?ys)" using that(4) by (auto simp: w meta_record_def image_iff)
    ultimately show ?thesis using take_filter_sorted [OF srt that(1), of "(k, v)"] by simp
  qed
  have "db_get B (cd_handle d) (chunk_key d cid) = Some m \<and> chunk_size m \<noteq> 0 \<and> 0 < revenue m
      \<and> (\<forall>k v. db_get B (cd_handle d) k = Some v \<and> 0 < revenue v
           \<and> (xor (of_le_bytes k) (cd_node_id d), v) \<notin> set (fetch_worst_performance B d n) \<longrightarrow> revenue m \<le> revenue v)"
    if cm: "(cid, m) \<in> set (fetch_worst_performance B d n)" for cid m
  proof -
    obtain e where e: "e \<in> set (take ?n ?ys)" "cid = xor (of_le_bytes (fst e)) (cd_node_id d)" "m = snd e" using 1 [OF cm] by blast
    show ?thesis using 2 [OF e(1)] 3 [OF e(1)] positive_stored [OF assms(3), of "fst e" m] e(2,3) by (metis (no_types, lifting))
  qed
  moreover have "length (fetch_worst_performance B d n) \<le> ?n" by (simp add: w)
  ultimately show ?thesis by blast
qed

section \<open>Witnesses\<close>

theorem chunk_revenue_bounds_witness: "\<exists>r. annual_revenue_rate (meta_new\<lparr>chunk_size := 1000, distance_rank := 7\<rparr>) = Inr r \<and> 0 \<le> r"
  using chunk_revenue_bounds [of "meta_new\<lparr>chunk_size := 1000, distance_rank := 7\<rparr>"]
  by (simp add: meta_new_def access_interval_def)

definition demo_chunks :: "(byte list \<times> meta) list chunk_db" where
  "demo_chunks = \<lparr>cd_node_id = 5, cd_handle = []\<rparr>"

lemma demo_query_ok: "\<exists>m' d'. query_chunk demo_crypto list_bdb 4 [10, 2000, 3000] meta_new demo_chunks = (Inr m', d')"
  by (simp add: fetch_meta_def store_meta_def get_annual_rev_def annual_revenue_rate_def annual_query_count_def access_interval_def
      price_def meta_new_def demo_chunks_def list_bdb_def demo_crypto_def bindc_def ret_def Let_def chunk_key_def bit_count.simps)

theorem chunk_query_history_witness:
  "query_count (projr (fst (query_chunk demo_crypto list_bdb 4 [10, 2000, 3000] meta_new demo_chunks))) = 2"
proof -
  obtain m' d' where q: "query_chunk demo_crypto list_bdb 4 [10, 2000, 3000] meta_new demo_chunks = (Inr m', d')"
    using demo_query_ok by blast
  have "db_get list_bdb (cd_handle demo_chunks) (chunk_key demo_chunks 4) = None" by (simp add: list_bdb_def demo_chunks_def)
  from chunk_query_history [OF list_bdb_ok this q] q show ?thesis by simp
qed

text \<open>A database in memory that sorts its index.\<close>

definition rev_bdb :: "((byte list \<times> meta) list, meta) bdb" where
  "rev_bdb = list_bdb\<lparr>db_index := (\<lambda>h. sort_key (\<lambda>e. revenue (snd e)) (AList.clearjunk h))\<rparr>"

lemma rev_bdb_ok: "bdb_ok rev_bdb"
  using list_bdb_ok [where ?'a = meta] by (simp add: bdb_ok_def rev_bdb_def list_bdb_def)

lemma rev_bdb_index: "rev_index_ok rev_bdb"
  by (simp add: rev_index_ok_def rev_bdb_def flip: sorted_wrt_map [of _ "\<lambda>e. revenue (snd e)"])

definition demo_stored :: "(byte list \<times> meta) list chunk_db" where
  "demo_stored = demo_chunks\<lparr>cd_handle := [(chunk_key demo_chunks 9, meta_new),
     (chunk_key demo_chunks 4, meta_new\<lparr>chunk_size := 1000, query_count := 2, last_update := 4000, distance_rank := 160\<rparr>)]\<rparr>"

lemma demo_stored_inv: "chunk_inv rev_bdb demo_stored"
proof -
  have "db_get rev_bdb (cd_handle demo_stored) k = Some m \<Longrightarrow> k = chunk_key demo_chunks 9 \<and> m = meta_new
      \<or> k = chunk_key demo_chunks 4 \<and> m = meta_new\<lparr>chunk_size := 1000, query_count := 2, last_update := 4000, distance_rank := 160\<rparr>" for k m
    by (auto simp: rev_bdb_def list_bdb_def demo_stored_def split: if_splits)
  moreover have "chunk_key demo_stored = chunk_key demo_chunks" by (simp add: demo_stored_def)
  ultimately show ?thesis
    by (fastforce simp: chunk_inv_def get_annual_rev_def annual_revenue_rate_def annual_query_count_def access_interval_def
        price_def meta_new_def Let_def)
qed

theorem worst_performance_stored_witness:
  "length (fetch_worst_performance rev_bdb demo_stored 3) \<le> 3 \<and> list_all (\<lambda>(cid, m). chunk_size m \<noteq> 0) (fetch_worst_performance rev_bdb demo_stored 3)"
  using worst_performance_stored [OF rev_bdb_ok rev_bdb_index demo_stored_inv, of 3] by (auto simp: list_all_iff)

end
