(* ===== verification/Chunk_Server.thy ===== *)
theory Chunk_Server
  imports Chunk_Db
begin

text \<open>
  The messages of the chunk service (include/tornet/chunk_service_messages.hpp) and the remote methods a node
  offers on them (src/chunk_service_connection.hpp), over the cache database. The test for randomness and what
  \<open>fc::vector::resize\<close> leaves in new elements are arguments.
\<close>

section \<open>Messages\<close>

datatype chunk_session_result = res_ok | res_available | res_invalid_rank | res_invalid_size | res_invalid_range
  | res_credit_limit_reached | res_unknown_chunk | res_already_stored | res_rejected | res_data_not_random | res_unknown

fun result_code :: "chunk_session_result \<Rightarrow> byte" where
  "result_code res_ok = 0"
| "result_code res_available = 1"
| "result_code res_invalid_rank = 2"
| "result_code res_invalid_size = 3"
| "result_code res_invalid_range = 4"
| "result_code res_credit_limit_reached = 5"
| "result_code res_unknown_chunk = 6"
| "result_code res_already_stored = 7"
| "result_code res_rejected = 8"
| "result_code res_data_not_random = 9"
| "result_code res_unknown = 10"

record fetch_request =
  fq_target :: sha1
  fq_length :: u32
  fq_offset :: u32

record fetch_response =
  fr_result :: byte
  fr_offset :: u32
  fr_total_size :: u32
  fr_data :: "byte list"
  fr_balance :: u64
  fr_query_interval :: u64
  fr_deadend_count :: u32

definition fetch_response_new :: "chunk_session_result \<Rightarrow> u64 \<Rightarrow> fetch_response" where
  "fetch_response_new e new_bal = \<lparr>fr_result = result_code e, fr_offset = 0, fr_total_size = 0, fr_data = [],
     fr_balance = new_bal, fr_query_interval = 0, fr_deadend_count = 0\<rparr>"

section \<open>Methods\<close>

text \<open>How many bytes are put in a reply. The lengths and offsets of a request are signed; the comparison is one of 64-bit
  signed numbers, the difference one of 32-bit unsigned ones.\<close>

definition reply_size :: "u32 \<Rightarrow> fetch_request \<Rightarrow> nat option" where
  "reply_size sz r =
     (if sint (fq_offset r) \<ge> uint sz then None
      else if sint (fq_length r) < 0 then Some (unat (sz - fq_offset r))
      else Some (min (nat (sint (fq_length r))) (unat (sz - fq_offset r))))"

definition fetch_reply :: "(nat \<Rightarrow> byte list) \<Rightarrow> meta \<Rightarrow> fetch_request \<Rightarrow> fetch_response" where
  "fetch_reply fill met r =
     (let reply = (fetch_response_new res_unknown 0)
            \<lparr>fr_result := result_code (if chunk_size met \<noteq> 0 then res_available else res_ok), fr_query_interval := access_interval met\<rparr> in
      if fq_length r \<noteq> 0 \<and> fr_result reply = result_code res_available then
        (case reply_size (chunk_size met) r of
           None \<Rightarrow> reply\<lparr>fr_result := result_code res_invalid_range\<rparr>
         | Some n \<Rightarrow> reply\<lparr>fr_data := fill n\<rparr>)
      else reply)"

definition chunk_fetch :: "(nat \<Rightarrow> byte list) \<Rightarrow> crypto \<Rightarrow> 'h chunk_bdb \<Rightarrow> u64 \<Rightarrow> u64 \<Rightarrow> fetch_request \<Rightarrow> ('h chunk_db, fetch_response) cmd" where
  "chunk_fetch fill cr B t t' r =
     bindc (fetch_meta cr B t t' (fq_target r) meta_new True) (\<lambda>(found, met).
       if \<not> found then ret ((fetch_response_new res_unknown 0)\<lparr>fr_result := result_code res_unknown_chunk\<rparr>)
       else bindc (store_meta B (fq_target r) met) (\<lambda>_. ret (fetch_reply fill met r)))"

definition chunk_store :: "(byte list \<Rightarrow> bool) \<Rightarrow> crypto \<Rightarrow> 'h chunk_bdb \<Rightarrow> u64 \<Rightarrow> u64 \<Rightarrow> byte list \<Rightarrow> ('h chunk_db, byte) cmd" where
  "chunk_store rnd cr B t t' data =
     (if \<not> rnd data then ret (result_code res_data_not_random)
      else if length data > 1024 * 1024 then ret (result_code res_invalid_size)
      else bindc (fetch_meta cr B t t' (sha1_hash cr data) meta_new True) (\<lambda>_. ret (result_code res_ok)))"

section \<open>Replies\<close>

lemma sint_nonneg: "0 \<le> sint w \<Longrightarrow> sint w = uint (w :: u32)"
  using unsigned_less [of w, where ?'a = int] by (simp add: sint_unat split: if_splits)

lemma sint_negative: "sint w < 0 \<Longrightarrow> sint w = uint (w :: u32) - 2 ^ 32"
  by (simp add: sint_unat split: if_splits)

lemma fetch_reply_cases:
  assumes "chunk_size met \<noteq> 0" "fq_length r \<noteq> 0"
  shows "fetch_reply fill met r = (case reply_size (chunk_size met) r of
      None \<Rightarrow> (fetch_response_new res_unknown 0)\<lparr>fr_result := 4, fr_query_interval := access_interval met\<rparr>
    | Some n \<Rightarrow> (fetch_response_new res_unknown 0)\<lparr>fr_result := 1, fr_query_interval := access_interval met, fr_data := fill n\<rparr>)"
  using assms by (simp add: fetch_reply_def fetch_response_new_def Let_def split: option.splits)


section \<open>A node never has a chunk\<close>

text \<open>The requests a node serves, in any order.\<close>

inductive server_run :: "(nat \<Rightarrow> byte list) \<Rightarrow> (byte list \<Rightarrow> bool) \<Rightarrow> crypto \<Rightarrow> 'h chunk_bdb \<Rightarrow> 'h chunk_db \<Rightarrow> 'h chunk_db \<Rightarrow> bool"
  for fill rnd cr B where
  start: "server_run fill rnd cr B d d"
| fetch: "server_run fill rnd cr B d0 d \<Longrightarrow> server_run fill rnd cr B d0 (snd (chunk_fetch fill cr B t t' r d))"
| store: "server_run fill rnd cr B d0 d \<Longrightarrow> server_run fill rnd cr B d0 (snd (chunk_store rnd cr B t t' data d))"

definition no_sizes :: "'h chunk_bdb \<Rightarrow> 'h chunk_db \<Rightarrow> bool" where
  "no_sizes B d \<longleftrightarrow> (\<forall>k m. db_get B (cd_handle d) k = Some m \<longrightarrow> chunk_size m = 0)"

lemma no_sizes_store:
  assumes "bdb_ok B" "no_sizes B d" "chunk_size m = 0"
  shows "no_sizes B (snd (store_meta B cid m d))"
proof (cases "store_meta B cid m d")
  case (Pair x d')
  then show ?thesis
  proof (cases x)
    case (Inr b)
    then show ?thesis using store_meta_Inr [OF assms(1)] Pair assms(2,3) by (auto simp: no_sizes_def)
  next
    case (Inl e)
    then show ?thesis using Pair assms(2) by (auto simp: store_meta_def split: sum.splits option.splits)
  qed
qed

lemma no_sizes_fetch_meta:
  assumes "bdb_ok B" "no_sizes B d" "fetch_meta cr B t t' cid meta_new True d = (x, d')"
  shows "no_sizes B d' \<and> (\<forall>f m. x = Inr (f, m) \<longrightarrow> f \<and> chunk_size m = 0)"
proof -
  obtain m where m: "chunk_size m = 0" "fetch_meta cr B t t' cid meta_new True d = bindc (store_meta B cid m) (\<lambda>_. ret (True, m)) d"
  proof (cases "db_get B (cd_handle d) (chunk_key d cid)")
    case None
    let ?m = "meta_new\<lparr>distance_rank := of_int (161 - big_log2 cr (xor cid (cd_node_id d))), first_update := t,
      last_update := t', query_count := 0\<rparr>"
    show ?thesis by (rule that [of ?m]) (use None in \<open>simp_all add: fetch_meta_def Let_def meta_new_def\<close>)
  next
    case (Some v)
    let ?m = "v\<lparr>query_count := query_count v + 1, last_update := t\<rparr>"
    show ?thesis by (rule that [of ?m]) (use Some assms(2) in \<open>simp_all add: fetch_meta_def Let_def no_sizes_def\<close>)
  qed
  then show ?thesis using no_sizes_store [OF assms(1,2) m(1), of cid] assms(3)
    by (auto simp: bindc_def ret_def split: prod.splits sum.splits)
qed

lemma no_sizes_chunk_fetch:
  assumes "bdb_ok B" "no_sizes B d" "chunk_fetch fill cr B t t' r d = (x, d')"
  shows "no_sizes B d' \<and> (\<forall>reply. x = Inr reply \<longrightarrow> fr_result reply = result_code res_ok \<and> fr_data reply = [])"
proof -
  obtain y d1 where y: "fetch_meta cr B t t' (fq_target r) meta_new True d = (y, d1)" by fastforce
  note f = no_sizes_fetch_meta [OF assms(1,2) y]
  show ?thesis
  proof (cases y)
    case (Inl e)
    then show ?thesis using f y assms(3) by (auto simp: chunk_fetch_def bindc_def)
  next
    case (Inr fm)
    obtain met where m: "fm = (True, met)" "chunk_size met = 0" using f Inr by (cases fm) auto
    have "fr_result (fetch_reply fill met r) = result_code res_ok \<and> fr_data (fetch_reply fill met r) = []"
      using m(2) by (simp add: fetch_reply_def fetch_response_new_def)
    then show ?thesis using no_sizes_store [OF assms(1) _ m(2), of d1 "fq_target r"] f Inr y m(1) assms(3)
      by (auto simp: chunk_fetch_def bindc_def ret_def split: prod.splits sum.splits)
  qed
qed

lemma no_sizes_chunk_store:
  assumes "bdb_ok B" "no_sizes B d"
  shows "no_sizes B (snd (chunk_store rnd cr B t t' data d))"
  using no_sizes_fetch_meta [OF assms, of cr t t' "sha1_hash cr data"] assms(2)
  by (auto simp: chunk_store_def bindc_def ret_def split: prod.splits sum.splits)

lemma no_sizes_run: "server_run fill rnd cr B d d' \<Longrightarrow> bdb_ok B \<Longrightarrow> no_sizes B d \<Longrightarrow> no_sizes B d'"
proof (induction rule: server_run.induct)
  case (fetch d0 d t t' r)
  then show ?case using no_sizes_chunk_fetch by (metis prod.collapse)
next
  case (store d0 d t t' data)
  then show ?case using no_sizes_chunk_store by blast
qed

text \<open>
  Whatever requests a node with an empty cache serves, it never offers a chunk: every reply to \<open>fetch\<close> says \<open>ok\<close> and
  carries no data, also after the chunk was stored on the node with the answer \<open>ok\<close>. (The calls that would
  keep the data and set the size are commented out.)
\<close>

theorem server_never_available:
  assumes "bdb_ok B" "\<forall>k. db_get B (cd_handle d) k = None" "server_run fill rnd cr B d d'"
    "chunk_fetch fill cr B t t' r d' = (Inr reply, d'')"
  shows "fr_result reply = result_code res_ok \<and> fr_data reply = []"
proof -
  have "no_sizes B d'" using no_sizes_run [OF assms(3,1)] assms(2) by (simp add: no_sizes_def)
  from no_sizes_chunk_fetch [OF assms(1) this assms(4)] show ?thesis by blast
qed

section \<open>Witnesses\<close>


definition demo_fetch :: fetch_request where
  "demo_fetch = \<lparr>fq_target = 4, fq_length = - 1, fq_offset = 0\<rparr>"

lemma demo_fetch_ok: "\<exists>reply d''. chunk_fetch (\<lambda>n. replicate n 0) demo_crypto list_bdb 10 10 demo_fetch demo_chunks = (Inr reply, d'')"
  by (simp add: chunk_fetch_def demo_fetch_def fetch_meta_def store_meta_def get_annual_rev_def annual_revenue_rate_def annual_query_count_def
      access_interval_def price_def meta_new_def demo_chunks_def list_bdb_def demo_crypto_def bindc_def ret_def Let_def bit_count.simps)

theorem server_never_available_witness:
  "\<exists>reply d''. chunk_fetch (\<lambda>n. replicate n 0) demo_crypto list_bdb 10 10 demo_fetch demo_chunks = (Inr reply, d'')
     \<and> fr_result reply = result_code res_ok"
proof -
  obtain reply d'' where c: "chunk_fetch (\<lambda>n. replicate n 0) demo_crypto list_bdb 10 10 demo_fetch demo_chunks = (Inr reply, d'')"
    using demo_fetch_ok by blast
  have e: "\<forall>k. db_get list_bdb (cd_handle demo_chunks) k = None" by (simp add: list_bdb_def demo_chunks_def)
  from server_never_available [OF list_bdb_ok e server_run.start c] c show ?thesis by blast
qed

end
