(* ===== verification/Chunk_Search.thy ===== *)
theory Chunk_Search
  imports Kad_Search Chunk_Server
begin

text \<open>
  The search for the hosts of a chunk (src/chunk_search.cpp): a lookup whose filter asks every node it reaches
  for the chunk, collects the nodes that have it and averages how often they are asked. The class
  adds its members to those of \<open>kad_search\<close>, and so does the record here. The average is computed in \<open>double\<close>s;
  the arithmetic of \<open>double\<close> is an argument, of any type.
\<close>

section \<open>State and filter\<close>

record 'd fp =
  fp_add :: "'d \<Rightarrow> 'd \<Rightarrow> 'd"
  fp_mul :: "'d \<Rightarrow> 'd \<Rightarrow> 'd"
  fp_div :: "'d \<Rightarrow> 'd \<Rightarrow> 'd"
  fp_of_int :: "int \<Rightarrow> 'd"

record 'd chunk_search = kad_search +
  find_nm :: bool
  deadend_count :: u32
  found_size :: u32
  avg_qr :: 'd
  qr_weight :: 'd
  m_host_results :: "(sha1, sha1) std_map"

definition chunk_search_new :: "'d fp \<Rightarrow> sha1 \<Rightarrow> sha1 \<Rightarrow> u32 \<Rightarrow> u32 \<Rightarrow> bool \<Rightarrow> 'd chunk_search" where
  "chunk_search_new A local_id target n p fnm =
     kad_search.extend (kad_new local_id target n p)
       (chunk_search.fields fnm 0 0 (fp_of_int A 0) (fp_of_int A 0) [])"

text \<open>The level of a node, by the logarithm of its distance. It is the exponent of its weight.\<close>

definition query_level :: "crypto \<Rightarrow> sha1 \<Rightarrow> int" where
  "query_level cr dist = min (16 - (160 - big_log2 cr dist)) 1"

definition adj_rate :: "'d fp \<Rightarrow> int \<Rightarrow> int \<Rightarrow> 'd" where
  "adj_rate A level query_interval =
     (let query_rate_sec = fp_div A (fp_of_int A query_interval) (fp_of_int A 1000000);
          query_rate_hz = fp_div A (fp_of_int A 1) query_rate_sec
      in fp_mul A (fp_of_int A level) query_rate_hz)"

text \<open>A shift of 1 by a negative number of bits is undefined.\<close>

definition query_weight :: "'d fp \<Rightarrow> int \<Rightarrow> 'd res" where
  "query_weight A level =
     (if level - 1 < 0 then Inl (Undefined ''shift by a negative number'')
      else Inr (fp_div A (fp_of_int A 1) (fp_of_int A (2 ^ nat (level - 1)))))"

definition chunk_filter :: "'d fp \<Rightarrow> crypto \<Rightarrow> sha1 \<Rightarrow> fetch_response \<Rightarrow> ('d chunk_search, unit) cmd" where
  "chunk_filter A cr nid fr =
     andthen (modc (\<lambda>s. if fr_total_size fr \<noteq> 0 then s\<lparr>found_size := fr_total_size fr\<rparr> else s))
    (andthen (modc (\<lambda>s. s\<lparr>deadend_count := deadend_count s + fr_deadend_count fr\<rparr>))
    (bindc getc (\<lambda>s.
       let level = query_level cr (xor (m_target s) nid);
           rate = adj_rate A level (sint (fr_query_interval fr)) in
       bindc (liftres (query_weight A level)) (\<lambda>weight.
         andthen (modc (\<lambda>s. s\<lparr>avg_qr := fp_div A (fp_add A (fp_mul A (avg_qr s) (qr_weight s)) rate) (fp_add A (qr_weight s) weight)\<rparr>))
        (andthen (modc (\<lambda>s. s\<lparr>qr_weight := fp_add A (qr_weight s) weight\<rparr>))
        (whenc (fr_result fr = result_code res_available)
          (andthen (modc (\<lambda>s. s\<lparr>m_host_results := sm_put (xor nid (m_target s)) nid (m_host_results s)\<rparr>))
          (modc (\<lambda>s. if length (m_host_results s) \<ge> unat (m_n s) then s\<lparr>m_cur_status := kad_done\<rparr> else s)))))))))"

section \<open>The effect of the filter\<close>

definition filter_kept :: "'d fp \<Rightarrow> crypto \<Rightarrow> sha1 \<Rightarrow> fetch_response \<Rightarrow> 'd \<Rightarrow> 'd chunk_search \<Rightarrow> 'd chunk_search" where
  "filter_kept A cr nid fr w s =
     (let s1 = (if fr_total_size fr \<noteq> 0 then s\<lparr>found_size := fr_total_size fr\<rparr> else s);
          s2 = s1\<lparr>deadend_count := deadend_count s + fr_deadend_count fr,
            avg_qr := fp_div A (fp_add A (fp_mul A (avg_qr s) (qr_weight s))
              (adj_rate A (query_level cr (xor (m_target s) nid)) (sint (fr_query_interval fr)))) (fp_add A (qr_weight s) w),
            qr_weight := fp_add A (qr_weight s) w\<rparr>;
          hs = sm_put (xor nid (m_target s)) nid (m_host_results s)
      in if fr_result fr = 1
         then s2\<lparr>m_host_results := hs, m_cur_status := (if length hs \<ge> unat (m_n s) then kad_done else m_cur_status s)\<rparr>
         else s2)"

lemma chunk_filter_Inr:
  "query_weight A (query_level cr (xor (m_target s) nid)) = Inr w \<Longrightarrow> chunk_filter A cr nid fr s = (Inr (), filter_kept A cr nid fr w s)"
  by (simp add: chunk_filter_def filter_kept_def andthen_def bindc_def modc_def getc_def liftres_def whenc_def ret_def Let_def)

lemma chunk_filter_Inl:
  "query_weight A (query_level cr (xor (m_target s) nid)) = Inl e \<Longrightarrow>
     chunk_filter A cr nid fr s = (Inl e, (if fr_total_size fr \<noteq> 0 then s\<lparr>found_size := fr_total_size fr\<rparr> else s)
       \<lparr>deadend_count := deadend_count s + fr_deadend_count fr\<rparr>)"
  by (simp add: chunk_filter_def andthen_def bindc_def modc_def getc_def liftres_def Let_def)

lemma chunk_filter_frame: "chunk_filter A cr nid fr s = (x, s') \<Longrightarrow> filter_frame s s'"
  using chunk_filter_Inr [of A cr s nid _ fr] chunk_filter_Inl [of A cr s nid _ fr]
  by (cases "query_weight A (query_level cr (xor (m_target s) nid))")
     (auto simp: filter_frame_def filter_kept_def Let_def split: if_splits)

interpretation chunkf: search_filter "chunk_filter A cr" for A cr
  by unfold_locales (rule chunk_filter_frame)

section \<open>What a search for hosts finds\<close>

definition hosts_inv :: "sha1 set \<times> 'd chunk_search \<Rightarrow> bool" where
  "hosts_inv = (\<lambda>(K, s).
     sm_ok (m_host_results s) \<and> (\<forall>(d, h) \<in> set (m_host_results s). d = xor (m_target s) h \<and> d \<in> K)
     \<and> (m_cur_status s = kad_done \<longrightarrow> 0 \<in> K \<or> unat (m_n s) \<le> length (m_host_results s)))"

lemma hosts_inv_same:
  "hosts_inv (K, s) \<Longrightarrow> m_host_results s' = m_host_results s \<Longrightarrow> m_target s' = m_target s \<Longrightarrow> m_n s' = m_n s
   \<Longrightarrow> m_cur_status s' = m_cur_status s \<Longrightarrow> hosts_inv (K, s')"
  by (simp add: hosts_inv_def)

lemma hosts_inv_next: "search_next i s = (r, s') \<Longrightarrow> hosts_inv (K, s) \<Longrightarrow> hosts_inv (K, s')"
  by (erule hosts_inv_same)
     (auto simp: search_next_def set_fiber_def andthen_def bindc_def getc_def modc_def split: list.splits prod.splits if_splits)

lemma hosts_inv_connected: "search_connected i h x s = (r, s') \<Longrightarrow> hosts_inv (K, s) \<Longrightarrow> hosts_inv (K, s')"
  by (erule hosts_inv_same) (auto simp: search_connected_def set_fiber_def modc_def split: sum.splits)

lemma hosts_inv_near: "search_near i x s = (Inr (), s') \<Longrightarrow> hosts_inv (K, s) \<Longrightarrow> hosts_inv (K, s')"
proof (cases x)
  case (Inr rr)
  assume n: "search_near i x s = (Inr (), s')" "hosts_inv (K, s)"
  obtain y s1 where 1: "consider_hosts rr s = (y, s1)" by fastforce
  have "queue_ok s s1" using consider_hosts_cases [OF 1] by simp
  moreover have "s' = s1\<lparr>m_fibers := (m_fibers s1)[i := F_loop]\<rparr>"
    using n(1) Inr 1 by (cases y) (auto simp: search_near_def andthen_def bindc_def set_fiber_def modc_def)
  ultimately show ?thesis using n(2) by (auto simp: queue_ok_def hosts_inv_def)
qed (auto simp: search_near_def set_fiber_def modc_def elim: hosts_inv_same)

lemma accepted_fields:
  "m_host_results (accepted i h rtn s) = m_host_results s" "m_target (accepted i h rtn s) = m_target s"
  "m_n (accepted i h rtn s) = m_n s"
  "m_cur_status (accepted i h rtn s) = (if rtn = m_target s then kad_done else m_cur_status s)"
  by (simp_all add: accepted_def add_result_def Let_def)

lemma hosts_inv_filtered:
  assumes "chunk_filter A cr rtn v s = (Inr (), s0)" "hosts_inv (K, s)"
  shows "hosts_inv (insert (xor (m_target s) rtn) K, accepted i h rtn s0)"
proof -
  obtain w where "query_weight A (query_level cr (xor (m_target s) rtn)) = Inr w"
    using assms(1) chunk_filter_Inl [of A cr s rtn] by (cases "query_weight A (query_level cr (xor (m_target s) rtn))") auto
  then have s0: "s0 = filter_kept A cr rtn v w s" using chunk_filter_Inr [of A cr s rtn w v] assms(1) by simp
  let ?hs = "sm_put (xor rtn (m_target s)) rtn (m_host_results s)"
  have hs: "sm_ok ?hs \<and> (\<forall>(d, h) \<in> set ?hs. d = xor (m_target s) h \<and> d \<in> insert (xor (m_target s) rtn) K)"
    using assms(2) set_sm_put [of "xor rtn (m_target s)" rtn "m_host_results s"]
    by (fastforce simp: hosts_inv_def sm_ok_put xor.commute)
  moreover have "length (m_host_results s) \<le> length ?hs"
    using assms(2) length_sm_put [of "m_host_results s" "xor rtn (m_target s)" rtn] by (simp add: hosts_inv_def)
  ultimately show ?thesis using assms(2)
    by (auto simp: hosts_inv_def accepted_fields s0 filter_kept_def Let_def split: if_splits)
qed

lemma hosts_inv_step:
  assumes "kad_step (chunk_filter A cr) z z'" "hosts_inv z"
  shows "hosts_inv z'"
  using assms
proof (cases rule: kad_step.cases)
  case (filtered i s h rtn v s0 s' K)
  then show ?thesis
    using hosts_inv_filtered [of A cr rtn v s s0 K i h] search_filtered_accepted [of "chunk_filter A cr" rtn v s s0 i h] assms(2)
    by simp
next
  case (rejected i s h rtn r x v s0 s' K)
  have "chunk_filter A cr rtn v s \<noteq> (Inl (Throw x), s0)"
    using chunk_filter_Inl [of A cr s rtn] chunk_filter_Inr [of A cr s rtn]
    by (cases "query_weight A (query_level cr (xor (m_target s) rtn))") (auto simp: query_weight_def split: if_splits)
  then have "s' = s\<lparr>m_fibers := (m_fibers s)[i := F_loop]\<rparr>"
    using rejected search_filtered_rejected(2) [of "chunk_filter A cr" i h rtn x s] by auto
  then show ?thesis using rejected assms(2) by (auto elim: hosts_inv_same)
qed (auto intro: hosts_inv_next hosts_inv_connected hosts_inv_near)

lemma hosts_inv_run: "kad_run (chunk_filter A cr) z z' \<Longrightarrow> hosts_inv z \<Longrightarrow> hosts_inv z'"
  by (induction rule: kad_run.induct) (auto intro: hosts_inv_step)

lemma chunk_search_new_fields [simp]:
  "m_target (chunk_search_new A lid t n p f) = t" "m_n (chunk_search_new A lid t n p f) = n"
  "m_p (chunk_search_new A lid t n p f) = p" "m_search_queue (chunk_search_new A lid t n p f) = []"
  "m_host_results (chunk_search_new A lid t n p f) = []"
  by (simp_all add: chunk_search_new_def kad_search.defs chunk_search.defs kad_new_def)

lemma hosts_inv_start:
  assumes "kad_start E nd s = (Inr (), s0)" "m_host_results s = []"
  shows "hosts_inv ({}, s0)"
proof -
  obtain nn where "find_nodes_near E nd (m_target s) (m_n s) None = Inr nn"
    using assms(1) by (auto simp: kad_start_def andthen_def bindc_def modc_def getc_def liftres_def split: sum.splits)
  then show ?thesis
    using assms enqueue_all [of "s\<lparr>m_current_results := [], m_cur_status := kad_searching\<rparr>" nn]
    by (auto simp: kad_start_def andthen_def bindc_def modc_def getc_def liftres_def hosts_inv_def queue_ok_def)
qed

lemma sorted_list_zero:
  assumes "finite K" "(0 :: sha1) \<in> K" "0 < n"
  shows "\<exists>xs. take n (sorted_list_of_set K) = 0 # xs"
proof -
  have "Min K = 0" using assms by (intro Min_eqI) auto
  then have "sorted_list_of_set K = 0 # sorted_list_of_set (K - {0})"
    using sorted_list_of_set_nonempty [of K] assms by auto
  then show ?thesis using assms(3) by (simp add: take_Cons')
qed

text \<open>
  C29: a search for the hosts of a chunk, however its coroutines interleave: the hosts it reports are nodes it has
  contacted, each under its distance. It is done only when the node with the identity of the
  chunk was contacted, and then that node is the first result, or when the wanted
  number of hosts was found. When all coroutines have ended without it being done, there is nobody left to ask.
\<close>

theorem chunk_search_hosts:
  assumes "kad_start E nd (chunk_search_new A lid t n p f) = (Inr (), s0)" "p \<noteq> 0" "n \<noteq> 0"
    "kad_run (chunk_filter A cr) ({}, s0) (K, s)"
  shows "(\<forall>(d, h) \<in> set (m_host_results s). d = xor t h \<and> d \<in> K)
    \<and> (m_cur_status s = kad_done \<longrightarrow>
         (\<exists>h r. m_current_results s = (0, h) # r \<and> host_id h = t) \<or> unat n \<le> length (m_host_results s))
    \<and> ((\<forall>x \<in> set (m_fibers s). x = F_end) \<and> m_cur_status s = kad_searching \<longrightarrow> m_search_queue s = [])"
proof -
  have i: "kad_inv t n (K, s)"
    using chunkf.run_inv [OF assms(4)] kad_inv_start [OF assms(1)] assms(2) by simp
  have h: "hosts_inv (K, s)" using hosts_inv_run [OF assms(4)] hosts_inv_start [OF assms(1)] by simp
  have "\<exists>h r. m_current_results s = (0, h) # r \<and> host_id h = t" if K: "0 \<in> K"
  proof -
    have "0 < unat n" using assms(3) by (simp add: unat_gt_0)
    then obtain xs where "map fst (m_current_results s) = 0 # xs"
      using i sorted_list_zero [of K "unat n"] K by (auto simp: kad_inv_def closest_def)
    then obtain h r where c: "m_current_results s = (0, h) # r" by (cases "m_current_results s") auto
    then have "xor t (host_id h) = 0" using i by (auto simp: kad_inv_def keyed_by_def)
    then have "host_id h = t" using xor_eq_0_iff [of t "host_id h"] by simp
    then show ?thesis using c by blast
  qed
  then show ?thesis using i h by (auto simp: kad_inv_def hosts_inv_def)
qed

text \<open>
  The filter is undefined for the nodes the search is for. The level of a node is the smaller, and not the
  greater, of 1 and its nearness: for every node within \<open>2 ^ 144\<close> of the target it is not positive, and the weight
  shifts by a negative number of bits. All other nodes have the same level, 1.
\<close>

theorem chunk_filter_near_undefined:
  assumes "log2_ok cr"
  shows "(\<exists>e s'. chunk_filter A cr nid fr s = (Inl (Undefined e), s')) \<longleftrightarrow> unat (xor (m_target s) nid) < 2 ^ 144"
    (is "?U \<longleftrightarrow> ?N")
proof -
  let ?d = "xor (m_target s) nid" and ?l = "big_log2 cr (xor (m_target s) nid)"
  have l: "0 \<le> ?l" "unat ?d < 2 ^ nat ?l" "?d \<noteq> 0 \<Longrightarrow> 0 < ?l \<and> 2 ^ (nat ?l - 1) \<le> unat ?d" "?d = 0 \<Longrightarrow> ?l = 0"
    using assms by (auto simp: log2_ok_def)
  have "?N \<longleftrightarrow> ?l \<le> 144"
  proof
    assume n: ?N
    show "?l \<le> 144"
    proof (cases "?d = 0")
      case False
      then have "(2 :: nat) ^ (nat ?l - 1) < 2 ^ 144" using le_less_trans [of _ "unat ?d"] l(3) n by blast
      then have "nat ?l - 1 < 144" by (rule power_less_imp_less_exp [rotated]) simp
      then show ?thesis by linarith
    qed (use l(4) in auto)
  next
    assume "?l \<le> 144"
    then have "(2 :: nat) ^ nat ?l \<le> 2 ^ 144" by (intro power_increasing) auto
    then show ?N using l(2) by linarith
  qed
  moreover have "?U \<longleftrightarrow> query_level cr ?d < 1"
    using chunk_filter_Inl [of A cr s nid] chunk_filter_Inr [of A cr s nid]
    by (cases "query_weight A (query_level cr ?d)") (auto simp: query_weight_def split: if_splits)
  ultimately show ?thesis by (auto simp: query_level_def min_def)
qed

section \<open>Witnesses\<close>

definition int_fp :: "int fp" where
  "int_fp = \<lparr>fp_add = (+), fp_mul = (*), fp_div = (div), fp_of_int = id\<rparr>"

definition chunk_demo_start :: "int chunk_search" where
  "chunk_demo_start = snd (kad_start kad_demo_env kad_demo_node (chunk_search_new int_fp 5 16 1 1 False))"

lemma chunk_demo_started:
  "kad_start kad_demo_env kad_demo_node (chunk_search_new int_fp 5 16 1 1 False) = (Inr (), chunk_demo_start)"
proof -
  have "find_nodes_near kad_demo_env kad_demo_node 16 1 None = Inr [kad_demo_host]"
    by (simp add: find_nodes_near_def kad_demo_env_def kad_demo_node_def kad_demo_host_def get_bucket_id_for_target_def
        calc_bucket_def get_bucket_def con_init_def Let_def)
  then show ?thesis
    by (simp add: chunk_demo_start_def kad_start_def kad_eval)
qed

lemma chunk_demo_state:
  "chunk_demo_start = (chunk_search_new int_fp 5 16 1 1 False)\<lparr>m_cur_status := kad_searching, m_search_queue := [(19, kad_demo_host)],
     m_pending := [0], m_fibers := [F_loop]\<rparr>"
proof -
  have "find_nodes_near kad_demo_env kad_demo_node 16 1 None = Inr [kad_demo_host]"
    by (simp add: find_nodes_near_def kad_demo_env_def kad_demo_node_def kad_demo_host_def get_bucket_id_for_target_def
        calc_bucket_def get_bucket_def con_init_def Let_def)
  then show ?thesis
    by (simp add: chunk_demo_start_def kad_start_def kad_eval chunk_search_new_def kad_search.defs chunk_search.defs kad_demo_host_def)
qed

abbreviation demo_filter :: "sha1 \<Rightarrow> fetch_response \<Rightarrow> (int chunk_search, unit) cmd" where
  "demo_filter \<equiv> chunk_filter int_fp (demo_crypto\<lparr>big_log2 := (\<lambda>_. 160)\<rparr>)"

lemma chunk_demo_run:
  "\<exists>s. kad_run demo_filter ({}, chunk_demo_start) ({19}, s) \<and> m_cur_status s = kad_done"
proof -
  let ?fr = "fetch_response_new res_available 0"
  let ?s1 = "snd (search_next 0 chunk_demo_start)"
  let ?s2 = "snd (search_connected 0 kad_demo_host (Inr 3) ?s1)"
  let ?s3 = "snd (search_filtered demo_filter 0 kad_demo_host 3 (Inr ?fr) ?s2)"
  note ev = kad_eval chunk_demo_state chunk_search_new_def kad_search.defs chunk_search.defs
  have 1: "kad_step demo_filter ({}, chunk_demo_start) ({}, ?s1)"
    by (rule kad_step.nxt [of 0]) (simp_all add: ev)
  have 2: "kad_step demo_filter ({}, ?s1) ({}, ?s2)"
    by (rule kad_step.conn [of 0 _ kad_demo_host "Inr 3"]) (simp_all add: ev)
  have 3: "kad_step demo_filter ({}, ?s2) (insert (xor (m_target ?s2) 3) {}, ?s3)"
    by (rule kad_step.filtered [of 0 _ kad_demo_host 3 demo_filter ?fr "snd (demo_filter 3 ?fr ?s2)"])
       (simp_all add: ev chunk_filter_def query_level_def query_weight_def fetch_response_new_def whenc_def)
  have "xor (m_target ?s2) 3 = 19" "m_cur_status ?s3 = kad_done"
    by (simp_all add: ev chunk_filter_def query_level_def query_weight_def fetch_response_new_def whenc_def)
  with kad_run.step [OF kad_run.step [OF kad_run.step [OF kad_run.refl 1] 2] 3] show ?thesis by (intro exI [of _ ?s3]) simp
qed

theorem chunk_search_hosts_witness:
  "\<exists>s. kad_run demo_filter ({}, chunk_demo_start) ({19}, s)
     \<and> ((\<exists>h r. m_current_results s = (0, h) # r \<and> host_id h = 16) \<or> 1 \<le> length (m_host_results s))"
proof -
  obtain s where s: "kad_run demo_filter ({}, chunk_demo_start) ({19}, s)" "m_cur_status s = kad_done" using chunk_demo_run by blast
  from chunk_search_hosts [OF chunk_demo_started _ _ s(1)] s show ?thesis by auto
qed

theorem chunk_filter_near_undefined_witness:
  "\<exists>e s'. chunk_filter int_fp demo_crypto 17 (fetch_response_new res_ok 0) chunk_demo_start = (Inl (Undefined e), s')"
proof -
  have "m_target chunk_demo_start = 16"
    using kad_inv_start [OF chunk_demo_started] by (simp add: kad_inv_def)
  then show ?thesis using chunk_filter_near_undefined [OF demo_log2_ok, of int_fp 17 "fetch_response_new res_ok 0" chunk_demo_start]
    by simp
qed

end
