(* ===== verification/Publish_Db.thy ===== *)
theory Publish_Db
  imports Chunk_Db
begin

text \<open>
  The publish database of src/db/publish.cpp: for every chunk the user publishes, when it is to be searched for
  next and on how many hosts it should be. A secondary index orders the records by that time.
\<close>

record publish_record =
  next_update :: u64
  pub_access_interval :: u64
  host_count :: u32
  desired_host_count :: u32

definition publish_new :: "u64 \<Rightarrow> u64 \<Rightarrow> u32 \<Rightarrow> u32 \<Rightarrow> publish_record" where
  "publish_new nu ai hc dhc = \<lparr>next_update = nu, pub_access_interval = ai, host_count = hc, desired_host_count = dhc\<rparr>"

type_synonym 'h publish_bdb = "('h, publish_record) bdb"

text \<open>The secondary key is the first field of the record, which the index compares as a signed number.\<close>

definition get_publish_next :: "publish_record \<Rightarrow> int" where
  "get_publish_next r = sint (next_update r)"

section \<open>Operations\<close>

definition publish_exists :: "'h publish_bdb \<Rightarrow> 'h \<Rightarrow> sha1 \<Rightarrow> bool" where
  "publish_exists B h cid = (db_get B h (sha1_data cid) \<noteq> None)"

text \<open>As in the peer database, the key of \<open>fetch\<close> has no size; a record found would have no memory to go to.\<close>

definition publish_fetch :: "'h publish_bdb \<Rightarrow> 'h \<Rightarrow> sha1 \<Rightarrow> publish_record \<Rightarrow> (bool \<times> publish_record) res" where
  "publish_fetch B h cid r =
     (case db_get B h (take 0 (sha1_data cid)) of
        None \<Rightarrow> Inr (False, r)
      | Some v \<Rightarrow> Inl (Undefined ''value copied to a null pointer''))"

definition publish_store :: "'h publish_bdb \<Rightarrow> sha1 \<Rightarrow> publish_record \<Rightarrow> ('h, bool) cmd" where
  "publish_store B cid m h =
     (let ex = publish_exists B h cid in
      case db_put B h (sha1_data cid) m of
        None \<Rightarrow> (Inl (Throw ''DbException''), h)
      | Some h' \<Rightarrow>
          if db_recs B h' = [] then (Inl (Throw ''couldn't find key we just put in db''), h')
          else (Inr True, h'))"

definition publish_fetch_next :: "'h publish_bdb \<Rightarrow> 'h \<Rightarrow> (sha1 \<times> publish_record) option" where
  "publish_fetch_next B h = (case db_index B h of [] \<Rightarrow> None | (k, r) # _ \<Rightarrow> Some (of_le_bytes k, r))"

definition publish_fetch_index :: "'h publish_bdb \<Rightarrow> 'h \<Rightarrow> u32 \<Rightarrow> (sha1 \<times> publish_record) option" where
  "publish_fetch_index B h recnum =
     (let rs = db_recs B h; n = unat recnum in
      if n = 0 then None
      else if n \<le> length rs then Some (of_le_bytes (fst (rs ! (n - 1))), snd (rs ! (n - 1)))
      else None)"

definition publish_count :: "'h publish_bdb \<Rightarrow> 'h \<Rightarrow> u32" where
  "publish_count B h = of_nat (length (db_recs B h))"

section \<open>Laws\<close>

definition next_index_ok :: "'h publish_bdb \<Rightarrow> bool" where
  "next_index_ok B \<longleftrightarrow>
     (\<forall>h. sorted_wrt (\<lambda>a b. compare_i64 (get_publish_next (snd a)) (get_publish_next (snd b)) \<le> 0) (db_index B h))"

text \<open>Every record lies under the 20 bytes of a chunk id: the records are a map from chunks.\<close>

definition published :: "'h publish_bdb \<Rightarrow> 'h \<Rightarrow> sha1 \<Rightarrow> publish_record option" where
  "published B h cid = db_get B h (sha1_data cid)"

definition publish_inv :: "'h publish_bdb \<Rightarrow> 'h \<Rightarrow> bool" where
  "publish_inv B h \<longleftrightarrow> (\<forall>k r. db_get B h k = Some r \<longrightarrow> (\<exists>cid. k = sha1_data cid))"

lemma sha1_data_id [simp]: "of_le_bytes (sha1_data cid) = cid"
  by (simp add: sha1_data_def of_le_bytes_20)

lemma sha1_data_inject [simp]: "sha1_data a = sha1_data b \<longleftrightarrow> a = b"
  by (metis sha1_data_id)

lemma publish_store_Inr:
  assumes "bdb_ok B" "publish_inv B h" "publish_store B cid m h = (Inr b, h')"
  shows "publish_inv B h' \<and> published B h' = (published B h)(cid \<mapsto> m)"
proof -
  have "db_get B h' = (db_get B h)(sha1_data cid \<mapsto> m)"
    using assms(3) bdb_okD(1) [OF assms(1), of h "sha1_data cid" m]
    by (auto simp: publish_store_def Let_def split: option.splits if_splits)
  then show ?thesis using assms(2) by (auto simp: publish_inv_def published_def fun_eq_iff)
qed

lemma publish_next_cases:
  assumes "bdb_ok B" "next_index_ok B" "publish_inv B h"
  shows "(case publish_fetch_next B h of
      None \<Rightarrow> published B h = Map.empty
    | Some (cid, r) \<Rightarrow> published B h cid = Some r
        \<and> (\<forall>cid' r'. published B h cid' = Some r' \<longrightarrow> get_publish_next r \<le> get_publish_next r'))"
proof (cases "db_index B h")
  case Nil
  then have "db_recs B h = []" using bdb_okD(4) [OF assms(1), of h] by simp
  then have "db_get B h k = None" for k using bdb_okD(2) [OF assms(1), of k _ h] by (cases "db_get B h k") auto
  then show ?thesis using Nil by (simp add: publish_fetch_next_def published_def fun_eq_iff)
next
  case (Cons e es)
  obtain k r where e: "e = (k, r)" by fastforce
  have mem: "(k', r') \<in> set (db_index B h) \<longleftrightarrow> db_get B h k' = Some r'" for k' r'
    using bdb_okD(2,4) [OF assms(1)] by simp
  have g: "db_get B h k = Some r" using mem [of k r] Cons e by simp
  then obtain cid where k: "k = sha1_data cid" using assms(3) by (auto simp: publish_inv_def)
  have "get_publish_next r \<le> get_publish_next r'" if "published B h cid' = Some r'" for cid' r'
  proof -
    have "(sha1_data cid', r') \<in> set (e # es)" using that mem Cons by (simp add: published_def)
    moreover have "get_publish_next r \<le> get_publish_next (snd x)" if "x \<in> set es" for x
      using assms(2) [unfolded next_index_ok_def, rule_format, of h] Cons e that by simp
    ultimately show ?thesis using e by (metis order_refl set_ConsD snd_conv)
  qed
  then show ?thesis using Cons e g k by (auto simp: publish_fetch_next_def published_def)
qed

text \<open>A sequence of turns, with the chunks they took: the next entry is looked at and put back with a time thirty
  seconds after the moment.\<close>

inductive turns ::
  "('q \<Rightarrow> (sha1 \<times> publish_record) option) \<Rightarrow> (sha1 \<Rightarrow> publish_record \<Rightarrow> 'q \<Rightarrow> 'q \<Rightarrow> bool) \<Rightarrow> int \<Rightarrow> 'q \<Rightarrow> sha1 list \<Rightarrow> int \<Rightarrow> 'q \<Rightarrow> bool"
  for nxt res where
  start: "turns nxt res T q [] T q"
| turn: "turns nxt res T0 q cs T q' \<Longrightarrow> nxt q' = Some (cid, r) \<Longrightarrow> res cid r' q' q'' \<Longrightarrow> T < T'
    \<Longrightarrow> get_publish_next r' = T' + 30000000 \<Longrightarrow> turns nxt res T0 q (cs @ [cid]) T' q''"

text \<open>An interface: a queue of published chunks in which the next one to look at is one with the least time.\<close>

locale publish_queue =
  fixes entries :: "'q \<Rightarrow> sha1 \<Rightarrow> publish_record option"
    and next_entry :: "'q \<Rightarrow> (sha1 \<times> publish_record) option"
    and reschedule :: "sha1 \<Rightarrow> publish_record \<Rightarrow> 'q \<Rightarrow> 'q \<Rightarrow> bool"
    and ok :: "'q \<Rightarrow> bool"
  assumes next_None: "ok q \<Longrightarrow> next_entry q = None \<Longrightarrow> entries q = Map.empty"
    and next_Some: "ok q \<Longrightarrow> next_entry q = Some (cid, r) \<Longrightarrow> entries q cid = Some r"
    and next_least: "ok q \<Longrightarrow> next_entry q = Some (cid, r) \<Longrightarrow> entries q c = Some v \<Longrightarrow> get_publish_next r \<le> get_publish_next v"
    and reschedule_ok: "ok q \<Longrightarrow> reschedule cid r q q' \<Longrightarrow> ok q'"
    and reschedule_entries: "ok q \<Longrightarrow> reschedule cid r q q' \<Longrightarrow> entries q' = (entries q)(cid \<mapsto> r)"
begin

lemma turns_inv:
  assumes "turns next_entry reschedule T q cs T' q'" "ok q" "\<forall>c v. entries q c = Some v \<longrightarrow> get_publish_next v \<le> T + 30000000"
  shows "ok q' \<and> T \<le> T' \<and> dom (entries q') = dom (entries q) \<and> set cs \<subseteq> dom (entries q)
    \<and> (\<forall>c v. entries q' c = Some v \<longrightarrow> get_publish_next v \<le> T' + 30000000)
    \<and> (\<forall>c. c \<notin> set cs \<longrightarrow> entries q' c = entries q c)
    \<and> (\<forall>c v. c \<in> set cs \<longrightarrow> entries q' c = Some v \<longrightarrow> T + 30000000 < get_publish_next v)
    \<and> (distinct cs \<or> set cs = dom (entries q))"
  using assms
proof (induction rule: turns.induct)
  case (turn T0 q cs T q' cid r r' q'' T')
  note ih = turn.IH [OF turn.prems]
  have okq: "ok q'" using ih by blast
  have cid: "entries q' cid = Some r" using next_Some [OF okq turn.hyps(2)] .
  have e: "entries q'' = (entries q')(cid \<mapsto> r')" using reschedule_entries [OF okq turn.hyps(3)] .
  have "set cs = dom (entries q)" if "cid \<in> set cs"
  proof (rule ccontr)
    assume "set cs \<noteq> dom (entries q)"
    then obtain c where c: "c \<in> dom (entries q)" "c \<notin> set cs" using ih by blast
    then obtain v where v: "entries q c = Some v" by blast
    then have "get_publish_next r \<le> get_publish_next v"
      using next_least [OF okq turn.hyps(2), of c v] ih c(2) by metis
    moreover have "get_publish_next v \<le> T0 + 30000000" using turn.prems(2) v by blast
    moreover have "T0 + 30000000 < get_publish_next r" using ih that cid by blast
    ultimately show False by linarith
  qed
  moreover have c: "cid \<in> dom (entries q)" using ih cid by blast
  ultimately have 8: "distinct (cs @ [cid]) \<or> set (cs @ [cid]) = dom (entries q)"
    using ih by (metis distinct.simps distinct_append insert_absorb list.simps(15) set_append Un_insert_right append.right_neutral
        distinct1_rotate rotate1.simps(2) set_rotate1)
  have 3: "dom (entries q'') = dom (entries q)" using ih c unfolding e by (metis dom_fun_upd insert_absorb option.distinct(1))
  have 5: "get_publish_next v \<le> T' + 30000000" if "entries q'' c = Some v" for c v
  proof (cases "c = cid")
    case False
    then have "get_publish_next v \<le> T + 30000000" using ih that unfolding e by (metis fun_upd_apply)
    then show ?thesis using turn.hyps(4) by linarith
  qed (use that e turn.hyps(5) in simp)
  have 7: "T0 + 30000000 < get_publish_next v" if "c \<in> set (cs @ [cid])" "entries q'' c = Some v" for c v
  proof (cases "c = cid")
    case True
    then show ?thesis using that(2) e turn.hyps(4,5) ih by simp
  next
    case False
    then show ?thesis using that ih unfolding e by (metis Un_iff empty_iff fun_upd_apply list.set(1) set_ConsD set_append)
  qed
  have 6: "entries q'' c = entries q c" if "c \<notin> set (cs @ [cid])" for c using that ih unfolding e by simp
  have 2: "T0 \<le> T'" using ih turn.hyps(4) by linarith
  have 4: "set (cs @ [cid]) \<subseteq> dom (entries q)" using ih c by simp
  show ?case using reschedule_ok [OF okq turn.hyps(3)] 2 3 4 5 6 7 8 by blast
qed auto

lemma turn_for_everyone:
  assumes "turns next_entry reschedule T q cs T' q'" "ok q" "\<forall>c v. entries q c = Some v \<longrightarrow> get_publish_next v \<le> T + 30000000"
    "finite (dom (entries q))" "card (dom (entries q)) \<le> length cs"
  shows "set cs = dom (entries q)"
proof -
  note i = turns_inv [OF assms(1-3)]
  have "set cs = dom (entries q)" if "distinct cs"
  proof (rule card_subset_eq [OF assms(4)])
    show sub: "set cs \<subseteq> dom (entries q)" using i by blast
    show "card (set cs) = card (dom (entries q))"
      using card_mono [OF assms(4) sub] distinct_card [OF that] assms(5) by simp
  qed
  then show ?thesis using i by blast
qed

end

interpretation pubq: publish_queue "published B" "publish_fetch_next B" "\<lambda>cid r h h'. publish_store B cid r h = (Inr True, h')"
  "\<lambda>h. bdb_ok B \<and> next_index_ok B \<and> publish_inv B h" for B
proof (unfold_locales, goal_cases)
  case (1 q)
  then show ?case using publish_next_cases [of B q] by simp
next
  case (2 q cid r)
  then show ?case using publish_next_cases [of B q] by simp
next
  case (3 q cid r c v)
  then show ?case using publish_next_cases [of B q] by simp
next
  case (4 q cid r q')
  then show ?case using publish_store_Inr [of B q cid r True q'] by blast
next
  case (5 q cid r q')
  then show ?case using publish_store_Inr [of B q cid r True q'] by blast
qed

end
