(* ===== verification/Raw.thy ===== *)
theory Raw
  imports Tornet_Prelude
begin

text \<open>
  The serialisation the services use (rpc/raw.hpp): integers as they lie in memory, lengths as variable-length
  integers, containers as a length and their elements, a reflected structure as its members one after the other. What is packed
  is a list of bytes; unpacking takes bytes from a stream, of which only what is still to come
  matters here, and throws when nothing is left. The locale \<open>raw_codec\<close> is the contract of a pair of \<open>pack\<close> and \<open>unpack\<close>: the
  round trip, and that a packed value cut short is noticed.
\<close>

unbundle bit_operations_syntax

type_synonym 'a unpacker = "(byte list, 'a) cmd"

definition st_get :: "byte unpacker" where
  "st_get s = (case s of [] \<Rightarrow> (Inl (Throw ''end of stream''), []) | b # r \<Rightarrow> (Inr b, r))"

definition st_read :: "nat \<Rightarrow> byte list unpacker" where
  "st_read n s = (if n \<le> length s then (Inr (take n s), drop n s) else (Inl (Throw ''end of stream''), []))"

section \<open>Integers of variable length\<close>

function pack_uint :: "u64 \<Rightarrow> byte list" where
  "pack_uint v =
     (let b = ucast v AND 0x7f; v' = drop_bit 7 v in
      if v' > 0 then (b OR 0x80) # pack_uint v' else [b])"
  by auto

termination
proof (relation "measure unat", goal_cases)
  case (2 v b v')
  then have "0 < unat v div 128" by (simp add: word_less_nat_alt drop_bit_eq_div unat_div)
  then show ?case using 2 by (simp add: drop_bit_eq_div unat_div)
qed simp

declare pack_uint.simps [simp del]

definition pack_unsigned :: "u32 \<Rightarrow> byte list" where
  "pack_unsigned v = pack_uint (ucast v)"

text \<open>The shift is one of a 32-bit value; by 32 or more it is undefined.\<close>

fun unpack_uint :: "u64 \<Rightarrow> byte \<Rightarrow> u64 unpacker" where
  "unpack_uint v sh [] = (Inl (Throw ''end of stream''), [])"
| "unpack_uint v sh (b # r) =
     (if unat sh \<ge> 32 then (Inl (Undefined ''shift past the width''), r)
      else
        let v' = v OR ucast (push_bit (unat sh) (ucast (b AND 0x7f) :: u32)) in
        if b AND 0x80 \<noteq> 0 then unpack_uint v' (sh + 7) r else (Inr v', r))"

definition unpack_unsigned :: "u32 unpacker" where
  "unpack_unsigned = bindc (unpack_uint 0 0) (\<lambda>v. ret (ucast v))"

text \<open>Signed numbers: the sign goes to the lowest bit.\<close>

definition zigzag :: "u32 \<Rightarrow> u32" where
  "zigzag v = push_bit 1 v XOR signed_drop_bit 31 v"

definition unzigzag :: "u32 \<Rightarrow> u32" where
  "unzigzag v =
     (let x = (drop_bit 1 v XOR drop_bit 31 v) + (v AND 1); y = (if v AND 1 \<noteq> 0 then x else - x) in - y)"

definition pack_signed :: "u32 \<Rightarrow> byte list" where
  "pack_signed v = pack_uint (ucast (zigzag v))"

definition unpack_signed :: "u32 unpacker" where
  "unpack_signed = bindc (unpack_uint 0 0) (\<lambda>v. ret (unzigzag (ucast v)))"

section \<open>Plain data, bytes and containers\<close>

definition pack_pod :: "nat \<Rightarrow> 'w::len word \<Rightarrow> byte list" where
  "pack_pod n w = le_bytes n w"

definition unpack_pod :: "nat \<Rightarrow> 'w::len word unpacker" where
  "unpack_pod n = bindc (st_read n) (\<lambda>bs. ret (of_le_bytes bs))"

definition pack_bytes :: "byte list \<Rightarrow> byte list" where
  "pack_bytes bs = pack_unsigned (of_nat (length bs)) @ bs"

definition unpack_bytes :: "byte list unpacker" where
  "unpack_bytes = bindc unpack_unsigned (\<lambda>n. st_read (unat n))"

fun pack_each :: "('a \<Rightarrow> byte list) \<Rightarrow> 'a list \<Rightarrow> byte list" where
  "pack_each enc [] = []"
| "pack_each enc (x # xs) = enc x @ pack_each enc xs"

definition pack_list :: "('a \<Rightarrow> byte list) \<Rightarrow> 'a list \<Rightarrow> byte list" where
  "pack_list enc xs = pack_unsigned (of_nat (length xs)) @ pack_each enc xs"

fun unpack_each :: "'a unpacker \<Rightarrow> nat \<Rightarrow> 'a list unpacker" where
  "unpack_each dec 0 = ret []"
| "unpack_each dec (Suc n) = bindc dec (\<lambda>x. bindc (unpack_each dec n) (\<lambda>xs. ret (x # xs)))"

definition unpack_list :: "'a unpacker \<Rightarrow> 'a list unpacker" where
  "unpack_list dec = bindc unpack_unsigned (\<lambda>n. unpack_each dec (unat n))"

definition pack_pair :: "('a \<Rightarrow> byte list) \<Rightarrow> ('b \<Rightarrow> byte list) \<Rightarrow> 'a \<times> 'b \<Rightarrow> byte list" where
  "pack_pair f g p = f (fst p) @ g (snd p)"

definition unpack_pair :: "'a unpacker \<Rightarrow> 'b unpacker \<Rightarrow> ('a \<times> 'b) unpacker" where
  "unpack_pair f g = bindc f (\<lambda>a. bindc g (\<lambda>b. ret (a, b)))"

definition pack_optional :: "('a \<Rightarrow> byte list) \<Rightarrow> 'a option \<Rightarrow> byte list" where
  "pack_optional enc v = (case v of None \<Rightarrow> pack_pod 1 (0 :: byte) | Some x \<Rightarrow> pack_pod 1 (1 :: byte) @ enc x)"

definition unpack_optional :: "'a unpacker \<Rightarrow> 'a option unpacker" where
  "unpack_optional dec = bindc (unpack_pod 1) (\<lambda>b :: byte. if b \<noteq> 0 then bindc dec (\<lambda>x. ret (Some x)) else ret None)"

section \<open>The contract\<close>

definition decodes :: "'a unpacker \<Rightarrow> 'a \<Rightarrow> byte list \<Rightarrow> bool" where
  "decodes dec x bs \<longleftrightarrow> (\<forall>r. dec (bs @ r) = (Inr x, r)) \<and>
     (\<forall>p q. bs = p @ q \<and> q \<noteq> [] \<longrightarrow> (\<exists>t s. dec p = (Inl (Throw t), s)))"

lemma decodesD: "decodes dec x bs \<Longrightarrow> dec (bs @ r) = (Inr x, r)"
  by (simp add: decodes_def)

lemma decodes_cut: "decodes dec x (p @ q) \<Longrightarrow> q \<noteq> [] \<Longrightarrow> \<exists>t s. dec p = (Inl (Throw t), s)"
  by (auto simp: decodes_def)

lemma decodes_bind:
  assumes "decodes f a bs" "decodes (g a) b cs"
  shows "decodes (bindc f g) b (bs @ cs)"
  unfolding decodes_def
proof (intro conjI allI impI)
  fix r show "bindc f g ((bs @ cs) @ r) = (Inr b, r)"
    using decodesD [OF assms(1), of "cs @ r"] decodesD [OF assms(2), of r] by (simp add: bindc_def)
next
  fix p q assume pq: "bs @ cs = p @ q \<and> q \<noteq> []"
  show "\<exists>t s. bindc f g p = (Inl (Throw t), s)"
  proof -
    consider us where "bs = p @ us" "us \<noteq> []" | us where "p = bs @ us" "cs = us @ q"
      using pq append_eq_append_conv2 [of bs cs p q] by (metis append.right_neutral append_Nil)
    then show ?thesis
    proof cases
      case 1
      then show ?thesis using decodes_cut [of f a p us] assms(1) by (auto simp: bindc_def)
    next
      case 2
      then show ?thesis using decodesD [OF assms(1), of us] decodes_cut [of "g a" b us q] assms(2) pq by (auto simp: bindc_def)
    qed
  qed
qed

lemma decodes_ret: "decodes (ret x) x []"
  by (simp add: decodes_def ret_def)

lemma decodes_map: "decodes dec x bs \<Longrightarrow> decodes (bindc dec (\<lambda>v. ret (f v))) (f x) bs"
  using decodes_bind [of dec x bs "\<lambda>v. ret (f v)" "f x" "[]"] by (simp add: decodes_ret)

lemma decodes_read: "decodes (st_read n) bs bs" if "length bs = n"
  using that by (auto simp: decodes_def st_read_def)

lemma decodes_pod:
  assumes "LENGTH('w::len) \<le> 8 * n"
  shows "decodes (unpack_pod n) (w :: 'w word) (pack_pod n w)"
  using decodes_map [OF decodes_read [of "le_bytes n w" n], of "of_le_bytes :: byte list \<Rightarrow> 'w word"] of_le_bytes_le_bytes [OF assms]
  by (simp add: unpack_pod_def pack_pod_def)

section \<open>Variable-length integers read back\<close>

lemma seven_bits:
  fixes V :: u64
  assumes "take_bit 32 V = V" "k < 32"
  shows "take_bit k V OR ucast (push_bit k (ucast ((ucast (drop_bit k V) :: byte) AND 0x7f) :: u32)) = take_bit (k + 7) V"
proof (rule bit_word_eqI)
  fix n assume n: "n < LENGTH(64)"
  have hi: "bit V n \<Longrightarrow> n < 32" using assms(1) by (metis bit_take_bit_iff)
  have m: "(0x7f :: byte) = mask 7" by (simp add: mask_eq_exp_minus_1)
  show "bit (take_bit k V OR ucast (push_bit k (ucast ((ucast (drop_bit k V) :: byte) AND 0x7f) :: u32))) n = bit (take_bit (k + 7) V) n"
    unfolding m using n hi
    by (auto simp: bit_or_iff bit_take_bit_iff bit_unsigned_iff bit_push_bit_iff bit_and_iff bit_mask_iff bit_drop_bit_eq)
qed

lemma cont_bit:
  "((b AND 0x7f) OR 0x80) AND 0x80 \<noteq> (0 :: byte)" "((b AND 0x7f) OR 0x80) AND 0x7f = (b :: byte) AND 0x7f"
  "(b AND 0x7f) AND 0x80 = (0 :: byte)"
proof -
  have m: "bit (0x7f :: byte) n \<longleftrightarrow> n < 7" for n
    using bit_mask_iff [of 7 n, where ?'a = byte] by (auto simp: mask_eq_exp_minus_1)
  have p: "bit (0x80 :: byte) n \<longleftrightarrow> n = 7" for n
    using bit_exp_iff [of 7 n, where ?'a = byte] by auto
  have "bit (((b AND 0x7f) OR 0x80) AND 0x80) 7" by (simp only: bit_and_iff bit_or_iff m p simp_thms)
  then show "((b AND 0x7f) OR 0x80) AND 0x80 \<noteq> (0 :: byte)" by (metis bit_0_eq bot_apply bot_bool_def)
  show "((b AND 0x7f) OR 0x80) AND 0x7f = b AND 0x7f" "(b AND 0x7f) AND 0x80 = 0"
    by (rule bit_word_eqI, simp only: bit_and_iff bit_or_iff m p bit_0_eq, auto)+
qed

lemma decodes_Cons:
  assumes "\<And>x. dec (c # x) = dec' x" "\<exists>t s. dec [] = (Inl (Throw t), s)" "decodes dec' v bs"
  shows "decodes dec v (c # bs)"
  unfolding decodes_def
proof (intro conjI allI impI)
  fix p q assume "c # bs = p @ q \<and> q \<noteq> []"
  then show "\<exists>t s. dec p = (Inl (Throw t), s)"
    using assms decodes_cut [of dec' v _ q] by (cases p) auto
qed (use assms decodesD in auto)

lemma decodes_stop: "dec [] = (Inl (Throw t), s) \<Longrightarrow> (\<And>r. dec (c # r) = (Inr v, r)) \<Longrightarrow> decodes dec v [c]"
  by (auto simp: decodes_def Cons_eq_append_conv)

lemma unpack_uint_pack:
  fixes V :: u64
  assumes "take_bit 32 V = V" "k < 32" "w = drop_bit k V" "sh = of_nat k"
  shows "decodes (unpack_uint (take_bit k V) sh) V (pack_uint w)"
  using assms
proof (induction w arbitrary: k sh rule: pack_uint.induct)
  case (1 w)
  let ?b = "(ucast w :: byte) AND 0x7f"
  have k: "unat sh = k" using 1(3,5) by (simp add: unat_of_nat)
  have s: "take_bit k V OR ucast (push_bit k (ucast ?b :: u32)) = take_bit (k + 7) V"
    using seven_bits [OF 1(2,3)] 1(4) by simp
  have d: "drop_bit 7 w = drop_bit (k + 7) V" using 1(4) by (simp add: add.commute)
  show ?case
  proof (cases "drop_bit 7 w > 0")
    case True
    have "k + 7 < 32"
    proof (rule ccontr)
      assume "\<not> k + 7 < 32"
      then have "drop_bit (k + 7) V = 0" using drop_bit_take_bit [of "k + 7" 32 V] \<open>take_bit 32 V = V\<close> by simp
      then show False using True d by simp
    qed
    then have "decodes (unpack_uint (take_bit (k + 7) V) (sh + 7)) V (pack_uint (drop_bit 7 w))"
      using 1(1) [OF refl refl True 1(2) _ d] 1(5) by simp
    then show ?thesis unfolding pack_uint.simps [of w] Let_def if_P [OF True]
      by (rule decodes_Cons [rotated 2]) (use 1(3) k s cont_bit in \<open>simp_all add: Let_def\<close>)
  next
    case False
    then have "drop_bit (k + 7) V = 0" using d by (simp add: word_gt_0)
    then have "take_bit (k + 7) V = V" using bits_ident [of "k + 7" V] by simp
    then show ?thesis unfolding pack_uint.simps [of w] Let_def if_not_P [OF False]
      by (intro decodes_stop) (use 1(3) k s cont_bit in \<open>simp_all add: Let_def\<close>)
  qed
qed

lemma decodes_uint: "take_bit 32 V = V \<Longrightarrow> decodes (unpack_uint 0 0) V (pack_uint V)"
  using unpack_uint_pack [of V 0 V 0] by simp

lemma ucast_back: "(ucast (ucast (v :: u32) :: u64) :: u32) = v"
  by (rule bit_word_eqI) (auto simp: bit_unsigned_iff)

lemma decodes_unsigned: "decodes unpack_unsigned v (pack_unsigned v)"
proof -
  have "take_bit 32 (ucast v :: u64) = ucast v" by (rule bit_word_eqI) (auto simp: bit_take_bit_iff bit_unsigned_iff dest: bit_imp_le_length)
  from decodes_map [OF decodes_uint [OF this], of "ucast :: u64 \<Rightarrow> u32"] show ?thesis
    by (simp add: unpack_unsigned_def pack_unsigned_def ucast_back)
qed

lemma bit_past_31: "bit (z :: u32) (31 + n) \<longleftrightarrow> n = 0 \<and> bit z 31"
  by (cases n) (auto dest: bit_imp_le_length)

lemma signed_shift: "signed_drop_bit 31 (v :: u32) = (if bit v 31 then - 1 else 0)"
  by (rule bit_word_eqI) (auto simp: bit_signed_drop_bit_iff bit_past_31)

lemma top_bit: "drop_bit 31 (z :: u32) = (if bit z 31 then 1 else 0)"
  by (rule bit_word_eqI) (auto simp: bit_drop_bit_eq bit_1_iff bit_past_31)

lemma zigzag_bits: "bit (zigzag v) n \<longleftrightarrow> n < 32 \<and> (if n = 0 then bit v 31 else bit v (n - 1) \<noteq> bit v 31)"
proof -
  have "bit (push_bit 1 v) n \<longleftrightarrow> n < 32 \<and> n \<noteq> 0 \<and> bit v (n - 1)" by (simp only: bit_push_bit_iff) auto
  moreover have "bit (if bit v 31 then - 1 else 0 :: u32) n \<longleftrightarrow> bit v 31 \<and> n < 32" by auto
  ultimately show ?thesis unfolding zigzag_def signed_shift bit_xor_iff by auto
qed

lemma xor_one: "(x :: u32) XOR 1 \<noteq> x"
proof -
  have "bit (x XOR 1) 0 \<noteq> bit x 0" by (simp only: bit_xor_iff bit_1_iff) simp
  then show ?thesis by metis
qed

lemma neg_shift: "- a - 1 = v \<longleftrightarrow> a = - v - (1 :: u32)"
proof -
  have "- (- a - 1) - 1 = a" "- (- v - 1) - 1 = v" by simp_all
  then show ?thesis by metis
qed

lemma unzigzag_zigzag: "unzigzag (zigzag v) = v \<longleftrightarrow> bit v 30 = bit v 31"
proof -
  let ?z = "zigzag v"
  have t: "drop_bit 31 ?z = (if bit v 30 = bit v 31 then 0 else 1)" by (simp add: top_bit zigzag_bits)
  have one: "?z AND 1 = (if bit v 31 then 1 else 0)"
    by (rule bit_word_eqI) (auto simp: bit_and_iff bit_1_iff zigzag_bits)
  show ?thesis
  proof (cases "bit v 31")
    case False
    have "n < 31" if "n < 32" "bit v n" for n using that False by (cases "n = 31") auto
    then have "drop_bit 1 ?z = v"
      by (intro bit_word_eqI) (use False in \<open>auto simp: bit_drop_bit_eq zigzag_bits\<close>)
    then show ?thesis using False by (simp add: unzigzag_def one t Let_def xor_one)
  next
    case True
    have "n < 31" if "n < 32" "\<not> bit v n" for n using that True by (cases "n = 31") auto
    then have "drop_bit 1 ?z = NOT v"
      by (intro bit_word_eqI) (use True in \<open>auto simp: bit_drop_bit_eq zigzag_bits bit_not_iff\<close>)
    then show ?thesis using True by (auto simp: unzigzag_def one t Let_def not_eq_complement neg_shift xor_one)
  qed
qed

lemma bit_sint_min: "bit (sint (v :: u32)) n = bit v (min n 31)"
  by (auto simp: bit_sint_iff min_def not_le dest: bit_imp_le_length)

lemma sint_range30: "- (2 ^ 30) \<le> sint v \<and> sint v < 2 ^ 30 \<longleftrightarrow> bit v 30 = bit (v :: u32) 31"
proof -
  have "- (2 ^ 30) \<le> sint v \<and> sint v < 2 ^ 30 \<longleftrightarrow> signed_take_bit 30 (sint v) = sint v"
    by (simp only: signed_take_bit_int_eq_self_iff)
  also have "\<dots> \<longleftrightarrow> (\<forall>n. bit v (min (min 30 n) 31) = bit v (min n 31))"
    by (simp add: bit_eq_iff bit_signed_take_bit_iff bit_sint_min)
  also have "\<dots> \<longleftrightarrow> bit v 30 = bit v 31"
  proof
    assume "\<forall>n. bit v (min (min 30 n) 31) = bit v (min n 31)"
    from spec [OF this, of 31] show "bit v 30 = bit v 31" by simp
  next
    assume e: "bit v 30 = bit v 31"
    have "bit v (min (min 30 n) 31) = bit v (min n 31)" for n
      using e by (cases "n \<le> 30"; cases "n = 31") (auto simp: min_def)
    then show "\<forall>n. bit v (min (min 30 n) 31) = bit v (min n 31)" ..
  qed
  finally show ?thesis .
qed

section \<open>Containers read back\<close>

definition fits32 :: "nat \<Rightarrow> bool" where
  "fits32 n \<longleftrightarrow> n < 2 ^ 32"

lemma decodes_bytes: "fits32 (length bs) \<Longrightarrow> decodes unpack_bytes bs (pack_bytes bs)"
  unfolding unpack_bytes_def pack_bytes_def
  by (rule decodes_bind [OF decodes_unsigned]) (simp add: decodes_read unat_of_nat take_bit_nat_eq_self fits32_def)

lemma decodes_each:
  "(\<And>x. x \<in> set xs \<Longrightarrow> decodes dec x (enc x)) \<Longrightarrow> decodes (unpack_each dec (length xs)) xs (pack_each enc xs)"
proof (induction xs)
  case (Cons x xs)
  then show ?case by (auto intro!: decodes_bind decodes_map)
qed (simp add: decodes_ret)

lemma decodes_list:
  assumes "fits32 (length xs)" "\<And>x. x \<in> set xs \<Longrightarrow> decodes dec x (enc x)"
  shows "decodes (unpack_list dec) xs (pack_list enc xs)"
  unfolding unpack_list_def pack_list_def
  by (rule decodes_bind [OF decodes_unsigned])
     (use decodes_each [of xs dec enc] assms in \<open>simp add: unat_of_nat take_bit_nat_eq_self fits32_def\<close>)

lemma decodes_pair:
  "decodes f (fst p) (a (fst p)) \<Longrightarrow> decodes g (snd p) (b (snd p)) \<Longrightarrow> decodes (unpack_pair f g) p (pack_pair a b p)"
  unfolding unpack_pair_def pack_pair_def
  using decodes_bind [of f "fst p" "a (fst p)" "\<lambda>x. bindc g (\<lambda>y. ret (x, y))" "(fst p, snd p)" "b (snd p)"]
    decodes_map [of g "snd p" "b (snd p)" "\<lambda>v. (fst p, v)"] by simp

locale raw_codec =
  fixes enc :: "'a \<Rightarrow> byte list" and dec :: "'a unpacker" and ok :: "'a \<Rightarrow> bool"
  assumes decodes_enc: "ok x \<Longrightarrow> decodes dec x (enc x)"
begin

lemma unpack_pack: "ok x \<Longrightarrow> dec (enc x @ r) = (Inr x, r)"
  using decodesD [OF decodes_enc] .

lemma unpack_cut: "ok x \<Longrightarrow> enc x = p @ q \<Longrightarrow> q \<noteq> [] \<Longrightarrow> \<exists>t s. dec p = (Inl (Throw t), s)"
  using decodes_cut [of dec x p q] decodes_enc [of x] by simp

lemma pack_prefix_free:
  assumes "ok x" "ok y" "enc x @ r = enc y @ q"
  shows "x = y \<and> r = q"
  using unpack_pack [OF assms(1), of r] unpack_pack [OF assms(2), of q] assms(3)
  by (metis prod.inject sum.inject(2))

lemma list_codec: "fits32 (length xs) \<Longrightarrow> \<forall>x \<in> set xs. ok x \<Longrightarrow> decodes (unpack_list dec) xs (pack_list enc xs)"
  by (intro decodes_list decodes_enc) auto

end

interpretation uint_codec: raw_codec pack_unsigned unpack_unsigned "\<lambda>_. True"
  by unfold_locales (rule decodes_unsigned)

interpretation bytes_codec: raw_codec pack_bytes unpack_bytes "\<lambda>bs. fits32 (length bs)"
  by unfold_locales (rule decodes_bytes)

section \<open>Round trip\<close>

text \<open>
  A signed number packed with its sign in the lowest bit is read back as it was exactly if it is at
  least \<open>- 2 ^ 30\<close> and less than \<open>2 ^ 30\<close>: the reader adds the highest bit of the packed number where the sign should go.
  An unsigned number is always read back, and so is every byte string of less than \<open>2 ^ 32\<close> bytes.
\<close>

theorem raw_integers_roundtrip:
  "(unpack_signed (pack_signed v @ r) = (Inr v, r) \<longleftrightarrow> - (2 ^ 30) \<le> sint v \<and> sint v < 2 ^ 30)
   \<and> unpack_unsigned (pack_unsigned w @ r) = (Inr w, r)
   \<and> (length bs < 2 ^ 32 \<longrightarrow> unpack_bytes (pack_bytes bs @ r) = (Inr bs, r))"
proof -
  have "take_bit 32 (ucast (zigzag v) :: u64) = ucast (zigzag v)"
    by (rule bit_word_eqI) (auto simp: bit_take_bit_iff bit_unsigned_iff dest: bit_imp_le_length)
  from decodes_map [OF decodes_uint [OF this], of "\<lambda>x. unzigzag (ucast x)"]
  have "unpack_signed (pack_signed v @ r) = (Inr (unzigzag (zigzag v)), r)"
    by (simp add: unpack_signed_def pack_signed_def ucast_back decodesD)
  then show ?thesis
    using unzigzag_zigzag [of v] sint_range30 [of v] decodesD [OF decodes_unsigned, of w r] decodesD [OF decodes_bytes, of bs r]
    by (simp add: fits32_def)
qed

theorem raw_integers_roundtrip_witness:
  "unpack_signed (pack_signed (- 5) @ [1]) = (Inr (- 5), [1]) \<and> unpack_bytes (pack_bytes [1, 2] @ [3]) = (Inr [1, 2], [3])"
proof -
  have "sint (- 5 :: u32) = - 5" by simp
  then show ?thesis using raw_integers_roundtrip [of "- 5" "[1]" 0 "[]"] raw_integers_roundtrip [of 0 "[3]" 0 "[1, 2]"] by simp
qed

end
