(* ===== verification/Randomize.thy ===== *)
theory Randomize
  imports Raw
begin

text \<open>
  How chunk data is made to look random (\<open>randomize\<close>, \<open>derandomize\<close> and \<open>is_random\<close> of cafs/cafs.cpp): it is combined with the
  output of a Mersenne twister whose seed is tried out until the result passes a chi-square test. The twister is a library:
  \<open>mt seed i\<close> stands for the \<open>i\<close>-th number it generates. The floating-point part of the test, which src/chisq.c computes, is an
  argument \<open>chi\<close>.
\<close>

definition MAX_CHUNK_SIZE :: nat where "MAX_CHUNK_SIZE = 1024 * 1024 * 4"
definition MIN_SLICE_SIZE :: nat where "MIN_SLICE_SIZE = 1024 * 64"
definition IMBED_THRESHOLD :: nat where "IMBED_THRESHOLD = 1024 * 1024"
definition RAND_THRESHOLD :: nat where "RAND_THRESHOLD = 1024 * 4"

text \<open>The counters have 16 bits; the expected count is an integer division.\<close>

definition byte_buckets :: "byte list \<Rightarrow> u16 list" where
  "byte_buckets data = fold (\<lambda>b buckets. buckets[unat b := buckets ! unat b + 1]) data (replicate 256 0)"

definition is_random :: "(u16 list \<Rightarrow> nat \<Rightarrow> bool) \<Rightarrow> byte list \<Rightarrow> bool" where
  "is_random chi data = (length data < RAND_THRESHOLD \<or> chi (byte_buckets data) (length data div 256))"

text \<open>Data is combined word by word; what is left over at the end with the first bytes of one more word.\<close>

fun xor_words :: "(nat \<Rightarrow> u32) \<Rightarrow> nat \<Rightarrow> byte list \<Rightarrow> byte list" where
  "xor_words g i (a # b # c # d # r) = le_bytes 4 (xor (of_le_bytes [a, b, c, d]) (g i)) @ xor_words g (Suc i) r"
| "xor_words g i [] = []"
| "xor_words g i bs = take (length bs) (le_bytes 4 (xor (of_le_bytes bs) (g i)))"

partial_function (option) randomize :: "(byte list \<Rightarrow> bool) \<Rightarrow> (u64 \<Rightarrow> nat \<Rightarrow> u32) \<Rightarrow> byte list \<Rightarrow> u64 \<Rightarrow> (u64 \<times> byte list) option" where
  "randomize rnd mt data seed =
     (let seed' = seed + 1; tmp = xor_words (mt seed') 0 data in
      if rnd tmp then Some (seed', tmp) else randomize rnd mt data seed')"

text \<open>The key stream is generated up to the offset and beyond, and read at the offset, where words need not be aligned. The bytes
  past the last whole word are those of a fresh vector.\<close>

definition key_bytes :: "(nat \<Rightarrow> u32) \<Rightarrow> nat \<Rightarrow> byte list" where
  "key_bytes g n = concat (map (\<lambda>i. le_bytes 4 (g i)) [0..<n])"

definition derandomize :: "(u64 \<Rightarrow> nat \<Rightarrow> u32) \<Rightarrow> u64 \<Rightarrow> byte list \<Rightarrow> nat \<Rightarrow> byte list" where
  "derandomize mt seed data offset =
     (let n = length data + offset + 3;
          tmp = take n (key_bytes (mt seed) (n div 4) @ replicate 3 0)
      in xor_words (\<lambda>j. of_le_bytes (take 4 (drop (offset + 4 * j) tmp))) 0 data)"

section \<open>Byte by byte\<close>

lemma length_xor_words [simp]: "length (xor_words g i bs) = length bs"
  by (induction g i bs rule: xor_words.induct) auto

lemma nth_le_of_le:
  assumes "length bs \<le> 4" "j < length bs"
  shows "le_bytes 4 (of_le_bytes bs :: u32) ! j = bs ! j"
proof (rule bit_word_eqI)
  fix n assume n: "n < LENGTH(8)"
  have "(8 * j + n) div 8 = j" "(8 * j + n) mod 8 = n" "8 * j + n < 32" using n assms by auto
  then show "bit (le_bytes 4 (of_le_bytes bs :: u32) ! j) n = bit (bs ! j) n"
    using assms n by (simp add: nth_le_bytes bit_unsigned_iff bit_drop_bit_eq bit_of_le_bytes)
qed

lemma nth_xor_bytes:
  assumes "length bs \<le> 4" "j < length bs"
  shows "le_bytes 4 (xor (of_le_bytes bs :: u32) w) ! j = xor (bs ! j) (le_bytes 4 w ! j)"
proof -
  have j: "j < 4" using assms by simp
  have "ucast (drop_bit (8 * j) (xor (of_le_bytes bs) w)) = xor (ucast (drop_bit (8 * j) (of_le_bytes bs :: u32))) (ucast (drop_bit (8 * j) w) :: byte)"
    by (rule bit_word_eqI) (simp add: bit_unsigned_iff bit_drop_bit_eq bit_xor_iff)
  then show ?thesis using nth_le_of_le [OF assms] by (simp add: nth_le_bytes [OF j])
qed

lemma nth_xor_words:
  "j < length bs \<Longrightarrow> xor_words g i bs ! j = xor (bs ! j) (le_bytes 4 (g (i + j div 4)) ! (j mod 4))"
proof (induction g i bs arbitrary: j rule: xor_words.induct, goal_cases)
  case (1 g i a b c d r j)
  show ?case
  proof (cases "j < 4")
    case True
    then show ?thesis using nth_xor_bytes [of "[a, b, c, d]" j "g i"] by (simp add: nth_append nth_Cons split: nat.splits)
  next
    case False
    then obtain k where k: "j = k + 4" by (metis add.commute le_Suc_ex not_less)
    then have "k < length r" using 1(2) by simp
    moreover have "(k + 4) div 4 = Suc (k div 4)" by presburger
    ultimately show ?thesis using 1(1) [of k] k by (simp add: nth_append)
  qed
next
  case (3 g i a j)
  then show ?case using nth_xor_bytes [of "[a]" j "g i"] by simp
next
  case (4 g i a b j)
  then show ?case using nth_xor_bytes [of "[a, b]" j "g i"] by simp
next
  case (5 g i a b c j)
  then show ?case using nth_xor_bytes [of "[a, b, c]" j "g i"] by simp
qed simp

lemma length_key_bytes [simp]: "length (key_bytes g n) = 4 * n"
  by (induction n) (simp_all add: key_bytes_def)

lemma nth_key_bytes: "j < 4 * n \<Longrightarrow> key_bytes g n ! j = le_bytes 4 (g (j div 4)) ! (j mod 4)"
proof (induction n)
  case (Suc n)
  have k: "key_bytes g (Suc n) = key_bytes g n @ le_bytes 4 (g n)" by (simp add: key_bytes_def)
  show ?case
  proof (cases "j < 4 * n")
    case False
    then have "j div 4 = n \<and> j - 4 * n = j mod 4" using Suc.prems by presburger
    then show ?thesis using False by (simp add: k nth_append)
  qed (use Suc k in \<open>simp add: nth_append\<close>)
qed simp

lemma nth_derandomize:
  assumes "j < length data"
  shows "derandomize mt seed data off ! j = xor (data ! j) (le_bytes 4 (mt seed ((off + j) div 4)) ! ((off + j) mod 4))"
proof -
  define n where "n = length data + off + 3"
  define tmp where "tmp = take n (key_bytes (mt seed) (n div 4) @ replicate 3 0)"
  have b: "off + j < 4 * (n div 4)" using assms unfolding n_def by presburger
  have t: "length tmp = n" unfolding tmp_def by simp
  have p: "off + 4 * (j div 4) + j mod 4 = off + j" by simp
  define w where "w = take 4 (drop (off + 4 * (j div 4)) tmp)"
  have l: "length w \<le> 4" "j mod 4 < length w" using assms t p unfolding w_def n_def by simp_all
  have "le_bytes 4 (of_le_bytes w :: u32) ! (j mod 4) = w ! (j mod 4)" using nth_le_of_le [OF l] .
  also have "\<dots> = tmp ! (off + j)" using p l t by (simp add: w_def add.commute)
  also have "\<dots> = le_bytes 4 (mt seed ((off + j) div 4)) ! ((off + j) mod 4)"
    using b assms by (simp add: tmp_def n_def nth_append nth_key_bytes)
  finally show ?thesis using assms by (simp add: derandomize_def Let_def nth_xor_words w_def tmp_def n_def)
qed

lemma length_derandomize [simp]: "length (derandomize mt seed data off) = length data"
  by (simp add: derandomize_def Let_def)

lemma randomize_Some:
  assumes "randomize rnd mt data seed0 = Some r"
  shows "snd r = xor_words (mt (fst r)) 0 data \<and> rnd (snd r)"
  by (rule randomize.raw_induct [where P = "\<lambda>rnd mt data s r. snd r = xor_words (mt (fst r)) 0 data \<and> rnd (snd r)", OF _ assms],
      auto simp: Let_def split: if_splits, blast)

lemma derandomize_part:
  assumes "off + n \<le> length data" "randomize rnd mt data seed0 = Some (seed, enc)"
  shows "derandomize mt seed (take n (drop off enc)) off = take n (drop off data) \<and> length enc = length data \<and> rnd enc"
proof -
  have e: "enc = xor_words (mt seed) 0 data \<and> rnd enc" using randomize_Some [OF assms(2)] by auto
  have "derandomize mt seed (take n (drop off enc)) off ! j = take n (drop off data) ! j" if "j < n" for j
  proof -
    have "off + j < length data" using that assms(1) by simp
    then show ?thesis using that assms(1) e by (simp add: nth_derandomize nth_xor_words xor.assoc)
  qed
  then have "derandomize mt seed (take n (drop off enc)) off = take n (drop off data)"
    using assms(1) e by (intro nth_equalityI) auto
  then show ?thesis using e by auto
qed

text \<open>
  C27: what \<open>randomize\<close> did is undone, also for a part of the data read on its own: deriving the original of the \<open>n\<close> bytes at a
  position, with the position as the offset, gives these \<open>n\<close> bytes of the original, whether the
  position and the length are multiples of a word or not.
\<close>

theorem derandomize_slice:
  assumes "off + n \<le> length data" "randomize rnd mt data seed0 = Some (seed, enc)"
  shows "derandomize mt seed (take n (drop off enc)) off = take n (drop off data) \<and> length enc = length data \<and> rnd enc"
  by (rule derandomize_part [OF assms])

text \<open>Short data passes the test at once.\<close>

lemma randomize_short:
  "length data < RAND_THRESHOLD \<Longrightarrow> randomize (is_random chi) mt data seed = Some (seed + 1, xor_words (mt (seed + 1)) 0 data)"
  by (subst randomize.simps) (simp add: is_random_def Let_def)

theorem derandomize_slice_witness:
  "derandomize (\<lambda>s i. ucast s + of_nat i) 8 (take 3 (drop 2 (xor_words (\<lambda>i. 8 + of_nat i) 0 [1, 2, 3, 4, 5, 6, 7]))) 2 = [3, 4, 5]"
proof -
  have "randomize (is_random (\<lambda>_ _. False)) (\<lambda>s i. ucast s + of_nat i) [1, 2, 3, 4, 5, 6, 7] 7
      = Some (8, xor_words (\<lambda>i. 8 + of_nat i) 0 [1, 2, 3, 4, 5, 6, 7])"
    by (subst randomize_short) (simp_all add: RAND_THRESHOLD_def)
  from derandomize_slice [OF _ this, of 2 3] show ?thesis by simp
qed

end
