(* ===== verification/Cafs.thy ===== *)
theory Cafs
  imports Randomize Peer_Db
begin

text \<open>
  The content addressable file system of cafs/cafs.cpp. Data is randomized, cut into slices, and stored in one file per chunk,
  whose id is the hash of the list of slices. Small files are chunks of their own, big ones are cut into chunks listed in a header,
  and the small files of a directory share chunks. The chunk files under the data directory are a map from chunk ids;
  what is imported is a tree of files given as a value. An operation that tries out seeds may not end: its result
  is \<open>None\<close> then.
\<close>

section \<open>Data\<close>

datatype file_type = file_data_type | directory_type | file_header_type | unknown_type

fun type_code :: "file_type \<Rightarrow> byte" where
  "type_code file_data_type = 0"
| "type_code directory_type = 1"
| "type_code file_header_type = 2"
| "type_code unknown_type = 3"

record link =
  ln_id :: sha1
  ln_seed :: u64

record slice =
  sl_size :: u32
  sl_hash :: sha1

record file_ref =
  rf_content :: sha1
  rf_chunk :: sha1
  rf_seed :: u64
  rf_pos :: u32
  rf_size :: u32
  rf_type :: byte

record file_header =
  fh_file_size :: u64
  fh_chunks :: "(sha1 \<times> u64) list"

type_synonym dir_entry = "byte list \<times> file_ref"

definition file_ref_new :: file_ref where
  "file_ref_new = \<lparr>rf_content = 0, rf_chunk = 0, rf_seed = 0, rf_pos = 0, rf_size = 0, rf_type = 0\<rparr>"

section \<open>Packing\<close>

definition pack_link :: "link \<Rightarrow> byte list" where
  "pack_link l = pack_pod 20 (ln_id l) @ pack_pod 8 (ln_seed l)"

definition unpack_link :: "link unpacker" where
  "unpack_link = bindc (unpack_pod 20) (\<lambda>i. bindc (unpack_pod 8) (\<lambda>s. ret \<lparr>ln_id = i, ln_seed = s\<rparr>))"

definition pack_slice :: "slice \<Rightarrow> byte list" where
  "pack_slice s = pack_pod 4 (sl_size s) @ pack_pod 20 (sl_hash s)"

definition unpack_slice :: "slice unpacker" where
  "unpack_slice = bindc (unpack_pod 4) (\<lambda>n. bindc (unpack_pod 20) (\<lambda>h. ret \<lparr>sl_size = n, sl_hash = h\<rparr>))"

definition pack_header :: "slice list \<Rightarrow> byte list" where
  "pack_header = pack_list pack_slice"

definition unpack_header :: "slice list unpacker" where
  "unpack_header = unpack_list unpack_slice"

definition pack_file_header :: "file_header \<Rightarrow> byte list" where
  "pack_file_header h = pack_pod 8 (fh_file_size h) @ pack_list (pack_pair (pack_pod 20) (pack_pod 8)) (fh_chunks h)"

definition unpack_file_header :: "file_header unpacker" where
  "unpack_file_header = bindc (unpack_pod 8) (\<lambda>n. bindc (unpack_list (unpack_pair (unpack_pod 20) (unpack_pod 8)))
     (\<lambda>cs. ret \<lparr>fh_file_size = n, fh_chunks = cs\<rparr>))"

definition pack_file_ref :: "file_ref \<Rightarrow> byte list" where
  "pack_file_ref r = pack_pod 20 (rf_content r) @ pack_pod 20 (rf_chunk r) @ pack_pod 8 (rf_seed r) @ pack_pod 4 (rf_pos r)
     @ pack_pod 4 (rf_size r) @ pack_pod 1 (rf_type r)"

definition unpack_file_ref :: "file_ref unpacker" where
  "unpack_file_ref = bindc (unpack_pod 20) (\<lambda>a. bindc (unpack_pod 20) (\<lambda>b. bindc (unpack_pod 8) (\<lambda>c. bindc (unpack_pod 4) (\<lambda>d.
     bindc (unpack_pod 4) (\<lambda>e. bindc (unpack_pod 1) (\<lambda>f.
       ret \<lparr>rf_content = a, rf_chunk = b, rf_seed = c, rf_pos = d, rf_size = e, rf_type = f\<rparr>))))))"

definition pack_directory :: "dir_entry list \<Rightarrow> byte list" where
  "pack_directory = pack_list (pack_pair pack_bytes pack_file_ref)"

definition unpack_directory :: "dir_entry list unpacker" where
  "unpack_directory = unpack_list (unpack_pair unpack_bytes unpack_file_ref)"

section \<open>State and environment\<close>

record 'h cafs =
  cf_files :: "sha1 \<Rightarrow> byte list option"
  cf_db :: 'h
  cf_rand :: nat

record 'h cafs_env =
  ce_cr :: crypto
  ce_chi :: "u16 list \<Rightarrow> nat \<Rightarrow> bool"
  ce_mt :: "u64 \<Rightarrow> nat \<Rightarrow> u32"
  ce_rand :: "nat \<Rightarrow> u64"
  ce_fill :: "nat \<Rightarrow> byte list"
  ce_db :: "('h, byte list) bdb"

type_synonym ('h, 'a) cf = "'h cafs \<Rightarrow> ('a res \<times> 'h cafs) option"

definition cf_ret :: "'a \<Rightarrow> ('h, 'a) cf" where
  "cf_ret a st = Some (Inr a, st)"

definition cf_raise :: "exn \<Rightarrow> ('h, 'a) cf" where
  "cf_raise e st = Some (Inl e, st)"

definition cf_bind :: "('h, 'a) cf \<Rightarrow> ('a \<Rightarrow> ('h, 'b) cf) \<Rightarrow> ('h, 'b) cf" where
  "cf_bind m k st = (case m st of None \<Rightarrow> None | Some (Inl e, st') \<Rightarrow> Some (Inl e, st') | Some (Inr a, st') \<Rightarrow> k a st')"

definition cf_do :: "('h cafs, 'a) cmd \<Rightarrow> ('h, 'a) cf" where
  "cf_do m st = Some (m st)"

section \<open>Chunks\<close>

function slice_chunk :: "crypto \<Rightarrow> byte list \<Rightarrow> slice list" where
  "slice_chunk cr data =
     (if data = [] then []
      else
        let s = min (length data) MIN_SLICE_SIZE in
        \<lparr>sl_size = of_nat s, sl_hash = sha1_hash cr (take s data)\<rparr> # slice_chunk cr (drop s data))"
  by auto

termination
  by (relation "measure (\<lambda>(cr, data). length data)") (auto simp: MIN_SLICE_SIZE_def)

declare slice_chunk.simps [simp del]

definition calculate_id :: "crypto \<Rightarrow> slice list \<Rightarrow> sha1" where
  "calculate_id cr ch = sha1_hash cr (pack_header ch)"

definition calculate_size :: "slice list \<Rightarrow> nat" where
  "calculate_size ch = sum_list (map (\<lambda>s. unat (sl_size s)) ch)"

definition store_chunk :: "crypto \<Rightarrow> slice list \<Rightarrow> byte list \<Rightarrow> ('h cafs, sha1) cmd" where
  "store_chunk cr head data st =
     (let h = calculate_id cr head in
      case cf_files st h of
        Some _ \<Rightarrow> (Inr h, st)
      | None \<Rightarrow> (Inr h, st\<lparr>cf_files := (cf_files st)(h \<mapsto> pack_header head @ data)\<rparr>))"

text \<open>The slices that cover the range are read, checked and copied; the others are skipped. \<open>left\<close> is what is still to be
  written, \<open>out\<close> what was. A slice of \<open>2 ^ 31\<close> bytes or more leaves the range of the \<open>int\<close>s the code computes with.\<close>

fun get_slices :: "crypto \<Rightarrow> slice list \<Rightarrow> u32 \<Rightarrow> u32 \<Rightarrow> nat \<Rightarrow> byte list \<Rightarrow> byte list \<Rightarrow> (byte list \<times> nat) res" where
  "get_slices cr [] pos cpos left strm out = Inr (out, left)"
| "get_slices cr (sl # r) pos cpos left strm out =
     (let n = unat (sl_size sl) in
      if cpos \<le> pos \<and> pos < cpos + sl_size sl then
        (if length strm < n then Inl (Throw ''end of file'')
         else if sha1_hash cr (take n strm) \<noteq> sl_hash sl then Inl (Throw ''Slice hash does not match header'')
         else if n \<ge> 2 ^ 31 then Inl (Undefined ''sizes past the range of int'')
         else
           let start = unat (pos - cpos); cbytes = min (n - start) left in
           if left - cbytes = 0 then Inr (out @ take cbytes (drop start strm), 0)
           else get_slices cr r (pos + of_nat cbytes) (cpos + sl_size sl) (left - cbytes) (drop n strm)
             (out @ take cbytes (drop start strm)))
      else if left = 0 then Inr (out, 0)
      else get_slices cr r pos (cpos + sl_size sl) left (drop n strm) out)"

definition get_chunk :: "'h cafs_env \<Rightarrow> sha1 \<Rightarrow> u32 \<Rightarrow> u32 \<Rightarrow> 'h cafs \<Rightarrow> byte list res" where
  "get_chunk E cid pos s st =
     (case cf_files st cid of
        None \<Rightarrow> Inl (Throw ''File does not exist'')
      | Some f \<Rightarrow>
          (case unpack_header f of
             (Inl e, _) \<Rightarrow> Inl e
           | (Inr ch, strm) \<Rightarrow>
               (let n = (if s = - 1 then unat (of_nat (calculate_size ch) :: u32) else unat s) in
                case get_slices (ce_cr E) ch pos 0 n strm [] of
                  Inl e \<Rightarrow> Inl e
                | Inr (out, left) \<Rightarrow> Inr (out @ ce_fill E left))))"

section \<open>Import\<close>

definition data_seed :: "crypto \<Rightarrow> byte list \<Rightarrow> u64" where
  "data_seed cr data = of_le_bytes (take 8 (sha1_data (sha1_hash cr data)))"

definition do_randomize :: "'h cafs_env \<Rightarrow> byte list \<Rightarrow> u64 \<Rightarrow> ('h, u64 \<times> byte list) cf" where
  "do_randomize E data seed st =
     (case randomize (is_random (ce_chi E)) (ce_mt E) data seed of None \<Rightarrow> None | Some r \<Rightarrow> Some (Inr r, st))"

text \<open>The end of every branch of \<open>import\<close>.\<close>

definition import_data :: "'h cafs_env \<Rightarrow> byte list \<Rightarrow> ('h, link) cf" where
  "import_data E data =
     cf_bind (do_randomize E data (data_seed (ce_cr E) data)) (\<lambda>(seed, enc).
       cf_bind (cf_do (store_chunk (ce_cr E) (slice_chunk (ce_cr E) enc) enc)) (\<lambda>cid. cf_ret \<lparr>ln_id = cid, ln_seed = seed\<rparr>))"

text \<open>The loop of \<open>import_file\<close>. The position is a \<open>uint32_t\<close>; the buffer keeps what is beyond the bytes read.\<close>

partial_function (option) import_loop ::
  "'h cafs_env \<Rightarrow> nat \<Rightarrow> u32 \<Rightarrow> byte list \<Rightarrow> byte list \<Rightarrow> (sha1 \<times> u64) list \<Rightarrow> 'h cafs \<Rightarrow> ((sha1 \<times> u64) list res \<times> 'h cafs) option" where
  "import_loop E file_size r chunk rest acc st =
     (if unat r < file_size then
        let some = min (length chunk) (file_size - unat r) in
        if length rest < some then Some (Inl (Throw ''end of file''), st)
        else
          let chunk1 = overwrite 0 (take some rest) chunk in
          Option.bind (randomize (is_random (ce_chi E)) (ce_mt E) chunk1 (data_seed (ce_cr E) chunk1)) (\<lambda>(seed, enc).
            let c = take some enc; x = store_chunk (ce_cr E) (slice_chunk (ce_cr E) c) c st in
            case fst x of
              Inl e \<Rightarrow> Some (Inl e, snd x)
            | Inr cid \<Rightarrow> import_loop E file_size (r + of_nat some) c (drop some rest) (acc @ [(cid, seed)]) (snd x))
      else Some (Inr acc, st))"

definition import_file :: "'h cafs_env \<Rightarrow> byte list \<Rightarrow> ('h, file_header) cf" where
  "import_file E content =
     cf_bind (import_loop E (length content) 0 (ce_fill E MAX_CHUNK_SIZE) content [])
       (\<lambda>cs. cf_ret \<lparr>fh_file_size = of_nat (length content), fh_chunks = cs\<rparr>)"

text \<open>A header packed into the 4 MiB buffer behind its type. For a file header, the buffer is cut to the length of what was packed, without
  the byte of the type.\<close>

definition header_data :: "byte \<Rightarrow> nat \<Rightarrow> byte list \<Rightarrow> byte list res" where
  "header_data t extra packed =
     (if length packed \<le> MAX_CHUNK_SIZE - 1 then Inr (take (length packed + extra) (t # packed))
      else Inl (Throw ''Attempt to write beyond end of buffer''))"

section \<open>Export\<close>

fun export_chunks :: "'h cafs_env \<Rightarrow> (sha1 \<times> u64) list \<Rightarrow> 'h cafs \<Rightarrow> byte list res" where
  "export_chunks E [] st = Inr []"
| "export_chunks E ((cid, seed) # r) st =
     (case get_chunk E cid 0 (- 1) st of
        Inl e \<Rightarrow> Inl e
      | Inr c \<Rightarrow>
          (case export_chunks E r st of Inl e \<Rightarrow> Inl e | Inr rest \<Rightarrow> Inr (derandomize (ce_mt E) seed c 0 @ rest)))"

text \<open>What is written to the destination; nothing for a directory.\<close>

definition export_link :: "'h cafs_env \<Rightarrow> link \<Rightarrow> 'h cafs \<Rightarrow> byte list option res" where
  "export_link E l st =
     (case get_chunk E (ln_id l) 0 (- 1) st of
        Inl e \<Rightarrow> Inl e
      | Inr enc \<Rightarrow>
          (case derandomize (ce_mt E) (ln_seed l) enc 0 of
             [] \<Rightarrow> Inl (Throw ''Empty Chunk!'')
           | t # body \<Rightarrow>
               if t = type_code file_data_type then Inr (Some body)
               else if t = type_code directory_type then
                 (case unpack_directory body of (Inl e, _) \<Rightarrow> Inl e | (Inr d, _) \<Rightarrow> Inr None)
               else if t = type_code file_header_type then
                 (case unpack_file_header body of
                    (Inl e, _) \<Rightarrow> Inl e
                  | (Inr fh, _) \<Rightarrow> (case export_chunks E (fh_chunks fh) st of Inl e \<Rightarrow> Inl e | Inr d \<Rightarrow> Inr (Some d)))
               else Inl (Throw ''Unknown File Type'')))"

section \<open>The index of files\<close>

definition file_db_store :: "'h cafs_env \<Rightarrow> file_ref \<Rightarrow> ('h cafs, unit) cmd" where
  "file_db_store E r st =
     (let k = sha1_data (rf_content r) in
      if db_get (ce_db E) (cf_db st) k \<noteq> None then (Inr (), st)
      else
        case db_put (ce_db E) (cf_db st) k (pack_file_ref r) of
          None \<Rightarrow> (Inl (Throw ''DbException''), st)
        | Some h \<Rightarrow> (Inr (), st\<lparr>cf_db := h\<rparr>))"

definition file_db_fetch :: "'h cafs_env \<Rightarrow> sha1 \<Rightarrow> 'h cafs \<Rightarrow> file_ref option res" where
  "file_db_fetch E fid st =
     (case db_get (ce_db E) (cf_db st) (sha1_data fid) of
        None \<Rightarrow> Inr None
      | Some v \<Rightarrow> (case unpack_file_ref v of (Inl e, _) \<Rightarrow> Inl e | (Inr r, _) \<Rightarrow> Inr (Some r)))"

section \<open>Directories\<close>

datatype fnode = Reg "byte list" | Dir "(byte list \<times> fnode) list" | Special

text \<open>\<open>cur\<close> is what is already in the chunk that is being filled.\<close>

definition add_to_chunk :: "crypto \<Rightarrow> byte list \<Rightarrow> byte list \<Rightarrow> byte list \<Rightarrow> file_type \<Rightarrow> dir_entry list \<Rightarrow> (byte list \<times> dir_entry list) option" where
  "add_to_chunk cr cur file name t ents =
     (if MAX_CHUNK_SIZE - length cur > length file then
        Some (cur @ file, ents @ [(name, file_ref_new\<lparr>rf_content := sha1_hash cr file, rf_pos := of_nat (length cur),
          rf_size := of_nat (length file), rf_type := type_code t\<rparr>)])
      else None)"

definition save_chunk :: "'h cafs_env \<Rightarrow> byte list \<Rightarrow> dir_entry list \<Rightarrow> ('h, dir_entry list) cf" where
  "save_chunk E cur ents st =
     cf_bind (do_randomize E cur (ce_rand E (cf_rand st))) (\<lambda>(seed, enc).
     cf_bind (cf_do (store_chunk (ce_cr E) (slice_chunk (ce_cr E) enc) enc)) (\<lambda>cid.
       cf_ret (map (\<lambda>(name, r). if rf_chunk r = 0 then (name, r\<lparr>rf_seed := seed, rf_chunk := cid\<rparr>) else (name, r)) ents)))
       (st\<lparr>cf_rand := Suc (cf_rand st)\<rparr>)"

fun store_refs :: "'h cafs_env \<Rightarrow> dir_entry list \<Rightarrow> ('h, unit) cf" where
  "store_refs E [] = cf_ret ()"
| "store_refs E ((name, r) # ents) = cf_bind (cf_do (file_db_store E r)) (\<lambda>_. store_refs E ents)"

text \<open>One file in the loop of \<open>import_directory\<close>: a reference to it if it is known, else a place in the chunk, after the full
  chunk was saved if need be. A file that does not fit an empty chunk is left out.\<close>

definition place_file :: "'h cafs_env \<Rightarrow> byte list \<Rightarrow> byte list \<Rightarrow> file_type \<Rightarrow> byte list \<Rightarrow> dir_entry list \<Rightarrow> ('h, byte list \<times> dir_entry list) cf" where
  "place_file E name file t cur ents =
     cf_bind (\<lambda>st. Some (file_db_fetch E (sha1_hash (ce_cr E) file) st, st)) (\<lambda>ofr.
       case ofr of
         Some r \<Rightarrow> cf_ret (cur, ents @ [(name, r)])
       | None \<Rightarrow>
           (case add_to_chunk (ce_cr E) cur file name t ents of
              Some x \<Rightarrow> cf_ret x
            | None \<Rightarrow> cf_bind (save_chunk E cur ents) (\<lambda>ents'.
                cf_ret (case add_to_chunk (ce_cr E) [] file name t ents' of Some x \<Rightarrow> x | None \<Rightarrow> ([], ents')))))"

fun import_entry :: "'h cafs_env \<Rightarrow> byte list \<Rightarrow> fnode \<Rightarrow> ('h, byte list \<times> file_type) cf"
  and import_entries :: "'h cafs_env \<Rightarrow> (byte list \<times> fnode) list \<Rightarrow> byte list \<Rightarrow> dir_entry list \<Rightarrow> ('h, dir_entry list) cf" where
  "import_entry E name (Reg c) =
     (if length c > IMBED_THRESHOLD
      then cf_bind (import_file E c) (\<lambda>h. cf_ret (pack_file_header h, file_header_type))
      else cf_ret (c, file_data_type))"
| "import_entry E name (Dir es) =
     (if (case name of [] \<Rightarrow> 0 | c # _ \<Rightarrow> c) = 46 then cf_ret ([], unknown_type)
      else cf_bind (import_entries E es [] []) (\<lambda>d. cf_bind (store_refs E d) (\<lambda>_. cf_ret (pack_directory d, directory_type))))"
| "import_entry E name Special = cf_ret ([], unknown_type)"
| "import_entries E [] cur ents = cf_ret ents"
| "import_entries E ((name, nd) # es) cur ents =
     cf_bind (import_entry E name nd) (\<lambda>(file, t).
     cf_bind (place_file E name file t cur ents) (\<lambda>(cur', ents').
     cf_bind (if es = [] \<and> cur' \<noteq> [] then save_chunk E cur' ents' else cf_ret ents') (\<lambda>ents''.
       import_entries E es cur' ents'')))"

definition import_directory :: "'h cafs_env \<Rightarrow> (byte list \<times> fnode) list \<Rightarrow> ('h, dir_entry list) cf" where
  "import_directory E es = cf_bind (import_entries E es [] []) (\<lambda>d. cf_bind (store_refs E d) (\<lambda>_. cf_ret d))"

definition cafs_import :: "'h cafs_env \<Rightarrow> fnode option \<Rightarrow> ('h, link) cf" where
  "cafs_import E p =
     (case p of
        None \<Rightarrow> cf_raise (Throw ''Path does not exist'')
      | Some (Reg c) \<Rightarrow>
          if length c > IMBED_THRESHOLD then
            cf_bind (import_file E c) (\<lambda>h.
            cf_bind (\<lambda>st. Some (header_data (type_code file_header_type) 0 (pack_file_header h), st)) (import_data E))
          else import_data E (type_code file_data_type # c)
      | Some (Dir es) \<Rightarrow>
          cf_bind (import_directory E es) (\<lambda>d.
          cf_bind (\<lambda>st. Some (header_data (type_code directory_type) 1 (pack_directory d), st)) (import_data E))
      | Some Special \<Rightarrow> cf_raise (Throw ''Unsupported file type''))"

section \<open>Resources\<close>

definition get_resource_ref :: "'h cafs_env \<Rightarrow> file_ref \<Rightarrow> 'h cafs \<Rightarrow> byte list res" where
  "get_resource_ref E r st =
     (case get_chunk E (rf_chunk r) (rf_pos r) (rf_size r) st of
        Inl e \<Rightarrow> Inl e
      | Inr rd \<Rightarrow> Inr (rf_type r # take (unat (rf_size r)) (derandomize (ce_mt E) (rf_seed r) rd (unat (rf_pos r)))))"

definition get_resource_hash :: "'h cafs_env \<Rightarrow> sha1 \<Rightarrow> 'h cafs \<Rightarrow> byte list option res" where
  "get_resource_hash E fid st =
     (case file_db_fetch E fid st of
        Inl e \<Rightarrow> Inl e
      | Inr None \<Rightarrow> Inr None
      | Inr (Some r) \<Rightarrow> (case get_resource_ref E r st of Inl e \<Rightarrow> Inl e | Inr d \<Rightarrow> Inr (Some d)))"

definition get_resource_link :: "'h cafs_env \<Rightarrow> link \<Rightarrow> 'h cafs \<Rightarrow> byte list option res" where
  "get_resource_link E l st =
     (case get_chunk E (ln_id l) 0 (- 1) st of
        Inl (Throw _) \<Rightarrow> Inr None
      | Inl e \<Rightarrow> Inl e
      | Inr ch \<Rightarrow> Inr (Some (derandomize (ce_mt E) (ln_seed l) ch 0)))"

definition res_is :: "file_type \<Rightarrow> byte list \<Rightarrow> bool" where
  "res_is t d \<longleftrightarrow> d \<noteq> [] \<and> hd d = type_code t"

definition res_directory :: "byte list \<Rightarrow> dir_entry list option res" where
  "res_directory d =
     (if res_is directory_type d then (case unpack_directory (tl d) of (Inl e, _) \<Rightarrow> Inl e | (Inr x, _) \<Rightarrow> Inr (Some x)) else Inr None)"

definition res_file_data :: "byte list \<Rightarrow> byte list option" where
  "res_file_data d = (if res_is file_data_type d then Some (tl d) else None)"

definition res_file_size :: "byte list \<Rightarrow> nat" where
  "res_file_size d = (if res_is file_data_type d then length d - 1 else 0)"

definition res_file_header :: "byte list \<Rightarrow> file_header option res" where
  "res_file_header d =
     (if res_is file_header_type d then (case unpack_file_header (tl d) of (Inl e, _) \<Rightarrow> Inl e | (Inr x, _) \<Rightarrow> Inr (Some x)) else Inr None)"

end
