(* ===== verification/Cafs_Props.thy ===== *)
theory Cafs_Props
  imports Cafs
begin

text \<open>
  What is stored in the content addressable file system can be read back: a chunk in any part, a small file through its link.
  A big file cannot: the link to its header leads to a header that was cut short.
\<close>

section \<open>Codecs\<close>

lemmas decodes_steps = decodes_bind decodes_map decodes_pod decodes_list decodes_pair decodes_bytes decodes_ret

lemma decodes_slice: "decodes unpack_slice s (pack_slice s)"
proof (cases s)
  case (fields n h)
  have "decodes (bindc (unpack_pod 20) (\<lambda>h. ret \<lparr>sl_size = n, sl_hash = h\<rparr>)) \<lparr>sl_size = n, sl_hash = h\<rparr> (pack_pod 20 h)"
    by (rule decodes_map [OF decodes_pod]) simp
  then show ?thesis unfolding fields unpack_slice_def pack_slice_def
    by (intro decodes_bind [OF decodes_pod]) simp_all
qed

lemma decodes_header: "fits32 (length ch) \<Longrightarrow> decodes unpack_header ch (pack_header ch)"
  unfolding unpack_header_def pack_header_def by (rule decodes_list) (auto intro: decodes_slice)

lemma decodes_file_header: "fits32 (length (fh_chunks h)) \<Longrightarrow> decodes unpack_file_header h (pack_file_header h)"
proof -
  assume "fits32 (length (fh_chunks h))"
  then have l: "decodes (unpack_list (unpack_pair (unpack_pod 20) (unpack_pod 8))) (fh_chunks h)
      (pack_list (pack_pair (pack_pod 20) (pack_pod 8)) (fh_chunks h))"
    by (intro decodes_list decodes_pair decodes_pod) simp_all
  from decodes_map [OF l, of "\<lambda>cs. \<lparr>fh_file_size = fh_file_size h, fh_chunks = cs\<rparr>"] show ?thesis
    unfolding unpack_file_header_def pack_file_header_def
    by (cases h) (auto intro!: decodes_bind [OF decodes_pod])
qed

lemma decodes_file_ref: "decodes unpack_file_ref r (pack_file_ref r)"
  unfolding unpack_file_ref_def pack_file_ref_def
  by (cases r) (auto intro!: decodes_bind [OF decodes_pod] decodes_map [OF decodes_pod])

lemma decodes_directory:
  assumes "fits32 (length d)" "\<forall>(n, r) \<in> set d. fits32 (length n)"
  shows "decodes unpack_directory d (pack_directory d)"
  unfolding unpack_directory_def pack_directory_def
  by (rule decodes_list [OF assms(1)]) (use assms(2) in \<open>auto intro!: decodes_pair decodes_bytes decodes_file_ref\<close>)

lemma decodes_link: "decodes unpack_link l (pack_link l)"
  unfolding unpack_link_def pack_link_def
  by (cases l) (auto intro!: decodes_bind [OF decodes_pod] decodes_map [OF decodes_pod])

interpretation link_codec: raw_codec pack_link unpack_link "\<lambda>l. True"
  by unfold_locales (rule decodes_link)

lemma length_pack_link [simp]: "length (pack_link l) = 28"
  by (simp add: pack_link_def pack_pod_def)

interpretation directory_codec: raw_codec pack_directory unpack_directory "\<lambda>d. fits32 (length d) \<and> (\<forall>(n, r) \<in> set d. fits32 (length n))"
  by unfold_locales (rule decodes_directory, auto)

interpretation header_codec: raw_codec pack_header unpack_header "\<lambda>ch. fits32 (length ch)"
  by unfold_locales (rule decodes_header)

interpretation file_header_codec: raw_codec pack_file_header unpack_file_header "\<lambda>h. fits32 (length (fh_chunks h))"
  by unfold_locales (rule decodes_file_header)

section \<open>Slices\<close>

lemma slice_chunk_Nil [simp]: "slice_chunk cr [] = []"
  by (simp add: slice_chunk.simps)

lemma slice_chunk_Cons:
  assumes "data \<noteq> []" "s = min (length data) MIN_SLICE_SIZE"
  shows "slice_chunk cr data = \<lparr>sl_size = of_nat s, sl_hash = sha1_hash cr (take s data)\<rparr> # slice_chunk cr (drop s data)"
  using assms by (subst slice_chunk.simps) (simp add: Let_def)

lemma slice_bounds:
  assumes "data \<noteq> []" "s = min (length data) MIN_SLICE_SIZE"
  shows "0 < s" "s \<le> length data" "s \<le> 65536" "unat (of_nat s :: u32) = s"
  using assms by (auto simp: MIN_SLICE_SIZE_def unat_of_nat take_bit_nat_eq_self min_def)

lemma length_slice_chunk: "length (slice_chunk cr data) \<le> length data"
proof (induction cr data rule: slice_chunk.induct)
  case (1 cr data)
  then show ?case
  proof (cases "data = []")
    case False
    define s where "s = min (length data) MIN_SLICE_SIZE"
    have "length (slice_chunk cr (drop s data)) \<le> length data - s" using 1 [OF False s_def] by simp
    then show ?thesis using slice_chunk_Cons [OF False s_def] slice_bounds [OF False s_def] by simp
  qed simp
qed

lemma calculate_size_slice: "calculate_size (slice_chunk cr data) = length data"
proof (induction cr data rule: slice_chunk.induct)
  case (1 cr data)
  show ?case
  proof (cases "data = []")
    case False
    define s where "s = min (length data) MIN_SLICE_SIZE"
    have "calculate_size (slice_chunk cr (drop s data)) = length data - s" using 1 [OF False s_def] by simp
    then show ?thesis using slice_chunk_Cons [OF False s_def] slice_bounds [OF False s_def] by (simp add: calculate_size_def)
  qed (simp add: calculate_size_def)
qed

lemma word_nat_le: "a < 2 ^ 32 \<Longrightarrow> b < 2 ^ 32 \<Longrightarrow> (of_nat a :: u32) \<le> of_nat b \<longleftrightarrow> a \<le> b"
  by (simp add: word_le_nat_alt unat_of_nat take_bit_nat_eq_self)

lemma word_nat_less: "a < 2 ^ 32 \<Longrightarrow> b < 2 ^ 32 \<Longrightarrow> (of_nat a :: u32) < of_nat b \<longleftrightarrow> a < b"
  by (simp add: word_less_nat_alt unat_of_nat take_bit_nat_eq_self)

lemma word_nat_diff: "a < 2 ^ 32 \<Longrightarrow> b \<le> a \<Longrightarrow> unat (of_nat a - of_nat b :: u32) = a - b"
  by (simp flip: of_nat_diff add: unat_of_nat take_bit_nat_eq_self)

lemma get_slices_zero: "get_slices cr ch pos cpos 0 strm out = Inr (out, 0) \<or> (\<exists>e. get_slices cr ch pos cpos 0 strm out = Inl e)"
  by (cases ch) (auto simp: Let_def)

lemma take_split: "k \<le> n \<Longrightarrow> take k (drop a xs) @ take (n - k) (drop (a + k) xs) = take n (drop a xs)"
  using take_add [of k "n - k" "drop a xs"] by (simp add: add.commute)

text \<open>One slice: the position is in it, or it is skipped.\<close>

lemma get_slices_step:
  assumes "data \<noteq> []" "s = min (length data) MIN_SLICE_SIZE" "c + length data < 2 ^ 32" "c \<le> p" "p < 2 ^ 32"
  shows "get_slices cr (slice_chunk cr data) (of_nat p) (of_nat c) n data out =
    (if p < c + s then
       (if n \<le> s - (p - c) then Inr (out @ take n (drop (p - c) data), 0)
        else get_slices cr (slice_chunk cr (drop s data)) (of_nat (c + s)) (of_nat (c + s)) (n - (s - (p - c))) (drop s data) (out @ take (s - (p - c)) (drop (p - c) data)))
     else if n = 0 then Inr (out, 0)
     else get_slices cr (slice_chunk cr (drop s data)) (of_nat p) (of_nat (c + s)) n (drop s data) out)"
proof -
  note sl = slice_chunk_Cons [OF assms(1, 2)] and b = slice_bounds [OF assms(1, 2)]
  have b32: "c < 2 ^ 32" "c + s < 2 ^ 32" using assms(3) b by simp_all
  have cs: "(of_nat c :: u32) + of_nat s = of_nat (c + s)" by simp
  have le: "(of_nat c :: u32) \<le> of_nat p" using word_nat_le [OF b32(1) assms(5)] assms(4) by simp
  have lt: "(of_nat p :: u32) < of_nat c + of_nat s \<longleftrightarrow> p < c + s" unfolding cs by (rule word_nat_less [OF assms(5) b32(2)])
  have df: "unat (of_nat p - of_nat c :: u32) = p - c" by (rule word_nat_diff [OF assms(5, 4)])
  have p': "(of_nat p :: u32) + of_nat (s - (p - c)) = of_nat (c + s)" if "p < c + s" using that assms(4) by (simp add: add.commute flip: of_nat_add)
  have "min (s - (p - c)) n = (if n \<le> s - (p - c) then n else s - (p - c))" by simp
  then show ?thesis using sl b le lt df p' by (simp add: Let_def cs del: of_nat_add of_nat_diff)
qed

text \<open>Reading a range of the data from its slices, from a slice boundary \<open>c\<close> on.\<close>

lemma get_slices_range:
  assumes "c + length data < 2 ^ 32" "c \<le> p" "p + n \<le> c + length data" "strm = data"
  shows "get_slices cr (slice_chunk cr data) (of_nat p) (of_nat c) n strm out = Inr (out @ take n (drop (p - c) data), 0)"
  using assms
proof (induction cr data arbitrary: c p n strm out rule: slice_chunk.induct)
  case (1 cr data)
  show ?case
  proof (cases "data = []")
    case True
    then show ?thesis using 1 by simp
  next
    case False
    define s where "s = min (length data) MIN_SLICE_SIZE"
    note b = slice_bounds [OF False s_def]
    have "p < 2 ^ 32" using 1(2-4) by simp
    note step = get_slices_step [OF False s_def 1(2,3) this]
    have IH: "get_slices cr (slice_chunk cr (drop s data)) (of_nat p') (of_nat (c + s)) n' (drop s data) out'
        = Inr (out' @ take n' (drop (p' - (c + s)) (drop s data)), 0)" if "c + s \<le> p'" "p' + n' \<le> c + length data" for p' n' out'
      using 1(1) [OF False s_def, of "c + s" p' n' "drop s data" out'] that 1(2) b(2) by simp
    show ?thesis
    proof (cases "p < c + s")
      case True
      let ?k = "s - (p - c)"
      have "p - c + ?k = s" using True 1(3) by simp
      then have "take ?k (drop (p - c) data) @ take (n - ?k) (drop s data) = take n (drop (p - c) data)" if "\<not> n \<le> ?k"
        using that take_split [of ?k n "p - c" data] by simp
      then show ?thesis unfolding 1(5) step using True IH [of "c + s" "n - ?k"] 1(3,4) by (simp del: of_nat_add)
    next
      case False
      then show ?thesis unfolding 1(5) step using IH [of p n out] 1(4) by (simp add: add.commute del: of_nat_add)
    qed
  qed
qed

section \<open>Chunks read back\<close>

definition fill_ok :: "'h cafs_env \<Rightarrow> bool" where
  "fill_ok E \<longleftrightarrow> (\<forall>n. length (ce_fill E n) = n)"

lemma fill_zero: "fill_ok E \<Longrightarrow> ce_fill E 0 = []"
  by (metis fill_ok_def length_0_conv)

lemma get_chunk_stored:
  assumes "fill_ok E" "cf_files st cid = Some (pack_header (slice_chunk (ce_cr E) data) @ data)"
    "length data < 2 ^ 32 - 1" "p + n \<le> length data"
  shows "get_chunk E cid (of_nat p) (of_nat n) st = Inr (take n (drop p data))"
    and "get_chunk E cid 0 (- 1) st = Inr data"
proof -
  let ?ch = "slice_chunk (ce_cr E) data"
  have "fits32 (length ?ch)" using length_slice_chunk [of "ce_cr E" data] assms(3) by (simp add: fits32_def)
  then have u: "unpack_header (pack_header ?ch @ data) = (Inr ?ch, data)" by (rule header_codec.unpack_pack)
  have l: "unat (of_nat (length data) :: u32) = length data" "unat (of_nat n :: u32) = n"
    using assms(3,4) by (simp_all add: unat_of_nat take_bit_nat_eq_self)
  have m: "(of_nat n :: u32) \<noteq> - 1"
  proof
    assume "(of_nat n :: u32) = - 1"
    then have "n = unat (- 1 :: u32)" using l(2) by simp
    then have "n = 2 ^ 32 - 1" by (simp add: unsigned_minus_1_eq_mask mask_eq_exp_minus_1)
    then show False using assms(3,4) by simp
  qed
  have g: "get_slices (ce_cr E) ?ch (of_nat q) 0 k data [] = Inr (take k (drop q data), 0)" if "q + k \<le> length data" for q k
    using get_slices_range [of 0 data q k data "ce_cr E" "[]"] that assms(3) by simp
  show "get_chunk E cid (of_nat p) (of_nat n) st = Inr (take n (drop p data))"
    using g [OF assms(4)] u l m fill_zero [OF assms(1)] by (simp add: get_chunk_def assms(2) Let_def)
  show "get_chunk E cid 0 (- 1) st = Inr data"
    using g [of 0 "length data"] u l fill_zero [OF assms(1)] by (simp add: get_chunk_def assms(2) Let_def calculate_size_slice)
qed

lemma store_chunk_id: "fst (store_chunk cr head d st) = Inr (calculate_id cr head)"
  by (simp add: store_chunk_def Let_def split: option.splits)

lemma store_chunk_fresh:
  assumes "store_chunk cr (slice_chunk cr data) data st = (x, st')" "cf_files st (calculate_id cr (slice_chunk cr data)) = None"
  shows "x = Inr (calculate_id cr (slice_chunk cr data))
    \<and> cf_files st' (calculate_id cr (slice_chunk cr data)) = Some (pack_header (slice_chunk cr data) @ data)"
  using assms by (auto simp: store_chunk_def Let_def)

text \<open>
  C12: a chunk that is stored under an id the store does not have yet can be read back in any part: the \<open>n\<close> bytes from position \<open>p\<close>
  on, wherever the boundaries of the slices lie, and every slice read agrees with its hash.
\<close>

theorem cafs_chunk_roundtrip:
  assumes "fill_ok E" "length data < 2 ^ 32 - 1" "store_chunk (ce_cr E) (slice_chunk (ce_cr E) data) data st = (Inr cid, st')"
    "cf_files st cid = None" "p + n \<le> length data"
  shows "get_chunk E cid (of_nat p) (of_nat n) st' = Inr (take n (drop p data))"
proof -
  have c: "cid = calculate_id (ce_cr E) (slice_chunk (ce_cr E) data)"
    using assms(3) by (auto simp: store_chunk_def Let_def split: option.splits)
  show ?thesis
    by (rule get_chunk_stored(1) [OF assms(1) _ assms(2,5)])
       (use store_chunk_fresh [OF assms(3)] assms(4) c in simp)
qed

section \<open>Files through their links\<close>

lemma import_data_cases:
  assumes "import_data E data st = Some (Inr l, st')"
  obtains enc where "randomize (is_random (ce_chi E)) (ce_mt E) data (data_seed (ce_cr E) data) = Some (ln_seed l, enc)"
    "store_chunk (ce_cr E) (slice_chunk (ce_cr E) enc) enc st = (Inr (ln_id l), st')"
  using assms
  by (auto simp: import_data_def cf_bind_def cf_do_def cf_ret_def do_randomize_def split: option.splits sum.splits prod.splits)

lemma imported_data:
  assumes "fill_ok E" "import_data E data st = Some (Inr l, st')" "cf_files st (ln_id l) = None" "length data < 2 ^ 32 - 1"
  shows "\<exists>enc. get_chunk E (ln_id l) 0 (- 1) st' = Inr enc \<and> derandomize (ce_mt E) (ln_seed l) enc 0 = data"
proof -
  obtain enc where r: "randomize (is_random (ce_chi E)) (ce_mt E) data (data_seed (ce_cr E) data) = Some (ln_seed l, enc)"
    and s: "store_chunk (ce_cr E) (slice_chunk (ce_cr E) enc) enc st = (Inr (ln_id l), st')"
    using import_data_cases [OF assms(2)] .
  have d: "derandomize (ce_mt E) (ln_seed l) enc 0 = data" "length enc = length data"
    using derandomize_part [OF _ r, of 0 "length data"] by auto
  have "ln_id l = calculate_id (ce_cr E) (slice_chunk (ce_cr E) enc)"
    using s by (auto simp: store_chunk_def Let_def split: option.splits)
  then have "cf_files st' (ln_id l) = Some (pack_header (slice_chunk (ce_cr E) enc) @ enc)"
    using store_chunk_fresh [OF s] assms(3) by simp
  from get_chunk_stored(2) [OF assms(1) this, of 0 0] d assms(4) show ?thesis by auto
qed


lemma length_pack_each: "(\<And>x. x \<in> set xs \<Longrightarrow> length (enc x) = k) \<Longrightarrow> length (pack_each enc xs) = k * length xs"
  by (induction xs) auto

lemma length_pack_file_header: "8 + 28 * length (fh_chunks h) \<le> length (pack_file_header h)"
  using length_pack_each [of "fh_chunks h" "pack_pair (pack_pod 20) (pack_pod 8)" 28]
  by (simp add: pack_file_header_def pack_list_def pack_pair_def pack_pod_def)

lemma header_data_cut:
  assumes "header_data t 0 (pack_file_header h) = Inr d"
  obtains p x where "d = t # p" "pack_file_header h = p @ [x]" "fits32 (length (fh_chunks h))" "length d < 2 ^ 32 - 1"
proof -
  let ?pk = "pack_file_header h"
  have n: "?pk \<noteq> []" using length_pack_file_header [of h] by auto
  have m: "length ?pk \<le> MAX_CHUNK_SIZE - 1" and d: "d = take (length ?pk) (t # ?pk)"
    using assms by (auto simp: header_data_def split: if_splits)
  have "take (length ?pk) (t # ?pk) = t # butlast ?pk" using n by (cases ?pk) (simp_all add: butlast_conv_take)
  moreover have "?pk = butlast ?pk @ [last ?pk]" using n by simp
  moreover have "fits32 (length (fh_chunks h))" using m length_pack_file_header [of h] by (simp add: fits32_def MAX_CHUNK_SIZE_def)
  moreover have "length d < 2 ^ 32 - 1" using m d by (simp add: MAX_CHUNK_SIZE_def)
  ultimately show thesis using that d by metis
qed


lemma unat_less_4gib: "2 ^ 32 \<le> n \<Longrightarrow> unat (r :: u32) < n"
  using unsigned_less [of r, where ?'a = nat] by simp

text \<open>
  A file of 4 GiB or more is never imported: the position in the file is a 32-bit number, so that the loop over the chunks of
  the file cannot reach its end. The import throws or does not return.
\<close>

theorem import_4gib_never:
  assumes "2 ^ 32 \<le> length content"
  shows "import_file E content st \<noteq> Some (Inr h, st')"
proof -
  have *: "2 ^ 32 \<le> n \<longrightarrow> (\<forall>x. fst y \<noteq> Inr x)" if "import_loop E n r chunk rest acc s = Some y" for n r chunk rest acc s y
    by (rule import_loop.raw_induct [where P = "\<lambda>E n r chunk rest acc s y. 2 ^ 32 \<le> n \<longrightarrow> (\<forall>x. fst y \<noteq> Inr x)", OF _ that])
       (fastforce simp: unat_less_4gib Let_def bind_eq_Some_conv store_chunk_id split: if_splits)
  show ?thesis using *[of "length content" 0 "ce_fill E MAX_CHUNK_SIZE" content "[]" st] assms
    by (auto simp: import_file_def cf_bind_def cf_ret_def split: option.splits sum.splits prod.splits)
qed

section \<open>Files of a directory\<close>

lemma save_chunk_cases:
  assumes "save_chunk E cur ents st = Some (Inr ents', st')"
  obtains seed enc cid where "randomize (is_random (ce_chi E)) (ce_mt E) cur (ce_rand E (cf_rand st)) = Some (seed, enc)"
    "store_chunk (ce_cr E) (slice_chunk (ce_cr E) enc) enc (st\<lparr>cf_rand := Suc (cf_rand st)\<rparr>) = (Inr cid, st')"
    "ents' = map (\<lambda>(name, r). if rf_chunk r = 0 then (name, r\<lparr>rf_seed := seed, rf_chunk := cid\<rparr>) else (name, r)) ents"
  using assms
  by (auto simp: save_chunk_def cf_bind_def cf_do_def cf_ret_def do_randomize_def split: option.splits sum.splits prod.splits)

lemma resource_stored:
  assumes "fill_ok E" "randomize (is_random (ce_chi E)) (ce_mt E) data s0 = Some (seed, enc)"
    "cf_files st cid = Some (pack_header (slice_chunk (ce_cr E) enc) @ enc)" "length data < 2 ^ 32 - 1" "p + n \<le> length data"
  shows "get_resource_ref E \<lparr>rf_content = h, rf_chunk = cid, rf_seed = seed, rf_pos = of_nat p, rf_size = of_nat n, rf_type = t\<rparr> st
    = Inr (t # take n (drop p data))"
proof -
  have len: "length enc = length data" using derandomize_part [OF _ assms(2), of 0 0] by simp
  have "get_chunk E cid (of_nat p) (of_nat n) st = Inr (take n (drop p enc))"
    by (rule get_chunk_stored(1) [OF assms(1,3)]) (use assms(4,5) len in simp_all)
  moreover have "derandomize (ce_mt E) seed (take n (drop p enc)) p = take n (drop p data)"
    using derandomize_part [OF assms(5,2)] by simp
  moreover have "unat (of_nat p :: u32) = p" "unat (of_nat n :: u32) = n"
    using assms(4,5) by (simp_all add: unat_of_nat take_bit_nat_eq_self)
  ultimately show ?thesis by (simp add: get_resource_ref_def)
qed

text \<open>
  A file put in the chunk of a directory can be read through its reference once the chunk is saved, whatever other files
  come before and after it in the chunk: the reference in the saved directory has the hash of the file, and the resource it leads to is the file behind its type.
\<close>

theorem directory_file_readable:
  assumes "fill_ok E" "add_to_chunk (ce_cr E) cur file name t ents = Some (cur1, ents1)"
    "save_chunk E (cur1 @ post) (ents1 @ later) st = Some (Inr saved, st')" "length (cur1 @ post) \<le> MAX_CHUNK_SIZE"
    "\<forall>n r. (n, r) \<in> set saved \<longrightarrow> cf_files st (rf_chunk r) = None"
  shows "\<exists>r. (name, r) \<in> set saved \<and> rf_content r = sha1_hash (ce_cr E) file
    \<and> get_resource_ref E r st' = Inr (type_code t # file)"
proof -
  obtain seed enc cid where z: "randomize (is_random (ce_chi E)) (ce_mt E) (cur1 @ post) (ce_rand E (cf_rand st)) = Some (seed, enc)"
    and s: "store_chunk (ce_cr E) (slice_chunk (ce_cr E) enc) enc (st\<lparr>cf_rand := Suc (cf_rand st)\<rparr>) = (Inr cid, st')"
    and m: "saved = map (\<lambda>(name, r). if rf_chunk r = 0 then (name, r\<lparr>rf_seed := seed, rf_chunk := cid\<rparr>) else (name, r)) (ents1 @ later)"
    using save_chunk_cases [OF assms(3)] .
  let ?new = "\<lparr>rf_content = sha1_hash (ce_cr E) file, rf_chunk = cid, rf_seed = seed, rf_pos = of_nat (length cur),
    rf_size = of_nat (length file), rf_type = type_code t\<rparr>"
  have a: "cur1 = cur @ file" "length cur + length file < MAX_CHUNK_SIZE" "ents1 = ents @ [(name, file_ref_new\<lparr>rf_content := sha1_hash (ce_cr E) file,
      rf_pos := of_nat (length cur), rf_size := of_nat (length file), rf_type := type_code t\<rparr>)]"
    using assms(2) by (auto simp: add_to_chunk_def split: if_splits)
  have mem: "(name, ?new) \<in> set saved" unfolding m a(3) by (simp add: file_ref_new_def)
  have "cid = calculate_id (ce_cr E) (slice_chunk (ce_cr E) enc)" using store_chunk_id [of "ce_cr E" _ enc] s by (metis fst_conv sum.inject(2))
  moreover have "cf_files st cid = None" using assms(5) mem by fastforce
  ultimately have f: "cf_files st' cid = Some (pack_header (slice_chunk (ce_cr E) enc) @ enc)" using store_chunk_fresh [OF s] by simp
  have "get_resource_ref E ?new st' = Inr (type_code t # file)"
    using resource_stored [OF assms(1) z f, of "length cur" "length file"] assms(4) a(1) by (simp add: MAX_CHUNK_SIZE_def)
  then show ?thesis using mem by (intro exI [of _ ?new]) simp
qed

section \<open>Witnesses\<close>

text \<open>A store in memory, with the length as the hash and a test that every byte string passes.\<close>

definition cafs_demo :: "(byte list \<times> byte list) list cafs_env" where
  "cafs_demo = \<lparr>ce_cr = demo_crypto\<lparr>sha1_hash := (\<lambda>x. of_nat (length x))\<rparr>, ce_chi = (\<lambda>_ _. True), ce_mt = (\<lambda>s i. ucast s + of_nat i),
     ce_rand = of_nat, ce_fill = (\<lambda>n. replicate n 0), ce_db = list_bdb\<rparr>"

definition cafs_empty :: "(byte list \<times> byte list) list cafs" where
  "cafs_empty = \<lparr>cf_files = (\<lambda>_. None), cf_db = [], cf_rand = 0\<rparr>"

lemma cafs_demo_fill: "fill_ok cafs_demo"
  by (simp add: fill_ok_def cafs_demo_def)

lemma Suc_slices: "0 < n \<Longrightarrow> s = min n 65536 \<Longrightarrow> Suc ((n - s + 65535) div 65536) = (n + 65535) div (65536 :: nat)"
proof (cases "n \<le> 65536")
  case True
  assume "0 < n" "s = min n 65536"
  then have "n + 65535 = n - 1 + 65536" "s = n" "n - 1 < 65536" using True by auto
  then show ?thesis by simp
qed (simp add: min_def le_div_geq)

lemma length_slices: "length (slice_chunk cr data) = (length data + 65535) div 65536"
proof (induction cr data rule: slice_chunk.induct)
  case (1 cr data)
  show ?case
  proof (cases "data = []")
    case False
    define s where "s = min (length data) MIN_SLICE_SIZE"
    have "length (slice_chunk cr (drop s data)) = (length data - s + 65535) div 65536" using 1 [OF False s_def] by simp
    moreover have "Suc ((length data - s + 65535) div 65536) = (length data + 65535) div 65536"
      by (rule Suc_slices) (use False in \<open>simp_all add: s_def MIN_SLICE_SIZE_def\<close>)
    ultimately show ?thesis using slice_chunk_Cons [OF False s_def] by simp
  qed simp
qed

lemma length_pack_header:
  assumes "length ch < 128"
  shows "length (pack_header ch) = 1 + 24 * length ch"
proof -
  have "unat (ucast (of_nat (length ch) :: u32) :: u64) = length ch"
    using assms by (simp add: unsigned_ucast_eq unat_of_nat take_bit_nat_eq_self)
  then have "unat (drop_bit 7 (ucast (of_nat (length ch) :: u32) :: u64)) = unat (0 :: u64)"
    using assms by (simp only: unat_drop_bit_eq) (simp add: drop_bit_eq_div)
  then have "drop_bit 7 (ucast (of_nat (length ch) :: u32) :: u64) = 0" by (simp only: word_unat_eq_iff)
  then have "length (pack_unsigned (of_nat (length ch))) = 1"
    by (simp add: pack_unsigned_def pack_uint.simps [of "ucast (of_nat (length ch) :: u32)"] Let_def)
  then show ?thesis using length_pack_each [of ch pack_slice 24]
    by (simp add: pack_header_def pack_list_def pack_slice_def pack_pod_def)
qed

lemma demo_chunk_id:
  assumes "length data < 65536 * 127"
  shows "calculate_id (ce_cr cafs_demo) (slice_chunk (ce_cr cafs_demo) data) = of_nat (1 + 24 * ((length data + 65535) div 65536))"
  using assms length_pack_header [of "slice_chunk (ce_cr cafs_demo) data"]
  by (simp add: calculate_id_def length_slices) (simp add: cafs_demo_def)

lemma demo_randomize: "randomize (is_random (ce_chi cafs_demo)) (ce_mt cafs_demo) data seed = Some (seed + 1, xor_words (ce_mt cafs_demo (seed + 1)) 0 data)"
  by (subst randomize.simps) (simp add: is_random_def cafs_demo_def Let_def)

lemma demo_import_data:
  assumes "length data < 65536 * 127"
  shows "\<exists>l st'. import_data cafs_demo data st = Some (Inr l, st') \<and> ln_id l = of_nat (1 + 24 * ((length data + 65535) div 65536))"
  using demo_chunk_id [of "xor_words g 0 data" for g] assms
  by (auto simp: import_data_def cf_bind_def do_randomize_def demo_randomize cf_do_def cf_ret_def store_chunk_def Let_def split: option.splits)

theorem cafs_chunk_roundtrip_witness:
  "\<exists>cid st'. get_chunk cafs_demo cid (of_nat 65534) (of_nat 4) st' = Inr (replicate 4 1)"
proof -
  let ?d = "replicate 70000 (1 :: byte)"
  obtain cid st' where s: "store_chunk (ce_cr cafs_demo) (slice_chunk (ce_cr cafs_demo) ?d) ?d cafs_empty = (Inr cid, st')"
    using store_chunk_id [of "ce_cr cafs_demo" "slice_chunk (ce_cr cafs_demo) ?d" ?d cafs_empty] by (metis prod.collapse)
  have "get_chunk cafs_demo cid (of_nat 65534) (of_nat 4) st' = Inr (take 4 (drop 65534 ?d))"
    by (rule cafs_chunk_roundtrip [OF cafs_demo_fill _ s]) (simp_all add: cafs_empty_def)
  then have "get_chunk cafs_demo cid (of_nat 65534) (of_nat 4) st' = Inr (replicate 4 1)" by (simp add: min_def)
  then show ?thesis by blast
qed


lemma demo_import_file:
  assumes "0 < length c" "length c \<le> MAX_CHUNK_SIZE"
  shows "\<exists>seed v. import_file cafs_demo c cafs_empty
      = Some (Inr \<lparr>fh_file_size = of_nat (length c), fh_chunks = [(of_nat (1 + 24 * ((length c + 65535) div 65536)), seed)]\<rparr>,
          cafs_empty\<lparr>cf_files := [of_nat (1 + 24 * ((length c + 65535) div 65536)) \<mapsto> v]\<rparr>)"
proof -
  let ?ch = "overwrite 0 c (ce_fill cafs_demo MAX_CHUNK_SIZE)"
  let ?seed = "data_seed (ce_cr cafs_demo) ?ch + 1"
  let ?e = "take (length c) (xor_words (ce_mt cafs_demo ?seed) 0 ?ch)"
  have fl: "length (ce_fill cafs_demo MAX_CHUNK_SIZE) = MAX_CHUNK_SIZE" using cafs_demo_fill by (simp add: fill_ok_def)
  have l: "length ?e = length c" using assms(2) fl by (simp add: overwrite_def)
  have u: "unat (of_nat (length c) :: u32) = length c"
    using assms(2) by (simp add: MAX_CHUNK_SIZE_def unat_of_nat take_bit_nat_eq_self)
  have i: "calculate_id (ce_cr cafs_demo) (slice_chunk (ce_cr cafs_demo) ?e) = of_nat (1 + 24 * ((length c + 65535) div 65536))"
    using demo_chunk_id [of ?e] l assms(2) by (simp add: MAX_CHUNK_SIZE_def)
  have "import_loop cafs_demo (length c) 0 (ce_fill cafs_demo MAX_CHUNK_SIZE) c [] cafs_empty
      = import_loop cafs_demo (length c) (of_nat (length c)) ?e [] [(of_nat (1 + 24 * ((length c + 65535) div 65536)), ?seed)]
          (cafs_empty\<lparr>cf_files := [of_nat (1 + 24 * ((length c + 65535) div 65536)) \<mapsto>
             pack_header (slice_chunk (ce_cr cafs_demo) ?e) @ ?e]\<rparr>)"
    using assms fl i
    by (subst import_loop.simps) (simp del: of_nat_add of_nat_mult add: Let_def demo_randomize store_chunk_def cafs_empty_def min_absorb2)
  then show ?thesis using u
    by (subst (asm) (2) import_loop.simps) (auto simp: import_file_def cf_bind_def cf_ret_def)
qed


theorem directory_file_readable_witness:
  "\<exists>r saved st'. save_chunk cafs_demo [9, 5, 6] [([97], file_ref_new\<lparr>rf_content := 2, rf_pos := 1, rf_size := 2\<rparr>)] cafs_empty = Some (Inr saved, st')
    \<and> ([97], r) \<in> set saved \<and> get_resource_ref cafs_demo r st' = Inr [0, 5, 6]"
proof -
  let ?ents = "[([97], file_ref_new\<lparr>rf_content := 2, rf_pos := 1, rf_size := 2\<rparr>)]"
  have a: "add_to_chunk (ce_cr cafs_demo) [9] [5, 6] [97] file_data_type [] = Some ([9, 5, 6], ?ents)"
    by (simp add: add_to_chunk_def MAX_CHUNK_SIZE_def cafs_demo_def file_ref_new_def)
  obtain saved st' where s: "save_chunk cafs_demo ([9, 5, 6] @ []) (?ents @ []) cafs_empty = Some (Inr saved, st')"
    by (simp add: save_chunk_def cf_bind_def do_randomize_def demo_randomize cf_do_def cf_ret_def store_chunk_def cafs_empty_def Let_def)
  obtain r where "([97], r) \<in> set saved" "get_resource_ref cafs_demo r st' = Inr (type_code file_data_type # [5, 6])"
    using directory_file_readable [OF cafs_demo_fill a s] by (auto simp: MAX_CHUNK_SIZE_def cafs_empty_def)
  then show ?thesis using s by auto
qed

theorem import_4gib_never_witness: "\<nexists>h st'. import_file cafs_demo (replicate (2 ^ 32) 0) cafs_empty = Some (Inr h, st')"
  using import_4gib_never [of "replicate (2 ^ 32) 0" cafs_demo cafs_empty] by simp

end
