(* ===== verification/Chunk_Service.thy ===== *)
theory Chunk_Service
  imports Chunk_Search Publish_Db Cafs_Props
begin

text \<open>
  The chunk service of src/chunk_service.cpp: the loop that keeps published chunks on enough hosts, and the download of a
  chunk. The loop is a coroutine; \<open>pub_fiber\<close> says where it waits: for the time of the next chunk, for the search, for the
  answer of the host it stores the chunk on, or for something to publish. The functions below are what it does between these
  points; what the clock, the search and the host say is an argument. An exception is not caught in the loop and ends it.
\<close>

section \<open>State\<close>

datatype pub_fiber =
    PL_top
  | PL_sleep u64 sha1 publish_record
  | PL_search sha1 publish_record
  | PL_store sha1 publish_record sha1
  | PL_idle
  | PL_end
  | PL_failed exn

record 'h chunk_service =
  cs_publishing :: bool
  cs_pub_db :: 'h
  cs_loops :: "pub_fiber list"

definition chunk_service_new :: "'h \<Rightarrow> 'h chunk_service" where
  "chunk_service_new h = \<lparr>cs_publishing = False, cs_pub_db = h, cs_loops = []\<rparr>"

definition enable_publishing :: "bool \<Rightarrow> 'h chunk_service \<Rightarrow> 'h chunk_service" where
  "enable_publishing state s =
     (if cs_publishing s \<noteq> state
      then s\<lparr>cs_publishing := state, cs_loops := cs_loops s @ (if state then [PL_top] else [])\<rparr>
      else s)"

definition set_loop :: "nat \<Rightarrow> pub_fiber \<Rightarrow> 'h chunk_service \<Rightarrow> 'h chunk_service" where
  "set_loop i f s = s\<lparr>cs_loops := (cs_loops s)[i := f]\<rparr>"

section \<open>The publish loop\<close>

text \<open>The head of the loop. The time left is unsigned, so that a time in the past is a very long one; \<open>fc::microseconds\<close> makes it
  negative again.\<close>

definition pub_next :: "'h publish_bdb \<Rightarrow> u64 \<Rightarrow> nat \<Rightarrow> 'h chunk_service \<Rightarrow> 'h chunk_service" where
  "pub_next B now i s =
     (if cs_loops s ! i \<noteq> PL_top then s
      else if \<not> cs_publishing s then set_loop i PL_end s
      else case publish_fetch_next B (cs_pub_db s) of
        None \<Rightarrow> set_loop i PL_idle s
      | Some (cid, next_pub) \<Rightarrow>
          let time_till_update = next_update next_pub - now in
          set_loop i (if time_till_update > 0 then PL_sleep time_till_update cid next_pub else PL_search cid next_pub) s)"

definition pub_woken :: "nat \<Rightarrow> 'h chunk_service \<Rightarrow> 'h chunk_service" where
  "pub_woken i s =
     (case cs_loops s ! i of
        PL_sleep d cid r \<Rightarrow> set_loop i (PL_search cid r) s
      | PL_idle \<Rightarrow> set_loop i PL_top s
      | _ \<Rightarrow> s)"

definition pub_finish :: "'h publish_bdb \<Rightarrow> u64 \<Rightarrow> nat \<Rightarrow> sha1 \<Rightarrow> publish_record \<Rightarrow> 'h chunk_service \<Rightarrow> 'h chunk_service" where
  "pub_finish B now i cid r s =
     (case publish_store B cid (r\<lparr>next_update := now + 30 * 1000 * 1000\<rparr>) (cs_pub_db s) of
        (Inl e, h) \<Rightarrow> set_loop i (PL_failed e) (s\<lparr>cs_pub_db := h\<rparr>)
      | (Inr _, h) \<Rightarrow> set_loop i PL_top (s\<lparr>cs_pub_db := h\<rparr>))"

text \<open>The nearest result of the search that does not have the chunk.\<close>

definition store_on_node :: "(sha1, sha1) std_map \<Rightarrow> (sha1, host) std_map \<Rightarrow> sha1 option" where
  "store_on_node hn nn = map_option (host_id \<circ> snd) (find (\<lambda>(d, h). sm_get hn d = None) nn)"

definition pub_searched :: "'h publish_bdb \<Rightarrow> u64 \<Rightarrow> nat \<Rightarrow> ((sha1, sha1) std_map \<times> (sha1, host) std_map) res \<Rightarrow> 'h chunk_service \<Rightarrow> 'h chunk_service" where
  "pub_searched B now i found s =
     (case cs_loops s ! i of
        PL_search cid next_pub \<Rightarrow>
          (case found of
             Inl e \<Rightarrow> set_loop i (PL_failed e) s
           | Inr (hn, nn) \<Rightarrow>
               let r = next_pub\<lparr>host_count := of_nat (length hn)\<rparr> in
               if length hn < unat (desired_host_count r) then
                 (case store_on_node hn nn of
                    None \<Rightarrow> pub_finish B now i cid r s
                  | Some n \<Rightarrow> set_loop i (PL_store cid r n) s)
               else pub_finish B now i cid r s)
      | _ \<Rightarrow> s)"

text \<open>What the chosen host answers; the chunk is read from the file system before it is sent, which may throw as well.\<close>

definition pub_stored :: "'h publish_bdb \<Rightarrow> u64 \<Rightarrow> nat \<Rightarrow> byte res \<Rightarrow> 'h chunk_service \<Rightarrow> 'h chunk_service" where
  "pub_stored B now i resp s =
     (case cs_loops s ! i of
        PL_store cid r n \<Rightarrow>
          (case resp of
             Inl e \<Rightarrow> set_loop i (PL_failed e) s
           | Inr code \<Rightarrow> pub_finish B now i cid (if code = 0 then r\<lparr>host_count := host_count r + 1\<rparr> else r) s)
      | _ \<Rightarrow> s)"

section \<open>Download\<close>

definition fetch_chunk :: "'f cafs_env \<Rightarrow> 'f cafs \<Rightarrow> sha1 \<Rightarrow> byte list res" where
  "fetch_chunk E st cid = get_chunk E cid 0 (- 1) st"

text \<open>The hosts the search found, in order: for each, whether a client for it could be had, and what it sent. An
  exception of the client leaves the loop, one of the fetch does not.\<close>

fun try_hosts :: "crypto \<Rightarrow> sha1 \<Rightarrow> (unit res \<times> byte list res) list \<Rightarrow> byte list option res" where
  "try_hosts cr cid [] = Inr None"
| "try_hosts cr cid ((Inl e, _) # hs) = Inl e"
| "try_hosts cr cid ((Inr _, Inl (Throw t)) # hs) = try_hosts cr cid hs"
| "try_hosts cr cid ((Inr _, Inl e) # hs) = Inl e"
| "try_hosts cr cid ((Inr _, Inr d) # hs) = (if sha1_hash cr d = cid then Inr (Some d) else try_hosts cr cid hs)"

text \<open>After the last host the function ends without a value.\<close>

definition download_chunk :: "'f cafs_env \<Rightarrow> 'f cafs \<Rightarrow> sha1 \<Rightarrow> (unit res \<times> byte list res) list res \<Rightarrow> byte list res" where
  "download_chunk E st cid hosts =
     (case fetch_chunk E st cid of
        Inr d \<Rightarrow> Inr d
      | Inl (Throw t) \<Rightarrow>
          (case hosts of
             Inl e \<Rightarrow> Inl e
           | Inr hs \<Rightarrow>
               (case try_hosts (ce_cr E) cid hs of
                  Inl e \<Rightarrow> Inl e
                | Inr (Some d) \<Rightarrow> Inr d
                | Inr None \<Rightarrow> Inl (Undefined ''end of a function without a value'')))
      | Inl e \<Rightarrow> Inl e)"

section \<open>Everyone's turn\<close>

text \<open>One pass through the loop whose search and whose host answer: the times of its head and its end, what the search found and
  what the host said.\<close>

record pub_turn_env =
  pt_head :: u64
  pt_end :: u64
  pt_hosts :: "(sha1, sha1) std_map"
  pt_near :: "(sha1, host) std_map"
  pt_reply :: byte

definition pub_turn :: "'h publish_bdb \<Rightarrow> nat \<Rightarrow> pub_turn_env \<Rightarrow> 'h chunk_service \<Rightarrow> 'h chunk_service" where
  "pub_turn B i e s =
     pub_stored B (pt_end e) i (Inr (pt_reply e))
       (pub_searched B (pt_end e) i (Inr (pt_hosts e, pt_near e))
         (pub_woken i (pub_next B (pt_head e) i s)))"

text \<open>The chunks the passes search for, in order.\<close>

fun pub_turns :: "'h publish_bdb \<Rightarrow> nat \<Rightarrow> pub_turn_env list \<Rightarrow> 'h chunk_service \<Rightarrow> sha1 list \<times> 'h chunk_service" where
  "pub_turns B i [] s = ([], s)"
| "pub_turns B i (e # es) s =
     (let c = (case publish_fetch_next B (cs_pub_db s) of None \<Rightarrow> [] | Some (cid, _) \<Rightarrow> [cid]);
          (cs, s') = pub_turns B i es (pub_turn B i e s)
      in (c @ cs, s'))"

lemma set_loop_simps [simp]:
  "cs_publishing (set_loop i f s) = cs_publishing s" "cs_pub_db (set_loop i f s) = cs_pub_db s"
  "length (cs_loops (set_loop i f s)) = length (cs_loops s)" "i < length (cs_loops s) \<Longrightarrow> cs_loops (set_loop i f s) ! i = f"
  by (simp_all add: set_loop_def)

definition never_fails :: "('h, 'v) bdb \<Rightarrow> bool" where
  "never_fails B \<longleftrightarrow> (\<forall>h k v. db_put B h k v \<noteq> None)"

lemma publish_store_succeeds:
  assumes "bdb_ok B" "never_fails B"
  shows "\<exists>h'. publish_store B cid r h = (Inr True, h')"
proof (cases "db_put B h (sha1_data cid) r")
  case None
  then show ?thesis using assms(2) unfolding never_fails_def by metis
next
  case (Some h')
  then have "db_get B h' (sha1_data cid) = Some r" using bdb_okD(1) [OF assms(1)] by simp
  then have "(sha1_data cid, r) \<in> set (db_recs B h')" using bdb_okD(2) [OF assms(1)] by simp
  then show ?thesis using Some by (auto simp: publish_store_def Let_def)
qed

lemma pub_finish_ok:
  assumes "bdb_ok B" "never_fails B"
  shows "\<exists>h'. publish_store B cid (r\<lparr>next_update := now + 30000000\<rparr>) (cs_pub_db s) = (Inr True, h')
    \<and> pub_finish B now i cid r (set_loop i f s) = set_loop i PL_top (s\<lparr>cs_pub_db := h'\<rparr>)"
  using publish_store_succeeds [OF assms(1,2), of cid "r\<lparr>next_update := now + 30000000\<rparr>" "cs_pub_db s"]
  by (auto simp: pub_finish_def set_loop_def)

text \<open>A pass looks at the next chunk and puts it back with the new time.\<close>

lemma pub_turn_store:
  assumes "bdb_ok B" "never_fails B" "cs_publishing s" "i < length (cs_loops s)" "cs_loops s ! i = PL_top"
    "publish_fetch_next B (cs_pub_db s) = Some (cid, r0)"
  shows "\<exists>r h'. publish_store B cid (r\<lparr>next_update := pt_end e + 30000000\<rparr>) (cs_pub_db s) = (Inr True, h')
    \<and> pub_turn B i e s = set_loop i PL_top (s\<lparr>cs_pub_db := h'\<rparr>)"
proof -
  let ?r = "r0\<lparr>host_count := of_nat (length (pt_hosts e))\<rparr>"
  have s2: "pub_woken i (pub_next B (pt_head e) i s) = set_loop i (PL_search cid r0) s"
    using assms(3-6) by (auto simp: pub_next_def pub_woken_def Let_def set_loop_def)
  have fin: "\<exists>r h'. publish_store B cid (r\<lparr>next_update := pt_end e + 30000000\<rparr>) (cs_pub_db s) = (Inr True, h')
      \<and> pub_finish B (pt_end e) i cid r1 (set_loop i f s) = set_loop i PL_top (s\<lparr>cs_pub_db := h'\<rparr>)" for r1 f
    using pub_finish_ok [OF assms(1,2)] by blast
  have top: "pub_stored B (pt_end e) i x (set_loop i PL_top t) = set_loop i PL_top t" if "i < length (cs_loops t)" for x t
    using that by (simp add: pub_stored_def)
  show ?thesis
  proof (cases "length (pt_hosts e) < unat (desired_host_count r0) \<and> store_on_node (pt_hosts e) (pt_near e) \<noteq> None")
    case True
    then obtain n where "store_on_node (pt_hosts e) (pt_near e) = Some n" by blast
    then have "pub_turn B i e s = pub_finish B (pt_end e) i cid (if pt_reply e = 0 then ?r\<lparr>host_count := host_count ?r + 1\<rparr> else ?r)
        (set_loop i (PL_store cid ?r n) s)"
      using True assms(4) by (simp add: pub_turn_def s2 pub_searched_def pub_stored_def Let_def) (simp add: set_loop_def)
    then show ?thesis using fin by metis
  next
    case False
    then have "pub_searched B (pt_end e) i (Inr (pt_hosts e, pt_near e)) (set_loop i (PL_search cid r0) s)
        = pub_finish B (pt_end e) i cid ?r (set_loop i (PL_search cid r0) s)"
      using assms(4) by (auto simp: pub_searched_def Let_def split: option.splits)
    moreover obtain r h' where "publish_store B cid (r\<lparr>next_update := pt_end e + 30000000\<rparr>) (cs_pub_db s) = (Inr True, h')"
      "pub_finish B (pt_end e) i cid ?r (set_loop i (PL_search cid r0) s) = set_loop i PL_top (s\<lparr>cs_pub_db := h'\<rparr>)"
      using fin by blast
    moreover have "i < length (cs_loops (s\<lparr>cs_pub_db := h'\<rparr>))" using assms(4) by simp
    ultimately show ?thesis using top unfolding pub_turn_def s2 by metis
  qed
qed

abbreviation rescheduled :: "'h publish_bdb \<Rightarrow> sha1 \<Rightarrow> publish_record \<Rightarrow> 'h \<Rightarrow> 'h \<Rightarrow> bool" where
  "rescheduled B cid r h h' \<equiv> publish_store B cid r h = (Inr True, h')"

lemma next_update_time:
  assumes "uint (t :: u64) < 2 ^ 63 - 30000000"
  shows "get_publish_next (r\<lparr>next_update := t + 30000000\<rparr>) = uint t + 30000000"
proof -
  have u: "uint t = int (unat t)" by simp
  have "(2 :: int) ^ 63 - 30000000 = int (2 ^ 63 - 30000000)" by simp
  then have t: "unat t < 2 ^ 63 - 30000000" using assms u by (simp only: of_nat_less_iff)
  then have "unat t + unat (30000000 :: u64) < 2 ^ LENGTH(64)" by simp
  then have "unat (t + 30000000) = unat t + unat (30000000 :: u64)" by (simp only: unat_add_lem [symmetric])
  then have "unat (t + 30000000) = unat t + 30000000" by simp
  then show ?thesis using t u by (simp only: get_publish_next_def sint_unat publish_record.simps) simp
qed

lemma pub_turns_turns:
  assumes "bdb_ok B" "next_index_ok B" "never_fails B" "publish_inv B q" "dom (published B q) \<noteq> {}"
    "\<forall>c r. published B q c = Some r \<longrightarrow> get_publish_next r \<le> T0 + 30000000"
    "turns (publish_fetch_next B) (rescheduled B) T0 q cs0 T (cs_pub_db s)"
    "cs_publishing s" "i < length (cs_loops s)" "cs_loops s ! i = PL_top"
    "sorted_wrt (<) (T # map (uint \<circ> pt_end) es)" "\<forall>e \<in> set es. uint (pt_end e) < 2 ^ 63 - 30000000"
  shows "\<exists>cs T' q'. turns (publish_fetch_next B) (rescheduled B) T0 q (cs0 @ cs) T' q' \<and> fst (pub_turns B i es s) = cs \<and> length cs = length es"
  using assms(7-)
proof (induction es arbitrary: s cs0 T)
  case Nil
  then show ?case by auto
next
  case (Cons e es)
  note inv = pubq.turns_inv [OF Cons.prems(1)] assms(1,2,4,6)
  have ok: "bdb_ok B \<and> next_index_ok B \<and> publish_inv B (cs_pub_db s)" and dm: "dom (published B (cs_pub_db s)) = dom (published B q)"
    using inv by blast+
  obtain cid r0 where n: "publish_fetch_next B (cs_pub_db s) = Some (cid, r0)"
    using pubq.next_None [OF ok] dm assms(5) by (cases "publish_fetch_next B (cs_pub_db s)") auto
  obtain r h' where st: "publish_store B cid (r\<lparr>next_update := pt_end e + 30000000\<rparr>) (cs_pub_db s) = (Inr True, h')"
    and tn: "pub_turn B i e s = set_loop i PL_top (s\<lparr>cs_pub_db := h'\<rparr>)"
    using pub_turn_store [OF assms(1,3) Cons.prems(2-4) n] by blast
  have "turns (publish_fetch_next B) (rescheduled B) T0 q (cs0 @ [cid]) (uint (pt_end e)) (cs_pub_db (pub_turn B i e s))"
    using turns.turn [OF Cons.prems(1) n st] next_update_time [of "pt_end e" r] Cons.prems(5,6) tn by simp
  from Cons.IH [OF this] obtain cs T' q' where
    "turns (publish_fetch_next B) (rescheduled B) T0 q ((cs0 @ [cid]) @ cs) T' q'" "fst (pub_turns B i es (pub_turn B i e s)) = cs" "length cs = length es"
    using Cons.prems(2-6) tn by auto
  then show ?case using n by (intro exI [of _ "cid # cs"]) (auto simp: Let_def split: prod.splits)
qed

lemma finite_published:
  assumes "bdb_ok B"
  shows "finite (dom (published B h))"
proof (rule finite_subset)
  show "dom (published B h) \<subseteq> (\<lambda>e. of_le_bytes (fst e)) ` set (db_recs B h)"
    using bdb_okD(2) [OF assms] by (force simp: published_def image_iff)
qed simp

text \<open>
  C9: the publish loop serves every published chunk: if no chunk is due later than thirty seconds after the start, as
  after every pass, then as many passes as there are chunks, each ending later than the one before, look at every chunk. This holds whatever the searches find and
  whatever the hosts answer, as long as they do.
\<close>

theorem publish_serves_all:
  assumes "bdb_ok B" "next_index_ok B" "never_fails B" "publish_inv B (cs_pub_db s)"
    "cs_publishing s" "i < length (cs_loops s)" "cs_loops s ! i = PL_top"
    "\<forall>c r. published B (cs_pub_db s) c = Some r \<longrightarrow> get_publish_next r \<le> T + 30000000"
    "sorted_wrt (<) (T # map (uint \<circ> pt_end) es)" "\<forall>e \<in> set es. uint (pt_end e) < 2 ^ 63 - 30000000"
    "length es = card (dom (published B (cs_pub_db s)))"
  shows "set (fst (pub_turns B i es s)) = dom (published B (cs_pub_db s))"
proof (cases "dom (published B (cs_pub_db s)) = {}")
  case True
  then show ?thesis using assms(11) by simp
next
  case False
  obtain cs T' q' where t: "turns (publish_fetch_next B) (rescheduled B) T (cs_pub_db s) cs T' q'" "fst (pub_turns B i es s) = cs" "length cs = length es"
    using pub_turns_turns [OF assms(1-4) False assms(8) turns.start assms(5-7,9,10)] by auto
  show ?thesis
    using pubq.turn_for_everyone [OF t(1)] assms(1,2,4,8,11) finite_published [OF assms(1)] t(2,3) by simp
qed

text \<open>A database in memory whose index is sorted by the time of the next update.\<close>

definition next_bdb :: "((byte list \<times> publish_record) list, publish_record) bdb" where
  "next_bdb = list_bdb\<lparr>db_index := (\<lambda>h. sort_key (\<lambda>e. get_publish_next (snd e)) (AList.clearjunk h))\<rparr>"

lemma next_bdb_ok: "bdb_ok next_bdb" "next_index_ok next_bdb" "never_fails next_bdb"
proof -
  show "bdb_ok next_bdb" using list_bdb_ok [where ?'a = publish_record] by (simp add: bdb_ok_def next_bdb_def list_bdb_def)
  have c: "compare_i64 a b \<le> 0 \<longleftrightarrow> a \<le> b" for a b by (auto simp: compare_i64_def)
  show "next_index_ok next_bdb"
    by (simp add: next_index_ok_def next_bdb_def c flip: sorted_wrt_map [of "(\<le>)" "\<lambda>e. get_publish_next (snd e)"])
  show "never_fails next_bdb" by (simp add: never_fails_def next_bdb_def list_bdb_def)
qed

definition pub_demo :: "(byte list \<times> publish_record) list chunk_service" where
  "pub_demo = (enable_publishing True (chunk_service_new [(sha1_data 4, publish_new 500 0 0 3), (sha1_data 9, publish_new 200 0 0 3)]))"

theorem publish_serves_all_witness:
  "set (fst (pub_turns next_bdb 0 [\<lparr>pt_head = 1000, pt_end = 2000, pt_hosts = [], pt_near = [], pt_reply = 0\<rparr>,
      \<lparr>pt_head = 3000, pt_end = 4000, pt_hosts = [], pt_near = [(3, \<lparr>host_id = 7, host_ep = (1, 2), nat_hosts = []\<rparr>)], pt_reply = 0\<rparr>] pub_demo))
   = {4, 9}"
proof -
  let ?es = "[\<lparr>pt_head = 1000, pt_end = 2000, pt_hosts = [], pt_near = [], pt_reply = 0\<rparr>,
      \<lparr>pt_head = 3000, pt_end = 4000, pt_hosts = [], pt_near = [(3, \<lparr>host_id = 7, host_ep = (1, 2), nat_hosts = []\<rparr>)], pt_reply = 0\<rparr>]"
  have m: "published next_bdb (cs_pub_db pub_demo) = [4 \<mapsto> publish_new 500 0 0 3, 9 \<mapsto> publish_new 200 0 0 3]"
    by (rule ext) (simp add: published_def next_bdb_def list_bdb_def pub_demo_def enable_publishing_def chunk_service_new_def)
  then have d: "dom (published next_bdb (cs_pub_db pub_demo)) = {4, 9}" by auto
  have i: "publish_inv next_bdb (cs_pub_db pub_demo)"
    by (auto simp: publish_inv_def next_bdb_def list_bdb_def pub_demo_def enable_publishing_def chunk_service_new_def split: if_splits)
  have "set (fst (pub_turns next_bdb 0 ?es pub_demo)) = dom (published next_bdb (cs_pub_db pub_demo))"
  proof (rule publish_serves_all [OF next_bdb_ok i, where T = 1000])
    show "\<forall>c r. published next_bdb (cs_pub_db pub_demo) c = Some r \<longrightarrow> get_publish_next r \<le> 1000 + 30000000"
      unfolding m by (auto simp: publish_new_def get_publish_next_def split: if_splits)
    show "length ?es = card (dom (published next_bdb (cs_pub_db pub_demo)))" unfolding d by simp
  qed (simp_all add: pub_demo_def enable_publishing_def chunk_service_new_def)
  then show ?thesis unfolding d .
qed

section \<open>Starting and failing\<close>

text \<open>Publishing switched off and on again while the loop waits leaves it running and starts a second one.\<close>

lemma publishing_twice:
  assumes "cs_publishing s" "i < length (cs_loops s)" "s' = enable_publishing True (enable_publishing False s)"
  shows "cs_publishing s'" "cs_loops s' ! i = cs_loops s ! i" "cs_loops s' ! length (cs_loops s) = PL_top"
  using assms by (simp_all add: enable_publishing_def nth_append)

text \<open>A search that fails ends the loop, while the service still counts as publishing, so that it cannot be started again.\<close>

lemma publishing_stuck:
  assumes "cs_publishing s" "i < length (cs_loops s)" "cs_loops s ! i = PL_search cid r" "s' = pub_searched B now i (Inl e) s"
  shows "cs_loops s' ! i = PL_failed e" "enable_publishing True s' = s'"
  using assms by (simp_all add: pub_searched_def enable_publishing_def)

section \<open>Downloads\<close>

definition received :: "(unit res \<times> byte list res) list \<Rightarrow> byte list list" where
  "received hs = concat (map (\<lambda>(c, r). case r of Inr d \<Rightarrow> [d] | Inl _ \<Rightarrow> []) hs)"

lemma try_hosts_find:
  assumes "\<forall>(c, r) \<in> set hs. c = Inr () \<and> (\<forall>e. r = Inl e \<longrightarrow> (\<exists>t. e = Throw t))"
  shows "try_hosts cr cid hs = Inr (find (\<lambda>d. sha1_hash cr d = cid) (received hs))"
  using assms
  by (induction cr cid hs rule: try_hosts.induct) (auto simp: received_def)

text \<open>
  A chunk that is not in the file system is taken from the first of its hosts that sends bytes whose hash is the id of the chunk;
  a host that sends nothing or something else is passed over. If there is no such host, the function ends without a
  value.
\<close>

theorem download_chunk_outcome:
  assumes "fetch_chunk E st cid = Inl (Throw t)" "\<forall>(c, r) \<in> set hs. c = Inr () \<and> (\<forall>e. r = Inl e \<longrightarrow> (\<exists>t. e = Throw t))"
  shows "download_chunk E st cid (Inr hs) =
    (case find (\<lambda>d. sha1_hash (ce_cr E) d = cid) (received hs) of
       Some d \<Rightarrow> Inr d
     | None \<Rightarrow> Inl (Undefined ''end of a function without a value''))"
  using assms(1) try_hosts_find [OF assms(2), of "ce_cr E" cid] by (simp add: download_chunk_def split: option.splits)

theorem download_chunk_outcome_witness:
  "download_chunk cafs_demo cafs_empty 3 (Inr [(Inr (), Inl (Throw ''timeout'')), (Inr (), Inr [1]), (Inr (), Inr [1, 2, 3])]) = Inr [1, 2, 3]"
proof -
  have "fetch_chunk cafs_demo cafs_empty 3 = Inl (Throw ''File does not exist'')" by (simp add: fetch_chunk_def get_chunk_def cafs_empty_def)
  from download_chunk_outcome [OF this, of "[(Inr (), Inl (Throw ''timeout'')), (Inr (), Inr [1]), (Inr (), Inr [1, 2, 3])]"]
  show ?thesis by (simp add: received_def cafs_demo_def)
qed

text \<open>The id of a chunk in the file system is the hash of its header. A host that sends the data of a chunk as it is stored is passed over,
  unless the hash of the data is that of the header.\<close>

lemma stored_chunk_refused:
  assumes "fetch_chunk E st cid = Inl (Throw t)" "cid = calculate_id (ce_cr E) (slice_chunk (ce_cr E) d)"
    "sha1_hash (ce_cr E) d \<noteq> sha1_hash (ce_cr E) (pack_header (slice_chunk (ce_cr E) d))"
  shows "download_chunk E st cid (Inr [(Inr (), Inr d)]) = Inl (Undefined ''end of a function without a value'')"
  using assms by (simp add: download_chunk_def calculate_id_def)

end
