(* ===== verification/Raw_Rpc.thy ===== *)
theory Raw_Rpc
  imports Raw
begin

text \<open>
  Remote calls over a channel (src/raw_rpc.cpp, include/tornet/raw_rpc.hpp). A call is sent as a message with a request number;
  its promise waits in a singly linked list until a message with that number comes back. The promises are objects in a
  heap, given by their address, and the list is made of their \<open>_next\<close> pointers. What a method does is an entry of the table
  of methods, over the state of the service behind it; what a promise makes of the bytes of a result is part of the promise.
  The channel is the bytes it delivers and the bytes written to it. A loop along the pointers need not end: its
  value is \<open>None\<close> then.
\<close>

section \<open>Messages\<close>

record rpc_message =
  rm_id :: u16
  rm_type :: byte
  rm_method :: u32
  rm_data :: "byte list"

definition rpc_notice :: byte where "rpc_notice = 1"
definition rpc_call :: byte where "rpc_call = 2"
definition rpc_result :: byte where "rpc_result = 3"
definition rpc_error :: byte where "rpc_error = 4"

definition pack_message :: "rpc_message \<Rightarrow> byte list" where
  "pack_message m = pack_pod 2 (rm_id m) @ pack_pod 1 (rm_type m) @ pack_unsigned (rm_method m) @ pack_bytes (rm_data m)"

definition unpack_message :: "rpc_message unpacker" where
  "unpack_message = bindc (unpack_pod 2) (\<lambda>i. bindc (unpack_pod 1) (\<lambda>t. bindc unpack_unsigned (\<lambda>me. bindc unpack_bytes (\<lambda>d.
     ret \<lparr>rm_id = i, rm_type = t, rm_method = me, rm_data = d\<rparr>))))"

section \<open>State\<close>

datatype 'v outcome = Waiting | Value_set 'v | Canceled

record 'v promise =
  pr_req_id :: u16
  pr_next :: "nat option"
  pr_unpack :: "byte list \<Rightarrow> 'v res"
  pr_outcome :: "'v outcome"

type_synonym 's rpc_method = "byte list \<Rightarrow> ('s, byte list) cmd"

record ('v, 's) rpc =
  rp_heap :: "'v promise list"
  rp_head :: "nat option"
  rp_tail :: "nat option"
  rp_req_id :: u16
  rp_methods :: "u32 \<Rightarrow> 's rpc_method option"
  rp_service :: 's
  rp_open :: bool
  rp_out :: "byte list"

definition rpc_new :: "'s \<Rightarrow> ('v, 's) rpc" where
  "rpc_new sv = \<lparr>rp_heap = [], rp_head = None, rp_tail = None, rp_req_id = 0, rp_methods = Map.empty, rp_service = sv, rp_open = False, rp_out = []\<rparr>"

definition set_next :: "nat \<Rightarrow> nat option \<Rightarrow> ('v, 's) rpc \<Rightarrow> ('v, 's) rpc" where
  "set_next a nx s = s\<lparr>rp_heap := (rp_heap s)[a := (rp_heap s ! a)\<lparr>pr_next := nx\<rparr>]\<rparr>"

definition set_outcome :: "nat \<Rightarrow> 'v outcome \<Rightarrow> ('v, 's) rpc \<Rightarrow> ('v, 's) rpc" where
  "set_outcome a oc s = s\<lparr>rp_heap := (rp_heap s)[a := (rp_heap s ! a)\<lparr>pr_outcome := oc\<rparr>]\<rparr>"

section \<open>The list of pending promises\<close>

definition enqueue_promise :: "nat \<Rightarrow> ('v, 's) rpc \<Rightarrow> ('v, 's) rpc" where
  "enqueue_promise a s0 =
     (let s = set_next a None s0 in
      case rp_tail s of
        Some t \<Rightarrow> (set_next t (Some a) s)\<lparr>rp_tail := Some a\<rparr>
      | None \<Rightarrow> s\<lparr>rp_head := Some a, rp_tail := Some a\<rparr>)"

partial_function (option) pop_find :: "'v promise list \<Rightarrow> u16 \<Rightarrow> nat option \<Rightarrow> nat option \<Rightarrow> (nat option \<times> nat) option option" where
  "pop_find hp i prev cur =
     (case cur of
        None \<Rightarrow> Some None
      | Some a \<Rightarrow> if pr_req_id (hp ! a) = i then Some (Some (prev, a)) else pop_find hp i (Some a) (pr_next (hp ! a)))"

definition unlink :: "nat option \<Rightarrow> nat \<Rightarrow> ('v, 's) rpc \<Rightarrow> ('v, 's) rpc" where
  "unlink prev a s =
     (let nx = pr_next (rp_heap s ! a);
          s1 = (case prev of Some p \<Rightarrow> set_next p nx s | None \<Rightarrow> s\<lparr>rp_head := nx\<rparr>);
          s2 = (if rp_tail s1 = Some a then s1\<lparr>rp_tail := prev\<rparr> else s1)
      in set_next a None s2)"

definition pop_promise :: "u16 \<Rightarrow> ('v, 's) rpc \<Rightarrow> (nat option \<times> ('v, 's) rpc) option" where
  "pop_promise i s =
     (case pop_find (rp_heap s) i None (rp_head s) of
        None \<Rightarrow> None
      | Some None \<Rightarrow> Some (None, s)
      | Some (Some (prev, a)) \<Rightarrow> Some (Some a, unlink prev a s))"

section \<open>Sending\<close>

definition rpc_send :: "rpc_message \<Rightarrow> (('v, 's) rpc, unit) cmd" where
  "rpc_send m s =
     (if rp_open s then (Inr (), s\<lparr>rp_out := rp_out s @ pack_message m\<rparr>) else (Inl (Throw ''channel closed''), s))"

definition rpc_connect :: "('v, 's) rpc \<Rightarrow> ('v, 's) rpc" where
  "rpc_connect s = s\<lparr>rp_open := True, rp_out := []\<rparr>"

definition add_method :: "u32 \<Rightarrow> 's rpc_method \<Rightarrow> ('v, 's) rpc \<Rightarrow> ('v, 's) rpc" where
  "add_method mid f s = s\<lparr>rp_methods := (rp_methods s)(mid \<mapsto> f)\<rparr>"

text \<open>The result of \<open>invoke\<close> is the future of the new promise, here its address. \<open>unp\<close> reads the type of the result.\<close>

definition invoke :: "u32 \<Rightarrow> byte list \<Rightarrow> (byte list \<Rightarrow> 'v res) \<Rightarrow> (('v, 's) rpc, nat) cmd" where
  "invoke mid arg unp =
     bindc getc (\<lambda>s.
       let i = rp_req_id s + 1; a = length (rp_heap s) in
       andthen (modc (\<lambda>s. s\<lparr>rp_req_id := i,
           rp_heap := rp_heap s @ [\<lparr>pr_req_id = i, pr_next = None, pr_unpack = unp, pr_outcome = Waiting\<rparr>]\<rparr>))
      (andthen (modc (enqueue_promise a))
      (andthen (rpc_send \<lparr>rm_id = i, rm_type = rpc_call, rm_method = mid, rm_data = arg\<rparr>)
      (ret a))))"

text \<open>A notice leaves the number of its message uninitialised: \<open>junk\<close>.\<close>

definition notice :: "u16 \<Rightarrow> u32 \<Rightarrow> byte list \<Rightarrow> (('v, 's) rpc, unit) cmd" where
  "notice junk mid arg = rpc_send \<lparr>rm_id = junk, rm_type = rpc_notice, rm_method = mid, rm_data = arg\<rparr>"

section \<open>Receiving\<close>

text \<open>A promise takes its value, unless the bytes cannot be read as one.\<close>

definition handle_result :: "nat \<Rightarrow> byte list \<Rightarrow> (('v, 's) rpc, unit) cmd" where
  "handle_result a data s =
     (case pr_unpack (rp_heap s ! a) data of Inl e \<Rightarrow> (Inl e, s) | Inr v \<Rightarrow> (Inr (), set_outcome a (Value_set v) s))"

definition call_method :: "u32 \<Rightarrow> byte list \<Rightarrow> (('v, 's) rpc, byte list) cmd" where
  "call_method mid arg s =
     (case rp_methods s mid of
        None \<Rightarrow> (Inr [], s)
      | Some f \<Rightarrow> liftc rp_service (\<lambda>sv s. s\<lparr>rp_service := sv\<rparr>) (f arg) s)"

definition handle_message :: "rpc_message \<Rightarrow> ('v, 's) rpc \<Rightarrow> (unit res \<times> ('v, 's) rpc) option" where
  "handle_message m s =
     (if rm_type m = rpc_result then
        (case pop_promise (rm_id m) s of
           None \<Rightarrow> None
         | Some (Some a, s') \<Rightarrow> Some (handle_result a (rm_data m) s')
         | Some (None, s') \<Rightarrow> Some (Inr (), s'))
      else if rm_type m = rpc_error then
        (case pop_promise (rm_id m) s of None \<Rightarrow> None | Some (_, s') \<Rightarrow> Some (Inr (), s'))
      else if rm_type m = rpc_notice then Some (bindc (call_method (rm_method m) (rm_data m)) (\<lambda>_. ret ()) s)
      else if rm_type m = rpc_call then
        Some (bindc (call_method (rm_method m) (rm_data m)) (\<lambda>d.
          rpc_send \<lparr>rm_id = rm_id m, rm_type = rpc_result, rm_method = rm_method m, rm_data = d\<rparr>) s)
      else Some (Inr (), s))"

text \<open>The loop on what the channel delivers until it ends; an exception ends the loop.\<close>

partial_function (option) read_loop :: "byte list \<Rightarrow> ('v, 's) rpc \<Rightarrow> ('v, 's) rpc option" where
  "read_loop strm s =
     (case unpack_message strm of
        (Inl e, _) \<Rightarrow> Some s
      | (Inr m, r) \<Rightarrow> Option.bind (handle_message m s) (\<lambda>(x, s'). case x of Inl e \<Rightarrow> Some s' | Inr _ \<Rightarrow> read_loop r s'))"

text \<open>The destructor closes the channel and cancels what is pending.\<close>

partial_function (option) cancel_all :: "('v, 's) rpc \<Rightarrow> ('v, 's) rpc option" where
  "cancel_all s =
     (case rp_head s of
        None \<Rightarrow> Some s
      | Some a \<Rightarrow> cancel_all ((set_outcome a Canceled s)\<lparr>rp_head := pr_next (rp_heap s ! a)\<rparr>))"

definition rpc_destroy :: "('v, 's) rpc \<Rightarrow> ('v, 's) rpc option" where
  "rpc_destroy s = cancel_all (s\<lparr>rp_open := False\<rparr>)"

section \<open>Pointers as lists\<close>

fun chain :: "'v promise list \<Rightarrow> nat option \<Rightarrow> nat list \<Rightarrow> bool" where
  "chain hp p [] = (p = None)"
| "chain hp p (a # as) = (p = Some a \<and> a < length hp \<and> chain hp (pr_next (hp ! a)) as)"

definition pending :: "('v, 's) rpc \<Rightarrow> nat list \<Rightarrow> bool" where
  "pending s as \<longleftrightarrow> chain (rp_heap s) (rp_head s) as \<and> distinct as \<and> rp_tail s = (if as = [] then None else Some (last as))"

lemma chain_valid: "chain hp p as \<Longrightarrow> a \<in> set as \<Longrightarrow> a < length hp"
  by (induction as arbitrary: p) auto

lemma chain_other: "chain hp p as \<Longrightarrow> x \<notin> set as \<Longrightarrow> chain (hp[x := pr]) p as"
  by (induction as arbitrary: p) auto

lemma chain_outcome: "chain hp p as \<Longrightarrow> chain (hp[x := (hp ! x)\<lparr>pr_outcome := oc\<rparr>]) p as"
  by (induction as arbitrary: p) (auto, metis nth_list_update_eq nth_list_update_neq promise.select_convs(2) promise.update_convs(4) promise.surjective)

lemma chain_grow: "chain hp p as \<Longrightarrow> chain (hp @ ps) p as"
  by (induction as arbitrary: p) (auto simp: nth_append)

text \<open>The last pointer of a chain is what follows it.\<close>

lemma chain_append:
  assumes "distinct (us @ vs)" "us \<noteq> []" "chain hp p (us @ ws)" "chain hp q vs"
  shows "chain (hp[last us := (hp ! last us)\<lparr>pr_next := q\<rparr>]) p (us @ vs)"
  using assms
proof (induction us arbitrary: p)
  case (Cons u us)
  show ?case
  proof (cases "us = []")
    case True
    then show ?thesis using Cons.prems by (auto intro: chain_other)
  next
    case False
    then have "last us \<noteq> u" using Cons.prems(1) last_in_set [OF False] by auto
    then show ?thesis using Cons.IH [of "pr_next (hp ! u)"] Cons.prems False by simp
  qed
qed simp

lemma chain_drop: "chain hp p (us @ a # ws) \<Longrightarrow> chain hp (pr_next (hp ! a)) ws"
  by (induction us arbitrary: p) auto

lemma pop_find_hit:
  assumes "chain hp p (us @ a # ws)" "\<forall>u \<in> set us. pr_req_id (hp ! u) \<noteq> i" "pr_req_id (hp ! a) = i"
  shows "pop_find hp i prev p = Some (Some (last (prev # map Some us), a))"
  using assms
proof (induction us arbitrary: p prev)
  case Nil
  then show ?case by (subst pop_find.simps) simp
next
  case (Cons u us)
  then show ?case using Cons.IH [of "pr_next (hp ! u)" "Some u"] by (subst pop_find.simps) simp
qed

lemma pop_find_miss:
  assumes "chain hp p as" "\<forall>u \<in> set as. pr_req_id (hp ! u) \<noteq> i"
  shows "pop_find hp i prev p = Some None"
  using assms
proof (induction as arbitrary: p prev)
  case Nil
  then show ?case by (subst pop_find.simps) simp
next
  case (Cons u us)
  then show ?case by (subst pop_find.simps) simp
qed

lemma pending_enqueue:
  assumes "pending s as" "a < length (rp_heap s)" "a \<notin> set as"
  shows "pending (enqueue_promise a s) (as @ [a])"
proof (cases "as = []")
  case True
  then show ?thesis using assms by (simp add: pending_def enqueue_promise_def Let_def set_next_def)
next
  case False
  let ?hp = "(rp_heap s)[a := (rp_heap s ! a)\<lparr>pr_next := None\<rparr>]"
  have c: "chain ?hp (rp_head s) (as @ [])" using assms by (simp add: pending_def chain_other)
  have l: "last as \<in> set as" "last as \<noteq> a" using False assms(3) by auto
  have "chain (?hp[last as := (?hp ! last as)\<lparr>pr_next := Some a\<rparr>]) (rp_head s) (as @ [a])"
    by (rule chain_append [OF _ False c]) (use assms in \<open>auto simp: pending_def\<close>)
  then show ?thesis using assms False by (simp add: pending_def enqueue_promise_def Let_def set_next_def)
qed

lemma pending_unlink:
  assumes "pending s (us @ a # ws)"
  shows "pending (unlink (last (None # map Some us)) a s) (us @ ws)"
proof -
  let ?hp = "rp_heap s" and ?nx = "pr_next (rp_heap s ! a)"
  have c: "chain ?hp (rp_head s) (us @ a # ws)" and d: "distinct (us @ a # ws)" and t: "rp_tail s = Some (last (us @ a # ws))"
    using assms by (simp_all add: pending_def)
  have w: "chain ?hp ?nx ws" using chain_drop [OF c] .
  have tl: "last (us @ a # ws) = a \<longleftrightarrow> ws = []" using d by (metis last_ConsL last_ConsR last_appendR last_in_set list.discI
      distinct.simps(2) distinct_append)
  show ?thesis
  proof (cases "us = []")
    case True
    then show ?thesis using w d t tl by (auto simp: pending_def unlink_def set_next_def Let_def chain_other)
  next
    case False
    let ?p = "last us"
    have p: "?p \<noteq> a" "last (None # map Some us) = Some ?p" using False d by (auto simp: last_map)
    have "chain (?hp[?p := (?hp ! ?p)\<lparr>pr_next := ?nx\<rparr>]) (rp_head s) (us @ ws)"
      by (rule chain_append [OF _ False c w]) (use d in auto)
    then have "chain ((?hp[?p := (?hp ! ?p)\<lparr>pr_next := ?nx\<rparr>])[a := pr]) (rp_head s) (us @ ws)" for pr
      by (rule chain_other) (use d in auto)
    then show ?thesis using d t tl False p by (auto simp: pending_def unlink_def set_next_def Let_def)
  qed
qed

lemma pop_hit:
  assumes "pending s (us @ a # ws)" "\<forall>u \<in> set us. pr_req_id (rp_heap s ! u) \<noteq> i" "pr_req_id (rp_heap s ! a) = i"
  shows "pop_promise i s = Some (Some a, unlink (last (None # map Some us)) a s)"
proof -
  have "chain (rp_heap s) (rp_head s) (us @ a # ws)" using assms(1) by (simp add: pending_def)
  from pop_find_hit [OF this assms(2,3), of None] show ?thesis unfolding pop_promise_def by simp
qed

lemma pop_miss:
  assumes "pending s as" "\<forall>u \<in> set as. pr_req_id (rp_heap s ! u) \<noteq> i"
  shows "pop_promise i s = Some (None, s)"
  using pop_find_miss [OF _ assms(2)] assms(1) by (simp add: pop_promise_def pending_def)

text \<open>What an operation on the list keeps of the promises.\<close>

definition same_promises :: "'v promise list \<Rightarrow> 'v promise list \<Rightarrow> bool" where
  "same_promises hp hp' \<longleftrightarrow> length hp' = length hp
     \<and> (\<forall>a. pr_req_id (hp' ! a) = pr_req_id (hp ! a) \<and> pr_unpack (hp' ! a) = pr_unpack (hp ! a) \<and> pr_outcome (hp' ! a) = pr_outcome (hp ! a))"

lemma same_refl [simp]: "same_promises hp hp"
  by (simp add: same_promises_def)

lemma same_next: "same_promises hp hp' \<Longrightarrow> same_promises hp (hp'[a := (hp' ! a)\<lparr>pr_next := q\<rparr>])"
  unfolding same_promises_def by (cases "a < length hp'") (auto simp: nth_list_update list_update_beyond)

lemma same_enqueue: "same_promises (rp_heap s) (rp_heap (enqueue_promise a s))"
  by (auto simp: enqueue_promise_def Let_def set_next_def intro!: same_next split: option.splits)

lemma same_unlink: "same_promises (rp_heap s) (rp_heap (unlink prev a s))"
  by (auto simp: unlink_def Let_def set_next_def intro!: same_next split: option.splits)

lemma enqueue_rest [simp]:
  "rp_req_id (enqueue_promise a s) = rp_req_id s" "rp_open (enqueue_promise a s) = rp_open s" "rp_out (enqueue_promise a s) = rp_out s"
  by (simp_all add: enqueue_promise_def Let_def set_next_def split: option.splits)

section \<open>Messages read back\<close>

lemma decodes_message:
  assumes "fits32 (length (rm_data m))"
  shows "decodes unpack_message m (pack_message m)"
proof (cases m)
  case (fields i t me d)
  have "decodes (bindc unpack_bytes (\<lambda>d. ret \<lparr>rm_id = i, rm_type = t, rm_method = me, rm_data = d\<rparr>))
      \<lparr>rm_id = i, rm_type = t, rm_method = me, rm_data = d\<rparr> (pack_bytes d)"
    by (rule decodes_map [OF decodes_bytes]) (use assms fields in simp)
  then show ?thesis unfolding fields unpack_message_def pack_message_def
    by (auto intro!: decodes_bind [OF decodes_pod] decodes_bind [OF decodes_unsigned])
qed

interpretation message_codec: raw_codec pack_message unpack_message "\<lambda>m. fits32 (length (rm_data m))"
  by unfold_locales (rule decodes_message)

lemma read_loop_Nil: "read_loop [] s = Some s"
  by (subst read_loop.simps) (simp add: unpack_message_def bindc_def unpack_pod_def st_read_def)

lemma read_loop_message:
  assumes "fits32 (length (rm_data m))"
  shows "read_loop (pack_message m @ r) s =
    Option.bind (handle_message m s) (\<lambda>(x, s'). case x of Inl e \<Rightarrow> Some s' | Inr _ \<Rightarrow> read_loop r s')"
  by (subst read_loop.simps) (simp add: message_codec.unpack_pack [OF assms])

lemma read_loop_step:
  "fits32 (length (rm_data m)) \<Longrightarrow> handle_message m s = Some (Inr u, s') \<Longrightarrow> read_loop (pack_message m @ r) s = read_loop r s'"
  by (simp add: read_loop_message)

section \<open>Calls answered\<close>

text \<open>A sequence of calls, as the caller makes them.\<close>

type_synonym 'v call = "u32 \<times> byte list \<times> (byte list \<Rightarrow> 'v res)"

fun invoke_all :: "'v call list \<Rightarrow> (('v, 's) rpc, nat list) cmd" where
  "invoke_all [] = ret []"
| "invoke_all ((mid, arg, unp) # cs) = bindc (invoke mid arg unp) (\<lambda>a. bindc (invoke_all cs) (\<lambda>as. ret (a # as)))"

fun call_messages :: "u16 \<Rightarrow> 'v call list \<Rightarrow> rpc_message list" where
  "call_messages i [] = []"
| "call_messages i ((mid, arg, unp) # cs) = \<lparr>rm_id = i + 1, rm_type = rpc_call, rm_method = mid, rm_data = arg\<rparr> # call_messages (i + 1) cs"

text \<open>What the methods of the other side make of them, one after the other.\<close>

fun serve_calls :: "(u32 \<Rightarrow> 's rpc_method option) \<Rightarrow> 'v call list \<Rightarrow> 's \<Rightarrow> (byte list list \<times> 's) option" where
  "serve_calls ms [] sv = Some ([], sv)"
| "serve_calls ms ((mid, arg, unp) # cs) sv =
     (case (case ms mid of None \<Rightarrow> (Inr [], sv) | Some f \<Rightarrow> f arg sv) of
        (Inl e, _) \<Rightarrow> None
      | (Inr d, sv') \<Rightarrow> (case serve_calls ms cs sv' of None \<Rightarrow> None | Some (rs, sv'') \<Rightarrow> Some (d # rs, sv'')))"

definition reply_to :: "rpc_message \<Rightarrow> byte list \<Rightarrow> rpc_message" where
  "reply_to m d = \<lparr>rm_id = rm_id m, rm_type = rpc_result, rm_method = rm_method m, rm_data = d\<rparr>"

lemmas rpc_types = rpc_notice_def rpc_call_def rpc_result_def rpc_error_def

lemma invoke_pending:
  assumes "pending s as" "rp_open s"
  shows "\<exists>s'. invoke mid arg unp s = (Inr (length (rp_heap s)), s') \<and> pending s' (as @ [length (rp_heap s)]) \<and> rp_open s'
    \<and> rp_req_id s' = rp_req_id s + 1
    \<and> rp_out s' = rp_out s @ pack_message \<lparr>rm_id = rp_req_id s + 1, rm_type = rpc_call, rm_method = mid, rm_data = arg\<rparr>
    \<and> same_promises (rp_heap s @ [\<lparr>pr_req_id = rp_req_id s + 1, pr_next = None, pr_unpack = unp, pr_outcome = Waiting\<rparr>]) (rp_heap s')"
proof -
  let ?a = "length (rp_heap s)"
  let ?s1 = "s\<lparr>rp_req_id := rp_req_id s + 1,
    rp_heap := rp_heap s @ [\<lparr>pr_req_id = rp_req_id s + 1, pr_next = None, pr_unpack = unp, pr_outcome = Waiting\<rparr>]\<rparr>"
  have "pending ?s1 as" using assms(1) by (simp add: pending_def chain_grow)
  moreover have "?a \<notin> set as" using assms(1) chain_valid [of "rp_heap s" "rp_head s" as ?a] by (auto simp: pending_def)
  ultimately have "pending (enqueue_promise ?a ?s1) (as @ [?a])" by (intro pending_enqueue) simp_all
  then show ?thesis using assms(2) same_enqueue [of ?s1 ?a]
    by (simp add: invoke_def bindc_def andthen_def getc_def modc_def ret_def rpc_send_def Let_def pending_def)
qed

lemma server_reads:
  assumes "serve_calls (rp_methods s) cs (rp_service s) = Some (rs, sv)" "rp_open s" "\<forall>(mid, arg, unp) \<in> set cs. fits32 (length arg)"
  shows "read_loop (concat (map pack_message (call_messages i cs))) s =
    Some (s\<lparr>rp_service := sv, rp_out := rp_out s @ concat (map pack_message (map2 reply_to (call_messages i cs) rs))\<rparr>)"
  using assms
proof (induction cs arbitrary: i s rs)
  case Nil
  then show ?case by (simp add: read_loop_Nil)
next
  case (Cons c cs)
  obtain mid arg unp where c: "c = (mid, arg, unp)" using prod_cases3 by blast
  let ?m = "\<lparr>rm_id = i + 1, rm_type = rpc_call, rm_method = mid, rm_data = arg\<rparr>"
  obtain d sv' rs' where d: "(case rp_methods s mid of None \<Rightarrow> (Inr [], rp_service s) | Some f \<Rightarrow> f arg (rp_service s)) = (Inr d, sv')"
    and r: "serve_calls (rp_methods s) cs sv' = Some (rs', sv)" "rs = d # rs'"
    using Cons.prems(1) unfolding c by (auto split: prod.splits sum.splits option.splits)
  let ?s1 = "s\<lparr>rp_service := sv', rp_out := rp_out s @ pack_message (reply_to ?m d)\<rparr>"
  have cm: "call_method mid arg s = (Inr d, s\<lparr>rp_service := sv'\<rparr>)"
    using d by (auto simp: call_method_def liftc_def split: option.splits)
  have h: "handle_message ?m s = Some (Inr (), ?s1)"
    using Cons.prems(2) by (simp add: handle_message_def rpc_types cm bindc_def rpc_send_def reply_to_def)
  have "fits32 (length (rm_data ?m))" using Cons.prems(3) c by simp
  note st = read_loop_step [OF this h]
  have "read_loop (concat (map pack_message (call_messages (i + 1) cs))) ?s1 = Some (?s1\<lparr>rp_service := sv,
      rp_out := rp_out ?s1 @ concat (map pack_message (map2 reply_to (call_messages (i + 1) cs) rs'))\<rparr>)"
    by (rule Cons.IH) (use r Cons.prems(2,3) in simp_all)
  then show ?case unfolding c r(2) by (simp add: st)
qed

lemma invoke_all_pending:
  assumes "pending s as0" "rp_open s" "invoke_all cs s = (Inr as, s')"
  shows "pending s' (as0 @ as) \<and> rp_open s' \<and> rp_out s' = rp_out s @ concat (map pack_message (call_messages (rp_req_id s) cs))
    \<and> (\<forall>a < length (rp_heap s). pr_req_id (rp_heap s' ! a) = pr_req_id (rp_heap s ! a) \<and> pr_unpack (rp_heap s' ! a) = pr_unpack (rp_heap s ! a))
    \<and> list_all2 (\<lambda>a m. pr_req_id (rp_heap s' ! a) = rm_id m) as (call_messages (rp_req_id s) cs)
    \<and> list_all2 (\<lambda>a (mid, arg, unp). pr_unpack (rp_heap s' ! a) = unp) as cs"
  using assms
proof (induction cs arbitrary: s as0 as)
  case Nil
  then show ?case by (simp add: ret_def)
next
  case (Cons c cs)
  obtain mid arg unp where c: "c = (mid, arg, unp)" using prod_cases3 by blast
  let ?a = "length (rp_heap s)"
  obtain s1 where i: "invoke mid arg unp s = (Inr ?a, s1)" "pending s1 (as0 @ [?a])" "rp_open s1" "rp_req_id s1 = rp_req_id s + 1"
    and o1: "rp_out s1 = rp_out s @ pack_message \<lparr>rm_id = rp_req_id s + 1, rm_type = rpc_call, rm_method = mid, rm_data = arg\<rparr>"
    and h: "same_promises (rp_heap s @ [\<lparr>pr_req_id = rp_req_id s + 1, pr_next = None, pr_unpack = unp, pr_outcome = Waiting\<rparr>]) (rp_heap s1)"
    using invoke_pending [OF Cons.prems(1,2), of mid arg unp] by blast
  obtain as' where a: "invoke_all cs s1 = (Inr as', s')" "as = ?a # as'"
    using Cons.prems(3) i(1) unfolding c by (auto simp: bindc_def ret_def split: prod.splits sum.splits)
  note ih = Cons.IH [OF i(2,3) a(1)]
  have old: "pr_req_id (rp_heap s1 ! b) = pr_req_id (rp_heap s ! b)" "pr_unpack (rp_heap s1 ! b) = pr_unpack (rp_heap s ! b)"
    if "b < ?a" for b using h that by (simp_all add: same_promises_def nth_append)
  have new: "pr_req_id (rp_heap s1 ! ?a) = rp_req_id s + 1" "pr_unpack (rp_heap s1 ! ?a) = unp" "?a < length (rp_heap s1)"
    using h by (simp_all add: same_promises_def)
  show ?case using ih old new i(4) o1 unfolding c a(2) by simp
qed

text \<open>A reply to the first promise of the list.\<close>

lemma reply_to_first:
  assumes "pending s (a # as)" "rm_type m = rpc_result" "rm_id m = pr_req_id (rp_heap s ! a)" "pr_unpack (rp_heap s ! a) (rm_data m) = Inr v"
  shows "\<exists>s'. handle_message m s = Some (Inr (), s') \<and> pending s' as
    \<and> (\<forall>b. pr_req_id (rp_heap s' ! b) = pr_req_id (rp_heap s ! b) \<and> pr_unpack (rp_heap s' ! b) = pr_unpack (rp_heap s ! b)
        \<and> pr_outcome (rp_heap s' ! b) = (if b = a then Value_set v else pr_outcome (rp_heap s ! b)))"
proof -
  let ?u = "unlink None a s"
  let ?s' = "set_outcome a (Value_set v) ?u"
  have sm: "same_promises (rp_heap s) (rp_heap ?u)" by (rule same_unlink)
  have al: "a < length (rp_heap s)" using assms(1) by (simp add: pending_def)
  have p: "pending ?u as" using pending_unlink [of s "[]" a as] assms(1) by simp
  then have "pending ?s' as" by (simp add: pending_def set_outcome_def chain_outcome)
  moreover have "pop_promise (rm_id m) s = Some (Some a, ?u)" using pop_hit [of s "[]" a as] assms(1,3) by simp
  then have "handle_message m s = Some (Inr (), ?s')"
    using assms(2,4) sm by (simp add: handle_message_def handle_result_def same_promises_def)
  moreover have "pr_req_id (rp_heap ?s' ! b) = pr_req_id (rp_heap s ! b) \<and> pr_unpack (rp_heap ?s' ! b) = pr_unpack (rp_heap s ! b)
      \<and> pr_outcome (rp_heap ?s' ! b) = (if b = a then Value_set v else pr_outcome (rp_heap s ! b))" for b
    using sm al by (cases "b = a") (simp_all add: set_outcome_def same_promises_def)
  ultimately show ?thesis by blast
qed

lemma client_reads:
  assumes "pending s (as @ bs)" "list_all2 (\<lambda>a m. rm_type m = rpc_result \<and> rm_id m = pr_req_id (rp_heap s ! a)
      \<and> fits32 (length (rm_data m)) \<and> (\<exists>v. pr_unpack (rp_heap s ! a) (rm_data m) = Inr v)) as ms"
  shows "\<exists>s'. read_loop (concat (map pack_message ms)) s = Some s' \<and> pending s' bs
    \<and> (\<forall>b. b \<notin> set as \<longrightarrow> pr_outcome (rp_heap s' ! b) = pr_outcome (rp_heap s ! b))
    \<and> list_all2 (\<lambda>a m. \<exists>v. pr_unpack (rp_heap s ! a) (rm_data m) = Inr v \<and> pr_outcome (rp_heap s' ! a) = Value_set v) as ms"
  using assms
proof (induction as arbitrary: s ms)
  case Nil
  then show ?case by (simp add: read_loop_Nil)
next
  case (Cons a as)
  obtain m ms' where ms: "ms = m # ms'" using Cons.prems(2) by (cases ms) auto
  obtain v where v: "pr_unpack (rp_heap s ! a) (rm_data m) = Inr v" and m: "rm_type m = rpc_result" "rm_id m = pr_req_id (rp_heap s ! a)"
    "fits32 (length (rm_data m))" using Cons.prems(2) ms by auto
  obtain s1 where h: "handle_message m s = Some (Inr (), s1)" "pending s1 (as @ bs)"
    and k: "\<And>b. pr_req_id (rp_heap s1 ! b) = pr_req_id (rp_heap s ! b)" "\<And>b. pr_unpack (rp_heap s1 ! b) = pr_unpack (rp_heap s ! b)"
      "\<And>b. pr_outcome (rp_heap s1 ! b) = (if b = a then Value_set v else pr_outcome (rp_heap s ! b))"
    using reply_to_first [of s a "as @ bs" m v] Cons.prems(1) m v by auto
  have na: "a \<notin> set as" using Cons.prems(1) by (simp add: pending_def)
  obtain s' where s': "read_loop (concat (map pack_message ms')) s1 = Some s'" "pending s' bs"
    "\<forall>b. b \<notin> set as \<longrightarrow> pr_outcome (rp_heap s' ! b) = pr_outcome (rp_heap s1 ! b)"
    "list_all2 (\<lambda>a m. \<exists>v. pr_unpack (rp_heap s1 ! a) (rm_data m) = Inr v \<and> pr_outcome (rp_heap s' ! a) = Value_set v) as ms'"
    using Cons.IH [OF h(2), of ms'] Cons.prems(2) ms k by auto
  have "read_loop (concat (map pack_message ms)) s = Some s'" using read_loop_step [OF m(3) h(1)] s'(1) ms by simp
  then show ?case using s'(2-4) k v na ms by (intro exI [of _ s']) simp
qed

lemma length_call_messages [simp]: "length (call_messages i cs) = length cs"
  by (induction i cs rule: call_messages.induct) auto

lemma length_serve_calls: "serve_calls ms cs sv = Some (rs, sv') \<Longrightarrow> length rs = length cs"
  by (induction ms cs sv arbitrary: rs rule: serve_calls.induct) (auto split: prod.splits sum.splits option.splits)

lemma calls_answered:
  assumes "pending c []" "rp_open c" "rp_out c = []" "rp_open s" "rp_out s = []" "invoke_all cs c = (Inr as, c1)"
    "serve_calls (rp_methods s) cs (rp_service s) = Some (rs, sv)" "\<forall>(mid, arg, unp) \<in> set cs. fits32 (length arg)"
    "\<forall>r \<in> set rs. fits32 (length r)" "list_all2 (\<lambda>(mid, arg, unp) r. \<exists>v. unp r = Inr v) cs rs"
  shows "\<exists>s1 c2. read_loop (rp_out c1) s = Some s1 \<and> rp_service s1 = sv \<and> read_loop (rp_out s1) c1 = Some c2 \<and> pending c2 []
    \<and> length as = length cs
    \<and> (\<forall>i < length cs. \<exists>v. snd (snd (cs ! i)) (rs ! i) = Inr v \<and> pr_outcome (rp_heap c2 ! (as ! i)) = Value_set v)"
proof -
  let ?ms = "call_messages (rp_req_id c) cs"
  let ?rp = "map2 reply_to ?ms rs"
  note inv = invoke_all_pending [OF assms(1,2,6)]
  have lr: "length rs = length cs" by (rule length_serve_calls [OF assms(7)])
  have la: "length as = length cs" using inv list_all2_lengthD by blast
  obtain s1 where s1: "read_loop (rp_out c1) s = Some s1" "rp_service s1 = sv" "rp_out s1 = concat (map pack_message ?rp)"
    using server_reads [OF assms(7,4,8), of "rp_req_id c"] inv assms(3,5) by simp
  have unp: "pr_unpack (rp_heap c1 ! (as ! i)) = snd (snd (cs ! i))" if "i < length cs" for i
    using inv that la by (simp add: list_all2_conv_all_nth split_beta)
  have val: "\<exists>v. snd (snd (cs ! i)) (rs ! i) = Inr v" if "i < length cs" for i
    using assms(10) that by (simp add: list_all2_conv_all_nth split_beta)
  have "list_all2 (\<lambda>a m. rm_type m = rpc_result \<and> rm_id m = pr_req_id (rp_heap c1 ! a)
      \<and> fits32 (length (rm_data m)) \<and> (\<exists>v. pr_unpack (rp_heap c1 ! a) (rm_data m) = Inr v)) as ?rp"
    using inv la lr unp val assms(9) by (simp add: list_all2_conv_all_nth reply_to_def)
  with client_reads [of c1 as "[]" ?rp] inv obtain c2 where c2: "read_loop (concat (map pack_message ?rp)) c1 = Some c2" "pending c2 []"
    "list_all2 (\<lambda>a m. \<exists>v. pr_unpack (rp_heap c1 ! a) (rm_data m) = Inr v \<and> pr_outcome (rp_heap c2 ! a) = Value_set v) as ?rp" by auto
  have "\<exists>v. snd (snd (cs ! i)) (rs ! i) = Inr v \<and> pr_outcome (rp_heap c2 ! (as ! i)) = Value_set v" if "i < length cs" for i
    using c2(3) that la lr unp [OF that, symmetric] by (simp add: list_all2_conv_all_nth reply_to_def)
  then show ?thesis using s1 c2(1,2) la by auto
qed

text \<open>
  C17: every call is answered, and with its own result. When one side makes any number of calls, the other reads them and runs its methods
  on them in order, and the first reads what comes back, then the promise of each call holds the value of the result its
  method returned, and no promise is left pending.
\<close>

theorem rpc_calls_answered:
  assumes "pending c []" "rp_open c" "rp_out c = []" "rp_open s" "rp_out s = []" "invoke_all cs c = (Inr as, c1)"
    "serve_calls (rp_methods s) cs (rp_service s) = Some (rs, sv)" "\<forall>(mid, arg, unp) \<in> set cs. fits32 (length arg)"
    "\<forall>r \<in> set rs. fits32 (length r)" "list_all2 (\<lambda>(mid, arg, unp) r. \<exists>v. unp r = Inr v) cs rs"
  shows "\<exists>s1 c2. read_loop (rp_out c1) s = Some s1 \<and> rp_service s1 = sv \<and> read_loop (rp_out s1) c1 = Some c2 \<and> pending c2 []
    \<and> length as = length cs
    \<and> (\<forall>i < length cs. \<exists>v. snd (snd (cs ! i)) (rs ! i) = Inr v \<and> pr_outcome (rp_heap c2 ! (as ! i)) = Value_set v)"
  by (rule calls_answered [OF assms])

theorem rpc_calls_answered_witness:
  "\<exists>(c1 :: (byte list, unit) rpc) s1 c2. read_loop (rp_out c1) (add_method 7 (\<lambda>b n. (Inr (b @ [of_nat n]), n + 1)) (rpc_connect (rpc_new 5)) :: (unit, nat) rpc) = Some s1
    \<and> rp_service s1 = 7 \<and> read_loop (rp_out s1) c1 = Some c2
    \<and> pr_outcome (rp_heap c2 ! 0) = Value_set [9, 5] \<and> pr_outcome (rp_heap c2 ! 1) = Value_set [6 :: byte]"
proof -
  let ?c = "rpc_connect (rpc_new ()) :: (byte list, unit) rpc"
  let ?s = "add_method 7 (\<lambda>b n. (Inr (b @ [of_nat n]), n + 1)) (rpc_connect (rpc_new 5)) :: (unit, nat) rpc"
  let ?cs = "[(7, [9], Inr), (7, [], Inr)] :: byte list call list"
  obtain c1 where i: "invoke_all ?cs ?c = (Inr [0, 1], c1)"
    by (simp add: bindc_def invoke_def getc_def andthen_def modc_def ret_def rpc_send_def rpc_connect_def rpc_new_def
        enqueue_promise_def set_next_def Let_def)
  obtain s1 c2 where "read_loop (rp_out c1) ?s = Some s1" "rp_service s1 = 7" "read_loop (rp_out s1) c1 = Some c2"
    "\<forall>i < length ?cs. \<exists>v. snd (snd (?cs ! i)) ([[9, 5], [6]] ! i) = Inr v \<and> pr_outcome (rp_heap c2 ! ([0, 1] ! i)) = Value_set v"
    using rpc_calls_answered [OF _ _ _ _ _ i, of ?s "[[9, 5], [6]]" 7]
    by (auto simp add: pending_def rpc_connect_def rpc_new_def add_method_def fits32_def)
  moreover from this(4) have "pr_outcome (rp_heap c2 ! 0) = Value_set [9, 5]" "pr_outcome (rp_heap c2 ! 1) = Value_set [6]"
    by (auto dest: spec [of _ 0] spec [of _ "Suc 0"])
  ultimately show ?thesis by blast
qed

section \<open>Errors\<close>

text \<open>A promise that is not in the list is not touched by what is received, nor by new calls or by the destructor.\<close>

definition forgotten :: "nat \<Rightarrow> ('v, 's) rpc \<Rightarrow> bool" where
  "forgotten a s \<longleftrightarrow> (\<exists>as. pending s as \<and> a \<notin> set as) \<and> a < length (rp_heap s) \<and> pr_outcome (rp_heap s ! a) = Waiting"

lemma pop_promise_forgotten:
  assumes "forgotten a s" "pop_promise i s = Some (p, s')"
  shows "forgotten a s' \<and> p \<noteq> Some a"
proof -
  obtain as where as: "pending s as" "a \<notin> set as" using assms(1) by (auto simp: forgotten_def)
  show ?thesis
  proof (cases "\<exists>u \<in> set as. pr_req_id (rp_heap s ! u) = i")
    case True
    then obtain us b ws where b: "as = us @ b # ws" "pr_req_id (rp_heap s ! b) = i" "\<forall>u \<in> set us. pr_req_id (rp_heap s ! u) \<noteq> i"
      using split_list_first_prop [of as "\<lambda>u. pr_req_id (rp_heap s ! u) = i"] by blast
    have "p = Some b" "s' = unlink (last (None # map Some us)) b s" using pop_hit [of s us b ws i] as(1) b assms(2) by simp_all
    then show ?thesis
      using pending_unlink [of s us b ws] as b(1) same_unlink [of s _ b] assms(1) by (fastforce simp: forgotten_def same_promises_def)
  next
    case False
    then show ?thesis using pop_miss [OF as(1), of i] assms by simp
  qed
qed

lemma handle_result_forgotten:
  assumes "forgotten a s" "b \<noteq> a" "handle_result b d s = (x, s')"
  shows "forgotten a s'"
proof -
  obtain as where as: "pending s as" "a \<notin> set as" using assms(1) by (auto simp: forgotten_def)
  then have "pending (set_outcome b oc s) as" for oc by (auto simp: pending_def set_outcome_def intro: chain_outcome)
  moreover have "rp_heap (set_outcome b oc s) ! a = rp_heap s ! a" for oc using assms(2) by (simp add: set_outcome_def)
  ultimately have "forgotten a (set_outcome b oc s)" for oc using as(2) assms(1) by (auto simp: forgotten_def set_outcome_def)
  then show ?thesis using assms(1,3) by (auto simp: handle_result_def split: sum.splits)
qed

lemma forgotten_app [simp]:
  "forgotten a (s\<lparr>rp_service := sv\<rparr>) = forgotten a s" "forgotten a (s\<lparr>rp_out := o1\<rparr>) = forgotten a s" "forgotten a (s\<lparr>rp_open := o2\<rparr>) = forgotten a s"
  by (simp_all add: forgotten_def pending_def)

lemma keeps_call_forgotten: "keeps (forgotten a) (call_method mid arg)"
  by (auto simp: keeps_def call_method_def liftc_def split: option.splits prod.splits)

lemma keeps_send_forgotten: "keeps (forgotten a) (rpc_send m)"
  by (auto simp: keeps_def rpc_send_def)

lemma handle_message_forgotten:
  assumes "forgotten a s" "handle_message m s = Some (x, s')"
  shows "forgotten a s'"
proof -
  have "forgotten a (snd (bindc (call_method (rm_method m) (rm_data m)) k s))" if "\<And>d. keeps (forgotten a) (k d)" for k :: "byte list \<Rightarrow> (_, unit) cmd"
    using keepsD [OF keeps_bindc [OF keeps_call_forgotten that]] assms(1) .
  from this [of "\<lambda>_. ret ()"] this [of "\<lambda>d. rpc_send \<lparr>rm_id = rm_id m, rm_type = rpc_result, rm_method = rm_method m, rm_data = d\<rparr>"]
  show ?thesis using assms(2) assms(1) pop_promise_forgotten [OF assms(1), of "rm_id m"] handle_result_forgotten
    by (auto simp: handle_message_def keeps_ret keeps_send_forgotten split: if_splits option.splits)
qed

lemma invoke_forgotten:
  assumes "forgotten a s"
  shows "forgotten a (snd (invoke mid arg unp s))"
proof -
  obtain as where as: "pending s as" "a \<notin> set as" using assms by (auto simp: forgotten_def)
  let ?n = "length (rp_heap s)"
  let ?s1 = "s\<lparr>rp_req_id := rp_req_id s + 1,
    rp_heap := rp_heap s @ [\<lparr>pr_req_id = rp_req_id s + 1, pr_next = None, pr_unpack = unp, pr_outcome = Waiting\<rparr>]\<rparr>"
  have "pending ?s1 as" using as(1) by (simp add: pending_def chain_grow)
  moreover have "?n \<notin> set as" using as(1) chain_valid [of "rp_heap s" "rp_head s" as ?n] by (auto simp: pending_def)
  ultimately have "pending (enqueue_promise ?n ?s1) (as @ [?n])" by (intro pending_enqueue) simp_all
  moreover have "a \<notin> set (as @ [?n])" "a < Suc ?n" using as(2) assms by (auto simp: forgotten_def)
  moreover have "pr_outcome (rp_heap (enqueue_promise ?n ?s1) ! a) = Waiting" "length (rp_heap (enqueue_promise ?n ?s1)) = Suc ?n"
    using same_enqueue [of ?s1 ?n] assms by (simp_all add: same_promises_def forgotten_def nth_append)
  ultimately have "forgotten a (enqueue_promise ?n ?s1)" unfolding forgotten_def by metis
  from keepsD [OF keeps_send_forgotten this] show ?thesis
    by (auto simp: invoke_def bindc_def andthen_def getc_def modc_def ret_def Let_def split: prod.splits sum.splits) (metis snd_conv)+
qed

lemma cancel_all_chain:
  assumes "chain (rp_heap s) (rp_head s) as" "distinct as"
  shows "\<exists>s'. cancel_all s = Some s' \<and>
    (\<forall>b. pr_outcome (rp_heap s' ! b) = (if b \<in> set as then Canceled else pr_outcome (rp_heap s ! b)))"
  using assms
proof (induction as arbitrary: s)
  case Nil
  then show ?case by (subst cancel_all.simps) simp
next
  case (Cons a as)
  let ?s1 = "(set_outcome a Canceled s)\<lparr>rp_head := pr_next (rp_heap s ! a)\<rparr>"
  have "chain (rp_heap ?s1) (rp_head ?s1) as" using Cons.prems(1) by (auto simp: set_outcome_def intro: chain_outcome)
  then obtain s' where s': "cancel_all ?s1 = Some s'"
    "\<forall>b. pr_outcome (rp_heap s' ! b) = (if b \<in> set as then Canceled else pr_outcome (rp_heap ?s1 ! b))"
    using Cons.IH [of ?s1] Cons.prems(2) by auto
  have "cancel_all s = Some s'" using Cons.prems(1) s'(1) by (subst cancel_all.simps) simp
  moreover have "pr_outcome (rp_heap ?s1 ! b) = (if b = a then Canceled else pr_outcome (rp_heap s ! b))" for b
    using Cons.prems(1) by (cases "b = a") (simp_all add: set_outcome_def)
  ultimately show ?case using s'(2) by (intro exI [of _ s']) auto
qed

text \<open>What can happen to a side after that: messages come in, calls are made.\<close>

inductive rpc_life :: "('v, 's) rpc \<Rightarrow> ('v, 's) rpc \<Rightarrow> bool" where
  now: "rpc_life s s"
| received: "rpc_life s s1 \<Longrightarrow> handle_message m s1 = Some (x, s2) \<Longrightarrow> rpc_life s s2"
| called: "rpc_life s s1 \<Longrightarrow> rpc_life s (snd (invoke mid arg unp s1))"

lemma rpc_life_forgotten: "rpc_life s s' \<Longrightarrow> forgotten a s \<Longrightarrow> forgotten a s'"
  by (induction rule: rpc_life.induct) (auto intro: handle_message_forgotten invoke_forgotten)

text \<open>
  C38: a call that is answered with an error never returns: the error takes its promise out of the list without completing it, and from
  then on no message, no further call and not even the destructor, which cancels what is pending, completes it.
\<close>

theorem rpc_error_lost:
  assumes "pending s (us @ a # ws)" "pr_outcome (rp_heap s ! a) = Waiting" "rm_type m = rpc_error"
    "rm_id m = pr_req_id (rp_heap s ! a)" "\<forall>u \<in> set us. pr_req_id (rp_heap s ! u) \<noteq> rm_id m"
  shows "\<exists>s1. handle_message m s = Some (Inr (), s1) \<and> (\<forall>s2. rpc_life s1 s2 \<longrightarrow> pr_outcome (rp_heap s2 ! a) = Waiting
    \<and> (\<exists>s3. rpc_destroy s2 = Some s3 \<and> pr_outcome (rp_heap s3 ! a) = Waiting))"
proof -
  let ?s1 = "unlink (last (None # map Some us)) a s"
  have "handle_message m s = Some (Inr (), ?s1)"
    using pop_hit [OF assms(1) assms(5) assms(4) [symmetric]] assms(3) by (simp add: handle_message_def rpc_types)
  moreover have "a \<notin> set (us @ ws)" "a < length (rp_heap s)"
    using assms(1) chain_valid [of "rp_heap s" "rp_head s" "us @ a # ws" a] by (auto simp: pending_def)
  then have "forgotten a ?s1"
    using pending_unlink [OF assms(1)] same_unlink [of s "last (None # map Some us)" a] assms(2) unfolding forgotten_def same_promises_def by metis
  moreover have "\<exists>s3. rpc_destroy s2 = Some s3 \<and> pr_outcome (rp_heap s3 ! a) = Waiting" if f: "forgotten a s2" for s2
  proof -
    obtain as where "pending s2 as" "a \<notin> set as" using f by (auto simp: forgotten_def)
    then show ?thesis using cancel_all_chain [of "s2\<lparr>rp_open := False\<rparr>" as] f by (auto simp: rpc_destroy_def pending_def forgotten_def)
  qed
  ultimately show ?thesis using rpc_life_forgotten unfolding forgotten_def by blast
qed

theorem rpc_error_lost_witness:
  "\<exists>s s1 :: (byte list, unit) rpc. snd (invoke 7 [9] Inr (rpc_connect (rpc_new ()))) = s
    \<and> handle_message \<lparr>rm_id = 1, rm_type = 4, rm_method = 7, rm_data = []\<rparr> s = Some (Inr (), s1)
    \<and> (\<exists>s3. rpc_destroy s1 = Some s3 \<and> pr_outcome (rp_heap s3 ! 0) = Waiting)"
proof -
  let ?s = "snd (invoke 7 [9] Inr (rpc_connect (rpc_new ()))) :: (byte list, unit) rpc"
  let ?m = "\<lparr>rm_id = 1, rm_type = 4, rm_method = 7, rm_data = []\<rparr>"
  have "pending ?s ([] @ 0 # [])" "pr_outcome (rp_heap ?s ! 0) = Waiting" "pr_req_id (rp_heap ?s ! 0) = 1"
    by (simp_all add: bindc_def invoke_def getc_def andthen_def modc_def ret_def rpc_send_def rpc_connect_def rpc_new_def
        enqueue_promise_def set_next_def Let_def pending_def)
  with rpc_error_lost [of ?s "[]" 0 "[]" ?m] obtain s1 where "handle_message ?m ?s = Some (Inr (), s1)"
    "\<forall>s2. rpc_life s1 s2 \<longrightarrow> pr_outcome (rp_heap s2 ! 0) = Waiting \<and> (\<exists>s3. rpc_destroy s2 = Some s3 \<and> pr_outcome (rp_heap s3 ! 0) = Waiting)"
    by (auto simp: rpc_types)
  then show ?thesis using rpc_life.now by blast
qed

end
