(* ===== verification/Chunk_Client.thy ===== *)
theory Chunk_Client
  imports Raw_Rpc Chunk_Server
begin

text \<open>
  The chunk service across the network: the client of src/chunk_service_client.cpp calls the methods of
  src/chunk_service_connection.hpp through \<open>raw_rpc\<close>. Requests and replies are packed field by field as their
  reflection lists them.
\<close>

section \<open>Packing\<close>

definition pack_fetch_request :: "fetch_request \<Rightarrow> byte list" where
  "pack_fetch_request r = pack_pod 20 (fq_target r) @ pack_pod 4 (fq_length r) @ pack_pod 4 (fq_offset r)"

definition unpack_fetch_request :: "fetch_request unpacker" where
  "unpack_fetch_request = bindc (unpack_pod 20) (\<lambda>t. bindc (unpack_pod 4) (\<lambda>l. bindc (unpack_pod 4) (\<lambda>f.
     ret \<lparr>fq_target = t, fq_length = l, fq_offset = f\<rparr>)))"

definition pack_fetch_response :: "fetch_response \<Rightarrow> byte list" where
  "pack_fetch_response r = pack_pod 1 (fr_result r) @ pack_pod 4 (fr_offset r) @ pack_pod 4 (fr_total_size r) @ pack_bytes (fr_data r)
     @ pack_pod 8 (fr_balance r) @ pack_pod 8 (fr_query_interval r) @ pack_pod 4 (fr_deadend_count r)"

definition unpack_fetch_response :: "fetch_response unpacker" where
  "unpack_fetch_response =
     bindc (unpack_pod 1) (\<lambda>a. bindc (unpack_pod 4) (\<lambda>b. bindc (unpack_pod 4) (\<lambda>c. bindc unpack_bytes (\<lambda>d.
     bindc (unpack_pod 8) (\<lambda>e. bindc (unpack_pod 8) (\<lambda>f. bindc (unpack_pod 4) (\<lambda>g.
       ret \<lparr>fr_result = a, fr_offset = b, fr_total_size = c, fr_data = d, fr_balance = e, fr_query_interval = f, fr_deadend_count = g\<rparr>)))))))"

section \<open>Methods and calls\<close>

definition fetch_method_id :: u32 where "fetch_method_id = 1"
definition store_method_id :: u32 where "store_method_id = 2"

text \<open>\<open>method::call\<close>: the argument is unpacked, the result packed.\<close>

definition method_call :: "'a unpacker \<Rightarrow> ('r \<Rightarrow> byte list) \<Rightarrow> ('a \<Rightarrow> ('s, 'r) cmd) \<Rightarrow> 's rpc_method" where
  "method_call unp pk f arg = (case fst (unp arg) of Inl e \<Rightarrow> raise e | Inr a \<Rightarrow> bindc (f a) (\<lambda>r. ret (pk r)))"

text \<open>The database behind the methods, and what the clock will say when it is read.\<close>

record 'h chunk_host =
  ch_db :: "'h chunk_db"
  ch_now :: "nat \<Rightarrow> u64"
  ch_tick :: nat

definition at_now :: "(u64 \<Rightarrow> u64 \<Rightarrow> ('h chunk_db, 'r) cmd) \<Rightarrow> ('h chunk_host, 'r) cmd" where
  "at_now f s =
     (case f (ch_now s (ch_tick s)) (ch_now s (Suc (ch_tick s))) (ch_db s) of (r, d) \<Rightarrow> (r, s\<lparr>ch_db := d, ch_tick := ch_tick s + 2\<rparr>))"

definition chunk_service_connection ::
  "(nat \<Rightarrow> byte list) \<Rightarrow> (byte list \<Rightarrow> bool) \<Rightarrow> crypto \<Rightarrow> 'h chunk_bdb \<Rightarrow> 'h chunk_host \<Rightarrow> ('v, 'h chunk_host) rpc" where
  "chunk_service_connection fill rnd cr B host =
     rpc_connect
       (add_method store_method_id (method_call unpack_bytes (pack_pod 1) (\<lambda>d. at_now (\<lambda>t t'. chunk_store rnd cr B t t' d)))
         (add_method fetch_method_id (method_call unpack_fetch_request pack_fetch_response (\<lambda>r. at_now (\<lambda>t t'. chunk_fetch fill cr B t t' r)))
           (rpc_new host)))"

datatype reply = R_fetch fetch_response | R_store byte

definition result_of :: "('a \<Rightarrow> 'v) \<Rightarrow> 'a unpacker \<Rightarrow> byte list \<Rightarrow> 'v res" where
  "result_of f unp d = (case fst (unp d) of Inl e \<Rightarrow> Inl e | Inr a \<Rightarrow> Inr (f a))"

definition chunk_service_client :: "(reply, unit) rpc" where
  "chunk_service_client = rpc_connect (rpc_new ())"

definition client_fetch :: "sha1 \<Rightarrow> u32 \<Rightarrow> u32 \<Rightarrow> ((reply, 's) rpc, nat) cmd" where
  "client_fetch cid bytes offset =
     invoke fetch_method_id (pack_fetch_request \<lparr>fq_target = cid, fq_length = bytes, fq_offset = offset\<rparr>) (result_of R_fetch unpack_fetch_response)"

definition client_store :: "byte list \<Rightarrow> ((reply, 's) rpc, nat) cmd" where
  "client_store d = invoke store_method_id (pack_bytes d) (result_of R_store (unpack_pod 1))"

section \<open>Round trips\<close>

lemma decodes_fetch_request: "decodes unpack_fetch_request r (pack_fetch_request r)"
  unfolding unpack_fetch_request_def pack_fetch_request_def
  by (cases r) (auto intro!: decodes_bind [OF decodes_pod] decodes_map [OF decodes_pod])

lemma decodes_fetch_response:
  "fits32 (length (fr_data r)) \<Longrightarrow> decodes unpack_fetch_response r (pack_fetch_response r)"
  unfolding unpack_fetch_response_def pack_fetch_response_def
  by (cases r) (auto intro!: decodes_bind [OF decodes_pod] decodes_bind [OF decodes_bytes] decodes_map [OF decodes_pod])

interpretation request_codec: raw_codec pack_fetch_request unpack_fetch_request "\<lambda>_. True"
  by unfold_locales (rule decodes_fetch_request)

interpretation response_codec: raw_codec pack_fetch_response unpack_fetch_response "\<lambda>r. fits32 (length (fr_data r))"
  by unfold_locales (rule decodes_fetch_response)

section \<open>Remote is local\<close>

datatype request = Q_fetch fetch_request | Q_store "byte list"

fun request_call :: "request \<Rightarrow> reply call" where
  "request_call (Q_fetch r) = (fetch_method_id, pack_fetch_request r, result_of R_fetch unpack_fetch_response)"
| "request_call (Q_store d) = (store_method_id, pack_bytes d, result_of R_store (unpack_pod 1))"

lemma request_call_client:
  "(case request_call (Q_fetch r) of (m, a, u) \<Rightarrow> invoke m a u) = client_fetch (fq_target r) (fq_length r) (fq_offset r)"
  "(case request_call (Q_store d) of (m, a, u) \<Rightarrow> invoke m a u) = client_store d"
  by (cases r, simp add: client_fetch_def) (simp add: client_store_def)

text \<open>The requests run on the database itself.\<close>

fun run_request :: "(nat \<Rightarrow> byte list) \<Rightarrow> (byte list \<Rightarrow> bool) \<Rightarrow> crypto \<Rightarrow> 'h chunk_bdb \<Rightarrow> request \<Rightarrow> ('h chunk_host, reply) cmd" where
  "run_request fill rnd cr B (Q_fetch r) = bindc (at_now (\<lambda>t t'. chunk_fetch fill cr B t t' r)) (\<lambda>x. ret (R_fetch x))"
| "run_request fill rnd cr B (Q_store d) = bindc (at_now (\<lambda>t t'. chunk_store rnd cr B t t' d)) (\<lambda>x. ret (R_store x))"

fun run_requests :: "(nat \<Rightarrow> byte list) \<Rightarrow> (byte list \<Rightarrow> bool) \<Rightarrow> crypto \<Rightarrow> 'h chunk_bdb \<Rightarrow> request list \<Rightarrow> ('h chunk_host, reply list) cmd" where
  "run_requests fill rnd cr B [] = ret []"
| "run_requests fill rnd cr B (q # qs) =
     bindc (run_request fill rnd cr B q) (\<lambda>a. bindc (run_requests fill rnd cr B qs) (\<lambda>as. ret (a # as)))"

fun pack_reply :: "reply \<Rightarrow> byte list" where
  "pack_reply (R_fetch r) = pack_fetch_response r"
| "pack_reply (R_store b) = pack_pod 1 b"

definition request_fits :: "request \<Rightarrow> bool" where
  "request_fits q \<longleftrightarrow> fits32 (length (fst (snd (request_call q)))) \<and> (\<forall>d. q = Q_store d \<longrightarrow> fits32 (length d))"

definition reply_fits :: "reply \<Rightarrow> bool" where
  "reply_fits r \<longleftrightarrow> fits32 (length (pack_reply r)) \<and> (\<forall>x. r = R_fetch x \<longrightarrow> fits32 (length (fr_data x)))"

lemma service_methods:
  fixes fill rnd cr B host
  defines "ms \<equiv> rp_methods (chunk_service_connection fill rnd cr B host :: ('v, 'h chunk_host) rpc)"
  assumes "request_fits q" "run_request fill rnd cr B q sv = (Inr a, sv')"
  shows "(case ms (fst (request_call q)) of None \<Rightarrow> (Inr [], sv) | Some f \<Rightarrow> f (fst (snd (request_call q))) sv) = (Inr (pack_reply a), sv')
    \<and> (reply_fits a \<longrightarrow> snd (snd (request_call q)) (pack_reply a) = Inr a)"
proof (cases q)
  case (Q_fetch r)
  have "fst (unpack_fetch_request (pack_fetch_request r)) = Inr r" using request_codec.unpack_pack [of r "[]"] by simp
  then show ?thesis
    using assms(3) response_codec.unpack_pack [of _ "[]"] unfolding ms_def Q_fetch
    by (auto simp: chunk_service_connection_def rpc_connect_def add_method_def rpc_new_def fetch_method_id_def store_method_id_def
        method_call_def result_of_def bindc_def ret_def reply_fits_def split: prod.splits sum.splits)
next
  case (Q_store d)
  have "fst (unpack_bytes (pack_bytes d)) = Inr d"
    using bytes_codec.unpack_pack [of d "[]"] assms(2) by (simp add: request_fits_def Q_store)
  moreover have "fst (unpack_pod 1 (pack_pod 1 b)) = Inr b" for b :: byte using decodesD [OF decodes_pod, of 1 b "[]"] by simp
  ultimately show ?thesis
    using assms(3) unfolding ms_def Q_store
    by (auto simp: chunk_service_connection_def rpc_connect_def add_method_def rpc_new_def fetch_method_id_def store_method_id_def
        method_call_def result_of_def bindc_def ret_def split: prod.splits sum.splits)
qed

lemma serve_requests:
  assumes "run_requests fill rnd cr B qs sv = (Inr rs, sv')" "\<forall>q \<in> set qs. request_fits q" "\<forall>r \<in> set rs. reply_fits r"
  shows "serve_calls (rp_methods (chunk_service_connection fill rnd cr B host :: ('v, 'h chunk_host) rpc)) (map request_call qs) sv
      = Some (map pack_reply rs, sv')
    \<and> list_all2 (\<lambda>c r. snd (snd c) (pack_reply r) = Inr r) (map request_call qs) rs"
  using assms
proof (induction qs arbitrary: sv rs)
  case Nil
  then show ?case by (simp add: ret_def)
next
  case (Cons q qs)
  obtain a sv1 rs' where a: "run_request fill rnd cr B q sv = (Inr a, sv1)" "run_requests fill rnd cr B qs sv1 = (Inr rs', sv')" "rs = a # rs'"
    using Cons.prems(1) by (auto simp: bindc_def ret_def split: prod.splits sum.splits)
  obtain m ar un where c: "request_call q = (m, ar, un)" using prod_cases3 by blast
  have "request_fits q" "reply_fits a" using Cons.prems a(3) by simp_all
  then have "(case rp_methods (chunk_service_connection fill rnd cr B host :: ('v, 'h chunk_host) rpc) m of None \<Rightarrow> (Inr [], sv) | Some f \<Rightarrow> f ar sv)
      = (Inr (pack_reply a), sv1)" "un (pack_reply a) = Inr a"
    using service_methods [OF _ a(1), where host = host and ?'v = 'v, unfolded c fst_conv snd_conv] by simp_all
  then show ?case using Cons.IH [OF a(2)] Cons.prems(2,3) a(3) c by simp
qed

text \<open>
  C6: calling the chunk service over the network is the same as calling it in place. Whatever sequence of fetches and stores a client
  sends, the node that reads them ends in the state the requests themselves lead to, and every promise of the client
  holds the reply of its own request.
\<close>

theorem chunk_service_remote:
  assumes "run_requests fill rnd cr B qs host = (Inr rs, host')" "\<forall>q \<in> set qs. request_fits q" "\<forall>r \<in> set rs. reply_fits r"
    "invoke_all (map request_call qs) chunk_service_client = (Inr as, c1)"
  shows "\<exists>s1 c2. read_loop (rp_out c1) (chunk_service_connection fill rnd cr B host :: (unit, 'h chunk_host) rpc) = Some s1
    \<and> rp_service s1 = host' \<and> read_loop (rp_out s1) c1 = Some c2 \<and> map (\<lambda>a. pr_outcome (rp_heap c2 ! a)) as = map Value_set rs"
proof -
  let ?s = "chunk_service_connection fill rnd cr B host :: (unit, 'h chunk_host) rpc"
  note sv = serve_requests [OF assms(1-3), where host = host and ?'v = unit]
  have s: "rp_open ?s" "rp_out ?s = []" "rp_service ?s = host"
    by (simp_all add: chunk_service_connection_def rpc_connect_def add_method_def rpc_new_def)
  have c: "pending (chunk_service_client) []" "rp_open chunk_service_client" "rp_out chunk_service_client = []"
    by (simp_all add: chunk_service_client_def rpc_connect_def rpc_new_def pending_def)
  have f: "\<forall>(mid, arg, unp) \<in> set (map request_call qs). fits32 (length arg)" "\<forall>r \<in> set (map pack_reply rs). fits32 (length r)"
    using assms(2,3) by (auto simp: request_fits_def reply_fits_def)
  have u: "list_all2 (\<lambda>(mid, arg, unp) r. \<exists>v. unp r = Inr v) (map request_call qs) (map pack_reply rs)"
    using sv by (simp add: list_all2_conv_all_nth split_beta)
  obtain s1 c2 where r: "read_loop (rp_out c1) ?s = Some s1" "rp_service s1 = host'" "read_loop (rp_out s1) c1 = Some c2" "length as = length qs"
    "\<forall>i < length qs. \<exists>v. snd (snd (map request_call qs ! i)) (map pack_reply rs ! i) = Inr v \<and> pr_outcome (rp_heap c2 ! (as ! i)) = Value_set v"
    using calls_answered [OF c s(1,2) assms(4) _ f u, of host'] sv s(3) by auto
  have "length rs = length qs" using sv by (auto dest: list_all2_lengthD)
  then have "map (\<lambda>a. pr_outcome (rp_heap c2 ! a)) as = map Value_set rs"
    using r(4,5) sv by (intro nth_equalityI) (auto simp: list_all2_conv_all_nth)
  then show ?thesis using r(1-3) by blast
qed

definition demo_host :: "(byte list \<times> meta) list chunk_host" where
  "demo_host = \<lparr>ch_db = demo_chunks, ch_now = (\<lambda>n. of_nat (1000 + n)), ch_tick = 0\<rparr>"

lemma demo_requests:
  "\<exists>r host'. run_requests (\<lambda>n. replicate n 0) (\<lambda>_. True) demo_crypto list_bdb [Q_fetch demo_fetch] demo_host = (Inr [R_fetch r], host') \<and> fr_data r = []"
  by (simp add: at_now_def demo_host_def chunk_fetch_def fetch_reply_def fetch_response_new_def demo_fetch_def fetch_meta_def store_meta_def get_annual_rev_def
      annual_revenue_rate_def annual_query_count_def access_interval_def price_def meta_new_def demo_chunks_def list_bdb_def demo_crypto_def
      bindc_def ret_def Let_def bit_count.simps)

theorem chunk_service_remote_witness:
  "\<exists>r c1 s1 c2. fst (client_fetch 4 (- 1) 0 chunk_service_client) = Inr 0 \<and> snd (client_fetch 4 (- 1) 0 chunk_service_client) = c1
    \<and> read_loop (rp_out c1) (chunk_service_connection (\<lambda>n. replicate n 0) (\<lambda>_. True) demo_crypto list_bdb demo_host
        :: (unit, (byte list \<times> meta) list chunk_host) rpc) = Some s1
    \<and> read_loop (rp_out s1) c1 = Some c2 \<and> pr_outcome (rp_heap c2 ! 0) = Value_set (R_fetch r)"
proof -
  obtain r host' where q: "run_requests (\<lambda>n. replicate n 0) (\<lambda>_. True) demo_crypto list_bdb [Q_fetch demo_fetch] demo_host = (Inr [R_fetch r], host')"
    "fr_data r = []" using demo_requests by blast
  have call: "request_call (Q_fetch demo_fetch) = (fetch_method_id, pack_fetch_request demo_fetch, result_of R_fetch unpack_fetch_response)" by simp
  obtain c1 where i: "client_fetch 4 (- 1) 0 chunk_service_client = (Inr 0, c1)"
    by (simp add: client_fetch_def chunk_service_client_def invoke_def bindc_def getc_def andthen_def modc_def ret_def rpc_send_def
        rpc_connect_def rpc_new_def enqueue_promise_def set_next_def Let_def)
  then have "invoke_all (map request_call [Q_fetch demo_fetch]) chunk_service_client = (Inr [0], c1)"
    by (simp add: client_fetch_def demo_fetch_def bindc_def ret_def)
  from chunk_service_remote [OF q(1) _ _ this] q(2)
  obtain s1 c2 where "read_loop (rp_out c1) (chunk_service_connection (\<lambda>n. replicate n 0) (\<lambda>_. True) demo_crypto list_bdb demo_host
      :: (unit, (byte list \<times> meta) list chunk_host) rpc) = Some s1" "read_loop (rp_out s1) c1 = Some c2"
    "pr_outcome (rp_heap c2 ! 0) = Value_set (R_fetch r)"
    by (auto simp: request_fits_def reply_fits_def fits32_def pack_fetch_request_def pack_fetch_response_def pack_pod_def pack_bytes_def
        pack_unsigned_def pack_uint.simps)
  then show ?thesis using i by auto
qed

end
