(* ===== verification/Cafs_Store.thy ===== *)
theory Cafs_Store
  imports Cafs_Props
begin

text \<open>
  The chunk files as a content addressed store. \<open>store_ok\<close> says what every file under the data directory is: a header and the data it
  was cut from, under the hash of the header. Every operation keeps it, whether it returns or throws, and in such a store a
  chunk can always be read. As long as no two of the strings that were hashed have one hash, a chunk that is stored twice is the same
  chunk, so that what is written is there afterwards even if a file of its name was there before.
\<close>

section \<open>Well-formed stores\<close>

definition chunk_file_ok :: "crypto \<Rightarrow> sha1 \<Rightarrow> byte list \<Rightarrow> bool" where
  "chunk_file_ok cr cid f \<longleftrightarrow> (\<exists>d. f = pack_header (slice_chunk cr d) @ d \<and> cid = calculate_id cr (slice_chunk cr d))"

definition store_ok :: "crypto \<Rightarrow> 'h cafs \<Rightarrow> bool" where
  "store_ok cr st \<longleftrightarrow> (\<forall>cid f. cf_files st cid = Some f \<longrightarrow> chunk_file_ok cr cid f)"

text \<open>Chunk files are only ever added.\<close>

definition grows :: "'h cafs \<Rightarrow> 'h cafs \<Rightarrow> bool" where
  "grows st st' \<longleftrightarrow> cf_files st \<subseteq>\<^sub>m cf_files st'"

lemma grows_refl [simp]: "grows st st"
  by (simp add: grows_def)

lemma grows_trans: "grows a b \<Longrightarrow> grows b c \<Longrightarrow> grows a c"
  by (auto simp: grows_def intro: map_le_trans)

lemma grows_files: "grows st st' \<Longrightarrow> cf_files st cid = Some f \<Longrightarrow> cf_files st' cid = Some f"
  unfolding grows_def map_le_def by (metis domI)

lemma same_files [simp]:
  "grows st (st\<lparr>cf_rand := n\<rparr>)" "grows st (st\<lparr>cf_db := h\<rparr>)"
  "store_ok cr (st\<lparr>cf_rand := n\<rparr>) = store_ok cr st" "store_ok cr (st\<lparr>cf_db := h\<rparr>) = store_ok cr st"
  by (simp_all add: grows_def store_ok_def)

lemma store_chunk_ok:
  assumes "store_ok cr st" "store_chunk cr (slice_chunk cr d) d st = (x, st')"
  shows "store_ok cr st' \<and> grows st st' \<and> cf_db st' = cf_db st"
  using assms
  by (auto simp: store_chunk_def store_ok_def grows_def Let_def chunk_file_ok_def map_le_def split: option.splits if_splits)

text \<open>A triple: from a well-formed store, the outcome of \<open>m\<close> leaves one that has grown.\<close>

definition keeps_store :: "crypto \<Rightarrow> ('h, 'a) cf \<Rightarrow> bool" where
  "keeps_store cr m \<longleftrightarrow> (\<forall>st x st'. store_ok cr st \<longrightarrow> m st = Some (x, st') \<longrightarrow> store_ok cr st' \<and> grows st st')"

named_theorems kstore

lemma kstore_ret [kstore]: "keeps_store cr (cf_ret a)"
  by (simp add: keeps_store_def cf_ret_def)

lemma kstore_raise [kstore]: "keeps_store cr (cf_raise e)"
  by (simp add: keeps_store_def cf_raise_def)

lemma kstore_read [kstore]: "keeps_store cr (\<lambda>st. Some (f st, st))"
  by (simp add: keeps_store_def)

lemma kstore_bind [kstore]:
  assumes "keeps_store cr m" "\<And>a. keeps_store cr (k a)"
  shows "keeps_store cr (cf_bind m k)"
  unfolding keeps_store_def
proof (intro allI impI)
  fix st x st' assume a: "store_ok cr st" "cf_bind m k st = Some (x, st')"
  then obtain y st1 where m: "m st = Some (y, st1)" by (auto simp: cf_bind_def split: option.splits)
  with a(1) assms(1) have s: "store_ok cr st1" "grows st st1" unfolding keeps_store_def by blast+
  show "store_ok cr st' \<and> grows st st'"
  proof (cases y)
    case (Inl e)
    then show ?thesis using a(2) m s by (simp add: cf_bind_def)
  next
    case (Inr b)
    then have "k b st1 = Some (x, st')" using a(2) m by (simp add: cf_bind_def)
    with assms(2) [of b] s(1) have "store_ok cr st'" "grows st1 st'" unfolding keeps_store_def by blast+
    then show ?thesis using s(2) by (blast intro: grows_trans)
  qed
qed

lemma kstore_randomize [kstore]: "keeps_store cr (do_randomize E d s)"
  by (auto simp: keeps_store_def do_randomize_def split: option.splits)

lemma kstore_chunk [kstore]: "keeps_store cr (cf_do (store_chunk cr (slice_chunk cr d) d))"
  using store_chunk_ok [of cr] by (force simp: keeps_store_def cf_do_def)

lemma kstore_db_store [kstore]: "keeps_store cr (cf_do (file_db_store E r))"
  by (auto simp: keeps_store_def cf_do_def file_db_store_def Let_def split: option.splits if_splits)

lemma kstore_import_data [kstore]: "keeps_store (ce_cr E) (import_data E d)"
  unfolding import_data_def by (intro kstore) (auto intro!: kstore split: prod.splits)

lemma kstore_save_chunk [kstore]: "keeps_store (ce_cr E) (save_chunk E cur ents)"
proof -
  define m where "m s = cf_bind (do_randomize E cur s) (\<lambda>(seed, enc).
     cf_bind (cf_do (store_chunk (ce_cr E) (slice_chunk (ce_cr E) enc) enc)) (\<lambda>cid.
       cf_ret (map (\<lambda>(name, r). if rf_chunk r = 0 then (name, r\<lparr>rf_seed := seed, rf_chunk := cid\<rparr>) else (name, r)) ents)))" for s :: u64
  have k: "keeps_store (ce_cr E) (m s)" for s
    unfolding m_def by (intro kstore) (auto intro!: kstore split: prod.splits)
  have "save_chunk E cur ents st = m (ce_rand E (cf_rand st)) (st\<lparr>cf_rand := Suc (cf_rand st)\<rparr>)" for st
    by (simp add: save_chunk_def m_def)
  moreover have "store_ok (ce_cr E) st' \<and> grows st st'" if "store_ok (ce_cr E) st" "m s (st\<lparr>cf_rand := n\<rparr>) = Some (x, st')" for s st n x st'
  proof -
    have "store_ok (ce_cr E) (st\<lparr>cf_rand := n\<rparr>)" using that(1) by simp
    then have "store_ok (ce_cr E) st' \<and> grows (st\<lparr>cf_rand := n\<rparr>) st'"
      using k [of s] that(2) unfolding keeps_store_def by blast
    then show ?thesis using grows_trans [OF same_files(1)] by blast
  qed
  ultimately show ?thesis unfolding keeps_store_def by metis
qed

lemma kstore_refs [kstore]: "keeps_store (ce_cr E) (store_refs E ents)"
  by (induction E ents rule: store_refs.induct) (auto intro: kstore)

lemma kstore_place_file [kstore]: "keeps_store (ce_cr E) (place_file E name file t cur ents)"
  unfolding place_file_def by (intro kstore) (auto intro!: kstore split: option.splits)

lemma kstore_import_loop: "keeps_store (ce_cr E) (import_loop E n r chunk rest acc)"
proof -
  have "store_ok (ce_cr E) st \<longrightarrow> store_ok (ce_cr E) (snd y) \<and> grows st (snd y)" if "import_loop E n r chunk rest acc st = Some y" for n r chunk rest acc st y
  proof (rule import_loop.raw_induct [where P = "\<lambda>E n r chunk rest acc st y. store_ok (ce_cr E) st \<longrightarrow> store_ok (ce_cr E) (snd y) \<and> grows st (snd y)", OF _ that])
    fix loop :: "'a cafs_env \<Rightarrow> nat \<Rightarrow> u32 \<Rightarrow> byte list \<Rightarrow> byte list \<Rightarrow> (sha1 \<times> u64) list \<Rightarrow> 'a cafs \<Rightarrow> ((sha1 \<times> u64) list res \<times> 'a cafs) option"
      and E :: "'a cafs_env" and n r chunk rest acc and st :: "'a cafs" and y
    assume IH: "\<And>E n r chunk rest acc st y. loop E n r chunk rest acc st = Some y \<Longrightarrow> store_ok (ce_cr E) st \<longrightarrow> store_ok (ce_cr E) (snd y) \<and> grows st (snd y)"
    assume s: "(if unat r < n then
        let some = min (length chunk) (n - unat r) in
        if length rest < some then Some (Inl (Throw ''end of file''), st)
        else
          let chunk1 = overwrite 0 (take some rest) chunk in
          Option.bind (randomize (is_random (ce_chi E)) (ce_mt E) chunk1 (data_seed (ce_cr E) chunk1)) (\<lambda>(seed, enc).
            let c = take some enc; x = store_chunk (ce_cr E) (slice_chunk (ce_cr E) c) c st in
            case fst x of
              Inl e \<Rightarrow> Some (Inl e, snd x)
            | Inr cid \<Rightarrow> loop E n (r + of_nat some) c (drop some rest) (acc @ [(cid, seed)]) (snd x))
      else Some (Inr acc, st)) = Some y"
    show "store_ok (ce_cr E) st \<longrightarrow> store_ok (ce_cr E) (snd y) \<and> grows st (snd y)"
    proof
      assume ok: "store_ok (ce_cr E) st"
      have k: "store_ok (ce_cr E) (snd (store_chunk (ce_cr E) (slice_chunk (ce_cr E) c) c st))
          \<and> grows st (snd (store_chunk (ce_cr E) (slice_chunk (ce_cr E) c) c st))" for c
        using store_chunk_ok [OF ok] by (metis prod.collapse)
      from s consider "snd y = st" | n' r' c rest' acc' where
        "loop E n' r' c rest' acc' (snd (store_chunk (ce_cr E) (slice_chunk (ce_cr E) c) c st)) = Some y"
        by (auto simp: Let_def bind_eq_Some_conv store_chunk_id split: if_splits prod.splits)
      then show "store_ok (ce_cr E) (snd y) \<and> grows st (snd y)"
      proof cases
        case 1
        then show ?thesis using ok by simp
      next
        case 2
        from IH [OF 2] k show ?thesis by (meson grows_trans)
      qed
    qed
  qed
  then show ?thesis unfolding keeps_store_def by fastforce
qed

lemma kstore_import_file [kstore]: "keeps_store (ce_cr E) (import_file E c)"
  unfolding import_file_def by (intro kstore kstore_import_loop)

lemma kstore_import_entries:
  "keeps_store (ce_cr E) (import_entry E name nd)"
  "keeps_store (ce_cr E) (import_entries E es cur ents)"
proof (induction E name nd and E es cur ents rule: import_entry_import_entries.induct)
  case (5 E name nd es cur ents)
  then show ?case by (auto intro!: kstore split: prod.splits)
qed (auto intro!: kstore split: prod.splits)

lemma kstore_cafs_import: "keeps_store (ce_cr E) (cafs_import E p)"
  unfolding cafs_import_def import_directory_def
  by (auto intro!: kstore kstore_import_entries split: option.splits fnode.splits)

lemma store_ok_read:
  assumes "fill_ok E" "store_ok (ce_cr E) st" "cf_files st cid = Some f" "length f < 2 ^ 32 - 1"
  shows "\<exists>d. get_chunk E cid 0 (- 1) st = Inr d \<and> f = pack_header (slice_chunk (ce_cr E) d) @ d \<and> cid = calculate_id (ce_cr E) (slice_chunk (ce_cr E) d)"
proof -
  obtain d where d: "f = pack_header (slice_chunk (ce_cr E) d) @ d" "cid = calculate_id (ce_cr E) (slice_chunk (ce_cr E) d)"
    using assms(2,3) by (auto simp: store_ok_def chunk_file_ok_def)
  have "get_chunk E cid 0 (- 1) st = Inr d"
    using get_chunk_stored(2) [OF assms(1), of st cid d 0 0] assms(3,4) d by simp
  then show ?thesis using d by blast
qed

text \<open>
  C30: the type of the store is kept: every chunk file is a header and the data it describes, under the hash of the header. Import keeps
  this whatever is imported and however it ends, replaces no chunk file, and in such a store the chunk of every file
  can be read: no slice fails its check.
\<close>

theorem cafs_store_typed:
  assumes "fill_ok E" "store_ok (ce_cr E) st" "cafs_import E p st = Some (x, st')"
  shows "store_ok (ce_cr E) st' \<and> grows st st'
    \<and> (\<forall>cid f. cf_files st' cid = Some f \<and> length f < 2 ^ 32 - 1 \<longrightarrow>
         (\<exists>d. get_chunk E cid 0 (- 1) st' = Inr d \<and> cid = calculate_id (ce_cr E) (slice_chunk (ce_cr E) d)))"
proof -
  have "store_ok (ce_cr E) st' \<and> grows st st'"
    using kstore_cafs_import [of E p] assms(2,3) unfolding keeps_store_def by blast
  then show ?thesis using store_ok_read [OF assms(1)] by metis
qed

theorem cafs_store_typed_witness:
  "\<exists>l st'. cafs_import cafs_demo (Some (Reg [1, 2, 3])) cafs_empty = Some (Inr l, st') \<and> store_ok (ce_cr cafs_demo) st'"
proof -
  obtain l st' where "import_data cafs_demo [0, 1, 2, 3] cafs_empty = Some (Inr l, st')"
    using demo_import_data [of "[0, 1, 2, 3]" cafs_empty] by (auto simp del: of_nat_add of_nat_mult)
  then have c: "cafs_import cafs_demo (Some (Reg [1, 2, 3])) cafs_empty = Some (Inr l, st')"
    by (simp add: cafs_import_def IMBED_THRESHOLD_def)
  have "store_ok (ce_cr cafs_demo) cafs_empty" by (simp add: store_ok_def cafs_empty_def)
  from cafs_store_typed [OF cafs_demo_fill this c] c show ?thesis by blast
qed

section \<open>No collisions\<close>

text \<open>The strings that are hashed when a chunk is stored: its slices and its header.\<close>

function slices :: "byte list \<Rightarrow> byte list list" where
  "slices data =
     (if data = [] then [] else let s = min (length data) MIN_SLICE_SIZE in take s data # slices (drop s data))"
  by auto

termination
  by (relation "measure length") (auto simp: MIN_SLICE_SIZE_def)

declare slices.simps [simp del]

definition chunk_hashes :: "crypto \<Rightarrow> byte list \<Rightarrow> byte list list" where
  "chunk_hashes cr data = slices data @ [pack_header (slice_chunk cr data)]"

definition no_collision :: "crypto \<Rightarrow> byte list set \<Rightarrow> bool" where
  "no_collision cr S \<longleftrightarrow> inj_on (sha1_hash cr) S \<and> (\<forall>x \<in> S. sha1_hash cr x \<noteq> 0)"

lemma slices_step: "data \<noteq> [] \<Longrightarrow> s = min (length data) MIN_SLICE_SIZE \<Longrightarrow> slices data = take s data # slices (drop s data)"
  by (subst slices.simps) (simp add: Let_def)

lemma concat_slices: "concat (slices data) = data"
proof (induction data rule: slices.induct)
  case (1 data)
  show ?case
  proof (cases "data = []")
    case True
    then show ?thesis by (simp add: slices.simps)
  next
    case False
    then show ?thesis using 1 [OF False refl] slices_step [OF False refl] by simp
  qed
qed

lemma slice_chunk_slices: "map sl_hash (slice_chunk cr data) = map (sha1_hash cr) (slices data)"
proof (induction data rule: slices.induct)
  case (1 data)
  show ?case
  proof (cases "data = []")
    case True
    then show ?thesis by (simp add: slices.simps)
  next
    case False
    then show ?thesis using 1 [OF False refl] slices_step [OF False refl] slice_chunk_Cons [OF False refl, of cr] by simp
  qed
qed

lemma pack_header_inj:
  assumes "fits32 (length a)" "fits32 (length b)" "pack_header a = pack_header b"
  shows "a = b"
  using header_codec.unpack_pack [OF assms(1), of "[]"] header_codec.unpack_pack [OF assms(2), of "[]"] assms(3) by simp

lemma chunk_id_inj:
  assumes "no_collision cr S" "set (chunk_hashes cr d) \<subseteq> S" "set (chunk_hashes cr d') \<subseteq> S"
    "length d < 2 ^ 32" "length d' < 2 ^ 32" "calculate_id cr (slice_chunk cr d) = calculate_id cr (slice_chunk cr d')"
  shows "d = d'"
proof -
  have i: "inj_on (sha1_hash cr) S" using assms(1) by (simp add: no_collision_def)
  have "pack_header (slice_chunk cr d) = pack_header (slice_chunk cr d')"
    using assms(2,3,6) inj_onD [OF i] by (simp add: calculate_id_def chunk_hashes_def)
  then have "slice_chunk cr d = slice_chunk cr d'"
    using pack_header_inj length_slice_chunk [of cr d] length_slice_chunk [of cr d'] assms(4,5) by (simp add: fits32_def)
  then have "map (sha1_hash cr) (slices d) = map (sha1_hash cr) (slices d')" by (simp flip: slice_chunk_slices)
  moreover have "inj_on (sha1_hash cr) (set (slices d) \<union> set (slices d'))"
    by (rule inj_on_subset [OF i]) (use assms(2,3) in \<open>simp add: chunk_hashes_def\<close>)
  ultimately have "slices d = slices d'" by (simp add: inj_on_map_eq_map)
  then show ?thesis by (metis concat_slices)
qed

text \<open>A store whose chunks were all hashed within \<open>S\<close>.\<close>

definition store_within :: "crypto \<Rightarrow> byte list set \<Rightarrow> 'h cafs \<Rightarrow> bool" where
  "store_within cr S st \<longleftrightarrow> (\<forall>cid f. cf_files st cid = Some f \<longrightarrow>
     (\<exists>d. f = pack_header (slice_chunk cr d) @ d \<and> cid = calculate_id cr (slice_chunk cr d) \<and> set (chunk_hashes cr d) \<subseteq> S \<and> length d < 2 ^ 32))"

lemma store_within_simps [simp]:
  "store_within cr S (st\<lparr>cf_rand := n\<rparr>) = store_within cr S st" "store_within cr S (st\<lparr>cf_db := h\<rparr>) = store_within cr S st"
  by (simp_all add: store_within_def)

lemma store_chunk_within:
  assumes "no_collision cr S" "store_within cr S st" "set (chunk_hashes cr d) \<subseteq> S" "length d < 2 ^ 32"
  obtains cid st' where "store_chunk cr (slice_chunk cr d) d st = (Inr cid, st')" "cid \<noteq> 0" "store_within cr S st'" "grows st st'"
    "cf_db st' = cf_db st" "cf_files st' cid = Some (pack_header (slice_chunk cr d) @ d)"
proof -
  let ?id = "calculate_id cr (slice_chunk cr d)"
  have nz: "?id \<noteq> 0" using assms(1,3) by (simp add: no_collision_def chunk_hashes_def calculate_id_def)
  show thesis
  proof (cases "cf_files st ?id")
    case None
    let ?st = "st\<lparr>cf_files := (cf_files st)(?id \<mapsto> pack_header (slice_chunk cr d) @ d)\<rparr>"
    have "store_chunk cr (slice_chunk cr d) d st = (Inr ?id, ?st)" using None by (simp add: store_chunk_def Let_def)
    moreover have "store_within cr S ?st" using assms(2-4) by (auto simp: store_within_def split: if_splits)
    moreover have "grows st ?st" using None by (auto simp: grows_def map_le_def)
    ultimately show ?thesis using nz that by simp
  next
    case (Some f)
    then obtain d' where d': "f = pack_header (slice_chunk cr d') @ d'" "?id = calculate_id cr (slice_chunk cr d')"
      "set (chunk_hashes cr d') \<subseteq> S" "length d' < 2 ^ 32" using assms(2) unfolding store_within_def by blast
    have "d = d'" by (rule chunk_id_inj [OF assms(1,3) d'(3) assms(4) d'(4,2)])
    then show ?thesis using that [of ?id st] nz assms(2) Some d'(1) by (simp add: store_chunk_def Let_def)
  qed
qed

end
