(* ===== verification/Tproxy.thy ===== *)
theory Tproxy
  imports Cafs_Props
begin

text \<open>
  How the web proxy of src/tprox.cpp serves what is in the file system: a request names a link and a path; the path is
  followed through the directories, and the file at its end is sent, or the directory listed. Strings are lists of
  bytes. What is written to the client is \<open>Served\<close> with the bytes of a file or \<open>Listed\<close> with the entries of a directory; \<open>No_reply\<close>
  stands for a handler that returns without writing anything. The parsing of the request and the text of the pages are not modelled.
\<close>

datatype http_reply = Served "byte list" | Listed "byte list" "dir_entry list" | No_reply

abbreviation slash :: byte where "slash \<equiv> 47"

section \<open>Handlers\<close>

text \<open>The loop that takes the first name off a path. Slashes before the name are skipped.\<close>

fun split_head :: "byte list \<Rightarrow> byte list \<Rightarrow> byte list \<times> byte list" where
  "split_head name [] = (name, [])"
| "split_head name (c # r) =
     (if c = slash \<and> name \<noteq> [] then (name, c # r)
      else if c \<noteq> slash then split_head (name @ [c]) r
      else split_head name r)"

definition find_entry :: "byte list \<Rightarrow> dir_entry list \<Rightarrow> file_ref option" where
  "find_entry name ents = map_option snd (find (\<lambda>(n, r). n = name) ents)"

lemma split_head_shorter: "length (snd (split_head name s)) \<le> length s"
  by (induction name s rule: split_head.induct) auto

lemma split_head_tail: "s \<noteq> [] \<Longrightarrow> length (snd (split_head [] s)) < length s"
  using split_head_shorter [of "[hd s]" "tl s"] split_head_shorter [of "[]" "tl s"] by (cases s) auto

function handle_file_ref :: "'h cafs_env \<Rightarrow> 'h cafs \<Rightarrow> file_ref \<Rightarrow> byte list \<Rightarrow> byte list \<Rightarrow> http_reply res" where
  "handle_file_ref E st fr p subpath =
     (if rf_type fr \<noteq> type_code directory_type \<and> subpath \<noteq> [] then Inl (Throw ''not a directory'')
      else
        case get_resource_ref E fr st of
          Inl e \<Rightarrow> Inl e
        | Inr rs \<Rightarrow>
            (case res_file_data rs of
               Some d \<Rightarrow> Inr (Served d)
             | None \<Rightarrow>
                 (case res_directory rs of
                    Inl e \<Rightarrow> Inl e
                  | Inr None \<Rightarrow> Inr No_reply
                  | Inr (Some d) \<Rightarrow>
                      if subpath = [slash] \<or> subpath = [] then Inr (Listed p d)
                      else
                        (case find_entry (fst (split_head [] subpath)) d of
                           None \<Rightarrow> Inl (Throw ''File not found'')
                         | Some r \<Rightarrow> handle_file_ref E st r (p @ slash # fst (split_head [] subpath)) (snd (split_head [] subpath))))))"
  by auto

termination
  by (relation "measure (\<lambda>(E, st, fr, p, subpath). length subpath)") (auto simp: split_head_tail)

declare handle_file_ref.simps [simp del]

definition handle_link :: "'h cafs_env \<Rightarrow> 'h cafs \<Rightarrow> link \<Rightarrow> byte list \<Rightarrow> http_reply res" where
  "handle_link E st l p =
     (case get_resource_link E l st of
        Inl e \<Rightarrow> Inl e
      | Inr None \<Rightarrow> Inl (Throw ''Unable to find resource'')
      | Inr (Some rs) \<Rightarrow>
          (case res_file_data rs of
             Some d \<Rightarrow> Inr (Served d)
           | None \<Rightarrow>
               (case res_directory rs of
                  Inl e \<Rightarrow> Inl e
                | Inr None \<Rightarrow> Inl (Throw ''Not implemented'')
                | Inr (Some d) \<Rightarrow>
                    if p = [slash] \<or> p = [] then Inr (Listed [slash] d)
                    else
                      (case find_entry (takeWhile (\<lambda>c. c \<noteq> slash) p) d of
                         None \<Rightarrow> Inl (Throw ''File not found'')
                       | Some r \<Rightarrow> handle_file_ref E st r (slash # takeWhile (\<lambda>c. c \<noteq> slash) p) (dropWhile (\<lambda>c. c \<noteq> slash) p)))))"

section \<open>Paths\<close>

text \<open>A path as its names, followed name by name.\<close>

definition path_string :: "byte list list \<Rightarrow> byte list" where
  "path_string ns = concat (map (\<lambda>n. slash # n) ns)"

definition name_ok :: "byte list \<Rightarrow> bool" where
  "name_ok n \<longleftrightarrow> n \<noteq> [] \<and> slash \<notin> set n"

fun follow :: "'h cafs_env \<Rightarrow> 'h cafs \<Rightarrow> file_ref \<Rightarrow> byte list list \<Rightarrow> file_ref res" where
  "follow E st fr [] = Inr fr"
| "follow E st fr (n # ns) =
     (if rf_type fr \<noteq> type_code directory_type then Inl (Throw ''not a directory'')
      else
        case get_resource_ref E fr st of
          Inl e \<Rightarrow> Inl e
        | Inr rs \<Rightarrow>
            (case res_directory rs of
               Inl e \<Rightarrow> Inl e
             | Inr None \<Rightarrow> Inl (Throw ''not a directory'')
             | Inr (Some d) \<Rightarrow> (case find_entry n d of None \<Rightarrow> Inl (Throw ''File not found'') | Some r \<Rightarrow> follow E st r ns)))"

lemma split_head_name: "slash \<notin> set n \<Longrightarrow> split_head m (n @ r) = split_head (m @ n) r"
  by (induction n arbitrary: m) auto

lemma split_head_path:
  assumes "name_ok n"
  shows "split_head [] (path_string (n # ns)) = (n, path_string ns)"
proof -
  have "split_head [] (path_string (n # ns)) = split_head n (path_string ns)"
    using assms split_head_name [of n "[]" "path_string ns"] by (simp add: path_string_def name_ok_def)
  also have "\<dots> = (n, path_string ns)" using assms by (cases ns) (simp_all add: path_string_def name_ok_def)
  finally show ?thesis .
qed

lemma type_of_resource: "get_resource_ref E fr st = Inr rs \<Longrightarrow> \<exists>b. rs = rf_type fr # b"
  by (auto simp: get_resource_ref_def split: sum.splits)

text \<open>
  C14: a request is answered as the path says: if the names of a path, none empty and none with a slash in it, lead from a
  directory to a reference, then the answer for the path is the answer for that reference itself; and if they lead nowhere, the
  request fails.
\<close>

theorem tproxy_follows_path:
  assumes "list_all name_ok ns"
  shows "(case follow E st fr ns of
      Inr r \<Rightarrow> \<exists>p'. handle_file_ref E st fr p (path_string ns) = handle_file_ref E st r p' []
    | Inl e \<Rightarrow> \<exists>e'. handle_file_ref E st fr p (path_string ns) = Inl e')"
  using assms
proof (induction ns arbitrary: fr p)
  case Nil
  then show ?case by (auto simp: path_string_def)
next
  case (Cons n ns)
  note sp = split_head_path [of n ns]
  have ne: "path_string (n # ns) \<noteq> []" "path_string (n # ns) \<noteq> [slash]" using Cons.prems by (auto simp: path_string_def name_ok_def)
  show ?case
  proof (cases "rf_type fr = type_code directory_type")
    case False
    then show ?thesis using ne by (subst handle_file_ref.simps) simp
  next
    case True
    show ?thesis
    proof (cases "get_resource_ref E fr st")
      case (Inl e)
      then show ?thesis using True by (subst handle_file_ref.simps) simp
    next
      case (Inr rs)
      obtain b where b: "rs = 1 # b" using type_of_resource [OF Inr] True by auto
      have nf: "res_file_data rs = None" by (simp add: b res_file_data_def res_is_def)
      show ?thesis
      proof (cases "res_directory rs")
        case (Inl e)
        then show ?thesis using True Inr nf by (subst handle_file_ref.simps) simp
      next
        case d: (Inr od)
        then obtain d' where d': "od = Some d'" by (auto simp: res_directory_def res_is_def b split: prod.splits sum.splits)
        show ?thesis
        proof (cases "find_entry n d'")
          case None
          then show ?thesis using True Inr nf d d' ne sp Cons.prems by (subst handle_file_ref.simps) simp
        next
          case (Some r)
          have "handle_file_ref E st fr p (path_string (n # ns)) = handle_file_ref E st r (p @ slash # n) (path_string ns)"
            using True Inr nf d d' ne sp Cons.prems Some by (subst handle_file_ref.simps) simp
          then show ?thesis using Cons.IH [of r "p @ slash # n"] Cons.prems True Inr d d' Some by (simp split: sum.splits)
        qed
      qed
    qed
  qed
qed

section \<open>Witness\<close>

text \<open>One chunk with a file and a directory that refers to it.\<close>

definition tp_file :: file_ref where
  "tp_file = \<lparr>rf_content = 2, rf_chunk = 25, rf_seed = 1, rf_pos = of_nat 0, rf_size = of_nat 2, rf_type = 0\<rparr>"

definition tp_data :: "byte list" where
  "tp_data = [5, 6] @ pack_directory [([97], tp_file)]"

definition tp_enc :: "byte list" where
  "tp_enc = xor_words (ce_mt cafs_demo 1) 0 tp_data"

definition tp_store :: "(byte list \<times> byte list) list cafs" where
  "tp_store = cafs_empty\<lparr>cf_files := [25 \<mapsto> pack_header (slice_chunk (ce_cr cafs_demo) tp_enc) @ tp_enc]\<rparr>"

definition tp_dir :: file_ref where
  "tp_dir = \<lparr>rf_content = 0, rf_chunk = 25, rf_seed = 1, rf_pos = of_nat 2, rf_size = of_nat (length tp_data - 2), rf_type = 1\<rparr>"

lemma length_tp_data: "length tp_data = 62"
  by (simp add: tp_data_def pack_directory_def pack_list_def pack_pair_def pack_bytes_def pack_file_ref_def pack_pod_def
      pack_unsigned_def pack_uint.simps)

lemma tp_resources:
  "get_resource_ref cafs_demo tp_file tp_store = Inr [0, 5, 6]"
  "get_resource_ref cafs_demo tp_dir tp_store = Inr (1 # pack_directory [([97], tp_file)])"
proof -
  have r: "randomize (is_random (ce_chi cafs_demo)) (ce_mt cafs_demo) tp_data 0 = Some (1, tp_enc)"
    by (simp add: demo_randomize tp_enc_def)
  have f: "cf_files tp_store 25 = Some (pack_header (slice_chunk (ce_cr cafs_demo) tp_enc) @ tp_enc)" by (simp add: tp_store_def)
  have "length tp_data < 2 ^ 32 - 1" using length_tp_data by simp
  note st = resource_stored [OF cafs_demo_fill r f this]
  have "get_resource_ref cafs_demo tp_file tp_store = Inr (0 # take 2 (drop 0 tp_data))"
    unfolding tp_file_def by (rule st) (simp add: length_tp_data)
  then show "get_resource_ref cafs_demo tp_file tp_store = Inr [0, 5, 6]" by (simp add: tp_data_def)
  have "get_resource_ref cafs_demo tp_dir tp_store = Inr (1 # take (length tp_data - 2) (drop 2 tp_data))"
    unfolding tp_dir_def by (rule st) (simp add: length_tp_data)
  moreover have "take (length tp_data - 2) (drop 2 tp_data) = pack_directory [([97], tp_file)]" by (simp add: tp_data_def)
  ultimately show "get_resource_ref cafs_demo tp_dir tp_store = Inr (1 # pack_directory [([97], tp_file)])" by (simp only:)
qed

theorem tproxy_follows_path_witness: "handle_file_ref cafs_demo tp_store tp_dir [] [47, 97] = Inr (Served [5, 6])"
proof -
  have "unpack_directory (pack_directory [([97], tp_file)]) = (Inr [([97], tp_file)], [])"
    using directory_codec.unpack_pack [of "[([97], tp_file)]" "[]"] by (simp add: fits32_def)
  then have "res_directory (1 # pack_directory [([97], tp_file)]) = Inr (Some [([97], tp_file)])"
    by (simp add: res_directory_def res_is_def)
  then have f: "follow cafs_demo tp_store tp_dir [[97]] = Inr tp_file"
    using tp_resources(2) by (simp add: find_entry_def) (simp add: tp_dir_def)
  have "handle_file_ref cafs_demo tp_store tp_file p [] = Inr (Served [5, 6])" for p
    by (subst handle_file_ref.simps) (simp add: tp_resources(1) res_file_data_def res_is_def)
  then show ?thesis using tproxy_follows_path [of "[[97]]" cafs_demo tp_store tp_dir "[]"] f by (auto simp: name_ok_def path_string_def)
qed

end
