(* ===== verification/Cafs_Tree.thy ===== *)
theory Cafs_Tree
  imports Cafs_Store Tproxy
begin

text \<open>
  A directory tree that is imported can be read back file by file. The import packs the files of a directory into shared chunks,
  refers to a file that is already known instead of storing it again, and stores a subdirectory like a file. What is shown
  rests on two things the code relies on: that no two of the strings it hashed have one hash, and that a file is told apart from a directory by its
  bytes, because the index of known files is asked for the content only.
\<close>

section \<open>What an import hashes\<close>

definition save_hashes :: "'h cafs_env \<Rightarrow> byte list \<Rightarrow> 'h cafs \<Rightarrow> byte list list" where
  "save_hashes E cur st =
     (case randomize (is_random (ce_chi E)) (ce_mt E) cur (ce_rand E (cf_rand st)) of
        None \<Rightarrow> [] | Some (seed, enc) \<Rightarrow> chunk_hashes (ce_cr E) enc)"

definition place_hashes :: "'h cafs_env \<Rightarrow> byte list \<Rightarrow> byte list \<Rightarrow> 'h cafs \<Rightarrow> byte list list" where
  "place_hashes E file cur st =
     file # (if file_db_fetch E (sha1_hash (ce_cr E) file) st = Inr None \<and> MAX_CHUNK_SIZE - length cur \<le> length file
             then save_hashes E cur st else [])"

definition hidden :: "byte list \<Rightarrow> bool" where
  "hidden name \<longleftrightarrow> (case name of [] \<Rightarrow> 0 | c # _ \<Rightarrow> c) = 46"

fun entry_hashes :: "'h cafs_env \<Rightarrow> byte list \<Rightarrow> fnode \<Rightarrow> 'h cafs \<Rightarrow> byte list list"
  and entries_hashes :: "'h cafs_env \<Rightarrow> (byte list \<times> fnode) list \<Rightarrow> byte list \<Rightarrow> dir_entry list \<Rightarrow> 'h cafs \<Rightarrow> byte list list" where
  "entry_hashes E name (Reg c) st = []"
| "entry_hashes E name (Dir es) st = (if hidden name then [] else entries_hashes E es [] [] st)"
| "entry_hashes E name Special st = []"
| "entries_hashes E [] cur ents st = []"
| "entries_hashes E ((name, nd) # es) cur ents st =
     entry_hashes E name nd st @
     (case import_entry E name nd st of
        Some (Inr (file, t), st1) \<Rightarrow>
          place_hashes E file cur st1 @
          (case place_file E name file t cur ents st1 of
             Some (Inr (cur', ents'), st2) \<Rightarrow>
               (if es = [] \<and> cur' \<noteq> [] then save_hashes E cur' st2 else []) @
               (case (if es = [] \<and> cur' \<noteq> [] then save_chunk E cur' ents' else cf_ret ents') st2 of
                  Some (Inr ents'', st3) \<Rightarrow> entries_hashes E es cur' ents'' st3
                | _ \<Rightarrow> [])
           | _ \<Rightarrow> [])
      | _ \<Rightarrow> [])"

definition data_hashes :: "'h cafs_env \<Rightarrow> byte list \<Rightarrow> byte list list" where
  "data_hashes E data =
     (case randomize (is_random (ce_chi E)) (ce_mt E) data (data_seed (ce_cr E) data) of
        None \<Rightarrow> [] | Some (seed, enc) \<Rightarrow> chunk_hashes (ce_cr E) enc)"

definition import_hashes :: "'h cafs_env \<Rightarrow> (byte list \<times> fnode) list \<Rightarrow> 'h cafs \<Rightarrow> byte list list" where
  "import_hashes E es st = entries_hashes E es [] [] st @
     (case import_directory E es st of Some (Inr d, st1) \<Rightarrow> data_hashes E (type_code directory_type # pack_directory d) | _ \<Rightarrow> [])"

section \<open>Trees\<close>

text \<open>
  The trees the theorem is about: files of at most one mebibyte that are not empty and not, byte for byte, the packed form of a directory;
  names that are not empty and have no slash in them; directories whose packed form fits a chunk. Anything else may be there as well, such as links
  and directories whose names start with a dot.
\<close>

definition dir_size :: "(byte list \<times> fnode) list \<Rightarrow> nat" where
  "dir_size es = 5 + sum_list (map (\<lambda>(n, nd). length n + 62) es)"

fun tree_ok :: "fnode \<Rightarrow> bool" and trees_ok :: "(byte list \<times> fnode) list \<Rightarrow> bool" where
  "tree_ok (Reg c) \<longleftrightarrow> c \<noteq> [] \<and> length c \<le> IMBED_THRESHOLD \<and> (\<forall>d. c \<noteq> pack_directory d)"
| "tree_ok (Dir es) \<longleftrightarrow> dir_size es < MAX_CHUNK_SIZE - 1 \<and> trees_ok es"
| "tree_ok Special \<longleftrightarrow> True"
| "trees_ok [] \<longleftrightarrow> True"
| "trees_ok ((n, nd) # es) \<longleftrightarrow> name_ok n \<and> (case nd of Dir _ \<Rightarrow> hidden n \<or> tree_ok nd | _ \<Rightarrow> tree_ok nd) \<and> trees_ok es"

text \<open>The file a path leads to.\<close>

fun tree_file :: "fnode \<Rightarrow> byte list list \<Rightarrow> byte list option" where
  "tree_file (Reg c) [] = Some c"
| "tree_file (Dir es) (n # ns) =
     (case map_of es n of
        None \<Rightarrow> None
      | Some (Dir es') \<Rightarrow> if hidden n then None else tree_file (Dir es') ns
      | Some nd \<Rightarrow> tree_file nd ns)"
| "tree_file _ _ = None"

section \<open>References\<close>

definition kind_code :: "byte list \<Rightarrow> byte" where
  "kind_code c = (if \<exists>d. c = pack_directory d then type_code directory_type else type_code file_data_type)"

definition saved_ref :: "'h cafs_env \<Rightarrow> 'h cafs \<Rightarrow> byte list \<Rightarrow> file_ref \<Rightarrow> bool" where
  "saved_ref E st c r \<longleftrightarrow> rf_chunk r \<noteq> 0 \<and> get_resource_ref E r st = Inr (rf_type r # c)"

definition pending_ref :: "byte list \<Rightarrow> byte list \<Rightarrow> file_ref \<Rightarrow> bool" where
  "pending_ref cur c r \<longleftrightarrow> rf_chunk r = 0 \<and> (\<exists>p. rf_pos r = of_nat p \<and> rf_size r = of_nat (length c)
     \<and> p + length c \<le> length cur \<and> take (length c) (drop p cur) = c)"

definition ref_ok :: "'h cafs_env \<Rightarrow> 'h cafs \<Rightarrow> byte list \<Rightarrow> byte list \<Rightarrow> file_ref \<Rightarrow> bool" where
  "ref_ok E st cur c r \<longleftrightarrow> rf_content r = sha1_hash (ce_cr E) c \<and>
     (c = [] \<or> rf_type r = kind_code c \<and> (saved_ref E st c r \<or> pending_ref cur c r))"

definition cafs_inv :: "'h cafs_env \<Rightarrow> byte list set \<Rightarrow> 'h cafs \<Rightarrow> bool" where
  "cafs_inv E S st \<longleftrightarrow> store_within (ce_cr E) S st \<and>
     (\<forall>fid. file_db_fetch E fid st = Inr None \<or>
       (\<exists>r c. file_db_fetch E fid st = Inr (Some r) \<and> c \<in> S \<and> sha1_hash (ce_cr E) c = fid \<and> ref_ok E st [] c r))"

lemma get_chunk_grows: "grows st st' \<Longrightarrow> get_chunk E cid p n st = Inr d \<Longrightarrow> get_chunk E cid p n st' = Inr d"
  by (cases "cf_files st cid") (simp_all add: get_chunk_def grows_files)

lemma resource_grows: "grows st st' \<Longrightarrow> get_resource_ref E r st = Inr d \<Longrightarrow> get_resource_ref E r st' = Inr d"
  by (auto simp: get_resource_ref_def split: sum.splits dest: get_chunk_grows)

lemma saved_grows: "grows st st' \<Longrightarrow> saved_ref E st c r \<Longrightarrow> saved_ref E st' c r"
  by (auto simp: saved_ref_def intro: resource_grows)

lemma ref_ok_grows: "grows st st' \<Longrightarrow> ref_ok E st cur c r \<Longrightarrow> ref_ok E st' cur c r"
  by (auto simp: ref_ok_def intro: saved_grows)

lemma pending_more: "pending_ref cur c r \<Longrightarrow> pending_ref (cur @ x) c r"
  by (fastforce simp: pending_ref_def)

lemma ref_ok_more: "ref_ok E st cur c r \<Longrightarrow> ref_ok E st (cur @ x) c r"
  by (auto simp: ref_ok_def intro: pending_more)

lemma pending_Nil: "pending_ref [] c r \<Longrightarrow> c = []"
  by (auto simp: pending_ref_def)

lemma ref_ok_any: "ref_ok E st [] c r \<Longrightarrow> ref_ok E st cur c r"
  using ref_ok_more [of E st "[]" c r cur] by simp

lemma inv_grows:
  assumes "cafs_inv E S st" "store_within (ce_cr E) S st'" "grows st st'" "cf_db st' = cf_db st"
  shows "cafs_inv E S st'"
proof -
  have "file_db_fetch E fid st' = file_db_fetch E fid st" for fid by (simp add: file_db_fetch_def assms(4))
  then show ?thesis using assms(1,2) ref_ok_grows [OF assms(3)] unfolding cafs_inv_def by metis
qed

section \<open>Saving and placing\<close>

text \<open>The environment: the search for a seed ends, and the index takes what is put into it.\<close>

definition cafs_env_ok :: "'h cafs_env \<Rightarrow> bool" where
  "cafs_env_ok E \<longleftrightarrow> fill_ok E \<and> bdb_ok (ce_db E) \<and> (\<forall>h k v. db_put (ce_db E) h k v \<noteq> None) \<and>
     (\<forall>data seed. randomize (is_random (ce_chi E)) (ce_mt E) data seed \<noteq> None)"

lemma saved_ref_new:
  assumes "fill_ok E" "randomize (is_random (ce_chi E)) (ce_mt E) cur s0 = Some (seed, enc)" "length cur \<le> MAX_CHUNK_SIZE"
    "cf_files st cid = Some (pack_header (slice_chunk (ce_cr E) enc) @ enc)" "cid \<noteq> 0" "pending_ref cur c r"
  shows "saved_ref E st c (r\<lparr>rf_seed := seed, rf_chunk := cid\<rparr>)"
proof -
  obtain p where p: "rf_pos r = of_nat p" "rf_size r = of_nat (length c)" "p + length c \<le> length cur" "take (length c) (drop p cur) = c"
    using assms(6) by (auto simp: pending_ref_def)
  have "r\<lparr>rf_seed := seed, rf_chunk := cid\<rparr> = \<lparr>rf_content = rf_content r, rf_chunk = cid, rf_seed = seed, rf_pos = of_nat p,
      rf_size = of_nat (length c), rf_type = rf_type r\<rparr>" using p(1,2) by (cases r) simp
  moreover have "length cur < 2 ^ 32 - 1" using assms(3) by (simp add: MAX_CHUNK_SIZE_def)
  ultimately show ?thesis using resource_stored [OF assms(1,2,4), of p "length c"] p(3,4) assms(5) by (simp add: saved_ref_def)
qed

lemma save_chunk_inv:
  assumes "cafs_env_ok E" "no_collision (ce_cr E) S" "cafs_inv E S st" "set (save_hashes E cur st) \<subseteq> S" "length cur \<le> MAX_CHUNK_SIZE"
    "list_all2 (ref_ok E st cur) cs (map snd ents)"
  obtains ents' st' where "save_chunk E cur ents st = Some (Inr ents', st')" "cafs_inv E S st'" "grows st st'"
    "map fst ents' = map fst ents" "list_all2 (ref_ok E st' []) cs (map snd ents')"
proof -
  have f: "fill_ok E" using assms(1) by (simp add: cafs_env_ok_def)
  obtain seed enc where z: "randomize (is_random (ce_chi E)) (ce_mt E) cur (ce_rand E (cf_rand st)) = Some (seed, enc)"
    using assms(1) by (fastforce simp: cafs_env_ok_def)
  let ?st = "st\<lparr>cf_rand := Suc (cf_rand st)\<rparr>"
  have h: "set (chunk_hashes (ce_cr E) enc) \<subseteq> S" using assms(4) by (simp add: save_hashes_def z)
  have l: "length enc < 2 ^ 32" using derandomize_part [OF _ z, of 0 0] assms(5) by (simp add: MAX_CHUNK_SIZE_def)
  have w: "store_within (ce_cr E) S ?st" using assms(3) by (simp add: cafs_inv_def)
  obtain cid st' where s: "store_chunk (ce_cr E) (slice_chunk (ce_cr E) enc) enc ?st = (Inr cid, st')" "cid \<noteq> 0"
    "store_within (ce_cr E) S st'" "grows ?st st'" "cf_db st' = cf_db ?st" "cf_files st' cid = Some (pack_header (slice_chunk (ce_cr E) enc) @ enc)"
    using store_chunk_within [OF assms(2) w h l] .
  have g: "grows st st'" using s(4) by (simp add: grows_def)
  let ?upd = "\<lambda>r. if rf_chunk r = 0 then r\<lparr>rf_seed := seed, rf_chunk := cid\<rparr> else r"
  let ?ents = "map (\<lambda>(name, r). if rf_chunk r = 0 then (name, r\<lparr>rf_seed := seed, rf_chunk := cid\<rparr>) else (name, r)) ents"
  have e: "save_chunk E cur ents st = Some (Inr ?ents, st')"
    using z s(1) by (simp add: save_chunk_def cf_bind_def cf_do_def cf_ret_def do_randomize_def)
  have u: "ref_ok E st' [] c (?upd r)" if r: "ref_ok E st cur c r" for c r
  proof -
    have "saved_ref E st' c (?upd r)" if "saved_ref E st c r" using saved_grows [OF g that] that by (simp add: saved_ref_def)
    moreover have "saved_ref E st' c (?upd r)" if "pending_ref cur c r"
      using saved_ref_new [OF f z assms(5) s(6,2) that] that by (simp add: pending_ref_def)
    ultimately show ?thesis using r by (auto simp: ref_ok_def)
  qed
  have m: "map snd ?ents = map ?upd (map snd ents)" "map fst ?ents = map fst ents" by auto
  have "list_all2 (\<lambda>c r. ref_ok E st' [] c (?upd r)) cs (map snd ents)" using assms(6) by (rule list_all2_mono) (rule u)
  then have "list_all2 (ref_ok E st' []) cs (map snd ?ents)" unfolding m(1) by (simp only: list_all2_map2 map_map o_def)
  moreover have "cafs_inv E S st'" using inv_grows [OF assms(3) s(3) g] s(5) by simp
  ultimately show thesis using that e g m(2) by blast
qed

lemma add_to_chunk_ok:
  assumes "length cur + length file < MAX_CHUNK_SIZE" "file = [] \<or> type_code t = kind_code file"
  obtains r where "add_to_chunk (ce_cr E) cur file name t ents = Some (cur @ file, ents @ [(name, r)])" "ref_ok E st (cur @ file) file r"
proof -
  let ?r = "file_ref_new\<lparr>rf_content := sha1_hash (ce_cr E) file, rf_pos := of_nat (length cur), rf_size := of_nat (length file), rf_type := type_code t\<rparr>"
  have "pending_ref (cur @ file) file ?r" by (auto simp: pending_ref_def file_ref_new_def intro!: exI [of _ "length cur"])
  then have "ref_ok E st (cur @ file) file ?r" using assms(2) by (auto simp: ref_ok_def)
  then show thesis using that [of ?r] assms(1) by (simp add: add_to_chunk_def)
qed

lemma place_file_inv:
  assumes "cafs_env_ok E" "no_collision (ce_cr E) S" "cafs_inv E S st" "set (place_hashes E file cur st) \<subseteq> S" "length cur \<le> MAX_CHUNK_SIZE"
    "list_all2 (ref_ok E st cur) cs (map snd ents)" "length file < MAX_CHUNK_SIZE" "file = [] \<or> type_code t = kind_code file"
  obtains cur' ents' st' where "place_file E name file t cur ents st = Some (Inr (cur', ents'), st')" "cafs_inv E S st'" "grows st st'"
    "length cur' \<le> MAX_CHUNK_SIZE" "map fst ents' = map fst ents @ [name]" "list_all2 (ref_ok E st' cur') (cs @ [file]) (map snd ents')"
proof -
  let ?h = "sha1_hash (ce_cr E) file"
  have fS: "file \<in> S" using assms(4) by (simp add: place_hashes_def)
  consider (none) "file_db_fetch E ?h st = Inr None"
    | (known) r c where "file_db_fetch E ?h st = Inr (Some r)" "c \<in> S" "sha1_hash (ce_cr E) c = ?h" "ref_ok E st [] c r"
    using assms(3) unfolding cafs_inv_def by blast
  then show thesis
  proof cases
    case known
    then have "c = file" using assms(2) fS by (auto simp: no_collision_def dest: inj_onD)
    then have "list_all2 (ref_ok E st cur) (cs @ [file]) (map snd (ents @ [(name, r)]))"
      using assms(6) known(4) ref_ok_any by (auto intro!: list_all2_appendI)
    then show ?thesis using that [of cur "ents @ [(name, r)]" st] known(1) assms(3,5) by (simp add: place_file_def cf_bind_def cf_ret_def)
  next
    case none
    show ?thesis
    proof (cases "length file < MAX_CHUNK_SIZE - length cur")
      case True
      obtain r where r: "add_to_chunk (ce_cr E) cur file name t ents = Some (cur @ file, ents @ [(name, r)])" "ref_ok E st (cur @ file) file r"
        by (rule add_to_chunk_ok [OF _ assms(8), of cur E name ents st]) (use True in simp_all)
      have "list_all2 (ref_ok E st (cur @ file)) cs (map snd ents)" using assms(6) by (rule list_all2_mono) (rule ref_ok_more)
      then have "list_all2 (ref_ok E st (cur @ file)) (cs @ [file]) (map snd (ents @ [(name, r)]))"
        using r(2) by (auto intro!: list_all2_appendI)
      then show ?thesis using that [of "cur @ file" "ents @ [(name, r)]" st] none r(1) True assms(3)
        by (simp add: place_file_def cf_bind_def cf_ret_def)
    next
      case False
      have sh: "set (save_hashes E cur st) \<subseteq> S" using assms(4) none False by (simp add: place_hashes_def)
      obtain ents1 st1 where s: "save_chunk E cur ents st = Some (Inr ents1, st1)" "cafs_inv E S st1" "grows st st1"
        "map fst ents1 = map fst ents" "list_all2 (ref_ok E st1 []) cs (map snd ents1)"
        using save_chunk_inv [OF assms(1-3) sh assms(5,6)] .
      obtain r where r: "add_to_chunk (ce_cr E) [] file name t ents1 = Some (file, ents1 @ [(name, r)])" "ref_ok E st1 file file r"
        by (rule add_to_chunk_ok [OF _ assms(8), of "[]" E name ents1 st1]) (use assms(7) in simp_all)
      have "list_all2 (ref_ok E st1 file) cs (map snd ents1)" using s(5) by (rule list_all2_mono) (rule ref_ok_any)
      then have "list_all2 (ref_ok E st1 file) (cs @ [file]) (map snd (ents1 @ [(name, r)]))" using r(2) by (auto intro!: list_all2_appendI)
      moreover have "add_to_chunk (ce_cr E) cur file name t ents = None" using False by (simp add: add_to_chunk_def)
      ultimately show ?thesis using that [of "file" "ents1 @ [(name, r)]" st1] none s(1-4) r(1) assms(7)
        by (simp add: place_file_def cf_bind_def cf_ret_def)
    qed
  qed
qed

section \<open>The index of files\<close>

lemma sha1_data_inj: "sha1_data a = sha1_data b \<longleftrightarrow> a = b"
  by (metis of_le_bytes_20 sha1_data_def)

lemma file_db_store_inv:
  assumes "cafs_env_ok E" "cafs_inv E S st" "ref_ok E st [] c r" "c \<in> S"
  obtains st' where "file_db_store E r st = (Inr (), st')" "cafs_inv E S st'" "grows st st'"
proof (cases "db_get (ce_db E) (cf_db st) (sha1_data (rf_content r))")
  case (Some v)
  then show ?thesis using that [of st] assms(2) by (simp add: file_db_store_def)
next
  case None
  obtain h where h: "db_put (ce_db E) (cf_db st) (sha1_data (rf_content r)) (pack_file_ref r) = Some h"
    using assms(1) by (fastforce simp: cafs_env_ok_def)
  let ?st = "st\<lparr>cf_db := h\<rparr>"
  have "bdb_ok (ce_db E)" using assms(1) by (simp add: cafs_env_ok_def)
  then have g: "db_get (ce_db E) h = (db_get (ce_db E) (cf_db st))(sha1_data (rf_content r) \<mapsto> pack_file_ref r)"
    using h by (rule bdb_okD(1))
  have u: "unpack_file_ref (pack_file_ref r) = (Inr r, [])" using decodesD [OF decodes_file_ref, of r "[]"] by simp
  have f: "file_db_fetch E fid ?st = (if fid = rf_content r then Inr (Some r) else file_db_fetch E fid st)" for fid
    by (simp add: file_db_fetch_def g sha1_data_inj u)
  have ok: "ref_ok E ?st [] c' r'" if "ref_ok E st [] c' r'" for c' r' using that by (rule ref_ok_grows [OF same_files(2)])
  have "cafs_inv E S ?st"
    unfolding cafs_inv_def
  proof (intro conjI allI)
    show "store_within (ce_cr E) S ?st" using assms(2) by (simp add: cafs_inv_def)
    fix fid
    show "file_db_fetch E fid ?st = Inr None \<or> (\<exists>r c. file_db_fetch E fid ?st = Inr (Some r) \<and> c \<in> S \<and> sha1_hash (ce_cr E) c = fid \<and> ref_ok E ?st [] c r)"
    proof (cases "fid = rf_content r")
      case True
      then show ?thesis using f assms(3,4) ok by (auto simp: ref_ok_def)
    next
      case False
      then show ?thesis using assms(2) ok f unfolding cafs_inv_def by metis
    qed
  qed
  then show ?thesis using that [of ?st] None h by (simp add: file_db_store_def Let_def)
qed

lemma store_refs_inv:
  assumes "cafs_env_ok E" "cafs_inv E S st" "list_all2 (ref_ok E st []) cs (map snd ents)" "set cs \<subseteq> S"
  shows "\<exists>st'. store_refs E ents st = Some (Inr (), st') \<and> cafs_inv E S st' \<and> grows st st'"
  using assms(2-4)
proof (induction ents arbitrary: st cs)
  case Nil
  then show ?case by (simp add: cf_ret_def)
next
  case (Cons e ents)
  obtain name r where e: "e = (name, r)" by (cases e)
  obtain c cs' where cs: "cs = c # cs'" "ref_ok E st [] c r" "list_all2 (ref_ok E st []) cs' (map snd ents)" "c \<in> S" "set cs' \<subseteq> S"
    using Cons.prems(2,3) e by (auto simp: list_all2_Cons2)
  obtain st1 where s: "file_db_store E r st = (Inr (), st1)" "cafs_inv E S st1" "grows st st1"
    using file_db_store_inv [OF assms(1) Cons.prems(1) cs(2,4)] .
  have "list_all2 (ref_ok E st1 []) cs' (map snd ents)" using cs(3) by (rule list_all2_mono) (rule ref_ok_grows [OF s(3)])
  from Cons.IH [OF s(2) this cs(5)] show ?case using s(1,3) by (auto simp: e cf_bind_def cf_do_def intro: grows_trans)
qed

section \<open>How a tree is stored\<close>

fun stored_as :: "'h cafs_env \<Rightarrow> 'h cafs \<Rightarrow> byte list \<Rightarrow> fnode \<Rightarrow> byte list \<Rightarrow> bool"
  and stored_list :: "'h cafs_env \<Rightarrow> 'h cafs \<Rightarrow> (byte list \<times> fnode) list \<Rightarrow> file_ref list \<Rightarrow> bool" where
  "stored_as E st name (Reg x) c \<longleftrightarrow> c = x"
| "stored_as E st name (Dir es) c \<longleftrightarrow>
     (if hidden name then c = [] else \<exists>d. c = pack_directory d \<and> map fst d = map fst es \<and> stored_list E st es (map snd d))"
| "stored_as E st name Special c \<longleftrightarrow> c = []"
| "stored_list E st [] rs \<longleftrightarrow> rs = []"
| "stored_list E st ((name, nd) # es) rs \<longleftrightarrow>
     (\<exists>r rs' c. rs = r # rs' \<and> stored_as E st name nd c \<and> ref_ok E st [] c r \<and> stored_list E st es rs')"

lemma stored_grows:
  "stored_as E st name nd c \<Longrightarrow> grows st st' \<Longrightarrow> stored_as E st' name nd c"
  "stored_list E st es rs \<Longrightarrow> grows st st' \<Longrightarrow> stored_list E st' es rs"
proof (induction E st name nd c and E st es rs rule: stored_as_stored_list.induct)
  case (5 E st name nd es rs)
  then show ?case using ref_ok_grows by (auto simp: Cons_eq_map_conv) blast
qed (auto split: if_splits)

abbreviation stored_entry :: "'h cafs_env \<Rightarrow> 'h cafs \<Rightarrow> byte list \<times> fnode \<Rightarrow> byte list \<Rightarrow> bool" where
  "stored_entry E st \<equiv> \<lambda>e. stored_as E st (fst e) (snd e)"

lemma stored_list_entries:
  "list_all2 (stored_entry E st) es cs \<Longrightarrow> list_all2 (ref_ok E st []) cs rs \<Longrightarrow> stored_list E st es rs"
  by (induction es arbitrary: cs rs) (auto simp: list_all2_Cons1, blast)

lemma length_pack_uint: "unat v < 2 ^ (7 * Suc k) \<Longrightarrow> length (pack_uint v) \<le> Suc k"
proof (induction k arbitrary: v)
  case 0
  then have "unat (drop_bit 7 v) = unat (0 :: u64)" by (simp only: unat_drop_bit_eq) (simp add: drop_bit_eq_div)
  then have "drop_bit 7 v = 0" by (simp only: word_unat_eq_iff)
  then show ?case by (simp add: pack_uint.simps [of v])
next
  case (Suc k)
  have "unat (drop_bit 7 v) < 2 ^ (7 * Suc k)"
    using Suc.prems by (simp only: unat_drop_bit_eq) (simp add: drop_bit_eq_div less_mult_imp_div_less power_add)
  from Suc.IH [OF this] show ?case by (subst pack_uint.simps) (simp add: Let_def)
qed

lemma length_pack_unsigned: "length (pack_unsigned v) \<le> 5"
proof -
  have "unat (ucast v :: u64) < 2 ^ (7 * Suc 4)"
    using unsigned_less [of v, where ?'a = nat] by (simp add: unsigned_ucast_eq take_bit_nat_eq_self)
  from length_pack_uint [OF this] show ?thesis by (simp add: pack_unsigned_def)
qed

lemma length_pack_file_ref [simp]: "length (pack_file_ref r) = 57"
  by (simp add: pack_file_ref_def pack_pod_def)

lemma length_pack_directory: "map fst d = map fst es \<Longrightarrow> length (pack_directory d) \<le> dir_size es"
proof -
  have "length (pack_each (pack_pair pack_bytes pack_file_ref) d) \<le> sum_list (map (\<lambda>n. length n + 62) (map fst d))"
  proof (induction d)
    case (Cons e d)
    then show ?case using length_pack_unsigned [of "of_nat (length (fst e))"] by (simp add: pack_pair_def pack_bytes_def)
  qed simp
  moreover assume "map fst d = map fst es"
  moreover have "sum_list (map (\<lambda>n. length n + 62) (map fst es)) = sum_list (map (\<lambda>(n, nd). length n + 62) es)"
    by (simp add: comp_def case_prod_unfold)
  ultimately show ?thesis using length_pack_unsigned [of "of_nat (length d)"] by (simp add: pack_directory_def pack_list_def dir_size_def)
qed

section \<open>Import of a tree\<close>

definition fnode_ok :: "byte list \<Rightarrow> fnode \<Rightarrow> bool" where
  "fnode_ok name nd \<longleftrightarrow> (case nd of Dir _ \<Rightarrow> hidden name \<or> tree_ok nd | _ \<Rightarrow> tree_ok nd)"

definition imports_entry :: "'h cafs_env \<Rightarrow> byte list set \<Rightarrow> byte list \<Rightarrow> fnode \<Rightarrow> bool" where
  "imports_entry E S name nd \<longleftrightarrow> (\<forall>st. cafs_inv E S st \<and> set (entry_hashes E name nd st) \<subseteq> S \<longrightarrow>
     (\<exists>c t st'. import_entry E name nd st = Some (Inr (c, t), st') \<and> cafs_inv E S st' \<and> grows st st' \<and> stored_as E st' name nd c \<and>
        length c < MAX_CHUNK_SIZE \<and> (c = [] \<or> type_code t = kind_code c)))"

lemma import_entries_inv:
  assumes "cafs_env_ok E" "no_collision (ce_cr E) S" "\<forall>(n, nd) \<in> set es. imports_entry E S n nd"
    "cafs_inv E S st" "set (entries_hashes E es cur ents st) \<subseteq> S" "length cur \<le> MAX_CHUNK_SIZE"
    "map fst ents = map fst pre" "list_all2 (stored_entry E st) pre cs" "list_all2 (ref_ok E st cur) cs (map snd ents)" "set cs \<subseteq> S"
    "es = [] \<Longrightarrow> list_all2 (ref_ok E st []) cs (map snd ents)"
  shows "\<exists>d st' cs'. import_entries E es cur ents st = Some (Inr d, st') \<and> cafs_inv E S st' \<and> grows st st' \<and>
     map fst d = map fst (pre @ es) \<and> list_all2 (stored_entry E st') (pre @ es) cs' \<and> list_all2 (ref_ok E st' []) cs' (map snd d) \<and> set cs' \<subseteq> S"
  using assms(3-)
proof (induction es arbitrary: st cur ents pre cs)
  case Nil
  then show ?case by (auto simp: cf_ret_def)
next
  case (Cons e es)
  obtain name nd where e: "e = (name, nd)" by (cases e)
  obtain c t st1 where i: "import_entry E name nd st = Some (Inr (c, t), st1)" "cafs_inv E S st1" "grows st st1" "stored_as E st1 name nd c"
    "length c < MAX_CHUNK_SIZE" "c = [] \<or> type_code t = kind_code c"
    using Cons.prems(1,2,3) unfolding e by (auto simp: imports_entry_def)
  have ph: "set (place_hashes E c cur st1) \<subseteq> S" using Cons.prems(3) i(1) by (simp add: e)
  have r1: "list_all2 (ref_ok E st1 cur) cs (map snd ents)" using Cons.prems(7) by (rule list_all2_mono) (rule ref_ok_grows [OF i(3)])
  obtain cur' ents' st2 where p: "place_file E name c t cur ents st1 = Some (Inr (cur', ents'), st2)" "cafs_inv E S st2" "grows st1 st2"
    "length cur' \<le> MAX_CHUNK_SIZE" "map fst ents' = map fst ents @ [name]" "list_all2 (ref_ok E st2 cur') (cs @ [c]) (map snd ents')"
    using place_file_inv [OF assms(1,2) i(2) ph Cons.prems(4) r1 i(5,6)] .
  let ?last = "es = [] \<and> cur' \<noteq> []"
  obtain ents'' st3 where s: "(if ?last then save_chunk E cur' ents' else cf_ret ents') st2 = Some (Inr ents'', st3)" "cafs_inv E S st3"
    "grows st2 st3" "map fst ents'' = map fst ents'" "list_all2 (ref_ok E st3 cur') (cs @ [c]) (map snd ents'')"
    "es = [] \<Longrightarrow> list_all2 (ref_ok E st3 []) (cs @ [c]) (map snd ents'')"
  proof (cases ?last)
    case True
    have sh: "set (save_hashes E cur' st2) \<subseteq> S" using Cons.prems(3) i(1) p(1) True by (simp add: e)
    obtain en st' where sv: "save_chunk E cur' ents' st2 = Some (Inr en, st')" "cafs_inv E S st'" "grows st2 st'"
      "map fst en = map fst ents'" "list_all2 (ref_ok E st' []) (cs @ [c]) (map snd en)"
      using save_chunk_inv [OF assms(1,2) p(2) sh p(4,6)] .
    have "list_all2 (ref_ok E st' cur') (cs @ [c]) (map snd en)" using sv(5) by (rule list_all2_mono) (rule ref_ok_any)
    then show thesis using True sv by (intro that [of en st']) simp_all
  next
    case False
    then show thesis using p by (intro that [of ents' st2]) (auto simp: cf_ret_def)
  qed
  have g: "grows st st3" by (rule grows_trans [OF i(3) grows_trans [OF p(3) s(3)]])
  have "list_all2 (stored_entry E st3) pre cs" using Cons.prems(6) by (rule list_all2_mono) (rule stored_grows(1) [OF _ g])
  moreover have "stored_as E st3 name nd c" by (rule stored_grows(1) [OF i(4) grows_trans [OF p(3) s(3)]])
  ultimately have st: "list_all2 (stored_entry E st3) (pre @ [(name, nd)]) (cs @ [c])" by (auto intro!: list_all2_appendI)
  have eh: "set (entries_hashes E es cur' ents'' st3) \<subseteq> S" using Cons.prems(3) i(1) p(1) s(1) by (auto simp: e split: if_splits)
  have cS: "set (cs @ [c]) \<subseteq> S" using Cons.prems(8) ph by (simp add: place_hashes_def)
  have ie: "import_entries E (e # es) cur ents st = import_entries E es cur' ents'' st3"
    using i(1) p(1) s(1) by (simp add: e cf_bind_def)
  from Cons.IH [OF _ s(2) eh p(4) _ st s(5) cS s(6)] Cons.prems(1,5) p(5) s(4)
  show ?case unfolding ie by (auto simp: e intro: grows_trans [OF g])
qed

lemma trees_okD: "trees_ok es \<Longrightarrow> (n, nd) \<in> set es \<Longrightarrow> name_ok n \<and> fnode_ok n nd"
  by (induction es) (auto simp: fnode_ok_def)

lemma import_directory_inv:
  assumes "cafs_env_ok E" "no_collision (ce_cr E) S" "\<forall>(n, nd) \<in> set es. imports_entry E S n nd"
    "cafs_inv E S st" "set (entries_hashes E es [] [] st) \<subseteq> S"
  obtains d st' where "import_directory E es st = Some (Inr d, st')" "cafs_inv E S st'" "grows st st'"
    "map fst d = map fst es" "stored_list E st' es (map snd d)"
proof -
  obtain d st1 cs where i: "import_entries E es [] [] st = Some (Inr d, st1)" "cafs_inv E S st1" "grows st st1" "map fst d = map fst es"
    "list_all2 (stored_entry E st1) es cs" "list_all2 (ref_ok E st1 []) cs (map snd d)" "set cs \<subseteq> S"
    using import_entries_inv [OF assms, of "[]" "[]"] by auto
  obtain st' where s: "store_refs E d st1 = Some (Inr (), st')" "cafs_inv E S st'" "grows st1 st'"
    using store_refs_inv [OF assms(1) i(2,6,7)] by blast
  have "stored_list E st' es (map snd d)" by (rule stored_grows(2) [OF stored_list_entries [OF i(5,6)] s(3)])
  then show thesis using that [of d st'] i s by (auto simp: import_directory_def cf_bind_def cf_ret_def intro: grows_trans)
qed

lemma import_entry_Dir:
  "\<not> hidden name \<Longrightarrow> import_entry E name (Dir es) = cf_bind (import_directory E es) (\<lambda>d. cf_ret (pack_directory d, directory_type))"
  by (simp add: hidden_def import_directory_def cf_bind_def cf_ret_def fun_eq_iff split: option.splits sum.splits)

lemma imports_entry_ok:
  assumes "cafs_env_ok E" "no_collision (ce_cr E) S" "fnode_ok name nd"
  shows "imports_entry E S name nd"
  using assms(3)
proof (induction nd arbitrary: name)
  case (Reg x)
  then have "kind_code x = type_code file_data_type" by (simp add: kind_code_def fnode_ok_def)
  then show ?case using Reg by (auto simp: imports_entry_def fnode_ok_def cf_ret_def IMBED_THRESHOLD_def MAX_CHUNK_SIZE_def)
next
  case (Dir es)
  show ?case
  proof (cases "hidden name")
    case True
    then have "import_entry E name (Dir es) st = Some (Inr ([], unknown_type), st)" for st by (simp add: hidden_def cf_ret_def)
    then show ?thesis using True by (simp add: imports_entry_def MAX_CHUNK_SIZE_def)
  next
    case False
    then have t: "trees_ok es" "dir_size es < MAX_CHUNK_SIZE - 1" using Dir.prems by (auto simp: fnode_ok_def)
    have sub: "\<forall>(n, nd) \<in> set es. imports_entry E S n nd" using Dir.IH trees_okD [OF t(1)] by fastforce
    show ?thesis unfolding imports_entry_def
    proof (intro allI impI, elim conjE)
      fix st assume a: "cafs_inv E S st" "set (entry_hashes E name (Dir es) st) \<subseteq> S"
      then have h: "set (entries_hashes E es [] [] st) \<subseteq> S" using False by simp
      obtain d st' where i: "import_directory E es st = Some (Inr d, st')" "cafs_inv E S st'" "grows st st'"
        "map fst d = map fst es" "stored_list E st' es (map snd d)" using import_directory_inv [OF assms(1,2) sub a(1) h] .
      have "import_entry E name (Dir es) st = Some (Inr (pack_directory d, directory_type), st')"
        unfolding import_entry_Dir [OF False] using i(1) by (simp add: cf_bind_def cf_ret_def)
      moreover have "stored_as E st' name (Dir es) (pack_directory d)" using False i(4,5) by auto
      moreover have "kind_code (pack_directory d) = 1" by (auto simp: kind_code_def)
      moreover have "length (pack_directory d) < MAX_CHUNK_SIZE" using length_pack_directory [OF i(4)] t(2) by simp
      ultimately show "\<exists>c t st'. import_entry E name (Dir es) st = Some (Inr (c, t), st') \<and> cafs_inv E S st' \<and> grows st st' \<and> stored_as E st' name (Dir es) c \<and>
        length c < MAX_CHUNK_SIZE \<and> (c = [] \<or> type_code t = kind_code c)" using i(2,3) by fastforce
    qed
  qed
next
  case Special
  then show ?case by (simp add: imports_entry_def cf_ret_def MAX_CHUNK_SIZE_def)
qed

text \<open>The directory itself becomes a chunk of its own, behind its type.\<close>

lemma cafs_import_tree:
  assumes "cafs_env_ok E" "no_collision (ce_cr E) S" "tree_ok (Dir es)" "cafs_inv E S st" "set (import_hashes E es st) \<subseteq> S"
  obtains l d st' where "cafs_import E (Some (Dir es)) st = Some (Inr l, st')" "cafs_inv E S st'" "grows st st'" "map fst d = map fst es"
    "stored_list E st' es (map snd d)" "get_resource_link E l st' = Inr (Some (type_code directory_type # pack_directory d))"
proof -
  have sub: "\<forall>(n, nd) \<in> set es. imports_entry E S n nd"
    using imports_entry_ok [OF assms(1,2)] trees_okD [of es] assms(3) by auto
  have h: "set (entries_hashes E es [] [] st) \<subseteq> S" using assms(5) by (simp add: import_hashes_def)
  obtain d st1 where i: "import_directory E es st = Some (Inr d, st1)" "cafs_inv E S st1" "grows st st1" "map fst d = map fst es"
    "stored_list E st1 es (map snd d)" using import_directory_inv [OF assms(1,2) sub assms(4) h] .
  let ?data = "type_code directory_type # pack_directory d"
  have len: "length (pack_directory d) \<le> MAX_CHUNK_SIZE - 1" using length_pack_directory [OF i(4)] assms(3) by simp
  then have hd: "header_data (type_code directory_type) 1 (pack_directory d) = Inr ?data" by (simp add: header_data_def)
  obtain seed enc where z: "randomize (is_random (ce_chi E)) (ce_mt E) ?data (data_seed (ce_cr E) ?data) = Some (seed, enc)"
    using assms(1) by (fastforce simp: cafs_env_ok_def)
  have dh: "set (chunk_hashes (ce_cr E) enc) \<subseteq> S" using assms(5) i(1) z by (simp add: import_hashes_def data_hashes_def)
  have dr: "derandomize (ce_mt E) seed enc 0 = ?data" "length enc = length ?data"
    using derandomize_part [OF _ z, of 0 "length ?data"] by auto
  have l32: "length enc < 2 ^ 32 - 1" using dr(2) len by (simp add: MAX_CHUNK_SIZE_def)
  have w: "store_within (ce_cr E) S st1" using i(2) by (simp add: cafs_inv_def)
  have l32': "length enc < 2 ^ 32" using l32 by simp
  obtain cid st' where s: "store_chunk (ce_cr E) (slice_chunk (ce_cr E) enc) enc st1 = (Inr cid, st')" "cid \<noteq> 0"
    "store_within (ce_cr E) S st'" "grows st1 st'" "cf_db st' = cf_db st1" "cf_files st' cid = Some (pack_header (slice_chunk (ce_cr E) enc) @ enc)"
    using store_chunk_within [OF assms(2) w dh l32'] .
  let ?l = "\<lparr>ln_id = cid, ln_seed = seed\<rparr>"
  have "cafs_import E (Some (Dir es)) st = Some (Inr ?l, st')"
    using i(1) hd z s(1) by (simp add: cafs_import_def cf_bind_def import_data_def do_randomize_def cf_do_def cf_ret_def)
  moreover have "fill_ok E" using assms(1) by (simp add: cafs_env_ok_def)
  then have "get_chunk E cid 0 (- 1) st' = Inr enc" using get_chunk_stored(2) [OF _ s(6) l32, of 0 0] by simp
  then have "get_resource_link E ?l st' = Inr (Some ?data)" using dr by (simp add: get_resource_link_def)
  moreover have "cafs_inv E S st'" by (rule inv_grows [OF i(2) s(3,4,5)])
  ultimately show thesis using that i(3,4) grows_trans [OF i(3) s(4)] stored_grows(2) [OF i(5) s(4)] by blast
qed

section \<open>Serving a tree\<close>

lemma sum_list_dir: "sum_list (map (\<lambda>(n, nd). length n + 62) es) = sum_list (map length (map fst es)) + 62 * length es"
  by (induction es) auto

lemma directory_decoded:
  assumes "map fst d = map fst es" "dir_size es < MAX_CHUNK_SIZE - 1"
  shows "res_directory (type_code directory_type # pack_directory d) = Inr (Some d)"
proof -
  have l: "length d = length es" using assms(1) by (metis length_map)
  have b: "sum_list (map length (map fst d)) + 62 * length d < 2 ^ 22"
    using assms sum_list_dir [of es] l by (simp add: dir_size_def MAX_CHUNK_SIZE_def)
  have "fits32 (length n)" if "(n, r) \<in> set d" for n r
  proof -
    have "length n \<le> sum_list (map length (map fst d))" by (rule member_le_sum_list) (use that in force, simp)
    then show ?thesis using b by (simp add: fits32_def)
  qed
  moreover have "fits32 (length d)" using b by (simp add: fits32_def)
  ultimately have "unpack_directory (pack_directory d) = (Inr d, [])" using directory_codec.unpack_pack [of d "[]"] by auto
  then show ?thesis by (simp add: res_directory_def res_is_def)
qed

lemma pack_directory_not_Nil: "pack_directory d \<noteq> []"
proof -
  have "pack_uint v \<noteq> []" for v by (subst pack_uint.simps) (simp add: Let_def)
  then show ?thesis by (simp add: pack_directory_def pack_list_def pack_unsigned_def)
qed

lemma stored_list_find:
  assumes "stored_list E st es (map snd d)" "map fst d = map fst es" "map_of es n = Some nd"
  shows "\<exists>r c. find_entry n d = Some r \<and> stored_as E st n nd c \<and> ref_ok E st [] c r"
  using assms
proof (induction es arbitrary: d)
  case (Cons e es)
  obtain n' r d' where d: "d = (n', r) # d'" using Cons.prems(2) by (cases d) auto
  show ?case using Cons.prems Cons.IH [of d'] by (cases e) (auto simp: d find_entry_def split: if_splits)
qed simp

lemma ref_ok_resource: "ref_ok E st [] c r \<Longrightarrow> c \<noteq> [] \<Longrightarrow> rf_type r = kind_code c \<and> get_resource_ref E r st = Inr (kind_code c # c)"
  using pending_Nil by (auto simp: ref_ok_def saved_ref_def)

lemma serve_stored:
  assumes "fnode_ok name nd" "stored_as E st name nd c" "ref_ok E st [] c r" "tree_file nd ns = Some x" "\<forall>es. nd = Dir es \<longrightarrow> \<not> hidden name"
  shows "handle_file_ref E st r p (path_string ns) = Inr (Served x)"
  using assms
proof (induction ns arbitrary: name nd c r p)
  case Nil
  then have nd: "nd = Reg x" by (cases nd) auto
  then have c: "c = x" "x \<noteq> []" "kind_code x = 0" using Nil.prems(1,2) by (auto simp: fnode_ok_def kind_code_def)
  then show ?case using ref_ok_resource [OF Nil.prems(3)]
    by (subst handle_file_ref.simps) (simp add: path_string_def res_file_data_def res_is_def)
next
  case (Cons n ns)
  then obtain es nd' where nd: "nd = Dir es" "map_of es n = Some nd'" "tree_file nd' ns = Some x" "\<forall>es. nd' = Dir es \<longrightarrow> \<not> hidden n"
    by (cases nd) (auto split: option.splits fnode.splits if_splits)
  have t: "trees_ok es" "dir_size es < MAX_CHUNK_SIZE - 1" "\<not> hidden name" using Cons.prems(1,5) nd(1) by (auto simp: fnode_ok_def)
  obtain d where d: "c = pack_directory d" "map fst d = map fst es" "stored_list E st es (map snd d)"
    using Cons.prems(2) nd(1) t(3) by auto
  have k: "kind_code c = type_code directory_type" "c \<noteq> []"
    using d(1) pack_directory_not_Nil by (auto simp: kind_code_def)
  note rs = ref_ok_resource [OF Cons.prems(3) k(2), unfolded k(1)]
  obtain r' c' where f: "find_entry n d = Some r'" "stored_as E st n nd' c'" "ref_ok E st [] c' r'"
    using stored_list_find [OF d(3,2) nd(2)] by blast
  have n: "name_ok n" "fnode_ok n nd'" using trees_okD [OF t(1) map_of_SomeD [OF nd(2)]] by simp_all
  have ne: "path_string (n # ns) \<noteq> []" "path_string (n # ns) \<noteq> [slash]" using n(1) by (auto simp: path_string_def name_ok_def)
  have "handle_file_ref E st r p (path_string (n # ns)) = handle_file_ref E st r' (p @ slash # n) (path_string ns)"
    using rs directory_decoded [OF d(2) t(2)] d(1) f(1) ne split_head_path [OF n(1), of ns]
    by (subst handle_file_ref.simps) (simp add: res_file_data_def res_is_def)
  also have "\<dots> = Inr (Served x)" by (rule Cons.IH [OF n(2) f(2,3) nd(3,4)])
  finally show ?case .
qed

lemma tree_served:
  assumes "cafs_env_ok E" "no_collision (ce_cr E) S" "tree_ok (Dir es)" "cafs_inv E S st" "set (import_hashes E es st) \<subseteq> S"
  shows "\<exists>l st'. cafs_import E (Some (Dir es)) st = Some (Inr l, st') \<and> cafs_inv E S st' \<and> grows st st'
    \<and> (\<forall>n ns c. tree_file (Dir es) (n # ns) = Some c \<longrightarrow> handle_link E st' l (n @ path_string ns) = Inr (Served c))"
proof -
  obtain l d st' where i: "cafs_import E (Some (Dir es)) st = Some (Inr l, st')" "cafs_inv E S st'" "grows st st'" "map fst d = map fst es"
    "stored_list E st' es (map snd d)" "get_resource_link E l st' = Inr (Some (type_code directory_type # pack_directory d))"
    using cafs_import_tree [OF assms] .
  have t: "trees_ok es" "dir_size es < MAX_CHUNK_SIZE - 1" using assms(3) by simp_all
  have "handle_link E st' l (n @ path_string ns) = Inr (Served c)" if tf: "tree_file (Dir es) (n # ns) = Some c" for n ns c
  proof -
    obtain nd where nd: "map_of es n = Some nd" "tree_file nd ns = Some c" "\<forall>es. nd = Dir es \<longrightarrow> \<not> hidden n"
      using tf by (auto split: option.splits fnode.splits if_splits)
    obtain r c' where f: "find_entry n d = Some r" "stored_as E st' n nd c'" "ref_ok E st' [] c' r"
      using stored_list_find [OF i(5,4) nd(1)] by blast
    have n: "name_ok n" "fnode_ok n nd" using trees_okD [OF t(1) map_of_SomeD [OF nd(1)]] by simp_all
    have sp: "takeWhile (\<lambda>c. c \<noteq> slash) (n @ path_string ns) = n" "dropWhile (\<lambda>c. c \<noteq> slash) (n @ path_string ns) = path_string ns"
      using n(1) by (cases ns; auto simp: name_ok_def path_string_def takeWhile_append dropWhile_append)+
    have "n @ path_string ns \<noteq> [] \<and> n @ path_string ns \<noteq> [slash]" using n(1) by (cases n) (auto simp: name_ok_def)
    then show ?thesis using i(6) directory_decoded [OF i(4) t(2)] f(1) sp serve_stored [OF n(2) f(2,3) nd(2,3)]
      by (simp add: handle_link_def res_file_data_def res_is_def)
  qed
  then show ?thesis using i(1-3) by blast
qed


text \<open>
  An empty file that is alone in its directory cannot be read: nothing is written to the chunk, so that the chunk is not saved and the
  reference keeps the id no chunk has.
\<close>

lemma empty_file_unreadable:
  assumes "cafs_env_ok E" "file_db_fetch E (sha1_hash (ce_cr E) []) st = Inr None" "cf_files st 0 = None"
  shows "\<exists>r st'. import_directory E [(n, Reg [])] st = Some (Inr [(n, r)], st') \<and> handle_file_ref E st' r p [] = Inl (Throw ''File does not exist'')"
proof -
  let ?r = "file_ref_new\<lparr>rf_content := sha1_hash (ce_cr E) [], rf_pos := of_nat 0, rf_size := of_nat 0, rf_type := 0\<rparr>"
  have i: "import_entries E [(n, Reg [])] [] [] st = Some (Inr [(n, ?r)], st)"
    using assms(2) by (simp add: cf_bind_def cf_ret_def place_file_def add_to_chunk_def MAX_CHUNK_SIZE_def file_ref_new_def)
  obtain st' where s: "file_db_store E ?r st = (Inr (), st')" "cf_files st' = cf_files st"
  proof (cases "db_get (ce_db E) (cf_db st) (sha1_data (rf_content ?r))")
    case None
    obtain h where "db_put (ce_db E) (cf_db st) (sha1_data (rf_content ?r)) (pack_file_ref ?r) = Some h"
      using assms(1) by (fastforce simp: cafs_env_ok_def)
    then show thesis using that [of "st\<lparr>cf_db := h\<rparr>"] None by (simp add: file_db_store_def Let_def)
  qed (use that in \<open>simp add: file_db_store_def Let_def\<close>)
  have "import_directory E [(n, Reg [])] st = Some (Inr [(n, ?r)], st')"
    unfolding import_directory_def cf_bind_def i using s(1) by (simp add: cf_bind_def cf_do_def cf_ret_def)
  moreover have "handle_file_ref E st' ?r p [] = Inl (Throw ''File does not exist'')"
    using assms(3) s(2) by (subst handle_file_ref.simps) (simp add: get_resource_ref_def get_chunk_def file_ref_new_def)
  ultimately show ?thesis by blast
qed

text \<open>A file whose bytes the index knows gets the reference of what was stored first, whatever that was: a directory, or a link that was stored as an
  empty file.\<close>

lemma known_content_wrong_type:
  assumes "file_db_fetch E (sha1_hash (ce_cr E) x) st = Inr (Some r)"
  shows "place_file E name x t cur ents st = Some (Inr (cur, ents @ [(name, r)]), st)"
  using assms by (simp add: place_file_def cf_bind_def cf_ret_def)

section \<open>Witness\<close>

text \<open>A directory in a directory with one file, and a hash made of the length and the first two bytes.\<close>

definition tree_hash :: "byte list \<Rightarrow> sha1" where
  "tree_hash x = (if length x = 61 then 7 else of_nat (length x) + (case x of a # b # _ \<Rightarrow> 1024 * ucast a + 1048576 * ucast b | _ \<Rightarrow> 1))"

definition tree_env :: "(byte list \<times> byte list) list cafs_env" where
  "tree_env = cafs_demo\<lparr>ce_cr := demo_crypto\<lparr>sha1_hash := tree_hash\<rparr>\<rparr>"

definition tree_demo :: "(byte list \<times> fnode) list" where
  "tree_demo = [([100], Dir [([98], Reg [5, 6])])]"

lemma tree_hash_bytes:
  "2 \<le> length x \<Longrightarrow> length x \<noteq> 61 \<Longrightarrow> tree_hash x = of_nat (length x) + 1024 * ucast (x ! 0) + 1048576 * ucast (x ! 1)"
  by (auto simp: tree_hash_def Suc_le_length_iff numeral_2_eq_2)

lemma tree_hash_61: "length x = 61 \<Longrightarrow> tree_hash x = 7"
  by (simp add: tree_hash_def)

lemma tree_env_simps [simp]: "sha1_hash (ce_cr tree_env) = tree_hash" "ce_db tree_env = list_bdb" "ce_rand tree_env = of_nat" "ce_mt tree_env = ce_mt cafs_demo"
  "ce_chi tree_env = ce_chi cafs_demo"
  by (simp_all add: tree_env_def cafs_demo_def)

lemma tree_env_ok: "cafs_env_ok tree_env"
  using list_bdb_ok cafs_demo_fill by (simp add: cafs_env_ok_def demo_randomize) (simp add: fill_ok_def tree_env_def list_bdb_def)

lemma tree_chunk_hashes:
  assumes "2 \<le> length x" "length x < 65536"
  shows "\<exists>h. chunk_hashes (ce_cr tree_env) x = [x, h] \<and> tree_hash h = 25 + 1024 + 1048576 * ucast (of_nat (length x) :: byte)"
proof -
  have x: "x \<noteq> []" "min (length x) MIN_SLICE_SIZE = length x" using assms by (auto simp: MIN_SLICE_SIZE_def)
  let ?s = "\<lparr>sl_size = of_nat (length x), sl_hash = tree_hash x\<rparr>"
  have c: "slice_chunk (ce_cr tree_env) x = [?s]" "slices x = [x]"
    using slice_chunk_Cons [OF x(1) refl] slices_step [OF x(1) refl] x(2) by (simp_all add: slices.simps)
  have h: "pack_header [?s] = 1 # le_bytes 4 (of_nat (length x) :: u32) @ le_bytes 20 (tree_hash x)"
    by (simp add: pack_header_def pack_list_def pack_slice_def pack_pod_def pack_unsigned_def pack_uint.simps)
  have "tree_hash (pack_header [?s]) = 25 + 1024 + 1048576 * ucast (of_nat (length x) :: byte)"
    by (subst tree_hash_bytes) (simp_all add: h nth_append nth_le_bytes unsigned_of_nat)
  then show ?thesis using c by (simp add: chunk_hashes_def)
qed

lemma single_entry:
  assumes "import_entry E n nd st = Some (Inr (c, t), st1)" "c \<noteq> []" "length c < MAX_CHUNK_SIZE" "file_db_fetch E (sha1_hash (ce_cr E) c) st1 = Inr None"
    "randomize (is_random (ce_chi E)) (ce_mt E) c (ce_rand E (cf_rand st1)) = Some (seed, enc)"
  shows "entries_hashes E [(n, nd)] [] [] st = entry_hashes E n nd st @ c # chunk_hashes (ce_cr E) enc"
    and "\<exists>r st2. import_entries E [(n, nd)] [] [] st = Some (Inr [(n, r)], st2) \<and> rf_content r = sha1_hash (ce_cr E) c
      \<and> cf_db st2 = cf_db st1 \<and> cf_rand st2 = Suc (cf_rand st1)"
proof -
  obtain r where a: "add_to_chunk (ce_cr E) [] c n t [] = Some (c, [(n, r)])" "rf_content r = sha1_hash (ce_cr E) c"
    using assms(3) by (simp add: add_to_chunk_def)
  have p: "place_file E n c t [] [] st1 = Some (Inr (c, [(n, r)]), st1)"
    using assms(4) a(1) by (simp add: place_file_def cf_bind_def cf_ret_def)
  obtain r' st2 where s: "save_chunk E c [(n, r)] st1 = Some (Inr [(n, r')], st2)" "rf_content r' = rf_content r" "cf_db st2 = cf_db st1"
    "cf_rand st2 = Suc (cf_rand st1)"
  proof -
    let ?st = "st1\<lparr>cf_rand := Suc (cf_rand st1)\<rparr>"
    obtain cid st2 where k: "store_chunk (ce_cr E) (slice_chunk (ce_cr E) enc) enc ?st = (Inr cid, st2)" "cf_db st2 = cf_db st1" "cf_rand st2 = Suc (cf_rand st1)"
      by (cases "cf_files ?st (calculate_id (ce_cr E) (slice_chunk (ce_cr E) enc))") (simp_all add: store_chunk_def Let_def)
    show thesis
      by (rule that [of "if rf_chunk r = 0 then r\<lparr>rf_seed := seed, rf_chunk := cid\<rparr> else r" st2])
         (use assms(5) k in \<open>auto simp: save_chunk_def cf_bind_def do_randomize_def cf_do_def cf_ret_def\<close>)
  qed
  show "entries_hashes E [(n, nd)] [] [] st = entry_hashes E n nd st @ c # chunk_hashes (ce_cr E) enc"
    using assms p s(1) by (simp add: place_hashes_def save_hashes_def)
  show "\<exists>r st2. import_entries E [(n, nd)] [] [] st = Some (Inr [(n, r)], st2) \<and> rf_content r = sha1_hash (ce_cr E) c
      \<and> cf_db st2 = cf_db st1 \<and> cf_rand st2 = Suc (cf_rand st1)"
    using assms(1,2) p s a(2) by (simp add: cf_bind_def cf_ret_def)
qed

lemma length_single_dir: "length (pack_directory [([b], r)]) = 60" "take 2 (pack_directory [([b], r)]) = [1, 1]"
  by (simp_all add: pack_directory_def pack_list_def pack_pair_def pack_bytes_def pack_unsigned_def pack_uint.simps)

abbreviation tree_enc :: "u64 \<Rightarrow> byte list \<Rightarrow> byte list" where
  "tree_enc seed \<equiv> xor_words (ce_mt cafs_demo seed) 0"

lemma tree_import_hashes:
  obtains pd x where "import_hashes tree_env tree_demo cafs_empty =
      [5, 6] # chunk_hashes (ce_cr tree_env) (tree_enc 1 [5, 6]) @ pd # chunk_hashes (ce_cr tree_env) (tree_enc 2 pd) @ chunk_hashes (ce_cr tree_env) x"
    "length pd = 60" "take 2 pd = [1, 1]" "length x = 61"
proof -
  let ?in = "[([98], Reg [5, 6])]"
  have i1: "import_entry tree_env [98] (Reg [5, 6]) cafs_empty = Some (Inr ([5, 6], file_data_type), cafs_empty)"
    by (simp add: IMBED_THRESHOLD_def cf_ret_def)
  have f1: "file_db_fetch tree_env (sha1_hash (ce_cr tree_env) [5, 6]) cafs_empty = Inr None"
    by (simp add: file_db_fetch_def list_bdb_def cafs_empty_def)
  have z1: "randomize (is_random (ce_chi tree_env)) (ce_mt tree_env) [5, 6] (ce_rand tree_env (cf_rand cafs_empty)) = Some (1, tree_enc 1 [5, 6])"
    using demo_randomize [of "[5, 6]" 0] by (simp add: cafs_empty_def)
  have m: "length [5, 6 :: byte] < MAX_CHUNK_SIZE" by (simp add: MAX_CHUNK_SIZE_def)
  note h1 = single_entry(1) [OF i1 _ m f1 z1]
  obtain r st2 where r: "import_entries tree_env ?in [] [] cafs_empty = Some (Inr [([98], r)], st2)" "rf_content r = tree_hash [5, 6]"
    "cf_db st2 = []" "cf_rand st2 = 1" using single_entry(2) [OF i1 _ m f1 z1] by (auto simp: cafs_empty_def)
  let ?pd = "pack_directory [([98], r)]" and ?st3 = "st2\<lparr>cf_db := [(sha1_data (tree_hash [5, 6]), pack_file_ref r)]\<rparr>"
  have "import_directory tree_env ?in cafs_empty = Some (Inr [([98], r)], ?st3)"
    using r by (simp add: import_directory_def cf_bind_def cf_do_def cf_ret_def file_db_store_def list_bdb_def Let_def)
  then have i2: "import_entry tree_env [100] (Dir ?in) cafs_empty = Some (Inr (?pd, directory_type), ?st3)"
    by (subst import_entry_Dir) (simp_all add: hidden_def cf_bind_def cf_ret_def)
  have pd: "?pd ! 0 = 1" "?pd ! 1 = 1" using length_single_dir(2) [of 98 r] by (metis nth_Cons_0 nth_take zero_less_numeral, metis One_nat_def nth_Cons_0 nth_Cons_Suc nth_take one_less_numeral_iff semiring_norm(76))
  have "tree_hash ?pd = 60 + 1024 + 1048576" using pd by (subst tree_hash_bytes) (simp_all add: length_single_dir)
  moreover have "tree_hash [5, 6] = 2 + 1024 * 5 + 1048576 * 6" by (simp add: tree_hash_bytes)
  ultimately have "sha1_data (tree_hash ?pd) \<noteq> sha1_data (tree_hash [5, 6])" unfolding sha1_data_inj by simp
  then have f2: "file_db_fetch tree_env (sha1_hash (ce_cr tree_env) ?pd) ?st3 = Inr None"
    by (simp add: file_db_fetch_def list_bdb_def)
  have z2: "randomize (is_random (ce_chi tree_env)) (ce_mt tree_env) ?pd (ce_rand tree_env (cf_rand ?st3)) = Some (2, tree_enc 2 ?pd)"
    using demo_randomize [of ?pd 1] by (simp add: r(4))
  have pm: "length ?pd < MAX_CHUNK_SIZE" by (simp add: length_single_dir MAX_CHUNK_SIZE_def)
  note h2 = single_entry(1) [OF i2 pack_directory_not_Nil pm f2 z2]
  obtain r2 st4 where r2: "import_entries tree_env tree_demo [] [] cafs_empty = Some (Inr [([100], r2)], st4)"
    using single_entry(2) [OF i2 pack_directory_not_Nil pm f2 z2] by (auto simp: tree_demo_def)
  obtain st5 where "import_directory tree_env tree_demo cafs_empty = Some (Inr [([100], r2)], st5)"
  proof -
    obtain st5 where "file_db_store tree_env r2 st4 = (Inr (), st5)"
      by (cases "db_get list_bdb (cf_db st4) (sha1_data (rf_content r2))") (simp_all add: file_db_store_def list_bdb_def Let_def)
    then show thesis using r2 that [of st5] by (simp add: import_directory_def cf_bind_def cf_do_def cf_ret_def)
  qed
  moreover have "entries_hashes tree_env tree_demo [] [] cafs_empty =
      [5, 6] # chunk_hashes (ce_cr tree_env) (tree_enc 1 [5, 6]) @ ?pd # chunk_hashes (ce_cr tree_env) (tree_enc 2 ?pd)"
    using h1 h2 by (simp add: tree_demo_def hidden_def)
  ultimately show thesis
    using that [of ?pd "tree_enc (data_seed (ce_cr tree_env) (1 # pack_directory [([100], r2)]) + 1) (1 # pack_directory [([100], r2)])"] length_single_dir
    by (simp add: import_hashes_def data_hashes_def demo_randomize)
qed

lemma tree_enc_bytes:
  assumes "2 \<le> length x"
  shows "tree_enc seed x ! 0 = xor (x ! 0) (ucast (ucast seed :: u32))" "tree_enc seed x ! 1 = xor (x ! 1) (ucast (drop_bit 8 (ucast seed :: u32)))"
proof -
  have l: "0 < length x" "1 < length x" using assms by linarith+
  show "tree_enc seed x ! 0 = xor (x ! 0) (ucast (ucast seed :: u32))" "tree_enc seed x ! 1 = xor (x ! 1) (ucast (drop_bit 8 (ucast seed :: u32)))"
    using nth_xor_words [OF l(1)] nth_xor_words [OF l(2)] by (simp_all add: nth_le_bytes cafs_demo_def)
qed

lemma tree_no_collision: "no_collision (ce_cr tree_env) (set (import_hashes tree_env tree_demo cafs_empty))"
proof -
  obtain pd x where i: "import_hashes tree_env tree_demo cafs_empty =
      [5, 6] # chunk_hashes (ce_cr tree_env) (tree_enc 1 [5, 6]) @ pd # chunk_hashes (ce_cr tree_env) (tree_enc 2 pd) @ chunk_hashes (ce_cr tree_env) x"
    and l: "length pd = 60" "take 2 pd = [1, 1]" "length x = 61" using tree_import_hashes .
  let ?e1 = "tree_enc 1 [5, 6]" and ?e2 = "tree_enc 2 pd"
  have pd: "pd ! 0 = 1" "pd ! 1 = 1" using l(1,2) by (auto simp: take_Suc_conv_app_nth numeral_2_eq_2)
  obtain h1 where h1: "chunk_hashes (ce_cr tree_env) ?e1 = [?e1, h1]" "tree_hash h1 = 25 + 1024 + 1048576 * 2"
    using tree_chunk_hashes [of ?e1] by (auto simp: unsigned_of_nat)
  obtain h2 where h2: "chunk_hashes (ce_cr tree_env) ?e2 = [?e2, h2]" "tree_hash h2 = 25 + 1024 + 1048576 * 60"
    using tree_chunk_hashes [of ?e2] l(1) by (auto simp: unsigned_of_nat)
  obtain h3 where h3: "chunk_hashes (ce_cr tree_env) x = [x, h3]" "tree_hash h3 = 25 + 1024 + 1048576 * 61"
    using tree_chunk_hashes [of x] l(3) by (auto simp: unsigned_of_nat)
  have "tree_hash [5, 6] = 2 + 1024 * 5 + 1048576 * 6" by (simp add: tree_hash_bytes)
  moreover have "tree_hash ?e1 = 2 + 1024 * 4 + 1048576 * 6"
    using tree_enc_bytes [of "[5, 6]" 1] by (subst tree_hash_bytes) simp_all
  moreover have "tree_hash pd = 60 + 1024 + 1048576" using pd l(1) by (subst tree_hash_bytes) simp_all
  moreover have "tree_hash ?e2 = 60 + 1024 * 3 + 1048576"
    using tree_enc_bytes [of pd 2] pd l(1) by (subst tree_hash_bytes) simp_all
  moreover have "tree_hash x = 7" by (rule tree_hash_61 [OF l(3)])
  ultimately have "map tree_hash (import_hashes tree_env tree_demo cafs_empty) = [6296578, 6295554, 2098201, 1049660, 1051708, 62915609, 7, 63964185]"
    using h1 h2 h3 by (simp add: i)
  moreover from this have "distinct (map tree_hash (import_hashes tree_env tree_demo cafs_empty))" by simp
  moreover have "0 \<notin> set (map tree_hash (import_hashes tree_env tree_demo cafs_empty))" using calculation(1) by simp
  ultimately show ?thesis by (auto simp: no_collision_def distinct_map)
qed

lemma length_pack_directory_min: "length (pack_directory d) \<noteq> 2"
proof (cases d)
  case Nil
  then show ?thesis by (simp add: pack_directory_def pack_list_def pack_unsigned_def pack_uint.simps)
next
  case (Cons e d')
  then show ?thesis by (simp add: pack_directory_def pack_list_def pack_pair_def)
qed

lemma tree_demo_ok: "tree_ok (Dir tree_demo)"
proof -
  have "[5, 6] \<noteq> pack_directory d" for d using length_pack_directory_min [of d] by (metis length_Cons list.size(3) numeral_2_eq_2)
  then show ?thesis by (simp add: tree_demo_def dir_size_def name_ok_def IMBED_THRESHOLD_def MAX_CHUNK_SIZE_def)
qed

lemma cafs_inv_empty: "cafs_inv tree_env S cafs_empty"
  by (simp add: cafs_inv_def store_within_def cafs_empty_def file_db_fetch_def list_bdb_def)


end
