(* ===== verification/Tproxy_Http.thy ===== *)
theory Tproxy_Http
  imports Cafs_Tree
begin

text \<open>
  The requests of the web proxy (src/tprox.cpp): pages of links, the form by which a file or a directory of the machine is published, and the
  replies to errors. The http server, the parser of urls and forms, hexadecimal digits, json and the local files belong to
  libraries: they are the members of \<open>http_env\<close>. What a handler does with its response object is the list of calls it makes.
\<close>

section \<open>Requests and responses\<close>

definition str :: "string \<Rightarrow> byte list" where
  "str s = map of_char s"

datatype http_status = HTTP_OK | HTTP_InternalServerError

datatype http_call = Set_status http_status | Add_header "byte list" "byte list" | Set_length nat | Write "byte list"

record http_request =
  rq_method :: "byte list"
  rq_domain :: "byte list"
  rq_path :: "byte list"
  rq_body :: "byte list"

record published_link =
  pl_link :: "byte list"
  pl_domain :: "byte list"
  pl_last_update :: "byte list"

record http_env =
  he_url :: "byte list \<Rightarrow> byte list option res"
  he_header :: "http_request \<Rightarrow> byte list \<Rightarrow> byte list"
  he_params :: "byte list \<Rightarrow> (byte list \<times> byte list) list"
  he_to_hex :: "byte list \<Rightarrow> byte list"
  he_from_hex :: "byte list \<Rightarrow> nat \<Rightarrow> byte list"
  he_join :: "byte list \<Rightarrow> byte list \<Rightarrow> byte list"
  he_report :: "exn \<Rightarrow> byte list"
  he_json :: "published_link \<Rightarrow> byte list"
  he_unjson :: "byte list \<Rightarrow> published_link res"
  he_now :: "byte list"
  he_files :: "byte list \<Rightarrow> fnode option"

record 'h tproxy =
  tp_cache :: "'h cafs"
  tp_links :: "(byte list \<times> byte list) list"

type_synonym ('h, 'a) tp = "'h tproxy \<Rightarrow> ('a res \<times> 'h tproxy) option"

section \<open>The text of a link\<close>

definition link_to_string :: "http_env \<Rightarrow> link \<Rightarrow> byte list" where
  "link_to_string H l = he_to_hex H (pack_link l)"

definition link_from_string :: "http_env \<Rightarrow> byte list \<Rightarrow> link res" where
  "link_from_string H s = fst (unpack_link (he_from_hex H s (16 + 40)))"

section \<open>Pages\<close>

fun decimal :: "nat \<Rightarrow> byte list" where
  "decimal n = (if n < 10 then [of_nat (48 + n)] else decimal (n div 10) @ [of_nat (48 + n mod 10)])"

declare decimal.simps [simp del]

definition write_page :: "byte list \<Rightarrow> http_call list" where
  "write_page body = [Set_status HTTP_OK, Set_length (length body), Write body]"

definition list_entry :: "http_env \<Rightarrow> byte list \<Rightarrow> dir_entry \<Rightarrow> byte list" where
  "list_entry H p e =
     str ''<li><a href='' @ [34] @ he_join H p (fst e) @ [34] @ str ''>'' @ fst e @ str ''</a>'' @
     (if rf_type (snd e) = type_code directory_type then str ''/''
      else if rf_size (snd e) < 1024 then str ''  ['' @ decimal (unat (rf_size (snd e))) @ str '' bytes]''
      else str ''  ['' @ decimal (unat (rf_size (snd e) div 1024)) @ str '' kb]'') @
     str ''</li>'' @ [10]"

definition list_directory :: "http_env \<Rightarrow> byte list \<Rightarrow> dir_entry list \<Rightarrow> http_call list" where
  "list_directory H p d =
     write_page
       (str ''<html><head><title>'' @ p @ str ''</title></head>'' @ [10] @
        str ''<body>'' @ [10] @
        str ''<h2>'' @ p @ str ''</h2><hr/>'' @ [10] @
        str ''<ul>'' @ [10] @
        concat (map (list_entry H p) d) @
        str ''<ul>'' @ [10] @
        str ''</body>'' @ [10] @
        str ''</html>'' @ [10])"

definition reply_calls :: "http_env \<Rightarrow> http_reply \<Rightarrow> http_call list" where
  "reply_calls H r = (case r of Served d \<Rightarrow> write_page d | Listed p d \<Rightarrow> list_directory H p d | No_reply \<Rightarrow> [])"

section \<open>Publishing\<close>

fun form_value :: "byte list \<Rightarrow> (byte list \<times> byte list) list \<Rightarrow> byte list \<Rightarrow> byte list" where
  "form_value k [] v = v"
| "form_value k ((key, val) # r) v = form_value k r (if key = k then val else v)"

definition link_page :: "byte list \<Rightarrow> byte list" where
  "link_page t = str ''<a href='' @ [34] @ str ''http://'' @ t @ [34] @ str ''>'' @ t @ str ''</a>'' @ [10]"

definition publish_post :: "'h cafs_env \<Rightarrow> http_env \<Rightarrow> http_request \<Rightarrow> ('h, http_call list) tp" where
  "publish_post E H r st =
     (if he_header H r (str ''Content-Type'') \<noteq> str ''application/x-www-form-urlencoded''
      then Some (Inl (Throw ''Content-Type is not supported''), st)
      else
        let h = he_params H (rq_body r); fpath = form_value (str ''path'') h []; dom = form_value (str ''domain'') h [] in
        if he_files H fpath = None then Some (Inl (Throw ''Unable to publish path''), st)
        else
          case cafs_import E (he_files H fpath) (tp_cache st) of
            None \<Rightarrow> None
          | Some (Inl e, c) \<Rightarrow> Some (Inl e, st\<lparr>tp_cache := c\<rparr>)
          | Some (Inr l, c) \<Rightarrow>
              let jpl = he_json H \<lparr>pl_link = link_to_string H l, pl_domain = dom, pl_last_update = he_now H\<rparr>;
                  fn = he_to_hex H (sha1_data (sha1_hash (ce_cr E) jpl)) in
              Some (Inr (write_page (link_page (link_to_string H l))),
                st\<lparr>tp_cache := c, tp_links := AList.update fn jpl (tp_links st)\<rparr>))"

fun link_rows :: "http_env \<Rightarrow> (byte list \<times> byte list) list \<Rightarrow> byte list res" where
  "link_rows H [] = Inr []"
| "link_rows H ((fn, v) # fs) =
     (case he_unjson H v of
        Inl e \<Rightarrow> Inl e
      | Inr pl \<Rightarrow>
          (case link_rows H fs of
             Inl e \<Rightarrow> Inl e
           | Inr rows \<Rightarrow>
               Inr ((if length fn > 2 \<and> hd fn \<noteq> 46
                     then str ''<a href='' @ [34] @ str ''http://'' @ pl_link pl @ str ''/'' @ [34] @ str ''>'' @ pl_domain pl @ str ''</a><br/>'' @ [10]
                     else []) @ rows)))"

definition publish_get :: "http_env \<Rightarrow> ('h, http_call list) tp" where
  "publish_get H st =
     (case link_rows H (tp_links st) of
        Inl e \<Rightarrow> Some (Inl e, st)
      | Inr rows \<Rightarrow>
          Some (Inr (write_page
            (str ''<h1>Published Links</h1><br/>'' @ [10] @
             str ''<form method='' @ [34] @ str ''post'' @ [34] @ str ''>'' @ [10] @
             str ''Path: <input type='' @ [34] @ str ''text'' @ [34] @ str '' name='' @ [34] @ str ''path'' @ [34] @ str ''/><br/>'' @ [10] @
             str ''Domain: <input type='' @ [34] @ str ''text'' @ [34] @ str '' name='' @ [34] @ str ''domain'' @ [34] @ str ''/><br/>'' @ [10] @
             str ''<input type='' @ [34] @ str ''submit'' @ [34] @ str '' value='' @ [34] @ str ''Publish'' @ [34] @ str ''><br/>'' @ [10] @
             str ''</form><p/>'' @ [10] @
             str ''<pre>'' @ [10] @
             rows @
             str ''</pre>'' @ [10])), st))"

definition handle_tornet_publish :: "'h cafs_env \<Rightarrow> http_env \<Rightarrow> http_request \<Rightarrow> ('h, http_call list) tp" where
  "handle_tornet_publish E H r =
     (if rq_method r = str ''POST'' then publish_post E H r
      else if rq_method r = str ''GET'' then publish_get H
      else (\<lambda>st. Some (Inl (Throw ''Method is not supported''), st)))"

section \<open>Requests\<close>

text \<open>The path of a request: that of the url if it has one, else the text itself.\<close>

definition request_path :: "http_env \<Rightarrow> http_request \<Rightarrow> byte list res" where
  "request_path H r = (case he_url H (rq_path r) of Inl e \<Rightarrow> Inl e | Inr (Some p) \<Rightarrow> Inr p | Inr None \<Rightarrow> Inr (rq_path r))"

definition handle_tornet_request :: "'h cafs_env \<Rightarrow> http_env \<Rightarrow> http_request \<Rightarrow> ('h, http_call list) tp" where
  "handle_tornet_request E H r st =
     (case request_path H r of
        Inl e \<Rightarrow> Some (Inl e, st)
      | Inr p \<Rightarrow> if p = str ''publish'' then handle_tornet_publish E H r st else Some (Inl (Throw ''Invalid tornet path''), st))"

definition hello_page :: "http_request \<Rightarrow> byte list" where
  "hello_page r =
     str ''Hello World!'' @ [10] @ str ''Domain: '' @ rq_domain r @ [10] @ str ''Path: '' @ rq_path r @ [10] @ str ''Body: '' @ rq_body r @ [10]"

definition dispatch_request :: "'h cafs_env \<Rightarrow> http_env \<Rightarrow> http_request \<Rightarrow> ('h, http_call list) tp" where
  "dispatch_request E H r st =
     (if length (rq_domain r) \<ge> 38 then
        (case link_from_string H (rq_domain r) of
           Inl e \<Rightarrow> Some (Inl e, st)
         | Inr l \<Rightarrow>
             (case request_path H r of
                Inl e \<Rightarrow> Some (Inl e, st)
              | Inr p \<Rightarrow> Some (map_sum id (reply_calls H) (handle_link E (tp_cache st) l p), st)))
      else if rq_domain r = str ''tornet'' then handle_tornet_request E H r st
      else Some (Inr (write_page (hello_page r)), st))"

text \<open>An exception becomes a page of its own; the other ways to fail are not exceptions and end the handler.\<close>

definition error_calls :: "http_env \<Rightarrow> http_request \<Rightarrow> exn \<Rightarrow> http_call list" where
  "error_calls H r e =
     (let body = str ''<pre>'' @ [10] @ he_report H e @ [10] @ str ''</pre>'' @ [10] in
      [Add_header (str ''Content-Type'') (str ''text/html''), Set_status HTTP_InternalServerError, Add_header (str ''Host'') (rq_domain r),
       Set_length (length body), Write body])"

definition on_http_request :: "'h cafs_env \<Rightarrow> http_env \<Rightarrow> http_request \<Rightarrow> ('h, http_call list) tp" where
  "on_http_request E H r st =
     (case dispatch_request E H r st of
        Some (Inl (Throw t), st') \<Rightarrow> Some (Inr (error_calls H r (Throw t)), st')
      | x \<Rightarrow> x)"

section \<open>Links as text\<close>

definition hex_ok :: "http_env \<Rightarrow> bool" where
  "hex_ok H \<longleftrightarrow> (\<forall>b n. length b \<le> n \<longrightarrow> he_from_hex H (he_to_hex H b) n = b) \<and> (\<forall>b. length (he_to_hex H b) = 2 * length b)"

lemma link_text_roundtrip: "hex_ok H \<Longrightarrow> link_from_string H (link_to_string H l) = Inr l"
  using link_codec.unpack_pack [of l "[]"] by (simp add: hex_ok_def link_from_string_def link_to_string_def)

lemma length_link_text: "hex_ok H \<Longrightarrow> length (link_to_string H l) = 56"
  by (simp add: hex_ok_def link_to_string_def)

section \<open>Every request is answered\<close>

definition complete_reply :: "http_call list \<Rightarrow> bool" where
  "complete_reply cs \<longleftrightarrow> (\<exists>hs s hs' b. cs = map (\<lambda>(k, v). Add_header k v) hs @ Set_status s # map (\<lambda>(k, v). Add_header k v) hs' @
     [Set_length (length b), Write b])"

lemma complete_page [simp]: "complete_reply (write_page b)"
  unfolding complete_reply_def write_page_def by (intro exI [of _ "[]"] exI) simp

lemma complete_error [simp]: "complete_reply (error_calls H r e)"
  unfolding complete_reply_def error_calls_def Let_def
  by (rule exI [of _ "[(str ''Content-Type'', str ''text/html'')]"], rule exI, rule exI [of _ "[(str ''Host'', rq_domain r)]"]) simp

lemma map_sum_Inr: "map_sum f g s = Inr y \<longleftrightarrow> (\<exists>x. s = Inr x \<and> y = g x)"
  by (cases s) auto

lemma complete_reply_calls: "complete_reply (reply_calls H x) \<or> x = No_reply"
  by (cases x) (simp_all add: reply_calls_def list_directory_def)

lemma publish_complete:
  assumes "handle_tornet_publish E H r st = Some (Inr cs, st')"
  shows "complete_reply cs"
  using assms
  by (auto simp: handle_tornet_publish_def publish_post_def publish_get_def Let_def split: if_splits option.splits prod.splits sum.splits)


section \<open>From the form to the browser\<close>

definition publish_form :: "http_env \<Rightarrow> http_request \<Rightarrow> byte list \<Rightarrow> bool" where
  "publish_form H r f \<longleftrightarrow> rq_domain r = str ''tornet'' \<and> request_path H r = Inr (str ''publish'') \<and> rq_method r = str ''POST'' \<and>
     he_header H r (str ''Content-Type'') = str ''application/x-www-form-urlencoded'' \<and> form_value (str ''path'') (he_params H (rq_body r)) [] = f"

lemma publish_request:
  assumes "publish_form H r f" "he_files H f \<noteq> None" "cafs_import E (he_files H f) (tp_cache st) = Some (Inr l, c)"
  shows "\<exists>st'. on_http_request E H r st = Some (Inr (write_page (link_page (link_to_string H l))), st') \<and> tp_cache st' = c"
  using assms
  by (auto simp: publish_form_def on_http_request_def dispatch_request_def handle_tornet_request_def handle_tornet_publish_def publish_post_def
      Let_def str_def)

lemma browse_request:
  assumes "hex_ok H" "rq_domain r = link_to_string H l" "request_path H r = Inr p" "handle_link E (tp_cache st) l p = Inr x"
  shows "on_http_request E H r st = Some (Inr (reply_calls H x), st)"
  using assms(2-4) link_text_roundtrip [OF assms(1), of l] length_link_text [OF assms(1), of l]
  by (simp add: on_http_request_def dispatch_request_def)


section \<open>Witnesses\<close>

text \<open>Two letters per byte as digits, and a form whose body is the path.\<close>

fun demo_hex :: "byte list \<Rightarrow> byte list" where
  "demo_hex [] = []"
| "demo_hex (b # r) = (97 + drop_bit 4 b) # (97 + take_bit 4 b) # demo_hex r"

fun demo_unhex :: "byte list \<Rightarrow> byte list" where
  "demo_unhex (a # b # r) = (push_bit 4 (a - 97) + (b - 97)) # demo_unhex r"
| "demo_unhex _ = []"

definition http_demo :: http_env where
  "http_demo = \<lparr>he_url = (\<lambda>p. Inr (Some p)), he_header = (\<lambda>_ _. str ''application/x-www-form-urlencoded''), he_params = (\<lambda>b. [(str ''path'', b)]),
     he_to_hex = demo_hex, he_from_hex = (\<lambda>s n. take n (demo_unhex s)), he_join = (\<lambda>p n. p @ 47 # n), he_report = (\<lambda>_. []),
     he_json = pl_link, he_unjson = (\<lambda>b. Inr \<lparr>pl_link = b, pl_domain = [], pl_last_update = []\<rparr>), he_now = [],
     he_files = (\<lambda>p. if p = [116] then Some (Dir tree_demo) else None)\<rparr>"

lemma demo_unhex_hex: "demo_unhex (demo_hex b) = b"
proof (induction b)
  case (Cons x b)
  have "push_bit 4 (drop_bit 4 x) + take_bit 4 x = x" by (metis add.commute bits_ident)
  then show ?case using Cons by simp
qed simp

lemma http_demo_hex: "hex_ok http_demo"
proof -
  have "length (demo_hex b) = 2 * length b" for b by (induction b) auto
  then show ?thesis by (simp add: hex_ok_def http_demo_def demo_unhex_hex)
qed

definition demo_post :: http_request where
  "demo_post = \<lparr>rq_method = str ''POST'', rq_domain = str ''tornet'', rq_path = str ''publish'', rq_body = [116]\<rparr>"

definition tproxy_demo :: "(byte list \<times> byte list) list tproxy" where
  "tproxy_demo = \<lparr>tp_cache = cafs_empty, tp_links = []\<rparr>"



end
