(* ===== verification/Name_Service.thy ===== *)
theory Name_Service
  imports Node Cafs_Props
begin

text \<open>
  The name service, which the build leaves out: the name database of src/db/name.cpp with one table of records and one of the keys of the
  names that are one's own, the operations of src/name_service.cpp, what a connection of the service answers, and the search for a nonce of
  include/tornet/name_chain.hpp. Key pairs, signatures and what is in the memory of a fresh signature are parameters.
\<close>

section \<open>Data\<close>

record name_record =
  nr_site_ref :: link
  nr_expires :: u32
  nr_revision :: u32
  nr_pub_key :: "byte list"
  nr_nonce :: u64
  nr_sig :: "byte list"

record record_key =
  rk_pub_key :: "byte list"
  rk_priv_key :: "byte list"

record ('h, 'k) name_env =
  ne_recs :: "('h, name_record) bdb"
  ne_keys :: "('k, record_key) bdb"
  ne_generate :: "nat \<Rightarrow> record_key"
  ne_sign :: "byte list \<Rightarrow> sha1 \<Rightarrow> byte list"
  ne_verify :: "byte list \<Rightarrow> sha1 \<Rightarrow> byte list \<Rightarrow> bool"
  ne_fresh_sig :: "byte list"

record ('h, 'k) name_service =
  ns_recs :: 'h
  ns_keys :: 'k
  ns_generated :: nat

record publish_name_request =
  pn_level :: byte
  pn_name :: "byte list"
  pn_key :: "byte list"
  pn_site_ref :: link
  pn_expires :: u32
  pn_nonce :: u64
  pn_sig :: "byte list"

datatype publish_name_status = pn_ok | already_reserved | invalid_request | unknown_name | rejected

definition link_new :: link where
  "link_new = \<lparr>ln_id = 0, ln_seed = 0\<rparr>"

definition name_record_new :: "('h, 'k) name_env \<Rightarrow> name_record" where
  "name_record_new E = \<lparr>nr_site_ref = link_new, nr_expires = 0, nr_revision = 0, nr_pub_key = [], nr_nonce = 0, nr_sig = ne_fresh_sig E\<rparr>"

section \<open>The database\<close>

definition name_fetch :: "('h, 'k) name_env \<Rightarrow> byte list \<Rightarrow> ('h, 'k) name_service \<Rightarrow> name_record option" where
  "name_fetch E n st = db_get (ne_recs E) (ns_recs st) n"

definition name_fetch_key :: "('h, 'k) name_env \<Rightarrow> byte list \<Rightarrow> ('h, 'k) name_service \<Rightarrow> record_key option" where
  "name_fetch_key E n st = db_get (ne_keys E) (ns_keys st) n"

definition name_store :: "('h, 'k) name_env \<Rightarrow> byte list \<Rightarrow> name_record \<Rightarrow> (('h, 'k) name_service, bool) cmd" where
  "name_store E n r st =
     (case db_put (ne_recs E) (ns_recs st) n r of
        None \<Rightarrow> (Inl (Throw ''DbException''), st)
      | Some h \<Rightarrow> (Inr True, st\<lparr>ns_recs := h\<rparr>))"

definition name_store_key :: "('h, 'k) name_env \<Rightarrow> byte list \<Rightarrow> record_key \<Rightarrow> (('h, 'k) name_service, bool) cmd" where
  "name_store_key E n r st =
     (case db_put (ne_keys E) (ns_keys st) n r of
        None \<Rightarrow> (Inl (Throw ''DbException''), st)
      | Some k \<Rightarrow> (Inr True, st\<lparr>ns_keys := k\<rparr>))"

definition name_record_count :: "('h, 'k) name_env \<Rightarrow> ('h, 'k) name_service \<Rightarrow> u32" where
  "name_record_count E st = of_nat (length (db_recs (ne_recs E) (ns_recs st)))"

text \<open>Only the name is returned: the record the caller passed stays as it was.\<close>

definition name_fetch_recno :: "('h, 'k) name_env \<Rightarrow> u32 \<Rightarrow> name_record \<Rightarrow> ('h, 'k) name_service \<Rightarrow> (byte list \<times> name_record) option" where
  "name_fetch_recno E recnum m st =
     (let rs = db_recs (ne_recs E) (ns_recs st); n = unat recnum in
      if n = 0 then None else if n \<le> length rs then Some (fst (rs ! (n - 1)), m) else None)"

section \<open>Operations of the service\<close>

definition reserve_name :: "('h, 'k) name_env \<Rightarrow> u64 \<Rightarrow> byte list \<Rightarrow> link \<Rightarrow> (('h, 'k) name_service, unit) cmd" where
  "reserve_name E now name site_ref st =
     (let old = name_fetch E name st in
      if old \<noteq> None \<and> name_fetch_key E name st = None then (Inl (Throw ''Name is already registered to someone else''), st)
      else if length name > 63 then (Inl (Throw ''Name is longer than 63 characters''), st)
      else
        case old of
          Some rec \<Rightarrow> andthen (name_store E name (rec\<lparr>nr_site_ref := site_ref\<rparr>)) (ret ()) st
        | None \<Rightarrow>
            (let pn = ne_generate E (ns_generated st);
                 rec = (name_record_new E)\<lparr>nr_pub_key := rk_pub_key pn, nr_expires := ucast (now div 1000000), nr_site_ref := site_ref\<rparr> in
             andthen (name_store_key E name pn) (andthen (name_store E name rec) (ret ())) (st\<lparr>ns_generated := Suc (ns_generated st)\<rparr>)))"

definition get_link_for_name :: "('h, 'k) name_env \<Rightarrow> byte list \<Rightarrow> ('h, 'k) name_service \<Rightarrow> link res" where
  "get_link_for_name E name st =
     (case name_fetch E name st of
        Some rec \<Rightarrow> Inr (nr_site_ref rec)
      | None \<Rightarrow> Inl (Throw ''No site reference registered for name''))"

definition sign_with_name :: "('h, 'k) name_env \<Rightarrow> sha1 \<Rightarrow> byte list \<Rightarrow> ('h, 'k) name_service \<Rightarrow> byte list res" where
  "sign_with_name E digest name st =
     (case name_fetch_key E name st of
        Some prec \<Rightarrow> Inr (ne_sign E (rk_priv_key prec) digest)
      | None \<Rightarrow> Inl (Throw ''No private key for name''))"

definition validate_signature_by_name :: "sha1 \<Rightarrow> byte list \<Rightarrow> byte list \<Rightarrow> bool" where
  "validate_signature_by_name digest sig name = False"

definition update_link_for_name :: "byte list \<Rightarrow> link \<Rightarrow> (('h, 'k) name_service, unit) cmd" where
  "update_link_for_name name val st = (Inl (Throw ''No private key for name''), st)"

text \<open>\<open>release_name\<close> and \<open>transfer_name\<close> have empty bodies.\<close>

definition release_name :: "byte list \<Rightarrow> (('h, 'k) name_service, unit) cmd" where
  "release_name name st = (Inr (), st)"

definition transfer_name :: "byte list \<Rightarrow> byte list \<Rightarrow> (('h, 'k) name_service, unit) cmd" where
  "transfer_name name to_key st = (Inr (), st)"

section \<open>Passing a name on\<close>

text \<open>The loop over the buckets of the node from one level up, until three nodes were sent the request. The requests that were sent are
  the state.\<close>

function publish_loop :: "'n node \<Rightarrow> publish_name_request \<Rightarrow> nat \<Rightarrow> int \<Rightarrow> ((sha1 \<times> publish_name_request) list, unit) cmd" where
  "publish_loop nd r sent l out =
     (if 3 \<le> sent then (Inr (), out)
      else
        case get_kbucket nd l 3 of
          Inl e \<Rightarrow> (Inl e, out)
        | Inr buck \<Rightarrow> publish_loop nd r (sent + length (take (3 - sent) buck)) (l + 1) (out @ map (\<lambda>n. (n, r)) (take (3 - sent) buck)))"
  by auto

termination
  by (relation "measure (\<lambda>(nd, r, sent, l, out). nat (int (length (kb_buckets (nd_kbuckets nd))) - l))")
     (auto simp: get_kbucket_def get_bucket_def split: sum.splits if_splits)

declare publish_loop.simps [simp del]

definition name_publish :: "'n node \<Rightarrow> publish_name_request \<Rightarrow> ((sha1 \<times> publish_name_request) list, unit) cmd" where
  "name_publish nd r =
     andthen (publish_loop nd r 0 (uint (pn_level r)))
       (if pn_level r = 0 then publish_loop nd (r\<lparr>pn_level := 1\<rparr>) 0 1 else ret ())"

section \<open>What a connection answers\<close>

definition resolve_name :: "('h, 'k) name_env \<Rightarrow> byte list \<Rightarrow> ('h, 'k) name_service \<Rightarrow> publish_name_request option" where
  "resolve_name E name st =
     (case name_fetch E name st of
        None \<Rightarrow> None
      | Some rec \<Rightarrow>
          Some \<lparr>pn_level = - 1, pn_name = name, pn_key = nr_pub_key rec, pn_site_ref = nr_site_ref rec, pn_expires = nr_expires rec,
            pn_nonce = nr_nonce rec, pn_sig = nr_sig rec\<rparr>)"

text \<open>The fields but the key are copied from the fresh record to itself. An exception, of the database or of passing the name on, is caught: the
  status is the one reached so far. An access out of range is not an exception.\<close>

definition publish_name :: "('h, 'k) name_env \<Rightarrow> 'n node \<Rightarrow> publish_name_request \<Rightarrow>
    (('h, 'k) name_service \<times> (sha1 \<times> publish_name_request) list, publish_name_status) cmd" where
  "publish_name E nd req s =
     (case s of (st, out) \<Rightarrow>
        if name_fetch E (pn_name req) st \<noteq> None then (Inr already_reserved, s)
        else
          case name_store E (pn_name req) ((name_record_new E)\<lparr>nr_pub_key := pn_key req\<rparr>) st of
            (Inl (Throw t), st') \<Rightarrow> (Inr rejected, st', out)
          | (Inl e, st') \<Rightarrow> (Inl e, st', out)
          | (Inr _, st') \<Rightarrow>
              (case name_publish nd (req\<lparr>pn_level := pn_level req + 1\<rparr>) out of
                 (Inl (Throw t), out') \<Rightarrow> (Inr pn_ok, st', out')
               | (Inl e, out') \<Rightarrow> (Inl e, st', out')
               | (Inr _, out') \<Rightarrow> (Inr pn_ok, st', out')))"

section \<open>Proof of work\<close>

text \<open>A transaction is given by what it packs to for each nonce; \<open>stop n\<close> is what the search reads from \<open>done\<close> when it is at \<open>n\<close>. The result is the value
  returned and the nonce left in the transaction.\<close>

definition validate_trx_hash :: "crypto \<Rightarrow> (u64 \<Rightarrow> byte list) \<Rightarrow> u64 \<Rightarrow> sha1 \<Rightarrow> bool" where
  "validate_trx_hash cr trx k thresh \<longleftrightarrow> sha1_hash cr (trx k) < thresh"

lemma unat_inc: "k < lim \<Longrightarrow> unat (k + 1 :: u64) = Suc (unat k)"
  using unsigned_less [of lim, where ?'a = nat] by (subst unat_word_ariths) (simp add: word_less_nat_alt)

function find_nonce_loop :: "crypto \<Rightarrow> (u64 \<Rightarrow> byte list) \<Rightarrow> u64 \<Rightarrow> sha1 \<Rightarrow> (u64 \<Rightarrow> bool) \<Rightarrow> u64 \<Rightarrow> u64" where
  "find_nonce_loop cr trx lim thresh stop k =
     (if \<not> stop k \<and> k < lim then
        if validate_trx_hash cr trx k thresh then k else find_nonce_loop cr trx lim thresh stop (k + 1)
      else k)"
  by auto

termination
proof (relation "measure (\<lambda>(cr, trx, lim, thresh, stop, k). unat lim - unat k)", goal_cases)
  case (2 cr trx lim thresh stop k)
  then have "k < lim" by blast
  then show ?case using unat_inc [of k lim] by (simp add: word_less_nat_alt)
qed simp

declare find_nonce_loop.simps [simp del]

definition find_nonce :: "crypto \<Rightarrow> (u64 \<Rightarrow> byte list) \<Rightarrow> u64 \<Rightarrow> u64 \<Rightarrow> sha1 \<Rightarrow> (u64 \<Rightarrow> bool) \<Rightarrow> u64 \<times> u64" where
  "find_nonce cr trx start lim thresh stop = (start, find_nonce_loop cr trx lim thresh stop start)"

record name_block =
  nb_prev_block_id :: sha1
  nb_utc_us :: u64
  nb_block_num :: u64
  nb_transactions :: "sha1 list"
  nb_gen_transaction :: sha1

definition base_hash :: "crypto \<Rightarrow> name_block \<Rightarrow> sha1" where
  "base_hash cr b = sha1_hash cr (pack_pod 20 (nb_prev_block_id b) @ pack_pod 8 (nb_utc_us b) @ pack_pod 8 (nb_block_num b) @
     pack_list (pack_pod 20) (nb_transactions b))"

text \<open>The same in src/name_chain.cpp, where the fields are written as they lie in memory.\<close>

definition calculate_base_hash :: "crypto \<Rightarrow> name_block \<Rightarrow> sha1" where
  "calculate_base_hash cr b = sha1_hash cr (le_bytes 20 (nb_prev_block_id b) @ le_bytes 8 (nb_utc_us b) @ le_bytes 8 (nb_block_num b) @
     pack_list (pack_pod 20) (nb_transactions b))"

definition validate_block_hash :: "crypto \<Rightarrow> name_block \<Rightarrow> sha1 \<Rightarrow> byte list \<Rightarrow> sha1 \<Rightarrow> sha1 \<Rightarrow> bool" where
  "validate_block_hash cr b gen_base gen block_thresh trx_thresh =
     (if gen_base \<noteq> base_hash cr b then False
      else if nb_gen_transaction b \<noteq> sha1_hash cr gen then False
      else if sha1_hash cr gen \<ge> block_thresh then False
      else list_all (\<lambda>t. \<not> t > trx_thresh) (nb_transactions b))"

section \<open>Names and their keys\<close>

definition name_env_ok :: "('h, 'k) name_env \<Rightarrow> bool" where
  "name_env_ok E \<longleftrightarrow> bdb_ok (ne_recs E) \<and> bdb_ok (ne_keys E) \<and> (\<forall>h n v. db_put (ne_recs E) h n v \<noteq> None) \<and> (\<forall>h n v. db_put (ne_keys E) h n v \<noteq> None)"

definition name_inv :: "('h, 'k) name_env \<Rightarrow> ('h, 'k) name_service \<Rightarrow> bool" where
  "name_inv E st \<longleftrightarrow> (\<forall>n k. name_fetch_key E n st = Some k \<longrightarrow>
     (\<exists>i. k = ne_generate E i) \<and> (\<exists>r. name_fetch E n st = Some r \<and> nr_pub_key r = rk_pub_key k))"

lemma name_invD:
  "name_inv E st \<Longrightarrow> name_fetch_key E n st = Some k \<Longrightarrow> (\<exists>i. k = ne_generate E i) \<and> (\<exists>r. name_fetch E n st = Some r \<and> nr_pub_key r = rk_pub_key k)"
  by (simp add: name_inv_def)

lemma name_store_ok:
  assumes "name_env_ok E"
  obtains st' where "name_store E n r st = (Inr True, st')" "name_fetch E n st' = Some r" "\<And>m. m \<noteq> n \<Longrightarrow> name_fetch E m st' = name_fetch E m st"
    "\<And>m. name_fetch_key E m st' = name_fetch_key E m st"
proof -
  obtain h where h: "db_put (ne_recs E) (ns_recs st) n r = Some h" using assms by (fastforce simp: name_env_ok_def)
  have "db_get (ne_recs E) h = (db_get (ne_recs E) (ns_recs st))(n \<mapsto> r)"
    using assms h by (auto simp: name_env_ok_def intro: bdb_okD(1))
  then show thesis using that [of "st\<lparr>ns_recs := h\<rparr>"] h by (simp add: name_store_def name_fetch_def name_fetch_key_def)
qed

lemma name_store_key_ok:
  assumes "name_env_ok E"
  obtains st' where "name_store_key E n r st = (Inr True, st')" "name_fetch_key E n st' = Some r"
    "\<And>m. m \<noteq> n \<Longrightarrow> name_fetch_key E m st' = name_fetch_key E m st" "\<And>m. name_fetch E m st' = name_fetch E m st"
proof -
  obtain h where h: "db_put (ne_keys E) (ns_keys st) n r = Some h" using assms by (fastforce simp: name_env_ok_def)
  have "db_get (ne_keys E) h = (db_get (ne_keys E) (ns_keys st))(n \<mapsto> r)"
    using assms h by (auto simp: name_env_ok_def intro: bdb_okD(1))
  then show thesis using that [of "st\<lparr>ns_keys := h\<rparr>"] h by (simp add: name_store_key_def name_fetch_def name_fetch_key_def)
qed

text \<open>The three outcomes of a reservation.\<close>

lemma reserve_name_cases:
  assumes "name_env_ok E" "reserve_name E now name l st = (x, st')"
  obtains (refused) t where "x = Inl (Throw t)" "st' = st"
  | (updated) rec where "x = Inr ()" "name_fetch E name st = Some rec" "name_fetch_key E name st \<noteq> None"
      "name_fetch E name st' = Some (rec\<lparr>nr_site_ref := l\<rparr>)" "\<forall>m. m \<noteq> name \<longrightarrow> name_fetch E m st' = name_fetch E m st"
      "\<forall>m. name_fetch_key E m st' = name_fetch_key E m st"
  | (new) rec k where "x = Inr ()" "name_fetch E name st = None" "k = ne_generate E (ns_generated st)"
      "name_fetch E name st' = Some rec" "nr_site_ref rec = l" "nr_pub_key rec = rk_pub_key k" "name_fetch_key E name st' = Some k"
      "\<forall>m. m \<noteq> name \<longrightarrow> name_fetch E m st' = name_fetch E m st \<and> name_fetch_key E m st' = name_fetch_key E m st"
proof (cases "(name_fetch E name st \<noteq> None \<and> name_fetch_key E name st = None) \<or> length name > 63")
  case True
  then show thesis using assms(2) refused by (auto simp: reserve_name_def Let_def split: if_splits)
next
  case ok: False
  show thesis
  proof (cases "name_fetch E name st")
    case (Some rec)
    obtain st1 where s: "name_store E name (rec\<lparr>nr_site_ref := l\<rparr>) st = (Inr True, st1)" "name_fetch E name st1 = Some (rec\<lparr>nr_site_ref := l\<rparr>)"
      "\<And>m. m \<noteq> name \<Longrightarrow> name_fetch E m st1 = name_fetch E m st" "\<And>m. name_fetch_key E m st1 = name_fetch_key E m st"
      using name_store_ok [OF assms(1)] by metis
    have "x = Inr ()" "st' = st1" using assms(2) ok Some s(1) by (auto simp: reserve_name_def andthen_def bindc_def ret_def Let_def)
    then show thesis using updated [of rec] ok Some s by auto
  next
    case None
    let ?k = "ne_generate E (ns_generated st)" and ?st = "st\<lparr>ns_generated := Suc (ns_generated st)\<rparr>"
    let ?rec = "(name_record_new E)\<lparr>nr_pub_key := rk_pub_key ?k, nr_expires := ucast (now div 1000000), nr_site_ref := l\<rparr>"
    obtain st1 where k: "name_store_key E name ?k ?st = (Inr True, st1)" "name_fetch_key E name st1 = Some ?k"
      "\<And>m. m \<noteq> name \<Longrightarrow> name_fetch_key E m st1 = name_fetch_key E m ?st" "\<And>m. name_fetch E m st1 = name_fetch E m ?st"
      using name_store_key_ok [OF assms(1)] by metis
    obtain st2 where s: "name_store E name ?rec st1 = (Inr True, st2)" "name_fetch E name st2 = Some ?rec"
      "\<And>m. m \<noteq> name \<Longrightarrow> name_fetch E m st2 = name_fetch E m st1" "\<And>m. name_fetch_key E m st2 = name_fetch_key E m st1"
      using name_store_ok [OF assms(1)] by metis
    have "x = Inr ()" "st' = st2" using assms(2) ok None k(1) s(1) by (auto simp: reserve_name_def andthen_def bindc_def ret_def Let_def)
    moreover have "name_fetch E m ?st = name_fetch E m st" "name_fetch_key E m ?st = name_fetch_key E m st" for m
      by (simp_all add: name_fetch_def name_fetch_key_def)
    ultimately show thesis using new [of ?k ?rec] None k s by simp
  qed
qed

lemma reserve_name_inv:
  assumes "name_env_ok E" "name_inv E st" "reserve_name E now name l st = (x, st')"
  shows "name_inv E st'"
  using assms(1,3)
proof (cases rule: reserve_name_cases)
  case refused
  then show ?thesis using assms(2) by simp
next
  case (updated rec)
  have "(\<exists>i. k = ne_generate E i) \<and> (\<exists>r. name_fetch E n st' = Some r \<and> nr_pub_key r = rk_pub_key k)" if "name_fetch_key E n st' = Some k" for n k
    using that updated name_invD [OF assms(2), of n k] by (cases "n = name") auto
  then show ?thesis by (simp add: name_inv_def)
next
  case (new rec k0)
  have "(\<exists>i. k = ne_generate E i) \<and> (\<exists>r. name_fetch E n st' = Some r \<and> nr_pub_key r = rk_pub_key k)" if "name_fetch_key E n st' = Some k" for n k
    using that new name_invD [OF assms(2), of n k] by (cases "n = name") auto
  then show ?thesis by (simp add: name_inv_def)
qed

lemma publish_name_cases:
  assumes "name_env_ok E" "publish_name E nd req (st, out) = (x, st', out')"
  obtains (known) "x = Inr already_reserved" "st' = st" "out' = out"
  | (stored) "name_fetch E (pn_name req) st = None" "name_fetch E (pn_name req) st' = Some ((name_record_new E)\<lparr>nr_pub_key := pn_key req\<rparr>)"
      "\<forall>m. m \<noteq> pn_name req \<longrightarrow> name_fetch E m st' = name_fetch E m st" "\<forall>m. name_fetch_key E m st' = name_fetch_key E m st"
      "out' = snd (name_publish nd (req\<lparr>pn_level := pn_level req + 1\<rparr>) out)" "\<forall>y. x = Inr y \<longrightarrow> y = pn_ok"
proof (cases "name_fetch E (pn_name req) st")
  case (Some r)
  then show thesis using assms(2) known by (simp add: publish_name_def)
next
  case None
  obtain st1 where s: "name_store E (pn_name req) ((name_record_new E)\<lparr>nr_pub_key := pn_key req\<rparr>) st = (Inr True, st1)"
    "name_fetch E (pn_name req) st1 = Some ((name_record_new E)\<lparr>nr_pub_key := pn_key req\<rparr>)"
    "\<And>m. m \<noteq> pn_name req \<Longrightarrow> name_fetch E m st1 = name_fetch E m st" "\<And>m. name_fetch_key E m st1 = name_fetch_key E m st"
    using name_store_ok [OF assms(1)] by metis
  obtain y o' where n: "name_publish nd (req\<lparr>pn_level := pn_level req + 1\<rparr>) out = (y, o')" by (cases "name_publish nd (req\<lparr>pn_level := pn_level req + 1\<rparr>) out")
  have "st' = st1 \<and> out' = o' \<and> (\<forall>z. x = Inr z \<longrightarrow> z = pn_ok)"
    using assms(2) None s(1) n by (cases y rule: sum.exhaust) (auto simp: publish_name_def split: exn.splits)
  then show thesis using stored None s n by auto
qed

lemma publish_name_inv:
  assumes "name_env_ok E" "name_inv E st" "publish_name E nd req (st, out) = (x, st', out')"
  shows "name_inv E st'"
  using assms(1,3)
proof (cases rule: publish_name_cases)
  case known
  then show ?thesis using assms(2) by simp
next
  case stored
  have "(\<exists>i. k = ne_generate E i) \<and> (\<exists>r. name_fetch E n st' = Some r \<and> nr_pub_key r = rk_pub_key k)" if k: "name_fetch_key E n st' = Some k" for n k
  proof -
    have i: "(\<exists>i. k = ne_generate E i) \<and> (\<exists>r. name_fetch E n st = Some r \<and> nr_pub_key r = rk_pub_key k)"
      using k stored(4) assms(2) by (simp add: name_inv_def)
    then have "n \<noteq> pn_name req" using stored(1) by auto
    then show ?thesis using i stored(3) by simp
  qed
  then show ?thesis by (simp add: name_inv_def)
qed

text \<open>What a name service goes through: reservations of its own and requests of others.\<close>

inductive name_run :: "('h, 'k) name_env \<Rightarrow> 'n node \<Rightarrow> ('h, 'k) name_service \<Rightarrow> ('h, 'k) name_service \<Rightarrow> bool" for E nd where
  name_start: "name_run E nd st st"
| name_reserve: "name_run E nd st st1 \<Longrightarrow> reserve_name E now name l st1 = (x, st2) \<Longrightarrow> name_run E nd st st2"
| name_publish_step: "name_run E nd st st1 \<Longrightarrow> publish_name E nd req (st1, out) = (y, st2, out') \<Longrightarrow> name_run E nd st st2"

lemma name_run_inv: "name_run E nd st st' \<Longrightarrow> name_env_ok E \<Longrightarrow> name_inv E st \<Longrightarrow> name_inv E st'"
  by (induction rule: name_run.induct) (auto intro: reserve_name_inv publish_name_inv)

definition keys_ok :: "('h, 'k) name_env \<Rightarrow> bool" where
  "keys_ok E \<longleftrightarrow> (\<forall>i d. ne_verify E (rk_pub_key (ne_generate E i)) d (ne_sign E (rk_priv_key (ne_generate E i)) d))"


text \<open>A reservation that returns can be looked up, and leaves the other names alone.\<close>

lemma reserved_name_found:
  assumes "name_env_ok E" "reserve_name E now name l st = (Inr (), st')"
  shows "get_link_for_name E name st' = Inr l \<and> (\<forall>m. m \<noteq> name \<longrightarrow> get_link_for_name E m st' = get_link_for_name E m st)"
  using assms by (cases rule: reserve_name_cases) (auto simp: get_link_for_name_def)

text \<open>
  A name that another node publishes is kept without its site. The fields of the record are copied from the record itself instead
  of from the request, so that a node that is asked for the name afterwards answers the empty link, no expiry and no nonce, whatever was published.
\<close>

theorem published_name_without_site:
  assumes "name_env_ok E" "name_fetch E (pn_name req) st = None" "publish_name E nd req (st, out) = (x, st', out')"
  shows "\<exists>r. resolve_name E (pn_name req) st' = Some r \<and> pn_key r = pn_key req \<and> pn_site_ref r = link_new \<and> pn_expires r = 0 \<and> pn_nonce r = 0
    \<and> get_link_for_name E (pn_name req) st' = Inr link_new"
  using assms(1,3)
proof (cases rule: publish_name_cases)
  case known
  then show ?thesis using assms(2,3) by (auto simp: publish_name_def split: prod.splits sum.splits exn.splits)
next
  case stored
  then show ?thesis by (simp add: resolve_name_def get_link_for_name_def name_record_new_def)
qed

section \<open>Passing a name on\<close>

definition bucket_ids :: "'n node \<Rightarrow> nat \<Rightarrow> sha1 list" where
  "bucket_ids nd i = map (\<lambda>c. c_remote_id (nd_cons nd c)) (take 3 (kb_buckets (nd_kbuckets nd) ! i))"

definition candidates :: "'n node \<Rightarrow> nat \<Rightarrow> sha1 list" where
  "candidates nd l = concat (map (bucket_ids nd) [l..<length (kb_buckets (nd_kbuckets nd))])"

lemma candidates_step: "l < length (kb_buckets (nd_kbuckets nd)) \<Longrightarrow> candidates nd l = bucket_ids nd l @ candidates nd (Suc l)"
  by (simp add: candidates_def upt_conv_Cons)

lemma get_kbucket_ids: "l < length (kb_buckets (nd_kbuckets nd)) \<Longrightarrow> get_kbucket nd (int l) 3 = Inr (bucket_ids nd l)"
  by (simp add: get_kbucket_def get_bucket_def bucket_ids_def)

lemma publish_loop_outcome:
  assumes "sent \<le> 3"
  shows "publish_loop nd r sent (int l) out =
    ((if 3 - sent \<le> length (candidates nd l) then Inr () else Inl (Undefined ''bucket index out of range'')),
     out @ map (\<lambda>n. (n, r)) (take (3 - sent) (candidates nd l)))"
  using assms
proof (induction "length (kb_buckets (nd_kbuckets nd)) - l" arbitrary: l sent out)
  case 0
  then have "candidates nd l = []" "get_kbucket nd (int l) 3 = Inl (Undefined ''bucket index out of range'')"
    by (simp_all add: candidates_def get_kbucket_def get_bucket_def)
  then show ?case using 0 by (subst publish_loop.simps) auto
next
  case (Suc m)
  then have l: "l < length (kb_buckets (nd_kbuckets nd))" by simp
  show ?case
  proof (cases "sent = 3")
    case True
    then show ?thesis by (subst publish_loop.simps) simp
  next
    case False
    let ?t = "take (3 - sent) (bucket_ids nd l)" and ?n = "length (take (3 - sent) (bucket_ids nd l))"
    have n: "sent + ?n \<le> 3" "3 - (sent + ?n) = 3 - sent - length (bucket_ids nd l)" using Suc.prems by auto
    have "publish_loop nd r sent (int l) out = publish_loop nd r (sent + ?n) (int (Suc l)) (out @ map (\<lambda>n. (n, r)) ?t)"
      using get_kbucket_ids [OF l] False Suc.prems by (subst publish_loop.simps) (simp add: add.commute)
    also have "\<dots> = ((if 3 - (sent + ?n) \<le> length (candidates nd (Suc l)) then Inr () else Inl (Undefined ''bucket index out of range'')),
        (out @ map (\<lambda>n. (n, r)) ?t) @ map (\<lambda>n. (n, r)) (take (3 - (sent + ?n)) (candidates nd (Suc l))))"
      by (rule Suc.hyps(1)) (use Suc.hyps(2) n(1) in simp_all)
    also have "\<dots> = ((if 3 - sent \<le> length (candidates nd l) then Inr () else Inl (Undefined ''bucket index out of range'')),
        out @ map (\<lambda>n. (n, r)) (take (3 - sent) (candidates nd l)))"
      unfolding n(2) candidates_step [OF l] by (auto simp: le_diff_conv add.commute)
    finally show ?thesis .
  qed
qed

text \<open>
  How a name is passed on: with at least three nodes in the buckets from the level of the request on, the first three of them are sent the
  request and the loop ends; with fewer, the loop has no end of its own, and after the last bucket it reads past the table of buckets.
\<close>

theorem name_publish_outcome:
  assumes "pn_level r \<noteq> 0"
  shows "name_publish nd r out =
    ((if 3 \<le> length (candidates nd (unat (pn_level r))) then Inr () else Inl (Undefined ''bucket index out of range'')),
     out @ map (\<lambda>n. (n, r)) (take 3 (candidates nd (unat (pn_level r)))))"
proof -
  have u: "uint (pn_level r) = int (unat (pn_level r))" by simp
  show ?thesis unfolding name_publish_def andthen_def bindc_def u
    using publish_loop_outcome [of 0 nd r "unat (pn_level r)" out] assms by (simp add: ret_def)
qed

section \<open>The search for a nonce\<close>

lemma find_nonce_loop_spec:
  "start \<le> find_nonce_loop cr trx lim thresh stop start
    \<and> (\<forall>j. start \<le> j \<and> j < find_nonce_loop cr trx lim thresh stop start \<longrightarrow> j < lim \<and> \<not> stop j \<and> \<not> validate_trx_hash cr trx j thresh)
    \<and> (find_nonce_loop cr trx lim thresh stop start < lim \<and> \<not> stop (find_nonce_loop cr trx lim thresh stop start) \<longrightarrow>
        validate_trx_hash cr trx (find_nonce_loop cr trx lim thresh stop start) thresh)"
proof (induction cr trx lim thresh stop start rule: find_nonce_loop.induct)
  case (1 cr trx lim thresh stop k)
  show ?case
  proof (cases "\<not> stop k \<and> k < lim \<and> \<not> validate_trx_hash cr trx k thresh")
    case True
    then have e: "find_nonce_loop cr trx lim thresh stop k = find_nonce_loop cr trx lim thresh stop (k + 1)"
      by (subst find_nonce_loop.simps) simp
    let ?r = "find_nonce_loop cr trx lim thresh stop (k + 1)"
    have u: "unat (k + 1) = Suc (unat k)" using True unat_inc by blast
    have le: "k \<le> ?r" if "k + 1 \<le> ?r" using that unfolding word_le_nat_alt u by simp
    have lt: "j = k \<or> k + 1 \<le> j" if "k \<le> j" for j using that unfolding word_le_nat_alt word_unat_eq_iff u by linarith
    have IH: "k + 1 \<le> ?r" "\<And>j. k + 1 \<le> j \<Longrightarrow> j < ?r \<Longrightarrow> j < lim \<and> \<not> stop j \<and> \<not> validate_trx_hash cr trx j thresh"
      "?r < lim \<Longrightarrow> \<not> stop ?r \<Longrightarrow> validate_trx_hash cr trx ?r thresh" using 1 True by blast+
    have "j < lim \<and> \<not> stop j \<and> \<not> validate_trx_hash cr trx j thresh" if "k \<le> j" "j < ?r" for j
      using lt [OF that(1)] IH(2) [OF _ that(2)] True by blast
    then show ?thesis unfolding e using le [OF IH(1)] IH(3) by blast
  next
    case False
    then have "find_nonce_loop cr trx lim thresh stop k = k" by (subst find_nonce_loop.simps) auto
    then show ?thesis using False by auto
  qed
qed

text \<open>
  The search leaves the first nonce from \<open>start\<close> on that makes the transaction valid, unless it was stopped or reached the end before, and it always ends.
  What it returns is not this nonce but where it started.
\<close>

theorem find_nonce_first:
  assumes "find_nonce cr trx start lim thresh stop = (x, k)"
  shows "x = start \<and> start \<le> k \<and> (\<forall>j. start \<le> j \<and> j < k \<longrightarrow> \<not> validate_trx_hash cr trx j thresh)
    \<and> (validate_trx_hash cr trx k thresh \<or> stop k \<or> lim \<le> k)"
  using assms find_nonce_loop_spec [of start cr trx lim thresh stop] by (auto simp: find_nonce_def not_less)

lemma base_hash_same: "calculate_base_hash cr b = base_hash cr b"
  by (simp add: calculate_base_hash_def base_hash_def pack_pod_def)

text \<open>A valid block has enough work in every transaction, and cannot be taken for one with other transactions.\<close>

lemma valid_block_work:
  assumes "validate_block_hash cr b base gen bt tt"
  shows "sha1_hash cr gen < bt \<and> (\<forall>t \<in> set (nb_transactions b). t \<le> tt) \<and> base = base_hash cr b"
  using assms by (auto simp: validate_block_hash_def list_all_iff not_less not_le split: if_splits)

section \<open>Witnesses\<close>

definition name_demo :: "((byte list \<times> name_record) list, (byte list \<times> record_key) list) name_env" where
  "name_demo = \<lparr>ne_recs = list_bdb, ne_keys = list_bdb, ne_generate = (\<lambda>i. \<lparr>rk_pub_key = [of_nat i], rk_priv_key = [of_nat i]\<rparr>),
     ne_sign = (\<lambda>k d. k), ne_verify = (\<lambda>p d s. p = s), ne_fresh_sig = []\<rparr>"

definition name_demo_start :: "((byte list \<times> name_record) list, (byte list \<times> record_key) list) name_service" where
  "name_demo_start = \<lparr>ns_recs = [], ns_keys = [], ns_generated = 0\<rparr>"

lemma name_demo_ok: "name_env_ok name_demo" "keys_ok name_demo"
  using list_bdb_ok [where ?'a = name_record] list_bdb_ok [where ?'a = record_key]
  by (simp_all add: name_env_ok_def keys_ok_def name_demo_def) (simp_all add: list_bdb_def)

definition name_demo_node :: "nat node" where
  "name_demo_node = node_init demo_crypto 20 ([], []) None 0 (\<lambda>_. 0) 0"

definition name_demo_request :: publish_name_request where
  "name_demo_request = \<lparr>pn_level = 4, pn_name = [120], pn_key = [9], pn_site_ref = \<lparr>ln_id = 7, ln_seed = 8\<rparr>, pn_expires = 5, pn_nonce = 6, pn_sig = [1]\<rparr>"


theorem published_name_without_site_witness:
  "\<exists>x st' out'. publish_name name_demo name_demo_node name_demo_request (name_demo_start, []) = (x, st', out')
    \<and> get_link_for_name name_demo [120] st' = Inr link_new"
proof -
  obtain x st' out' where p: "publish_name name_demo name_demo_node name_demo_request (name_demo_start, []) = (x, st', out')"
    by (metis prod.collapse)
  have "name_fetch name_demo (pn_name name_demo_request) name_demo_start = None"
    by (simp add: name_fetch_def name_demo_def name_demo_start_def list_bdb_def)
  from published_name_without_site [OF name_demo_ok(1) this p] p show ?thesis by (auto simp: name_demo_request_def)
qed

theorem find_nonce_first_witness:
  "\<exists>k. find_nonce (demo_crypto\<lparr>sha1_hash := (\<lambda>b. of_nat (length b))\<rparr>) (\<lambda>n. replicate (9 - unat n) 0) 2 100 5 (\<lambda>_. False) = (2, k) \<and> k = 5"
proof -
  let ?cr = "demo_crypto\<lparr>sha1_hash := (\<lambda>b. of_nat (length b))\<rparr>" and ?t = "\<lambda>n. replicate (9 - unat n) (0 :: byte)"
  have f: "find_nonce ?cr ?t 2 100 5 (\<lambda>_. False) = (2, find_nonce_loop ?cr ?t 100 5 (\<lambda>_. False) 2)" by (simp add: find_nonce_def)
  have "find_nonce_loop ?cr ?t 100 5 (\<lambda>_. False) 2 = 5"
    by (simp add: find_nonce_loop.simps validate_trx_hash_def)
  then show ?thesis using f find_nonce_first [OF f] by simp
qed

theorem name_publish_outcome_witness:
  "name_publish name_demo_node name_demo_request [] = (Inl (Undefined ''bucket index out of range''), [])"
proof -
  have "bucket_ids name_demo_node i = []" if "i < length (kb_buckets (nd_kbuckets name_demo_node))" for i
    using that by (simp add: bucket_ids_def name_demo_node_def node_init_def kb_new_def kb_set_id_def Let_def)
  then have "candidates name_demo_node l = []" for l by (simp add: candidates_def)
  then show ?thesis using name_publish_outcome [of name_demo_request name_demo_node "[]"] by (simp add: name_demo_request_def)
qed

end
