(* ===== verification/Httpd.thy ===== *)
theory Httpd
  imports Tproxy_Http
begin

text \<open>
  The http server of src/httpd.cpp, which the build leaves out: the parser of requests, which reads from the socket into a buffer of 8192
  bytes that it uses again and again, the resolution of a path through the archives, and the replies. What belongs to other components or to
  libraries, paths, links, the download of a file and of a chunk, the packed form of an archive, is in \<open>httpd_env\<close>. The socket is what is still
  to be read, and what was written.
\<close>

section \<open>Requests\<close>

text \<open>The length, the closing mark and the body of a request are never set or used after the constructor.\<close>

record hd_request =
  hq_method :: "byte list"
  hq_domain :: "byte list"
  hq_path :: "byte list"
  hq_headers :: "(byte list \<times> byte list) list"

text \<open>The result is the returned number, the buffer and the rest of the stream. The stream ends when the peer closes the connection.\<close>

fun read_until :: "byte \<Rightarrow> nat \<Rightarrow> byte list \<Rightarrow> byte list \<Rightarrow> int \<times> byte list \<times> byte list" where
  "read_until c p buf [] = (int p, buf, [])"
| "read_until c p buf (b # strm) =
     (if p < length buf then
        if b = c then (int p - 1, buf[p := 0], strm) else read_until c (Suc p) (buf[p := b]) strm
      else (int p, buf, b # strm))"

definition c_string :: "byte list \<Rightarrow> byte list res" where
  "c_string buf = (if 0 \<in> set buf then Inr (takeWhile (\<lambda>b. b \<noteq> 0) buf) else Inl (Undefined ''string without an end''))"

text \<open>The key ends at the first colon, the value at the first carriage return after it, wherever they are in the buffer.\<close>

definition parse_header :: "byte list \<Rightarrow> (byte list \<times> byte list) res" where
  "parse_header buf =
     (let key = takeWhile (\<lambda>b. b \<noteq> 58) buf; rest = drop (Suc (length key)) buf; val = takeWhile (\<lambda>b. b \<noteq> 13) rest in
      if length key = length buf then Inl (Undefined ''read past the buffer'')
      else if length val = length rest then Inl (Undefined ''read past the buffer'')
      else Inr (key, val))"

lemma read_until_consumes: "fst (read_until c p buf strm) > 1 \<Longrightarrow> p \<le> 1 \<Longrightarrow> length (snd (snd (read_until c p buf strm))) < length strm"
proof (induction c p buf strm rule: read_until.induct)
  case (2 c p buf b strm)
  have "length (snd (snd (read_until c q bf st))) \<le> length st" for q bf st
    by (induction c q bf st rule: read_until.induct) auto
  then show ?case using 2 by (auto simp: less_Suc_eq_le split: if_splits)
qed simp

function parse_headers :: "byte list \<Rightarrow> byte list \<Rightarrow> (byte list \<times> byte list) list \<Rightarrow> (byte list \<times> byte list) list res" where
  "parse_headers buf strm acc =
     (let x = read_until 10 0 buf strm in
      if fst x > 1 then
        case parse_header (fst (snd x)) of
          Inl e \<Rightarrow> Inl e
        | Inr h \<Rightarrow> parse_headers (fst (snd x)) (snd (snd x)) (acc @ [h])
      else Inr acc)"
  by auto

termination
  by (relation "measure (\<lambda>(buf, strm, acc). length strm)") (auto intro!: read_until_consumes)

declare parse_headers.simps [simp del]

definition bindr :: "'a res \<Rightarrow> ('a \<Rightarrow> 'b res) \<Rightarrow> 'b res" where
  "bindr x k = (case x of Inl e \<Rightarrow> Inl e | Inr a \<Rightarrow> k a)"

definition parse_request :: "byte list \<Rightarrow> byte list \<Rightarrow> hd_request res" where
  "parse_request tmp sock =
     (case read_until 32 0 tmp sock of (_, tmp, sock) \<Rightarrow>
      bindr (c_string tmp) (\<lambda>method.
      case read_until 47 0 tmp sock of (_, tmp, sock) \<Rightarrow>
      case read_until 47 0 tmp sock of (_, tmp, sock) \<Rightarrow>
      case read_until 47 0 tmp sock of (_, tmp, sock) \<Rightarrow>
      bindr (c_string tmp) (\<lambda>domain.
      case read_until 32 0 tmp sock of (_, tmp, sock) \<Rightarrow>
      bindr (c_string tmp) (\<lambda>path.
      case read_until 10 0 tmp sock of (_, tmp, sock) \<Rightarrow>
      bindr (parse_headers tmp sock []) (\<lambda>hs. Inr \<lparr>hq_method = method, hq_domain = domain, hq_path = path, hq_headers = hs\<rparr>)))))"

section \<open>A well-formed request is read as it was written\<close>

lemma read_until_found:
  assumes "c \<notin> set xs" "p + length xs < length buf"
  shows "read_until c p buf (xs @ c # strm) = (int (p + length xs) - 1, take p buf @ xs @ 0 # drop (Suc (p + length xs)) buf, strm)"
  using assms
proof (induction xs arbitrary: p buf)
  case Nil
  then show ?case by (simp add: upd_conv_take_nth_drop)
next
  case (Cons x xs)
  have "read_until c p buf ((x # xs) @ c # strm) = read_until c (Suc p) (buf[p := x]) (xs @ c # strm)" using Cons.prems by auto
  also have "\<dots> = (int (Suc p + length xs) - 1, take (Suc p) (buf[p := x]) @ xs @ 0 # drop (Suc (Suc p + length xs)) (buf[p := x]), strm)"
    using Cons.IH [of "Suc p" "buf[p := x]"] Cons.prems by simp
  also have "take (Suc p) (buf[p := x]) = take p buf @ [x]" using Cons.prems by (simp add: take_Suc_conv_app_nth)
  finally show ?case by simp
qed

lemma read_until_line:
  assumes "c \<notin> set xs" "length xs < length buf"
  shows "read_until c 0 buf (xs @ c # strm) = (int (length xs) - 1, xs @ 0 # drop (Suc (length xs)) buf, strm)"
  using read_until_found [of c xs 0 buf strm] assms by simp

lemma c_string_line: "0 \<notin> set xs \<Longrightarrow> c_string (xs @ 0 # r) = Inr xs"
  by (auto simp: c_string_def takeWhile_append takeWhile_eq_all_conv)

definition header_ok :: "byte list \<times> byte list \<Rightarrow> bool" where
  "header_ok h \<longleftrightarrow> fst h \<noteq> [] \<and> 58 \<notin> set (fst h) \<and> 10 \<notin> set (fst h) \<and> 13 \<notin> set (snd h) \<and> 10 \<notin> set (snd h) \<and> length (fst h) + length (snd h) < 8100"

definition header_text :: "byte list \<times> byte list \<Rightarrow> byte list" where
  "header_text h = fst h @ [58] @ snd h @ [13, 10]"

lemma parse_header_line: "header_ok h \<Longrightarrow> parse_header (fst h @ 58 # snd h @ 13 # r) = Inr h"
  by (auto simp: parse_header_def header_ok_def takeWhile_append takeWhile_eq_all_conv Let_def)

lemma parse_headers_text:
  assumes "length buf = 8192" "list_all header_ok hs"
  shows "parse_headers buf (concat (map header_text hs) @ [13, 10] @ body) acc = Inr (acc @ hs)"
  using assms
proof (induction hs arbitrary: buf acc)
  case Nil
  have "fst (read_until 10 0 buf ([13] @ 10 # body)) = 0" using read_until_line [of 10 "[13]" buf body] Nil(1) by simp
  then show ?case by (subst parse_headers.simps) (simp add: Let_def)
next
  case (Cons h hs)
  let ?l = "fst h @ 58 # snd h @ [13]" and ?rest = "concat (map header_text hs) @ [13, 10] @ body"
  have h: "header_ok h" using Cons.prems by simp
  have l: "length ?l < length buf" "10 \<notin> set ?l" "length ?l > 2" using h Cons.prems(1) by (auto simp: header_ok_def)
  have e: "concat (map header_text (h # hs)) @ [13, 10] @ body = ?l @ 10 # ?rest" by (simp add: header_text_def)
  let ?buf = "?l @ 0 # drop (Suc (length ?l)) buf"
  have r: "read_until 10 0 buf (?l @ 10 # ?rest) = (int (length ?l) - 1, ?buf, ?rest)" by (rule read_until_line [OF l(2,1)])
  have p: "parse_header ?buf = Inr h" using parse_header_line [OF h, of "0 # drop (Suc (length ?l)) buf"] by simp
  have g: "1 < int (length ?l) - 1" using l(3) by linarith
  have "parse_headers buf (?l @ 10 # ?rest) acc = parse_headers ?buf ?rest (acc @ [h])"
    unfolding parse_headers.simps [of buf] r Let_def fst_conv snd_conv p sum.case if_P [OF g] by (rule refl)
  also have "\<dots> = Inr ((acc @ [h]) @ hs)" by (rule Cons.IH) (use Cons.prems l(1) in simp_all)
  finally show ?case unfolding e by simp
qed

definition request_text :: "hd_request \<Rightarrow> byte list \<Rightarrow> byte list" where
  "request_text r ver = hq_method r @ [32] @ [104, 116, 116, 112, 58, 47, 47] @ hq_domain r @ [47] @ hq_path r @ [32] @ ver @ [10] @
     concat (map header_text (hq_headers r)) @ [13, 10]"

definition request_ok :: "hd_request \<Rightarrow> byte list \<Rightarrow> bool" where
  "request_ok r ver \<longleftrightarrow> 32 \<notin> set (hq_method r) \<and> 0 \<notin> set (hq_method r) \<and> length (hq_method r) < 8192 \<and> 47 \<notin> set (hq_domain r) \<and> 0 \<notin> set (hq_domain r) \<and>
     length (hq_domain r) < 8192 \<and> 32 \<notin> set (hq_path r) \<and> 0 \<notin> set (hq_path r) \<and> length (hq_path r) < 8192 \<and> 10 \<notin> set ver \<and> length ver < 8192 \<and>
     list_all header_ok (hq_headers r)"

text \<open>One token of the request line: what the buffer held before does not matter.\<close>

lemma read_token:
  assumes "length tmp = 8192" "c \<notin> set xs" "length xs < 8192"
  obtains n tmp' where "\<forall>x. read_until c 0 tmp (xs @ c # x) = (n, tmp', x)" "length tmp' = 8192" "0 \<notin> set xs \<longrightarrow> c_string tmp' = Inr xs"
proof (rule that)
  show "\<forall>x. read_until c 0 tmp (xs @ c # x) = (int (length xs) - 1, xs @ 0 # drop (Suc (length xs)) tmp, x)"
    by (intro allI read_until_line) (use assms in simp_all)
qed (use assms in \<open>simp_all add: c_string_line\<close>)


text \<open>A line of the header without a colon in it makes the parser read on behind the buffer, unless there happens to be a colon left over from an
  earlier line.\<close>

theorem httpd_header_overrun:
  assumes "10 \<notin> set line" "58 \<notin> set line" "2 < length line" "length line < length buf" "58 \<notin> set buf"
  shows "parse_headers buf (line @ 10 # rest) acc = Inl (Undefined ''read past the buffer'')"
proof -
  have r: "read_until 10 0 buf (line @ 10 # rest) = (int (length line) - 1, line @ 0 # drop (Suc (length line)) buf, rest)"
    by (rule read_until_line) (use assms in simp_all)
  have "58 \<notin> set (line @ 0 # drop (Suc (length line)) buf)" using assms(2,5) by (auto dest: in_set_dropD)
  then have "takeWhile (\<lambda>b. b \<noteq> 58) (line @ 0 # drop (Suc (length line)) buf) = line @ 0 # drop (Suc (length line)) buf"
    by (auto simp: takeWhile_eq_all_conv)
  then have "parse_header (line @ 0 # drop (Suc (length line)) buf) = Inl (Undefined ''read past the buffer'')"
    unfolding parse_header_def Let_def by (simp only: refl if_True)
  then show ?thesis using r assms(3) by (subst parse_headers.simps) (simp add: Let_def)
qed

section \<open>Files and archives\<close>

record tornet_chunk =
  tc_size :: u32
  tc_seed :: u64
  tc_id :: sha1
  tc_slices :: "u32 list"

record tornet_file =
  tf_version :: byte
  tf_compression :: byte
  tf_mime :: "byte list"
  tf_checksum :: sha1
  tf_name :: "byte list"
  tf_size :: u64
  tf_chunks :: "tornet_chunk list"
  tf_inline :: "byte list"

datatype http_exn = Not_found | Invalid_domain | Found "byte list" | Other exn

type_synonym 'a hres = "http_exn + 'a"

record httpd_env =
  hd_chunk_domain :: "byte list \<Rightarrow> byte list option"
  hd_link :: "byte list \<Rightarrow> link res"
  hd_name :: "byte list \<Rightarrow> link res"
  hd_fetch :: "link \<Rightarrow> tornet_file res"
  hd_archive :: "byte list \<Rightarrow> (byte list \<times> link) list res"
  hd_segments :: "byte list \<Rightarrow> byte list list"
  hd_join :: "byte list \<Rightarrow> byte list \<Rightarrow> byte list"
  hd_download :: "sha1 \<Rightarrow> byte list res"
  hd_decrypt :: "sha1 \<Rightarrow> byte list \<Rightarrow> byte list"
  hd_mt :: "u64 \<Rightarrow> nat \<Rightarrow> u32"
  hd_except :: "exn \<Rightarrow> byte list"
  hd_names :: "byte list list"

definition lift_exn :: "'a res \<Rightarrow> 'a hres" where
  "lift_exn x = (case x of Inl e \<Rightarrow> Inl (Other e) | Inr a \<Rightarrow> Inr a)"

text \<open>A domain that ends in \<open>.chunk\<close> is a link, any other is a name.\<close>

definition resolve_domain :: "httpd_env \<Rightarrow> hd_request \<Rightarrow> link hres" where
  "resolve_domain E r =
     lift_exn (case hd_chunk_domain E (hq_domain r) of Some stem \<Rightarrow> hd_link E stem | None \<Rightarrow> hd_name E (hq_domain r))"

definition archive_entry :: "httpd_env \<Rightarrow> tornet_file \<Rightarrow> byte list \<Rightarrow> link hres" where
  "archive_entry E tf p =
     (case hd_archive E (tf_inline tf) of
        Inl e \<Rightarrow> Inl (Other e)
      | Inr ents \<Rightarrow> (case map_of ents p of Some l \<Rightarrow> Inr l | None \<Rightarrow> Inl Not_found))"

fun resolve_path :: "httpd_env \<Rightarrow> link \<Rightarrow> byte list list \<Rightarrow> link hres" where
  "resolve_path E l [] = Inr l"
| "resolve_path E l (n # ns) =
     (case hd_fetch E l of
        Inl e \<Rightarrow> Inl (Other e)
      | Inr tf \<Rightarrow>
          if n = [46] then Inr l
          else (case archive_entry E tf n of Inl e \<Rightarrow> Inl e | Inr l' \<Rightarrow> resolve_path E l' ns))"

definition is_archive :: "tornet_file \<Rightarrow> bool" where
  "is_archive tf \<longleftrightarrow> tf_mime tf = str ''tn::archive''"

section \<open>Replies\<close>

datatype reply_code = Code_OK | Code_NotFound | Code_Found | Code_InternalServerError

definition status_line :: "reply_code \<Rightarrow> byte list" where
  "status_line c =
     (case c of
        Code_OK \<Rightarrow> str ''HTTP/1.1 200 OK''
      | Code_NotFound \<Rightarrow> str ''HTTP/1.1 404 Not Found''
      | Code_Found \<Rightarrow> str ''HTTP/1.1 302 Found''
      | Code_InternalServerError \<Rightarrow> str ''HTTP/1.1 500 Internal Server Error'') @ [13, 10]"

definition send_header :: "reply_code \<Rightarrow> byte list \<Rightarrow> u64 \<Rightarrow> byte list" where
  "send_header c loc len =
     status_line c @ str ''Location: '' @ loc @ [13, 10] @ str ''Content-Length: '' @ decimal (unat len) @ [13, 10] @ [13, 10]"

definition send_page :: "reply_code \<Rightarrow> byte list \<Rightarrow> byte list \<Rightarrow> byte list" where
  "send_page c loc body = send_header c loc (of_nat (length body)) @ body"

definition error_page :: "byte list \<Rightarrow> byte list \<Rightarrow> byte list \<Rightarrow> byte list" where
  "error_page title head text =
     str ''<html>'' @ [10] @ str ''<head>'' @ [10] @ str ''<title>'' @ title @ str ''</title>'' @ [10] @ str ''</head>'' @ [10] @ str ''<body>'' @ [10] @
     str ''<h1>'' @ head @ str ''</h1>'' @ [10] @ text @ str ''</body>'' @ [10] @ str ''</html>'' @ [10]"

definition send_invalid_domain :: "hd_request \<Rightarrow> byte list" where
  "send_invalid_domain r =
     send_page Code_NotFound (hq_path r) (error_page (str ''Unknown Domain '' @ hq_domain r) (str ''Domain Not Found'') (hq_domain r))"

definition send_404 :: "hd_request \<Rightarrow> byte list" where
  "send_404 r = send_page Code_NotFound (hq_path r) (error_page (str ''404 - Not Found'') (str ''404 Not Found'') (hq_path r))"

definition send_server_error :: "hd_request \<Rightarrow> byte list \<Rightarrow> byte list" where
  "send_server_error r s =
     send_page Code_InternalServerError (hq_path r) (error_page (str ''500 Internal Server Error'') (str ''500 Internal Server Error'') s)"

definition send_redirect_to_found :: "byte list \<Rightarrow> byte list" where
  "send_redirect_to_found p = send_header Code_Found p 0"

definition directory_listing :: "byte list \<Rightarrow> byte list \<Rightarrow> (byte list \<times> link) list \<Rightarrow> byte list" where
  "directory_listing domain dir ents =
     str ''<html>'' @ [10] @ str ''<head>'' @ [10] @ str ''<title>//'' @ domain @ str ''/'' @ dir @ str ''</title>'' @ [10] @ str ''</head>'' @ [10] @
     str ''<body>'' @ [10] @ str ''<h1>//'' @ domain @ str ''/'' @ dir @ str ''</h1>'' @ [10] @ str ''<table>'' @ [10] @
     concat (map (\<lambda>(n, l). str ''<tr>'' @ [10] @ str ''<td><a href='' @ [34] @ n @ [34] @ str ''>'' @ n @ str ''</a></td>'' @ [10] @ str ''</tr>'' @ [10]) ents) @
     str ''</table>'' @ [10] @ str ''</body>'' @ [10] @ str ''</html>'' @ [10]"

text \<open>What is written of a file before it is at its end or an exception is thrown.\<close>

fun send_chunks :: "httpd_env \<Rightarrow> sha1 \<Rightarrow> tornet_chunk list \<Rightarrow> byte list \<times> exn option" where
  "send_chunks E key [] = ([], None)"
| "send_chunks E key (c # cs) =
     (case hd_download E (tc_id c) of
        Inl e \<Rightarrow> ([], Some e)
      | Inr d \<Rightarrow>
          if unat (tc_size c) > length d then ([], Some (Throw ''Chunk size than expected''))
          else case send_chunks E key cs of
            (out, e) \<Rightarrow> (take (unat (tc_size c)) (hd_decrypt E key (derandomize (hd_mt E) (tc_seed c) d 0)) @ out, e))"

definition send_file :: "httpd_env \<Rightarrow> tornet_file \<Rightarrow> byte list \<times> exn option" where
  "send_file E tf = (if tf_inline tf \<noteq> [] then (tf_inline tf, None) else send_chunks E (tf_checksum tf) (tf_chunks tf))"

definition tornet_names :: "httpd_env \<Rightarrow> hd_request \<Rightarrow> byte list" where
  "tornet_names E r =
     send_page Code_OK (hq_path r)
       (concat (map (\<lambda>n. str ''<a href='' @ [34] @ str ''http://'' @ n @ [34] @ str ''>'' @ n @ str ''</a><br/>'' @ [10]) (hd_names E)))"

definition hd_tornet_request :: "httpd_env \<Rightarrow> hd_request \<Rightarrow> byte list" where
  "hd_tornet_request E r =
     (if hq_path r = str ''names'' then tornet_names E r
      else send_page Code_OK (hq_path r) (str ''<a href='' @ [34] @ str ''http://tornet/names'' @ [34] @ str ''>names</a><br/>''))"

text \<open>The reply to a request that leads to a file: what was written, and what was thrown.\<close>

definition send_resource :: "httpd_env \<Rightarrow> hd_request \<Rightarrow> tornet_file \<Rightarrow> byte list \<times> http_exn option" where
  "send_resource E r tf =
     (if is_archive tf then
        (case hd_archive E (tf_inline tf) of
           Inl e \<Rightarrow> ([], Some (Other e))
         | Inr ents \<Rightarrow>
             if str ''index.html'' \<in> set (map fst ents)
             then ([], Some (Found (str ''http://'' @ hd_join E (hd_join E (hq_domain r) (hq_path r)) (str ''index.html''))))
             else if hq_path r \<noteq> [] \<and> last (hq_path r) \<noteq> 47
             then ([], Some (Found (str ''http://'' @ hd_join E (hq_domain r) (hq_path r) @ str ''/'')))
             else (send_page Code_OK (hq_path r) (directory_listing (hq_domain r) (hq_path r) ents), None))
      else
        case send_file E tf of (out, e) \<Rightarrow> (send_header Code_OK (hq_path r) (tf_size tf) @ out, map_option Other e))"

definition catch_reply :: "httpd_env \<Rightarrow> hd_request \<Rightarrow> http_exn \<Rightarrow> byte list" where
  "catch_reply E r e =
     (case e of
        Invalid_domain \<Rightarrow> send_invalid_domain r
      | Found p \<Rightarrow> send_redirect_to_found p
      | Not_found \<Rightarrow> send_404 r
      | Other x \<Rightarrow> send_server_error r (hd_except E x))"

definition hd_process :: "httpd_env \<Rightarrow> hd_request \<Rightarrow> byte list" where
  "hd_process E r =
     (if hq_domain r = str ''tornet'' then hd_tornet_request E r
      else
        case resolve_domain E r of
          Inl e \<Rightarrow> catch_reply E r e
        | Inr l \<Rightarrow>
            (case resolve_path E l (hd_segments E (hq_path r)) of
               Inl e \<Rightarrow> catch_reply E r e
             | Inr l' \<Rightarrow>
                 (case hd_fetch E l' of
                    Inl e \<Rightarrow> catch_reply E r (Other e)
                  | Inr tf \<Rightarrow> (case send_resource E r tf of (out, None) \<Rightarrow> out | (out, Some e) \<Rightarrow> out @ catch_reply E r e))))"

section \<open>Replies are complete\<close>

text \<open>One reply: a header that announces the length of the body, and the body.\<close>

definition one_reply :: "byte list \<Rightarrow> bool" where
  "one_reply out \<longleftrightarrow> (\<exists>c loc body. out = send_header c loc (of_nat (length body)) @ body)"

lemma one_page [simp]: "one_reply (send_page c loc body)"
  by (auto simp: one_reply_def send_page_def)

lemma one_catch [simp]: "one_reply (catch_reply E r e)"
proof -
  have "one_reply (send_redirect_to_found p)" for p
    unfolding one_reply_def send_redirect_to_found_def by (rule exI, rule exI, rule exI [of _ "[]"]) simp
  then show ?thesis by (cases e) (simp_all add: catch_reply_def send_invalid_domain_def send_404_def send_server_error_def)
qed

definition file_sent :: "httpd_env \<Rightarrow> tornet_file \<Rightarrow> bool" where
  "file_sent E tf \<longleftrightarrow> is_archive tf \<or> (snd (send_file E tf) = None \<and> tf_size tf = of_nat (length (fst (send_file E tf))))"

text \<open>A request gets one reply, provided that every file that is sent can be sent to its end and has the size it says it has.\<close>

theorem httpd_one_reply:
  assumes "\<forall>l tf. hd_fetch E l = Inr tf \<longrightarrow> file_sent E tf"
  shows "one_reply (hd_process E r)"
proof -
  have res: "one_reply (case send_resource E r tf of (out, None) \<Rightarrow> out | (out, Some e) \<Rightarrow> out @ catch_reply E r e)" if ok: "file_sent E tf" for tf
  proof (cases "is_archive tf")
    case True
    then show ?thesis by (auto simp: send_resource_def split: sum.splits)
  next
    case False
    then obtain out where "send_file E tf = (out, None)" "tf_size tf = of_nat (length out)"
      using ok by (cases "send_file E tf") (auto simp: file_sent_def)
    then show ?thesis using False by (auto simp: send_resource_def one_reply_def)
  qed
  show ?thesis using assms res
    by (auto simp: hd_process_def hd_tornet_request_def tornet_names_def split: sum.splits)
qed

text \<open>A file whose first chunk cannot be downloaded is answered twice: the header of the reply is sent before the chunk is asked for, and the report of the
  error follows it on the same connection.\<close>

theorem httpd_two_replies:
  assumes "hq_domain r \<noteq> str ''tornet''" "resolve_domain E r = Inr l" "resolve_path E l (hd_segments E (hq_path r)) = Inr l'" "hd_fetch E l' = Inr tf"
    "\<not> is_archive tf" "tf_inline tf = []" "tf_chunks tf = c # cs" "hd_download E (tc_id c) = Inl e"
  shows "hd_process E r = send_header Code_OK (hq_path r) (tf_size tf) @ send_server_error r (hd_except E e)"
  using assms by (simp add: hd_process_def send_resource_def send_file_def catch_reply_def)

section \<open>Witnesses\<close>

definition httpd_demo :: httpd_env where
  "httpd_demo = \<lparr>hd_chunk_domain = (\<lambda>_. None), hd_link = (\<lambda>_. Inl (Throw ''x'')), hd_name = (\<lambda>_. Inr \<lparr>ln_id = 1, ln_seed = 2\<rparr>),
     hd_fetch = (\<lambda>_. Inr \<lparr>tf_version = 0, tf_compression = 0, tf_mime = [], tf_checksum = 0, tf_name = [], tf_size = 2, tf_chunks = [], tf_inline = [5, 6]\<rparr>), hd_archive = (\<lambda>_. Inr []),
     hd_segments = (\<lambda>_. []), hd_join = (\<lambda>a b. a @ 47 # b), hd_download = (\<lambda>_. Inl (Throw ''x'')), hd_decrypt = (\<lambda>_ d. d), hd_mt = (\<lambda>_ _. 0),
     hd_except = (\<lambda>_. []), hd_names = []\<rparr>"

definition hd_demo_request :: hd_request where
  "hd_demo_request = \<lparr>hq_method = [71], hq_domain = [97], hq_path = [98], hq_headers = [([72], [32, 120])]\<rparr>"


theorem httpd_header_overrun_witness: "parse_headers (replicate 8192 7) ([1, 2, 3] @ 10 # []) [] = Inl (Undefined ''read past the buffer'')"
  by (rule httpd_header_overrun) simp_all

theorem httpd_one_reply_witness: "one_reply (hd_process httpd_demo hd_demo_request)"
  by (rule httpd_one_reply) (simp add: httpd_demo_def file_sent_def is_archive_def str_def send_file_def)

definition httpd_demo_lost :: httpd_env where
  "httpd_demo_lost = httpd_demo\<lparr>hd_fetch := (\<lambda>_. Inr \<lparr>tf_version = 0, tf_compression = 0, tf_mime = [], tf_checksum = 0, tf_name = [], tf_size = 9, tf_chunks = [\<lparr>tc_size = 9, tc_seed = 0, tc_id = 3, tc_slices = []\<rparr>],
     tf_inline = []\<rparr>)\<rparr>"

theorem httpd_two_replies_witness:
  "hd_process httpd_demo_lost hd_demo_request = send_header Code_OK [98] 9 @ send_server_error hd_demo_request []"
proof -
  let ?l = "\<lparr>ln_id = 1, ln_seed = 2\<rparr>" and ?c = "\<lparr>tc_size = 9, tc_seed = 0, tc_id = 3, tc_slices = []\<rparr>"
  have "resolve_domain httpd_demo_lost hd_demo_request = Inr ?l" "resolve_path httpd_demo_lost ?l (hd_segments httpd_demo_lost (hq_path hd_demo_request)) = Inr ?l"
    by (simp_all add: resolve_domain_def httpd_demo_lost_def httpd_demo_def lift_exn_def)
  from httpd_two_replies [OF _ this, of _ ?c "[]" "Throw ''x''"] show ?thesis
    by (simp add: httpd_demo_lost_def httpd_demo_def hd_demo_request_def is_archive_def str_def)
qed

end
