(* ===== verification/Handshake.thy ===== *)
theory Handshake
  imports Node_Steps
begin

text \<open>
  Two nodes that meet for the first time, with every packet delivered once and in order: the exchange of keys and the authentication
  lead both connections to the state \<open>connected\<close>, each knows the other by the hash of its public key, and both have the same cipher. The nodes
  run the handlers of \<open>Connection\<close>; what one sends is what the other is given.
\<close>

section \<open>What the library provides\<close>

definition dh_ok :: "crypto \<Rightarrow> bool" where
  "dh_ok cr \<longleftrightarrow>
     (\<forall>i j. dh_shared cr (fst (dh_gen cr i)) (snd (dh_gen cr j)) = dh_shared cr (fst (dh_gen cr j)) (snd (dh_gen cr i)) \<and>
       length (dh_shared cr (fst (dh_gen cr i)) (snd (dh_gen cr j))) \<le> 56) \<and>
     (\<forall>n. dh_draw cr n \<noteq> None)"

definition handshake_ok :: "crypto \<Rightarrow> bool" where
  "handshake_ok cr \<longleftrightarrow> cipher_ok cr \<and> log2_ok cr \<and> dh_ok cr \<and> pk_size cr = 256 \<and> auth_size cr \<le> 2044"

definition key_pair :: "crypto \<Rightarrow> byte list \<Rightarrow> byte list \<Rightarrow> bool" where
  "key_pair cr pub priv \<longleftrightarrow> length pub = 256 \<and> (\<forall>d. length (pk_sign cr priv d) = sig_size cr \<and> pk_verify cr pub d (pk_sign cr priv d))"

lemma handshake_cipher: "handshake_ok cr \<Longrightarrow> cipher_ok cr"
  by (simp add: handshake_ok_def)

text \<open>The key both ends derive from the pairs they drew.\<close>

definition session_key :: "crypto \<Rightarrow> nat \<Rightarrow> nat \<Rightarrow> byte list" where
  "session_key cr i j =
     (let sk = dh_shared cr (fst (dh_gen cr i)) (snd (dh_gen cr j)) in sk @ replicate (56 - length sk) 0)"

lemma session_key_sym: "dh_ok cr \<Longrightarrow> session_key cr i j = session_key cr j i"
  by (simp add: session_key_def dh_ok_def)

lemma length_session_key [simp]: "dh_ok cr \<Longrightarrow> length (session_key cr i j) = 56"
  by (simp add: session_key_def dh_ok_def Let_def)

lemma dh_draw_length: "dh_draw cr n = Some i \<Longrightarrow> length (snd (dh_gen cr i)) = 56"
  by (rule dh_draw.raw_induct [where P = "\<lambda>cr n i. length (snd (dh_gen cr i)) = 56"]) (auto split: if_splits)

section \<open>Nodes that do not know each other\<close>

text \<open>Connection \<open>c\<close> of the node leads to an endpoint that is in no record. \<open>pub\<close> is the key of the node, \<open>pid\<close> the identity the other
  end will turn out to have.\<close>

definition meets :: "'h env \<Rightarrow> nat \<Rightarrow> byte list \<Rightarrow> sha1 \<Rightarrow> 'h node \<Rightarrow> bool" where
  "meets E c pub pid nd \<longleftrightarrow>
     nd_pub_key nd = pub \<and> key_pair (en_cr E) pub (nd_priv_key nd) \<and>
     bdb_ok (en_db E) \<and> (\<forall>h k v. db_put (en_db E) h k v \<noteq> None) \<and> peer_inv (en_cr E) (en_db E) (nd_peers nd) \<and>
     peer_fetch_by_endpoint (en_db E) (nd_peers nd) (c_remote_ep (nd_cons nd c)) = None \<and>
     sm_ok (nd_dist_to_con nd) \<and> sm_get (nd_dist_to_con nd) (xor pid (nd_id nd)) = None \<and> pid \<noteq> nd_id nd \<and>
     kb_wf (nd_kbuckets nd) \<and> kb_node_id (nd_kbuckets nd) = nd_id nd \<and>
     c_route_lookups (nd_cons nd c) = [] \<and> length (public_key (c_record (nd_cons nd c))) = 256"

text \<open>A key pair has been drawn; the shared key is known; the other end is authenticated.\<close>

definition drawn :: "'h env \<Rightarrow> nat \<Rightarrow> nat \<Rightarrow> 'h node \<Rightarrow> bool" where
  "drawn E c i nd \<longleftrightarrow> (\<exists>d. c_dh (nd_cons nd c) = Some d \<and> dh_priv d = fst (dh_gen (en_cr E) i) \<and> dh_pub d = snd (dh_gen (en_cr E) i))"

definition shares :: "nat \<Rightarrow> byte list \<Rightarrow> 'h node \<Rightarrow> bool" where
  "shares c key nd \<longleftrightarrow> (\<exists>d. c_dh (nd_cons nd c) = Some d \<and> dh_key d = key) \<and> c_bf (nd_cons nd c) = Some key \<and> length key = 56"

definition joined :: "nat \<Rightarrow> sha1 \<Rightarrow> byte list \<Rightarrow> 'h node \<Rightarrow> bool" where
  "joined c pid key nd \<longleftrightarrow> c_state (nd_cons nd c) = connected \<and> c_remote_id (nd_cons nd c) = pid \<and> c_bf (nd_cons nd c) = Some key \<and>
     sm_get (nd_dist_to_con nd) (xor pid (nd_id nd)) = Some c"

lemmas stage_defs = meets_def drawn_def shares_def joined_def

section \<open>Packets\<close>

definition dh_packet :: "crypto \<Rightarrow> nat \<Rightarrow> byte list \<Rightarrow> bool" where
  "dh_packet cr i b \<longleftrightarrow> length (snd (dh_gen cr i)) = 56 \<and> take 56 b = snd (dh_gen cr i) \<and> is_dh b"

definition sealed :: "crypto \<Rightarrow> byte list \<Rightarrow> byte list \<Rightarrow> proto_message_type \<Rightarrow> byte list" where
  "sealed cr key buf t = bf_encrypt cr key (frame_plain cr buf t)"

definition auth_packet_for :: "crypto \<Rightarrow> byte list \<Rightarrow> byte list \<Rightarrow> byte list \<Rightarrow> bool" where
  "auth_packet_for cr pub key b \<longleftrightarrow> (\<exists>a. b = sealed cr key (auth_enc a) auth_msg \<and> auth_ok cr a \<and> au_pubk a = pub \<and>
     pk_verify cr pub (auth_digest cr key (au_utc a)) (au_sig a))"

definition resp_packet :: "crypto \<Rightarrow> byte list \<Rightarrow> byte list \<Rightarrow> bool" where
  "resp_packet cr key b \<longleftrightarrow> (\<exists>r. r \<noteq> 0 \<and> b = sealed cr key [r] auth_resp_msg)"

lemma frame_encode_sealed: "length buf \<le> 2044 \<Longrightarrow> frame_encode cr (Some key) buf t = Inr (sealed cr key buf t)"
  using frame_plain_bounds [of buf cr t] by (simp add: frame_encode_def sealed_def Let_def)

lemma length_sealed: "cipher_ok cr \<Longrightarrow> length buf \<le> 2044 \<Longrightarrow> length (sealed cr key buf t) mod 8 = 0"
  using frame_plain_bounds [of buf cr t] by (simp add: cipher_ok_def sealed_def)

text \<open>Every hash has a nonzero rank.\<close>

lemma rank_of_nonzero:
  assumes "log2_ok cr"
  shows "rank_of cr h \<noteq> 0"
proof -
  have h: "0 \<le> big_log2 cr h" "h \<noteq> 0 \<longrightarrow> 0 < big_log2 cr h \<and> 2 ^ (nat (big_log2 cr h) - 1) \<le> unat h" "h = 0 \<longrightarrow> big_log2 cr h = 0"
    using assms by (simp_all add: log2_ok_def)
  have "big_log2 cr h \<le> 160"
  proof (cases "h = 0")
    case False
    then have "2 ^ (nat (big_log2 cr h) - 1) < (2 :: nat) ^ 160" using h(2) unsigned_less [of h, where ?'a = nat] by simp
    then have "nat (big_log2 cr h) - 1 < 160" by (simp only: power_strict_increasing_iff)
    then show ?thesis using h(1) by simp
  qed (use h(3) in simp)
  then have "0 < 161 - big_log2 cr h" "161 - big_log2 cr h < 256" using h(1) by simp_all
  moreover have "uint (of_int x :: byte) = x" if "0 < x" "x < 256" for x using that by (simp add: unsigned_of_int take_bit_int_eq_self)
  ultimately have "uint (rank_of cr h) = 161 - big_log2 cr h" unfolding rank_of_def by blast
  with \<open>0 < 161 - big_log2 cr h\<close> show ?thesis by auto
qed

section \<open>Steps of one connection\<close>

text \<open>The operation returns \<open>a\<close>, has sent the packets \<open>ps\<close> to the other end, and has left the number of queued packets alone.\<close>

definition steps_to :: "nat \<Rightarrow> ('h, 'a) act \<Rightarrow> 'a \<Rightarrow> byte list list \<Rightarrow> 'h node \<Rightarrow> 'h node \<Rightarrow> bool" where
  "steps_to c m a ps nd nd' \<longleftrightarrow> m nd = (Inr a, nd') \<and>
     nd_sent nd' = nd_sent nd @ map (Pair (c_remote_ep (nd_cons nd c))) ps \<and>
     c_remote_ep (nd_cons nd' c) = c_remote_ep (nd_cons nd c) \<and>
     length (c_in_queue (nd_cons nd' c)) = length (c_in_queue (nd_cons nd c))"

lemma steps_bindc: "steps_to c m a ps nd nd1 \<Longrightarrow> steps_to c (k a) b qs nd1 nd2 \<Longrightarrow> steps_to c (bindc m k) b (ps @ qs) nd nd2"
  by (simp add: steps_to_def bindc_def)

lemma steps_andthen: "steps_to c m a ps nd nd1 \<Longrightarrow> steps_to c k b qs nd1 nd2 \<Longrightarrow> steps_to c (andthen m k) b (ps @ qs) nd nd2"
  unfolding andthen_def by (rule steps_bindc)

lemma steps_goto_state:
  obtains nd' where "steps_to c (goto_state c st) () [] nd nd'" "c_state (nd_cons nd' c) = st"
    "meets E c pub pid nd \<Longrightarrow> meets E c pub pid nd'" "drawn E c i nd \<Longrightarrow> drawn E c i nd'" "shares c key nd \<Longrightarrow> shares c key nd'"
    "c_remote_id (nd_cons nd' c) = c_remote_id (nd_cons nd c)" "c_bf (nd_cons nd' c) = c_bf (nd_cons nd c)"
    "nd_dist_to_con nd' = nd_dist_to_con nd" "nd_id nd' = nd_id nd"
  by (rule that [of "snd (goto_state c st nd)"])
     (simp_all add: steps_to_def stage_defs goto_state_def bindc_def whenc_def andthen_def ret_def act_defs)

lemma steps_con_send:
  assumes "c_bf (nd_cons nd c) = Some key" "length buf \<le> 2044"
  shows "steps_to c (con_send E c buf t) () [sealed (en_cr E) key buf t] nd
    (nd\<lparr>nd_sent := nd_sent nd @ [(c_remote_ep (nd_cons nd c), sealed (en_cr E) key buf t)]\<rparr>)"
  using assms by (simp add: steps_to_def con_send_def bindc_def act_defs frame_encode_sealed)

lemma steps_generate_dh:
  assumes "dh_ok (en_cr E)"
  obtains i nd' where "steps_to c (generate_dh E c) () [] nd nd'" "drawn E c i nd'" "meets E c pub pid nd \<Longrightarrow> meets E c pub pid nd'"
    "length (snd (dh_gen (en_cr E) i)) = 56" "c_state (nd_cons nd' c) = c_state (nd_cons nd c)"
proof -
  obtain i where i: "dh_draw (en_cr E) (nd_dh_ctr nd) = Some i" using assms by (fastforce simp: dh_ok_def)
  then show thesis
    by (intro that [of "snd (generate_dh E c nd)" i])
       (simp_all add: steps_to_def stage_defs generate_dh_def bindc_def getc_def modc_def andthen_def act_defs dh_draw_length [OF i])
qed

lemma steps_send_dh:
  assumes "drawn E c i nd" "length (snd (dh_gen (en_cr E) i)) = 56"
  obtains b nd' where "steps_to c (send_dh E c) () [b] nd nd'" "dh_packet (en_cr E) i b" "drawn E c i nd'"
    "meets E c pub pid nd \<Longrightarrow> meets E c pub pid nd'" "c_state (nd_cons nd' c) = c_state (nd_cons nd c)"
proof -
  let ?z = "rand_seq (en_cr E) (nd_rand_ctr nd) mod 7 + 1"
  let ?b = "snd (dh_gen (en_cr E) i) @ replicate ?z 0"
  have "?z \<le> 7" by simp
  then have "(56 + ?z) mod 8 \<noteq> 0" by presburger
  then have "dh_packet (en_cr E) i ?b" using assms(2) by (simp add: dh_packet_def is_dh_def)
  then show thesis using assms(1)
    by (intro that [of ?b "snd (send_dh E c nd)"])
       (auto simp: steps_to_def stage_defs send_dh_def bindc_def getc_def modc_def andthen_def act_defs)
qed

text \<open>The other end's public key arrives: both ends derive the same key and this one authenticates itself under it.\<close>

lemma steps_send_auth:
  assumes "handshake_ok (en_cr E)" "meets E c pub pid nd" "shares c key nd"
  obtains b nd' where "steps_to c (send_auth E c) () [b] nd nd'" "auth_packet_for (en_cr E) pub key b" "meets E c pub pid nd'" "shares c key nd'"
    "c_state (nd_cons nd' c) = c_state (nd_cons nd c)"
proof -
  let ?cr = "en_cr E"
  define a where "a = \<lparr>au_sig = pk_sign ?cr (nd_priv_key nd) (auth_digest ?cr key (nd_now nd)), au_pubk = nd_pub_key nd, au_utc = nd_now nd,
      au_nonce = nd_nonce nd, au_ip = fst (local_endpoint nd (c_remote_ep (nd_cons nd c))), au_port = snd (local_endpoint nd (0, 0))\<rparr>"
  let ?b = "sealed ?cr key (auth_enc a) auth_msg"
  let ?nd = "nd\<lparr>nd_sent := nd_sent nd @ [(c_remote_ep (nd_cons nd c), ?b)]\<rparr>"
  have ok: "auth_ok ?cr a" and sig: "pk_verify ?cr pub (auth_digest ?cr key (au_utc a)) (au_sig a)"
    using assms(1, 2) by (simp_all add: handshake_ok_def meets_def key_pair_def auth_ok_def a_def auth_size_def)
  have len: "length (auth_enc a) \<le> 2044" using assms(1) length_auth_enc [OF ok] by (simp add: handshake_ok_def)
  have "pack_packet (replicate (auth_size ?cr) 0) (auth_write ?cr) a = Inr (auth_enc a)"
    by (intro pack_writes [of "auth_write ?cr", OF writes_auth [OF ok]]) (simp add: length_auth_enc [OF ok])
  moreover have "steps_to c (con_send E c (auth_enc a) auth_msg) () [?b] nd ?nd"
    using assms(3) len by (intro steps_con_send) (simp_all add: shares_def)
  ultimately have "steps_to c (send_auth E c) () [?b] nd ?nd"
    using assms(3) by (auto simp: steps_to_def shares_def send_auth_def bindc_def andthen_def getc_def assertc_def ret_def act_defs Let_def a_def)
  moreover have "auth_packet_for ?cr pub key ?b" using ok sig assms(2) by (auto simp: auth_packet_for_def a_def meets_def)
  ultimately show thesis using assms(2, 3) by (intro that [of ?b ?nd]) (simp_all add: stage_defs)
qed

lemma steps_key_exchange:
  assumes "handshake_ok (en_cr E)" "meets E c pub pid nd" "drawn E c i nd" "dh_packet (en_cr E) j b"
  obtains q nd' where "steps_to c (key_exchange E c b) () [q] nd nd'" "auth_packet_for (en_cr E) pub (session_key (en_cr E) i j) q"
    "meets E c pub pid nd'" "shares c (session_key (en_cr E) i j) nd'" "c_state (nd_cons nd' c) = c_state (nd_cons nd c)"
proof -
  let ?key = "session_key (en_cr E) i j"
  let ?nd = "snd (process_dh E c b nd)"
  obtain d where d: "c_dh (nd_cons nd c) = Some d" "dh_priv d = fst (dh_gen (en_cr E) i)" using assms(3) by (auto simp: drawn_def)
  have b: "take 56 b = snd (dh_gen (en_cr E) j)" "56 \<le> length b" using assms(4) by (auto simp: dh_packet_def is_dh_def)
  have k: "length ?key = 56" using assms(1) by (simp add: handshake_ok_def)
  have len: "length (dh_shared (en_cr E) (dh_priv d) (take 56 b)) \<le> 56" using assms(1) b(1) d(2) by (simp add: handshake_ok_def dh_ok_def)
  have sk: "(let sk = dh_shared (en_cr E) (dh_priv d) (take 56 b) in sk @ replicate (56 - length sk) 0) = ?key"
    by (simp add: b(1) d(2) session_key_def)
  have p: "process_dh E c b nd = (Inr True, nd\<lparr>nd_cons := (nd_cons nd)(c := (nd_cons nd c)\<lparr>c_dh := Some (d\<lparr>dh_key := ?key\<rparr>), c_bf := Some ?key,
      c_record := (c_record (nd_cons nd c))\<lparr>bf_key := ?key\<rparr>\<rparr>)\<rparr>)"
    using b(2) d(1) sk len by (simp add: process_dh_def andthen_def bindc_def assertc_def ret_def act_defs Let_def)
  then have s: "steps_to c (process_dh E c b) True [] nd ?nd" "meets E c pub pid ?nd" "shares c ?key ?nd" "c_state (nd_cons ?nd c) = c_state (nd_cons nd c)"
    using assms(2) k by (simp_all add: steps_to_def stage_defs)
  obtain q nd' where n: "steps_to c (send_auth E c) () [q] ?nd nd'" "auth_packet_for (en_cr E) pub ?key q" "meets E c pub pid nd'" "shares c ?key nd'"
    "c_state (nd_cons nd' c) = c_state (nd_cons ?nd c)"
    by (rule steps_send_auth [OF assms(1) s(2, 3)])
  have "steps_to c (key_exchange E c b) () ([] @ [q]) nd nd'"
    unfolding key_exchange_def by (rule steps_bindc [OF s(1)]) (simp add: whenc_def n(1))
  then show thesis using that n s(4) by simp
qed

text \<open>The other end has authenticated itself: it is put into the indexes and told its rank.\<close>

lemma steps_store_record:
  assumes "bdb_ok (en_db E)" "\<forall>h k v. db_put (en_db E) h k v \<noteq> None" "sha1_hash (en_cr E) (public_key (c_record (nd_cons nd c))) = c_remote_id (nd_cons nd c)"
  obtains h where "steps_to c (store_record E c) () [] nd (nd\<lparr>nd_peers := (nd_peers nd)\<lparr>pd_handle := h\<rparr>\<rparr>)"
proof -
  let ?k = "nd_cons nd c" and ?p = "nd_peers nd"
  obtain h where put: "db_put (en_db E) (pd_handle ?p) (peer_key ?p (c_remote_id ?k)) (c_record ?k) = Some h" using assms(2) by fastforce
  then have "db_get (en_db E) h (peer_key ?p (c_remote_id ?k)) = Some (c_record ?k)" using bdb_okD(1) [OF assms(1)] by simp
  then have "db_recs (en_db E) h \<noteq> []" using bdb_okD(2) [OF assms(1)] by force
  with put have "peer_store (en_cr E) (en_db E) (c_remote_id ?k) (c_record ?k) ?p = (Inr True, ?p\<lparr>pd_handle := h\<rparr>)"
    using assms(3) by (simp add: peer_store_def)
  then show thesis by (intro that [of h]) (simp add: steps_to_def store_record_def peers_store_def liftc_def bindc_def andthen_def ret_def act_defs)
qed

lemma steps_update_dist:
  assumes "log2_ok (en_cr E)" "kb_wf (nd_kbuckets nd)" "kb_node_id (nd_kbuckets nd) = nd_id nd"
    "sm_get (nd_dist_to_con nd) (xor pid (nd_id nd)) = None" "pid \<noteq> nd_id nd" "c_remote_id (nd_cons nd c) = pid"
  obtains kb where "steps_to c (update_dist_set E pid c) () [] nd
    (nd\<lparr>nd_dist_to_con := sm_put (xor pid (nd_id nd)) c (nd_dist_to_con nd), nd_kbuckets := kb\<rparr>)"
proof -
  have "pid \<noteq> kb_node_id (nd_kbuckets nd)" using assms(3, 5) by simp
  from get_bucket_for_target_ok(1) [OF assms(1, 2) this]
  obtain kb where "kb_add (en_cr E) c pid (nd_kbuckets nd) = (Inr (), kb)" by (simp add: kb_add_def)
  then show thesis using assms(4, 6)
    by (intro that [of kb]) (simp add: steps_to_def update_dist_set_def kbuckets_add_def liftc_def modc_def bindc_def andthen_def getc_def act_defs Let_def)
qed

lemma steps_upd_con:
  "c_remote_ep (f (nd_cons nd c)) = c_remote_ep (nd_cons nd c) \<Longrightarrow> length (c_in_queue (f (nd_cons nd c))) = length (c_in_queue (nd_cons nd c)) \<Longrightarrow>
   steps_to c (upd_con c f) () [] nd (nd\<lparr>nd_cons := (nd_cons nd)(c := f (nd_cons nd c))\<rparr>)"
  by (simp add: steps_to_def upd_con_def)

lemma steps_ret: "steps_to c (ret a) a [] nd nd"
  by (simp add: steps_to_def ret_def)

definition accept_tail :: "'h env \<Rightarrow> nat \<Rightarrow> sha1 \<Rightarrow> (sha1, route_lookup_request) std_map \<Rightarrow> ('h, bool) act" where
  "accept_tail E c pid ls = andthen (send_auth_response E c True) (andthen (upd_rec c (\<lambda>r. r\<lparr>connected_flag := 1\<rparr>)) (andthen (store_record E c)
      (andthen (update_dist_set E pid c) (andthen (goto_state c connected) (andthen (resend_lookups E c ls) (ret True))))))"

lemma accept_auth_tail: "accept_auth E c key a = bindc getc (\<lambda>nd.
     andthen (upd_con c (\<lambda>k. k\<lparr>c_behind_nat := (fst (c_public_ep k) \<noteq> fst (c_remote_ep k))\<rparr>))
    (andthen (set_remote_id c (sha1_hash (en_cr E) (au_pubk a)))
    (bindc (get_con c) (\<lambda>k.
     bindc (liftres (peer_fetch (en_db E) (nd_peers nd) (c_remote_id k) (c_record k))) (\<lambda>(_, r).
     andthen (upd_con c (\<lambda>k. k\<lparr>c_record := r\<lparr>bf_key := take 56 key\<rparr>\<rparr>))
    (if length (au_pubk a) > 256 then raise (Throw ''Attempt to write beyond end of buffer'')
     else andthen (upd_rec c (auth_record (en_cr E) (nd_now nd) (c_remote_ep k) key a)) (accept_tail E c (c_remote_id k) (c_route_lookups k))))))))"
  by (simp only: accept_auth_def accept_tail_def)

lemma steps_join:
  assumes "handshake_ok (en_cr E)" "meets E c pub pid nd" "c_bf (nd_cons nd c) = Some key" "c_remote_id (nd_cons nd c) = pid"
    "sha1_hash (en_cr E) (public_key (c_record (nd_cons nd c))) = pid" "rank (c_record (nd_cons nd c)) \<noteq> 0"
  obtains b nd' where "steps_to c (accept_tail E c pid []) True [b] nd nd'"
    "resp_packet (en_cr E) key b" "joined c pid key nd'"
proof -
  let ?b = "sealed (en_cr E) key [rank (c_record (nd_cons nd c))] auth_resp_msg"
  define nd1 where "nd1 = nd\<lparr>nd_sent := nd_sent nd @ [(c_remote_ep (nd_cons nd c), ?b)]\<rparr>"
  have s1: "steps_to c (send_auth_response E c True) () [?b] nd nd1"
    using steps_con_send [OF assms(3), of "[rank (c_record (nd_cons nd c))]" E auth_resp_msg]
    by (simp add: nd1_def send_auth_response_def steps_to_def bindc_def get_con_def)
  define nd2 where "nd2 = nd1\<lparr>nd_cons := (nd_cons nd1)(c := (nd_cons nd1 c)\<lparr>c_record := (c_record (nd_cons nd1 c))\<lparr>connected_flag := 1\<rparr>\<rparr>)\<rparr>"
  have s2: "steps_to c (upd_rec c (\<lambda>r. r\<lparr>connected_flag := 1\<rparr>)) () [] nd1 nd2"
    unfolding upd_rec_def nd2_def by (rule steps_upd_con) simp_all
  obtain h where s3: "steps_to c (store_record E c) () [] nd2 (nd2\<lparr>nd_peers := (nd_peers nd2)\<lparr>pd_handle := h\<rparr>\<rparr>)"
    by (rule steps_store_record [of E nd2 c]) (use assms in \<open>auto simp: meets_def nd2_def nd1_def\<close>)
  define nd3 where "nd3 = nd2\<lparr>nd_peers := (nd_peers nd2)\<lparr>pd_handle := h\<rparr>\<rparr>"
  obtain kb where s4: "steps_to c (update_dist_set E pid c) () [] nd3
    (nd3\<lparr>nd_dist_to_con := sm_put (xor pid (nd_id nd3)) c (nd_dist_to_con nd3), nd_kbuckets := kb\<rparr>)"
    by (rule steps_update_dist [of E nd3 pid c]) (use assms in \<open>simp_all add: handshake_ok_def meets_def nd3_def nd2_def nd1_def\<close>)
  define nd4 where "nd4 = nd3\<lparr>nd_dist_to_con := sm_put (xor pid (nd_id nd3)) c (nd_dist_to_con nd3), nd_kbuckets := kb\<rparr>"
  obtain nd' where s5: "steps_to c (goto_state c connected) () [] nd4 nd'" "c_state (nd_cons nd' c) = connected"
    "c_remote_id (nd_cons nd' c) = c_remote_id (nd_cons nd4 c)" "c_bf (nd_cons nd' c) = c_bf (nd_cons nd4 c)"
    "nd_dist_to_con nd' = nd_dist_to_con nd4" "nd_id nd' = nd_id nd4"
    by (rule steps_goto_state)
  have "joined c pid key nd'"
    using s5(2-) assms(2, 3, 4) by (simp add: joined_def meets_def sm_get_put nd4_def nd3_def nd2_def nd1_def)
  moreover have "resp_packet (en_cr E) key ?b" using assms(6) by (auto simp: resp_packet_def)
  moreover note steps_andthen [OF s1 steps_andthen [OF s2 steps_andthen [OF s3 [folded nd3_def] steps_andthen [OF s4 [folded nd4_def] steps_andthen [OF s5(1) steps_andthen [OF steps_ret steps_ret]]]]]]
  ultimately show thesis by (intro that [of ?b nd']) (simp_all add: accept_tail_def)
qed

lemma steps_handle_auth:
  assumes "handshake_ok (en_cr E)" "meets E c pub pid nd" "shares c key nd"
    "auth_ok (en_cr E) a" "au_pubk a = peer" "pid = sha1_hash (en_cr E) peer" "pk_verify (en_cr E) peer (auth_digest (en_cr E) key (au_utc a)) (au_sig a)"
  obtains b nd' where "steps_to c (handle_auth_msg E c (auth_enc a)) True [b] nd nd'" "resp_packet (en_cr E) key b" "joined c pid key nd'"
proof -
  let ?k = "nd_cons nd c"
  define r where "r = auth_record (en_cr E) (nd_now nd) (c_remote_ep ?k) key a ((c_record ?k)\<lparr>bf_key := take 56 key\<rparr>)"
  define nd1 where "nd1 = nd\<lparr>nd_cons := (nd_cons nd)(c := ?k\<lparr>c_public_ep := (au_ip a, au_port a), c_behind_nat := (au_ip a \<noteq> fst (c_remote_ep ?k)),
     c_remote_id := pid, c_record := r\<rparr>)\<rparr>"
  have ne: "key \<noteq> []" using assms(3) by (auto simp: shares_def)
  obtain d where d: "c_dh ?k = Some d" "dh_key d = key" "c_bf ?k = Some key" using assms(3) by (auto simp: shares_def)
  have len: "length peer = 256" using assms(1, 4, 5) by (simp add: handshake_ok_def auth_ok_def)
  have pk: "public_key r = peer" "rank r \<noteq> 0"
    using assms(1, 2, 5) len by (simp_all add: r_def auth_record_def overwrite_def meets_def rank_of_nonzero handshake_ok_def)
  have m: "meets E c pub pid nd1" using assms(2) pk(1) len by (simp add: meets_def nd1_def)
  obtain b nd' where j: "steps_to c (accept_tail E c pid []) True [b] nd1 nd'"
    "resp_packet (en_cr E) key b" "joined c pid key nd'"
    by (rule steps_join [OF assms(1) m]) (use d(3) pk assms(6) in \<open>simp_all add: nd1_def\<close>)
  have u: "unpack_packet (auth_read (en_cr E)) auth_zero (auth_enc a) = (Inr (), a)"
    using unpack_reads [OF reads_auth [OF assms(4)], of auth_zero "[]"] by simp
  have f: "peer_fetch (en_db E) (nd_peers nd) i q = Inr (False, q)" for i q
    using assms(2) peer_fetch_never_finds by (auto simp: meets_def)
  have "handle_auth_msg E c (auth_enc a) nd = accept_auth E c key a (nd\<lparr>nd_cons := (nd_cons nd)(c := ?k\<lparr>c_public_ep := (au_ip a, au_port a)\<rparr>)\<rparr>)"
    using u d ne assms(5, 7) by (simp add: handle_auth_msg_def unpackc_def bindc_def andthen_def act_defs)
  also have "\<dots> = accept_tail E c pid [] nd1"
    using f assms(2, 5, 6) len
    by (simp add: accept_auth_tail set_remote_id_def bindc_def andthen_def getc_def act_defs nd1_def r_def meets_def)
  finally show thesis using j by (intro that [of b nd']) (simp_all add: steps_to_def nd1_def)
qed

section \<open>Packets handled\<close>

lemma steps_decode:
  assumes "cipher_ok (en_cr E)" "c_bf (nd_cons nd c) = Some key" "length buf \<le> 2044"
  obtains nd1 where "decode_packet E c (sealed (en_cr E) key buf t) nd =
      bindc (dispatch E c (frame_plain (en_cr E) buf t) (frame_pad (length buf)) t) (\<lambda>ok. ret (ok, frame_plain (en_cr E) buf t)) nd1"
    "steps_to c (\<lambda>_. (Inr (), nd1)) () [] nd nd1" "meets E c pub pid nd \<Longrightarrow> meets E c pub pid nd1" "shares c key nd \<Longrightarrow> shares c key nd1"
    "joined c pid key nd \<Longrightarrow> joined c pid key nd1" "nd_chans nd1 = nd_chans nd" "nd_next_chan nd1 = nd_next_chan nd" "nd_services nd1 = nd_services nd"
    "nd_events nd1 = nd_events nd" "c_channels (nd_cons nd1 c) = c_channels (nd_cons nd c)"
proof -
  let ?k = "nd_cons nd c" and ?p = "frame_plain (en_cr E) buf t"
  define nd1 where "nd1 = nd\<lparr>nd_cons := (nd_cons nd)(c := ?k\<lparr>c_record := (c_record ?k)\<lparr>last_contact := nd_now nd\<rparr>,
      c_in_queue := (case c_in_queue ?k of [] \<Rightarrow> [] | _ # r \<Rightarrow> ?p # r)\<rparr>)\<rparr>"
  have "frame_open (en_cr E) key (sealed (en_cr E) key buf t) = Inr (?p, Some (msg_code t, frame_pad (length buf)))"
    using frame_open_plain assms(1, 3) by (simp add: sealed_def)
  then have "decode_packet E c (sealed (en_cr E) key buf t) nd = bindc (dispatch E c ?p (frame_pad (length buf)) t) (\<lambda>ok. ret (ok, ?p)) nd1"
    using assms(2) by (simp add: decode_packet_def set_front_def bindc_def andthen_def getc_def act_defs nd1_def)
  then show thesis by (rule that) (simp_all add: steps_to_def stage_defs nd1_def split: list.splits)
qed

lemma steps_decode_auth:
  assumes "handshake_ok (en_cr E)" "meets E c pub pid nd" "shares c key nd" "auth_packet_for (en_cr E) peer key b" "pid = sha1_hash (en_cr E) peer"
  obtains q b' nd' where "steps_to c (decode_packet E c b) (True, b') [q] nd nd'" "resp_packet (en_cr E) key q" "joined c pid key nd'"
    "length b mod 8 = 0"
proof -
  obtain a where a: "b = sealed (en_cr E) key (auth_enc a) auth_msg" "auth_ok (en_cr E) a" "au_pubk a = peer"
    "pk_verify (en_cr E) peer (auth_digest (en_cr E) key (au_utc a)) (au_sig a)"
    using assms(4) by (auto simp: auth_packet_for_def)
  have len: "length (auth_enc a) \<le> 2044" using assms(1) length_auth_enc [OF a(2)] by (simp add: handshake_ok_def)
  have bf: "c_bf (nd_cons nd c) = Some key" using assms(3) by (simp add: shares_def)
  obtain nd1 where d: "decode_packet E c b nd = bindc (dispatch E c (frame_plain (en_cr E) (auth_enc a) auth_msg) (frame_pad (length (auth_enc a))) auth_msg)
      (\<lambda>ok. ret (ok, frame_plain (en_cr E) (auth_enc a) auth_msg)) nd1"
    "steps_to c (\<lambda>_. (Inr (), nd1)) () [] nd nd1" "meets E c pub pid nd \<Longrightarrow> meets E c pub pid nd1" "shares c key nd \<Longrightarrow> shares c key nd1"
    unfolding a(1) by (rule steps_decode [where t = auth_msg and pub = pub and pid = pid, OF handshake_cipher [OF assms(1)] bf len]) blast
  obtain q nd' where h: "steps_to c (handle_auth_msg E c (auth_enc a)) True [q] nd1 nd'" "resp_packet (en_cr E) key q" "joined c pid key nd'"
    by (rule steps_handle_auth [OF assms(1) d(3) [OF assms(2)] d(4) [OF assms(3)] a(2, 3) assms(5) a(4)])
  have "steps_to c (decode_packet E c b) (True, frame_plain (en_cr E) (auth_enc a) auth_msg) [q] nd nd'"
    using h(1) d(1, 2) frame_body_plain [OF len, of "en_cr E" auth_msg] by (simp add: steps_to_def dispatch_def bindc_def liftres_def ret_def)
  then show thesis using h(2, 3) length_sealed [OF _ len] assms(1) a(1) by (intro that) (simp_all add: handshake_ok_def)
qed

lemma steps_decode_resp:
  assumes "handshake_ok (en_cr E)" "joined c pid key nd" "resp_packet (en_cr E) key b"
  obtains b' nd' where "steps_to c (decode_packet E c b) (True, b') [] nd nd'" "joined c pid key nd'" "length b mod 8 = 0"
proof -
  obtain r where r: "r \<noteq> 0" "b = sealed (en_cr E) key [r] auth_resp_msg" using assms(3) by (auto simp: resp_packet_def)
  let ?p = "frame_plain (en_cr E) [r] auth_resp_msg"
  have bf: "c_bf (nd_cons nd c) = Some key" using assms(2) by (simp add: joined_def)
  have len: "length [r] \<le> 2044" by simp
  obtain nd1 where d: "decode_packet E c b nd = bindc (dispatch E c ?p (frame_pad (length [r])) auth_resp_msg) (\<lambda>ok. ret (ok, ?p)) nd1"
    "steps_to c (\<lambda>_. (Inr (), nd1)) () [] nd nd1" "joined c pid key nd \<Longrightarrow> joined c pid key nd1"
    unfolding r(2) by (rule steps_decode [where t = auth_resp_msg and pub = "[]" and pid = pid, OF handshake_cipher [OF assms(1)] bf len]) blast
  have p4: "?p ! 4 = r" by (simp add: frame_plain_def Let_def nth_append)
  let ?nd' = "nd1\<lparr>nd_cons := (nd_cons nd1)(c := (nd_cons nd1 c)\<lparr>c_record := (c_record (nd_cons nd1 c))\<lparr>published_rank := r\<rparr>\<rparr>)\<rparr>"
  have j: "joined c pid key nd1" by (rule d(3) [OF assms(2)])
  then have "handle_auth_resp_msg E c r nd1 = (Inr True, ?nd')"
    using r(1) by (simp add: handle_auth_resp_msg_def goto_state_def whenc_def bindc_def andthen_def ret_def act_defs joined_def)
  then have "steps_to c (decode_packet E c b) (True, ?p) [] nd ?nd'"
    using d(1, 2) frame_body_plain [OF len, of "en_cr E" auth_resp_msg] p4 by (simp add: steps_to_def dispatch_def bindc_def liftres_def ret_def)
  then show thesis using j length_sealed [OF _ len] assms(1) r(2) by (intro that [of ?p ?nd']) (simp_all add: handshake_ok_def joined_def)
qed

lemma andthen_assertc: "b \<Longrightarrow> andthen (assertc b t) m = m"
  by (rule ext) (simp add: assertc_def andthen_def bindc_def ret_def)

lemma steps_get_con: "steps_to c (k (nd_cons nd c)) a ps nd nd' \<Longrightarrow> steps_to c (bindc (get_con c) k) a ps nd nd'"
  by (simp add: steps_to_def bindc_def get_con_def)

text \<open>The four steps of an end: it is told to connect, or meets a key while it is idle; it gets the key it waits for; it gets the
  other's authentication; it gets the answer to its own.\<close>

lemma steps_advance:
  assumes "handshake_ok (en_cr E)" "meets E c pub pid nd" "c_state (nd_cons nd c) = uninit" "c_advance_count (nd_cons nd c) + 1 < 10"
  obtains i b nd' where "steps_to c (advance E c) () [b] nd nd'" "dh_packet (en_cr E) i b" "drawn E c i nd'" "meets E c pub pid nd'"
    "c_state (nd_cons nd' c) = generated_dh"
proof -
  let ?nd = "nd\<lparr>nd_cons := (nd_cons nd)(c := (nd_cons nd c)\<lparr>c_advance_count := c_advance_count (nd_cons nd c) + 1\<rparr>)\<rparr>"
  have dh: "dh_ok (en_cr E)" using assms(1) by (simp add: handshake_ok_def)
  have m: "meets E c pub pid ?nd" using assms(2) by (simp add: meets_def)
  obtain i nd1 where g: "steps_to c (generate_dh E c) () [] ?nd nd1" "drawn E c i nd1" "meets E c pub pid ?nd \<Longrightarrow> meets E c pub pid nd1"
    "length (snd (dh_gen (en_cr E) i)) = 56" by (rule steps_generate_dh [OF dh]) blast
  obtain b nd2 where d: "steps_to c (send_dh E c) () [b] nd1 nd2" "dh_packet (en_cr E) i b" "drawn E c i nd2"
    "meets E c pub pid nd1 \<Longrightarrow> meets E c pub pid nd2" by (rule steps_send_dh [OF g(2, 4)]) blast
  obtain nd' where t: "steps_to c (goto_state c generated_dh) () [] nd2 nd'" "c_state (nd_cons nd' c) = generated_dh"
    "meets E c pub pid nd2 \<Longrightarrow> meets E c pub pid nd'" "drawn E c i nd2 \<Longrightarrow> drawn E c i nd'"
    by (rule steps_goto_state) blast
  have u: "steps_to c (upd_con c (\<lambda>k. k\<lparr>c_advance_count := c_advance_count k + 1\<rparr>)) () [] nd ?nd" by (rule steps_upd_con) simp_all
  have "\<not> 10 \<le> c_advance_count (nd_cons nd c) + 1" using assms(4) by (simp add: not_le)
  then have "steps_to c (bindc (get_con c) (\<lambda>k. if 10 \<le> c_advance_count k then goto_state c failed
     else case c_state k of failed \<Rightarrow> ret ()
     | uninit \<Rightarrow> andthen (generate_dh E c) (andthen (send_dh E c) (goto_state c generated_dh))
     | generated_dh \<Rightarrow> send_dh E c | received_dh \<Rightarrow> andthen (send_dh E c) (send_auth E c)
     | authenticated \<Rightarrow> send_auth_response E c True | connected \<Rightarrow> upd_con c (\<lambda>k. k\<lparr>c_advance_count := 0\<rparr>))) () ([] @ [b] @ []) ?nd nd'"
    using assms(3) steps_andthen [OF g(1) steps_andthen [OF d(1) t(1)]] by (intro steps_get_con) simp
  from steps_andthen [OF u this] have "steps_to c (advance E c) () [b] nd nd'" by (simp add: advance_def)
  then show thesis using that d(2, 3, 4) t(2-4) g(3) m by blast
qed

lemma steps_meet_key:
  assumes "handshake_ok (en_cr E)" "meets E c pub pid nd" "c_state (nd_cons nd c) = uninit" "dh_packet (en_cr E) j b"
  obtains i p q nd' where "steps_to c (con_handle_packet E c b) () [p, q] nd nd'" "dh_packet (en_cr E) i p"
    "auth_packet_for (en_cr E) pub (session_key (en_cr E) i j) q" "shares c (session_key (en_cr E) i j) nd'" "meets E c pub pid nd'"
    "c_state (nd_cons nd' c) = received_dh"
proof -
  have dh: "dh_ok (en_cr E)" using assms(1) by (simp add: handshake_ok_def)
  obtain i nd1 where g: "steps_to c (generate_dh E c) () [] nd nd1" "drawn E c i nd1" "meets E c pub pid nd \<Longrightarrow> meets E c pub pid nd1"
    "length (snd (dh_gen (en_cr E) i)) = 56" by (rule steps_generate_dh [OF dh]) blast
  obtain p nd2 where d: "steps_to c (send_dh E c) () [p] nd1 nd2" "dh_packet (en_cr E) i p" "drawn E c i nd2"
    "meets E c pub pid nd1 \<Longrightarrow> meets E c pub pid nd2" by (rule steps_send_dh [OF g(2, 4)]) blast
  obtain q nd3 where k: "steps_to c (key_exchange E c b) () [q] nd2 nd3" "auth_packet_for (en_cr E) pub (session_key (en_cr E) i j) q"
    "meets E c pub pid nd3" "shares c (session_key (en_cr E) i j) nd3"
    by (rule steps_key_exchange [OF assms(1) d(4) [OF g(3) [OF assms(2)]] d(3) assms(4)]) blast
  obtain nd' where t: "steps_to c (goto_state c received_dh) () [] nd3 nd'" "c_state (nd_cons nd' c) = received_dh"
    "meets E c pub pid nd3 \<Longrightarrow> meets E c pub pid nd'" "shares c (session_key (en_cr E) i j) nd3 \<Longrightarrow> shares c (session_key (en_cr E) i j) nd'"
    by (rule steps_goto_state) blast
  have "steps_to c (handle_unknown E c b) () ([] @ [p] @ [q] @ []) nd nd'"
    unfolding handle_unknown_def using assms(3, 4) steps_andthen [OF g(1) steps_andthen [OF d(1) steps_andthen [OF k(1) t(1)]]]
    by (intro steps_get_con) (simp add: andthen_assertc dh_packet_def)
  then have "steps_to c (con_handle_packet E c b) () [p, q] nd nd'"
    using assms(2, 3) by (simp add: steps_to_def con_handle_packet_def call_bound_def Let_def bindc_def getc_def meets_def numeral_3_eq_3)
  then show thesis using that d(2) k(2-4) t(2-4) by blast
qed

lemma steps_get_key:
  assumes "handshake_ok (en_cr E)" "meets E c pub pid nd" "c_state (nd_cons nd c) = generated_dh" "drawn E c i nd" "dh_packet (en_cr E) j b"
  obtains q nd' where "steps_to c (con_handle_packet E c b) () [q] nd nd'" "auth_packet_for (en_cr E) pub (session_key (en_cr E) i j) q"
    "shares c (session_key (en_cr E) i j) nd'" "meets E c pub pid nd'" "c_state (nd_cons nd' c) = received_dh"
proof -
  obtain q nd1 where k: "steps_to c (key_exchange E c b) () [q] nd nd1" "auth_packet_for (en_cr E) pub (session_key (en_cr E) i j) q"
    "meets E c pub pid nd1" "shares c (session_key (en_cr E) i j) nd1"
    by (rule steps_key_exchange [OF assms(1, 2, 4, 5)]) blast
  obtain nd' where t: "steps_to c (goto_state c received_dh) () [] nd1 nd'" "c_state (nd_cons nd' c) = received_dh"
    "meets E c pub pid nd1 \<Longrightarrow> meets E c pub pid nd'" "shares c (session_key (en_cr E) i j) nd1 \<Longrightarrow> shares c (session_key (en_cr E) i j) nd'"
    by (rule steps_goto_state) blast
  have "steps_to c (handle_generated_dh E c b) () ([q] @ []) nd nd'"
    unfolding handle_generated_dh_def using assms(3, 5) steps_andthen [OF k(1) t(1)]
    by (intro steps_get_con) (simp add: andthen_assertc dh_packet_def)
  then have "steps_to c (con_handle_packet E c b) () [q] nd nd'"
    using assms(3) by (simp add: steps_to_def con_handle_packet_def Let_def bindc_def getc_def)
  then show thesis using that k(2-4) t(2-4) by blast
qed

lemma steps_get_auth:
  assumes "handshake_ok (en_cr E)" "meets E c pub pid nd" "c_state (nd_cons nd c) = received_dh" "shares c key nd"
    "auth_packet_for (en_cr E) peer key b" "pid = sha1_hash (en_cr E) peer"
  obtains q nd' where "steps_to c (con_handle_packet E c b) () [q] nd nd'" "resp_packet (en_cr E) key q" "joined c pid key nd'"
proof -
  obtain q b' nd' where d: "steps_to c (decode_packet E c b) (True, b') [q] nd nd'" "resp_packet (en_cr E) key q" "joined c pid key nd'"
    "length b mod 8 = 0" by (rule steps_decode_auth [OF assms(1, 2, 4, 5, 6)])
  have "\<not> is_dh b" using d(4) by (simp add: is_dh_def)
  then have "steps_to c (con_handle_packet E c b) () [q] nd nd'"
    using assms(3) d(1, 4) by (simp add: steps_to_def con_handle_packet_def handle_received_dh_def andthen_assertc Let_def bindc_def getc_def get_con_def ret_def)
  then show thesis using that d(2, 3) by blast
qed

lemma steps_get_resp:
  assumes "handshake_ok (en_cr E)" "joined c pid key nd" "resp_packet (en_cr E) key b"
  obtains nd' where "steps_to c (con_handle_packet E c b) () [] nd nd'" "joined c pid key nd'"
proof -
  obtain b' nd' where d: "steps_to c (decode_packet E c b) (True, b') [] nd nd'" "joined c pid key nd'" "length b mod 8 = 0"
    by (rule steps_decode_resp [OF assms])
  have "steps_to c (handle_connected (Suc n) E c b) () [] nd nd'" for n
    using assms(2) d(1, 3) by (simp add: steps_to_def joined_def andthen_assertc bindc_def get_con_def ret_def)
  then have "steps_to c (con_handle_packet E c b) () [] nd nd'"
    using assms(2) by (simp add: steps_to_def joined_def con_handle_packet_def call_bound_def Let_def bindc_def getc_def numeral_3_eq_3)
  then show thesis using that d(2) by blast
qed

section \<open>Two ends in conversation\<close>

text \<open>A packet is queued and the queue is processed, as the read and the process loops of the node do.\<close>

definition recv :: "'h env \<Rightarrow> nat \<Rightarrow> byte list \<Rightarrow> ('h, unit) act" where
  "recv E c b = andthen (post_packet c b) (process_next_message E c)"

fun recv_all :: "'h env \<Rightarrow> nat \<Rightarrow> byte list list \<Rightarrow> ('h, unit) act" where
  "recv_all E c [] = ret ()"
| "recv_all E c (b # bs) = andthen (recv E c b) (recv_all E c bs)"

text \<open>What an operation sends to the other end of connection \<open>c\<close>.\<close>

definition sends :: "nat \<Rightarrow> ('h, unit) act \<Rightarrow> 'h node \<Rightarrow> (byte list list \<times> 'h node) res" where
  "sends c m nd = (case m (nd\<lparr>nd_sent := []\<rparr>) of
     (Inl e, _) \<Rightarrow> Inl e
   | (Inr _, nd') \<Rightarrow> Inr (map snd (filter (\<lambda>(ep, _). ep = c_remote_ep (nd_cons nd c)) (nd_sent nd')), nd'))"

text \<open>\<open>b\<close> is given what \<open>a\<close> sent and the other way round, until one has nothing to say.\<close>

fun converse :: "nat \<Rightarrow> 'h env \<Rightarrow> nat \<Rightarrow> 'h node \<Rightarrow> nat \<Rightarrow> 'h node \<Rightarrow> byte list list \<Rightarrow> ('h node \<times> 'h node) res" where
  "converse n E a A b B [] = Inr (A, B)"
| "converse 0 E a A b B (p # ps) = Inl Out_of_fuel"
| "converse (Suc n) E a A b B (p # ps) =
     (case sends b (recv_all E b (p # ps)) B of
        Inl e \<Rightarrow> Inl e
      | Inr (qs, B1) \<Rightarrow> (case converse n E b B1 a A qs of Inl e \<Rightarrow> Inl e | Inr (B2, A2) \<Rightarrow> Inr (A2, B2)))"

definition setq :: "nat \<Rightarrow> byte list list \<Rightarrow> 'h node \<Rightarrow> 'h node" where
  "setq c q nd = nd\<lparr>nd_cons := (nd_cons nd)(c := (nd_cons nd c)\<lparr>c_in_queue := q\<rparr>)\<rparr>"

lemma setq_simps [simp]:
  "meets E c pub pid (setq c q nd) = meets E c pub pid nd" "drawn E c i (setq c q nd) = drawn E c i nd"
  "shares c key (setq c q nd) = shares c key nd" "joined c pid key (setq c q nd) = joined c pid key nd"
  "c_state (nd_cons (setq c q nd) c) = c_state (nd_cons nd c)" "c_in_queue (nd_cons (setq c q nd) c) = q"
  by (simp_all add: setq_def stage_defs)

lemma sent_simps [simp]:
  "meets E c pub pid (nd\<lparr>nd_sent := x\<rparr>) = meets E c pub pid nd" "drawn E c i (nd\<lparr>nd_sent := x\<rparr>) = drawn E c i nd"
  "shares c key (nd\<lparr>nd_sent := x\<rparr>) = shares c key nd" "joined c pid key (nd\<lparr>nd_sent := x\<rparr>) = joined c pid key nd"
  by (simp_all add: stage_defs)

lemma steps_recv:
  assumes "c_in_queue (nd_cons nd c) = []" "steps_to c (con_handle_packet E c b) () ps (setq c [b] nd) nd1"
  shows "steps_to c (recv E c b) () ps nd (setq c [] nd1)"
proof -
  have "length (c_in_queue (nd_cons nd1 c)) = 1" using assms(2) by (simp add: steps_to_def setq_def)
  then have "tl (c_in_queue (nd_cons nd1 c)) = []" by (cases "c_in_queue (nd_cons nd1 c)") auto
  with assms show ?thesis
    by (simp add: steps_to_def recv_def process_next_message_def post_packet_def bindc_def andthen_def act_defs setq_def)
qed

lemma sends_steps: "steps_to c m () ps (nd\<lparr>nd_sent := []\<rparr>) nd' \<Longrightarrow> sends c m nd = Inr (ps, nd')"
  by (simp add: steps_to_def sends_def comp_def)

lemma steps_recv_all:
  "steps_to c (recv_all E c []) () [] nd nd"
  "steps_to c (recv E c b) () ps nd nd1 \<Longrightarrow> steps_to c (recv_all E c bs) () qs nd1 nd2 \<Longrightarrow> steps_to c (recv_all E c (b # bs)) () (ps @ qs) nd nd2"
  by (simp_all add: steps_ret steps_andthen)

text \<open>The turns of the conversation.\<close>

lemma turn_start:
  assumes "handshake_ok (en_cr E)" "meets E c pub pid nd" "c_state (nd_cons nd c) = uninit" "c_advance_count (nd_cons nd c) + 1 < 10" "c_in_queue (nd_cons nd c) = []"
  obtains i p nd' where "sends c (advance E c) nd = Inr ([p], nd')" "dh_packet (en_cr E) i p" "drawn E c i nd'" "meets E c pub pid nd'"
    "c_state (nd_cons nd' c) = generated_dh" "c_in_queue (nd_cons nd' c) = []"
proof -
  obtain i p nd' where a: "steps_to c (advance E c) () [p] (nd\<lparr>nd_sent := []\<rparr>) nd'" "dh_packet (en_cr E) i p" "drawn E c i nd'" "meets E c pub pid nd'"
    "c_state (nd_cons nd' c) = generated_dh"
    by (rule steps_advance [OF assms(1), of c pub pid "nd\<lparr>nd_sent := []\<rparr>"]) (use assms(2-4) in simp_all)
  moreover have "c_in_queue (nd_cons nd' c) = []" using a(1) assms(5) by (simp add: steps_to_def)
  ultimately show thesis by (intro that [OF sends_steps])
qed

lemma turn_key:
  assumes "handshake_ok (en_cr E)" "meets E c pub pid nd" "c_state (nd_cons nd c) = uninit" "c_in_queue (nd_cons nd c) = []" "dh_packet (en_cr E) i p"
  obtains j q r nd' where "sends c (recv_all E c [p]) nd = Inr ([q, r], nd')" "dh_packet (en_cr E) j q" "auth_packet_for (en_cr E) pub (session_key (en_cr E) j i) r"
    "shares c (session_key (en_cr E) j i) nd'" "meets E c pub pid nd'" "c_state (nd_cons nd' c) = received_dh" "c_in_queue (nd_cons nd' c) = []"
proof -
  let ?nd = "setq c [p] (nd\<lparr>nd_sent := []\<rparr>)"
  obtain j q r nd' where b: "steps_to c (con_handle_packet E c p) () [q, r] ?nd nd'" "dh_packet (en_cr E) j q"
    "auth_packet_for (en_cr E) pub (session_key (en_cr E) j i) r" "shares c (session_key (en_cr E) j i) nd'" "meets E c pub pid nd'" "c_state (nd_cons nd' c) = received_dh"
    by (rule steps_meet_key [OF assms(1), of c pub pid ?nd i p]) (use assms(2, 3, 5) in simp_all)
  have "sends c (recv_all E c [p]) nd = Inr ([q, r], setq c [] nd')"
    using steps_recv_all(2) [OF steps_recv [OF _ b(1)] steps_recv_all(1)] assms(4) by (intro sends_steps) simp
  then show thesis by (rule that) (use b(2-) in simp_all)
qed

lemma turn_auth:
  assumes "handshake_ok (en_cr E)" "meets E c pub (sha1_hash (en_cr E) peer) nd" "c_state (nd_cons nd c) = generated_dh" "drawn E c i nd" "c_in_queue (nd_cons nd c) = []"
    "dh_packet (en_cr E) j p" "auth_packet_for (en_cr E) peer (session_key (en_cr E) i j) q"
  obtains r s nd' where "sends c (recv_all E c [p, q]) nd = Inr ([r, s], nd')" "auth_packet_for (en_cr E) pub (session_key (en_cr E) i j) r"
    "resp_packet (en_cr E) (session_key (en_cr E) i j) s" "joined c (sha1_hash (en_cr E) peer) (session_key (en_cr E) i j) nd'" "c_in_queue (nd_cons nd' c) = []"
proof -
  let ?nd = "setq c [p] (nd\<lparr>nd_sent := []\<rparr>)" and ?key = "session_key (en_cr E) i j" and ?pid = "sha1_hash (en_cr E) peer"
  obtain r nd1 where a: "steps_to c (con_handle_packet E c p) () [r] ?nd nd1" "auth_packet_for (en_cr E) pub ?key r"
    "shares c ?key nd1" "meets E c pub ?pid nd1" "c_state (nd_cons nd1 c) = received_dh"
    by (rule steps_get_key [OF assms(1), of c pub ?pid ?nd i j p]) (use assms(2-4, 6) in simp_all)
  obtain s nd2 where b: "steps_to c (con_handle_packet E c q) () [s] (setq c [q] (setq c [] nd1)) nd2" "resp_packet (en_cr E) ?key s" "joined c ?pid ?key nd2"
    by (rule steps_get_auth [OF assms(1), of c pub ?pid "setq c [q] (setq c [] nd1)" ?key peer q]) (use a(3-5) assms(7) in simp_all)
  have "sends c (recv_all E c [p, q]) nd = Inr ([r, s], setq c [] nd2)"
    using steps_recv_all(2) [OF steps_recv [OF _ a(1)] steps_recv_all(2) [OF steps_recv [OF _ b(1)] steps_recv_all(1)]] assms(5) by (intro sends_steps) simp
  then show thesis by (rule that) (use a(2) b(2, 3) in simp_all)
qed

lemma turn_accept:
  assumes "handshake_ok (en_cr E)" "meets E c pub (sha1_hash (en_cr E) peer) nd" "c_state (nd_cons nd c) = received_dh" "shares c key nd" "c_in_queue (nd_cons nd c) = []"
    "auth_packet_for (en_cr E) peer key p" "resp_packet (en_cr E) key q"
  obtains r nd' where "sends c (recv_all E c [p, q]) nd = Inr ([r], nd')" "resp_packet (en_cr E) key r" "joined c (sha1_hash (en_cr E) peer) key nd'"
proof -
  let ?nd = "setq c [p] (nd\<lparr>nd_sent := []\<rparr>)" and ?pid = "sha1_hash (en_cr E) peer"
  obtain r nd1 where a: "steps_to c (con_handle_packet E c p) () [r] ?nd nd1" "resp_packet (en_cr E) key r" "joined c ?pid key nd1"
    by (rule steps_get_auth [OF assms(1), of c pub ?pid ?nd key peer p]) (use assms(2-4, 6) in simp_all)
  obtain nd2 where b: "steps_to c (con_handle_packet E c q) () [] (setq c [q] (setq c [] nd1)) nd2" "joined c ?pid key nd2"
    by (rule steps_get_resp [OF assms(1), of c ?pid key "setq c [q] (setq c [] nd1)" q]) (use a(3) assms(7) in simp_all)
  have "sends c (recv_all E c [p, q]) nd = Inr ([r], setq c [] nd2)"
    using steps_recv_all(2) [OF steps_recv [OF _ a(1)] steps_recv_all(2) [OF steps_recv [OF _ b(1)] steps_recv_all(1)]] assms(5) by (intro sends_steps) simp
  then show thesis by (rule that) (use a(2) b(2) in simp_all)
qed

lemma turn_last:
  assumes "handshake_ok (en_cr E)" "joined c pid key nd" "c_in_queue (nd_cons nd c) = []" "resp_packet (en_cr E) key p"
  obtains nd' where "sends c (recv_all E c [p]) nd = Inr ([], nd')" "joined c pid key nd'"
proof -
  obtain nd1 where b: "steps_to c (con_handle_packet E c p) () [] (setq c [p] (nd\<lparr>nd_sent := []\<rparr>)) nd1" "joined c pid key nd1"
    by (rule steps_get_resp [OF assms(1), of c pid key "setq c [p] (nd\<lparr>nd_sent := []\<rparr>)" p]) (use assms(2, 4) in simp_all)
  have "sends c (recv_all E c [p]) nd = Inr ([], setq c [] nd1)"
    using steps_recv_all(2) [OF steps_recv [OF _ b(1)] steps_recv_all(1)] assms(3) by (intro sends_steps) simp
  then show thesis by (rule that) (use b(2) in simp_all)
qed

text \<open>
  C3: two nodes that have no record of each other become connected, whatever keys they draw. One is told to advance, and each is given
  what the other sends, in order, until neither has anything to send: after four exchanges both connections are in the state
  \<open>connected\<close> under one 56-byte key, each has the hash of the other's public key as remote id, and each finds the other in its index of distances.
\<close>

theorem handshake_completes:
  assumes "handshake_ok (en_cr E)"
    and "meets E a pubA (sha1_hash (en_cr E) pubB) A" "c_state (nd_cons A a) = uninit" "c_in_queue (nd_cons A a) = []" "c_advance_count (nd_cons A a) + 1 < 10"
    and "meets E b pubB (sha1_hash (en_cr E) pubA) B" "c_state (nd_cons B b) = uninit" "c_in_queue (nd_cons B b) = []"
  shows "\<exists>ps A1 A' B' key. sends a (advance E a) A = Inr (ps, A1) \<and> converse 4 E a A1 b B ps = Inr (A', B') \<and> length key = 56
    \<and> joined a (sha1_hash (en_cr E) pubB) key A' \<and> joined b (sha1_hash (en_cr E) pubA) key B'"
proof -
  let ?cr = "en_cr E" and ?pA = "sha1_hash (en_cr E) pubA" and ?pB = "sha1_hash (en_cr E) pubB"
  have dh: "dh_ok ?cr" using assms(1) by (simp add: handshake_ok_def)
  obtain i p1 A1 where a1: "sends a (advance E a) A = Inr ([p1], A1)" "dh_packet ?cr i p1" "drawn E a i A1" "meets E a pubA ?pB A1"
    "c_state (nd_cons A1 a) = generated_dh" "c_in_queue (nd_cons A1 a) = []" by (rule turn_start [OF assms(1, 2, 3, 5, 4)])
  obtain j p2 p3 B1 where b1: "sends b (recv_all E b [p1]) B = Inr ([p2, p3], B1)" "dh_packet ?cr j p2" "auth_packet_for ?cr pubB (session_key ?cr j i) p3"
    "shares b (session_key ?cr j i) B1" "meets E b pubB ?pA B1" "c_state (nd_cons B1 b) = received_dh" "c_in_queue (nd_cons B1 b) = []"
    by (rule turn_key [OF assms(1, 6, 7, 8) a1(2)])
  have sym: "session_key ?cr j i = session_key ?cr i j" and len: "length (session_key ?cr i j) = 56" using session_key_sym [OF dh] dh by simp_all
  obtain p4 p5 A2 where a2: "sends a (recv_all E a [p2, p3]) A1 = Inr ([p4, p5], A2)" "auth_packet_for ?cr pubA (session_key ?cr i j) p4"
    "resp_packet ?cr (session_key ?cr i j) p5" "joined a ?pB (session_key ?cr i j) A2" "c_in_queue (nd_cons A2 a) = []"
    by (rule turn_auth [OF assms(1) a1(4, 5, 3, 6) b1(2, 3) [unfolded sym]])
  obtain p6 B2 where b2: "sends b (recv_all E b [p4, p5]) B1 = Inr ([p6], B2)" "resp_packet ?cr (session_key ?cr i j) p6" "joined b ?pA (session_key ?cr i j) B2"
    by (rule turn_accept [OF assms(1) b1(5, 6) b1(4) [unfolded sym] b1(7) a2(2, 3)])
  obtain A3 where a3: "sends a (recv_all E a [p6]) A2 = Inr ([], A3)" "joined a ?pB (session_key ?cr i j) A3"
    by (rule turn_last [OF assms(1) a2(4, 5) b2(2)])
  have "converse 4 E a A1 b B [p1] = Inr (A3, B2)" using b1(1) a2(1) b2(1) a3(1) by (simp add: eval_nat_numeral)
  then show ?thesis using a1(1) a3(2) b2(3) len by blast
qed

lemma demo_handshake_ok: "handshake_ok demo_crypto"
proof -
  have "length (snd (dh_gen demo_crypto n)) = 56" for n by (simp add: demo_crypto_def)
  then have "dh_draw demo_crypto n = Some n" for n by (subst dh_draw.simps) simp
  then have "dh_ok demo_crypto" by (simp add: dh_ok_def demo_crypto_def mult.commute)
  then show ?thesis by (simp add: handshake_ok_def demo_cipher_ok demo_log2_ok) (simp add: demo_crypto_def auth_size_def)
qed

lemma demo_ids: "sha1_hash demo_crypto (3 # replicate 255 0) \<noteq> sha1_hash demo_crypto (4 # replicate 255 0)"
proof -
  have e: "even (fold (\<lambda>b h. 31 * h + ucast b) (replicate n (0 :: byte)) h) = even h" for n and h :: sha1
    by (induction n arbitrary: h) simp_all
  have "even (sha1_hash demo_crypto (3 # replicate 255 0))" "odd (sha1_hash demo_crypto (4 # replicate 255 0))"
    using e [of 255 34] e [of 255 35] by (simp_all add: demo_crypto_def)
  then show ?thesis by metis
qed

definition demo_meet :: "byte \<Rightarrow> endpoint \<Rightarrow> (byte list \<times> peer_record) list node" where
  "demo_meet k ep = snd (new_connection demo_env ep (demo_node k))"

lemma demo_meets:
  assumes "pid \<noteq> sha1_hash demo_crypto (k # replicate 255 0)"
  shows "meets demo_env 0 (k # replicate 255 0) pid (demo_meet k ep)" "c_state (nd_cons (demo_meet k ep) 0) = uninit"
    "c_in_queue (nd_cons (demo_meet k ep) 0) = []" "c_advance_count (nd_cons (demo_meet k ep) 0) = 0"
proof -
  have n: "peer_fetch_by_endpoint list_bdb \<lparr>pd_node_id = i, pd_handle = []\<rparr> e = None" for i e
    by (simp add: peer_fetch_by_endpoint_def list_bdb_def)
  have kp: "key_pair demo_crypto (k # replicate 255 0) [k]" by (simp add: key_pair_def demo_crypto_def)
  have db: "\<forall>h k v. \<exists>y. db_put list_bdb h k v = Some y" by (simp add: list_bdb_def)
  have inv: "peer_inv demo_crypto list_bdb \<lparr>pd_node_id = i, pd_handle = []\<rparr>" for i by (simp add: peer_inv_def list_bdb_def)
  have kb: "kb_wf (kb_set_id i (kb_new 0))" "kb_node_id (kb_set_id i (kb_new 0)) = i" for i by (simp_all add: kb_wf_def kb_set_id_def kb_new_def)
  note defs = demo_meet_def demo_env_def demo_node_def node_init_def Let_def new_connection_def alloc_con_def bindc_def getc_def andthen_def ret_def
    act_defs con_init_def empty_record_def n
  show "meets demo_env 0 (k # replicate 255 0) pid (demo_meet k ep)"
    using assms kp db inv kb by (simp add: meets_def defs list_bdb_ok)
  show "c_state (nd_cons (demo_meet k ep) 0) = uninit" "c_in_queue (nd_cons (demo_meet k ep) 0) = []" "c_advance_count (nd_cons (demo_meet k ep) 0) = 0"
    by (simp_all add: defs)
qed

theorem handshake_completes_witness:
  "\<exists>ps A1 A' B'. sends 0 (advance demo_env 0) (demo_meet 3 (1, 2)) = Inr (ps, A1) \<and> converse 4 demo_env 0 A1 0 (demo_meet 4 (3, 4)) ps = Inr (A', B')
     \<and> c_state (nd_cons A' 0) = connected \<and> c_state (nd_cons B' 0) = connected"
proof -
  let ?A = "demo_meet 3 (1, 2)" and ?B = "demo_meet 4 (3, 4)"
  note a = demo_meets [OF demo_ids [symmetric], of "(1, 2)"] and b = demo_meets [OF demo_ids, of "(3, 4)"]
  have cr: "en_cr demo_env = demo_crypto" by (simp add: demo_env_def)
  have ctr: "c_advance_count (nd_cons ?A 0) + 1 < 10" using a(4) by simp
  from handshake_completes [of demo_env 0 "3 # replicate 255 0" "4 # replicate 255 0" ?A 0 ?B, unfolded cr,
      OF demo_handshake_ok a(1-3) ctr b(1-3)]
  show ?thesis unfolding joined_def by blast
qed

end
