(* ===== verification/Session.thy ===== *)
theory Session
  imports Handshake
begin

text \<open>
  Two connected nodes that talk: a channel is opened at one end, the first message on it makes the other end create its channel through the service that listens on the port, and every message
  arrives at the callback of that channel, in the order of sending, as long as the packets do.
\<close>

section \<open>One message\<close>

definition data_packet :: "crypto \<Rightarrow> byte list \<Rightarrow> u16 \<Rightarrow> u16 \<Rightarrow> byte list \<Rightarrow> byte list" where
  "data_packet cr key l r d = sealed cr key (le_bytes 2 l @ le_bytes 2 r @ d) data_msg"

text \<open>The end of the sender: channel \<open>ch\<close> from port \<open>l\<close> to port \<open>r\<close> over connection \<open>c\<close>.\<close>

definition chan_from :: "nat \<Rightarrow> nat \<Rightarrow> u16 \<Rightarrow> u16 \<Rightarrow> 'h node \<Rightarrow> bool" where
  "chan_from c ch l r nd \<longleftrightarrow> ch_con (nd_chans nd ch) = Some c \<and> ch_lport (nd_chans nd ch) = l \<and> ch_rport (nd_chans nd ch) = r"

lemma steps_chan_send:
  assumes "joined c pid key nd" "chan_from c ch l r nd" "length d \<le> 2040"
  obtains nd' where "steps_to c (chan_send E (Some ch) d) () [data_packet (en_cr E) key l r d] nd nd'" "joined c pid key nd'" "chan_from c ch l r nd'"
proof -
  let ?b = "le_bytes 2 l @ le_bytes 2 r @ d"
  have "pack_packet (replicate 2048 0) (chan_write l r) d = Inr ?b"
    by (intro pack_writes [of "chan_write l r", OF writes_chan]) (use assms(3) in simp_all)
  moreover have "c_bf (nd_cons nd c) = Some key" using assms(1) by (simp add: joined_def)
  then have "steps_to c (con_send E c ?b data_msg) () [data_packet (en_cr E) key l r d] nd
      (nd\<lparr>nd_sent := nd_sent nd @ [(c_remote_ep (nd_cons nd c), sealed (en_cr E) key ?b data_msg)]\<rparr>)"
    unfolding data_packet_def by (rule steps_con_send) (use assms(3) in simp)
  ultimately have "steps_to c (chan_send E (Some ch) d) () [data_packet (en_cr E) key l r d] nd
      (nd\<lparr>nd_sent := nd_sent nd @ [(c_remote_ep (nd_cons nd c), sealed (en_cr E) key ?b data_msg)]\<rparr>)"
    using assms(2) by (simp add: steps_to_def chan_send_def con_send_data_def chan_from_def bindc_def get_chan_def liftres_def)
  then show thesis by (rule that) (use assms in \<open>simp_all add: chan_from_def\<close>)
qed

text \<open>The end of the receiver: it has a channel for the pair of ports, with a callback; or it has none, and a service that will install one.\<close>

definition chan_to :: "nat \<Rightarrow> nat \<Rightarrow> u16 \<Rightarrow> u16 \<Rightarrow> 'h node \<Rightarrow> bool" where
  "chan_to c ch l r nd \<longleftrightarrow> sm_get (c_channels (nd_cons nd c)) (chan_key r l) = Some ch \<and> ch_rc (nd_chans nd ch)"

definition serves :: "nat \<Rightarrow> u16 \<Rightarrow> u16 \<Rightarrow> 'h node \<Rightarrow> bool" where
  "serves c l r nd \<longleftrightarrow> sm_ok (c_channels (nd_cons nd c)) \<and> sm_get (c_channels (nd_cons nd c)) (chan_key r l) = None \<and>
     (\<exists>svc. sm_get (nd_services nd) r = Some svc \<and> svc_handler svc (nd_next_chan nd) = Inr True)"

lemma unpack_data: "unpackc chan_read (0, 0) (le_bytes 2 l @ le_bytes 2 r @ d) nd = (Inr (l, r), nd)"
  using unpack_reads [OF reads_chan [of l r], of "(0, 0)" d] by (simp add: unpackc_def)

lemma handle_data_known:
  assumes "joined c pid key nd" "chan_to c ch l r nd"
  shows "handle_data_msg E c (le_bytes 2 l @ le_bytes 2 r @ d) nd = (Inr True, nd\<lparr>nd_events := nd_events nd @ [Ev_recv ch d ec_ok]\<rparr>)"
  using assms by (simp add: handle_data_msg_def bindc_def get_con_def unpack_data joined_def chan_to_def chan_recv_def whenc_def andthen_def get_chan_def emit_def ret_def)

lemma handle_data_new:
  assumes "joined c pid key nd" "serves c l r nd"
  obtains nd' where "handle_data_msg E c (le_bytes 2 l @ le_bytes 2 r @ d) nd = (Inr True, nd')" "joined c pid key nd'" "chan_to c (nd_next_chan nd) l r nd'"
    "nd_events nd' = nd_events nd @ [Ev_recv (nd_next_chan nd) d ec_ok]" "nd_sent nd' = nd_sent nd" "c_remote_ep (nd_cons nd' c) = c_remote_ep (nd_cons nd c)"
    "c_in_queue (nd_cons nd' c) = c_in_queue (nd_cons nd c)"
proof -
  obtain svc where s: "sm_get (nd_services nd) r = Some svc" "svc_handler svc (nd_next_chan nd) = Inr True" using assms(2) by (auto simp: serves_def)
  show thesis
    by (rule that [of "snd (handle_data_msg E c (le_bytes 2 l @ le_bytes 2 r @ d) nd)"])
       (use assms s in \<open>simp_all add: handle_data_msg_def bindc_def get_con_def unpack_data joined_def serves_def chan_to_def create_channel_def new_channel_def getc_def
         catchc_def chan_recv_def whenc_def andthen_def ret_def act_defs sm_get_put\<close>)
qed

text \<open>A data frame that arrives on a joined connection is handed to the handler of data messages.\<close>

lemma steps_data:
  assumes "cipher_ok (en_cr E)" "joined c pid key nd" "length d \<le> 2040" "chan_to c ch l r nd \<or> (serves c l r nd \<and> ch = nd_next_chan nd)"
  obtains nd' where "steps_to c (con_handle_packet E c (data_packet (en_cr E) key l r d)) () [] nd nd'" "joined c pid key nd'" "chan_to c ch l r nd'"
    "nd_events nd' = nd_events nd @ [Ev_recv ch d ec_ok]"
proof -
  let ?d = "le_bytes 2 l @ le_bytes 2 r @ d"
  let ?p = "frame_plain (en_cr E) ?d data_msg"
  have bf: "c_bf (nd_cons nd c) = Some key" and st: "c_state (nd_cons nd c) = connected" using assms(2) by (simp_all add: joined_def)
  have len: "length ?d \<le> 2044" using assms(3) by simp
  obtain nd1 where n: "decode_packet E c (data_packet (en_cr E) key l r d) nd = bindc (dispatch E c ?p (frame_pad (length ?d)) data_msg) (\<lambda>ok. ret (ok, ?p)) nd1"
    "steps_to c (\<lambda>_. (Inr (), nd1)) () [] nd nd1" "joined c pid key nd \<Longrightarrow> joined c pid key nd1" "nd_chans nd1 = nd_chans nd" "nd_next_chan nd1 = nd_next_chan nd"
    "nd_services nd1 = nd_services nd" "nd_events nd1 = nd_events nd" "c_channels (nd_cons nd1 c) = c_channels (nd_cons nd c)"
    unfolding data_packet_def by (rule steps_decode [where t = data_msg and pub = "[]" and pid = pid, OF assms(1) bf len]) blast
  have j: "joined c pid key nd1" by (rule n(3) [OF assms(2)])
  obtain nd' where h: "handle_data_msg E c ?d nd1 = (Inr True, nd')" "joined c pid key nd'" "chan_to c ch l r nd'" "nd_events nd' = nd_events nd @ [Ev_recv ch d ec_ok]"
    "nd_sent nd' = nd_sent nd1" "c_remote_ep (nd_cons nd' c) = c_remote_ep (nd_cons nd1 c)" "c_in_queue (nd_cons nd' c) = c_in_queue (nd_cons nd1 c)"
  proof (cases "chan_to c ch l r nd")
    case True
    then have "chan_to c ch l r nd1" using n(4, 8) by (simp add: chan_to_def)
    from handle_data_known [OF j this, of E d] show thesis using that \<open>chan_to c ch l r nd1\<close> j n(7) by (auto simp: chan_to_def joined_def)
  next
    case False
    then have "serves c l r nd1" "ch = nd_next_chan nd1" using assms(4) n(5, 6, 8) by (simp_all add: serves_def)
    with handle_data_new [OF j this(1), of E d] show thesis using that n(7) by metis
  qed
  have "decode_packet E c (data_packet (en_cr E) key l r d) nd = (Inr (True, ?p), nd')"
    using n(1) h(1) frame_body_plain [OF len, of "en_cr E" data_msg] by (simp add: dispatch_def bindc_def liftres_def ret_def)
  moreover have "length (data_packet (en_cr E) key l r d) mod 8 = 0" unfolding data_packet_def by (rule length_sealed [OF assms(1) len])
  ultimately have "con_handle_packet E c (data_packet (en_cr E) key l r d) nd = (Inr (), nd')"
    using st by (simp add: con_handle_packet_def call_bound_def numeral_3_eq_3 Let_def bindc_def getc_def get_con_def andthen_assertc ret_def)
  then have "steps_to c (con_handle_packet E c (data_packet (en_cr E) key l r d)) () [] nd nd'" using h(5-7) n(2) by (simp add: steps_to_def)
  then show thesis by (rule that [OF _ h(2-4)])
qed

section \<open>A conversation over a channel\<close>

text \<open>Each message is sent by \<open>channel::send\<close> at one end, and what that puts on the wire is received by the other.\<close>

fun talk :: "'h env \<Rightarrow> nat \<Rightarrow> nat \<Rightarrow> 'h node \<Rightarrow> nat \<Rightarrow> 'h node \<Rightarrow> byte list list \<Rightarrow> ('h node \<times> 'h node) res" where
  "talk E ch a A b B [] = Inr (A, B)"
| "talk E ch a A b B (d # ds) =
     (case sends a (chan_send E (Some ch) d) A of
        Inl e \<Rightarrow> Inl e
      | Inr (ps, A1) \<Rightarrow> (case sends b (recv_all E b ps) B of Inl e \<Rightarrow> Inl e | Inr (qs, B1) \<Rightarrow> talk E ch a A1 b B1 ds))"

lemma chan_setq [simp]:
  "chan_to c ch l r (setq c q nd) = chan_to c ch l r nd" "serves c l r (setq c q nd) = serves c l r nd" "nd_events (setq c q nd) = nd_events nd"
  "nd_next_chan (setq c q nd) = nd_next_chan nd" "chan_to c ch l r (nd\<lparr>nd_sent := x\<rparr>) = chan_to c ch l r nd" "serves c l r (nd\<lparr>nd_sent := x\<rparr>) = serves c l r nd"
  "chan_from c ch l r (nd\<lparr>nd_sent := x\<rparr>) = chan_from c ch l r nd"
  by (simp_all add: setq_def chan_to_def serves_def chan_from_def)

lemma turn_send:
  assumes "joined c pid key nd" "chan_from c ch l r nd" "length d \<le> 2040"
  obtains nd' where "sends c (chan_send E (Some ch) d) nd = Inr ([data_packet (en_cr E) key l r d], nd')" "joined c pid key nd'" "chan_from c ch l r nd'"
proof -
  obtain nd' where "steps_to c (chan_send E (Some ch) d) () [data_packet (en_cr E) key l r d] (nd\<lparr>nd_sent := []\<rparr>) nd'" "joined c pid key nd'" "chan_from c ch l r nd'"
    by (rule steps_chan_send [of c pid key "nd\<lparr>nd_sent := []\<rparr>" ch l r d E]) (use assms in simp_all)
  then show thesis by (intro that [OF sends_steps])
qed

lemma turn_recv:
  assumes "cipher_ok (en_cr E)" "joined c pid key nd" "length d \<le> 2040" "c_in_queue (nd_cons nd c) = []" "chan_to c ch l r nd \<or> (serves c l r nd \<and> ch = nd_next_chan nd)"
  obtains nd' where "sends c (recv_all E c [data_packet (en_cr E) key l r d]) nd = Inr ([], nd')" "joined c pid key nd'" "chan_to c ch l r nd'"
    "nd_events nd' = nd_events nd @ [Ev_recv ch d ec_ok]" "c_in_queue (nd_cons nd' c) = []"
proof -
  let ?p = "data_packet (en_cr E) key l r d"
  obtain nd1 where s: "steps_to c (con_handle_packet E c ?p) () [] (setq c [?p] (nd\<lparr>nd_sent := []\<rparr>)) nd1" "joined c pid key nd1" "chan_to c ch l r nd1"
    "nd_events nd1 = nd_events nd @ [Ev_recv ch d ec_ok]"
    by (rule steps_data [OF assms(1), of c pid key "setq c [?p] (nd\<lparr>nd_sent := []\<rparr>)" d ch l r]) (use assms(2, 3, 5) in simp_all)
  have "sends c (recv_all E c [?p]) nd = Inr ([], setq c [] nd1)"
    using steps_recv_all(2) [OF steps_recv [OF _ s(1)] steps_recv_all(1)] assms(4) by (intro sends_steps) simp
  then show thesis by (rule that) (use s in simp_all)
qed

text \<open>An opened channel leads from a port of its own to the given port.\<close>

lemma opened_channel:
  assumes "joined a pid key A" "open_channel pid r A = (Inr ch, A1)"
  shows "joined a pid key A1" "chan_from a ch (ch_lport (nd_chans A1 ch)) r A1"
  using assms by (auto simp: open_channel_def get_connection_def joined_def bindc_def getc_def ret_def get_free_channel_num_def andthen_def act_defs new_channel_def add_channel_def
      chan_from_def raise_def split: if_splits)

lemma talk_known:
  assumes "cipher_ok (en_cr E)" "joined a pidB key A" "joined b pidA key B" "chan_from a ch l r A" "chan_to b ch' l r B" "c_in_queue (nd_cons B b) = []" "list_all (\<lambda>d. length d \<le> 2040) ds"
  shows "\<exists>A' B'. talk E ch a A b B ds = Inr (A', B') \<and> nd_events B' = nd_events B @ map (\<lambda>d. Ev_recv ch' d ec_ok) ds"
  using assms(2-)
proof (induction ds arbitrary: A B)
  case (Cons d ds)
  have d: "length d \<le> 2040" "list_all (\<lambda>d. length d \<le> 2040) ds" using Cons.prems(6) by simp_all
  obtain A1 where a: "sends a (chan_send E (Some ch) d) A = Inr ([data_packet (en_cr E) key l r d], A1)" "joined a pidB key A1" "chan_from a ch l r A1"
    by (rule turn_send [OF Cons.prems(1, 3) d(1)])
  obtain B1 where b: "sends b (recv_all E b [data_packet (en_cr E) key l r d]) B = Inr ([], B1)" "joined b pidA key B1" "chan_to b ch' l r B1"
    "nd_events B1 = nd_events B @ [Ev_recv ch' d ec_ok]" "c_in_queue (nd_cons B1 b) = []"
    by (rule turn_recv [OF assms(1) Cons.prems(2) d(1) Cons.prems(5) disjI1 [OF Cons.prems(4)]])
  show ?case using Cons.IH [OF a(2) b(2) a(3) b(3, 5) d(2)] a(1) b(1, 4) by (simp del: recv_all.simps)
qed simp


section \<open>Witness\<close>

definition demo_joined :: "byte \<Rightarrow> sha1 \<Rightarrow> (byte list \<times> peer_record) list node" where
  "demo_joined k pid = (demo_node k)\<lparr>nd_cons := (\<lambda>_. (con_init (1, 2))\<lparr>c_state := connected, c_bf := Some [5], c_remote_id := pid\<rparr>),
     nd_dist_to_con := [(xor pid (nd_id (demo_node k)), 0)], nd_services := [(80, \<lparr>svc_port = 80, svc_name = ''web'', svc_handler = (\<lambda>_. Inr True)\<rparr>)]\<rparr>"

lemma demo_joined: "joined 0 pid [5] (demo_joined k pid)"
  by (simp add: joined_def demo_joined_def sm_get_def)


end
