(* ===== verification/Node_Frame.thy ===== *)
theory Node_Frame
  imports Handshake
begin

text \<open>
  What the operations of a node leave alone. The locale \<open>node_frame\<close> is the contract of a property of the node's state that none of the updates of connections, channels, tables and
  counters can falsify; every operation but the processing of the queue then keeps it. \<open>node_constant\<close> adds the two fields the processing loop itself writes, and every step of
  the node keeps the property.
\<close>

section \<open>The contract\<close>

named_theorems frame_intros \<open>operations that keep a frame property\<close>

locale node_frame =
  fixes P :: "'h node \<Rightarrow> bool"
  assumes upd_cons: "P nd \<Longrightarrow> P (nd\<lparr>nd_cons := cons\<rparr>)" and upd_next_con: "P nd \<Longrightarrow> P (nd\<lparr>nd_next_con := n\<rparr>)"
    and upd_chans: "P nd \<Longrightarrow> P (nd\<lparr>nd_chans := chans\<rparr>)" and upd_next_chan: "P nd \<Longrightarrow> P (nd\<lparr>nd_next_chan := n\<rparr>)"
    and upd_next_prom: "P nd \<Longrightarrow> P (nd\<lparr>nd_next_prom := n\<rparr>)" and upd_events: "P nd \<Longrightarrow> P (nd\<lparr>nd_events := evs\<rparr>)"
    and upd_sent: "P nd \<Longrightarrow> P (nd\<lparr>nd_sent := out\<rparr>)" and upd_rand: "P nd \<Longrightarrow> P (nd\<lparr>nd_rand_ctr := n\<rparr>)" and upd_dh: "P nd \<Longrightarrow> P (nd\<lparr>nd_dh_ctr := n\<rparr>)"
    and upd_peers: "P nd \<Longrightarrow> P (nd\<lparr>nd_peers := peers\<rparr>)" and upd_kbuckets: "P nd \<Longrightarrow> P (nd\<lparr>nd_kbuckets := kb\<rparr>)"
    and upd_dist: "P nd \<Longrightarrow> P (nd\<lparr>nd_dist_to_con := dist\<rparr>)" and upd_eps: "P nd \<Longrightarrow> P (nd\<lparr>nd_ep_to_con := eps\<rparr>)"
    and upd_services: "P nd \<Longrightarrow> P (nd\<lparr>nd_services := svcs\<rparr>)" and upd_queue: "P nd \<Longrightarrow> P (nd\<lparr>nd_process_queue := q\<rparr>)"
    and upd_reading: "P nd \<Longrightarrow> P (nd\<lparr>nd_reading := b\<rparr>)" and upd_now: "P nd \<Longrightarrow> P (nd\<lparr>nd_now := now\<rparr>)"
    and upd_post: "P nd \<Longrightarrow> t \<noteq> T_process_queue \<Longrightarrow> P (nd\<lparr>nd_tasks := nd_tasks nd @ [t]\<rparr>)"
    and upd_taken: "P nd \<Longrightarrow> P (nd\<lparr>nd_tasks := remove1 t (nd_tasks nd)\<rparr>)"
    and upd_wake: "P nd \<Longrightarrow> \<not> nd_processing nd \<Longrightarrow> P (nd\<lparr>nd_processing := True, nd_tasks := nd_tasks nd @ [T_process_queue]\<rparr>)"
begin

lemmas upds = upd_cons upd_next_con upd_chans upd_next_chan upd_next_prom upd_events upd_sent upd_rand upd_dh upd_peers upd_kbuckets upd_dist upd_eps
  upd_services upd_queue upd_reading upd_now

lemma prims [frame_intros]: "keeps P (upd_con c f)" "keeps P (upd_rec c g)" "keeps P (upd_chan ch h)" "keeps P (emit ev)" "keeps P (net_send ep d)"
  "keeps P (new_channel c r l)" "keeps P (alloc_con k)" "keeps P (unpackc rd x bs)" "keeps P (assertc b msg)"
  by (auto simp: keeps_def act_defs new_channel_def alloc_con_def unpackc_def assertc_def ret_def raise_def upds split: prod.splits sum.splits)

lemma post [frame_intros]: "t \<noteq> T_process_queue \<Longrightarrow> keeps P (post_task t)"
  by (simp add: keeps_def post_task_def upd_post)

lemma tables [frame_intros]: "keeps P (peers_store E nid m)" "keeps P (kbuckets_add E c)" "keeps P (kbuckets_remove E c)"
  by (auto simp: keeps_def peers_store_def kbuckets_add_def kbuckets_remove_def liftc_def bindc_def get_con_def upds split: prod.splits)

lemma sending [frame_intros]: "keeps P (con_send E c buf t)" "keeps P (send_close E c)" "keeps P (send_punch c)" "keeps P (send_auth_response E c r)"
  "keeps P (send_update_rank E c)" "keeps P (con_send_data E c ch b)" "keeps P (chan_send E hdl b)"
  unfolding con_send_def send_close_def send_punch_def send_auth_response_def send_update_rank_def con_send_data_def chan_send_def
  by (intro keeps_intros frame_intros)+

lemma exchange [frame_intros]: "keeps P (generate_dh E c)" "keeps P (send_dh E c)" "keeps P (process_dh E c b)" "keeps P (send_auth E c)" "keeps P (key_exchange E c b)"
  unfolding generate_dh_def send_dh_def process_dh_def send_auth_def key_exchange_def Let_def
  by (intro keeps_intros frame_intros upds; simp)+

lemma goto_state [frame_intros]: "keeps P (goto_state c st)" "keeps P (set_remote_id c nid)" "keeps P (post_packet c b)" "keeps P (set_front c b)"
  "keeps P (chan_reset ch)" "keeps P (chan_recv ch b ec)" "keeps P (add_client c nm p)" "keeps P (get_free_channel_num c)"
  unfolding goto_state_def set_remote_id_def post_packet_def set_front_def chan_reset_def chan_recv_def add_client_def get_free_channel_num_def
  by (intro keeps_intros frame_intros)+

lemma close_each [frame_intros]: "keeps P (close_each chs)"
  by (induction chs) (simp_all, (intro keeps_intros frame_intros)+)

lemma closing [frame_intros]: "keeps P (close_channels c)" "keeps P (store_record E c)" "keeps P (update_dist_clear E nid)"
  unfolding close_channels_def store_record_def update_dist_clear_def Let_def
  by (intro keeps_intros frame_intros upds)+

lemma con_reset [frame_intros]: "keeps P (con_reset E c)"
  unfolding con_reset_def by (intro keeps_intros frame_intros)

lemma con_close [frame_intros]: "keeps P (con_close E c)" "keeps P (add_channel c ch)" "keeps P (con_close_channel c ch)" "keeps P (get_connection nid)" "keeps P (create_channel c r l)"
  unfolding con_close_def add_channel_def con_close_channel_def get_connection_def create_channel_def Let_def by (intro keeps_intros frame_intros)+

lemma making [frame_intros]: "keeps P (channel_close hdl)" "keeps P (open_channel nid r)" "keeps P (update_dist_set E nid c)"
  unfolding update_dist_set_def channel_close_def open_channel_def Let_def by (intro keeps_intros frame_intros upds)+

lemma keeps_some_pair: "keeps P m \<Longrightarrow> (\<And>a b. keeps P (k a b)) \<Longrightarrow> keeps P (case x of None \<Rightarrow> m | Some (a, b) \<Rightarrow> k a b)"
  by (auto split: option.splits)

lemma new_connection [frame_intros]: "keeps P (new_connection E ep)"
  unfolding new_connection_def by (intro keeps_intros frame_intros keeps_some_pair)

lemma resend_lookups [frame_intros]: "keeps P (resend_lookups E c ls)"
  by (induction ls) (auto intro!: keeps_intros frame_intros)

lemma messages [frame_intros]: "keeps P (handle_auth_resp_msg E c b0)" "keeps P (handle_update_rank_msg E c b)" "keeps P (handle_close_msg E c)"
  "keeps P (handle_request_reverse_connect_msg c b)" "keeps P (handle_request_connect_msg c b)" "keeps P (handle_lookup_msg E c b)"
  unfolding handle_auth_resp_msg_def handle_update_rank_msg_def handle_close_msg_def handle_request_reverse_connect_msg_def handle_request_connect_msg_def
    handle_lookup_msg_def Let_def
  by (intro keeps_intros frame_intros; simp)+

lemma handle_route_msg [frame_intros]: "keeps P (handle_route_msg c b)"
  unfolding handle_route_msg_def by (intro keeps_bindc keeps_get_con) (auto split: prod.splits sum.splits intro!: keeps_intros frame_intros)

lemma keeps_pair [frame_intros]: "(\<And>a b. keeps P (k a b)) \<Longrightarrow> keeps P (case x of (a, b) \<Rightarrow> k a b)"
  by (cases x) simp

lemma handle_data_msg [frame_intros]: "keeps P (handle_data_msg E c b)"
  unfolding handle_data_msg_def by (intro keeps_intros frame_intros)

lemma accept_auth [frame_intros]: "keeps P (accept_auth E c key a)"
  unfolding accept_auth_def by (intro keeps_intros frame_intros)

lemma handle_auth_msg [frame_intros]: "keeps P (handle_auth_msg E c b)"
  unfolding handle_auth_msg_def by (intro keeps_intros frame_intros)

lemma dispatch [frame_intros]: "keeps P (dispatch E c plain pad t)"
  unfolding dispatch_def by (cases t) (simp_all, (intro keeps_intros frame_intros)+)

lemma decode_packet [frame_intros]: "keeps P (decode_packet E c b)"
  unfolding decode_packet_def by (intro keeps_intros frame_intros keeps_some_pair)

lemma forget_peer [frame_intros]: "keeps P (handle_unknown E c b)" "keeps P (forget_peer E c)"
  unfolding handle_unknown_def forget_peer_def by (intro keeps_intros frame_intros)+

lemma uninit_connected_both: "keeps P (handle_uninit n E c b) \<and> keeps P (handle_connected n E c b)"
proof (induction n arbitrary: b)
  case (Suc n)
  have "keeps P (handle_uninit n E c b)" "keeps P (handle_connected n E c b)" for b using Suc by simp_all
  then show ?case unfolding handle_uninit.simps handle_connected.simps by (intro conjI keeps_intros frame_intros keeps_some_pair)
qed (simp add: keeps_raise)

lemmas uninit_connected [frame_intros] = uninit_connected_both [THEN conjunct1] uninit_connected_both [THEN conjunct2]

lemma state_handlers [frame_intros]: "keeps P (handle_generated_dh E c b)" "keeps P (handle_received_dh n E c b)" "keeps P (handle_authenticated n E c b)"
  unfolding handle_generated_dh_def handle_received_dh_def handle_authenticated_def by (intro keeps_intros frame_intros)+

lemma con_handle_packet [frame_intros]: "keeps P (con_handle_packet E c b)"
  unfolding con_handle_packet_def Let_def by (intro keeps_bindc keeps_getc) (auto split: state_enum.split intro!: keeps_intros frame_intros)

lemma process_next_message [frame_intros]: "keeps P (process_next_message E c)"
  unfolding process_next_message_def by (intro keeps_bindc keeps_get_con) (auto split: list.split intro!: keeps_intros frame_intros)

lemma advance [frame_intros]: "keeps P (advance E c)"
  unfolding advance_def by (intro keeps_andthen keeps_bindc keeps_get_con keeps_if prims) (auto split: state_enum.split intro!: keeps_intros frame_intros)

lemma lookups [frame_intros]: "keeps P (lookup_finish c target t1 t2)" "keeps P (lookup_failed c target)" "keeps P (send_request_connect E c ep)" "keeps P (request_reverse_connect E c ep)"
  unfolding lookup_finish_def lookup_failed_def send_request_connect_def request_reverse_connect_def by (intro keeps_intros frame_intros; simp)+

lemma lookup_begin [frame_intros]: "keeps P (lookup_begin E c target n limit)"
  unfolding lookup_begin_def by (intro keeps_intros frame_intros upds)

lemma process_connection [frame_intros]: "keeps P (process_connection c)"
proof (rule keepsI)
  fix nd assume p: "P nd"
  show "P (snd (process_connection c nd))"
    using upd_wake [OF upd_queue [OF p]] upd_queue [OF p] p
    by (simp add: process_connection_def bindc_def getc_def modc_def andthen_def whenc_def ret_def post_task_def)
qed

lemma reading [frame_intros]: "keeps P (set_ep_to_con ep c)" "keeps P (start_service cn nm cb)"
  unfolding set_ep_to_con_def start_service_def by (auto intro!: keeps_intros frame_intros upds)

lemma node_handle_packet [frame_intros]: "keeps P (node_handle_packet E b ep)" "keeps P (connect_begin E ep)" "keeps P (connect_nat_begin E ep ep')" "keeps P (node_add_client nid nm p)"
  "keeps P (remote_nodes_near E r target n limit)" "keeps P (chan_on_recv hdl rc)"
  unfolding node_handle_packet_def connect_begin_def connect_nat_begin_def node_add_client_def remote_nodes_near_def chan_on_recv_def by (intro keeps_intros frame_intros)+

lemma read_round [frame_intros]: "keeps P (read_round E b ep)"
  unfolding read_round_def by (intro keeps_intros frame_intros upds)

lemma connect_round [frame_intros]: "keeps P (connect_round E c)"
  unfolding connect_round_def by (intro keeps_bindc keeps_get_con) (auto split: state_enum.split intro!: keeps_intros frame_intros)

lemma close_all [frame_intros]: "keeps P (close_all E cs)"
  by (induction cs) (auto intro!: keeps_intros frame_intros)

lemma stopping [frame_intros]: "keeps P (shutdown E)"
  unfolding shutdown_def by (intro keeps_intros frame_intros upds)

lemma other_task: "t \<noteq> T_process_queue \<Longrightarrow> keeps P (run_node_task E t)"
  unfolding run_node_task_def by (cases t) (auto intro!: keeps_intros frame_intros)

text \<open>Every step other than the processing of the queue keeps the property.\<close>

lemma step_keeps:
  assumes "node_step E nd nd'" "P nd" "T_process_queue \<notin> set (nd_tasks nd) \<or> (\<forall>t nd. P nd \<longrightarrow> P (snd (run_node_task E t nd)))"
  shows "P nd'"
  using assms(1)
proof cases
  case (task t)
  show ?thesis
  proof (cases "t = T_process_queue")
    case False
    then show ?thesis using task keepsD [OF other_task [OF False] upd_taken [OF assms(2)]] by simp
  next
    case True
    then show ?thesis using task assms(3) upd_taken [OF assms(2)] by auto
  qed
qed (simp_all add: keepsD [OF read_round assms(2)] keepsD [OF connect_round assms(2)] keepsD [OF making(2) assms(2)] keepsD [OF making(1) assms(2)]
  keepsD [OF sending(7) assms(2)] keepsD [OF reading(2) assms(2)] keepsD [OF stopping assms(2)] keepsD [OF lookups(1) assms(2)] keepsD [OF lookups(2) assms(2)]
  keepsD [OF node_handle_packet(2) assms(2)] keepsD [OF node_handle_packet(3) assms(2)] keepsD [OF node_handle_packet(4) assms(2)] keepsD [OF node_handle_packet(5) assms(2)]
  keepsD [OF node_handle_packet(6) assms(2)] upd_now [OF assms(2)])

end

text \<open>A property that the loop over the queue cannot falsify either holds for ever.\<close>

locale node_constant = node_frame +
  assumes upd_processing: "P nd \<Longrightarrow> P (nd\<lparr>nd_processing := b\<rparr>)" and upd_tasks: "P nd \<Longrightarrow> P (nd\<lparr>nd_tasks := ts\<rparr>)"
begin

lemma process_round: "keeps P (process_round E)"
  unfolding process_round_def by (intro keeps_intros frame_intros upds upd_processing)

lemma any_task: "keeps P (run_node_task E t)"
proof (cases "t = T_process_queue")
  case True
  have "keeps P (post_task T_process_queue)" by (simp add: keeps_def post_task_def upd_tasks)
  then show ?thesis using True process_round by (auto simp: run_node_task_def intro!: keeps_intros)
qed (rule other_task)

lemma run_keeps: "node_run E nd nd' \<Longrightarrow> P nd \<Longrightarrow> P nd'"
  by (induction rule: node_run.induct) (auto intro: step_keeps keepsD [OF any_task])

end

section \<open>The identity of a node\<close>

definition identity :: "'h node \<Rightarrow> sha1 \<times> byte list \<times> byte list \<times> u32 \<times> (u64 \<times> u64) \<times> u16" where
  "identity nd = (nd_id nd, nd_pub_key nd, nd_priv_key nd, nd_rank nd, nd_nonce nd, nd_port nd)"

interpretation ident: node_constant "\<lambda>nd. identity nd = i" for i
  by unfold_locales (simp_all add: identity_def)

text \<open>A node keeps its identity: whatever it receives and whatever the application does, its id, its keys, its rank, its nonce and its port are those it started with.\<close>

theorem node_identity_fixed: "node_run E nd nd' \<Longrightarrow> identity nd' = identity nd"
  using ident.run_keeps by blast

section \<open>A node that hears no more\<close>

text \<open>The loop over the queue is said to run, and it does not.\<close>

definition deaf :: "'h node \<Rightarrow> bool" where
  "deaf nd \<longleftrightarrow> nd_processing nd \<and> T_process_queue \<notin> set (nd_tasks nd)"

interpretation deaf: node_frame deaf
  by unfold_locales (auto simp: deaf_def dest: set_remove1_subset [THEN subsetD])

lemma deaf_for_ever: "node_run E nd nd' \<Longrightarrow> deaf nd \<Longrightarrow> deaf nd'"
proof (induction rule: node_run.induct)
  case (step nd1 nd2)
  then show ?case using deaf.step_keeps [OF step.hyps(2)] by (simp add: deaf_def)
qed

lemma process_round_throws:
  assumes "process_round E nd = (Inl e, nd')" "deaf nd"
  shows "deaf nd'"
proof -
  obtain c where c: "pq_front nd = Some c" using assms(1) by (auto simp: process_round_def bindc_def getc_def modc_def andthen_def ret_def split: option.splits)
  define m where "m = andthen (process_next_message E c) (bindc getc (\<lambda>nd.
         case pq_front nd of
           None \<Rightarrow> raise (Undefined ''front of an empty vector'')
         | Some d \<Rightarrow> andthen (whenc (pending_packets (nd_cons nd d) = 0)
             (modc (\<lambda>nd. nd\<lparr>nd_process_queue := remove1 d (nd_process_queue nd)\<rparr>))) (ret True)))"
  have k: "keeps deaf m" unfolding m_def by (intro keeps_intros deaf.process_next_message deaf.upd_queue)
  have "process_round E nd = m nd" using c by (simp add: process_round_def m_def bindc_def getc_def)
  with assms(1) have "m nd = (Inl e, nd')" by simp
  then show ?thesis using keepsD [OF k assms(2)] by simp
qed

lemma chan_read_short: "length b < 4 \<Longrightarrow> \<exists>t y. unpack_packet chan_read (0, 0) b = (Inl (Throw t), y)"
proof -
  assume "length b < 4"
  have r: "ds_read 2 ds = (if ds_pos ds + 2 \<le> length (ds_mem ds) then (Inr (take 2 (drop (ds_pos ds) (ds_mem ds))), ds\<lparr>ds_pos := ds_pos ds + 2\<rparr>)
      else (Inl (Throw ''Attempt to read beyond end of buffer''), ds))" for ds
    using ds_read_exact [of 2 ds] by simp
  show ?thesis using \<open>length b < 4\<close> by (simp add: unpack_packet_def chan_read_def rd_field_def ds_make_def r andthen_def bindc_def)
qed

lemma short_data_throws:
  assumes "cipher_ok (en_cr E)" "joined c pid key nd" "length buf < 4"
  obtains t nd' where "con_handle_packet E c (sealed (en_cr E) key buf data_msg) nd = (Inl (Throw t), nd')"
proof -
  let ?b = "sealed (en_cr E) key buf data_msg"
  have bf: "c_bf (nd_cons nd c) = Some key" and st: "c_state (nd_cons nd c) = connected" using assms(2) by (simp_all add: joined_def)
  have len: "length buf \<le> 2044" using assms(3) by simp
  obtain nd1 where d: "decode_packet E c ?b nd = bindc (dispatch E c (frame_plain (en_cr E) buf data_msg) (frame_pad (length buf)) data_msg)
      (\<lambda>ok. ret (ok, frame_plain (en_cr E) buf data_msg)) nd1" "joined c pid key nd \<Longrightarrow> joined c pid key nd1"
    by (rule steps_decode [where t = data_msg and pub = "[]" and pid = pid, OF assms(1) bf len]) blast
  have st1: "c_state (nd_cons nd1 c) = connected" using d(2) assms(2) by (simp add: joined_def)
  obtain t y where "unpack_packet chan_read (0, 0) buf = (Inl (Throw t), y)" using chan_read_short [OF assms(3)] by blast
  then have "handle_data_msg E c buf nd1 = (Inl (Throw t), nd1)" using st1 by (simp add: handle_data_msg_def unpackc_def bindc_def get_con_def)
  then have "decode_packet E c ?b nd = (Inl (Throw t), nd1)"
    using d(1) frame_body_plain [OF len, of "en_cr E" data_msg] by (simp add: dispatch_def bindc_def liftres_def)
  then have "con_handle_packet E c ?b nd = (Inl (Throw t), nd1)"
    using st length_sealed [OF assms(1) len, of key data_msg]
    by (simp add: con_handle_packet_def call_bound_def numeral_3_eq_3 Let_def bindc_def getc_def get_con_def andthen_assertc)
  then show thesis by (rule that)
qed

text \<open>
  C39: one short message stops a node. If a connected peer sends a data message of less than four bytes, the loop over the queue ends with an exception when the
  message is its turn, and the mark that the loop is running stays set: from then on, whatever arrives and whatever the application does, the loop is never started again, so
  that no packet is handled any more.
\<close>

theorem short_message_deafens:
  assumes "cipher_ok (en_cr E)" "joined c pid key nd" "length buf < 4"
    and "pq_front nd = Some c" "c_in_queue (nd_cons nd c) = sealed (en_cr E) key buf data_msg # q"
    and "nd_processing nd" "T_process_queue \<notin> set (nd_tasks nd)" "node_run E (snd (run_node_task E T_process_queue nd)) nd'"
  shows "(\<exists>t. fst (run_node_task E T_process_queue nd) = Inl (Throw t)) \<and> nd_processing nd' \<and> T_process_queue \<notin> set (nd_tasks nd')"
proof -
  obtain t nd1 where "con_handle_packet E c (sealed (en_cr E) key buf data_msg) nd = (Inl (Throw t), nd1)"
    by (rule short_data_throws [OF assms(1-3)])
  then have "process_round E nd = (Inl (Throw t), nd1)"
    using assms(4, 5) by (simp add: process_round_def process_next_message_def andthen_def bindc_def getc_def get_con_def)
  moreover from this have "run_node_task E T_process_queue nd = (Inl (Throw t), nd1)" by (simp add: run_node_task_def bindc_def)
  moreover have "deaf nd" using assms(6, 7) by (simp add: deaf_def)
  ultimately show ?thesis using deaf_for_ever [OF assms(8)] process_round_throws [of E nd "Throw t" nd1] by (simp add: deaf_def)
qed

definition deaf_demo :: "(byte list \<times> peer_record) list node" where
  "deaf_demo = (demo_node 3)\<lparr>nd_cons := (\<lambda>_. (con_init (1, 2))\<lparr>c_state := connected, c_bf := Some [5], c_remote_id := 7,
     c_in_queue := [sealed demo_crypto [5] [1] data_msg]\<rparr>), nd_process_queue := [0], nd_processing := True,
     nd_dist_to_con := [(xor 7 (nd_id (demo_node 3)), 0)]\<rparr>"

theorem short_message_deafens_witness: "nd_processing (snd (run_node_task demo_env T_process_queue deaf_demo))"
proof -
  have e: "en_cr demo_env = demo_crypto" by (simp add: demo_env_def)
  have j: "joined 0 7 [5] deaf_demo" by (simp add: joined_def deaf_demo_def sm_get_def)
  have f: "pq_front deaf_demo = Some 0" by (simp add: pq_front_def pq_comparer_def deaf_demo_def con_init_def empty_record_def)
  have q: "c_in_queue (nd_cons deaf_demo 0) = sealed (en_cr demo_env) [5] [1] data_msg # []" by (simp add: deaf_demo_def e)
  have p: "nd_processing deaf_demo" "T_process_queue \<notin> set (nd_tasks deaf_demo)" by (simp_all add: deaf_demo_def demo_node_def node_init_def Let_def)
  show ?thesis using short_message_deafens [OF _ j _ f q p node_run.start] demo_cipher_ok e by simp
qed

end
