(* ===== verification/Udt_Test.thy ===== *)
theory Udt_Test
  imports Udt_Stream
begin

text \<open>
  The test service of src/udt_test_service.cpp: a connection reads blocks of 2048 bytes from its channel and counts them, until the channel is closed; the service keeps the
  connections whose loop has not ended.
\<close>

section \<open>The loop\<close>

record udt_test_connection =
  tc_chan :: udt
  tc_got :: "byte list"
  tc_len :: nat
  tc_total :: u64

text \<open>The loop from a call of \<open>read\<close> that has \<open>got\<close> and misses \<open>len\<close> bytes, up to where a call has to wait.\<close>

function test_read_loop :: "byte list \<Rightarrow> nat \<Rightarrow> u64 \<Rightarrow> udt \<Rightarrow> udt_test_connection" where
  "test_read_loop got len tot s =
     (case fst (udt_read got len s) of
        Read_done buf \<Rightarrow> test_read_loop [] 2048 (tot + of_nat (length buf)) (snd (udt_read got len s))
      | Read_wait got' len' \<Rightarrow> \<lparr>tc_chan = snd (udt_read got len s), tc_got = got', tc_len = len', tc_total = tot\<rparr>)"
  by auto
termination
  by (relation "measure (\<lambda>(got, len, tot, s). length (rx_bytes s) + (if len = 0 then 1 else 0))") (auto simp: udt_read_bytes split: if_splits)

declare test_read_loop.simps [simp del]

text \<open>
  The loop reads everything there is: it counts all whole blocks, and waits with the rest of the bytes in the block it has begun.
\<close>

theorem test_loop_reads_all:
  assumes "length got + len = 2048"
  shows "tc_total (test_read_loop got len tot s) = tot + of_nat (2048 * ((length got + length (rx_bytes s)) div 2048))
    \<and> tc_got (test_read_loop got len tot s) = drop (2048 * ((length got + length (rx_bytes s)) div 2048)) (got @ rx_bytes s)
    \<and> length (tc_got (test_read_loop got len tot s)) + tc_len (test_read_loop got len tot s) = 2048
    \<and> rx_bytes (tc_chan (test_read_loop got len tot s)) = []"
  using assms
proof (induction got len tot s rule: test_read_loop.induct)
  case (1 got len tot s)
  let ?n = "length (rx_bytes s)"
  show ?case
  proof (cases "len \<le> ?n")
    case True
    let ?s' = "snd (udt_read got len s)"
    have r: "fst (udt_read got len s) = Read_done (got @ take len (rx_bytes s))" "rx_bytes ?s' = drop len (rx_bytes s)" using True by (simp_all add: udt_read_bytes)
    have l: "length (got @ take len (rx_bytes s)) = 2048" using True "1.prems" by simp
    have e: "test_read_loop got len tot s = test_read_loop [] 2048 (tot + 2048) ?s'" by (subst test_read_loop.simps) (simp add: r(1) l [simplified])
    have d: "(length got + ?n) div 2048 = Suc ((?n - len) div 2048)" using True "1.prems" by (simp add: div_add_self1 [symmetric])
    have dr: "drop (2048 * (m :: nat)) (drop len (rx_bytes s)) = drop (2048 + 2048 * m) (got @ rx_bytes s)" for m
    proof -
      have "len + 2048 * m = 2048 + 2048 * m - length got" "length got \<le> 2048 + 2048 * m" using "1.prems" by simp_all
      then show ?thesis by (simp add: add.commute)
    qed
    let ?t = "test_read_loop [] 2048 (tot + 2048) ?s'" and ?m = "(?n - len) div 2048"
    have w: "(of_nat (length (got @ take len (rx_bytes s))) :: u64) = 2048" unfolding l by simp
    have base: "length ([] :: byte list) + 2048 = 2048" by simp
    have ih: "tc_total ?t = tot + 2048 + of_nat (2048 * ?m)" "tc_got ?t = drop (2048 * ?m) (drop len (rx_bytes s))" "length (tc_got ?t) + tc_len ?t = 2048" "rx_bytes (tc_chan ?t) = []"
      using "1.IH" [OF r(1) base, unfolded w r(2) list.size append_Nil length_drop add_0] by blast+
    show ?thesis unfolding e d mult_Suc_right using ih by (simp only: dr of_nat_add of_nat_numeral add.assoc)
  next
    case False
    then have "(length got + ?n) div 2048 = 0" using "1.prems" by simp
    then show ?thesis using False "1.prems" by (subst (1 2 3 4 5) test_read_loop.simps) (simp add: udt_read_bytes)
  qed
qed

section \<open>The service\<close>

record udt_test_service =
  ts_cons :: "nat \<Rightarrow> udt_test_connection"
  ts_next :: nat
  ts_subscribers :: "nat list"

text \<open>A new connection is put among the subscribers; its loop is started later.\<close>

definition ts_on_new_connection :: "udt \<Rightarrow> udt_test_service \<Rightarrow> udt_test_service" where
  "ts_on_new_connection junk st =
     st\<lparr>ts_cons := (ts_cons st)(ts_next st := \<lparr>tc_chan = udt_init junk 4096, tc_got = [], tc_len = 2048, tc_total = 0\<rparr>),
        ts_next := Suc (ts_next st), ts_subscribers := ts_subscribers st @ [ts_next st]\<rparr>"

text \<open>The handler of \<open>closed\<close> takes out the first entry for the connection.\<close>

definition ts_closed :: "nat \<Rightarrow> udt_test_service \<Rightarrow> udt_test_service" where
  "ts_closed i st = st\<lparr>ts_subscribers := remove1 i (ts_subscribers st)\<rparr>"

definition ts_run :: "nat \<Rightarrow> udt_test_service \<Rightarrow> udt_test_service" where
  "ts_run i st = (let c = ts_cons st i in st\<lparr>ts_cons := (ts_cons st)(i := test_read_loop (tc_got c) (tc_len c) (tc_total c) (tc_chan c))\<rparr>)"

text \<open>A loop that wakes up from the wait in \<open>read\<close>: the exception of a closed channel ends it.\<close>

definition ts_wake :: "nat \<Rightarrow> udt_test_service \<Rightarrow> udt_test_service" where
  "ts_wake i st =
     (let c = ts_cons st i in
      case fst (udt_read_wake (tc_got c) (tc_len c) (tc_chan c)) of
        Inl e \<Rightarrow> ts_closed i st
      | Inr r \<Rightarrow> ts_run i st)"

text \<open>Between the steps of the service the channel of a connection may change in any way: packets arrive, it is closed.\<close>

inductive ts_step :: "udt_test_service \<Rightarrow> udt_test_service \<Rightarrow> bool" where
  new: "ts_step st (ts_on_new_connection junk st)"
| start: "i < ts_next st \<Longrightarrow> i \<in> set (ts_subscribers st) \<Longrightarrow> ts_step st (ts_run i st)"
| wake: "i < ts_next st \<Longrightarrow> i \<in> set (ts_subscribers st) \<Longrightarrow> ts_step st (ts_wake i st)"
| chan: "i < ts_next st \<Longrightarrow> ts_step st (st\<lparr>ts_cons := (ts_cons st)(i := (ts_cons st i)\<lparr>tc_chan := u\<rparr>)\<rparr>)"

definition ts_inv :: "udt_test_service \<Rightarrow> bool" where
  "ts_inv st \<longleftrightarrow> distinct (ts_subscribers st) \<and> (\<forall>i \<in> set (ts_subscribers st). i < ts_next st) \<and>
     (\<forall>i < ts_next st. length (tc_got (ts_cons st i)) + tc_len (ts_cons st i) = 2048 \<and> (\<exists>n. tc_total (ts_cons st i) = of_nat (2048 * n)))"

lemma ts_inv_run:
  assumes "i < ts_next st" "i \<in> set (ts_subscribers st)" "ts_inv st"
  shows "ts_inv (ts_run i st)"
proof -
  let ?c = "ts_cons st i"
  have c: "length (tc_got ?c) + tc_len ?c = 2048" using assms(1, 3) by (simp add: ts_inv_def)
  obtain n where n: "tc_total ?c = of_nat (2048 * n)" using assms(1, 3) by (auto simp: ts_inv_def)
  let ?m = "(length (tc_got ?c) + length (rx_bytes (tc_chan ?c))) div 2048"
  let ?t = "test_read_loop (tc_got ?c) (tc_len ?c) (tc_total ?c) (tc_chan ?c)"
  have "tc_total ?c + of_nat (2048 * ?m) = of_nat (2048 * (n + ?m))" unfolding n by (simp add: algebra_simps)
  then have t: "length (tc_got ?t) + tc_len ?t = 2048" "\<exists>n. tc_total ?t = of_nat (2048 * n)"
    using test_loop_reads_all [OF c, of "tc_total ?c" "tc_chan ?c"] by metis+
  then show ?thesis using assms(3) by (simp add: ts_inv_def ts_run_def Let_def)
qed

text \<open>In every state of the service a connection is among the subscribers at most once, a block is never longer than its buffer, and the count is one of whole
  blocks.\<close>

theorem test_service_inv: "ts_step st st' \<Longrightarrow> ts_inv st \<Longrightarrow> ts_inv st'"
proof (induction rule: ts_step.induct)
  case (new st junk)
  then show ?case by (auto simp: ts_inv_def ts_on_new_connection_def less_Suc_eq intro: exI [of _ 0])
next
  case (start i st)
  then show ?case by (rule ts_inv_run)
next
  case (wake i st)
  moreover have "ts_inv (ts_closed i st)" using wake by (auto simp: ts_inv_def ts_closed_def)
  ultimately show ?case by (auto simp: ts_wake_def Let_def ts_inv_run split: sum.splits)
qed (auto simp: ts_inv_def)

end
