(* ===== verification/Raw_Map.thy ===== *)
theory Raw_Map
  imports Raw Std_Map
begin

text \<open>
  The serialisation of \<open>std::map\<close> and \<open>std::set\<close> in rpc/raw.hpp: the number of entries and the entries in their order. The reader of a map clears the map first and enters what it
  reads, so that of two entries with one key the later stays; the reader of a set adds to what the set holds. A set is the list of its elements in increasing order.
\<close>

definition pack_map :: "('k \<Rightarrow> byte list) \<Rightarrow> ('v \<Rightarrow> byte list) \<Rightarrow> ('k, 'v) std_map \<Rightarrow> byte list" where
  "pack_map f g m = pack_unsigned (of_nat (length m)) @ pack_each (pack_pair f g) m"

fun unpack_entries :: "'k::linorder unpacker \<Rightarrow> 'v unpacker \<Rightarrow> nat \<Rightarrow> ('k, 'v) std_map \<Rightarrow> ('k, 'v) std_map unpacker" where
  "unpack_entries f g 0 m = ret m"
| "unpack_entries f g (Suc n) m = bindc f (\<lambda>k. bindc g (\<lambda>v. unpack_entries f g n (sm_put k v m)))"

definition unpack_map :: "'k::linorder unpacker \<Rightarrow> 'v unpacker \<Rightarrow> ('k, 'v) std_map unpacker" where
  "unpack_map f g = bindc unpack_unsigned (\<lambda>n. unpack_entries f g (unat n) [])"

lemma sm_put_last: "\<forall>e \<in> set m. fst e < k \<Longrightarrow> sm_put k v m = m @ [(k, v)]"
proof (induction m)
  case (Cons e m)
  then show ?case by (cases e) auto
qed simp

lemma decodes_entries:
  assumes "\<And>e. e \<in> set m \<Longrightarrow> decodes f (fst e) (a (fst e))" "\<And>e. e \<in> set m \<Longrightarrow> decodes g (snd e) (b (snd e))" "sm_ok (acc @ m)"
  shows "decodes (unpack_entries f g (length m) acc) (acc @ m) (pack_each (pack_pair a b) m)"
  using assms
proof (induction m arbitrary: acc)
  case (Cons e m)
  have "\<forall>x \<in> set acc. fst x < fst e" using Cons.prems(3) by (auto simp: sm_ok_def sorted_wrt_append)
  then have p: "sm_put (fst e) (snd e) acc = acc @ [e]" by (simp add: sm_put_last)
  have "decodes (unpack_entries f g (length m) (acc @ [e])) ((acc @ [e]) @ m) (pack_each (pack_pair a b) m)"
    by (rule Cons.IH) (use Cons.prems in simp_all)
  then have "decodes (bindc g (\<lambda>v. unpack_entries f g (length m) (sm_put (fst e) v acc))) (acc @ e # m) (b (snd e) @ pack_each (pack_pair a b) m)"
    using Cons.prems(2) [of e] decodes_bind [of g "snd e" "b (snd e)" "\<lambda>v. unpack_entries f g (length m) (sm_put (fst e) v acc)"] by (simp add: p)
  then show ?case
    using Cons.prems(1) [of e] decodes_bind [of f "fst e" "a (fst e)" "\<lambda>k. bindc g (\<lambda>v. unpack_entries f g (length m) (sm_put k v acc))"] by (simp add: pack_pair_def [of a b e])
qed (simp add: decodes_ret)

section \<open>Round trip\<close>

text \<open>
  A map of at most \<open>2 ^ 32 - 1\<close> entries whose keys and values can be read back is read back as it was.
\<close>

theorem raw_map_roundtrip:
  assumes "sm_ok m" "fits32 (length m)" "\<And>e. e \<in> set m \<Longrightarrow> decodes f (fst e) (a (fst e))" "\<And>e. e \<in> set m \<Longrightarrow> decodes g (snd e) (b (snd e))"
  shows "unpack_map f g (pack_map a b m @ r) = (Inr m, r)"
proof -
  have "decodes (unpack_map f g) m (pack_map a b m)"
    unfolding unpack_map_def pack_map_def
    by (rule decodes_bind [OF decodes_unsigned])
       (use decodes_entries [of m f a g b "[]"] assms in \<open>simp add: unat_of_nat take_bit_nat_eq_self fits32_def\<close>)
  then show ?thesis by (rule decodesD)
qed

section \<open>Sets\<close>

definition pack_set :: "('a \<Rightarrow> byte list) \<Rightarrow> 'a list \<Rightarrow> byte list" where
  "pack_set enc xs = pack_unsigned (of_nat (length xs)) @ pack_each enc xs"

fun unpack_members :: "'a::linorder unpacker \<Rightarrow> nat \<Rightarrow> 'a list \<Rightarrow> 'a list unpacker" where
  "unpack_members dec 0 xs = ret xs"
| "unpack_members dec (Suc n) xs = bindc dec (\<lambda>v. unpack_members dec n (if v \<in> set xs then xs else insort v xs))"

definition unpack_set :: "'a::linorder unpacker \<Rightarrow> 'a list \<Rightarrow> 'a list unpacker" where
  "unpack_set dec old = bindc unpack_unsigned (\<lambda>n. unpack_members dec (unat n) old)"

lemma decodes_members:
  assumes "\<And>x. x \<in> set xs \<Longrightarrow> decodes dec x (enc x)" "sorted old" "distinct old"
  shows "decodes (unpack_members dec (length xs) old) (sorted_list_of_set (set old \<union> set xs)) (pack_each enc xs)"
  using assms
proof (induction xs arbitrary: old)
  case Nil
  then show ?case by (simp add: decodes_ret sorted_list_of_set.idem_if_sorted_distinct)
next
  case (Cons x xs)
  let ?n = "if x \<in> set old then old else insort x old"
  have n: "sorted ?n" "distinct ?n" "set ?n = insert x (set old)" using Cons.prems(2, 3) by (auto simp: sorted_insort distinct_insort set_insort_key)
  have "decodes (unpack_members dec (length xs) ?n) (sorted_list_of_set (set ?n \<union> set xs)) (pack_each enc xs)"
    by (rule Cons.IH [OF _ n(1, 2)]) (use Cons.prems(1) in simp)
  moreover have "set ?n \<union> set xs = set old \<union> set (x # xs)" using n(3) by auto
  ultimately show ?case
    using Cons.prems(1) [of x] decodes_bind [of dec x "enc x" "\<lambda>v. unpack_members dec (length xs) (if v \<in> set old then old else insort v old)"]
    by (simp only: list.set_intros unpack_members.simps pack_each.simps list.size add_Suc_right Nat.add_0_right)
qed

text \<open>
  A set is read back into an empty one as it was, while a set that is not empty keeps its elements: the result is the union.
\<close>

theorem raw_set_union:
  assumes "fits32 (length xs)" "\<And>x. x \<in> set xs \<Longrightarrow> decodes dec x (enc x)" "sorted old" "distinct old"
  shows "unpack_set dec old (pack_set enc xs @ r) = (Inr (sorted_list_of_set (set old \<union> set xs)), r)"
proof -
  have "decodes (unpack_set dec old) (sorted_list_of_set (set old \<union> set xs)) (pack_set enc xs)"
    unfolding unpack_set_def pack_set_def
    by (rule decodes_bind [OF decodes_unsigned])
       (use decodes_members [of xs dec enc old] assms in \<open>simp add: unat_of_nat take_bit_nat_eq_self fits32_def\<close>)
  then show ?thesis by (rule decodesD)
qed

end
