(* ===== verification/Socks5.thy ===== *)
theory Socks5
  imports Tornet_Prelude "HOL-Library.Sublist"
begin

text \<open>
  The SOCKS5 proxy of \<open>src/include/tornet/socks5/\<close>: the readers and writers of the protocol
  messages (\<open>io.hpp\<close>), the message types (\<open>socks5.hpp\<close>) and the session of one client, from
  the identifier to the two copying threads (\<open>proxy.hpp\<close>). A socket is the bytes its peer
  sends before it closes, the bytes written to it, and the number of bytes the peer still takes
  before a write fails. A read past the end throws (\<open>boost::asio::read\<close> without an error code),
  \<open>abort()\<close> ends the process with signal 6, and asserts are enabled.
\<close>

section \<open>Sockets\<close>

record sock =
  sock_in :: "byte list"
  sock_out :: "byte list"
  sock_room :: nat

definition abort_exn :: exn where
  "abort_exn = Exit (- 6)"

text \<open>\<open>boost::asio::read\<close> of exactly \<open>n\<close> bytes and \<open>boost::asio::write\<close> of all the bytes given.\<close>

definition asio_read :: "nat \<Rightarrow> (sock, byte list) cmd" where
  "asio_read n s =
     (if n \<le> length (sock_in s)
      then (Inr (take n (sock_in s)), s\<lparr>sock_in := drop n (sock_in s)\<rparr>)
      else (Inl (Throw ''End of file''), s\<lparr>sock_in := []\<rparr>))"

definition asio_write :: "byte list \<Rightarrow> (sock, unit) cmd" where
  "asio_write bs s =
     (if length bs \<le> sock_room s
      then (Inr (), s\<lparr>sock_out := sock_out s @ bs, sock_room := sock_room s - length bs\<rparr>)
      else (Inl (Throw ''Broken pipe''),
            s\<lparr>sock_out := sock_out s @ take (sock_room s) bs, sock_room := 0\<rparr>))"

section \<open>Message types\<close>

definition NO_AUTH_REQUIRED_METHOD :: byte where "NO_AUTH_REQUIRED_METHOD = 0"
definition IPV4_ADDRESS :: byte where "IPV4_ADDRESS = 1"
definition DOMAIN_ADDRESS :: byte where "DOMAIN_ADDRESS = 3"
definition IPV6_ADDRESS :: byte where "IPV6_ADDRESS = 4"
definition CONNECT_COMMAND :: byte where "CONNECT_COMMAND = 1"
definition SUCCEEDED :: byte where "SUCCEEDED = 0"

lemmas socks_codes =
  NO_AUTH_REQUIRED_METHOD_def IPV4_ADDRESS_def DOMAIN_ADDRESS_def IPV6_ADDRESS_def
  CONNECT_COMMAND_def SUCCEEDED_def

record socks_identifier =
  ident_methods :: "byte set"

definition identifier_of :: "byte list \<Rightarrow> socks_identifier" where
  "identifier_of methods = \<lparr>ident_methods = fold insert methods {}\<rparr>"

datatype address = Address_v4 u32 | Domain_address "byte list"

datatype ip_address = Ip_v4 u32 | Ip_v6 "byte list"

primrec to_variant :: "ip_address \<Rightarrow> address res" where
  "to_variant (Ip_v4 a) = Inr (Address_v4 a)"
| "to_variant (Ip_v6 bs) = Inl abort_exn"

record socks_request =
  rq_cmd :: byte
  dst_addr :: address
  dst_port :: u16

record socks_reply =
  rep_type :: byte
  bnd_address :: address
  bnd_port :: u16

section \<open>Readers\<close>

definition read_octet :: "(sock, byte) cmd" where
  "read_octet = bindc (asio_read 1) (\<lambda>bs. ret (hd bs))"

primrec read_octets :: "nat \<Rightarrow> (sock, byte list) cmd" where
  "read_octets 0 = ret []"
| "read_octets (Suc n) = bindc read_octet (\<lambda>b. bindc (read_octets n) (\<lambda>bs. ret (b # bs)))"

definition read_identifier :: "(sock, socks_identifier) cmd" where
  "read_identifier =
     bindc read_octet (\<lambda>version.
     if version \<noteq> 5 then raise (Assert_fail ''version == 5'')
     else bindc read_octet (\<lambda>nmethods.
          bindc (read_octets (unat nmethods)) (\<lambda>methods.
          ret (identifier_of methods))))"

text \<open>\<open>ntohs\<close> and \<open>htons\<close> on a little-endian host exchange the two bytes.\<close>

definition ntohs :: "u16 \<Rightarrow> u16" where
  "ntohs w = or (push_bit 8 w) (drop_bit 8 w)"

definition read_port :: "(sock, u16) cmd" where
  "read_port = bindc (asio_read 2) (\<lambda>bs. ret (ntohs (of_le_bytes bs)))"

definition address_v4_of :: "byte list \<Rightarrow> u64" where
  "address_v4_of input =
     (let addr = ucast (input ! 0);
          addr = or (push_bit 8 addr) (ucast (input ! 1));
          addr = or (push_bit 8 addr) (ucast (input ! 2));
          addr = or (push_bit 8 addr) (ucast (input ! 3))
      in addr)"

definition read_address_v4 :: "(sock, u32) cmd" where
  "read_address_v4 =
     bindc (asio_read 4) (\<lambda>input.
     let addr = address_v4_of input in
     if addr > 0xFFFFFFFF then raise (Throw ''address_v4 from unsigned integer'')
     else ret (ucast addr))"

definition read_domain_address :: "(sock, byte list) cmd" where
  "read_domain_address =
     bindc read_octet (\<lambda>domain_size.
     if domain_size = 0 then raise (Undefined ''front of an empty vector'')
     else bindc (asio_read (unat domain_size)) (\<lambda>domain. ret domain))"

definition read_address :: "(sock, address) cmd" where
  "read_address =
     bindc read_octet (\<lambda>type.
     if type = IPV4_ADDRESS then bindc read_address_v4 (\<lambda>a. ret (Address_v4 a))
     else if type = DOMAIN_ADDRESS then bindc read_domain_address (\<lambda>d. ret (Domain_address d))
     else if type = IPV6_ADDRESS then raise abort_exn
     else raise abort_exn)"

definition read_request :: "(sock, socks_request) cmd" where
  "read_request =
     bindc read_octet (\<lambda>ver.
     if ver \<noteq> 5 then raise (Assert_fail ''ver == 5'')
     else bindc read_octet (\<lambda>cmd.
          bindc read_octet (\<lambda>rsv.
          if rsv \<noteq> 0 then raise (Assert_fail ''rsv == 0'')
          else bindc read_address (\<lambda>addr.
               bindc read_port (\<lambda>port.
               ret \<lparr>rq_cmd = cmd, dst_addr = addr, dst_port = port\<rparr>)))))"

section \<open>Writers\<close>

definition write_octet :: "byte \<Rightarrow> (sock, unit) cmd" where
  "write_octet b = asio_write [b]"

definition write_method_selection :: "byte \<Rightarrow> (sock, unit) cmd" where
  "write_method_selection method = andthen (write_octet 5) (write_octet method)"

definition write_port :: "u16 \<Rightarrow> (sock, unit) cmd" where
  "write_port p = asio_write (le_bytes 2 (ntohs p))"

text \<open>\<open>address_v4::to_bytes\<close>: the octets of the address in network order.\<close>

definition v4_bytes :: "u32 \<Rightarrow> byte list" where
  "v4_bytes a = rev (le_bytes 4 a)"

primrec write_octets :: "byte list \<Rightarrow> (sock, unit) cmd" where
  "write_octets [] = ret ()"
| "write_octets (b # bs) = andthen (write_octet b) (write_octets bs)"

primrec write_address :: "address \<Rightarrow> (sock, unit) cmd" where
  "write_address (Address_v4 a) = andthen (write_octet IPV4_ADDRESS) (write_octets (v4_bytes a))"
| "write_address (Domain_address d) = raise abort_exn"

definition write_reply :: "socks_reply \<Rightarrow> (sock, unit) cmd" where
  "write_reply r =
     andthen (write_octet 5)
    (andthen (write_octet (rep_type r))
    (andthen (write_octet 0)
    (andthen (write_address (bnd_address r))
             (write_port (bnd_port r)))))"

section \<open>Copying threads\<close>

text \<open>
  What \<open>read_some\<close> finds at a socket: bytes that have arrived, the end of the stream, or an
  error. It returns at most as many bytes as the buffer holds and leaves the others.
\<close>

datatype arrival = Bytes "byte list" | Eof | Failure

definition buffer_size :: nat where "buffer_size = 1024"

fun arrived :: "arrival list \<Rightarrow> byte list" where
  "arrived (Bytes bs # es) = bs @ arrived es"
| "arrived _ = []"

text \<open>
  \<open>echoer\<close>: the value is False when the thread still waits in \<open>read_some\<close>, True when it has
  returned at the end of the stream. The arriving bytes are written into the buffer and the
  first \<open>bytes_read\<close> bytes of the buffer are written out.
\<close>

function echoer :: "byte list \<Rightarrow> arrival list \<Rightarrow> (sock, bool) cmd" where
  "echoer buffer [] s = (Inr False, s)"
| "echoer buffer (Eof # es) s = (Inr True, s)"
| "echoer buffer (Failure # es) s = (Inl abort_exn, s)"
| "echoer buffer (Bytes bs # es) s =
     (let n = min buffer_size (length bs); buffer' = overwrite 0 (take n bs) buffer in
      if n = 0 then (Inl abort_exn, s)
      else case asio_write (take n buffer') s of
        (Inl e, s') \<Rightarrow> (Inl abort_exn, s')
      | (Inr _, s') \<Rightarrow>
          echoer buffer' (if length bs \<le> n then es else Bytes (drop n bs) # es) s')"
  by pat_completeness auto
termination
  by (relation "measure (\<lambda>(b, es, s). length (arrived es) + length es)")
     (auto simp: buffer_size_def)

section \<open>A session\<close>

record proxy_session =
  client :: sock
  remote :: sock
  target :: "(u32 \<times> u16) option"

definition on_client :: "(sock, 'a) cmd \<Rightarrow> (proxy_session, 'a) cmd" where
  "on_client = liftc client (\<lambda>c s. s\<lparr>client := c\<rparr>)"

definition on_remote :: "(sock, 'a) cmd \<Rightarrow> (proxy_session, 'a) cmd" where
  "on_remote = liftc remote (\<lambda>c s. s\<lparr>remote := c\<rparr>)"

text \<open>\<open>74.125.228.103\<close>.\<close>

definition fixed_target :: u32 where
  "fixed_target = 0x4A7DE467"

definition bytes_arrive :: "byte list \<Rightarrow> arrival list" where
  "bytes_arrive bs = (if bs = [] then [Eof] else [Bytes bs, Eof])"

text \<open>
  The two threads read from one socket and write to the other; they share nothing else, and
  the session ends when both have ended.
\<close>

definition relay :: "(proxy_session, unit) cmd" where
  "relay =
     bindc getc (\<lambda>s.
     bindc (on_remote (echoer (replicate buffer_size 0) (bytes_arrive (sock_in (client s))))) (\<lambda>_.
     bindc (on_client (echoer (replicate buffer_size 0) (bytes_arrive (sock_in (remote s))))) (\<lambda>_.
     modc (\<lambda>s. s\<lparr>client := (client s)\<lparr>sock_in := []\<rparr>, remote := (remote s)\<lparr>sock_in := []\<rparr>\<rparr>))))"

text \<open>
  \<open>proxy::session\<close>. The network is the parameter \<open>connect\<close>: None for an error of
  \<open>remote.connect\<close>, or the local endpoint of the new connection.
\<close>

definition socks_session ::
  "(u32 \<times> u16 \<Rightarrow> (ip_address \<times> u16) option) \<Rightarrow> (proxy_session, unit) cmd" where
  "socks_session connect =
     bindc (on_client read_identifier) (\<lambda>ident.
     if NO_AUTH_REQUIRED_METHOD \<notin> ident_methods ident then ret ()
     else andthen (on_client (write_method_selection NO_AUTH_REQUIRED_METHOD))
         (bindc (on_client read_request) (\<lambda>req.
          if rq_cmd req \<noteq> CONNECT_COMMAND then ret ()
          else andthen (modc (\<lambda>s. s\<lparr>target := Some (fixed_target, dst_port req)\<rparr>))
              (case connect (fixed_target, dst_port req) of
                 None \<Rightarrow> raise abort_exn
               | Some (ip, port) \<Rightarrow>
                   (case to_variant ip of
                      Inl e \<Rightarrow> raise e
                    | Inr addr \<Rightarrow>
                        andthen (on_client (write_reply
                                   \<lparr>rep_type = SUCCEEDED, bnd_address = addr, bnd_port = port\<rparr>))
                          relay)))))"

text \<open>
  \<open>proxy::listen\<close>: every accepted client (None for an error of \<open>accept\<close>) gets a thread of its
  own. The sessions share no data, so they are run one after the other here; an abort, a failed
  assert or an exception that leaves the thread function ends the whole process.
\<close>

primrec listen ::
  "(u32 \<times> u16 \<Rightarrow> (ip_address \<times> u16) option) \<Rightarrow> proxy_session option list \<Rightarrow>
   (proxy_session list, unit) cmd" where
  "listen connect [] = ret ()"
| "listen connect (c # cs) =
     (case c of
        None \<Rightarrow> raise abort_exn
      | Some s \<Rightarrow>
          (\<lambda>finished. case socks_session connect s of
             (Inl e, s') \<Rightarrow> (Inl e, finished @ [s'])
           | (Inr _, s') \<Rightarrow> listen connect cs (finished @ [s'])))"

section \<open>What the readers accept\<close>

text \<open>
  \<open>consumes m R\<close>: the reader returns \<open>a\<close> exactly when the stream begins with bytes \<open>u\<close> such that
  \<open>R a u\<close>; it then has removed \<open>u\<close> and changed nothing else.
\<close>

definition consumes :: "(sock, 'a) cmd \<Rightarrow> ('a \<Rightarrow> byte list \<Rightarrow> bool) \<Rightarrow> bool" where
  "consumes m R \<longleftrightarrow>
     (\<forall>s a s'. m s = (Inr a, s') \<longleftrightarrow> (\<exists>u. R a u \<and> s = s'\<lparr>sock_in := u @ sock_in s'\<rparr>))"

lemma consumes_ret: "consumes (ret x) (\<lambda>a u. a = x \<and> u = [])"
  by (auto simp: consumes_def ret_def)

lemma consumes_raise: "consumes (raise e) (\<lambda>a u. False)"
  by (simp add: consumes_def raise_def)

lemma consumes_asio_read: "consumes (asio_read n) (\<lambda>a u. a = u \<and> length u = n)"
proof -
  have "asio_read n s = (Inr a, s') \<longleftrightarrow> length a = n \<and> s = s'\<lparr>sock_in := a @ sock_in s'\<rparr>" for s a s'
  proof
    assume "asio_read n s = (Inr a, s')"
    then show "length a = n \<and> s = s'\<lparr>sock_in := a @ sock_in s'\<rparr>"
      by (auto simp: asio_read_def split: if_splits)
  next
    assume "length a = n \<and> s = s'\<lparr>sock_in := a @ sock_in s'\<rparr>"
    then show "asio_read n s = (Inr a, s')"
      by (cases s; cases s') (auto simp: asio_read_def)
  qed
  then show ?thesis by (auto simp: consumes_def)
qed

lemma consumes_bindc:
  assumes m: "consumes m R" and k: "\<And>a. consumes (k a) (Q a)"
  shows "consumes (bindc m k) (\<lambda>b w. \<exists>a u v. R a u \<and> Q a b v \<and> w = u @ v)"
proof -
  have "bindc m k s = (Inr b, s') \<longleftrightarrow> (\<exists>a t. m s = (Inr a, t) \<and> k a t = (Inr b, s'))" for s b s'
    by (auto simp: bindc_def split: prod.splits sum.splits)
  also have "(\<exists>a t. m s = (Inr a, t) \<and> k a t = (Inr b, s')) \<longleftrightarrow>
      (\<exists>a u v. R a u \<and> Q a b v \<and> s = s'\<lparr>sock_in := (u @ v) @ sock_in s'\<rparr>)" for s b s'
    using m k by (fastforce simp: consumes_def)
  finally show ?thesis by (fastforce simp: consumes_def)
qed

lemma consumes_if:
  "consumes m R \<Longrightarrow> consumes n Q \<Longrightarrow>
   consumes (if b then m else n) (\<lambda>a u. if b then R a u else Q a u)"
  by simp

lemma consumes_cong:
  "consumes m R \<Longrightarrow> (\<And>a u. R a u \<longleftrightarrow> Q a u) \<Longrightarrow> consumes m Q"
  by (simp add: consumes_def)

lemmas consumes_rules = consumes_ret consumes_raise consumes_asio_read consumes_bindc consumes_if

lemma consumes_read_octet: "consumes read_octet (\<lambda>b u. u = [b])"
  unfolding read_octet_def
  by (rule consumes_cong, (rule consumes_rules)+) (auto simp: length_Suc_conv)

lemma consumes_read_octets: "consumes (read_octets n) (\<lambda>bs u. u = bs \<and> length bs = n)"
proof (induction n)
  case 0
  show ?case by (simp add: consumes_def ret_def) auto
next
  case (Suc n)
  show ?case
    unfolding read_octets.simps
    by (rule consumes_cong, (rule consumes_bindc consumes_ret consumes_read_octet Suc.IH)+)
       (auto simp: length_Suc_conv)
qed

text \<open>Big-endian byte images: the network order of ports and addresses.\<close>

lemma le_bytes_of_le_bytes:
  assumes "length bs = n" "8 * n \<le> LENGTH('a)"
  shows "le_bytes n (of_le_bytes bs :: 'a::len word) = bs"
proof (rule nth_equalityI)
  fix i assume "i < length (le_bytes n (of_le_bytes bs :: 'a word))"
  then have i: "i < n" by simp
  show "le_bytes n (of_le_bytes bs :: 'a word) ! i = bs ! i"
  proof (rule bit_word_eqI)
    fix k assume k: "k < LENGTH(8)"
    have "(8 * i + k) div 8 = i" "(8 * i + k) mod 8 = k" "8 * i + k < LENGTH('a)"
      using k i assms(2) by simp_all
    then show "bit (le_bytes n (of_le_bytes bs :: 'a word) ! i) k = bit (bs ! i) k"
      using i k assms(1) by (simp add: nth_le_bytes bit_simps bit_of_le_bytes)
  qed
qed (use assms in simp)

definition be_bytes :: "nat \<Rightarrow> 'a::len word \<Rightarrow> byte list" where
  "be_bytes n w = rev (le_bytes n w)"

lemma of_le_bytes_rev_iff:
  fixes w :: "'a::len word"
  assumes "length u = n" "8 * n = LENGTH('a)"
  shows "of_le_bytes (rev u) = w \<longleftrightarrow> u = be_bytes n w"
proof
  assume "of_le_bytes (rev u) = w"
  then have "le_bytes n w = rev u" using assms by (auto intro: le_bytes_of_le_bytes)
  then show "u = be_bytes n w" by (simp add: be_bytes_def)
qed (use assms in \<open>simp add: be_bytes_def of_le_bytes_le_bytes\<close>)

lemma ntohs_of_le_bytes: "ntohs (of_le_bytes [x, y]) = of_le_bytes [y, x]"
proof (rule bit_word_eqI)
  fix k assume k: "k < LENGTH(16)"
  have "\<not> bit x (8 + k)" "\<not> bit y (8 + k)" for k
    using bit_imp_le_length [of x "8 + k"] bit_imp_le_length [of y "8 + k"] by auto
  then show "bit (ntohs (of_le_bytes [x, y])) k = bit (of_le_bytes [y, x] :: u16) k"
    using k by (cases "k < 8") (auto simp: ntohs_def bit_simps not_less le_iff_add)
qed

lemma address_v4_of_bytes:
  "address_v4_of [a, b, c, d] = of_le_bytes [d, c, b, a]"
  by (simp add: address_v4_of_def push_bit_or or.assoc or.commute or.left_commute)

lemma of_le_bytes_narrow:
  assumes "8 * length bs \<le> LENGTH('b)" "8 * length bs \<le> LENGTH('a)"
  shows "ucast (of_le_bytes bs :: 'a::len word) = (of_le_bytes bs :: 'b::len word)"
proof (rule bit_word_eqI)
  fix k assume "k < LENGTH('b)"
  then show "bit (ucast (of_le_bytes bs :: 'a word) :: 'b word) k = bit (of_le_bytes bs :: 'b word) k"
    using assms by (auto simp: bit_simps bit_of_le_bytes)
qed

lemma of_le_bytes_bound:
  assumes "length bs = 4"
  shows "of_le_bytes bs \<le> (0xFFFFFFFF :: u64)"
proof -
  have "of_le_bytes bs = take_bit 32 (of_le_bytes bs :: u64)"
    by (rule bit_word_eqI) (use assms in \<open>auto simp: bit_simps bit_of_le_bytes\<close>)
  then have "of_le_bytes bs = and (of_le_bytes bs) (mask 32 :: u64)"
    by (simp add: take_bit_eq_mask)
  then have "of_le_bytes bs \<le> (mask 32 :: u64)" by (metis word_and_le1)
  then show ?thesis by (simp add: mask_eq_exp_minus_1)
qed

lemma length_4_conv: "length u = 4 \<longleftrightarrow> (\<exists>a b c d. u = [a, b, c, d])"
  by (auto simp: length_Suc_conv eval_nat_numeral)

lemma consumes_read_port: "consumes read_port (\<lambda>p u. u = be_bytes 2 p)"
  unfolding read_port_def
proof (rule consumes_cong, (rule consumes_rules)+)
  fix p :: u16 and w
  have "ntohs (of_le_bytes u) = of_le_bytes (rev u)" if "length u = 2" for u :: "byte list"
    using that
    by (auto simp: length_Suc_conv eval_nat_numeral ntohs_of_le_bytes simp del: of_le_bytes.simps)
  moreover have "of_le_bytes (rev u) = p \<longleftrightarrow> u = be_bytes 2 p" if "length u = 2" for u
    using that by (intro of_le_bytes_rev_iff) auto
  moreover have "length (be_bytes 2 p) = 2" by (simp add: be_bytes_def)
  ultimately show "(\<exists>a u v. (a = u \<and> length u = 2) \<and> (p = ntohs (of_le_bytes a) \<and> v = []) \<and> w = u @ v)
      \<longleftrightarrow> w = be_bytes 2 p" by (metis append_Nil2)
qed

lemma consumes_read_address_v4: "consumes read_address_v4 (\<lambda>a u. u = be_bytes 4 a)"
  unfolding read_address_v4_def Let_def
proof (rule consumes_cong, (rule consumes_rules)+)
  fix x :: u32 and w
  have v: "address_v4_of u \<le> 0xFFFFFFFF \<and> ucast (address_v4_of u) = (of_le_bytes (rev u) :: u32)"
    if "length u = 4" for u
  proof -
    have "address_v4_of u = of_le_bytes (rev u)"
      using that by (auto simp: length_4_conv address_v4_of_bytes simp del: of_le_bytes.simps)
    then show ?thesis using that by (simp add: of_le_bytes_bound of_le_bytes_narrow)
  qed
  have r: "of_le_bytes (rev u) = x \<longleftrightarrow> u = be_bytes 4 x" if "length u = 4" for u
    using that by (intro of_le_bytes_rev_iff) auto
  have l: "length (be_bytes 4 x) = 4" by (simp add: be_bytes_def)
  show "(\<exists>a u v. (a = u \<and> length u = 4) \<and>
      (if 0xFFFFFFFF < address_v4_of a then False else x = ucast (address_v4_of a) \<and> v = []) \<and> w = u @ v)
      \<longleftrightarrow> w = be_bytes 4 x" (is "?L \<longleftrightarrow> ?R")
  proof
    assume ?L then show ?R using v r by (auto split: if_splits)
  next
    assume ?R then show ?L using v [OF l] r [OF l] l
      by (intro exI [of _ w] exI [of _ "[]"]) (auto simp: not_less)
  qed
qed

lemma unat_octet_iff: "unat (n :: byte) = l \<longleftrightarrow> n = of_nat l \<and> l < 256"
proof
  assume l: "unat n = l"
  have "n = of_nat (unat n)" by simp
  then show "n = of_nat l \<and> l < 256" using l unsigned_less [of n, where ?'a = nat] by simp
qed (simp add: unat_of_nat take_bit_nat_eq_self)

lemma consumes_read_domain_address:
  "consumes read_domain_address
     (\<lambda>d u. 0 < length d \<and> length d < 256 \<and> u = of_nat (length d) # d)"
  unfolding read_domain_address_def
proof (rule consumes_cong, (rule consumes_rules consumes_read_octet)+)
  fix d w :: "byte list"
  have n: "unat n = length d \<longleftrightarrow> n = of_nat (length d) \<and> length d < 256" for n :: byte
    by (rule unat_octet_iff)
  have z: "n = 0 \<longleftrightarrow> unat n = 0" for n :: byte by (simp add: unat_eq_zero)
  show "(\<exists>a u v. u = [a] \<and>
      (if a = 0 then False
       else \<exists>aa ua va. (aa = ua \<and> length ua = unat a) \<and> (d = aa \<and> va = []) \<and> v = ua @ va) \<and>
      w = u @ v) \<longleftrightarrow> 0 < length d \<and> length d < 256 \<and> w = of_nat (length d) # d" (is "?L \<longleftrightarrow> ?R")
  proof
    assume ?L
    then obtain a where "a \<noteq> 0" "unat a = length d" "w = a # d" by (auto split: if_splits)
    then show ?R using n [of a] z [of a] by simp
  next
    assume ?R
    moreover from this have "unat (of_nat (length d) :: byte) = length d" by (simp add: n)
    ultimately show ?L
      by (intro exI [of _ "of_nat (length d)"] exI [of _ "[of_nat (length d)]"] exI [of _ d]) (auto simp: z)
  qed
qed

text \<open>
  The wire format of a request and of an identifier as RFC 1928 gives it, for the address types
  the proxy knows.
\<close>

primrec address_bytes :: "address \<Rightarrow> byte list" where
  "address_bytes (Address_v4 a) = IPV4_ADDRESS # be_bytes 4 a"
| "address_bytes (Domain_address d) = DOMAIN_ADDRESS # of_nat (length d) # d"

primrec address_ok :: "address \<Rightarrow> bool" where
  "address_ok (Address_v4 a) \<longleftrightarrow> True"
| "address_ok (Domain_address d) \<longleftrightarrow> 0 < length d \<and> length d < 256"

definition request_bytes :: "socks_request \<Rightarrow> byte list" where
  "request_bytes r = [5, rq_cmd r, 0] @ address_bytes (dst_addr r) @ be_bytes 2 (dst_port r)"

definition identifier_bytes :: "byte list \<Rightarrow> byte list" where
  "identifier_bytes ms = [5, of_nat (length ms)] @ ms"

lemma consumes_read_address: "consumes read_address (\<lambda>a u. address_ok a \<and> u = address_bytes a)"
  unfolding read_address_def
proof (rule consumes_cong, (rule consumes_rules consumes_read_octet consumes_read_address_v4
    consumes_read_domain_address)+, goal_cases)
  case (1 a u)
  show ?case
  proof (cases a)
    case (Address_v4 x)
    then show ?thesis by (auto simp: socks_codes) (rule exI [of _ 1], simp)
  next
    case (Domain_address d)
    then show ?thesis by (auto simp: socks_codes) (rule exI [of _ 3], simp)
  qed
qed

lemma consumes_read_request:
  "consumes read_request (\<lambda>r u. address_ok (dst_addr r) \<and> u = request_bytes r)"
  unfolding read_request_def
proof (rule consumes_cong, (rule consumes_rules consumes_read_octet consumes_read_address
    consumes_read_port)+, goal_cases)
  case (1 r u)
  show ?case by (cases r) (auto simp: request_bytes_def)
qed

lemma consumes_read_identifier:
  "consumes read_identifier
     (\<lambda>i u. \<exists>ms. i = identifier_of ms \<and> length ms < 256 \<and> u = identifier_bytes ms)"
  unfolding read_identifier_def
proof (rule consumes_cong, (rule consumes_rules consumes_read_octet consumes_read_octets)+, goal_cases)
  case (1 i u)
  have *: "length ms = unat n \<longleftrightarrow> n = of_nat (length ms) \<and> length ms < 256" for n :: byte and ms :: "byte list"
    using unat_octet_iff [of n "length ms"] by auto
  show ?case by (auto simp: identifier_bytes_def *)
qed

text \<open>C33: The request reader of the SOCKS proxy accepts exactly the encodings of RFC 1928 with
  an IPv4 address or a domain name of 1 to 255 bytes: it returns the request \<open>r\<close> and leaves the
  stream \<open>rest\<close> if and only if the stream is the encoding of \<open>r\<close> (version 5, command, a zero
  byte, address type, address, port in network order) followed by \<open>rest\<close>. In particular reading
  undoes encoding, and no other input is taken for a request.\<close>

theorem socks_request_accepts:
  "read_request s = (Inr r, s') \<longleftrightarrow>
     address_ok (dst_addr r) \<and> sock_in s = request_bytes r @ sock_in s' \<and>
     s' = s\<lparr>sock_in := sock_in s'\<rparr>"
proof -
  have "read_request s = (Inr r, s') \<longleftrightarrow>
      (\<exists>u. (address_ok (dst_addr r) \<and> u = request_bytes r) \<and> s = s'\<lparr>sock_in := u @ sock_in s'\<rparr>)"
    using consumes_read_request by (simp add: consumes_def)
  then show ?thesis by (cases s; cases s') auto
qed

section \<open>What the writers send\<close>

lemma asio_write_Nil: "asio_write [] = ret ()"
  by (rule ext) (simp add: asio_write_def ret_def)

lemma asio_write_append: "andthen (asio_write v) (asio_write w) = asio_write (v @ w)"
  by (rule ext) (auto simp: andthen_def bindc_def asio_write_def)

lemma write_octets_asio: "write_octets bs = asio_write bs"
  by (induction bs) (simp_all add: asio_write_Nil write_octet_def asio_write_append)

lemma le_bytes_2_ntohs: "le_bytes 2 (ntohs p) = be_bytes 2 p"
proof -
  obtain x y where xy: "le_bytes 2 p = [x, y]" by (simp add: numeral_2_eq_2)
  then have "p = of_le_bytes [x, y]" by (metis of_le_bytes_2)
  then have "le_bytes 2 (ntohs p) = le_bytes 2 (of_le_bytes [y, x] :: u16)"
    by (simp only: ntohs_of_le_bytes)
  also have "\<dots> = [y, x]" by (rule le_bytes_of_le_bytes) simp_all
  finally show ?thesis by (simp add: be_bytes_def xy)
qed

definition reply_bytes :: "byte \<Rightarrow> u32 \<Rightarrow> u16 \<Rightarrow> byte list" where
  "reply_bytes t a p = [5, t, 0] @ address_bytes (Address_v4 a) @ be_bytes 2 p"

lemma write_reply_v4:
  "write_reply \<lparr>rep_type = t, bnd_address = Address_v4 a, bnd_port = p\<rparr> = asio_write (reply_bytes t a p)"
  by (simp add: write_reply_def write_octet_def write_port_def write_octets_asio asio_write_append
      le_bytes_2_ntohs v4_bytes_def reply_bytes_def flip: be_bytes_def)

lemma write_method_selection_asio: "write_method_selection m = asio_write [5, m]"
  by (simp add: write_method_selection_def write_octet_def asio_write_append)

section \<open>What the copying threads transfer\<close>

text \<open>A stream of non-empty deliveries that ends with the end of the stream.\<close>

fun orderly :: "arrival list \<Rightarrow> bool" where
  "orderly [Eof] \<longleftrightarrow> True"
| "orderly (Bytes bs # es) \<longleftrightarrow> bs \<noteq> [] \<and> orderly es"
| "orderly _ \<longleftrightarrow> False"

lemma take_overwrite_0:
  "length v \<le> length buf \<Longrightarrow> take (length v) (overwrite 0 v buf) = v"
  by (simp add: overwrite_def)

text \<open>One round of the loop: the bytes left over, the buffer and the socket after it.\<close>

declare echoer.simps(4) [simp del]

definition taken :: "byte list \<Rightarrow> byte list" where
  "taken bs = take buffer_size bs"

definition left_over :: "byte list \<Rightarrow> arrival list \<Rightarrow> arrival list" where
  "left_over bs es = (if length bs \<le> buffer_size then es else Bytes (drop buffer_size bs) # es)"

lemma arrived_left_over: "arrived (Bytes bs # es) = taken bs @ arrived (left_over bs es)"
  by (simp add: taken_def left_over_def)

lemma orderly_left_over: "orderly (Bytes bs # es) \<Longrightarrow> orderly (left_over bs es)"
  by (simp add: left_over_def)

lemma echoer_round:
  assumes "length buffer = buffer_size"
  shows "echoer buffer (Bytes bs # es) s =
    (if bs = [] then (Inl abort_exn, s)
     else case asio_write (taken bs) s of
       (Inl e, s') \<Rightarrow> (Inl abort_exn, s')
     | (Inr _, s') \<Rightarrow> echoer (overwrite 0 (taken bs) buffer) (left_over bs es) s')"
proof -
  have t: "take (min buffer_size (length bs)) bs = taken bs" by (simp add: taken_def min_def)
  have "take (min buffer_size (length bs)) (overwrite 0 (taken bs) buffer) = taken bs"
    using take_overwrite_0 [of "taken bs" buffer] assms by (simp add: taken_def min.commute)
  moreover have "min buffer_size (length bs) = 0 \<longleftrightarrow> bs = []"
    by (auto simp: buffer_size_def min_def)
  moreover have "(if length bs \<le> min buffer_size (length bs) then es
      else Bytes (drop (min buffer_size (length bs)) bs) # es) = left_over bs es"
    by (auto simp: left_over_def min_def)
  ultimately show ?thesis unfolding echoer.simps(4) Let_def t by (simp only:)
qed

lemma echoer_arrivals_induct:
  assumes "\<And>es. (\<And>bs es'. es = Bytes bs # es' \<Longrightarrow> bs \<noteq> [] \<Longrightarrow> P (left_over bs es')) \<Longrightarrow> P es"
  shows "P es"
proof (induction "length (arrived es) + length es" arbitrary: es rule: less_induct)
  case less
  show ?case
  proof (rule assms)
    fix bs es' assume "es = Bytes bs # es'" "bs \<noteq> []"
    then show "P (left_over bs es')" by (intro less) (auto simp: left_over_def buffer_size_def)
  qed
qed

lemma echoer_orderly:
  assumes "orderly es" "length (arrived es) \<le> sock_room s" "length buffer = buffer_size"
  shows "echoer buffer es s =
    (Inr True, s\<lparr>sock_out := sock_out s @ arrived es, sock_room := sock_room s - length (arrived es)\<rparr>)"
  using assms
proof (induction es arbitrary: s buffer rule: echoer_arrivals_induct)
  case (1 es)
  show ?case
  proof (cases es rule: orderly.cases)
    case (2 bs es')
    then have bs: "bs \<noteq> []" "orderly (left_over bs es')"
      using "1.prems"(1) orderly_left_over by auto
    have a: "arrived es = taken bs @ arrived (left_over bs es')"
      unfolding 2 by (rule arrived_left_over)
    have "asio_write (taken bs) s =
        (Inr (), s\<lparr>sock_out := sock_out s @ taken bs, sock_room := sock_room s - length (taken bs)\<rparr>)"
      using "1.prems"(2) by (simp add: a asio_write_def)
    moreover have "length (overwrite 0 (taken bs) buffer) = buffer_size"
      using "1.prems"(3) by (simp add: taken_def)
    ultimately show ?thesis
      using "1.IH" [OF 2 bs(1,2)] bs(1) "1.prems"(2,3) a
      by (simp add: 2 echoer_round del: arrived.simps)
  qed (use "1.prems" in auto)
qed

text \<open>A copying thread never reorders, drops or invents bytes: however the bytes arrive and
  whatever write fails, what it has written to the other socket when it returns, waits or aborts
  is a prefix of the bytes that arrived before the end of the stream.\<close>

theorem echoer_prefix:
  assumes "length buffer = buffer_size"
  shows "\<exists>p. sock_out (snd (echoer buffer es s)) = sock_out s @ p \<and> prefix p (arrived es)"
  using assms
proof (induction es arbitrary: s buffer rule: echoer_arrivals_induct)
  case (1 es)
  show ?case
  proof (cases es rule: orderly.cases)
    case (2 bs es')
    show ?thesis
    proof (cases "bs = [] \<or> sock_room s < length (taken bs)")
      case True
      have "prefix (take (sock_room s) (taken bs)) (arrived es)"
        unfolding 2 arrived_left_over by (meson prefix_prefix take_is_prefix)
      then show ?thesis using True "1.prems" by (auto simp: 2 echoer_round asio_write_def)
    next
      case False
      moreover have "length (overwrite 0 (taken bs) buffer) = buffer_size"
        using "1.prems" by (simp add: taken_def)
      ultimately obtain p where "prefix p (arrived (left_over bs es'))"
        "sock_out (snd (echoer buffer es s)) = sock_out s @ taken bs @ p"
        using "1.IH" [OF 2, of "overwrite 0 (taken bs) buffer"
            "s\<lparr>sock_out := sock_out s @ taken bs, sock_room := sock_room s - length (taken bs)\<rparr>"] "1.prems"
        by (auto simp: 2 echoer_round asio_write_def)
      then show ?thesis unfolding 2 arrived_left_over by auto
    qed
  qed (auto)
qed

theorem echoer_prefix_witness:
  "\<exists>p. sock_out (snd (echoer (replicate buffer_size 0) [Bytes [1, 2], Failure]
        \<lparr>sock_in = [], sock_out = [7], sock_room = 9\<rparr>)) = [7] @ p \<and> prefix p [1, 2]"
  using echoer_prefix [of "replicate buffer_size 0" "[Bytes [1, 2], Failure]"
      "\<lparr>sock_in = [], sock_out = [7], sock_room = 9\<rparr>"] by simp

section \<open>Sessions\<close>

lemma arrived_bytes_arrive: "arrived (bytes_arrive bs) = bs"
  by (simp add: bytes_arrive_def)

lemma orderly_bytes_arrive: "orderly (bytes_arrive bs)"
  by (simp add: bytes_arrive_def)

lemma consumes_Inr:
  assumes "consumes m R" "R a u" "sock_in c = u @ rest"
  shows "m c = (Inr a, c\<lparr>sock_in := rest\<rparr>)"
proof -
  have "c = (c\<lparr>sock_in := rest\<rparr>)\<lparr>sock_in := u @ sock_in (c\<lparr>sock_in := rest\<rparr>)\<rparr>"
    using assms(3) by (cases c) simp
  then show ?thesis using assms(1,2) unfolding consumes_def by blast
qed

lemma asio_write_Inr:
  "length bs \<le> sock_room c \<Longrightarrow> asio_write bs c =
     (Inr (), c\<lparr>sock_out := sock_out c @ bs, sock_room := sock_room c - length bs\<rparr>)"
  by (simp add: asio_write_def)

lemma relay_copies:
  assumes "length (sock_in (client s)) \<le> sock_room (remote s)"
      and "length (sock_in (remote s)) \<le> sock_room (client s)"
  shows "relay s = (Inr (), s\<lparr>
    client := \<lparr>sock_in = [], sock_out = sock_out (client s) @ sock_in (remote s),
               sock_room = sock_room (client s) - length (sock_in (remote s))\<rparr>,
    remote := \<lparr>sock_in = [], sock_out = sock_out (remote s) @ sock_in (client s),
               sock_room = sock_room (remote s) - length (sock_in (client s))\<rparr>\<rparr>)"
  using assms
  by (cases "client s"; cases "remote s")
     (simp add: relay_def bindc_def getc_def modc_def on_remote_def on_client_def liftc_def
        echoer_orderly orderly_bytes_arrive arrived_bytes_arrive)

text \<open>C21: A session of the SOCKS proxy, end to end. When a client offers the method "no
  authentication", asks to CONNECT and then sends a payload, the connection succeeds with a local
  IPv4 endpoint and neither side stops reading, then the session returns after having sent the
  client the method selection 05 00 and a success reply with the local endpoint, followed by
  exactly the bytes of the remote; the remote receives exactly the payload, and the connection is
  made to the port of the request, but always to the address 74.125.228.103, whatever the address
  or domain name in the request.\<close>

theorem socks_session_relays:
  assumes hello: "NO_AUTH_REQUIRED_METHOD \<in> set ms" "length ms < 256"
      and rq: "rq_cmd r = CONNECT_COMMAND" "address_ok (dst_addr r)"
      and inp: "sock_in (client s) = identifier_bytes ms @ request_bytes r @ payload"
      and con: "connect (fixed_target, dst_port r) = Some (Ip_v4 a, p)"
      and room: "length payload \<le> sock_room (remote s)"
        "2 + length (reply_bytes SUCCEEDED a p) + length (sock_in (remote s)) \<le> sock_room (client s)"
  shows "\<exists>s'. socks_session connect s = (Inr (), s') \<and>
    target s' = Some (fixed_target, dst_port r) \<and>
    sock_out (client s') =
      sock_out (client s) @ [5, 0] @ reply_bytes SUCCEEDED a p @ sock_in (remote s) \<and>
    sock_out (remote s') = sock_out (remote s) @ payload"
proof -
  have i: "read_identifier (client s) =
      (Inr (identifier_of ms), (client s)\<lparr>sock_in := request_bytes r @ payload\<rparr>)"
    by (rule consumes_Inr [OF consumes_read_identifier _ inp]) (use hello in blast)
  have m: "NO_AUTH_REQUIRED_METHOD \<in> ident_methods (identifier_of ms)"
    using hello(1) by (simp add: identifier_of_def union_set_fold [symmetric])
  have q: "read_request c = (Inr r, c\<lparr>sock_in := payload\<rparr>)" if "sock_in c = request_bytes r @ payload" for c
    using consumes_Inr [OF consumes_read_request _ that] rq(2) by simp
  show ?thesis
    using i m rq room con
    by (simp add: q socks_session_def bindc_def andthen_def on_client_def liftc_def modc_def
        write_method_selection_asio asio_write_def relay_copies write_reply_v4 socks_codes)
qed

definition socks_demo_request :: socks_request where
  "socks_demo_request =
     \<lparr>rq_cmd = CONNECT_COMMAND, dst_addr = Domain_address [97, 46, 98], dst_port = 80\<rparr>"

definition socks_demo :: proxy_session where
  "socks_demo =
     \<lparr>client = \<lparr>sock_in = identifier_bytes [2, 0] @ request_bytes socks_demo_request @ [71, 69, 84],
                sock_out = [], sock_room = 100\<rparr>,
      remote = \<lparr>sock_in = [79, 75], sock_out = [], sock_room = 100\<rparr>,
      target = None\<rparr>"

theorem socks_session_relays_witness:
  "\<exists>s'. socks_session (\<lambda>e. Some (Ip_v4 0x0A000001, 40000)) socks_demo = (Inr (), s') \<and>
    target s' = Some (fixed_target, 80) \<and>
    sock_out (client s') = [5, 0] @ [5, 0, 0, 1, 10, 0, 0, 1, 156, 64] @ [79, 75] \<and>
    sock_out (remote s') = [71, 69, 84]"
proof -
  have r: "reply_bytes SUCCEEDED 0x0A000001 40000 = [5, 0, 0, 1, 10, 0, 0, 1, 156, 64]"
    by code_simp
  show ?thesis
    using socks_session_relays [of "[2, 0]" socks_demo_request socks_demo "[71, 69, 84]"
        "\<lambda>e. Some (Ip_v4 0x0A000001, 40000)" "0x0A000001" 40000]
    unfolding r by (simp add: socks_demo_def socks_demo_request_def socks_codes)
qed

text \<open>
  One client ends the service for all: the first byte of a client that is not the version number
  fails an assert, and no client after it is served.
\<close>

theorem socks_bad_client_stops_proxy:
  assumes "sock_in (client s) = b # bs" "b \<noteq> 5"
  shows "listen connect (Some s # cs) finished =
    (Inl (Assert_fail ''version == 5''), finished @ [s\<lparr>client := (client s)\<lparr>sock_in := bs\<rparr>\<rparr>])"
proof -
  have "read_octet (client s) = (Inr b, (client s)\<lparr>sock_in := bs\<rparr>)"
    by (rule consumes_Inr [OF consumes_read_octet refl]) (use assms in simp)
  then show ?thesis
    using assms(2)
    by (simp add: socks_session_def on_client_def liftc_def bindc_def read_identifier_def raise_def)
qed

end
