(* ===== verification/Rpc_Connection.thy ===== *)
theory Rpc_Connection
  imports Raw_Rpc Std_Map
begin

text \<open>
  The first generation of the remote calls (\<open>src/rpc/connection.cpp\<close>, \<open>udp_connection.cpp\<close>,
  \<open>udt_connection.cpp\<close>, \<open>service.cpp\<close>). Here a call is remembered in a map from its 16-bit
  number, a failure of the remote method comes back as an exception, and closing the channel
  breaks the promises. A promise is an object with the way its type reads a result and the list
  of what has been set on it; it lives as long as the map refers to it, and its destructor breaks
  it when nothing has been set. The transport is the virtual method \<open>send\<close>: what it makes of a
  message, or its exception; what was sent is the list of packets. \<open>diag\<close> is the text that
  \<open>boost::diagnostic_information\<close> makes of an exception.
\<close>

section \<open>State\<close>

datatype 'v setting = Set_value 'v | Set_exception "byte list" | Set_broken

record 'v pending_result =
  pn_unpack :: "byte list \<Rightarrow> 'v res"
  pn_set :: "'v setting list"

record ('v, 's) rpc_con =
  rc_methods :: "u16 \<Rightarrow> 's rpc_method option"
  rc_pending :: "(u16, nat) std_map"
  rc_next :: u16
  rc_promises :: "'v pending_result list"
  rc_service :: 's
  rc_encode :: "rpc_message \<Rightarrow> byte list res"
  rc_sent :: "byte list list"
  rc_closed :: bool

definition rc_new :: "(rpc_message \<Rightarrow> byte list res) \<Rightarrow> 's \<Rightarrow> ('v, 's) rpc_con" where
  "rc_new enc sv = \<lparr>rc_methods = Map.empty, rc_pending = [], rc_next = 0, rc_promises = [], rc_service = sv,
     rc_encode = enc, rc_sent = [], rc_closed = False\<rparr>"

definition settle :: "nat \<Rightarrow> 'v setting \<Rightarrow> 'v pending_result list \<Rightarrow> 'v pending_result list" where
  "settle a v ps = ps[a := (ps ! a)\<lparr>pn_set := pn_set (ps ! a) @ [v]\<rparr>]"

text \<open>The last reference to a promise goes away: \<open>~pending_result_impl\<close>.\<close>

definition release :: "nat \<Rightarrow> 'v pending_result list \<Rightarrow> 'v pending_result list" where
  "release a ps = (if pn_set (ps ! a) = [] then settle a Set_broken ps else ps)"

section \<open>Calls\<close>

definition rc_add_method :: "u16 \<Rightarrow> 's rpc_method \<Rightarrow> ('v, 's) rpc_con \<Rightarrow> ('v, 's) rpc_con" where
  "rc_add_method mid f s = s\<lparr>rc_methods := (rc_methods s)(mid \<mapsto> f)\<rparr>"

definition con_send :: "rpc_message \<Rightarrow> (('v, 's) rpc_con, unit) cmd" where
  "con_send m s =
     (case rc_encode s m of
        Inl e \<Rightarrow> (Inl e, s)
      | Inr bs \<Rightarrow> (Inr (), s\<lparr>rc_sent := rc_sent s @ [bs]\<rparr>))"

text \<open>\<open>pending_results[id] = pr\<close>: the promise that was there is released.\<close>

definition remember :: "u16 \<Rightarrow> nat \<Rightarrow> ('v, 's) rpc_con \<Rightarrow> ('v, 's) rpc_con" where
  "remember i a s =
     s\<lparr>rc_pending := sm_put i a (rc_pending s),
       rc_promises := (case sm_get (rc_pending s) i of
          None \<Rightarrow> rc_promises s | Some b \<Rightarrow> release b (rc_promises s))\<rparr>"

definition next_method_id :: "(('v, 's) rpc_con, u16) cmd" where
  "next_method_id s = (Inr (rc_next s + 1), s\<lparr>rc_next := rc_next s + 1\<rparr>)"

text \<open>
  \<open>call\<close>, with the parameters already packed; the value is the address of the promise. When the
  message cannot be sent the exception leaves \<open>call\<close>, and the new promise is released.
\<close>

definition con_call :: "u16 \<Rightarrow> byte list \<Rightarrow> (byte list \<Rightarrow> 'v res) \<Rightarrow> (('v, 's) rpc_con, nat) cmd" where
  "con_call mid arg unp =
     bindc next_method_id (\<lambda>i.
     bindc (\<lambda>s. (Inr (length (rc_promises s)),
                s\<lparr>rc_promises := rc_promises s @ [\<lparr>pn_unpack = unp, pn_set = []\<rparr>]\<rparr>)) (\<lambda>a s.
     case con_send \<lparr>rm_id = i, rm_type = rpc_call, rm_method = ucast mid, rm_data = arg\<rparr> s of
       (Inl e, s') \<Rightarrow> (Inl e, s'\<lparr>rc_promises := release a (rc_promises s')\<rparr>)
     | (Inr _, s') \<Rightarrow> (Inr a, remember i a s')))"

section \<open>Handlers\<close>

text \<open>The number of a method is cut to the 16 bits of the keys of the table.\<close>

definition find_method :: "rpc_message \<Rightarrow> ('v, 's) rpc_con \<Rightarrow> 's rpc_method option" where
  "find_method m s = rc_methods s (ucast (rm_method m))"

definition invalid_method :: "byte list" where
  "invalid_method = map (\<lambda>c. of_nat (of_char c)) ''Invalid Method ID''"

definition con_error :: "u16 \<Rightarrow> byte list \<Rightarrow> rpc_message" where
  "con_error i text = \<lparr>rm_id = i, rm_type = rpc_error, rm_method = 0, rm_data = pack_bytes text\<rparr>"

definition con_result :: "u16 \<Rightarrow> byte list \<Rightarrow> rpc_message" where
  "con_result i d = \<lparr>rm_id = i, rm_type = rpc_result, rm_method = 0, rm_data = d\<rparr>"

definition handle_call :: "(string \<Rightarrow> byte list) \<Rightarrow> rpc_message \<Rightarrow> (('v, 's) rpc_con, unit) cmd" where
  "handle_call diag m s =
     (case find_method m s of
        Some f \<Rightarrow>
          (case f (rm_data m) (rc_service s) of
             (Inr d, sv) \<Rightarrow> con_send (con_result (rm_id m) d) (s\<lparr>rc_service := sv\<rparr>)
           | (Inl (Throw t), sv) \<Rightarrow> con_send (con_error (rm_id m) (diag t)) (s\<lparr>rc_service := sv\<rparr>)
           | (Inl e, sv) \<Rightarrow> (Inl e, s\<lparr>rc_service := sv\<rparr>))
      | None \<Rightarrow> con_send (con_error (rm_id m) invalid_method) s)"

definition handle_notice :: "rpc_message \<Rightarrow> (('v, 's) rpc_con, unit) cmd" where
  "handle_notice m s =
     (case find_method m s of
        Some f \<Rightarrow>
          (case f (rm_data m) (rc_service s) of
             (Inr _, sv) \<Rightarrow> (Inr (), s\<lparr>rc_service := sv\<rparr>)
           | (Inl (Throw _), sv) \<Rightarrow> (Inr (), s\<lparr>rc_service := sv\<rparr>)
           | (Inl e, sv) \<Rightarrow> (Inl e, s\<lparr>rc_service := sv\<rparr>))
      | None \<Rightarrow> (Inr (), s))"

text \<open>A promise is set and then leaves the map.\<close>

definition finish :: "u16 \<Rightarrow> nat \<Rightarrow> 'v setting \<Rightarrow> ('v, 's) rpc_con \<Rightarrow> ('v, 's) rpc_con" where
  "finish i a v s =
     s\<lparr>rc_promises := release a (settle a v (rc_promises s)), rc_pending := sm_del i (rc_pending s)\<rparr>"

definition con_handle_result :: "rpc_message \<Rightarrow> (('v, 's) rpc_con, unit) cmd" where
  "con_handle_result m s =
     (case sm_get (rc_pending s) (rm_id m) of
        None \<Rightarrow> (Inr (), s)
      | Some a \<Rightarrow>
          (case pn_unpack (rc_promises s ! a) (rm_data m) of
             Inl e \<Rightarrow> (Inl e, s)
           | Inr v \<Rightarrow> (Inr (), finish (rm_id m) a (Set_value v) s)))"

text \<open>\<open>unpack_vec\<close> leaves the string empty when there are no bytes.\<close>

definition unpack_text :: "byte list \<Rightarrow> byte list res" where
  "unpack_text bs = (if bs = [] then Inr [] else fst (unpack_bytes bs))"

definition con_handle_error :: "rpc_message \<Rightarrow> (('v, 's) rpc_con, unit) cmd" where
  "con_handle_error m s =
     (case sm_get (rc_pending s) (rm_id m) of
        None \<Rightarrow> (Inr (), s)
      | Some a \<Rightarrow>
          (case unpack_text (rm_data m) of
             Inl e \<Rightarrow> (Inl e, s)
           | Inr emsg \<Rightarrow> (Inr (), finish (rm_id m) a (Set_exception emsg) s)))"

text \<open>Every promise of the map gets the exception; the map keeps its entries.\<close>

definition break_promises :: "('v, 's) rpc_con \<Rightarrow> ('v, 's) rpc_con" where
  "break_promises s =
     s\<lparr>rc_promises := fold (\<lambda>(i, a). settle a Set_broken) (rc_pending s) (rc_promises s)\<rparr>"

text \<open>The destructor deletes the map and with it the references to the promises.\<close>

definition con_destroy :: "('v, 's) rpc_con \<Rightarrow> ('v, 's) rpc_con" where
  "con_destroy s =
     s\<lparr>rc_promises := fold (\<lambda>(i, a). release a) (rc_pending s) (rc_promises s), rc_pending := []\<rparr>"

definition con_dispatch :: "(string \<Rightarrow> byte list) \<Rightarrow> rpc_message \<Rightarrow> (('v, 's) rpc_con, unit) cmd" where
  "con_dispatch diag m =
     (if rm_type m = rpc_notice then handle_notice m
      else if rm_type m = rpc_call then handle_call diag m
      else if rm_type m = rpc_result then con_handle_result m
      else if rm_type m = rpc_error then con_handle_error m
      else ret ())"

section \<open>Datagrams and streams\<close>

text \<open>A datagram is packed into a buffer of 2048 bytes; what does not fit throws.\<close>

definition udp_encode :: "rpc_message \<Rightarrow> byte list res" where
  "udp_encode m =
     (if length (pack_message m) \<le> 2048 then Inr (pack_message m)
      else Inl (Throw ''Attempt to write beyond end of buffer''))"

definition udp_on_recv :: "(string \<Rightarrow> byte list) \<Rightarrow> byte list option \<Rightarrow> (('v, 's) rpc_con, unit) cmd" where
  "udp_on_recv diag p s =
     (case p of
        Some bs \<Rightarrow>
          (case unpack_message bs of
             (Inl e, _) \<Rightarrow> (Inl e, s)
           | (Inr m, _) \<Rightarrow> con_dispatch diag m s)
      | None \<Rightarrow> (Inr (), (break_promises s)\<lparr>rc_closed := True\<rparr>))"

definition udt_encode :: "rpc_message \<Rightarrow> byte list res" where
  "udt_encode m = Inr (pack_message m)"

lemma st_read_length: "st_read n s = (Inr x, r) \<Longrightarrow> n \<le> length s \<and> length r = length s - n"
  by (auto simp: st_read_def split: if_splits)

lemma unpack_uint_length: "unpack_uint v sh s = (Inr x, r) \<Longrightarrow> length r \<le> length s"
  by (induction v sh s rule: unpack_uint.induct) (auto simp: Let_def split: if_splits)

lemma unpack_unsigned_length: "unpack_unsigned s = (Inr x, r) \<Longrightarrow> length r \<le> length s"
  using unpack_uint_length by (auto simp: unpack_unsigned_def bindc_def ret_def split: prod.splits sum.splits)

lemma unpack_message_length: "unpack_message s = (Inr m, r) \<Longrightarrow> length r < length s"
  by (auto simp: unpack_message_def unpack_pod_def unpack_bytes_def bindc_def ret_def
      split: prod.splits sum.splits dest!: st_read_length unpack_unsigned_length)

text \<open>\<open>read_loop\<close> on the bytes the stream delivers: an exception, of the stream or of a handler, ends it.\<close>

function udt_read_loop :: "(string \<Rightarrow> byte list) \<Rightarrow> byte list \<Rightarrow> (('v, 's) rpc_con, unit) cmd" where
  "udt_read_loop diag strm s =
     (case unpack_message strm of
        (Inl e, _) \<Rightarrow> (Inl e, s)
      | (Inr m, r) \<Rightarrow>
          (case con_dispatch diag m s of
             (Inl e, s') \<Rightarrow> (Inl e, s')
           | (Inr _, s') \<Rightarrow> udt_read_loop diag r s'))"
  by pat_completeness auto
termination
  by (relation "measure (\<lambda>(d, strm, s). length strm)") (auto dest: unpack_message_length [OF sym])

declare udt_read_loop.simps [simp del]

section \<open>Services\<close>

text \<open>
  The visitor of a service numbers the members of the interface in their order, and so does the
  visitor of a client.
\<close>

fun register_methods :: "u16 \<Rightarrow> 's rpc_method list \<Rightarrow> ('v, 's) rpc_con \<Rightarrow> ('v, 's) rpc_con" where
  "register_methods mid [] s = s"
| "register_methods mid (f # fs) s = register_methods (mid + 1) fs (rc_add_method mid f s)"

fun client_members :: "u16 \<Rightarrow> 'm list \<Rightarrow> ('m \<times> u16) list" where
  "client_members mid [] = []"
| "client_members mid (m # ms) = (m, mid) # client_members (mid + 1) ms"

text \<open>A service keeps its connections, by address, with the data of each.\<close>

record 'd rpc_service =
  rs_port :: u16
  rs_services :: "(u16 \<times> bool) list"
  rs_connections :: "(nat \<times> 'd) list"

text \<open>The constructor offers the port for datagrams and the next one for streams (True).\<close>

definition service_new :: "u16 \<Rightarrow> 'd rpc_service" where
  "service_new port = \<lparr>rs_port = port, rs_services = [(port, False), (port + 1, True)], rs_connections = []\<rparr>"

definition on_udp_connection :: "nat \<Rightarrow> 'd \<Rightarrow> 'd rpc_service \<Rightarrow> 'd rpc_service" where
  "on_udp_connection con d s = s\<lparr>rs_connections := rs_connections s @ [(con, d)]\<rparr>"

definition on_udt_connection :: "nat \<Rightarrow> 'd \<Rightarrow> 'd rpc_service \<Rightarrow> 'd rpc_service" where
  "on_udt_connection con d s = s\<lparr>rs_connections := rs_connections s @ [(con, d)]\<rparr>"

fun erase_connection :: "nat \<Rightarrow> (nat \<times> 'd) list \<Rightarrow> (nat \<times> 'd) list" where
  "erase_connection p [] = []"
| "erase_connection p (c # cs) = (if fst c = p then cs else c # erase_connection p cs)"

definition service_on_close :: "nat \<Rightarrow> 'd rpc_service \<Rightarrow> 'd rpc_service" where
  "service_on_close p s = s\<lparr>rs_connections := erase_connection p (rs_connections s)\<rparr>"

section \<open>Promises are set once\<close>

text \<open>
  What is in the map is alive, referred to once and not yet set; every other promise has been set
  exactly once.
\<close>

definition waiting :: "('v, 's) rpc_con \<Rightarrow> nat set" where
  "waiting s = ran (sm_get (rc_pending s))"

definition rc_inv :: "('v, 's) rpc_con \<Rightarrow> bool" where
  "rc_inv s \<longleftrightarrow> sm_ok (rc_pending s) \<and> waiting s \<subseteq> {..<length (rc_promises s)} \<and>
     (\<forall>i j a. sm_get (rc_pending s) i = Some a \<and> sm_get (rc_pending s) j = Some a \<longrightarrow> i = j) \<and>
     (\<forall>a < length (rc_promises s).
        length (pn_set (rc_promises s ! a)) = (if a \<in> waiting s then 0 else 1))"

lemma length_settle [simp]: "length (settle a v ps) = length ps"
  by (simp add: settle_def)

lemma length_release [simp]: "length (release a ps) = length ps"
  by (simp add: release_def)

lemma settle_nth: "b < length ps \<Longrightarrow>
   pn_set (settle a v ps ! b) = (if a = b then pn_set (ps ! b) @ [v] else pn_set (ps ! b))"
  by (auto simp: settle_def nth_list_update)

lemma release_nth: "b < length ps \<Longrightarrow>
   pn_set (release a ps ! b) = (if a = b \<and> pn_set (ps ! b) = [] then [Set_broken] else pn_set (ps ! b))"
  by (auto simp: release_def settle_nth)

lemma release_settle: "a < length ps \<Longrightarrow> release a (settle a v ps) = settle a v ps"
  by (simp add: release_def settle_nth)

lemma ran_clear:
  assumes "\<And>j b. f i = Some b \<Longrightarrow> f j = Some b \<Longrightarrow> j = i"
  shows "ran (f(i := None)) = ran f - set_option (f i)"
  using assms unfolding ran_def by (auto; metis)

lemma ran_replace:
  assumes "\<And>j b. f i = Some b \<Longrightarrow> f j = Some b \<Longrightarrow> j = i"
  shows "ran (f(i \<mapsto> a)) = insert a (ran f - set_option (f i))"
  using assms unfolding ran_def by (auto; metis)

lemma waiting_finish:
  assumes "rc_inv s" "sm_get (rc_pending s) i = Some a"
  shows "waiting (finish i a v s) = waiting s - {a}"
  using assms ran_clear [of "sm_get (rc_pending s)" i] by (auto simp: rc_inv_def waiting_def finish_def sm_get_del)

lemma rc_inv_finish:
  assumes "rc_inv s" "sm_get (rc_pending s) i = Some a"
  shows "rc_inv (finish i a v s)"
proof -
  have a: "a \<in> waiting s" "a < length (rc_promises s)"
    using assms by (auto simp: rc_inv_def waiting_def intro: ranI)
  have "pn_set (rc_promises s ! a) = []" using assms(1) a by (auto simp: rc_inv_def)
  then show ?thesis
    using assms a unfolding rc_inv_def [of "finish i a v s"] waiting_finish [OF assms]
    by (auto simp: rc_inv_def finish_def release_settle settle_nth sm_ok_del sm_get_del split: if_splits)
qed

lemma rc_inv_frame:
  "rc_pending s' = rc_pending s \<Longrightarrow> rc_promises s' = rc_promises s \<Longrightarrow> rc_inv s' = rc_inv s"
  by (simp add: rc_inv_def waiting_def)

lemma con_send_frame:
  "rc_pending (snd (con_send m s)) = rc_pending s \<and> rc_promises (snd (con_send m s)) = rc_promises s"
  by (simp add: con_send_def split: sum.splits)

lemma rc_inv_send: "rc_inv (snd (con_send m s)) = rc_inv s"
  by (rule rc_inv_frame) (simp_all add: con_send_frame)

lemma rc_inv_handle_call: "rc_inv (snd (handle_call diag m s)) = rc_inv s"
proof -
  have "rc_inv (s\<lparr>rc_service := sv\<rparr>) = rc_inv s" for sv by (rule rc_inv_frame) simp_all
  then show ?thesis
    by (simp add: handle_call_def rc_inv_send split: option.splits prod.splits sum.splits exn.splits)
qed

lemma rc_inv_handle_notice: "rc_inv (snd (handle_notice m s)) = rc_inv s"
  by (rule rc_inv_frame) (simp_all add: handle_notice_def split: option.splits prod.splits sum.splits exn.splits)

lemma rc_inv_dispatch: "rc_inv s \<Longrightarrow> rc_inv (snd (con_dispatch diag m s))"
  by (simp add: con_dispatch_def rc_inv_handle_call rc_inv_handle_notice con_handle_result_def
      con_handle_error_def rc_inv_finish ret_def split: option.splits sum.splits)

lemma rc_inv_new: "rc_inv (rc_new enc sv)"
  by (simp add: rc_inv_def rc_new_def waiting_def ran_def)

text \<open>The new promise of a call joins the map, or is broken when the message cannot be sent.\<close>

lemma rc_inv_remember:
  assumes inv: "rc_inv s" and a: "a = length (rc_promises s)"
  shows "rc_inv (remember i a (s\<lparr>rc_next := n,
      rc_promises := rc_promises s @ [\<lparr>pn_unpack = unp, pn_set = []\<rparr>], rc_sent := x\<rparr>))"
    (is "rc_inv ?t")
proof -
  let ?m = "rc_pending s"
  have ok: "sm_ok ?m" and b: "\<And>i c. sm_get ?m i = Some c \<Longrightarrow> c < a"
    and inj: "\<And>i j c. sm_get ?m i = Some c \<Longrightarrow> sm_get ?m j = Some c \<Longrightarrow> i = j"
    using inv a by (auto simp: rc_inv_def waiting_def ran_def)
  have e: "pn_set (rc_promises s ! c) = []" if "sm_get ?m i = Some c" for c
    using inv b [OF that] ranI [of "sm_get ?m", OF that] a by (auto simp: rc_inv_def waiting_def)
  have g: "sm_get (rc_pending ?t) = (sm_get ?m)(i \<mapsto> a)" using ok by (simp add: remember_def sm_get_put)
  have w: "waiting ?t = insert a (waiting s - set_option (sm_get ?m i))"
    unfolding waiting_def g by (rule ran_replace) (rule inj)
  have p: "pn_set (rc_promises ?t ! c) =
      (if c = a then [] else if sm_get ?m i = Some c then [Set_broken] else pn_set (rc_promises s ! c))"
    if "c < Suc a" for c
    using that a b e by (auto simp: remember_def release_nth nth_append less_Suc_eq split: option.splits)
  have l: "length (rc_promises ?t) = Suc a" by (simp add: remember_def a split: option.splits)
  show ?thesis
    unfolding rc_inv_def l w g
  proof (intro conjI allI impI)
    show "sm_ok (rc_pending ?t)" using ok by (simp add: remember_def sm_ok_put)
    show "insert a (waiting s - set_option (sm_get ?m i)) \<subseteq> {..<Suc a}"
      using b by (auto simp: waiting_def ran_def less_Suc_eq)
    fix j k c
    assume "((sm_get ?m)(i \<mapsto> a)) j = Some c \<and> ((sm_get ?m)(i \<mapsto> a)) k = Some c"
    then show "j = k" using inj b [of j c] b [of k c] by (auto split: if_splits)
  next
    fix c assume c: "c < Suc a"
    then show "length (pn_set (rc_promises ?t ! c)) =
        (if c \<in> insert a (waiting s - set_option (sm_get ?m i)) then 0 else 1)"
      unfolding p [OF c] using inv a by (auto simp: rc_inv_def less_Suc_eq)
  qed
qed

lemma rc_inv_call:
  assumes "rc_inv s"
  shows "rc_inv (snd (con_call mid arg unp s))"
proof -
  define a where "a = length (rc_promises s)"
  define m where "m = \<lparr>rm_id = rc_next s + 1, rm_type = rpc_call, rm_method = ucast mid, rm_data = arg\<rparr>"
  show ?thesis
  proof (cases "rc_encode s m")
    case (Inl e)
    have "snd (con_call mid arg unp s) = s\<lparr>rc_next := rc_next s + 1,
        rc_promises := rc_promises s @ [\<lparr>pn_unpack = unp, pn_set = [Set_broken]\<rparr>]\<rparr>"
      using Inl by (simp add: con_call_def bindc_def next_method_id_def con_send_def m_def release_def settle_def)
    moreover have "a \<notin> waiting s" using assms by (auto simp: rc_inv_def a_def)
    ultimately show ?thesis using assms
      by (auto simp: rc_inv_def waiting_def nth_append less_Suc_eq a_def)
  next
    case (Inr bs)
    have "snd (con_call mid arg unp s) = remember (rc_next s + 1) a
        (s\<lparr>rc_next := rc_next s + 1,
           rc_promises := rc_promises s @ [\<lparr>pn_unpack = unp, pn_set = []\<rparr>], rc_sent := rc_sent s @ [bs]\<rparr>)"
      using Inr by (simp add: con_call_def bindc_def next_method_id_def con_send_def m_def a_def)
    then show ?thesis using rc_inv_remember [OF assms a_def] by simp
  qed
qed

text \<open>
  The life of a connection over datagrams: calls are made and packets arrive, whatever is in
  them; an operation that throws leaves the connection as it is then.
\<close>

inductive rc_step :: "('v, 's) rpc_con \<Rightarrow> ('v, 's) rpc_con \<Rightarrow> bool" where
  rc_step_call: "rc_step s (snd (con_call mid arg unp s))"
| rc_step_recv: "rc_step s (snd (udp_on_recv diag (Some bs) s))"

inductive_cases rc_stepE: "rc_step s s'"

lemma rc_inv_step: "rc_step s s' \<Longrightarrow> rc_inv s \<Longrightarrow> rc_inv s'"
  by (erule rc_stepE) (simp_all add: rc_inv_call udp_on_recv_def rc_inv_dispatch split: prod.splits sum.splits)

lemma rc_inv_steps: "rc_step\<^sup>*\<^sup>* s s' \<Longrightarrow> rc_inv s \<Longrightarrow> rc_inv s'"
  by (induction rule: rtranclp_induct) (auto intro: rc_inv_step)

lemma fold_settle_nth:
  assumes "distinct (map snd es)" "a < length ps"
  shows "pn_set (fold (\<lambda>(i, a). settle a v) es ps ! a) = pn_set (ps ! a) @ (if a \<in> snd ` set es then [v] else [])"
  using assms by (induction es arbitrary: ps) (force simp: settle_nth)+

lemma length_fold_settle [simp]: "length (fold (\<lambda>(i, a). settle a v) es ps) = length ps"
  by (induction es arbitrary: ps) auto

lemma waiting_entries: "sm_ok (rc_pending s) \<Longrightarrow> waiting s = snd ` set (rc_pending s)"
  by (force simp: waiting_def ran_def sm_get_mem)

lemma distinct_addresses: "rc_inv s \<Longrightarrow> distinct (map snd (rc_pending s))"
proof -
  assume inv: "rc_inv s"
  then have ok: "sm_ok (rc_pending s)" by (simp add: rc_inv_def)
  then have "distinct (rc_pending s)"
    using distinct_map [of fst "rc_pending s"] by (simp add: sm_ok_def strict_sorted_iff)
  moreover have "inj_on snd (set (rc_pending s))"
    using inv ok by (auto simp: inj_on_def rc_inv_def simp flip: sm_get_mem)
  ultimately show ?thesis by (simp add: distinct_map)
qed

text \<open>C19: On a connection over datagrams no caller is answered twice and none is left waiting:
  whatever calls were made and whatever packets came in, however malformed, unexpected or
  repeated, and even after more than 65536 calls, when the channel is closed the promise of every
  call that was made has been set exactly once, with a value, an exception or the exception for a
  broken promise.\<close>

theorem rpc_promises_set_once:
  assumes "rc_step\<^sup>*\<^sup>* (rc_new enc sv) s"
  shows "fst (udp_on_recv diag None s) = Inr () \<and>
    list_all (\<lambda>p. length (pn_set p) = 1) (rc_promises (snd (udp_on_recv diag None s))) \<and>
    length (rc_promises (snd (udp_on_recv diag None s))) = length (rc_promises s)"
proof -
  have inv: "rc_inv s" using rc_inv_steps [OF assms rc_inv_new] .
  have "length (pn_set (rc_promises (break_promises s) ! a)) = 1" if "a < length (rc_promises s)" for a
    using fold_settle_nth [OF distinct_addresses [OF inv] that] inv that waiting_entries [of s]
    by (auto simp: break_promises_def rc_inv_def)
  then show ?thesis by (simp add: udp_on_recv_def break_promises_def list_all_length)
qed

theorem rpc_promises_set_once_witness:
  "\<exists>s :: (u32, unit) rpc_con. length (rc_promises s) = 1 \<and>
     list_all (\<lambda>p. length (pn_set p) = 1) (rc_promises (snd (udp_on_recv (\<lambda>_. []) None s)))"
proof -
  let ?s = "snd (con_call 0 [] (\<lambda>_. Inr 7) (rc_new udt_encode () :: (u32, unit) rpc_con))"
  have "rc_step\<^sup>*\<^sup>* (rc_new udt_encode () :: (u32, unit) rpc_con) ?s"
    by (rule r_into_rtranclp) (rule rc_step_call)
  from rpc_promises_set_once [OF this, of "\<lambda>_. []"]
  show ?thesis
    by (intro exI [of _ ?s]) (simp add: con_call_def bindc_def next_method_id_def con_send_def
        udt_encode_def rc_new_def remember_def)
qed

section \<open>Every call is answered\<close>

type_synonym 'v con_request = "u16 \<times> byte list \<times> (byte list \<Rightarrow> 'v res)"

datatype con_reply = Result "byte list" | Failed "byte list"

text \<open>What a service answers to a list of calls, by the meaning of its methods alone.\<close>

fun con_replies ::
  "(u16 \<Rightarrow> 's rpc_method option) \<Rightarrow> (string \<Rightarrow> byte list) \<Rightarrow> 'v con_request list \<Rightarrow> 's \<Rightarrow> con_reply list option" where
  "con_replies ms diag [] sv = Some []"
| "con_replies ms diag ((mid, arg, unp) # cs) sv =
     (case ms mid of
        None \<Rightarrow> map_option ((#) (Failed invalid_method)) (con_replies ms diag cs sv)
      | Some f \<Rightarrow>
          (case f arg sv of
             (Inr d, sv') \<Rightarrow> map_option ((#) (Result d)) (con_replies ms diag cs sv')
           | (Inl (Throw x), sv') \<Rightarrow> map_option ((#) (Failed (diag x))) (con_replies ms diag cs sv')
           | _ \<Rightarrow> None))"

fun reply_message :: "u16 \<Rightarrow> con_reply \<Rightarrow> rpc_message" where
  "reply_message i (Result d) = con_result i d"
| "reply_message i (Failed x) = con_error i x"

text \<open>What the caller gets: the value, or the exception with the text of the service.\<close>

fun settled :: "(byte list \<Rightarrow> 'v res) \<Rightarrow> con_reply \<Rightarrow> 'v setting list" where
  "settled unp (Result d) = (case unp d of Inr v \<Rightarrow> [Set_value v] | Inl e \<Rightarrow> [])"
| "settled unp (Failed x) = [Set_exception x]"

definition con_calls :: "'v con_request list \<Rightarrow> ('v, 's) rpc_con \<Rightarrow> ('v, 's) rpc_con" where
  "con_calls cs s = fold (\<lambda>(mid, arg, unp) s. snd (con_call mid arg unp s)) cs s"

definition deliver :: "(string \<Rightarrow> byte list) \<Rightarrow> byte list list \<Rightarrow> ('v, 's) rpc_con \<Rightarrow> ('v, 's) rpc_con" where
  "deliver diag ps s = fold (\<lambda>p s. snd (udp_on_recv diag (Some p) s)) ps s"

definition call_message :: "u16 \<Rightarrow> 'v con_request \<Rightarrow> rpc_message" where
  "call_message i c = \<lparr>rm_id = i, rm_type = rpc_call, rm_method = ucast (fst c), rm_data = fst (snd c)\<rparr>"

definition call_id :: "u16 \<Rightarrow> nat \<Rightarrow> u16" where
  "call_id n j = n + 1 + of_nat j"

definition udp_fits :: "rpc_message \<Rightarrow> bool" where
  "udp_fits m \<longleftrightarrow> length (pack_message m) \<le> 2048"

lemma call_id_inj: "j < 65536 \<Longrightarrow> k < 65536 \<Longrightarrow> call_id n j = call_id n k \<longleftrightarrow> j = k"
  by (simp add: call_id_def word_of_nat_eq_iff take_bit_nat_eq_self)

lemma udp_unpack: "udp_fits m \<Longrightarrow> \<exists>r. unpack_message (pack_message m) = (Inr m, r)"
proof -
  assume "udp_fits m"
  then have "fits32 (length (rm_data m))"
    by (simp add: udp_fits_def fits32_def pack_message_def pack_bytes_def)
  then have "unpack_message (pack_message m @ []) = (Inr m, [])" by (rule message_codec.unpack_pack)
  then show ?thesis by auto
qed

text \<open>The client with \<open>n\<close> as its last number and \<open>a\<close> promises before the calls \<open>cs\<close>; the replies
  to the calls in \<open>D\<close> have come in.\<close>

definition asked :: "u16 \<Rightarrow> nat \<Rightarrow> 'v con_request list \<Rightarrow> (nat \<Rightarrow> 'v setting list) \<Rightarrow> nat set \<Rightarrow> ('v, 's) rpc_con \<Rightarrow> bool" where
  "asked n a cs out D s \<longleftrightarrow> sm_ok (rc_pending s) \<and> length (rc_promises s) = a + length cs \<and>
     (\<forall>i. sm_get (rc_pending s) i \<noteq> None \<longrightarrow> (\<exists>j < length cs. i = call_id n j)) \<and>
     (\<forall>j < length cs.
        sm_get (rc_pending s) (call_id n j) = (if j \<in> D \<and> out j \<noteq> [] then None else Some (a + j)) \<and>
        pn_unpack (rc_promises s ! (a + j)) = snd (snd (cs ! j)) \<and>
        pn_set (rc_promises s ! (a + j)) = (if j \<in> D then out j else []))"

lemma con_call_sent:
  assumes "rc_encode s = udp_encode" "udp_fits (call_message (rc_next s + 1) (mid, arg, unp))"
  shows "con_call mid arg unp s = (Inr (length (rc_promises s)),
    remember (rc_next s + 1) (length (rc_promises s))
      (s\<lparr>rc_next := rc_next s + 1, rc_promises := rc_promises s @ [\<lparr>pn_unpack = unp, pn_set = []\<rparr>],
         rc_sent := rc_sent s @ [pack_message (call_message (rc_next s + 1) (mid, arg, unp))]\<rparr>))"
  using assms by (simp add: con_call_def bindc_def next_method_id_def con_send_def udp_encode_def
      udp_fits_def call_message_def)

lemma remember_frame [simp]:
  "rc_next (remember i a s) = rc_next s" "rc_sent (remember i a s) = rc_sent s"
  "rc_encode (remember i a s) = rc_encode s"
  by (simp_all add: remember_def)

lemma con_calls_snoc:
  "con_calls (cs @ [(mid, arg, unp)]) s = snd (con_call mid arg unp (con_calls cs s))"
  by (simp add: con_calls_def)

lemma con_calls_asked:
  assumes "rc_pending s = []" "rc_encode s = udp_encode" "length cs \<le> 65536"
      and "\<forall>j < length cs. udp_fits (call_message (call_id (rc_next s) j) (cs ! j))"
  shows "asked (rc_next s) (length (rc_promises s)) cs out {} (con_calls cs s) \<and>
    rc_next (con_calls cs s) = rc_next s + of_nat (length cs) \<and>
    rc_encode (con_calls cs s) = udp_encode \<and>
    rc_sent (con_calls cs s) = rc_sent s @
      map (\<lambda>j. pack_message (call_message (call_id (rc_next s) j) (cs ! j))) [0..<length cs]"
  using assms(3,4)
proof (induction cs rule: rev_induct)
  case Nil
  show ?case using assms(1,2) by (simp add: asked_def con_calls_def)
next
  case (snoc c cs)
  let ?n = "rc_next s" and ?a = "length (rc_promises s)" and ?k = "length cs" and ?t = "con_calls cs s"
  obtain mid arg unp where c: "c = (mid, arg, unp)" by (cases c)
  have fits: "\<forall>j < ?k. udp_fits (call_message (call_id ?n j) (cs ! j))"
    "udp_fits (call_message (call_id ?n ?k) c)"
    using snoc.prems(2) by (auto simp: nth_append less_Suc_eq)
  have IH: "asked ?n ?a cs out {} ?t" "rc_next ?t = ?n + of_nat ?k" "rc_encode ?t = udp_encode"
    "rc_sent ?t = rc_sent s @ map (\<lambda>j. pack_message (call_message (call_id ?n j) (cs ! j))) [0..<?k]"
    using snoc.IH fits(1) snoc.prems(1) by simp_all
  have id: "rc_next ?t + 1 = call_id ?n ?k" by (simp add: IH(2) call_id_def add.assoc add.commute)
  have len: "length (rc_promises ?t) = ?a + ?k" using IH(1) by (simp add: asked_def)
  have fresh: "sm_get (rc_pending ?t) (call_id ?n ?k) = None"
  proof (rule ccontr)
    assume "sm_get (rc_pending ?t) (call_id ?n ?k) \<noteq> None"
    then obtain j where "j < ?k" "call_id ?n ?k = call_id ?n j" using IH(1) unfolding asked_def by blast
    then show False using call_id_inj [of ?k j ?n] snoc.prems(1) by simp
  qed
  have st: "con_calls (cs @ [c]) s = remember (call_id ?n ?k) (?a + ?k)
      (?t\<lparr>rc_next := call_id ?n ?k, rc_promises := rc_promises ?t @ [\<lparr>pn_unpack = unp, pn_set = []\<rparr>],
         rc_sent := rc_sent ?t @ [pack_message (call_message (call_id ?n ?k) c)]\<rparr>)"
    using con_call_sent [OF IH(3), of mid arg unp] fits(2) by (simp add: con_calls_snoc id len c)
  have ok: "sm_ok (rc_pending ?t)" using IH(1) by (simp add: asked_def)
  have "asked ?n ?a (cs @ [c]) out {} (con_calls (cs @ [c]) s)"
    unfolding st asked_def using IH(1) fresh ok snoc.prems(1) call_id_inj [of _ ?k ?n] len
    by (auto simp: remember_def sm_ok_put sm_get_put nth_append less_Suc_eq asked_def c split: if_splits)
  then show ?case unfolding st using IH
    by (auto simp: nth_append call_id_def add.assoc add.commute)
qed

text \<open>The server, call by call.\<close>

lemma rpc_type_codes:
  "rpc_call \<noteq> rpc_notice" "rpc_result \<noteq> rpc_notice" "rpc_result \<noteq> rpc_call"
  "rpc_error \<noteq> rpc_notice" "rpc_error \<noteq> rpc_call" "rpc_error \<noteq> rpc_result"
  by (simp_all add: rpc_types)

lemma find_call_method: "find_method (call_message i c) t = rc_methods t (fst c)"
proof -
  have "(ucast (ucast (w :: u16) :: u32) :: u16) = w" for w
    by (rule bit_word_eqI) (auto simp: bit_simps)
  then show ?thesis by (simp add: find_method_def call_message_def)
qed

lemma con_send_udp:
  "rc_encode t = udp_encode \<Longrightarrow> udp_fits m \<Longrightarrow>
   con_send m t = (Inr (), t\<lparr>rc_sent := rc_sent t @ [pack_message m]\<rparr>)"
  by (simp add: con_send_def udp_encode_def udp_fits_def)

lemma deliver_calls:
  assumes "rc_methods t = ms" "rc_encode t = udp_encode"
      and "con_replies ms diag cs (rc_service t) = Some rs"
      and "\<forall>j < length cs. udp_fits (call_message (ids ! j) (cs ! j)) \<and> udp_fits (reply_message (ids ! j) (rs ! j))"
      and "length ids = length cs"
  shows "length rs = length cs \<and>
    rc_sent (deliver diag (map (\<lambda>j. pack_message (call_message (ids ! j) (cs ! j))) [0..<length cs]) t) =
      rc_sent t @ map (\<lambda>j. pack_message (reply_message (ids ! j) (rs ! j))) [0..<length cs]"
  using assms
proof (induction cs arbitrary: t rs ids)
  case Nil
  then show ?case by (simp add: deliver_def)
next
  case (Cons c cs)
  obtain mid arg unp where c: "c = (mid, arg, unp)" by (cases c)
  obtain i ids' where ids: "ids = i # ids'" using Cons.prems(5) by (cases ids) auto
  obtain rp rs' sv' where rs: "rs = rp # rs'" and rest: "con_replies ms diag cs sv' = Some rs'"
    and rp: "(ms mid = None \<and> rp = Failed invalid_method \<and> sv' = rc_service t) \<or>
      (\<exists>f. ms mid = Some f \<and> (\<exists>d. f arg (rc_service t) = (Inr d, sv') \<and> rp = Result d \<or>
        (\<exists>x. f arg (rc_service t) = (Inl (Throw x), sv') \<and> rp = Failed (diag x))))"
    using Cons.prems(3) unfolding c
    by (auto split: option.splits prod.splits sum.splits exn.splits)
  have fits: "udp_fits (call_message i c)" "udp_fits (reply_message i rp)"
    "\<forall>j < length cs. udp_fits (call_message (ids' ! j) (cs ! j)) \<and> udp_fits (reply_message (ids' ! j) (rs' ! j))"
    using Cons.prems(4) by (force simp: ids rs)+
  define t' where "t' = t\<lparr>rc_service := sv', rc_sent := rc_sent t @ [pack_message (reply_message i rp)]\<rparr>"
  have "handle_call diag (call_message i c) t = (Inr (), t')"
    using rp fits(2) Cons.prems(1,2)
    by (auto simp: handle_call_def find_call_method c con_send_udp t'_def)
       (simp_all add: call_message_def con_send_udp)
  then have one: "snd (udp_on_recv diag (Some (pack_message (call_message i c))) t) = t'"
    using udp_unpack [OF fits(1)]
    by (auto simp: udp_on_recv_def con_dispatch_def rpc_type_codes call_message_def [of i c])
  have "length rs' = length cs \<and>
    rc_sent (deliver diag (map (\<lambda>j. pack_message (call_message (ids' ! j) (cs ! j))) [0..<length cs]) t') =
      rc_sent t' @ map (\<lambda>j. pack_message (reply_message (ids' ! j) (rs' ! j))) [0..<length cs]"
    using Cons.prems(1,2,5) rest fits(3) ids by (intro Cons.IH) (auto simp: t'_def)
  then show ?case
    by (simp add: deliver_def ids rs map_upt_Suc one del: upt_Suc) (simp add: t'_def)
qed

text \<open>The client, reply by reply.\<close>

lemma unpack_text_pack: "fits32 (length x) \<Longrightarrow> unpack_text (pack_bytes x) = Inr x"
proof -
  assume "fits32 (length x)"
  then have "unpack_bytes (pack_bytes x @ []) = (Inr x, [])" by (rule bytes_codec.unpack_pack)
  moreover have "pack_bytes x \<noteq> []" by (simp add: pack_bytes_def pack_unsigned_def pack_uint.simps [of "ucast _"] Let_def)
  ultimately show ?thesis by (simp add: unpack_text_def)
qed

lemma asked_finish:
  assumes "asked n a cs out D s" "j < length cs" "length cs \<le> 65536"
      and "sm_get (rc_pending s) (call_id n j) = Some (a + j)" "pn_set (rc_promises s ! (a + j)) = []" "out j = [v]"
  shows "asked n a cs out (insert j D) (finish (call_id n j) (a + j) v s)"
proof -
  have len: "length (rc_promises s) = a + length cs" using assms(1) by (simp add: asked_def)
  have u: "pn_unpack (settle b v ps ! c) = pn_unpack (ps ! c)" if "c < length ps" for b c and ps :: "'a pending_result list"
    using that by (cases "b = c") (auto simp: settle_def)
  have "call_id n k = call_id n j \<longleftrightarrow> k = j" if "k < length cs" for k
    using call_id_inj [of k j n] that assms(2,3) by simp
  then show ?thesis
    using assms len unfolding asked_def
    by (auto simp: finish_def release_settle settle_nth u sm_ok_del sm_get_del split: if_splits)
qed

lemma asked_same:
  assumes "asked n a cs out D s" "j \<in> D \<or> out j = []"
  shows "asked n a cs out (insert j D) s"
proof (cases "j \<in> D")
  case True
  then show ?thesis using assms(1) by (simp add: insert_absorb)
next
  case False
  then have "(k \<in> insert j D \<and> out k \<noteq> []) = (k \<in> D \<and> out k \<noteq> [])"
    "(if k \<in> insert j D then out k else []) = (if k \<in> D then out k else [])" for k
    using assms(2) by auto
  then show ?thesis using assms(1) unfolding asked_def by simp
qed

lemma deliver_reply:
  assumes as: "asked n a cs out D s" and j: "j < length cs" "length cs \<le> 65536"
      and out: "out j = settled (snd (snd (cs ! j))) rp"
      and fits: "udp_fits (reply_message (call_id n j) rp)"
  shows "asked n a cs out (insert j D) (snd (udp_on_recv diag (Some (pack_message (reply_message (call_id n j) rp))) s))"
proof -
  let ?g = "sm_get (rc_pending s) (call_id n j)"
  have g: "?g = (if j \<in> D \<and> out j \<noteq> [] then None else Some (a + j))"
    and u: "pn_unpack (rc_promises s ! (a + j)) = snd (snd (cs ! j))"
    and p: "pn_set (rc_promises s ! (a + j)) = (if j \<in> D then out j else [])"
    using as j unfolding asked_def by blast+
  obtain r where um: "unpack_message (pack_message (reply_message (call_id n j) rp)) = (Inr (reply_message (call_id n j) rp), r)"
    using udp_unpack [OF fits] by blast
  then have d: "udp_on_recv diag (Some (pack_message (reply_message (call_id n j) rp))) s =
      con_dispatch diag (reply_message (call_id n j) rp) s"
    by (simp add: udp_on_recv_def)
  show ?thesis
  proof (cases rp)
    case (Result d)
    have "udp_on_recv diag (Some (pack_message (reply_message (call_id n j) rp))) s = con_handle_result (con_result (call_id n j) d) s"
      unfolding d by (simp add: Result con_dispatch_def rpc_type_codes con_result_def)
    then show ?thesis using g u p out Result asked_finish [OF as j] asked_same [OF as, of j]
      by (auto simp: con_handle_result_def con_result_def split: sum.splits if_splits)
  next
    case (Failed x)
    have "fits32 (length x)"
      using fits Failed by (simp add: udp_fits_def fits32_def pack_message_def pack_bytes_def con_error_def)
    then have "unpack_text (pack_bytes x) = Inr x" by (rule unpack_text_pack)
    moreover have "udp_on_recv diag (Some (pack_message (reply_message (call_id n j) rp))) s = con_handle_error (con_error (call_id n j) x) s"
      unfolding d by (simp add: Failed con_dispatch_def rpc_type_codes con_error_def)
    ultimately show ?thesis using g p out Failed asked_finish [OF as j] asked_same [OF as, of j]
      by (auto simp: con_handle_error_def con_error_def split: if_splits)
  qed
qed

lemma deliver_replies:
  assumes "asked n a cs out D s" "length cs \<le> 65536" "set js \<subseteq> {..<length cs}"
      and "\<forall>j < length cs. out j = settled (snd (snd (cs ! j))) (rs ! j) \<and> udp_fits (reply_message (call_id n j) (rs ! j))"
  shows "asked n a cs out (D \<union> set js) (deliver diag (map (\<lambda>j. pack_message (reply_message (call_id n j) (rs ! j))) js) s)"
  using assms
proof (induction js arbitrary: D s)
  case (Cons j js)
  let ?s = "snd (udp_on_recv diag (Some (pack_message (reply_message (call_id n j) (rs ! j)))) s)"
  have "asked n a cs out (insert j D) ?s"
    by (rule deliver_reply [OF Cons.prems(1)]) (use Cons.prems in auto)
  from Cons.IH [OF this] Cons.prems(2-4) show ?case by (simp add: deliver_def)
qed (simp add: deliver_def)


definition rpc_demo_server :: "(byte list, unit) rpc_con" where
  "rpc_demo_server = rc_add_method 0 (\<lambda>arg sv. (Inr (rev arg), sv)) (rc_new udp_encode ())"

definition rpc_demo_calls :: "byte list con_request list" where
  "rpc_demo_calls = [(0, [1, 2], Inr), (9, [3], Inr)]"


text \<open>
  A number that is still in use 65536 calls later takes the place of the older call: that call is
  broken although its reply may still come, and the reply goes to the newer promise.
\<close>

theorem rpc_number_reused:
  assumes "rc_inv s" "rc_encode s = udp_encode" "udp_fits (call_message (rc_next s + 1) (mid, arg, unp))"
      and "sm_get (rc_pending s) (rc_next s + 1) = Some b"
  shows "pn_set (rc_promises (snd (con_call mid arg unp s)) ! b) = [Set_broken] \<and>
    sm_get (rc_pending (snd (con_call mid arg unp s))) (rc_next s + 1) = Some (length (rc_promises s))"
proof -
  have b: "b \<in> waiting s" "b < length (rc_promises s)" and ok: "sm_ok (rc_pending s)"
    using assms(1,4) by (auto simp: rc_inv_def waiting_def intro: ranI)
  then have "pn_set (rc_promises s ! b) = []" using assms(1) by (auto simp: rc_inv_def)
  then show ?thesis using b ok assms(4)
    by (simp add: con_call_sent [OF assms(2,3)] remember_def release_nth nth_append sm_get_put)
qed

text \<open>
  Client and service number the members of an interface alike: the number under which a client
  calls its \<open>k\<close>-th member finds the \<open>k\<close>-th member the service registered.
\<close>

lemma register_methods_other:
  "length fs < 65536 \<Longrightarrow> \<forall>k < length fs. i \<noteq> mid + of_nat k \<Longrightarrow> rc_methods (register_methods mid fs s) i = rc_methods s i"
proof (induction fs arbitrary: mid s)
  case (Cons f fs)
  have "i \<noteq> mid + 1 + of_nat k" if "k < length fs" for k
    using Cons.prems(2) that by (metis (no_types, lifting) Suc_less_eq add.assoc add.commute length_Cons of_nat_Suc)
  moreover have "i \<noteq> mid" using Cons.prems(2) by force
  ultimately show ?case using Cons.IH [of "mid + 1"] Cons.prems(1) by (simp add: rc_add_method_def)
qed simp

theorem interface_numbers_agree:
  assumes "length fs = length ms" "length fs \<le> 65536" "k < length fs"
  shows "rc_methods (register_methods mid fs s) (snd (client_members mid ms ! k)) = Some (fs ! k)"
  using assms
proof (induction fs arbitrary: mid ms s k)
  case (Cons f fs)
  obtain m ms' where ms: "ms = m # ms'" using Cons.prems(1) by (cases ms) auto
  show ?case
  proof (cases k)
    case 0
    have "mid \<noteq> mid + 1 + of_nat j" if "j < length fs" for j
      using call_id_inj [of "Suc j" 0 mid] that Cons.prems(2) by (auto simp: call_id_def algebra_simps)
    then have "rc_methods (register_methods (mid + 1) fs (rc_add_method mid f s)) mid = Some f"
      using register_methods_other [of fs mid "mid + 1" "rc_add_method mid f s"] Cons.prems(2)
      by (simp add: rc_add_method_def)
    then show ?thesis by (simp add: 0 ms)
  next
    case (Suc k')
    then show ?thesis using Cons.IH [of ms' k' "mid + 1"] Cons.prems by (simp add: ms)
  qed
qed simp

end
