(* ===== verification/Chunk_Data.thy ===== *)
theory Chunk_Data
  imports Chunk_Db
begin

text \<open>
  Chunk data in the chunk database (\<open>store_chunk\<close> and \<open>fetch_chunk\<close> of src/db/chunk.cpp, kept there under \<open>#if 0\<close>) and
  the session that serves it, \<open>src/services/chunk_session.cpp\<close>, both of the first generation of the services. Next to
  the table of what is known of a chunk there is one with its data, under the same keys; both are
  Berkeley DB tables, and a store is one transaction over them.
\<close>

section \<open>The two tables\<close>

record ('h, 'g) chunk_tables =
  ct_db :: "'h chunk_db"
  ct_data :: 'g

definition data_of :: "('g, byte list) bdb \<Rightarrow> ('h, 'g) chunk_tables \<Rightarrow> sha1 \<Rightarrow> byte list option" where
  "data_of BD d cid = db_get BD (ct_data d) (chunk_key (ct_db d) cid)"

definition meta_of :: "'h chunk_bdb \<Rightarrow> ('h, 'g) chunk_tables \<Rightarrow> sha1 \<Rightarrow> meta option" where
  "meta_of B d cid = db_get B (cd_handle (ct_db d)) (chunk_key (ct_db d) cid)"

text \<open>The record of a chunk whose data has come in; one that has a size stays as it is.\<close>

definition stored_meta :: "crypto \<Rightarrow> u64 \<Rightarrow> u64 \<Rightarrow> sha1 \<Rightarrow> meta option \<Rightarrow> meta" where
  "stored_meta cr t t' dist mo =
     (case mo of
        None \<Rightarrow> meta_new\<lparr>first_update := t, distance_rank := of_int (161 - big_log2 cr dist)\<rparr>
      | Some m \<Rightarrow> m)"

text \<open>\<open>t\<close> and \<open>t'\<close> are what the calls of \<open>now\<close> return. An exception of either table aborts the transaction.\<close>

definition db_store_chunk ::
  "crypto \<Rightarrow> 'h chunk_bdb \<Rightarrow> ('g, byte list) bdb \<Rightarrow> u64 \<Rightarrow> u64 \<Rightarrow> sha1 \<Rightarrow> byte list \<Rightarrow> (('h, 'g) chunk_tables, bool) cmd" where
  "db_store_chunk cr B BD t t' cid b d =
     (if sha1_hash cr b \<noteq> cid then (Inl (Throw ''sha1(data) does not match given id''), d)
      else if data_of BD d cid \<noteq> None then (Inr False, d)
      else
        case db_put BD (ct_data d) (chunk_key (ct_db d) cid) b of
          None \<Rightarrow> (Inl (Throw ''DbException''), d)
        | Some g \<Rightarrow>
            let met = stored_meta cr t t' (xor cid (cd_node_id (ct_db d))) (meta_of B d cid) in
            if chunk_size met = 0 then
              (case store_meta B cid (met\<lparr>chunk_size := of_nat (length b), last_update := t'\<rparr>) (ct_db d) of
                 (Inl e, _) \<Rightarrow> (Inl e, d)
               | (Inr _, db') \<Rightarrow> (Inr True, \<lparr>ct_db = db', ct_data = g\<rparr>))
            else (Inr True, d\<lparr>ct_data := g\<rparr>))"

text \<open>A partial read fills the front of the caller's buffer with what lies from the offset on.\<close>

definition db_fetch_chunk ::
  "('g, byte list) bdb \<Rightarrow> ('h, 'g) chunk_tables \<Rightarrow> sha1 \<Rightarrow> byte list \<Rightarrow> nat \<Rightarrow> byte list option" where
  "db_fetch_chunk BD d cid buf offset =
     (case data_of BD d cid of
        None \<Rightarrow> None
      | Some v \<Rightarrow> Some (overwrite 0 (take (length buf) (drop offset v)) buf))"

definition tables_fetch_meta ::
  "crypto \<Rightarrow> 'h chunk_bdb \<Rightarrow> u64 \<Rightarrow> u64 \<Rightarrow> sha1 \<Rightarrow> meta \<Rightarrow> bool \<Rightarrow> (('h, 'g) chunk_tables, bool \<times> meta) cmd" where
  "tables_fetch_meta cr B t t' cid m auto_inc =
     liftc ct_db (\<lambda>db d. d\<lparr>ct_db := db\<rparr>) (fetch_meta cr B t t' cid m auto_inc)"

section \<open>The session\<close>

datatype session_result = sr_ok | sr_invalid_size | sr_unknown_chunk | sr_already_stored | sr_rejected | sr_unknown

record session_fetch =
  sf_result :: session_result
  sf_offset :: u32
  sf_data :: "byte list"
  sf_balance :: int
  sf_query_interval :: u64
  sf_deadend_count :: u32

definition session_fetch_new :: "session_result \<Rightarrow> int \<Rightarrow> session_fetch" where
  "session_fetch_new e bal = \<lparr>sf_result = e, sf_offset = 0, sf_data = [], sf_balance = bal, sf_query_interval = 0, sf_deadend_count = 0\<rparr>"

definition get_credit_limit :: int where "get_credit_limit = 0x00ffffffffffff"
definition get_balance :: int where "get_balance = 0"
definition get_publish_price :: "sha1 \<Rightarrow> u32 \<Rightarrow> int" where "get_publish_price cid sz = 0"

text \<open>160 as an \<open>int8_t\<close> is negative.\<close>

definition publish_rank :: "8 word" where "publish_rank = 160"

text \<open>\<open>bytes\<close> is a signed number; the data vector is filled with zeros before it is read into.\<close>

definition session_fetch_chunk ::
  "crypto \<Rightarrow> 'h chunk_bdb \<Rightarrow> ('g, byte list) bdb \<Rightarrow> u64 \<Rightarrow> u64 \<Rightarrow> sha1 \<Rightarrow> 32 word \<Rightarrow> u32 \<Rightarrow> (('h, 'g) chunk_tables, session_fetch) cmd" where
  "session_fetch_chunk cr B BD t t' cid bytes offset =
     bindc (tables_fetch_meta cr B t t' cid meta_new True) (\<lambda>(_, met).
       if chunk_size met = 0 then
         ret ((session_fetch_new sr_unknown_chunk 0)\<lparr>sf_query_interval := access_interval met\<rparr>)
       else (\<lambda>d.
         let data = (if sint bytes > 0 \<and> offset < chunk_size met
                     then let buf = replicate (unat (min (chunk_size met - offset) bytes)) 0 in
                          (case db_fetch_chunk BD d cid buf (unat offset) of Some bs \<Rightarrow> bs | None \<Rightarrow> buf)
                     else [])
         in (Inr \<lparr>sf_result = sr_ok, sf_offset = offset, sf_data = data, sf_balance = 0,
                  sf_query_interval = access_interval met, sf_deadend_count = 0\<rparr>, d)))"

definition session_store ::
  "crypto \<Rightarrow> 'h chunk_bdb \<Rightarrow> ('g, byte list) bdb \<Rightarrow> u64 \<Rightarrow> u64 \<Rightarrow> byte list \<Rightarrow> (('h, 'g) chunk_tables, session_result \<times> int) cmd" where
  "session_store cr B BD t t' data =
     (if length data = 0 \<or> length data > 1024 * 1024 then ret (sr_invalid_size, 0)
      else
        let cid = sha1_hash cr data in
        bindc (tables_fetch_meta cr B t t' cid meta_new True) (\<lambda>(_, met).
          if chunk_size met = 0 then
            bindc (db_store_chunk cr B BD t t' cid data) (\<lambda>ok.
              ret (if ok then sr_ok else sr_rejected, 0))
          else ret (sr_already_stored, 0)))"

definition session_store_reference :: "sha1 \<Rightarrow> session_result \<times> int" where
  "session_store_reference cid = (sr_unknown, 0)"

section \<open>The tables agree\<close>

text \<open>
  Data lies under its own hash and is neither empty nor bigger than its size can tell, what has data has its
  size on record, and what has a size on record has data.
\<close>

definition tables_ok :: "crypto \<Rightarrow> 'h chunk_bdb \<Rightarrow> ('g, byte list) bdb \<Rightarrow> ('h, 'g) chunk_tables \<Rightarrow> bool" where
  "tables_ok cr B BD d \<longleftrightarrow>
     (\<forall>cid v. data_of BD d cid = Some v \<longrightarrow>
        sha1_hash cr v = cid \<and> v \<noteq> [] \<and> length v < 2 ^ 32 \<and> (\<exists>m. meta_of B d cid = Some m \<and> chunk_size m = of_nat (length v))) \<and>
     (\<forall>cid m. meta_of B d cid = Some m \<and> chunk_size m \<noteq> 0 \<longrightarrow> data_of BD d cid \<noteq> None)"

lemma store_meta_meta_of:
  assumes "bdb_ok B" "store_meta B cid m (ct_db d) = (Inr x, db')"
  shows "meta_of B (d\<lparr>ct_db := db'\<rparr>) = (meta_of B d)(cid \<mapsto> m)" "chunk_key db' = chunk_key (ct_db d)"
proof -
  note st = store_meta_Inr [OF assms]
  show k: "chunk_key db' = chunk_key (ct_db d)" using st by (simp add: chunk_key_def fun_eq_iff)
  show "meta_of B (d\<lparr>ct_db := db'\<rparr>) = (meta_of B d)(cid \<mapsto> m)" using st by (simp add: meta_of_def k fun_eq_iff)
qed

text \<open>What a successful store does to the two tables.\<close>

lemma db_store_chunk_Inr:
  assumes "bdb_ok B" "bdb_ok BD" "db_store_chunk cr B BD t t' cid b d = (Inr r, d')"
  shows "sha1_hash cr b = cid \<and> r = (data_of BD d cid = None) \<and>
    data_of BD d' = (if r then (data_of BD d)(cid \<mapsto> b) else data_of BD d) \<and>
    (let m = stored_meta cr t t' (xor cid (cd_node_id (ct_db d))) (meta_of B d cid) in
     meta_of B d' = (if r \<and> chunk_size m = 0
       then (meta_of B d)(cid \<mapsto> m\<lparr>chunk_size := of_nat (length b), last_update := t'\<rparr>) else meta_of B d))"
proof -
  have upd: "data_of BD (d\<lparr>ct_data := g\<rparr>) = (data_of BD d)(cid \<mapsto> b)"
    if "db_put BD (ct_data d) (chunk_key (ct_db d) cid) b = Some g" for g
    using bdb_okD(1) [OF assms(2) that] by (auto simp: data_of_def fun_eq_iff)
  have key: "data_of BD \<lparr>ct_db = db', ct_data = g\<rparr> = data_of BD (d\<lparr>ct_data := g\<rparr>)"
    if "store_meta B cid m (ct_db d) = (Inr x, db')" for m x db' g
    using store_meta_meta_of(2) [OF assms(1) that] by (simp add: data_of_def fun_eq_iff)
  have met: "meta_of B \<lparr>ct_db = db', ct_data = g\<rparr> = (meta_of B d)(cid \<mapsto> m)"
    if "store_meta B cid m (ct_db d) = (Inr x, db')" for m x db' g
    using store_meta_meta_of(1) [OF assms(1) that] by (simp add: meta_of_def fun_eq_iff)
  have same: "meta_of B (d\<lparr>ct_data := g\<rparr>) = meta_of B d" for g by (simp add: meta_of_def fun_eq_iff)
  show ?thesis
    using assms(3) by (auto simp: db_store_chunk_def Let_def upd key met same split: if_splits option.splits prod.splits sum.splits)
qed

lemma tables_ok_store:
  assumes "bdb_ok B" "bdb_ok BD" "tables_ok cr B BD d" "b \<noteq> []" "length b < 2 ^ 32"
  shows "tables_ok cr B BD (snd (db_store_chunk cr B BD t t' cid b d))"
proof (cases "db_store_chunk cr B BD t t' cid b d")
  case (Pair x d')
  show ?thesis
  proof (cases x)
    case (Inl e)
    then have "d' = d" using Pair
      by (auto simp: db_store_chunk_def Let_def split: if_splits option.splits prod.splits sum.splits)
    then show ?thesis using assms(3) Pair by simp
  next
    case (Inr r)
    note st = db_store_chunk_Inr [OF assms(1,2) Pair [unfolded Inr]]
    define m where "m = stored_meta cr t t' (xor cid (cd_node_id (ct_db d))) (meta_of B d cid)"
    have "chunk_size m = 0" if "data_of BD d cid = None"
      using that assms(3) by (auto simp: m_def stored_meta_def tables_ok_def meta_new_def split: option.splits)
    then show ?thesis
      using st assms(3-5) unfolding Pair snd_conv by (auto simp: tables_ok_def Let_def simp flip: m_def)
  qed
qed

text \<open>A look at the record counts the query and leaves sizes and data alone.\<close>

lemma tables_fetch_meta_Inr:
  assumes "bdb_ok B" "tables_fetch_meta cr B t t' cid m0 auto d = (Inr (b, m), d')"
  shows "data_of BD d' = data_of BD d \<and>
    (\<forall>c. c \<noteq> cid \<longrightarrow> meta_of B d' c = meta_of B d c) \<and>
    (case meta_of B d cid of
       Some v \<Rightarrow> chunk_size m = chunk_size v \<and> b \<and> (\<exists>w. meta_of B d' cid = Some w \<and> chunk_size w = chunk_size v)
     | None \<Rightarrow> chunk_size m = chunk_size m0 \<and> b = auto \<and>
         (if auto then meta_of B d' cid = Some m else meta_of B d' cid = None))"
proof -
  obtain db' where f: "fetch_meta cr B t t' cid m0 auto (ct_db d) = (Inr (b, m), db')" "d' = d\<lparr>ct_db := db'\<rparr>"
    using assms(2) by (auto simp: tables_fetch_meta_def liftc_def split: prod.splits)
  have frame: "data_of BD (d\<lparr>ct_db := db\<rparr>) = data_of BD d" if "chunk_key db = chunk_key (ct_db d)" for db
    using that by (simp add: data_of_def fun_eq_iff)
  have get: "db_get B (cd_handle (ct_db d)) (chunk_key (ct_db d) cid) = meta_of B d cid" by (simp add: meta_of_def)
  show ?thesis
    using f store_meta_meta_of [OF assms(1), of cid _ d] frame
    by (fastforce simp: fetch_meta_def get Let_def bindc_def ret_def split: option.splits if_splits prod.splits sum.splits)
qed

lemma tables_ok_fetch_meta:
  assumes "bdb_ok B" "tables_ok cr' B BD d" "chunk_size m0 = 0"
    "tables_fetch_meta cr B t t' cid m0 auto d = (Inr (b, m), d')"
  shows "tables_ok cr' B BD d'"
proof -
  note f = tables_fetch_meta_Inr [OF assms(1,4), of BD]
  have "meta_of B d' c = meta_of B d c \<or> c = cid" for c using f by blast
  then show ?thesis
    using assms(2,3) f unfolding tables_ok_def
    by (auto split: option.splits if_splits) (metis option.inject option.distinct(1))+
qed

lemma size_of_data:
  assumes "tables_ok cr B BD d" "data_of BD d cid = Some v"
  shows "\<exists>m. meta_of B d cid = Some m \<and> unat (chunk_size m) = length v \<and> chunk_size m \<noteq> 0"
proof -
  obtain m where m: "meta_of B d cid = Some m" "chunk_size m = of_nat (length v)" "v \<noteq> []" "length v < 2 ^ 32"
    using assms by (auto simp: tables_ok_def)
  then have "unat (chunk_size m) = length v" by (simp add: unat_of_nat take_bit_nat_eq_self)
  moreover have "chunk_size m \<noteq> 0" using calculation m(3) by (metis length_0_conv unat_0)
  ultimately show ?thesis using m(1) by blast
qed

section \<open>What is stored can be fetched\<close>

lemma session_store_Inr:
  assumes "bdb_ok B" "bdb_ok BD" "tables_ok cr B BD d" "session_store cr B BD t t' data d = (Inr (r, bal), d')"
  shows "tables_ok cr B BD d' \<and>
    (if data = [] \<or> 1024 * 1024 < length data then r = sr_invalid_size \<and> d' = d
     else if data_of BD d (sha1_hash cr data) = None
     then r = sr_ok \<and> data_of BD d' = (data_of BD d)(sha1_hash cr data \<mapsto> data)
     else r = sr_already_stored \<and> data_of BD d' = data_of BD d)"
proof (cases "data = [] \<or> 1024 * 1024 < length data")
  case True
  then show ?thesis using assms(3,4) by (auto simp: session_store_def ret_def)
next
  case False
  let ?cid = "sha1_hash cr data"
  obtain b m d1 where m: "tables_fetch_meta cr B t t' ?cid meta_new True d = (Inr (b, m), d1)"
    using assms(4) False by (auto simp: session_store_def bindc_def Let_def split: prod.splits sum.splits)
  have n0: "chunk_size meta_new = 0" by (simp add: meta_new_def)
  note f = tables_fetch_meta_Inr [OF assms(1) m, of BD]
  have ok1: "tables_ok cr B BD d1" by (rule tables_ok_fetch_meta [OF assms(1,3) n0 m])
  have z: "chunk_size m = 0 \<longleftrightarrow> data_of BD d ?cid = None"
    using f n0 size_of_data [OF assms(3), of ?cid] assms(3)
    by (cases "data_of BD d ?cid") (auto simp: tables_ok_def split: option.splits)
  show ?thesis
  proof (cases "chunk_size m = 0")
    case True
    obtain x where s: "db_store_chunk cr B BD t t' ?cid data d1 = (Inr x, d')" "r = (if x then sr_ok else sr_rejected)"
      using assms(4) False m True by (auto simp: session_store_def bindc_def ret_def Let_def split: prod.splits sum.splits)
    have "tables_ok cr B BD d'" using tables_ok_store [OF assms(1,2) ok1, of data t t' ?cid] s(1) False by simp
    then show ?thesis using db_store_chunk_Inr [OF assms(1,2) s(1)] s(2) f z True False by auto
  next
    case neq: False
    then show ?thesis using assms(4) False m f z ok1 by (auto simp: session_store_def bindc_def ret_def Let_def)
  qed
qed

lemma session_fetch_Inr:
  assumes "bdb_ok B" "tables_ok cr B BD d" "data_of BD d cid = Some v"
    "session_fetch_chunk cr' B BD t t' cid n ofs d = (Inr r, d')"
  shows "sf_result r = sr_ok \<and> sf_offset r = ofs \<and>
    sf_data r = (if sint n > 0 then take (unat n) (drop (unat ofs) v) else [])"
proof -
  obtain b m d1 where m: "tables_fetch_meta cr' B t t' cid meta_new True d = (Inr (b, m), d1)"
    using assms(4) by (auto simp: session_fetch_chunk_def bindc_def split: prod.splits sum.splits)
  note f = tables_fetch_meta_Inr [OF assms(1) m, of BD]
  obtain w where w: "meta_of B d cid = Some w" "unat (chunk_size w) = length v" "chunk_size w \<noteq> 0"
    using size_of_data [OF assms(2,3)] by blast
  have sz: "unat (chunk_size m) = length v" "chunk_size m \<noteq> 0" using f w by auto
  have d1: "data_of BD d1 cid = Some v" using f assms(3) by simp
  have o: "ofs < chunk_size m \<longleftrightarrow> unat ofs < length v" by (simp add: word_less_nat_alt sz)
  have ms: "unat (min (chunk_size m - ofs) n) = min (length v - unat ofs) (unat n)" if "ofs < chunk_size m"
    using that sz by (auto simp: min_def word_le_nat_alt unat_sub word_less_nat_alt)
  have "take (min (length v - unat ofs) (unat n)) (drop (unat ofs) v) = take (unat n) (drop (unat ofs) v)"
    by (simp add: take_drop min_def)
  then show ?thesis
    using assms(4) m sz(2) d1 ms o
    by (auto simp: session_fetch_chunk_def bindc_def ret_def Let_def db_fetch_chunk_def overwrite_def split: if_splits)
qed


definition demo_tables :: "((byte list \<times> meta) list, (byte list \<times> byte list) list) chunk_tables" where
  "demo_tables = \<lparr>ct_db = demo_chunks, ct_data = []\<rparr>"

lemma demo_tables_ok: "tables_ok cr list_bdb list_bdb demo_tables"
  by (simp add: tables_ok_def data_of_def meta_of_def demo_tables_def demo_chunks_def list_bdb_def)

definition length_crypto :: crypto where
  "length_crypto = demo_crypto\<lparr>sha1_hash := (\<lambda>x. of_nat (length x))\<rparr>"

lemmas demo_table_defs = tables_fetch_meta_def liftc_def fetch_meta_def store_meta_def get_annual_rev_def
  annual_revenue_rate_def annual_query_count_def access_interval_def price_def meta_new_def list_bdb_def
  length_crypto_def demo_crypto_def bindc_def ret_def Let_def bit_count.simps db_store_chunk_def stored_meta_def
  data_of_def meta_of_def

definition demo_meta :: meta where
  "demo_meta = \<lparr>first_update = 10, last_update = 20, query_count = 0, chunk_size = 3, distance_rank = 158\<rparr>"

definition demo_tables_stored :: "((byte list \<times> meta) list, (byte list \<times> byte list) list) chunk_tables" where
  "demo_tables_stored = \<lparr>ct_db = demo_chunks\<lparr>cd_handle := [(chunk_key demo_chunks 3, demo_meta)]\<rparr>,
     ct_data = [(chunk_key demo_chunks 3, [1, 2, 3])]\<rparr>"

lemma demo_session_store:
  "session_store length_crypto list_bdb list_bdb 10 20 [1, 2, 3] demo_tables = (Inr (sr_ok, 0), demo_tables_stored)"
  by (simp add: session_store_def demo_table_defs demo_tables_def demo_tables_stored_def demo_chunks_def demo_meta_def chunk_key_def)


text \<open>
  The documentation of \<open>fetch\<close> promises the whole chunk for \<open>-1\<close> bytes; the answer is "ok" without any
  data.
\<close>

theorem session_fetch_all_empty:
  assumes "bdb_ok B" "tables_ok cr B BD d" "data_of BD d cid = Some v"
    "session_fetch_chunk cr' B BD t t' cid (- 1) ofs d = (Inr r, d')"
  shows "sf_result r = sr_ok \<and> sf_data r = []"
  using session_fetch_Inr [OF assms] by simp

end
