(* ===== verification/File_Import.thy ===== *)
theory File_Import
  imports Chunk_Data Publish_Db Raw
begin

text \<open>
  The chunk service of the first generation (src/services/chunk_service.cpp): a file is imported as encrypted chunks and an
  encrypted description of them, both kept in the local chunk database, and exported again from the
  hash of the description and the checksum of the file, which is the key. Blowfish in CBC mode is a
  library: an object keeps a chain that every call continues. The text of a checksum, the last
  component of a path and the text of an empty json value are library functions too. The file system
  is a map from paths; the clock is the list of its readings.
\<close>

section \<open>Ciphers with a chain\<close>

record 'c cbc =
  cbc_start :: "byte list \<Rightarrow> 'c"
  cbc_reset :: "'c \<Rightarrow> 'c"
  cbc_encrypt :: "'c \<Rightarrow> byte list \<Rightarrow> byte list \<times> 'c"
  cbc_decrypt :: "'c \<Rightarrow> byte list \<Rightarrow> byte list \<times> 'c"

text \<open>
  On whole blocks decryption undoes encryption when both start from the same chain, and both leave
  the same chain; a reset gives the chain a new object has.
\<close>

definition cbc_ok :: "'c cbc \<Rightarrow> bool" where
  "cbc_ok C \<longleftrightarrow>
     (\<forall>c x. 8 dvd length x \<longrightarrow> length (fst (cbc_encrypt C c x)) = length x \<and>
        cbc_decrypt C c (fst (cbc_encrypt C c x)) = (x, snd (cbc_encrypt C c x))) \<and>
     (\<forall>c x. cbc_reset C (snd (cbc_encrypt C c x)) = cbc_reset C c) \<and>
     (\<forall>k. cbc_reset C (cbc_start C k) = cbc_start C k)"

section \<open>State\<close>

datatype fs_entry = Regular "byte list" | Directory | Special

record chunk_entry =
  ce_size :: u32
  ce_id :: sha1
  ce_slices :: "u32 list"

record description =
  ds_checksum :: sha1
  ds_name :: "byte list"
  ds_size :: u64
  ds_chunks :: "chunk_entry list"
  ds_properties :: "byte list"
  ds_inline :: "byte list"

record ('h, 'g, 'p, 'c) import_env =
  ie_cr :: crypto
  ie_cbc :: "'c cbc"
  ie_hex :: "sha1 \<Rightarrow> byte list"
  ie_filename :: "byte list \<Rightarrow> byte list"
  ie_json_null :: "byte list"
  ie_now :: "nat \<Rightarrow> u64"
  ie_db :: "'h chunk_bdb"
  ie_data :: "('g, byte list) bdb"
  ie_pub :: "'p publish_bdb"

record ('h, 'g, 'p) import_service =
  is_local :: "('h, 'g) chunk_tables"
  is_cache :: "('h, 'g) chunk_tables"
  is_pub :: 'p
  is_fs :: "byte list \<Rightarrow> fs_entry option"
  is_clock :: nat

section \<open>Packing\<close>

definition pack_chunk_entry :: "chunk_entry \<Rightarrow> byte list" where
  "pack_chunk_entry c = pack_pod 4 (ce_size c) @ pack_pod 20 (ce_id c) @ pack_list (pack_pod 4) (ce_slices c)"

definition unpack_chunk_entry :: "chunk_entry unpacker" where
  "unpack_chunk_entry = bindc (unpack_pod 4) (\<lambda>n. bindc (unpack_pod 20) (\<lambda>i. bindc (unpack_list (unpack_pod 4)) (\<lambda>sl.
     ret \<lparr>ce_size = n, ce_id = i, ce_slices = sl\<rparr>)))"

definition pack_description :: "description \<Rightarrow> byte list" where
  "pack_description t = pack_pod 20 (ds_checksum t) @ pack_bytes (ds_name t) @ pack_pod 8 (ds_size t) @
     pack_list pack_chunk_entry (ds_chunks t) @ pack_bytes (ds_properties t) @ pack_bytes (ds_inline t)"

definition unpack_description :: "description unpacker" where
  "unpack_description = bindc (unpack_pod 20) (\<lambda>k. bindc unpack_bytes (\<lambda>n. bindc (unpack_pod 8) (\<lambda>z.
     bindc (unpack_list unpack_chunk_entry) (\<lambda>cs. bindc unpack_bytes (\<lambda>p. bindc unpack_bytes (\<lambda>i.
     ret \<lparr>ds_checksum = k, ds_name = n, ds_size = z, ds_chunks = cs, ds_properties = p, ds_inline = i\<rparr>))))))"

section \<open>Import\<close>

definition round8 :: "nat \<Rightarrow> nat" where
  "round8 n = ((n + 7) div 8) * 8"

definition import_chunk_size :: nat where
  "import_chunk_size = 1024 * 1024"

text \<open>The hashes of the slices of 64 kB.\<close>

function slice_hashes :: "crypto \<Rightarrow> byte list \<Rightarrow> u32 list" where
  "slice_hashes cr bs =
     (if bs = [] then []
      else super_fast_hash cr (take (64 * 1024) bs) # slice_hashes cr (drop (64 * 1024) bs))"
  by auto
termination by (relation "measure (\<lambda>(cr, bs). length bs)") auto

declare slice_hashes.simps [simp del]

definition store_local :: "('h, 'g, 'p, 'c) import_env \<Rightarrow> sha1 \<Rightarrow> byte list \<Rightarrow> (('h, 'g, 'p) import_service, bool) cmd" where
  "store_local E cid b s =
     (case db_store_chunk (ie_cr E) (ie_db E) (ie_data E) (ie_now E (is_clock s)) (ie_now E (is_clock s + 1)) cid b (is_local s) of
        (r, d) \<Rightarrow> (r, s\<lparr>is_local := d, is_clock := is_clock s + 2\<rparr>))"

text \<open>
  The loop over the file: \<open>r\<close> bytes are done, \<open>rest\<close> is what the stream still has, \<open>chunk\<close> the buffer. (An empty buffer would
  never end the loop; a file that is not empty has none.)
\<close>

function import_loop ::
  "('h, 'g, 'p, 'c) import_env \<Rightarrow> nat \<Rightarrow> nat \<Rightarrow> byte list \<Rightarrow> 'c \<Rightarrow> byte list \<Rightarrow> chunk_entry list \<Rightarrow>
   (('h, 'g, 'p) import_service, chunk_entry list \<times> 'c) cmd" where
  "import_loop E file_size r rest bf chunk entries s =
     (if chunk = [] then (Inl Out_of_fuel, s)
      else if r < file_size then
        let c = min (file_size - r) (length chunk);
            chunk1 = (if c < length chunk then take c chunk @ replicate (length chunk - c) 0 else chunk);
            chunk2 = overwrite 0 (take c rest) chunk1;
            c8 = round8 c;
            ebf = cbc_encrypt (ie_cbc E) bf (take c8 chunk2);
            chunk3 = overwrite 0 (fst ebf) chunk2;
            data = take c8 chunk3;
            cid = sha1_hash (ie_cr E) data;
            entry = \<lparr>ce_size = of_nat c, ce_id = cid, ce_slices = slice_hashes (ie_cr E) data\<rparr>
        in (case store_local E cid data s of
              (Inl e, s') \<Rightarrow> (Inl e, s')
            | (Inr _, s') \<Rightarrow>
                import_loop E file_size (r + c8) (drop c rest) (snd ebf) chunk3 (entries @ [entry]) s')
      else (Inr (entries, bf), s))"
  by pat_completeness auto
termination
proof (relation "measure (\<lambda>(E, n, r, _). n - r)", goal_cases)
  case (2 E n r rest bf chunk entries s c chunk1 chunk2 c8)
  have "0 < min (n - r) (length chunk)" using 2(1,2) by simp
  then have "1 \<le> (min (n - r) (length chunk) + 7) div 8" by linarith
  then have "0 < c8" using 2(3,6) by (simp add: round8_def)
  then show ?case using 2(2) by simp
qed simp

declare import_loop.simps [simp del]

definition tornet_suffix :: "byte list" where
  "tornet_suffix = map (\<lambda>c. of_nat (of_char c)) ''.tornet''"

definition pad8 :: "byte list \<Rightarrow> byte list" where
  "pad8 bs = bs @ replicate (round8 (length bs) - length bs) 0"

definition write_file :: "byte list \<Rightarrow> byte list \<Rightarrow> (('h, 'g, 'p) import_service, unit) cmd" where
  "write_file path bs s = (Inr (), s\<lparr>is_fs := (is_fs s)(path \<mapsto> Regular bs)\<rparr>)"

definition finish_import ::
  "('h, 'g, 'p, 'c) import_env \<Rightarrow> byte list \<Rightarrow> byte list \<Rightarrow> byte list \<Rightarrow> sha1 \<Rightarrow> chunk_entry list \<times> 'c \<Rightarrow>
   (('h, 'g, 'p) import_service, sha1 \<times> sha1) cmd" where
  "finish_import E infile outfile content checksum eb =
     (let tf = \<lparr>ds_checksum = checksum, ds_name = ie_filename E infile, ds_size = of_nat (length content),
                ds_chunks = fst eb, ds_properties = ie_json_null E, ds_inline = []\<rparr>;
          chunk = fst (cbc_encrypt (ie_cbc E) (cbc_reset (ie_cbc E) (snd eb)) (pad8 (pack_description tf)));
          tornet_id = sha1_hash (ie_cr E) chunk
      in andthen (store_local E tornet_id chunk)
         (andthen (write_file (if outfile = [] then infile @ tornet_suffix else outfile) (pack_description tf))
           (ret (tornet_id, checksum))))"

definition import_file ::
  "('h, 'g, 'p, 'c) import_env \<Rightarrow> byte list \<Rightarrow> byte list \<Rightarrow> (('h, 'g, 'p) import_service, sha1 \<times> sha1) cmd" where
  "import_file E infile outfile s =
     (case is_fs s infile of
        None \<Rightarrow> (Inl (Throw ''File does not exist.''), s)
      | Some Directory \<Rightarrow> (Inl (Throw ''is a directory, expected a file.''), s)
      | Some Special \<Rightarrow> (Inl (Throw ''is not a regular file.''), s)
      | Some (Regular content) \<Rightarrow>
          if content = [] then (Inl (Throw ''is an empty file.''), s)
          else
            let checksum = sha1_hash (ie_cr E) content;
                bf = cbc_reset (ie_cbc E) (cbc_start (ie_cbc E) (ie_hex E checksum));
                chunk = replicate (min import_chunk_size (round8 (length content))) 0
            in bindc (import_loop E (length content) 0 content bf chunk [])
                 (finish_import E infile outfile content checksum) s)"

section \<open>Export\<close>

text \<open>\<open>fetch_chunk\<close>: the local database, then the cache.\<close>

definition fetch_from :: "('h, 'g, 'p, 'c) import_env \<Rightarrow> ('h, 'g) chunk_tables \<Rightarrow> sha1 \<Rightarrow> byte list option" where
  "fetch_from E d cid =
     (case meta_of (ie_db E) d cid of
        None \<Rightarrow> None
      | Some met \<Rightarrow> db_fetch_chunk (ie_data E) d cid (replicate (unat (chunk_size met)) 0) 0)"

definition service_fetch_chunk :: "('h, 'g, 'p, 'c) import_env \<Rightarrow> sha1 \<Rightarrow> ('h, 'g, 'p) import_service \<Rightarrow> byte list res" where
  "service_fetch_chunk E cid s =
     (case fetch_from E (is_local s) cid of
        Some d \<Rightarrow> Inr d
      | None \<Rightarrow>
          (case fetch_from E (is_cache s) cid of
             Some d \<Rightarrow> Inr d
           | None \<Rightarrow> Inl (Throw ''Unknown chunk'')))"

text \<open>\<open>unpack_vec\<close> leaves the value as it is when there are no bytes.\<close>

definition unpack_vec :: "'a unpacker \<Rightarrow> 'a \<Rightarrow> byte list \<Rightarrow> 'a res" where
  "unpack_vec dec v bs = (if bs = [] then Inr v else fst (dec bs))"

definition description_new :: description where
  "description_new = \<lparr>ds_checksum = 0, ds_name = [], ds_size = 0, ds_chunks = [], ds_properties = [], ds_inline = []\<rparr>"

definition fetch_tornet :: "('h, 'g, 'p, 'c) import_env \<Rightarrow> sha1 \<Rightarrow> sha1 \<Rightarrow> ('h, 'g, 'p) import_service \<Rightarrow> description res" where
  "fetch_tornet E tornet_id checksum s =
     (case meta_of (ie_db E) (is_local s) tornet_id of
        None \<Rightarrow> Inl (Throw ''Unknown chunk'')
      | Some met \<Rightarrow>
          (case db_fetch_chunk (ie_data E) (is_local s) tornet_id (replicate (unat (chunk_size met)) 0) 0 of
             None \<Rightarrow> Inl (Throw ''Unknown to find data for chunk'')
           | Some enc \<Rightarrow>
               let tnet = fst (cbc_decrypt (ie_cbc E) (cbc_start (ie_cbc E) (ie_hex E checksum)) enc) in
               (case unpack_vec (unpack_pod 20) 0 tnet of
                  Inl e \<Rightarrow> Inl e
                | Inr check \<Rightarrow>
                    if check \<noteq> checksum then Inl (Throw ''Checksum mismatch'')
                    else
                      (case unpack_vec unpack_description description_new tnet of
                         Inl e \<Rightarrow> Inl e
                       | Inr tf \<Rightarrow> if ds_checksum tf \<noteq> checksum then Inl (Throw ''Checksum mismatch'') else Inr tf))))"

text \<open>The loop of \<open>export_tornet\<close> over the mapped file; \<open>adj_size\<close> is computed in 32 bits.\<close>

fun export_loop ::
  "('h, 'g, 'p, 'c) import_env \<Rightarrow> ('h, 'g) chunk_tables \<Rightarrow> chunk_entry list \<Rightarrow> nat \<Rightarrow> 'c \<Rightarrow> (byte list, unit) cmd" where
  "export_loop E d [] pos bf region = (Inr (), region)"
| "export_loop E d (c # cs) pos bf region =
     (let sz = unat (ce_size c); adj_size = unat (((ce_size c + 7) div 8) * 8) in
      if length region < pos + sz then (Inl (Throw ''Attempt to write beyond end of file!''), region)
      else if adj_size \<noteq> sz then
        (case db_fetch_chunk (ie_data E) d (ce_id c) (replicate adj_size 0) 0 of
           None \<Rightarrow> (Inl (Throw ''Error fetching chunk''), region)
         | Some tmp \<Rightarrow>
             let dbf = cbc_decrypt (ie_cbc E) bf tmp in
             export_loop E d cs (pos + sz) (snd dbf) (overwrite pos (take sz (fst dbf)) region))
      else
        (case db_fetch_chunk (ie_data E) d (ce_id c) (take adj_size (drop pos region)) 0 of
           None \<Rightarrow> (Inl (Throw ''Error fetching chunk''), region)
         | Some tmp \<Rightarrow>
             let dbf = cbc_decrypt (ie_cbc E) bf tmp in
             export_loop E d cs (pos + sz) (snd dbf) (overwrite pos (fst dbf) region)))"

text \<open>A file whose name is that of a directory cannot be opened; the code goes on with a null pointer. A size of zero makes a file
  of one byte.\<close>

definition export_tornet ::
  "('h, 'g, 'p, 'c) import_env \<Rightarrow> sha1 \<Rightarrow> sha1 \<Rightarrow> (('h, 'g, 'p) import_service, unit) cmd" where
  "export_tornet E tornet_id checksum s =
     (case fetch_tornet E tornet_id checksum s of
        Inl e \<Rightarrow> (Inl e, s)
      | Inr tf \<Rightarrow>
          if is_fs s (ds_name tf) = Some Directory then (Inl (Undefined ''null file pointer''), s)
          else
            let n = unat (ds_size tf);
                bf = cbc_reset (ie_cbc E) (cbc_start (ie_cbc E) (ie_hex E checksum)) in
            (case export_loop E (is_local s) (ds_chunks tf) 0 bf (replicate (max 1 n) 0) of
               (r, region) \<Rightarrow>
                 let s' = s\<lparr>is_fs := (is_fs s)(ds_name tf \<mapsto> Regular region)\<rparr> in
                 (case r of
                    Inl e \<Rightarrow> (Inl e, s')
                  | Inr _ \<Rightarrow>
                      if sha1_hash (ie_cr E) (take n region) \<noteq> checksum then (Inl (Throw ''File checksum mismatch''), s')
                      else (Inr (), s'))))"

section \<open>Publishing\<close>

definition publish_chunk ::
  "('h, 'g, 'p, 'c) import_env \<Rightarrow> u32 \<Rightarrow> sha1 \<Rightarrow> (('h, 'g, 'p) import_service, unit) cmd" where
  "publish_chunk E rep cid s =
     (case publish_fetch (ie_pub E) (is_pub s) cid (publish_new 0 0 0 0) of
        Inl e \<Rightarrow> (Inl e, s)
      | Inr (_, rec) \<Rightarrow>
          (case publish_store (ie_pub E) cid (rec\<lparr>desired_host_count := rep, next_update := 0\<rparr>) (is_pub s) of
             (Inl e, h) \<Rightarrow> (Inl e, s\<lparr>is_pub := h\<rparr>)
           | (Inr _, h) \<Rightarrow> (Inr (), s\<lparr>is_pub := h\<rparr>)))"

fun publish_chunks :: "('h, 'g, 'p, 'c) import_env \<Rightarrow> u32 \<Rightarrow> sha1 list \<Rightarrow> (('h, 'g, 'p) import_service, unit) cmd" where
  "publish_chunks E rep [] = ret ()"
| "publish_chunks E rep (c # cs) = andthen (publish_chunk E rep c) (publish_chunks E rep cs)"

definition publish_tornet ::
  "('h, 'g, 'p, 'c) import_env \<Rightarrow> sha1 \<Rightarrow> sha1 \<Rightarrow> u32 \<Rightarrow> (('h, 'g, 'p) import_service, unit) cmd" where
  "publish_tornet E tid cs rep s =
     (case fetch_tornet E tid cs s of
        Inl e \<Rightarrow> (Inl e, s)
      | Inr tf \<Rightarrow> publish_chunks E rep (map ce_id (ds_chunks tf) @ [tid]) s)"

text \<open>
  One round of \<open>publish_loop\<close> for the chunk \<open>next\<close>, after the wait: \<open>hn\<close> are the nodes the search found to host the chunk and
  \<open>nn\<close> the near nodes, by distance; \<open>upload\<close> is what the remote session answers to a store, or the exception of the call. The value is the node the
  chunk was sent to.
\<close>

definition publish_target :: "sha1 \<Rightarrow> (sha1 \<times> sha1) list \<Rightarrow> sha1 option" where
  "publish_target self nn = map_option snd (find (\<lambda>(d, n). n \<noteq> self) nn)"

definition publish_round ::
  "('h, 'g, 'p, 'c) import_env \<Rightarrow> sha1 \<Rightarrow> u64 \<Rightarrow> sha1 \<times> publish_record \<Rightarrow> (sha1 \<times> sha1) list \<Rightarrow> (sha1 \<times> sha1) list \<Rightarrow>
   (sha1 \<Rightarrow> byte list \<Rightarrow> unit res) \<Rightarrow> (('h, 'g, 'p) import_service, sha1 option) cmd" where
  "publish_round E self now nxt hn nn upload s =
     (let fin = (\<lambda>to. case publish_store (ie_pub E) (fst nxt) ((snd nxt)\<lparr>next_update := now + 60 * 1000 * 1000\<rparr>) (is_pub s) of
                    (Inl e, h) \<Rightarrow> (Inl e, s\<lparr>is_pub := h\<rparr>)
                  | (Inr _, h) \<Rightarrow> (Inr to, s\<lparr>is_pub := h\<rparr>)) in
      if length hn < unat (desired_host_count (snd nxt)) then
        (case publish_target self nn of
           None \<Rightarrow> fin None
         | Some n \<Rightarrow>
             (case service_fetch_chunk E (fst nxt) s of
                Inl e \<Rightarrow> (Inl e, s)
              | Inr data \<Rightarrow> (case upload n data of Inl e \<Rightarrow> (Inl e, s) | Inr _ \<Rightarrow> fin (Some n))))
      else fin None)"

section \<open>Whole blocks\<close>

lemma round8_bounds: "n \<le> round8 n" "round8 n < n + 8" "8 dvd round8 n"
proof -
  show "8 dvd round8 n" by (simp add: round8_def)
  show "n \<le> round8 n" "round8 n < n + 8" by (simp_all add: round8_def)
qed

lemma round8_dvd: "8 dvd n \<Longrightarrow> round8 n = n"
  by (auto simp: round8_def dvd_def)

lemma round8_mono: "m \<le> n \<Longrightarrow> round8 m \<le> round8 n"
  by (simp add: round8_def div_le_mono)

lemma length_pad8: "length (pad8 bs) = round8 (length bs)"
  using round8_bounds(1) [of "length bs"] by (simp add: pad8_def)

lemma take_pad8: "take (length bs) (pad8 bs) = bs"
  by (simp add: pad8_def)

section \<open>The chunks of a file\<close>

text \<open>
  What the loop of the import computes: the file is cut into parts of \<open>L\<close> bytes, each part is padded to whole blocks and
  encrypted with the chain the parts before it left. A piece is the length of the part and its
  ciphertext.
\<close>

function pieces :: "'c cbc \<Rightarrow> nat \<Rightarrow> 'c \<Rightarrow> byte list \<Rightarrow> (nat \<times> byte list) list" where
  "pieces C L bf rest =
     (if L = 0 \<or> rest = [] then []
      else
        let ebf = cbc_encrypt C bf (pad8 (take L rest)) in
        (length (take L rest), fst ebf) # pieces C L (snd ebf) (drop L rest))"
  by auto
termination by (relation "measure (\<lambda>(C, L, bf, rest). length rest)") auto

declare pieces.simps [simp del]

definition piece_entry :: "crypto \<Rightarrow> nat \<times> byte list \<Rightarrow> chunk_entry" where
  "piece_entry cr p = \<lparr>ce_size = of_nat (fst p), ce_id = sha1_hash cr (snd p), ce_slices = slice_hashes cr (snd p)\<rparr>"

lemma pieces_Nil [simp]: "pieces C L bf [] = []"
  by (simp add: pieces.simps)

lemma pieces_Cons:
  "0 < L \<Longrightarrow> rest \<noteq> [] \<Longrightarrow> pieces C L bf rest =
     (length (take L rest), fst (cbc_encrypt C bf (pad8 (take L rest)))) #
     pieces C L (snd (cbc_encrypt C bf (pad8 (take L rest)))) (drop L rest)"
  by (simp add: pieces.simps [of C L bf rest] Let_def)

text \<open>What the loop stores, one chunk after the other.\<close>

fun store_pieces :: "('h, 'g, 'p, 'c) import_env \<Rightarrow> byte list list \<Rightarrow> (('h, 'g, 'p) import_service, unit) cmd" where
  "store_pieces E [] = ret ()"
| "store_pieces E (b # bs) = andthen (store_local E (sha1_hash (ie_cr E) b) b) (store_pieces E bs)"

text \<open>One round: the buffer holds the padded part, then its ciphertext.\<close>

lemma import_buffer:
  assumes "8 dvd length chunk" "c = min (length rest) (length chunk)"
    "chunk1 = (if c < length chunk then take c chunk @ replicate (length chunk - c) 0 else chunk)"
    "chunk2 = overwrite 0 (take c rest) chunk1"
  shows "take (round8 c) chunk2 = pad8 (take (length chunk) rest)" "length chunk2 = length chunk" "round8 c \<le> length chunk"
proof -
  have c: "c \<le> length chunk" using assms(2) by simp
  then show r: "round8 c \<le> length chunk" using round8_mono [OF c] round8_dvd [OF assms(1)] by simp
  have tc: "take c rest = take (length chunk) rest" "length (take c rest) = c" using assms(2) by (auto simp: min_def)
  have l1: "length chunk1 = length chunk" using assms(3) c by simp
  then show "length chunk2 = length chunk" using assms(4) tc c by (simp add: overwrite_def)
  have d: "drop c chunk1 = replicate (length chunk - c) 0" using assms(3) c by auto
  define p where "p = take c rest"
  have p: "length p = c" "take (length chunk) rest = p" using tc by (simp_all add: p_def)
  have "chunk2 = p @ replicate (length chunk - c) 0"
    using assms(4) tc d by (simp add: overwrite_def p_def)
  then show "take (round8 c) chunk2 = pad8 (take (length chunk) rest)"
    unfolding p(2) using p(1) r round8_bounds(1) [of c] by (simp add: pad8_def)
qed

lemma import_loop_pieces:
  assumes "cbc_ok (ie_cbc E)" "8 dvd length chunk" "chunk \<noteq> []"
    "if rest = [] then n \<le> r else r + length rest = n"
    "import_loop E n r rest bf chunk entries s = (Inr eb, s')"
  shows "fst eb = entries @ map (piece_entry (ie_cr E)) (pieces (ie_cbc E) (length chunk) bf rest) \<and>
    cbc_reset (ie_cbc E) (snd eb) = cbc_reset (ie_cbc E) bf \<and>
    store_pieces E (map snd (pieces (ie_cbc E) (length chunk) bf rest)) s = (Inr (), s')"
  using assms(2-5)
proof (induction "length rest" arbitrary: rest r bf chunk entries s rule: less_induct)
  case less
  show ?case
  proof (cases "rest = []")
    case True
    then show ?thesis using less.prems by (auto simp: import_loop.simps [of E n r] ret_def split: if_splits)
  next
    case False
    let ?C = "ie_cbc E" and ?L = "length chunk"
    define c where "c = min (length rest) ?L"
    define chunk1 where "chunk1 = (if c < ?L then take c chunk @ replicate (?L - c) 0 else chunk)"
    define chunk2 where "chunk2 = overwrite 0 (take c rest) chunk1"
    define part where "part = take ?L rest"
    define ebf where "ebf = cbc_encrypt ?C bf (pad8 part)"
    define chunk3 where "chunk3 = overwrite 0 (fst ebf) chunk2"
    have r: "r < n" "n - r = length rest" using less.prems(3) False by auto
    note b = import_buffer [OF less.prems(1) c_def chunk1_def chunk2_def, folded part_def]
    have len: "length (fst ebf) = round8 c"
      using assms(1) b(1) round8_bounds(3) by (simp add: cbc_ok_def ebf_def length_pad8 part_def c_def min.commute)
    have l3: "length chunk3 = ?L" using b(2,3) len by (simp add: chunk3_def)
    have data: "take (round8 c) chunk3 = fst ebf" using len by (simp add: chunk3_def overwrite_def)
    have sz: "length part = c" by (simp add: part_def c_def min.commute)
    obtain x s1 where st: "store_local E (sha1_hash (ie_cr E) (fst ebf)) (fst ebf) s = (Inr x, s1)"
      and rec: "import_loop E n (r + round8 c) (drop c rest) (snd ebf) chunk3
        (entries @ [piece_entry (ie_cr E) (c, fst ebf)]) s1 = (Inr eb, s')"
      using less.prems(2,4) r b(1) data
      by (simp add: import_loop.simps [of E n r rest] Let_def piece_entry_def c_def [symmetric] chunk1_def [symmetric]
          chunk2_def [symmetric] ebf_def [symmetric] chunk3_def [symmetric] split: prod.splits sum.splits)
    have dr: "drop c rest = drop ?L rest" by (auto simp: c_def min_def)
    have "?L \<noteq> 0" using less.prems(2) by simp
    then have c0: "0 < c" using False by (simp add: c_def)
    have c8: "if drop c rest = [] then n \<le> r + round8 c else (r + round8 c) + length (drop c rest) = n"
    proof (cases "length rest \<le> ?L")
      case True
      then show ?thesis using less.prems(3) False round8_bounds(1) [of c] by (simp add: c_def)
    next
      case False
      then have "c = ?L" by (simp add: c_def)
      then show ?thesis using False less.prems(3) r round8_dvd [OF less.prems(1)] by auto
    qed
    have "length (drop c rest) < length rest" "8 dvd length chunk3" "chunk3 \<noteq> []"
      using c0 False l3 less.prems(1,2) by auto
    from less.hyps [OF this c8 rec] l3 dr sz st \<open>?L \<noteq> 0\<close> False assms(1)
    show ?thesis
      by (simp add: pieces_Cons andthen_def bindc_def part_def [symmetric] ebf_def [symmetric])
         (simp add: ebf_def cbc_ok_def)
  qed
qed

section \<open>What was stored is there\<close>

text \<open>The hashes of the data in \<open>S\<close> do not collide, and the local database holds only data of \<open>S\<close>.\<close>

definition local_within :: "('h, 'g, 'p, 'c) import_env \<Rightarrow> byte list set \<Rightarrow> ('h, 'g, 'p) import_service \<Rightarrow> bool" where
  "local_within E S s \<longleftrightarrow> tables_ok (ie_cr E) (ie_db E) (ie_data E) (is_local s) \<and>
     inj_on (sha1_hash (ie_cr E)) S \<and> (\<forall>cid v. data_of (ie_data E) (is_local s) cid = Some v \<longrightarrow> v \<in> S)"

definition dbs_ok :: "('h, 'g, 'p, 'c) import_env \<Rightarrow> bool" where
  "dbs_ok E \<longleftrightarrow> bdb_ok (ie_db E) \<and> bdb_ok (ie_data E)"

lemma store_local_within:
  assumes "dbs_ok E" "local_within E S s" "b \<in> S" "b \<noteq> []" "length b < 2 ^ 32"
    "store_local E (sha1_hash (ie_cr E) b) b s = (Inr x, s')"
  shows "local_within E S s' \<and> is_fs s' = is_fs s \<and> is_cache s' = is_cache s \<and>
    data_of (ie_data E) (is_local s') = (data_of (ie_data E) (is_local s))(sha1_hash (ie_cr E) b \<mapsto> b)"
proof -
  let ?d = "is_local s" and ?cid = "sha1_hash (ie_cr E) b"
  obtain d' t t' where st: "db_store_chunk (ie_cr E) (ie_db E) (ie_data E) t t' ?cid b ?d = (Inr x, d')"
    and s': "s' = s\<lparr>is_local := d', is_clock := is_clock s + 2\<rparr>"
    using assms(6) by (auto simp: store_local_def split: prod.splits)
  have ok: "bdb_ok (ie_db E)" "bdb_ok (ie_data E)" using assms(1) by (simp_all add: dbs_ok_def)
  have tab: "tables_ok (ie_cr E) (ie_db E) (ie_data E) ?d" "inj_on (sha1_hash (ie_cr E)) S"
    using assms(2) by (simp_all add: local_within_def)
  note e = db_store_chunk_Inr [OF ok st]
  have same: "v = b" if "data_of (ie_data E) ?d ?cid = Some v" for v
    using that assms(2,3) tab unfolding local_within_def tables_ok_def by (meson inj_onD)
  have d: "data_of (ie_data E) d' = (data_of (ie_data E) ?d)(?cid \<mapsto> b)"
    using e same by (cases "data_of (ie_data E) ?d ?cid") (auto simp: fun_upd_idem_iff)
  have "tables_ok (ie_cr E) (ie_db E) (ie_data E) d'"
    using tables_ok_store [OF ok tab(1) assms(4,5), of t t' ?cid] st by simp
  then show ?thesis using d assms(2,3) by (auto simp: local_within_def s')
qed

lemma store_pieces_within:
  assumes "dbs_ok E" "local_within E S s" "set bs \<subseteq> S" "\<forall>b \<in> set bs. b \<noteq> [] \<and> length b < 2 ^ 32"
    "store_pieces E bs s = (Inr (), s')"
  shows "local_within E S s' \<and> is_fs s' = is_fs s \<and>
    (\<forall>b \<in> set bs. data_of (ie_data E) (is_local s') (sha1_hash (ie_cr E) b) = Some b) \<and>
    (\<forall>b \<in> S. data_of (ie_data E) (is_local s) (sha1_hash (ie_cr E) b) = Some b \<longrightarrow>
       data_of (ie_data E) (is_local s') (sha1_hash (ie_cr E) b) = Some b)"
  using assms(2-5)
proof (induction bs arbitrary: s)
  case Nil
  then show ?case by (simp add: ret_def)
next
  case (Cons b bs)
  obtain x s1 where st: "store_local E (sha1_hash (ie_cr E) b) b s = (Inr x, s1)" "store_pieces E bs s1 = (Inr (), s')"
    using Cons.prems(4) by (auto simp: andthen_def bindc_def split: prod.splits sum.splits)
  have b: "b \<in> S" "b \<noteq> []" "length b < 2 ^ 32" using Cons.prems by auto
  note one = store_local_within [OF assms(1) Cons.prems(1) b st(1)]
  have "inj_on (sha1_hash (ie_cr E)) S" using Cons.prems(1) by (simp add: local_within_def)
  then have keep: "data_of (ie_data E) (is_local s1) (sha1_hash (ie_cr E) v) = Some v"
    if "v \<in> S" "v = b \<or> data_of (ie_data E) (is_local s) (sha1_hash (ie_cr E) v) = Some v" for v
    using that one b(1) by (auto dest: inj_onD)
  have "local_within E S s' \<and> is_fs s' = is_fs s1 \<and>
    (\<forall>b \<in> set bs. data_of (ie_data E) (is_local s') (sha1_hash (ie_cr E) b) = Some b) \<and>
    (\<forall>b \<in> S. data_of (ie_data E) (is_local s1) (sha1_hash (ie_cr E) b) = Some b \<longrightarrow>
       data_of (ie_data E) (is_local s') (sha1_hash (ie_cr E) b) = Some b)"
    using Cons.prems one st(2) by (intro Cons.IH) auto
  then show ?case using keep b(1) one by auto
qed

section \<open>Descriptions read back\<close>

definition description_fits :: "description \<Rightarrow> bool" where
  "description_fits t \<longleftrightarrow> length (pack_description t) + 8 < 2 ^ 32"

lemma length_pack_entries:
  "(\<And>x. x \<in> set xs \<Longrightarrow> 1 \<le> length (enc x)) \<Longrightarrow> length xs \<le> length (pack_each enc xs)"
  by (induction xs) force+

lemma length_pack_each_elem: "x \<in> set xs \<Longrightarrow> length (enc x) \<le> length (pack_each enc xs)"
  by (induction xs) auto

lemma decodes_chunk_entry:
  assumes "fits32 (length (ce_slices c))"
  shows "decodes unpack_chunk_entry c (pack_chunk_entry c)"
proof (cases c)
  case (fields n i sl)
  have "decodes (unpack_list (unpack_pod 4)) sl (pack_list (pack_pod 4) sl)"
    using assms by (intro decodes_list) (auto simp: fields intro: decodes_pod)
  from decodes_map [OF this, of "\<lambda>sl. \<lparr>ce_size = n, ce_id = i, ce_slices = sl\<rparr>"]
  show ?thesis unfolding fields unpack_chunk_entry_def pack_chunk_entry_def
    by (auto intro!: decodes_bind [OF decodes_pod])
qed

lemma decodes_description:
  assumes "description_fits t"
  shows "decodes unpack_description t (pack_description t)"
proof (cases t)
  case (fields k n z cs p i)
  let ?l = "length (pack_description t)"
  have l: "?l < 2 ^ 32" using assms by (simp add: description_fits_def)
  have "length n \<le> ?l" "length p \<le> ?l" "length i \<le> ?l"
    by (simp_all add: fields pack_description_def pack_bytes_def)
  then have f: "fits32 (length n)" "fits32 (length p)" "fits32 (length i)" using l by (simp_all add: fits32_def)
  have e: "length (pack_each pack_chunk_entry cs) \<le> ?l" by (simp add: fields pack_description_def pack_list_def)
  have "length cs \<le> length (pack_each pack_chunk_entry cs)"
    by (rule length_pack_entries) (simp add: pack_chunk_entry_def pack_pod_def)
  then have fc: "fits32 (length cs)" using e l by (simp add: fits32_def)
  have "fits32 (length (ce_slices c))" if "c \<in> set cs" for c
  proof -
    have "length (ce_slices c) \<le> length (pack_each (pack_pod 4) (ce_slices c))"
      by (rule length_pack_entries) (simp add: pack_pod_def)
    also have "\<dots> \<le> length (pack_chunk_entry c)" by (simp add: pack_chunk_entry_def pack_list_def)
    also have "\<dots> \<le> ?l" using length_pack_each_elem [OF that, of pack_chunk_entry] e by simp
    finally show ?thesis using l by (simp add: fits32_def)
  qed
  then have dl: "decodes (unpack_list unpack_chunk_entry) cs (pack_list pack_chunk_entry cs)"
    using fc by (intro decodes_list) (auto intro: decodes_chunk_entry)
  from decodes_map [OF decodes_bytes [OF f(3)], of "\<lambda>i. \<lparr>ds_checksum = k, ds_name = n, ds_size = z, ds_chunks = cs, ds_properties = p, ds_inline = i\<rparr>"]
  show ?thesis unfolding fields unpack_description_def pack_description_def
    by (auto intro!: decodes_bind [OF decodes_pod] decodes_bind [OF decodes_bytes] decodes_bind [OF dl] simp: f)
qed

section \<open>Export undoes import\<close>

lemma adj_size_round8:
  assumes "k < 2 ^ 31"
  shows "unat ((((of_nat k :: u32) + 7) div 8) * 8) = round8 k"
proof -
  define w where "w = (of_nat k :: u32) + 7"
  have a: "unat w = k + 7"
    unfolding w_def using assms by (simp add: unat_word_ariths unat_of_nat take_bit_nat_eq_self)
  have "k + 7 < 2 ^ 32" using assms by simp
  then have "(k + 7) div 8 * 8 < 2 ^ 32" by (rule le_less_trans [rotated]) simp
  then show ?thesis unfolding w_def [symmetric] by (simp add: unat_word_ariths unat_div a round8_def)
qed

lemma overwrite_same_length: "length v = length buf \<Longrightarrow> overwrite 0 v buf = v"
  by (simp add: overwrite_def)

text \<open>One chunk, whether it fills its blocks and is read in place or not.\<close>

lemma export_piece:
  assumes C: "cbc_ok (ie_cbc E)" and k: "length part < 2 ^ 31"
    and ebf: "ebf = cbc_encrypt (ie_cbc E) bf (pad8 part)"
    and got: "data_of (ie_data E) d (sha1_hash (ie_cr E) (fst ebf)) = Some (fst ebf)"
    and fit: "pos + length part \<le> length region"
  shows "export_loop E d (piece_entry (ie_cr E) (length part, fst ebf) # cs) pos bf region =
    export_loop E d cs (pos + length part) (snd ebf) (overwrite pos part region)"
proof -
  have u: "unat (of_nat (length part) :: u32) = length part" using k by (simp add: unat_of_nat take_bit_nat_eq_self)
  have enc: "length (fst ebf) = round8 (length part)" "cbc_decrypt (ie_cbc E) bf (fst ebf) = (pad8 part, snd ebf)"
    using C round8_bounds(3) by (simp_all add: cbc_ok_def ebf length_pad8)
  have fetch: "db_fetch_chunk (ie_data E) d (sha1_hash (ie_cr E) (fst ebf)) buf 0 = Some (fst ebf)"
    if "length buf = round8 (length part)" for buf
    using that enc(1) by (simp add: db_fetch_chunk_def got overwrite_same_length)
  show ?thesis
  proof (cases "round8 (length part) = length part")
    case True
    then have "length (take (length part) (drop pos region)) = round8 (length part)" "pad8 part = part"
      using fit by (simp_all add: pad8_def)
    then show ?thesis using fetch fit enc(2) True
      by (simp add: piece_entry_def Let_def u adj_size_round8 [OF k])
  next
    case False
    have "length (replicate (round8 (length part)) (0 :: byte)) = round8 (length part)" by simp
    from fetch [OF this] show ?thesis using fit enc(2) False
      by (simp add: piece_entry_def Let_def u adj_size_round8 [OF k] take_pad8)
  qed
qed

lemma export_pieces:
  assumes "cbc_ok (ie_cbc E)" "0 < L" "L < 2 ^ 31"
    "\<forall>b \<in> set (map snd (pieces (ie_cbc E) L bf rest)). data_of (ie_data E) d (sha1_hash (ie_cr E) b) = Some b"
    "pos + length rest \<le> length region"
  shows "export_loop E d (map (piece_entry (ie_cr E)) (pieces (ie_cbc E) L bf rest)) pos bf region =
    (Inr (), overwrite pos rest region)"
  using assms(4,5)
proof (induction "length rest" arbitrary: rest pos bf region rule: less_induct)
  case less
  show ?case
  proof (cases "rest = []")
    case False
    let ?C = "ie_cbc E"
    define part where "part = take L rest"
    define ebf where "ebf = cbc_encrypt ?C bf (pad8 part)"
    have ps: "pieces ?C L bf rest = (length part, fst ebf) # pieces ?C L (snd ebf) (drop L rest)"
      unfolding part_def ebf_def by (rule pieces_Cons [OF assms(2) False])
    have k: "length part < 2 ^ 31" using assms(3) by (simp add: part_def)
    have lr: "length rest = length part + length (drop L rest)" by (simp add: part_def)
    have fit: "pos + length part \<le> length region" using less.prems(2) lr by linarith
    have "data_of (ie_data E) d (sha1_hash (ie_cr E) (fst ebf)) = Some (fst ebf)"
      using less.prems(1) by (simp add: ps)
    note one = export_piece [OF assms(1) k ebf_def this fit]
    have "length (drop L rest) < length rest" using assms(2) False by simp
    moreover have "\<forall>b \<in> set (map snd (pieces ?C L (snd ebf) (drop L rest))). data_of (ie_data E) d (sha1_hash (ie_cr E) b) = Some b"
      using less.prems(1) by (simp add: ps)
    moreover have "(pos + length part) + length (drop L rest) \<le> length (overwrite pos part region)"
      using less.prems(2) lr fit by (simp only: length_overwrite)
    ultimately have "export_loop E d (map (piece_entry (ie_cr E)) (pieces ?C L (snd ebf) (drop L rest))) (pos + length part)
        (snd ebf) (overwrite pos part region) = (Inr (), overwrite (pos + length part) (drop L rest) (overwrite pos part region))"
      by (rule less.hyps)
    moreover have "overwrite (pos + length part) (drop L rest) (overwrite pos part region) = overwrite pos rest region"
      using overwrite_overwrite [of pos part "drop L rest" region] less.prems(2) lr
      by (simp only: part_def append_take_drop_id add.assoc)
    ultimately show ?thesis by (simp only: ps list.map one)
  qed simp
qed

text \<open>What an import makes of a file, without the database.\<close>

definition import_pieces :: "('h, 'g, 'p, 'c) import_env \<Rightarrow> byte list \<Rightarrow> (nat \<times> byte list) list" where
  "import_pieces E content = pieces (ie_cbc E) (min import_chunk_size (round8 (length content)))
     (cbc_start (ie_cbc E) (ie_hex E (sha1_hash (ie_cr E) content))) content"

definition import_description :: "('h, 'g, 'p, 'c) import_env \<Rightarrow> byte list \<Rightarrow> byte list \<Rightarrow> description" where
  "import_description E infile content =
     \<lparr>ds_checksum = sha1_hash (ie_cr E) content, ds_name = ie_filename E infile, ds_size = of_nat (length content),
      ds_chunks = map (piece_entry (ie_cr E)) (import_pieces E content), ds_properties = ie_json_null E, ds_inline = []\<rparr>"

definition import_sealed :: "('h, 'g, 'p, 'c) import_env \<Rightarrow> byte list \<Rightarrow> byte list \<Rightarrow> byte list" where
  "import_sealed E infile content =
     fst (cbc_encrypt (ie_cbc E) (cbc_start (ie_cbc E) (ie_hex E (sha1_hash (ie_cr E) content)))
       (pad8 (pack_description (import_description E infile content))))"

lemma pieces_sizes:
  assumes "cbc_ok C" "b \<in> set (map snd (pieces C L bf rest))"
  shows "b \<noteq> [] \<and> length b \<le> round8 L"
  using assms(2)
proof (induction "length rest" arbitrary: rest bf rule: less_induct)
  case less
  have nz: "0 < L" "rest \<noteq> []" using less.prems by (auto simp: pieces.simps [of C L bf rest] split: if_splits)
  let ?p = "pad8 (take L rest)"
  have "length (fst (cbc_encrypt C bf ?p)) = round8 (length (take L rest))"
    using assms(1) round8_bounds(3) by (simp add: cbc_ok_def length_pad8)
  moreover have "0 < length (take L rest)" using nz by simp
  then have "0 < round8 (length (take L rest))" using round8_bounds(1) by (rule less_le_trans)
  moreover have "round8 (length (take L rest)) \<le> round8 L" by (intro round8_mono) simp
  moreover have "length (drop L rest) < length rest" using nz by simp
  ultimately show ?case using less.prems less.hyps [of "drop L rest"] by (auto simp: pieces_Cons [OF nz])
qed

text \<open>The import, as a sequence of stores.\<close>

lemma import_file_stores:
  assumes "cbc_ok (ie_cbc E)" "is_fs s infile = Some (Regular content)" "import_file E infile outfile s = (Inr (tid, ck), s')"
  shows "content \<noteq> [] \<and> ck = sha1_hash (ie_cr E) content \<and> tid = sha1_hash (ie_cr E) (import_sealed E infile content) \<and>
    (\<exists>s1 x s2. store_pieces E (map snd (import_pieces E content)) s = (Inr (), s1) \<and>
       store_local E tid (import_sealed E infile content) s1 = (Inr x, s2) \<and> is_local s' = is_local s2)"
proof -
  let ?C = "ie_cbc E" and ?L = "min import_chunk_size (round8 (length content))"
  let ?bf = "cbc_start ?C (ie_hex E (sha1_hash (ie_cr E) content))"
  have start: "cbc_reset ?C ?bf = ?bf" using assms(1) by (simp add: cbc_ok_def)
  have ne: "content \<noteq> []" using assms(2,3) by (auto simp: import_file_def)
  then have "0 < length content" by simp
  then have "0 < round8 (length content)" using round8_bounds(1) by (rule less_le_trans)
  then have L: "replicate ?L (0 :: byte) \<noteq> []" "8 dvd length (replicate ?L (0 :: byte))"
    using round8_bounds(3) [of "length content"] by (auto simp: import_chunk_size_def min_def)
  obtain eb s1 where lp: "import_loop E (length content) 0 content ?bf (replicate ?L 0) [] s = (Inr eb, s1)"
    and fin: "finish_import E infile outfile content (sha1_hash (ie_cr E) content) eb s1 = (Inr (tid, ck), s')"
    using assms(2,3) ne start by (auto simp: import_file_def Let_def bindc_def split: prod.splits sum.splits)
  have p: "fst eb = map (piece_entry (ie_cr E)) (import_pieces E content)" "cbc_reset ?C (snd eb) = ?bf"
    "store_pieces E (map snd (import_pieces E content)) s = (Inr (), s1)"
    using import_loop_pieces [OF assms(1) L(2,1) _ lp] ne start by (simp_all add: import_pieces_def)
  show ?thesis
    using fin p ne
    by (auto simp: finish_import_def Let_def andthen_def bindc_def ret_def write_file_def import_sealed_def
        import_description_def split: prod.splits sum.splits)
qed

lemma fetch_sealed:
  assumes "cbc_ok (ie_cbc E)" "local_within E S s" "description_fits (import_description E infile content)"
    and "data_of (ie_data E) (is_local s) tid = Some (import_sealed E infile content)"
  shows "fetch_tornet E tid (sha1_hash (ie_cr E) content) s = Inr (import_description E infile content)"
proof -
  let ?t = "import_description E infile content" and ?d = "import_sealed E infile content"
  obtain m where m: "meta_of (ie_db E) (is_local s) tid = Some m" "unat (chunk_size m) = length ?d"
    using size_of_data [of "ie_cr E" "ie_db E" "ie_data E" "is_local s" tid ?d] assms(2,4) by (auto simp: local_within_def)
  have "db_fetch_chunk (ie_data E) (is_local s) tid (replicate (unat (chunk_size m)) 0) 0 = Some ?d"
    using assms(4) m(2) by (simp add: db_fetch_chunk_def overwrite_same_length)
  moreover have "fst (cbc_decrypt (ie_cbc E) (cbc_start (ie_cbc E) (ie_hex E (sha1_hash (ie_cr E) content))) ?d) = pad8 (pack_description ?t)"
    using assms(1) round8_bounds(3) by (simp add: import_sealed_def cbc_ok_def length_pad8)
  moreover have "fst (unpack_description (pad8 (pack_description ?t))) = Inr ?t"
    using decodesD [OF decodes_description [OF assms(3)]] by (simp add: pad8_def)
  moreover have "fst (unpack_pod 20 (pad8 (pack_description ?t))) = Inr (sha1_hash (ie_cr E) content)"
    using decodesD [OF decodes_pod [of 20 "sha1_hash (ie_cr E) content"]]
    by (simp add: pad8_def pack_description_def import_description_def)
  moreover have "0 < length (pack_description ?t)" by (simp add: pack_description_def pack_pod_def)
  then have "pad8 (pack_description ?t) \<noteq> []" by (simp add: pad8_def)
  ultimately show ?thesis using m(1)
    by (simp add: fetch_tornet_def unpack_vec_def) (simp add: import_description_def)
qed

lemma import_part_bounds:
  assumes "content \<noteq> []" "L = min import_chunk_size (round8 (length content))"
  shows "0 < L" "L < 2 ^ 31" "round8 L < 2 ^ 32"
proof -
  have "0 < length content" using assms(1) by simp
  then have "0 < round8 (length content)" using round8_bounds(1) by (rule less_le_trans)
  then show "0 < L" using assms(2) by (simp add: import_chunk_size_def)
  have "L \<le> 1048576" using assms(2) by (simp add: import_chunk_size_def)
  then show "L < 2 ^ 31" "round8 L < 2 ^ 32" using round8_bounds(2) [of L] by simp_all
qed

text \<open>After the import all chunks and the description are in the local database.\<close>

lemma import_kept:
  assumes E: "cbc_ok (ie_cbc E)" "dbs_ok E"
    and db: "local_within E S s" "set (map snd (import_pieces E content)) \<subseteq> S" "import_sealed E infile content \<in> S"
    and imp: "is_fs s infile = Some (Regular content)" "import_file E infile outfile s = (Inr (tid, ck), s1)"
    and sz: "description_fits (import_description E infile content)"
  shows "local_within E S s1 \<and> tid = sha1_hash (ie_cr E) (import_sealed E infile content) \<and>
    (\<forall>b \<in> insert (import_sealed E infile content) (set (map snd (import_pieces E content))).
       data_of (ie_data E) (is_local s1) (sha1_hash (ie_cr E) b) = Some b)"
proof -
  let ?d = "import_sealed E infile content" and ?n = "length (pack_description (import_description E infile content))"
  obtain sa x sb where ne: "content \<noteq> []" and tid: "tid = sha1_hash (ie_cr E) ?d"
    and st: "store_pieces E (map snd (import_pieces E content)) s = (Inr (), sa)"
      "store_local E tid ?d sa = (Inr x, sb)" "is_local s1 = is_local sb"
    using import_file_stores [OF E(1) imp] by blast
  have ps: "\<forall>b \<in> set (map snd (import_pieces E content)). b \<noteq> [] \<and> length b < 2 ^ 32"
    using pieces_sizes [OF E(1)] import_part_bounds(3) [OF ne refl] unfolding import_pieces_def by fastforce
  note sa = store_pieces_within [OF E(2) db(1,2) ps st(1)]
  have "length ?d = round8 ?n" using E(1) round8_bounds(3) by (simp add: import_sealed_def cbc_ok_def length_pad8)
  moreover have "0 < ?n" by (simp add: pack_description_def pack_pod_def)
  ultimately have "0 < length ?d" and d2: "length ?d < 2 ^ 32"
    using sz round8_bounds(1,2) [of ?n] unfolding description_fits_def by linarith+
  then have d: "?d \<noteq> []" "length ?d < 2 ^ 32" by auto
  note sb = store_local_within [OF E(2) _ db(3) d st(2) [unfolded tid]]
  have inj: "inj_on (sha1_hash (ie_cr E)) S" using db(1) by (simp add: local_within_def)
  have "data_of (ie_data E) (is_local s1) (sha1_hash (ie_cr E) b) = Some b"
    if b: "b \<in> set (map snd (import_pieces E content))" for b
  proof -
    have "b \<in> S" using b db(2) by blast
    then have "sha1_hash (ie_cr E) b = sha1_hash (ie_cr E) ?d \<longleftrightarrow> b = ?d" using inj db(3) by (auto dest: inj_onD)
    then show ?thesis using sa sb st(3) b by (cases "b = ?d") auto
  qed
  then show ?thesis using sa sb st(3) tid by (auto simp: local_within_def)
qed

text \<open>C11: Export undoes import. When a file is imported into the local chunk database of a
  node, with a database and a cipher that behave as documented and no two different chunks of the
  same hash, then exporting the returned description with the returned checksum succeeds, and the
  file it writes, under the last component of the original path, has exactly the content of the
  original: whatever the length of the file, whether it fills its last block or its last chunk or
  not, and with the chain of the cipher running through all chunks.\<close>

theorem import_export_roundtrip:
  assumes E: "cbc_ok (ie_cbc E)" "dbs_ok E"
    and db: "local_within E S s" "set (map snd (import_pieces E content)) \<subseteq> S" "import_sealed E infile content \<in> S"
    and imp: "is_fs s infile = Some (Regular content)" "import_file E infile outfile s = (Inr (tid, ck), s1)"
    and sz: "description_fits (import_description E infile content)" "length content < 2 ^ 64"
    and nodir: "is_fs s1 (ie_filename E infile) \<noteq> Some Directory"
  shows "ck = sha1_hash (ie_cr E) content \<and>
    (\<exists>s2. export_tornet E tid ck s1 = (Inr (), s2) \<and> is_fs s2 (ie_filename E infile) = Some (Regular content))"
proof -
  let ?C = "ie_cbc E" and ?t = "import_description E infile content"
  let ?bf = "cbc_start ?C (ie_hex E ck)"
  have ne: "content \<noteq> []" and ck: "ck = sha1_hash (ie_cr E) content"
    using import_file_stores [OF E(1) imp] by simp_all
  note kept = import_kept [OF E db imp sz(1)]
  have ft: "fetch_tornet E tid ck s1 = Inr ?t"
    unfolding ck using kept by (intro fetch_sealed [OF E(1) _ sz(1)]) auto
  have ex: "export_loop E (is_local s1) (ds_chunks ?t) 0 ?bf (replicate (length content) 0) = (Inr (), content)"
    using export_pieces [OF E(1) import_part_bounds(1,2) [OF ne refl], of ?bf content "is_local s1" 0 "replicate (length content) 0"] kept
    by (simp add: import_description_def import_pieces_def ck overwrite_def)
  have "cbc_reset ?C ?bf = ?bf" using E(1) by (simp add: cbc_ok_def)
  moreover have "unat (of_nat (length content) :: u64) = length content" using sz(2) by (simp add: unat_of_nat take_bit_nat_eq_self)
  moreover have "max 1 (length content) = length content" using ne by (simp add: Suc_le_eq max_def)
  ultimately show ?thesis
    using nodir ft ex ck by (simp add: export_tornet_def Let_def) (simp add: import_description_def)
qed

section \<open>What is published\<close>

lemma publish_chunk_Inr:
  assumes "bdb_ok (ie_pub E)" "publish_chunk E rep cid s = (Inr (), s')"
  shows "\<exists>r. published (ie_pub E) (is_pub s') = (published (ie_pub E) (is_pub s))(cid \<mapsto> r) \<and>
    desired_host_count r = rep \<and> next_update r = 0"
  using assms(2)
  by (force simp: publish_chunk_def publish_store_def published_def Let_def fun_eq_iff bdb_okD(1) [OF assms(1)]
      split: sum.splits prod.splits option.splits if_splits)

lemma publish_chunks_Inr:
  assumes "bdb_ok (ie_pub E)" "publish_chunks E rep cs s = (Inr (), s')" "cid \<in> set cs \<or> due (published (ie_pub E) (is_pub s) cid)"
    and due: "due = (\<lambda>x. \<exists>r. x = Some r \<and> desired_host_count r = rep \<and> next_update r = 0)"
  shows "due (published (ie_pub E) (is_pub s') cid)"
  using assms(2,3)
proof (induction cs arbitrary: s)
  case Nil
  then show ?case by (simp add: ret_def)
next
  case (Cons c cs)
  obtain s1 where s1: "publish_chunk E rep c s = (Inr (), s1)" "publish_chunks E rep cs s1 = (Inr (), s')"
    using Cons.prems(1) by (auto simp: andthen_def bindc_def split: prod.splits sum.splits)
  have "cid \<in> set cs \<or> due (published (ie_pub E) (is_pub s1) cid)"
    using publish_chunk_Inr [OF assms(1) s1(1)] Cons.prems(2) by (cases "cid = c") (auto simp: due)
  then show ?case by (rule Cons.IH [OF s1(2)])
qed

text \<open>
  Publishing a file schedules its description and every one of its chunks for the publish loop at once, with the wanted
  number of hosts.
\<close>

theorem publish_tornet_schedules:
  assumes "bdb_ok (ie_pub E)" "fetch_tornet E tid ck s = Inr tf" "publish_tornet E tid ck rep s = (Inr (), s')"
    and "cid = tid \<or> cid \<in> set (map ce_id (ds_chunks tf))"
  shows "\<exists>r. published (ie_pub E) (is_pub s') cid = Some r \<and> desired_host_count r = rep \<and> next_update r = 0"
proof -
  have p: "publish_chunks E rep (map ce_id (ds_chunks tf) @ [tid]) s = (Inr (), s')"
    using assms(2,3) by (simp add: publish_tornet_def)
  have c: "cid \<in> set (map ce_id (ds_chunks tf) @ [tid])" using assms(4) by auto
  show ?thesis using publish_chunks_Inr [OF assms(1) p disjI1 [OF c] refl] by simp
qed

section \<open>A concrete import\<close>

text \<open>A toy cipher whose chain is the key and a running number that is added to every byte.\<close>

definition demo_cbc :: "(byte \<times> byte) cbc" where
  "demo_cbc = \<lparr>cbc_start = (\<lambda>k. (hd (k @ [0]), hd (k @ [0]))), cbc_reset = (\<lambda>(k, c). (k, k)),
     cbc_encrypt = (\<lambda>(k, c) x. (map (\<lambda>b. b + c) x, (k, c + 1))),
     cbc_decrypt = (\<lambda>(k, c) x. (map (\<lambda>b. b - c) x, (k, c + 1)))\<rparr>"

lemma demo_cbc_ok: "cbc_ok demo_cbc"
  by (auto simp: cbc_ok_def demo_cbc_def comp_def)

definition demo_import ::
  "((byte list \<times> meta) list, (byte list \<times> byte list) list, (byte list \<times> publish_record) list, byte \<times> byte) import_env" where
  "demo_import = \<lparr>ie_cr = length_crypto, ie_cbc = demo_cbc, ie_hex = (\<lambda>h. [ucast h]), ie_filename = (\<lambda>p. p),
     ie_json_null = [], ie_now = (\<lambda>n. of_nat n), ie_db = list_bdb, ie_data = list_bdb, ie_pub = list_bdb\<rparr>"

definition demo_import_service ::
  "((byte list \<times> meta) list, (byte list \<times> byte list) list, (byte list \<times> publish_record) list) import_service" where
  "demo_import_service = \<lparr>is_local = demo_tables, is_cache = demo_tables, is_pub = [],
     is_fs = [[97] \<mapsto> Regular [1, 2, 3]], is_clock = 0\<rparr>"

lemma demo_import_simps [simp]:
  "ie_cr demo_import = length_crypto" "ie_cbc demo_import = demo_cbc" "ie_hex demo_import = (\<lambda>h. [ucast h])"
  "ie_filename demo_import = (\<lambda>p. p)" "ie_json_null demo_import = []" "ie_db demo_import = list_bdb"
  "ie_data demo_import = list_bdb" "ie_now demo_import = (\<lambda>n. of_nat n)"
  by (simp_all add: demo_import_def)

lemma demo_dbs_ok: "dbs_ok demo_import"
  by (simp add: dbs_ok_def list_bdb_ok)

lemma length_hash [simp]: "sha1_hash length_crypto x = of_nat (length x)"
  by (simp add: length_crypto_def)

lemma demo_pieces: "import_pieces demo_import [1, 2, 3] = [(3, [4, 5, 6, 3, 3, 3, 3, 3])]"
  by (simp add: import_pieces_def round8_def import_chunk_size_def pieces_Cons pad8_def demo_cbc_def)
     (simp add: eval_nat_numeral)

definition demo_description :: description where
  "demo_description = \<lparr>ds_checksum = 3, ds_name = [97], ds_size = 3,
     ds_chunks = [\<lparr>ce_size = 3, ce_id = 8, ce_slices = [8]\<rparr>], ds_properties = [], ds_inline = []\<rparr>"

lemma demo_import_description: "import_description demo_import [97] [1, 2, 3] = demo_description"
  by (simp add: import_description_def demo_pieces piece_entry_def slice_hashes.simps demo_description_def
      length_crypto_def demo_crypto_def)

lemma demo_pack_length: "length (pack_description demo_description) = 62"
proof -
  have "pack_unsigned 0 = [0]" "pack_unsigned 1 = [1]"
    by (simp_all add: pack_unsigned_def pack_uint.simps [of 0] pack_uint.simps [of 1])
  then show ?thesis
    by (simp add: demo_description_def pack_description_def pack_pod_def pack_bytes_def pack_list_def pack_chunk_entry_def)
qed

definition demo_import_middle ::
  "((byte list \<times> meta) list, (byte list \<times> byte list) list, (byte list \<times> publish_record) list) import_service" where
  "demo_import_middle = demo_import_service\<lparr>is_local := \<lparr>
     ct_db = demo_chunks\<lparr>cd_handle := [(chunk_key demo_chunks 8, \<lparr>first_update = 0, last_update = 1, query_count = 0, chunk_size = 8, distance_rank = 157\<rparr>)]\<rparr>,
     ct_data = [(chunk_key demo_chunks 8, [4, 5, 6, 3, 3, 3, 3, 3])]\<rparr>, is_clock := 2\<rparr>"

lemma demo_import_loop:
  "import_loop demo_import 3 0 [1, 2, 3] (3, 3) (replicate 8 0) [] demo_import_service =
     (Inr (ds_chunks demo_description, (3, 4)), demo_import_middle)"
proof -
  have b: "replicate 8 (0 :: byte) = [0, 0, 0, 0, 0, 0, 0, 0]" by (simp add: eval_nat_numeral)
  have "store_local demo_import 8 [4, 5, 6, 3, 3, 3, 3, 3] demo_import_service = (Inr True, demo_import_middle)"
    by (simp add: store_local_def demo_import_service_def demo_import_middle_def demo_table_defs demo_tables_def demo_chunks_def chunk_key_def)
  then show ?thesis
    unfolding b
    by (simp add: import_loop.simps [of demo_import 3 0] import_loop.simps [of demo_import 3 8] Let_def round8_def
        overwrite_def demo_cbc_def slice_hashes.simps demo_description_def length_crypto_def demo_crypto_def)
qed

definition demo_sealed :: "byte list" where
  "demo_sealed = map (\<lambda>b. b + 3) (pad8 (pack_description demo_description))"

lemma demo_sealed_length: "length demo_sealed = 64"
  by (simp add: demo_sealed_def length_pad8 demo_pack_length round8_def)

lemma demo_import_sealed: "import_sealed demo_import [97] [1, 2, 3] = demo_sealed"
  by (simp add: import_sealed_def demo_import_description demo_sealed_def demo_cbc_def)

lemma demo_imported:
  "\<exists>s1. import_file demo_import [97] [98] demo_import_service = (Inr (64, 3), s1) \<and>
     is_fs s1 [97] = Some (Regular [1, 2, 3])"
proof -
  have l: "import_loop demo_import (Suc (Suc (Suc 0))) 0 [1, 2, 3] (3, 3) (replicate 8 0) [] demo_import_service =
      (Inr (ds_chunks demo_description, (3, 4)), demo_import_middle)"
    using demo_import_loop by (simp add: eval_nat_numeral)
  have "\<exists>s2. store_local demo_import 64 demo_sealed demo_import_middle = (Inr True, s2) \<and> is_fs s2 = is_fs demo_import_service"
    by (simp add: store_local_def demo_import_middle_def demo_import_service_def demo_table_defs demo_chunks_def
        demo_sealed_length chunk_key_def sha1_data_inject)
  then obtain s2 where st: "store_local demo_import 64 demo_sealed demo_import_middle = (Inr True, s2)"
    "is_fs s2 = is_fs demo_import_service" by blast
  have tf: "\<lparr>ds_checksum = 3, ds_name = [97], ds_size = 3, ds_chunks = ds_chunks demo_description, ds_properties = [], ds_inline = []\<rparr> = demo_description"
    by (simp add: demo_description_def)
  have fs: "is_fs demo_import_service [97] = Some (Regular [1, 2, 3])" by (simp add: demo_import_service_def)
  have fin: "finish_import demo_import [97] [98] [1, 2, 3] 3 (ds_chunks demo_description, (3, 4)) demo_import_middle =
      (Inr (64, 3), s2\<lparr>is_fs := (is_fs s2)([98] \<mapsto> Regular (pack_description demo_description))\<rparr>)"
    using st demo_sealed_length [unfolded demo_sealed_def length_map]
    by (simp add: finish_import_def Let_def andthen_def bindc_def write_file_def ret_def demo_cbc_def tf
        demo_sealed_def [symmetric])
  show ?thesis
    using l fs fin st(2)
    by (simp add: import_file_def Let_def bindc_def round8_def import_chunk_size_def demo_cbc_def)
qed

theorem import_export_roundtrip_witness:
  "\<exists>s1 s2. import_file demo_import [97] [98] demo_import_service = (Inr (64, 3), s1) \<and>
     export_tornet demo_import 64 3 s1 = (Inr (), s2) \<and> is_fs s2 [97] = Some (Regular [1, 2, 3])"
proof -
  obtain s1 where i: "import_file demo_import [97] [98] demo_import_service = (Inr (64, 3), s1)"
    "is_fs s1 [97] = Some (Regular [1, 2, 3])" using demo_imported by blast
  let ?S = "{[4, 5, 6, 3, 3, 3, 3, 3], demo_sealed}"
  have w: "local_within demo_import ?S demo_import_service"
    using demo_tables_ok [of length_crypto] demo_sealed_length
    by (simp add: local_within_def demo_import_service_def inj_on_def)
       (simp add: demo_tables_def data_of_def list_bdb_def)
  have "\<exists>s2. export_tornet demo_import 64 3 s1 = (Inr (), s2) \<and> is_fs s2 [97] = Some (Regular [1, 2, 3])"
    using import_export_roundtrip [of demo_import ?S demo_import_service "[1, 2, 3]" "[97]" "[98]" 64 3 s1] w i
      demo_cbc_ok demo_dbs_ok demo_pack_length
    by (simp add: demo_pieces demo_import_sealed demo_import_description description_fits_def demo_import_service_def)
  then show ?thesis using i(1) by blast
qed

end
