(* ===== verification/Download_Status.thy ===== *)
theory Download_Status
  imports Httpd
begin

text \<open>
  Downloads (src/download_status.cpp): a fiber fetches the description of a file, then its chunks one after the other, and
  hands what it decodes to a delegate. The environment is that of the http daemon: what \<open>download_tornet\<close> and \<open>download_chunk\<close>
  of the chunk service return, the cipher from a fresh chain, the Mersenne twister and the text of an exception. The
  delegate is the list of the calls it gets.
\<close>

section \<open>State\<close>

text \<open>The progress is a fraction: the bytes downloaded and the size of the file.\<close>

datatype delegate_call =
    Dl_status "nat \<times> u64" "byte list"
  | Dl_data "byte list"
  | Dl_error int "byte list"
  | Dl_complete

record download =
  dl_status :: "byte list"
  dl_per_comp :: "nat \<times> u64"
  dl_link :: link
  dl_tf :: "tornet_file option"
  dl_fail_str :: "byte list"
  dl_calls :: "delegate_call list"
  dl_started :: bool

definition download_new :: "link \<Rightarrow> download" where
  "download_new ln = \<lparr>dl_status = str ''idle'', dl_per_comp = (0, 1), dl_link = ln, dl_tf = None, dl_fail_str = [],
     dl_calls = [], dl_started = False\<rparr>"

definition tell :: "delegate_call \<Rightarrow> download \<Rightarrow> download" where
  "tell c s = s\<lparr>dl_calls := dl_calls s @ [c]\<rparr>"

section \<open>The fiber\<close>

text \<open>One chunk, inside its own \<open>try\<close>. The hash reads as many bytes as the chunk is said to have.\<close>

definition deliver_chunk :: "httpd_env \<Rightarrow> tornet_file \<Rightarrow> tornet_chunk \<Rightarrow> nat \<Rightarrow> (download, nat) cmd" where
  "deliver_chunk E tf c downloaded s =
     (case hd_download E (tc_id c) of
        Inl e \<Rightarrow> (Inl e, s)
      | Inr d \<Rightarrow>
          let n = unat (tc_size c); downloaded' = downloaded + n;
              s1 = s\<lparr>dl_per_comp := (downloaded', tf_size tf)\<rparr>;
              cdata = hd_decrypt E (tf_checksum tf) (derandomize (hd_mt E) (tc_seed c) d 0)
          in if length cdata < n then (Inl (Undefined ''read past the chunk''), s1)
             else (Inr downloaded', tell (Dl_data (take n cdata)) s1))"

text \<open>An exception of a chunk is reported and the loop goes on with the next one.\<close>

fun download_chunks :: "httpd_env \<Rightarrow> (sha1 \<Rightarrow> byte list) \<Rightarrow> tornet_file \<Rightarrow> tornet_chunk list \<Rightarrow> nat \<Rightarrow> (download, unit) cmd" where
  "download_chunks E hex tf [] downloaded s = (Inr (), s)"
| "download_chunks E hex tf (c # cs) downloaded s =
     (let st = str ''Downloading file chunk '' @ hex (tc_id c);
          s1 = tell (Dl_status (dl_per_comp s) st) (s\<lparr>dl_status := st\<rparr>) in
      case deliver_chunk E tf c downloaded s1 of
        (Inr n, s2) \<Rightarrow> download_chunks E hex tf cs n s2
      | (Inl (Throw t), s2) \<Rightarrow>
          download_chunks E hex tf cs downloaded
            (tell (Dl_error (- 1) (str ''Unable to download chunk '' @ hex (tc_id c) @ str '': '' @ hd_except E (Throw t))) s2)
      | (Inl e, s2) \<Rightarrow> (Inl e, s2))"

definition download_fiber :: "httpd_env \<Rightarrow> (sha1 \<Rightarrow> byte list) \<Rightarrow> (download, unit) cmd" where
  "download_fiber E hex s =
     (case hd_fetch E (dl_link s) of
        Inr tf \<Rightarrow>
          (case download_chunks E hex tf (tf_chunks tf) 0 (s\<lparr>dl_tf := Some tf\<rparr>) of
             (Inl e, s') \<Rightarrow> (Inl e, s')
           | (Inr _, s') \<Rightarrow> (Inr (), tell Dl_complete s'))
      | Inl (Throw t) \<Rightarrow> (Inr (), tell Dl_complete (tell (Dl_error (- 1) (hd_except E (Throw t))) s))
      | Inl e \<Rightarrow> (Inl e, s))"

text \<open>\<open>start\<close> runs the fiber; the accessors.\<close>

definition download_start :: "httpd_env \<Rightarrow> (sha1 \<Rightarrow> byte list) \<Rightarrow> (download, unit) cmd" where
  "download_start E hex s = download_fiber E hex (s\<lparr>dl_started := True\<rparr>)"

definition get_tornet_file :: "download \<Rightarrow> tornet_file option" where
  "get_tornet_file s = dl_tf s"

definition percent_complete :: "download \<Rightarrow> nat \<times> u64" where
  "percent_complete s = dl_per_comp s"

definition fail_string :: "download \<Rightarrow> byte list" where
  "fail_string s = dl_fail_str s"

section \<open>What the delegate gets\<close>

fun delivered :: "delegate_call list \<Rightarrow> byte list" where
  "delivered [] = []"
| "delivered (Dl_data d # cs) = d @ delivered cs"
| "delivered (_ # cs) = delivered cs"

definition errors :: "delegate_call list \<Rightarrow> nat" where
  "errors cs = length (filter (\<lambda>c. case c of Dl_error _ _ \<Rightarrow> True | _ \<Rightarrow> False) cs)"

lemma delivered_append [simp]: "delivered (as @ bs) = delivered as @ delivered bs"
  by (induction as rule: delivered.induct) simp_all

lemma errors_append [simp]: "errors (as @ bs) = errors as + errors bs"
  by (simp add: errors_def)

lemma tell_simps [simp]:
  "dl_calls (tell c s) = dl_calls s @ [c]" "dl_per_comp (tell c s) = dl_per_comp s" "dl_tf (tell c s) = dl_tf s"
  "dl_fail_str (tell c s) = dl_fail_str s"
  by (simp_all add: tell_def)

text \<open>
  \<open>holds E enc tf c part\<close>: the network has for the chunk \<open>c\<close> the randomized encryption of \<open>part\<close>, padded to whole blocks.
\<close>

definition holds :: "httpd_env \<Rightarrow> (sha1 \<Rightarrow> byte list \<Rightarrow> byte list) \<Rightarrow> tornet_file \<Rightarrow> tornet_chunk \<Rightarrow> byte list \<Rightarrow> bool" where
  "holds E enc tf c part \<longleftrightarrow> length part = unat (tc_size c) \<and>
     (\<exists>pad rnd seed0 d. 8 dvd length (part @ pad) \<and>
        randomize rnd (hd_mt E) (enc (tf_checksum tf) (part @ pad)) seed0 = Some (tc_seed c, d) \<and> hd_download E (tc_id c) = Inr d)"

lemma holdsI:
  "length part = unat (tc_size c) \<Longrightarrow> length (part @ pad) = 8 * k \<Longrightarrow>
   randomize rnd (hd_mt E) (enc (tf_checksum tf) (part @ pad)) seed0 = Some (tc_seed c, d) \<Longrightarrow>
   hd_download E (tc_id c) = Inr d \<Longrightarrow> holds E enc tf c part"
  unfolding holds_def by (metis dvd_triv_left)

definition deciphers :: "httpd_env \<Rightarrow> (sha1 \<Rightarrow> byte list \<Rightarrow> byte list) \<Rightarrow> bool" where
  "deciphers E enc \<longleftrightarrow> (\<forall>k x. 8 dvd length x \<longrightarrow> hd_decrypt E k (enc k x) = x)"

lemma deliver_chunk_holds:
  assumes "deciphers E enc" "holds E enc tf c part"
  shows "deliver_chunk E tf c n s =
    (Inr (n + length part), tell (Dl_data part) (s\<lparr>dl_per_comp := (n + length part, tf_size tf)\<rparr>))"
proof -
  obtain pad rnd seed0 d where l: "length part = unat (tc_size c)" and p: "8 dvd length (part @ pad)"
    and r: "randomize rnd (hd_mt E) (enc (tf_checksum tf) (part @ pad)) seed0 = Some (tc_seed c, d)"
    and h: "hd_download E (tc_id c) = Inr d"
    using assms(2) unfolding holds_def by blast
  let ?x = "enc (tf_checksum tf) (part @ pad)"
  have "length d = length ?x" using derandomize_part [of 0 0 ?x, OF _ r] by simp
  then have "derandomize (hd_mt E) (tc_seed c) d 0 = ?x" 
    using derandomize_part [of 0 "length d" ?x, OF _ r] by simp
  then show ?thesis using assms(1) p h l by (simp add: deliver_chunk_def deciphers_def Let_def)
qed

lemma download_chunks_holds:
  assumes "deciphers E enc" "list_all2 (holds E enc tf) cs parts"
  shows "\<exists>s'. download_chunks E hex tf cs n s = (Inr (), s') \<and> delivered (dl_calls s') = delivered (dl_calls s) @ concat parts \<and>
    errors (dl_calls s') = errors (dl_calls s) \<and>
    (cs \<noteq> [] \<longrightarrow> dl_per_comp s' = (n + length (concat parts), tf_size tf)) \<and> dl_tf s' = dl_tf s \<and> dl_fail_str s' = dl_fail_str s \<and>
    length (filter (\<lambda>c. c = Dl_complete) (dl_calls s')) = length (filter (\<lambda>c. c = Dl_complete) (dl_calls s))"
  using assms(2)
proof (induction cs parts arbitrary: n s rule: list_all2_induct)
  case Nil
  then show ?case by simp
next
  case (Cons c cs part parts)
  define st where "st = str ''Downloading file chunk '' @ hex (tc_id c)"
  define s1 where "s1 = tell (Dl_status (dl_per_comp s) st) (s\<lparr>dl_status := st\<rparr>)"
  define s2 where "s2 = tell (Dl_data part) (s1\<lparr>dl_per_comp := (n + length part, tf_size tf)\<rparr>)"
  have "deliver_chunk E tf c n s1 = (Inr (n + length part), s2)"
    unfolding s2_def by (rule deliver_chunk_holds [OF assms(1) Cons.hyps(1)])
  then have "download_chunks E hex tf (c # cs) n s = download_chunks E hex tf cs (n + length part) s2"
    by (simp add: Let_def flip: st_def s1_def)
  moreover have "delivered (dl_calls s2) = delivered (dl_calls s) @ part" "errors (dl_calls s2) = errors (dl_calls s)"
    "length (filter (\<lambda>c. c = Dl_complete) (dl_calls s2)) = length (filter (\<lambda>c. c = Dl_complete) (dl_calls s))"
    "dl_per_comp s2 = (n + length part, tf_size tf)" "dl_tf s2 = dl_tf s" "dl_fail_str s2 = dl_fail_str s"
    by (simp_all add: s2_def s1_def errors_def)
  ultimately show ?case
    using Cons.IH [of "n + length part" s2] Cons.hyps(2) by (cases "cs = []") (auto simp: add.assoc)
qed

text \<open>The calls of a whole download: data and reports of the progress, then the end.\<close>

lemma download_start_holds:
  assumes "deciphers E enc" "hd_fetch E ln = Inr tf" "list_all2 (holds E enc tf) (tf_chunks tf) parts"
  shows "\<exists>s' cs. download_start E hex (download_new ln) = (Inr (), s') \<and> dl_calls s' = cs @ [Dl_complete] \<and> Dl_complete \<notin> set cs \<and>
    delivered cs = concat parts \<and> errors cs = 0 \<and> dl_tf s' = Some tf \<and>
    (tf_chunks tf \<noteq> [] \<longrightarrow> dl_per_comp s' = (length (concat parts), tf_size tf))"
proof -
  let ?s = "(download_new ln)\<lparr>dl_started := True, dl_tf := Some tf\<rparr>"
  obtain s' where s': "download_chunks E hex tf (tf_chunks tf) 0 ?s = (Inr (), s')"
    "delivered (dl_calls s') = concat parts" "errors (dl_calls s') = 0"
    "tf_chunks tf \<noteq> [] \<longrightarrow> dl_per_comp s' = (length (concat parts), tf_size tf)"
    "length (filter (\<lambda>c. c = Dl_complete) (dl_calls s')) = 0" "dl_tf s' = Some tf"
    using download_chunks_holds [OF assms(1,3), of hex 0 ?s] by (auto simp: download_new_def errors_def)
  have "Dl_complete \<notin> set (dl_calls s')" using s'(5) by (auto simp: filter_empty_conv)
  then show ?thesis using s' assms(2)
    by (intro exI [of _ "tell Dl_complete s'"] exI [of _ "dl_calls s'"])
       (simp add: download_start_def download_fiber_def download_new_def)
qed

text \<open>C15: A download delivers the file. When the network holds, for every chunk of the
  description, the randomized encryption of the matching part of a file, then the delegate is handed
  exactly the parts of the file in their order, is told of no error, and is told once, at the end,
  that the download is complete; the progress is then the number of bytes delivered.\<close>

theorem download_delivers_file:
  assumes "deciphers E enc" "hd_fetch E ln = Inr tf" "list_all2 (holds E enc tf) (tf_chunks tf) parts" "parts \<noteq> []"
  shows "\<exists>s'. download_start E hex (download_new ln) = (Inr (), s') \<and> delivered (dl_calls s') = concat parts \<and>
    errors (dl_calls s') = 0 \<and> last (dl_calls s') = Dl_complete \<and>
    length (filter (\<lambda>c. c = Dl_complete) (dl_calls s')) = 1 \<and>
    percent_complete s' = (length (concat parts), tf_size tf) \<and> get_tornet_file s' = Some tf"
proof -
  have "tf_chunks tf \<noteq> []" using assms(3,4) by auto
  moreover have "filter (\<lambda>c. c = Dl_complete) cs = []" if "Dl_complete \<notin> set cs" for cs
    using that by (auto simp: filter_empty_conv)
  ultimately show ?thesis
    using download_start_holds [OF assms(1-3), of hex] by (auto simp: percent_complete_def get_tornet_file_def errors_def)
qed

text \<open>
  After an error the download goes on: the delegate gets the other chunks as if they followed each
  other, and is told that the download is complete.
\<close>

theorem download_gap:
  assumes "deciphers E enc" "hd_fetch E ln = Inr tf" "tf_chunks tf = c # cs" "hd_download E (tc_id c) = Inl (Throw t)"
    "list_all2 (holds E enc tf) cs parts"
  shows "\<exists>s'. download_start E hex (download_new ln) = (Inr (), s') \<and> delivered (dl_calls s') = concat parts \<and>
    errors (dl_calls s') = 1 \<and> last (dl_calls s') = Dl_complete \<and> fail_string s' = []"
proof -
  define st where "st = str ''Downloading file chunk '' @ hex (tc_id c)"
  define s1 where "s1 = tell (Dl_status (0, 1) st) ((download_new ln)\<lparr>dl_started := True, dl_tf := Some tf, dl_status := st\<rparr>)"
  define s2 where "s2 = tell (Dl_error (- 1) (str ''Unable to download chunk '' @ hex (tc_id c) @ str '': '' @ hd_except E (Throw t))) s1"
  have "download_chunks E hex tf (c # cs) 0 ((download_new ln)\<lparr>dl_started := True, dl_tf := Some tf\<rparr>) = download_chunks E hex tf cs 0 s2"
    using assms(4) by (simp add: deliver_chunk_def Let_def s2_def s1_def st_def download_new_def)
  moreover have "delivered (dl_calls s2) = []" "errors (dl_calls s2) = 1" "dl_fail_str s2 = []"
    by (simp_all add: s2_def s1_def download_new_def errors_def)
  ultimately show ?thesis
    using download_chunks_holds [OF assms(1,5), of hex 0 s2] assms(2,3)
    by (auto simp: download_start_def download_fiber_def download_new_def fail_string_def errors_def)
qed

text \<open>The data of a small file that is kept in its description is not handed to the delegate.\<close>

theorem download_inline_lost:
  assumes "hd_fetch E ln = Inr tf" "tf_chunks tf = []"
  shows "\<exists>s'. download_start E hex (download_new ln) = (Inr (), s') \<and> dl_calls s' = [Dl_complete]"
  using assms by (simp add: download_start_def download_fiber_def download_new_def)

section \<open>Witness\<close>

definition download_demo_file :: tornet_file where
  "download_demo_file = \<lparr>tf_version = 0, tf_compression = 0, tf_mime = [], tf_checksum = 7, tf_name = [97], tf_size = 3,
     tf_chunks = [\<lparr>tc_size = 3, tc_seed = 5, tc_id = 9, tc_slices = []\<rparr>], tf_inline = []\<rparr>"

definition download_demo :: httpd_env where
  "download_demo = httpd_demo\<lparr>hd_fetch := (\<lambda>_. Inr download_demo_file), hd_decrypt := (\<lambda>k d. map (\<lambda>b. b - ucast k) d),
     hd_mt := (\<lambda>s i. ucast s + of_nat i),
     hd_download := (\<lambda>i. Inr (xor_words (\<lambda>i. 5 + of_nat i) 0 (map (\<lambda>b. b + 7) [1, 2, 3, 0, 0, 0, 0, 0])))\<rparr>"

lemma download_demo_deciphers: "deciphers download_demo (\<lambda>k x. map (\<lambda>b. b + ucast k) x)"
  by (simp add: deciphers_def download_demo_def comp_def)

lemma download_demo_holds:
  "list_all2 (holds download_demo (\<lambda>k x. map (\<lambda>b. b + ucast k) x) download_demo_file) (tf_chunks download_demo_file) [[1, 2, 3]]"
proof -
  let ?enc = "\<lambda>(k :: sha1) x. map (\<lambda>b. b + ucast k) x :: byte list"
  have "randomize (\<lambda>_. True) (hd_mt download_demo) (?enc 7 ([1, 2, 3] @ [0, 0, 0, 0, 0])) 4 =
      Some (5, xor_words (\<lambda>i. 5 + of_nat i) 0 (map (\<lambda>b. b + 7) [1, 2, 3, 0, 0, 0, 0, 0]))"
    by (subst randomize.simps) (simp add: download_demo_def Let_def del: xor_words.simps)
  then have "holds download_demo ?enc download_demo_file \<lparr>tc_size = 3, tc_seed = 5, tc_id = 9, tc_slices = []\<rparr> [1, 2, 3]"
    by (intro holdsI [of _ _ "[0, 0, 0, 0, 0]" 1 "\<lambda>_. True" _ _ _ 4
          "xor_words (\<lambda>i. 5 + of_nat i) 0 (map (\<lambda>b. b + 7) [1, 2, 3, 0, 0, 0, 0, 0])"])
       (simp_all add: download_demo_file_def download_demo_def del: xor_words.simps)
  then show ?thesis by (simp add: download_demo_file_def)
qed

theorem download_delivers_file_witness:
  "\<exists>s'. download_start download_demo (\<lambda>_. []) (download_new \<lparr>ln_id = 1, ln_seed = 2\<rparr>) = (Inr (), s') \<and>
     delivered (dl_calls s') = [1, 2, 3] \<and> errors (dl_calls s') = 0"
proof -
  have "hd_fetch download_demo \<lparr>ln_id = 1, ln_seed = 2\<rparr> = Inr download_demo_file" by (simp add: download_demo_def)
  from download_delivers_file [OF download_demo_deciphers this download_demo_holds, of "\<lambda>_. []"] show ?thesis by auto
qed

end
