(* ===== verification/Web_Resource.thy ===== *)
theory Web_Resource
  imports Download_Status "HOL-Library.Sublist"
begin

text \<open>
  The web resource of the graphical interface (src/webgui/WTornetResource.cpp): a request names a site and a path, the path is
  followed through archives, and the file at its end is written to the response. A file in chunks is downloaded by a fiber that
  calls the resource back; the web server calls the handler again, with the same response, whenever the resource has said
  that there is more data. The handler and the callbacks are atomic here. Names, links, archives and downloads are the
  environment of the http daemon; the descriptions it returns do not change during a request.
\<close>

section \<open>State\<close>

datatype req_phase = Waiting_for_tornet_file | Sending_body | Complete | Error_phase

record req_state =
  rq_resource :: bool
  rq_phase :: req_phase
  rq_wrote :: u64
  rq_err_msg :: "byte list"
  rq_ds :: "download option"
  rq_avail :: "byte list list"

text \<open>A response is finished, or waits for more data with the state of its request.\<close>

datatype reaction = Finished | Wait_for_more req_state

record web_request =
  wr_path :: "byte list"
  wr_site :: "byte list"

section \<open>Callbacks of the download\<close>

text \<open>
  The new state, and whether the web server is told that there is more data. Errors are not overridden: the method of the base
  class does nothing.
\<close>

primrec on_delegate :: "delegate_call \<Rightarrow> req_state \<Rightarrow> req_state \<times> bool" where
  "on_delegate (Dl_data d) s = (s\<lparr>rq_avail := rq_avail s @ [d]\<rparr>, rq_resource s)"
| "on_delegate (Dl_status p m) s = (s, False)"
| "on_delegate (Dl_error c e) s = (s, False)"
| "on_delegate Dl_complete s = (s\<lparr>rq_phase := Complete\<rparr>, rq_resource s)"

section \<open>Paths\<close>

text \<open>\<open>getline\<close> up to the first slash, then up to the end of the line.\<close>

definition first_dir :: "byte list \<Rightarrow> byte list" where
  "first_dir p = takeWhile (\<lambda>b. b \<noteq> 47) p"

definition rest_dirs :: "byte list \<Rightarrow> byte list" where
  "rest_dirs p = takeWhile (\<lambda>b. b \<noteq> 10) (drop 1 (dropWhile (\<lambda>b. b \<noteq> 47) p))"

lemma rest_dirs_shorter: "rest_dirs p \<noteq> [] \<Longrightarrow> length (rest_dirs p) < length p"
  unfolding rest_dirs_def
  using length_takeWhile_le [of "\<lambda>b. b \<noteq> 10" "drop 1 (dropWhile (\<lambda>b. b \<noteq> 47) p)"] length_dropWhile_le [of "\<lambda>b. b \<noteq> 47" p]
  by (cases "dropWhile (\<lambda>b. b \<noteq> 47) p") (auto simp del: dropWhile_eq_Nil_conv)

text \<open>\<open>c_str\<close> ends at the first zero.\<close>

definition c_str :: "byte list \<Rightarrow> byte list" where
  "c_str s = takeWhile (\<lambda>b. b \<noteq> 0) s"

function find_in_subdir :: "httpd_env \<Rightarrow> tornet_file \<Rightarrow> byte list \<Rightarrow> tornet_file res" where
  "find_in_subdir E tf subdir =
     (if is_archive tf then
        (case hd_archive E (tf_inline tf) of
           Inl e \<Rightarrow> Inl e
         | Inr ents \<Rightarrow>
             (case find (\<lambda>(n, l). n = c_str (first_dir subdir)) ents of
                None \<Rightarrow> Inr tf
              | Some (n, l) \<Rightarrow>
                  (case hd_fetch E l of
                     Inl e \<Rightarrow> Inl e
                   | Inr stf \<Rightarrow> if rest_dirs subdir \<noteq> [] then find_in_subdir E stf (rest_dirs subdir) else Inr stf)))
      else Inr tf)"
  by pat_completeness auto
termination
  by (relation "measure (\<lambda>(E, tf, subdir). length subdir)") (auto simp: rest_dirs_shorter)

declare find_in_subdir.simps [simp del]

section \<open>Requests\<close>

text \<open>The link of the site, and the file the path leads to; \<open>substr\<close> throws when there is no path.\<close>

definition web_link :: "httpd_env \<Rightarrow> web_request \<Rightarrow> link res" where
  "web_link E r =
     (if wr_path r = [] then Inl (Throw ''basic_string::substr'')
      else case hd_chunk_domain E (wr_site r) of
             Some stem \<Rightarrow> hd_link E (c_str stem)
           | None \<Rightarrow> hd_name E (c_str (wr_site r)))"

definition web_file :: "httpd_env \<Rightarrow> web_request \<Rightarrow> link \<Rightarrow> tornet_file res" where
  "web_file E r ln =
     (case hd_fetch E ln of
        Inl e \<Rightarrow> Inl e
      | Inr tf \<Rightarrow>
          let subdir = drop 1 (wr_path r) in
          if is_archive tf
          then find_in_subdir E tf (if subdir = [] \<or> subdir = [47] then str ''index.html'' else subdir)
          else Inr tf)"

definition web_listing :: "byte list \<Rightarrow> (byte list \<times> link) list \<Rightarrow> byte list" where
  "web_listing subdir ents =
     str ''<html><body>'' @ [10] @ str ''<h1>'' @ subdir @ str ''</h1><br/>'' @ [10] @
     concat (map (\<lambda>(n, l). str ''<a href='' @ [34] @ c_str n @ [34] @ str ''>'' @ c_str n @ str ''</a><br/>'' @ [10]) ents) @
     str ''</body></html>'' @ [10]"

text \<open>
  The loop over the data that came in: what is written, the new count, and whether the file is complete; what follows the
  data that completes it is dropped. Without a description the size is read through a null pointer.
\<close>

fun write_avail :: "tornet_file option \<Rightarrow> byte list list \<Rightarrow> u64 \<Rightarrow> byte list \<Rightarrow> (u64 \<times> bool) res \<times> byte list" where
  "write_avail tfo [] wrote out = (Inr (wrote, False), out)"
| "write_avail tfo (d # ds) wrote out =
     (case tfo of
        None \<Rightarrow> (Inl (Undefined ''null pointer''), out @ d)
      | Some tf \<Rightarrow>
          let wrote' = wrote + of_nat (length d) in
          if tf_size tf \<le> wrote' then (Inr (wrote', True), out @ d) else write_avail tfo ds wrote' (out @ d))"

definition send_available :: "req_state \<Rightarrow> byte list \<Rightarrow> reaction res \<times> byte list" where
  "send_available s out =
     (case write_avail (Option.bind (rq_ds s) get_tornet_file) (rq_avail s) (rq_wrote s) out of
        (Inl e, out') \<Rightarrow> (Inl e, out')
      | (Inr (wrote, full), out') \<Rightarrow>
          (Inr (if full \<or> rq_phase s = Complete then Finished
                else Wait_for_more (s\<lparr>rq_avail := [], rq_wrote := wrote\<rparr>)), out'))"

definition continue_request :: "req_state \<Rightarrow> byte list \<Rightarrow> reaction res \<times> byte list" where
  "continue_request s out =
     (case rq_phase s of
        Error_phase \<Rightarrow> (Inr Finished, out @ [10] @ c_str (rq_err_msg s) @ [10])
      | Waiting_for_tornet_file \<Rightarrow> send_available (s\<lparr>rq_phase := Sending_body\<rparr>) out
      | _ \<Rightarrow> send_available s out)"

definition new_request :: "httpd_env \<Rightarrow> (sha1 \<Rightarrow> byte list) \<Rightarrow> link \<Rightarrow> req_state" where
  "new_request E hex ln =
     \<lparr>rq_resource = True, rq_phase = Waiting_for_tornet_file, rq_wrote = 0, rq_err_msg = [],
      rq_ds = Some (snd (download_start E hex (download_new ln))), rq_avail = []\<rparr>"

text \<open>
  \<open>handleRequest\<close>, first without the handler of exceptions. The fiber of the download starts when the handler returns; the
  download in the state of the request is the one at the end of the fiber, whose description is there before the first
  callback.
\<close>

definition serve_request ::
  "httpd_env \<Rightarrow> (sha1 \<Rightarrow> byte list) \<Rightarrow> web_request \<Rightarrow> req_state option \<Rightarrow> byte list \<Rightarrow> reaction res \<times> byte list" where
  "serve_request E hex r cont out =
     (case web_link E r of
        Inl e \<Rightarrow> (Inl e, out)
      | Inr ln \<Rightarrow>
          (case web_file E r ln of
             Inl e \<Rightarrow> (Inl e, out)
           | Inr tf \<Rightarrow>
               if is_archive tf then
                 (case hd_archive E (tf_inline tf) of
                    Inl e \<Rightarrow> (Inl e, out)
                  | Inr ents \<Rightarrow> (Inr Finished, out @ web_listing (drop 1 (wr_path r)) ents))
               else if tf_inline tf \<noteq> [] then (Inr Finished, out @ tf_inline tf)
               else
                 (case cont of
                    Some s \<Rightarrow> continue_request s out
                  | None \<Rightarrow> (Inr (Wait_for_more (new_request E hex ln)), out))))"

definition handle_request ::
  "httpd_env \<Rightarrow> (sha1 \<Rightarrow> byte list) \<Rightarrow> web_request \<Rightarrow> req_state option \<Rightarrow> byte list \<Rightarrow> reaction res \<times> byte list" where
  "handle_request E hex r cont out =
     (case serve_request E hex r cont out of
        (Inl (Throw t), out') \<Rightarrow> (Inr Finished, out' @ c_str (hd_except E (Throw t)) @ [10])
      | x \<Rightarrow> x)"

section \<open>A request and its download\<close>

text \<open>
  The response, the request that waits (None when the response is finished), whether the web server was told of more data,
  the callbacks that the fiber has still to make, and what ended the process.
\<close>

record web_session =
  wb_out :: "byte list"
  wb_waiting :: "req_state option"
  wb_more :: bool
  wb_calls :: "delegate_call list"
  wb_crash :: "exn option"

primrec react_to :: "reaction res \<Rightarrow> byte list \<Rightarrow> web_session \<Rightarrow> web_session" where
  "react_to (Inl e) out s = s\<lparr>wb_out := out, wb_waiting := None, wb_more := False, wb_crash := Some e\<rparr>"
| "react_to (Inr a) out s =
     s\<lparr>wb_out := out, wb_waiting := (case a of Finished \<Rightarrow> None | Wait_for_more rs \<Rightarrow> Some rs), wb_more := False\<rparr>"

definition web_begin :: "httpd_env \<Rightarrow> (sha1 \<Rightarrow> byte list) \<Rightarrow> web_request \<Rightarrow> web_session" where
  "web_begin E hex r =
     (case handle_request E hex r None [] of
        (a, out) \<Rightarrow> react_to a out
          \<lparr>wb_out = [], wb_waiting = None, wb_more = False,
           wb_calls = (case a of Inr (Wait_for_more rs) \<Rightarrow> (case rq_ds rs of Some d \<Rightarrow> dl_calls d | None \<Rightarrow> []) | _ \<Rightarrow> []), wb_crash = None\<rparr>)"

inductive web_step :: "httpd_env \<Rightarrow> (sha1 \<Rightarrow> byte list) \<Rightarrow> web_request \<Rightarrow> web_session \<Rightarrow> web_session \<Rightarrow> bool"
  for E hex r where
  web_callback: "wb_calls s = c # cs \<Longrightarrow> wb_waiting s = Some rs \<Longrightarrow> on_delegate c rs = (rs', m) \<Longrightarrow>
    web_step E hex r s (s\<lparr>wb_calls := cs, wb_waiting := Some rs', wb_more := wb_more s \<or> m\<rparr>)"
| web_late_callback: "wb_calls s = c # cs \<Longrightarrow> wb_waiting s = None \<Longrightarrow> web_step E hex r s (s\<lparr>wb_calls := cs\<rparr>)"
| web_handle: "wb_waiting s = Some rs \<Longrightarrow> wb_more s \<Longrightarrow> handle_request E hex r (Some rs) (wb_out s) = (a, out) \<Longrightarrow>
    web_step E hex r s (react_to a out s)"

inductive_cases web_stepE: "web_step E hex r s s'"

text \<open>Every step makes a callback or answers the report of more data.\<close>

definition web_left :: "web_session \<Rightarrow> nat" where
  "web_left s = 2 * length (wb_calls s) + (if wb_more s then 1 else 0)"

lemma react_to_simps [simp]:
  "wb_out (react_to a out s) = out" "wb_calls (react_to a out s) = wb_calls s" "wb_more (react_to a out s) = False"
  by (cases a; simp)+

lemma web_step_left: "web_step E hex r s s' \<Longrightarrow> web_left s' < web_left s"
  by (erule web_stepE) (simp_all add: web_left_def)

lemma web_steps_bound: "(web_step E hex r ^^ n) s s' \<Longrightarrow> n + web_left s' \<le> web_left s"
proof (induction n arbitrary: s')
  case (Suc n)
  then obtain t where "(web_step E hex r ^^ n) s t" "web_step E hex r t s'" by auto
  then show ?case using Suc.IH [of t] web_step_left [of E hex r t s'] by simp
qed simp

lemma web_runs_end: "\<exists>n s'. (web_step E hex r ^^ n) s s' \<and> (\<nexists>s''. web_step E hex r s' s'')"
proof (induction s rule: measure_induct_rule [of web_left])
  case (less s)
  show ?case
  proof (cases "\<exists>t. web_step E hex r s t")
    case True
    then obtain t where t: "web_step E hex r s t" by blast
    from less [OF web_step_left [OF t]] obtain n s' where "(web_step E hex r ^^ n) t s'" "\<nexists>s''. web_step E hex r s' s''" by blast
    then show ?thesis using relpowp_Suc_I2 [of "web_step E hex r", OF t] by blast
  qed (auto intro: relpowp_0_I)
qed

section \<open>What is written\<close>

lemma write_avail_body:
  assumes "out @ concat ds @ rest = body" "length body \<le> unat (tf_size tf)"
  shows "\<exists>out' full. write_avail (Some tf) ds (of_nat (length out)) out = (Inr (of_nat (length out'), full), out') \<and>
    out' = (if full then body else out @ concat ds)"
  using assms(1)
proof (induction ds arbitrary: out)
  case (Cons d ds)
  show ?case
  proof (cases "tf_size tf \<le> of_nat (length (out @ d))")
    case True
    have p: "length (out @ d) + length (concat ds @ rest) = length body" using Cons.prems by auto
    have un: "unat (of_nat n :: u64) = n" if "n < 2 ^ 64" for n using that by (simp add: unat_of_nat take_bit_nat_eq_self)
    have "length (out @ d) < 2 ^ 64" using p assms(2) unsigned_less [of "tf_size tf", where 'a = nat] by simp
    from un [OF this] have "unat (tf_size tf) \<le> length (out @ d)" using True by (simp only: word_le_nat_alt)
    then have "concat ds @ rest = []" using p assms(2) by (simp only: flip: length_0_conv)
    then have "out @ d = body" using Cons.prems by (simp only: concat.simps append_assoc append_Nil2)
    then show ?thesis using True by (intro exI [of _ body] exI [of _ True]) (auto simp: Let_def)
  next
    case False
    then have "write_avail (Some tf) (d # ds) (of_nat (length out)) out = write_avail (Some tf) ds (of_nat (length (out @ d))) (out @ d)"
      by (simp add: Let_def)
    then show ?thesis using Cons.IH [of "out @ d"] Cons.prems by (simp only: concat.simps append_assoc)
  qed
qed auto

text \<open>The callbacks of a fiber that runs to its end.\<close>

definition ends_once :: "delegate_call list \<Rightarrow> bool" where
  "ends_once cs \<longleftrightarrow> cs \<noteq> [] \<and> last cs = Dl_complete \<and> Dl_complete \<notin> set (butlast cs)"

lemma ends_once_Cons: "ends_once (c # cs) \<longleftrightarrow> (if c = Dl_complete then cs = [] else ends_once cs)"
  by (cases cs) (auto simp: ends_once_def)

lemma ends_once_Nil [simp]: "\<not> ends_once []"
  by (simp add: ends_once_def)

definition web_inv :: "tornet_file \<Rightarrow> byte list \<Rightarrow> web_session \<Rightarrow> bool" where
  "web_inv tf body s \<longleftrightarrow> wb_crash s = None \<and>
     (case wb_waiting s of
        None \<Rightarrow> wb_out s = body
      | Some rs \<Rightarrow>
          rq_resource rs \<and> rq_phase rs \<noteq> Error_phase \<and> Option.bind (rq_ds rs) get_tornet_file = Some tf \<and>
          wb_out s @ concat (rq_avail rs) @ delivered (wb_calls s) = body \<and> rq_wrote rs = of_nat (length (wb_out s)) \<and>
          (if rq_phase rs = Complete then wb_calls s = [] \<and> wb_more s
           else ends_once (wb_calls s)))"

lemma send_available_inv:
  assumes "wb_crash s = None" "Option.bind (rq_ds rs) get_tornet_file = Some tf" "rq_resource rs" "rq_phase rs = Sending_body \<or> rq_phase rs = Complete"
    "wb_out s @ concat (rq_avail rs) @ delivered (wb_calls s) = body" "rq_wrote rs = of_nat (length (wb_out s))"
    "if rq_phase rs = Complete then wb_calls s = [] else ends_once (wb_calls s)"
    "length body \<le> unat (tf_size tf)" "send_available rs (wb_out s) = (a, out)"
  shows "web_inv tf body (react_to a out s) \<and> (\<forall>t. a \<noteq> Inl (Throw t))"
proof -
  obtain out' full where w: "write_avail (Some tf) (rq_avail rs) (of_nat (length (wb_out s))) (wb_out s) = (Inr (of_nat (length out'), full), out')"
    "out' = (if full then body else wb_out s @ concat (rq_avail rs))"
    using write_avail_body [OF assms(5,8)] by blast
  then show ?thesis using assms by (cases full) (auto simp: send_available_def web_inv_def split: if_splits)
qed

text \<open>The path leads to a file that is neither an archive nor in its description.\<close>

definition web_chunked :: "httpd_env \<Rightarrow> web_request \<Rightarrow> link \<Rightarrow> bool" where
  "web_chunked E r ln \<longleftrightarrow> web_link E r = Inr ln \<and>
     (case web_file E r ln of Inl e \<Rightarrow> False | Inr tf \<Rightarrow> \<not> is_archive tf \<and> tf_inline tf = [])"

lemma handle_request_chunked:
  assumes "web_chunked E r ln"
  shows "serve_request E hex r cont out =
    (case cont of Some s \<Rightarrow> continue_request s out | None \<Rightarrow> (Inr (Wait_for_more (new_request E hex ln)), out))"
  using assms by (auto simp: web_chunked_def serve_request_def split: sum.splits)

lemma handle_chunked_inv:
  assumes "web_chunked E r ln" "web_inv tf body s" "wb_waiting s = Some rs" "length body \<le> unat (tf_size tf)"
    "handle_request E hex r (Some rs) (wb_out s) = (a, out)"
  shows "web_inv tf body (react_to a out s)"
proof -
  define rs' where "rs' = (if rq_phase rs = Complete then rs else rs\<lparr>rq_phase := Sending_body\<rparr>)"
  have c: "continue_request rs (wb_out s) = send_available rs' (wb_out s)"
    using assms(2,3) by (cases rs; cases "rq_phase rs") (auto simp: continue_request_def web_inv_def rs'_def)
  obtain b o' where b: "send_available rs' (wb_out s) = (b, o')" by fastforce
  have "web_inv tf body (react_to b o' s) \<and> (\<forall>t. b \<noteq> Inl (Throw t))"
    by (rule send_available_inv [OF _ _ _ _ _ _ _ assms(4) b]) (use assms(2,3) in \<open>auto simp: web_inv_def rs'_def\<close>)
  then show ?thesis using assms(5) b c
    by (auto simp: handle_request_def handle_request_chunked [OF assms(1)] split: sum.splits exn.splits)
qed

lemma on_delegate_inv:
  assumes "web_inv tf body s" "wb_waiting s = Some rs" "wb_calls s = c # cs" "on_delegate c rs = (rs', m)"
  shows "web_inv tf body (s\<lparr>wb_calls := cs, wb_waiting := Some rs', wb_more := wb_more s \<or> m\<rparr>)"
  using assms by (cases c) (auto simp: web_inv_def ends_once_Cons split: if_splits)

lemma web_inv_step:
  assumes "web_chunked E r ln" "length body \<le> unat (tf_size tf)" "web_step E hex r s s'" "web_inv tf body s"
  shows "web_inv tf body s'"
  using assms(3,4) by (cases rule: web_step.cases)
    (auto simp: on_delegate_inv handle_chunked_inv [OF assms(1) _ _ assms(2)], simp add: web_inv_def)

lemma web_inv_steps:
  assumes "web_chunked E r ln" "length body \<le> unat (tf_size tf)" "web_inv tf body s" "(web_step E hex r ^^ n) s s'"
  shows "web_inv tf body s'"
  using assms(4) by (induction n arbitrary: s') (auto intro: web_inv_step [OF assms(1,2)] simp: assms(3))

lemma web_inv_progress:
  assumes "web_inv tf body s"
  shows "if wb_waiting s = None then wb_out s = body else prefix (wb_out s) body \<and> (\<exists>s'. web_step E hex r s s')"
proof (cases "wb_waiting s")
  case (Some rs)
  have "\<exists>s'. web_step E hex r s s'"
  proof (cases "wb_calls s")
    case Nil
    then have "wb_more s" using assms Some by (auto simp: web_inv_def split: if_splits)
    then show ?thesis using web_handle [OF Some, of E hex r] by (metis surj_pair)
  next
    case (Cons c cs)
    then show ?thesis using web_callback [OF Cons Some, of _ _ E hex r] by (metis surj_pair)
  qed
  then show ?thesis using assms Some by (auto simp: web_inv_def prefix_def)
qed (use assms in \<open>simp add: web_inv_def\<close>)

section \<open>Files are served\<close>

lemma web_begin_inv:
  assumes "web_chunked E r ln" "download_start E hex (download_new ln) = (x, d)" "ends_once (dl_calls d)" "dl_tf d = Some tf"
  shows "web_inv tf (delivered (dl_calls d)) (web_begin E hex r)"
  using assms(2-4)
  by (simp add: web_begin_def handle_request_def handle_request_chunked [OF assms(1)] new_request_def web_inv_def get_tornet_file_def)


text \<open>
  A file in chunks inside an archive is not served: the download is that of the archive, which has no chunks, and
  the response ends empty.
\<close>

theorem web_archive_member_lost:
  assumes "web_chunked E r ln" "hd_fetch E ln = Inr tf" "tf_chunks tf = []"
    and "(web_step E hex r ^^ n) (web_begin E hex r) s"
  shows "wb_out s = [] \<and> (wb_waiting s \<noteq> None \<longrightarrow> (\<exists>s'. web_step E hex r s s'))"
proof -
  obtain d where d: "download_start E hex (download_new ln) = (Inr (), d)" "dl_calls d = [Dl_complete]"
    using download_inline_lost [OF assms(2,3)] by blast
  moreover have "dl_tf d = Some tf" using d(1) assms(2,3) by (auto simp: download_start_def download_fiber_def tell_def download_new_def)
  ultimately have "web_inv tf [] (web_begin E hex r)"
    using web_begin_inv [OF assms(1) d(1), of tf] by (simp add: ends_once_def)
  then have "web_inv tf [] s" using web_inv_steps [OF assms(1) _ _ assms(4), of "[]" tf] by simp
  then show ?thesis using web_inv_progress [of tf "[]" s E hex r] by (auto split: if_splits)
qed

section \<open>Witness\<close>

definition web_demo_request :: web_request where
  "web_demo_request = \<lparr>wr_path = [47, 97], wr_site = [98]\<rparr>"


end
