(* ===== verification/Spec2Isabelle.thy ===== *)
theory Spec2Isabelle
  imports Udt_Sender Chunk_Service Chunk_Client Tproxy_Http Name_Service Httpd Session Node_Frame Udt_Test Raw_Map
    Socks5 Rpc_Connection File_Import Web_Resource
begin

text \<open>
  tornet is a peer-to-peer node: encrypted connections over UDP, reliable channels on them, a Kademlia lookup, a service that
  keeps chunks of data on other nodes, a content addressable file system that makes the chunks, and a web proxy that serves
  what is in it. This development models the code the build compiles, and beside it the name service, the http daemon, the SOCKS proxy, the downloads with the web resource they feed
  and the first generation of the remote calls and of the chunk service, and proves what makes it correct, and, where it is not, what goes wrong. Paths are under src/.

  \<^bold>\<open>The program and the theories\<close>

  \<^item> \<open>Tornet_Prelude\<close>: machine integers, abnormal endings, operations on a state that may throw (\<open>cmd\<close>), bytes of integers.
  \<^item> \<open>Datastream\<close>: rpc/datastream.hpp, reading and writing at a position with its guards. \<open>Raw\<close>: rpc/raw.hpp, serialisation of
    integers of variable length, containers and records; the locale \<open>raw_codec\<close> is the contract of a pair of pack and unpack, and every
    message type below interprets it. \<open>Raw_Map\<close> has the maps and sets of that file.
  \<^item> \<open>Sequence_Number\<close>, \<open>Miss_List\<close>, \<open>Buffer\<close>: include/tornet/sequence_number.hpp, src/miss_list.cpp, src/buffer.cpp: numbers that
    wrap, the list of missing ones, views of shared arrays in an explicit heap.
  \<^item> \<open>Udt_Packets\<close>, \<open>Udt_Channel\<close>, \<open>Udt_Receiver\<close>, \<open>Udt_Stream\<close>, \<open>Udt_Sender\<close>: src/udt_channel.cpp. The first two hold the packets, the
    state \<open>udt\<close> and every handler; the others the receiver's window as a map from numbers to packets, runs of the receiver,
    and the sender. Bytes are read in the order they were written, once each, whatever the network does with the packets. \<open>Udt_Test\<close>:
    src/udt_test_service.cpp, a loop that reads blocks from a channel.
  \<^item> \<open>Frame\<close>, \<open>Messages\<close>: the encrypted frame and the messages of src/connection.cpp. \<open>Peer_Db\<close>: src/db/peer.cpp. \<open>Kbucket\<close>:
    src/kbucket.cpp. \<open>Std_Map\<close>: the ordered maps of the standard library as sorted lists.
  \<^item> \<open>Node_State\<close>, \<open>Connection\<close>, \<open>Node\<close>: src/connection.cpp, src/channel.cpp, src/node.cpp, src/node_impl.hpp. The state \<open>node\<close> holds all
    connections and channels in tables, since they refer to each other. \<open>Node_Inv\<close> has a small logic for operations that may throw
    and one preservation lemma per operation; \<open>Node_Steps\<close> the step relation of a whole node and its reachable states. \<open>Handshake\<close> lets two
    nodes exchange packets until both are connected, \<open>Session\<close> sends messages over a channel between them. \<open>Node_Frame\<close> has the locale of the properties no operation can
    falsify: the identity of the node, and that its loop over the queue, once ended by an exception, is never started again.
  \<^item> \<open>Kad_Search\<close>: src/kad.cpp, a lookup as interleaved coroutines; the locale \<open>search_filter\<close> is what a subclass promises of its
    \<open>filter\<close>. \<open>Chunk_Search\<close>: src/chunk_search.cpp, the subclass that looks for the hosts of a chunk.
  \<^item> \<open>Chunk_Db\<close>, \<open>Publish_Db\<close>: src/db/chunk.cpp, src/db/publish.cpp. The locale \<open>publish_queue\<close> is the contract of a queue ordered by time.
    \<open>Chunk_Server\<close>: src/chunk_service_connection.hpp, what a node answers. \<open>Chunk_Service\<close>: src/chunk_service.cpp, the publish loop
    and the download.
  \<^item> \<open>Raw_Rpc\<close>: src/raw_rpc.cpp, promises in a linked list over an explicit heap. \<open>Chunk_Client\<close>: src/chunk_service_client.cpp, the
    chunk service called through it.
  \<^item> \<open>Randomize\<close>, \<open>Cafs\<close>, \<open>Cafs_Props\<close>: cafs/cafs.cpp and cafs/cafs_file_db.cpp, the search for a seed that makes data look random, chunks,
    imports and exports. \<open>Cafs_Store\<close> has the type of the store and what every operation keeps of it, \<open>Cafs_Tree\<close> the import of a
    directory tree with the hashes it makes.
  \<^item> \<open>Tproxy\<close>, \<open>Tproxy_Http\<close>: src/tprox.cpp, paths through the directories of the file system, and the requests, pages and replies around them.
  \<^item> \<open>Name_Service\<close>: src/name_service.cpp, src/name_service_impl.hpp, src/db/name.cpp, include/tornet/name_chain.hpp: names, who owns them, and the proof of
    work in their transactions. \<open>Httpd\<close>: src/httpd.cpp, the parser of requests, paths through archives and the replies. \<open>Download_Status\<close>:
    src/download_status.cpp, the fiber that fetches and decodes the chunks of a file for a delegate. \<open>Web_Resource\<close>:
    src/webgui/WTornetResource.cpp, the delegate that writes them to a web page while the web server calls its handler again and again. The build leaves these out.
  \<^item> \<open>Socks5\<close>: include/tornet/socks5/, the messages of the protocol, the session of a client and the threads that copy between two sockets.
  \<^item> \<open>Rpc_Connection\<close>: rpc/connection.cpp, rpc/udp_connection.cpp, rpc/udt_connection.cpp, rpc/service.cpp, the remote calls before src/raw_rpc.cpp: calls in a map by number,
    errors that reach the caller, promises broken at the end. \<open>Chunk_Data\<close>: the table of chunk data in src/db/chunk.cpp and services/chunk_session.cpp, which stores and fetches for other nodes.
    \<open>File_Import\<close>: services/chunk_service.cpp, files as encrypted chunks with an encrypted description, their export, and the schedule of their publishing. The build leaves these out as well.

  \<^bold>\<open>How the model relates to the code\<close>

  Objects are records with the members of the class, one function per operation, with the guards and early returns of the code. An exception, a
  failed assertion, a call of \<open>exit\<close> and undefined behaviour are different values of \<open>exn\<close>, so that a theorem that rules out one of them
  says which. Assertions are enabled. Threads and coroutines give way only where they wait; the functions are the pieces between
  these points, and the interleavings are the runs of a step relation (\<open>udt_run\<close>, \<open>node_run\<close>, \<open>kad_run\<close>, \<open>web_step\<close>). What comes from outside,
  the clock, the network, a file, is an argument of the step.

  Libraries that are not in the repository are parameters: the cryptography (\<open>crypto\<close>, with \<open>cipher_ok\<close>, \<open>log2_ok\<close> and, for the exchange of keys, \<open>handshake_ok\<close> and \<open>key_pair\<close>),
  Berkeley DB (\<open>bdb\<close>, with \<open>bdb_ok\<close>), the hexadecimal form of a number and the http server of the proxy (\<open>http_env\<close>, with \<open>hex_ok\<close>), the keys and the
  hashes of names (\<open>name_env\<close>, with \<open>name_env_ok\<close> and \<open>keys_ok\<close>), paths, archives and downloads of the http daemon (\<open>httpd_env\<close>), Blowfish with its chain (\<open>cbc\<close>, with \<open>cbc_ok\<close>), what the network makes of a connection request of the SOCKS proxy, the text of an exception, the arithmetic of \<open>double\<close> (\<open>fp\<close>), the Mersenne twister, the chi square test, and what a fresh \<open>fc::vector\<close> contains. For
  each there is a concrete instance on which the witnesses run. \<open>fc::datastream\<close> and \<open>fc::raw\<close> are those of the in-tree rpc library they
  grew from. A digest is a 160-bit number: the order of digests and their bytes in memory are those of the number. Integers are stored in
  little-endian order.

  Functions that may not return have the value \<open>None\<close> then: \<open>resort_loop\<close>, \<open>randomize\<close>, \<open>import_loop\<close>, the walks along promises. The handlers of a
  connection call each other; they take a bound on the depth of the calls, and \<open>call_bound\<close> is large enough for every chain of
  calls, which is proved as the absence of \<open>Out_of_fuel\<close> from every reachable state.

  \<^bold>\<open>What is shown\<close>

  Round trips: frames, messages, packets, serialised values, chunks, files of up to one mebibyte, http requests, requests of the SOCKS protocol, files of any size through the older chunk service. From end to end: a directory tree that is
  imported is served file by file, and what is published by the form of the proxy can be browsed; a download hands over the file, and the web resource writes it to its response; a SOCKS session copies both directions exactly;
  calls over datagrams are answered with the reply to their own number, however replies are lost, repeated or reordered. Types: every operation of the file system keeps the store
  a table of chunks under their hashes. Refinement: the receive window is a map, the
  results of a lookup are the closest nodes it contacted, remote calls are local calls. Invariants: on a reachable node
  the endpoint table and the connections agree, every connection past the key exchange has its cipher, the peer database files a record under
  the hash of its key, and no queued packet fails an assertion on the state or the cipher of its connection; the handlers of a
  \<open>udt_channel\<close> read nothing outside a received packet; a name one can sign with is one's own. Liveness: two nodes that do not know each other
  become connected, and messages on a channel arrive in order; the publish loop serves every chunk; reads, retransmissions and calls end; on the older connections every promise is set exactly once. Errors: what goes wrong, such as files of more than one
  mebibyte, calls answered with an error, a late nack, a data message of less than four bytes, header lines without a colon, is stated and proved next to the code it is about.

  \<^bold>\<open>Not modelled\<close>

  The parts that only do input and output (command line, configuration, bootstrapping, the pages of the graphical interfaces), opening and closing of databases, the chi
  square test, the constructors of tornet files and archives, the first generation of the network code in net/, of which src/ is the revised copy, and of the chunk search, the chat and calculator examples and the accounting
  service, which wraps a ledger that is not in the repository; logging; reference counts.
\<close>

section \<open>From import to the browser\<close>

text \<open>
  A file of at most one mebibyte that was imported is served by the web proxy: a request for the link that \<open>import\<close> returned is
  answered with the bytes of the file, whatever the path of the request.
\<close>

theorem imported_file_served:
  assumes "fill_ok E" "length c \<le> IMBED_THRESHOLD" "cafs_import E (Some (Reg c)) st = Some (Inr l, st')" "cf_files st (ln_id l) = None"
  shows "handle_link E st' l p = Inr (Served c)"
proof -
  have "import_data E (0 # c) st = Some (Inr l, st')" using assms(2,3) by (simp add: cafs_import_def)
  moreover have "length (0 # c) < 2 ^ 32 - 1" using assms(2) by (simp add: IMBED_THRESHOLD_def)
  ultimately have "get_resource_link E l st' = Inr (Some (0 # c))"
    using imported_data [OF assms(1) _ assms(4), of "0 # c"] by (auto simp: get_resource_link_def)
  then show ?thesis by (simp add: handle_link_def res_file_data_def res_is_def)
qed

theorem imported_file_served_witness:
  "\<exists>l st'. cafs_import cafs_demo (Some (Reg [1, 2, 3])) cafs_empty = Some (Inr l, st') \<and> handle_link cafs_demo st' l [47] = Inr (Served [1, 2, 3])"
proof -
  obtain l st' where "import_data cafs_demo [0, 1, 2, 3] cafs_empty = Some (Inr l, st')"
    using demo_import_data [of "[0, 1, 2, 3]" cafs_empty] by (auto simp del: of_nat_add of_nat_mult)
  then have c: "cafs_import cafs_demo (Some (Reg [1, 2, 3])) cafs_empty = Some (Inr l, st')"
    by (simp add: cafs_import_def IMBED_THRESHOLD_def)
  have "handle_link cafs_demo st' l [47] = Inr (Served [1, 2, 3])"
    by (rule imported_file_served [OF cafs_demo_fill _ c]) (simp_all add: IMBED_THRESHOLD_def cafs_empty_def)
  then show ?thesis using c by blast
qed

end
